(* ===== verification/Numax_Prelude.thy ===== *)
theory Numax_Prelude
  imports Main "HOL-Library.Word" "HOL-Library.List_Lexorder" "HOL-Library.Char_ord"
    "HOL-Library.Multiset"
begin

text \<open>
  Shared vocabulary of the development: the machine types of the Rust sources, Rust's
  saturating arithmetic, the \<open>Result\<close> type with its early return, byte strings and
  big/little endian encodings, and the generic list lemmas the component theories use.

  A Rust \<open>String\<close> is modelled by the list of its UTF-8 bytes, one \<open>char\<close> per byte, so the
  order of \<open>List_Lexorder\<close> over \<open>Char_ord\<close> is Rust's byte-wise \<open>str\<close> order. A \<open>usize\<close>
  that counts elements of a collection in memory is a \<open>nat\<close>.
\<close>

named_theorems crdt_simps \<open>functional behaviour of CRDT operations\<close>
named_theorems store_simps \<open>functional behaviour of store operations\<close>
named_theorems plan_simps \<open>replication bookkeeping\<close>

type_synonym u8 = "8 word"
type_synonym u16 = "16 word"
type_synonym u32 = "32 word"
type_synonym u64 = "64 word"
type_synonym bytes = "u8 list"

section \<open>Result values and early return\<close>

text \<open>\<open>Result<T, E>\<close> is \<open>E + T\<close>; \<open>res_bind\<close> is the \<open>?\<close> operator.\<close>

definition res_bind :: "'e + 'a \<Rightarrow> ('a \<Rightarrow> 'e + 'b) \<Rightarrow> 'e + 'b" where
  "res_bind m f = (case m of Inl e \<Rightarrow> Inl e | Inr x \<Rightarrow> f x)"

definition map_err :: "('e \<Rightarrow> 'f) \<Rightarrow> 'e + 'a \<Rightarrow> 'f + 'a" where
  "map_err g m = (case m of Inl e \<Rightarrow> Inl (g e) | Inr x \<Rightarrow> Inr x)"

definition is_ok :: "'e + 'a \<Rightarrow> bool" where
  "is_ok m = (case m of Inl _ \<Rightarrow> False | Inr _ \<Rightarrow> True)"

text \<open>A \<open>for\<close> loop with \<open>?\<close> in its body: the first error ends it.\<close>

fun fold_res :: "('x \<Rightarrow> 's \<Rightarrow> 'e + 's) \<Rightarrow> 'x list \<Rightarrow> 's \<Rightarrow> 'e + 's" where
  "fold_res f [] s = Inr s"
| "fold_res f (x # xs) s = (case f x s of Inl e \<Rightarrow> Inl e | Inr s' \<Rightarrow> fold_res f xs s')"

text \<open>
  A \<open>for\<close> loop over an iterator of results, \<open>for item in iter { let x = item?; ... }\<close>: the
  body continues, breaks or returns an error. An iterator yields a list of results.
\<close>

datatype ('e, 's) flow = Continue 's | Break 's | Fail 'e

fun for_try :: "('f \<Rightarrow> 'e) \<Rightarrow> ('x \<Rightarrow> 's \<Rightarrow> ('e, 's) flow) \<Rightarrow> ('f + 'x) list \<Rightarrow> 's \<Rightarrow> 'e + 's" where
  "for_try g body [] s = Inr s"
| "for_try g body (Inl f # items) s = Inl (g f)"
| "for_try g body (Inr x # items) s =
     (case body x s of
        Continue s' \<Rightarrow> for_try g body items s'
      | Break s' \<Rightarrow> Inr s'
      | Fail e \<Rightarrow> Inl e)"

text \<open>
  Code that changes a state and may fail: the state it leaves, with its result. \<open>st_bind\<close> is
  \<open>?\<close> for such code, \<open>st_lift\<close> a result that leaves the state alone, \<open>st_fold\<close> a \<open>for\<close> loop.
\<close>

type_synonym ('s, 'e, 'a) stm = "'s \<Rightarrow> 's \<times> ('e + 'a)"

definition st_lift :: "'e + 'a \<Rightarrow> ('s, 'e, 'a) stm" where
  "st_lift r s = (s, r)"

definition st_bind :: "('s, 'e, 'a) stm \<Rightarrow> ('a \<Rightarrow> ('s, 'e, 'b) stm) \<Rightarrow> ('s, 'e, 'b) stm" where
  "st_bind m f s = (case m s of (s', Inl e) \<Rightarrow> (s', Inl e) | (s', Inr a) \<Rightarrow> f a s')"

definition st_map_err :: "('e \<Rightarrow> 'f) \<Rightarrow> ('s, 'e, 'a) stm \<Rightarrow> ('s, 'f, 'a) stm" where
  "st_map_err g m s = map_prod id (map_err g) (m s)"

fun st_fold :: "('x \<Rightarrow> 'a \<Rightarrow> ('s, 'e, 'a) stm) \<Rightarrow> 'x list \<Rightarrow> 'a \<Rightarrow> ('s, 'e, 'a) stm" where
  "st_fold f [] a = st_lift (Inr a)"
| "st_fold f (x # xs) a = st_bind (f x a) (st_fold f xs)"

section \<open>Saturating arithmetic\<close>

definition u64_max :: nat where
  "u64_max = 2 ^ 64 - 1"

definition saturating_add :: "u64 \<Rightarrow> u64 \<Rightarrow> u64" where
  "saturating_add a b = of_nat (min (unat a + unat b) u64_max)"

definition u32_saturating_add :: "u32 \<Rightarrow> u32 \<Rightarrow> u32" where
  "u32_saturating_add a b = of_nat (min (unat a + unat b) (2 ^ 32 - 1))"

section \<open>Bytes\<close>

text \<open>\<open>as_bytes\<close> and \<open>to_be_bytes\<close>, \<open>to_le_bytes\<close> with their inverses on arrays.\<close>

definition as_bytes :: "string \<Rightarrow> bytes" where
  "as_bytes s = map (\<lambda>c. of_nat (of_char c)) s"

definition string_of_bytes :: "bytes \<Rightarrow> string" where
  "string_of_bytes bs = map (\<lambda>b. char_of (unat b)) bs"

definition starts_with :: "bytes \<Rightarrow> bytes \<Rightarrow> bool" where
  "starts_with k p = (take (length p) k = p)"

fun le_bytes :: "nat \<Rightarrow> nat \<Rightarrow> bytes" where
  "le_bytes 0 n = []"
| "le_bytes (Suc w) n = of_nat (n mod 256) # le_bytes w (n div 256)"

fun nat_of_le_bytes :: "bytes \<Rightarrow> nat" where
  "nat_of_le_bytes [] = 0"
| "nat_of_le_bytes (b # bs) = unat b + 256 * nat_of_le_bytes bs"

definition u64_to_le_bytes :: "u64 \<Rightarrow> bytes" where
  "u64_to_le_bytes w = le_bytes 8 (unat w)"

definition u64_to_be_bytes :: "u64 \<Rightarrow> bytes" where
  "u64_to_be_bytes w = rev (le_bytes 8 (unat w))"

definition u64_from_le_bytes :: "bytes \<Rightarrow> u64" where
  "u64_from_le_bytes bs = of_nat (nat_of_le_bytes bs)"

definition u64_from_be_bytes :: "bytes \<Rightarrow> u64" where
  "u64_from_be_bytes bs = of_nat (nat_of_le_bytes (rev bs))"

definition u16_to_be_bytes :: "u16 \<Rightarrow> bytes" where
  "u16_to_be_bytes w = rev (le_bytes 2 (unat w))"

definition u16_from_be_bytes :: "bytes \<Rightarrow> u16" where
  "u16_from_be_bytes bs = of_nat (nat_of_le_bytes (rev bs))"

definition u32_to_be_bytes :: "u32 \<Rightarrow> bytes" where
  "u32_to_be_bytes w = rev (le_bytes 4 (unat w))"

definition u32_from_be_bytes :: "bytes \<Rightarrow> u32" where
  "u32_from_be_bytes bs = of_nat (nat_of_le_bytes (rev bs))"

section \<open>Lemmas on results\<close>

lemma res_bind_simps [simp]:
  "res_bind (Inl e) f = Inl e"
  "res_bind (Inr x) f = f x"
  by (simp_all add: res_bind_def)

lemma res_bind_Inr_iff: "res_bind m f = Inr y \<longleftrightarrow> (\<exists>x. m = Inr x \<and> f x = Inr y)"
  by (cases m) auto

lemma map_err_simps [simp]:
  "map_err g (Inl e) = Inl (g e)"
  "map_err g (Inr x) = Inr x"
  by (simp_all add: map_err_def)

lemma map_err_Inr_iff [simp]: "map_err g m = Inr x \<longleftrightarrow> m = Inr x"
  by (cases m) auto

lemma is_ok_simps [simp]: "is_ok (Inl e) = False" "is_ok (Inr x) = True"
  by (simp_all add: is_ok_def)

lemma fold_res_append:
  "fold_res f (xs @ ys) s = res_bind (fold_res f xs s) (fold_res f ys)"
  by (induction xs arbitrary: s) (auto split: sum.splits)

text \<open>A loop whose body never fails is a fold.\<close>

lemma fold_res_Inr:
  "(\<And>x s. x \<in> set xs \<Longrightarrow> f x s = Inr (g x s)) \<Longrightarrow> fold_res f xs s = Inr (fold g xs s)"
  by (induction xs arbitrary: s) auto

section \<open>Lemmas on saturating arithmetic\<close>

lemma unat_le_u64_max [simp]: "unat (a :: u64) \<le> u64_max"
  using unsigned_less [of a, where ?'a = nat] by (simp add: u64_max_def)

lemma unat_of_nat_u64: "n \<le> u64_max \<Longrightarrow> unat (of_nat n :: u64) = n"
  by (simp add: unat_of_nat u64_max_def)

lemma unat_saturating_add [simp]:
  "unat (saturating_add a b) = min (unat a + unat b) u64_max"
  by (simp add: saturating_add_def unat_of_nat_u64)

lemma saturating_add_commute: "saturating_add a b = saturating_add b a"
  by (simp add: saturating_add_def add.commute)

lemma saturating_add_assoc:
  "saturating_add (saturating_add a b) c = saturating_add a (saturating_add b c)"
  by (simp add: word_unat_eq_iff)

lemma saturating_add_left_commute:
  "saturating_add a (saturating_add b c) = saturating_add b (saturating_add a c)"
  by (metis saturating_add_assoc saturating_add_commute)

lemma saturating_add_zero [simp]:
  "saturating_add 0 a = a" "saturating_add a 0 = a"
  by (simp_all add: word_unat_eq_iff)

lemma saturating_add_ge: "a \<le> saturating_add a b"
  by (simp add: word_le_nat_alt)

lemma saturating_add_mono: "b \<le> c \<Longrightarrow> saturating_add a b \<le> saturating_add a c"
  by (simp add: word_le_nat_alt)

lemma saturating_add_exact:
  "unat a + unat b \<le> u64_max \<Longrightarrow> saturating_add a b = a + b"
  by (simp add: word_unat_eq_iff unat_word_ariths) (simp add: u64_max_def)

text \<open>Saturation without unary numbers, for evaluation.\<close>

lemma saturating_add_code [code]: "saturating_add a b = (if a + b < a then - 1 else a + b)"
proof (cases "unat a + unat b \<le> u64_max")
  case True
  then show ?thesis by (simp add: saturating_add_exact word_less_nat_alt unat_word_ariths u64_max_def)
next
  case False
  then have "unat (a + b) = unat a + unat b - 2 ^ 64"
    using unat_le_u64_max [of a] unat_le_u64_max [of b] by (simp add: unat_word_ariths u64_max_def mod_if)
  then have "a + b < a" using unat_le_u64_max [of b] False by (simp add: word_less_nat_alt u64_max_def)
  with False show ?thesis by (simp add: word_unat_eq_iff u64_max_def unsigned_minus_1_eq_mask mask_eq_exp_minus_1)
qed

lemma unat_u32_saturating_add [simp]:
  "unat (u32_saturating_add a b) = min (unat a + unat b) (2 ^ 32 - 1)"
  by (simp add: u32_saturating_add_def unat_of_nat)

section \<open>Lemmas on stateful code\<close>

lemma st_lift_Inr [simp]: "st_lift r s = (s', Inr a) \<longleftrightarrow> s' = s \<and> r = Inr a"
  by (auto simp: st_lift_def)

lemma st_bind_Inr:
  "st_bind m f s = (s', Inr b) \<longleftrightarrow> (\<exists>t a. m s = (t, Inr a) \<and> f a t = (s', Inr b))"
  by (auto simp: st_bind_def split: prod.splits sum.splits)

lemma st_map_err_Inr [simp]: "st_map_err g m s = (s', Inr a) \<longleftrightarrow> m s = (s', Inr a)"
  by (cases "m s") (auto simp: st_map_err_def)

text \<open>An invariant of the state that every turn of a loop keeps.\<close>

lemma st_fold_inv:
  assumes "\<And>x a s s' b. x \<in> set xs \<Longrightarrow> P a s \<Longrightarrow> f x a s = (s', Inr b) \<Longrightarrow> P b s'"
  shows "P a s \<Longrightarrow> st_fold f xs a s = (s', Inr b) \<Longrightarrow> P b s'"
  using assms
proof (induction xs arbitrary: a s)
  case (Cons x xs)
  from Cons.prems(2) obtain t c where step: "f x a s = (t, Inr c)" "st_fold f xs c t = (s', Inr b)"
    by (auto simp: st_bind_Inr)
  have "P c t" using Cons.prems(1) step(1) by (auto intro: Cons.prems(3))
  then show ?case using step(2) by (rule Cons.IH) (auto intro: Cons.prems(3))
qed simp

section \<open>Lemmas on loops over iterators\<close>

text \<open>
  What iterating over the elements \<open>xs\<close> may yield: all of them, or some of them up to an
  error.
\<close>

definition iterates :: "('f + 'x) list \<Rightarrow> 'x list \<Rightarrow> bool" where
  "iterates items xs =
     (items = map Inr xs \<or> (\<exists>n f rest. items = map Inr (take n xs) @ Inl f # rest))"

lemma iterates_Nil: "iterates [] xs \<Longrightarrow> xs = []"
  by (auto simp: iterates_def)

lemma iterates_Cons: "iterates (Inr x # items) xs \<Longrightarrow> xs \<noteq> []"
  by (auto simp: iterates_def)

lemma for_try_early:
  "for_try g body (map Inr xs @ Inl f # rest) s = Inr out \<Longrightarrow>
   for_try g body (map Inr (xs @ ys)) s = Inr out"
  by (induction xs arbitrary: s) (auto split: flow.splits)

text \<open>A loop that ends without an error has run over the elements.\<close>

lemma for_try_iterates:
  assumes "iterates items xs" "for_try g body items s = Inr out"
  shows "for_try g body (map Inr xs) s = Inr out"
  using assms unfolding iterates_def by (metis append_take_drop_id for_try_early)

lemma for_try_collect [simp]:
  "for_try g (\<lambda>(k, v) out. Continue (out @ [(k, v)])) (map Inr xs) s = Inr (s @ xs)"
  by (induction xs arbitrary: s) (auto split: prod.splits)

section \<open>Lemmas on bytes\<close>

lemma string_of_as_bytes [simp]: "string_of_bytes (as_bytes s) = s"
  by (induction s) (simp_all add: string_of_bytes_def as_bytes_def unat_of_nat)

lemma as_bytes_append: "as_bytes (s @ t) = as_bytes s @ as_bytes t"
  by (simp add: as_bytes_def)

lemma length_as_bytes [simp]: "length (as_bytes s) = length s"
  by (simp add: as_bytes_def)

lemma as_bytes_inject [simp]: "as_bytes s = as_bytes t \<longleftrightarrow> s = t"
  by (metis string_of_as_bytes)

lemma starts_with_Nil [simp]: "starts_with k []"
  by (simp add: starts_with_def)

lemma starts_with_Cons [simp]:
  "starts_with (a # k) (b # p) \<longleftrightarrow> a = b \<and> starts_with k p"
  "\<not> starts_with [] (b # p)"
  by (auto simp: starts_with_def)

lemma starts_with_append [simp]: "starts_with (p @ k) p"
  by (simp add: starts_with_def)

lemma starts_with_iff: "starts_with k p \<longleftrightarrow> (\<exists>r. k = p @ r)"
  by (metis append_take_drop_id starts_with_append starts_with_def)

text \<open>The keys with a given prefix are contiguous in the byte order.\<close>

lemma starts_with_between:
  "p \<le> k \<Longrightarrow> k \<le> k' \<Longrightarrow> starts_with k' p \<Longrightarrow> starts_with k p"
proof (induction p arbitrary: k k')
  case (Cons b p)
  then obtain r where k': "k' = b # r" by (cases k') auto
  obtain c q where k: "k = c # q" using Cons.prems(1) by (cases k) auto
  with k' Cons show ?case by (auto simp: order.order_iff_strict)
qed simp

lemma starts_with_ge: "starts_with k p \<Longrightarrow> p \<le> k"
proof (induction p arbitrary: k)
  case (Cons b p)
  then show ?case by (cases k) auto
qed simp

lemma length_le_bytes [simp]: "length (le_bytes w n) = w"
  by (induction w arbitrary: n) auto

lemma nat_of_le_bytes_le_bytes: "n < 256 ^ w \<Longrightarrow> nat_of_le_bytes (le_bytes w n) = n"
proof (induction w arbitrary: n)
  case (Suc w)
  then have "n div 256 < 256 ^ w" by (simp add: less_mult_imp_div_less mult.commute)
  with Suc.IH show ?case by (simp add: unat_of_nat)
qed simp

lemma unat_u64_less: "unat (w :: u64) < 256 ^ 8"
  using unsigned_less [of w, where ?'a = nat] by simp

lemma unat_u16_less: "unat (w :: u16) < 256 ^ 2"
  using unsigned_less [of w, where ?'a = nat] by simp

lemma length_to_bytes [simp]:
  "length (u64_to_le_bytes w) = 8" "length (u64_to_be_bytes w) = 8"
  "length (u16_to_be_bytes v) = 2" "length (u32_to_be_bytes x) = 4"
  by (simp_all add: u64_to_le_bytes_def u64_to_be_bytes_def u16_to_be_bytes_def u32_to_be_bytes_def)

lemma u64_le_bytes_roundtrip [simp]: "u64_from_le_bytes (u64_to_le_bytes w) = w"
  by (simp add: u64_from_le_bytes_def u64_to_le_bytes_def
      nat_of_le_bytes_le_bytes [OF unat_u64_less])

lemma u64_be_bytes_roundtrip [simp]: "u64_from_be_bytes (u64_to_be_bytes w) = w"
  by (simp add: u64_from_be_bytes_def u64_to_be_bytes_def
      nat_of_le_bytes_le_bytes [OF unat_u64_less])

lemma u16_be_bytes_roundtrip [simp]: "u16_from_be_bytes (u16_to_be_bytes w) = w"
  by (simp add: u16_from_be_bytes_def u16_to_be_bytes_def
      nat_of_le_bytes_le_bytes [OF unat_u16_less])

lemma unat_u32_less: "unat (w :: u32) < 256 ^ 4"
  using unsigned_less [of w, where ?'a = nat] by simp

lemma u32_be_bytes_roundtrip [simp]: "u32_from_be_bytes (u32_to_be_bytes w) = w"
  by (simp add: u32_from_be_bytes_def u32_to_be_bytes_def
      nat_of_le_bytes_le_bytes [OF unat_u32_less])

text \<open>A byte string of the right length is the encoding of what it decodes to.\<close>

lemma nat_of_le_bytes_bound: "nat_of_le_bytes bs < 256 ^ length bs"
proof (induction bs)
  case (Cons b bs)
  have "unat b < 256" using unsigned_less [of b, where ?'a = nat] by simp
  with Cons show ?case by simp
qed simp

lemma le_bytes_nat_of_le_bytes: "le_bytes (length bs) (nat_of_le_bytes bs) = bs"
proof (induction bs)
  case (Cons b bs)
  have "unat b < 256" using unsigned_less [of b, where ?'a = nat] by simp
  with Cons show ?case by simp
qed simp

lemma be_bytes_decoded:
  "length bs = 2 \<Longrightarrow> u16_to_be_bytes (u16_from_be_bytes bs) = bs"
  "length bs = 4 \<Longrightarrow> u32_to_be_bytes (u32_from_be_bytes bs) = bs"
  using nat_of_le_bytes_bound [of "rev bs"] le_bytes_nat_of_le_bytes [of "rev bs"]
  by (simp_all add: u16_to_be_bytes_def u16_from_be_bytes_def u32_to_be_bytes_def u32_from_be_bytes_def unat_of_nat)

section \<open>Lemmas on lists\<close>

lemma in_set_map_filter:
  "y \<in> set (List.map_filter f xs) \<longleftrightarrow> (\<exists>x \<in> set xs. f x = Some y)"
  by (induction xs) (auto split: option.splits)

lemma set_drop_distinct:
  "distinct xs \<Longrightarrow> set (drop n xs) = set xs - set (take n xs)"
proof -
  assume "distinct xs"
  then have "distinct (take n xs @ drop n xs)" by simp
  then have "set (take n xs) \<inter> set (drop n xs) = {}"
    unfolding distinct_append by blast
  moreover have "set xs = set (take n xs) \<union> set (drop n xs)"
    by (metis append_take_drop_id set_append)
  ultimately show ?thesis by blast
qed

text \<open>A list without repetitions, every element where it first occurs.\<close>

definition dedup_onto :: "'a list \<Rightarrow> 'a list \<Rightarrow> 'a list" where
  "dedup_onto acc xs = fold (\<lambda>x acc. if x \<in> set acc then acc else acc @ [x]) xs acc"

lemma dedup_onto_props:
  "distinct acc \<Longrightarrow> distinct (dedup_onto acc xs)" "set (dedup_onto acc xs) = set acc \<union> set xs"
  "take (length acc) (dedup_onto acc xs) = acc" "length acc \<le> length (dedup_onto acc xs)"
proof -
  have snoc: "dedup_onto acc (x # xs) = dedup_onto (if x \<in> set acc then acc else acc @ [x]) xs" for acc and x :: 'a and xs
    by (simp add: dedup_onto_def)
  have nil: "dedup_onto acc [] = acc" for acc :: "'a list" by (simp add: dedup_onto_def)
  show "distinct acc \<Longrightarrow> distinct (dedup_onto acc xs)"
    by (induction xs arbitrary: acc) (simp_all add: snoc nil)
  show "set (dedup_onto acc xs) = set acc \<union> set xs"
    by (induction xs arbitrary: acc) (auto simp: snoc nil)
  have "\<exists>ys. dedup_onto acc xs = acc @ ys"
  proof (induction xs arbitrary: acc)
    case (Cons x xs)
    from Cons [of "if x \<in> set acc then acc else acc @ [x]"] show ?case by (auto simp: snoc split: if_splits)
  qed (simp add: nil)
  then show "take (length acc) (dedup_onto acc xs) = acc" "length acc \<le> length (dedup_onto acc xs)" by auto
qed

end
