(* ===== verification/Ordered_Map.thy ===== *)
theory Ordered_Map
  imports Numax_Prelude
begin

text \<open>
  Finite maps of the standard library: \<open>BTreeMap\<close>, \<open>HashMap\<close> and the sets built on them.
  A map is the list of its entries in strictly ascending key order, so that equality of
  maps is equality of the list (Rust's \<open>PartialEq\<close> on maps), iteration of a \<open>BTreeMap\<close> is
  a traversal of the list, and every operation evaluates. A \<open>HashMap\<close> has the same model:
  no function modelled in this development returns a value that depends on the iteration
  order of one (lemma \<open>fold_get\<close> of locale \<open>pointwise_merge\<close> below holds for every order of
  the entries). A \<open>BTreeSet\<close> is a map to \<open>unit\<close>, as in the standard library.
\<close>

section \<open>Definitions\<close>

fun al_insert :: "'k::linorder \<Rightarrow> 'v \<Rightarrow> ('k \<times> 'v) list \<Rightarrow> ('k \<times> 'v) list" where
  "al_insert k v [] = [(k, v)]"
| "al_insert k v ((k', v') # xs) =
     (if k < k' then (k, v) # (k', v') # xs
      else if k = k' then (k, v) # xs
      else (k', v') # al_insert k v xs)"

typedef (overloaded) ('k::linorder, 'v) omap =
  "{xs :: ('k \<times> 'v) list. sorted_wrt (<) (map fst xs)}"
  morphisms om_entries Omap
  by (rule exI [of _ "[]"]) simp

setup_lifting type_definition_omap

lemma al_insert_keys: "fst ` set (al_insert k v xs) = insert k (fst ` set xs)"
  by (induction k v xs rule: al_insert.induct) auto

lemma al_insert_sorted:
  "sorted_wrt (<) (map fst xs) \<Longrightarrow> sorted_wrt (<) (map fst (al_insert k v xs))"
proof (induction k v xs rule: al_insert.induct)
  case (2 k v k' v' xs)
  have "\<forall>x \<in> fst ` set (al_insert k v xs). k' < x" if "k' < k"
    using 2(2) that by (auto simp: al_insert_keys)
  with 2 show ?case by auto
qed simp

lift_definition om_empty :: "('k::linorder, 'v) omap" is "[]"
  by simp

lift_definition om_get :: "('k::linorder, 'v) omap \<Rightarrow> 'k \<Rightarrow> 'v option" is map_of .

lift_definition om_insert :: "'k::linorder \<Rightarrow> 'v \<Rightarrow> ('k, 'v) omap \<Rightarrow> ('k, 'v) omap" is al_insert
  by (rule al_insert_sorted)

lift_definition om_filter :: "('k \<Rightarrow> bool) \<Rightarrow> ('k::linorder, 'v) omap \<Rightarrow> ('k, 'v) omap"
  is "\<lambda>p xs. filter (p \<circ> fst) xs"
  by (simp add: filter_map [symmetric] sorted_wrt_filter)

lift_definition om_map :: "('k \<Rightarrow> 'v \<Rightarrow> 'w) \<Rightarrow> ('k::linorder, 'v) omap \<Rightarrow> ('k, 'w) omap"
  is "\<lambda>f xs. map (\<lambda>(k, v). (k, f k v)) xs"
  by (simp add: comp_def case_prod_unfold)

definition om_remove :: "'k::linorder \<Rightarrow> ('k, 'v) omap \<Rightarrow> ('k, 'v) omap" where
  "om_remove k m = om_filter (\<lambda>k'. k' \<noteq> k) m"

definition om_keys :: "('k::linorder, 'v) omap \<Rightarrow> 'k list" where
  "om_keys m = map fst (om_entries m)"

definition om_values :: "('k::linorder, 'v) omap \<Rightarrow> 'v list" where
  "om_values m = map snd (om_entries m)"

definition om_len :: "('k::linorder, 'v) omap \<Rightarrow> nat" where
  "om_len m = length (om_entries m)"

definition om_contains_key :: "('k::linorder, 'v) omap \<Rightarrow> 'k \<Rightarrow> bool" where
  "om_contains_key m k = (om_get m k \<noteq> None)"

text \<open>\<open>get(k).unwrap_or(d)\<close>, also the value seen by \<open>entry(k).or_insert(d)\<close>.\<close>

definition om_get_or :: "('k::linorder, 'v) omap \<Rightarrow> 'k \<Rightarrow> 'v \<Rightarrow> 'v" where
  "om_get_or m k d = (case om_get m k of None \<Rightarrow> d | Some v \<Rightarrow> v)"

type_synonym 'a oset = "('a, unit) omap"

text \<open>\<open>BTreeSet::insert\<close> (true when the element is new), \<open>contains\<close> and \<open>extend\<close>.\<close>

definition os_insert :: "'a::linorder \<Rightarrow> 'a oset \<Rightarrow> 'a oset \<times> bool" where
  "os_insert x s = (om_insert x () s, \<not> om_contains_key s x)"

definition os_member :: "'a oset \<Rightarrow> 'a::linorder \<Rightarrow> bool" where
  "os_member s x = om_contains_key s x"

definition os_extend :: "'a::linorder list \<Rightarrow> 'a oset \<Rightarrow> 'a oset" where
  "os_extend xs s = fold (\<lambda>x. om_insert x ()) xs s"

definition os_set :: "'a::linorder oset \<Rightarrow> 'a set" where
  "os_set s = dom (om_get s)"

instantiation omap :: (linorder, equal) equal
begin

definition equal_omap :: "('a, 'b) omap \<Rightarrow> ('a, 'b) omap \<Rightarrow> bool" where
  "equal_omap m n = (om_entries m = om_entries n)"

instance
  by standard (simp add: equal_omap_def om_entries_inject)

end

section \<open>Lookup laws\<close>

lemma om_entries_empty [simp]: "om_entries om_empty = []"
  by transfer simp

lemma om_entries_insert [simp]: "om_entries (om_insert k v m) = al_insert k v (om_entries m)"
  by transfer simp

lemma om_entries_filter [simp]: "om_entries (om_filter p m) = filter (p \<circ> fst) (om_entries m)"
  by transfer simp

lemma om_get_map_of: "om_get m = map_of (om_entries m)"
  by transfer simp

lemma om_get_empty [simp]: "om_get om_empty = Map.empty"
  by transfer simp

lemma map_of_al_insert: "map_of (al_insert k v xs) = (map_of xs)(k \<mapsto> v)"
  by (induction k v xs rule: al_insert.induct) (auto simp: fun_eq_iff)

lemma om_get_insert [simp]: "om_get (om_insert k v m) = (om_get m)(k \<mapsto> v)"
  by transfer (rule map_of_al_insert)

lemma map_of_filter_fst: "map_of (filter (p \<circ> fst) xs) k = (if p k then map_of xs k else None)"
  by (induction xs) auto

lemma om_get_filter: "om_get (om_filter p m) k = (if p k then om_get m k else None)"
  by transfer (rule map_of_filter_fst)

lemma map_of_map_key: "map_of (map (\<lambda>(k, v). (k, f k v)) xs) k = map_option (f k) (map_of xs k)"
  by (induction xs) auto

lemma om_get_map [simp]: "om_get (om_map f m) k = map_option (f k) (om_get m k)"
  by transfer (rule map_of_map_key)

lemma om_get_remove [simp]: "om_get (om_remove k m) = (om_get m)(k := None)"
  by (auto simp: om_remove_def om_get_filter fun_eq_iff)

lemma om_sorted: "sorted_wrt (<) (map fst (om_entries m))"
  using om_entries by blast

lemma om_distinct [simp]: "distinct (map fst (om_entries m))"
  using om_sorted [of m] by (simp add: strict_sorted_iff)

lemma om_in_entries: "(k, v) \<in> set (om_entries m) \<longleftrightarrow> om_get m k = Some v"
  by (simp add: om_get_map_of)

lemma om_set_keys [simp]: "set (om_keys m) = dom (om_get m)"
  by (simp add: om_keys_def om_get_map_of dom_map_of_conv_image_fst)

lemma om_keys_sorted [simp]: "sorted_wrt (<) (om_keys m)"
  using om_sorted by (simp add: om_keys_def)

lemma om_keys_distinct [simp]: "distinct (om_keys m)"
  by (simp add: om_keys_def)

lemma om_finite_dom [simp]: "finite (dom (om_get m))"
  by (simp add: om_get_map_of finite_dom_map_of)

lemma om_len_card: "om_len m = card (dom (om_get m))"
  by (metis om_keys_def om_keys_distinct om_len_def om_set_keys distinct_card length_map)

lemma om_contains_key_iff: "om_contains_key m k \<longleftrightarrow> k \<in> dom (om_get m)"
  by (auto simp: om_contains_key_def)

text \<open>Two maps that agree on every lookup are the same map.\<close>

lemma om_ext: "om_get m = om_get n \<Longrightarrow> m = n"
proof -
  assume eq: "om_get m = om_get n"
  then have "set (om_keys m) = set (om_keys n)" by simp
  then have "om_keys m = om_keys n"
    by (metis om_keys_sorted strict_sorted_equal)
  moreover have "om_entries k = map (\<lambda>x. (x, the (om_get k x))) (om_keys k)"
    for k :: "('a, 'b) omap"
    by (auto simp: om_keys_def om_in_entries intro!: map_idI [symmetric])
  ultimately show "m = n"
    by (metis eq om_entries_inject)
qed

lemma om_eq_iff: "m = n \<longleftrightarrow> (\<forall>k. om_get m k = om_get n k)"
  by (auto intro: om_ext)

lemma om_insert_same: "om_get m k = Some v \<Longrightarrow> om_insert k v m = m"
  by (rule om_ext) auto

lemma om_insert_overwrite [simp]: "om_insert k v (om_insert k w m) = om_insert k v m"
  by (rule om_ext) simp

lemma om_insert_commute:
  "k \<noteq> l \<Longrightarrow> om_insert k v (om_insert l w m) = om_insert l w (om_insert k v m)"
  by (rule om_ext) (simp add: fun_upd_twist)

lemma om_get_or_insert [simp]:
  "om_get_or (om_insert k v m) l d = (if k = l then v else om_get_or m l d)"
  by (simp add: om_get_or_def)

lemma om_get_or_empty [simp]: "om_get_or om_empty k d = d"
  by (simp add: om_get_or_def)

section \<open>Sets\<close>

lemma os_member_iff [simp]: "os_member s x \<longleftrightarrow> x \<in> os_set s"
  by (simp add: os_member_def os_set_def om_contains_key_iff)

lemma os_set_empty [simp]: "os_set om_empty = {}"
  by (simp add: os_set_def)

lemma os_set_insert [simp]: "os_set (om_insert x u s) = insert x (os_set s)"
  by (auto simp: os_set_def)

lemma os_finite [simp]: "finite (os_set s)"
  by (simp add: os_set_def)

lemma os_set_extend [simp]: "os_set (os_extend xs s) = set xs \<union> os_set s"
  unfolding os_extend_def by (induction xs arbitrary: s) auto

lemma os_ext: "os_set s = os_set t \<Longrightarrow> s = t"
proof (rule om_ext, rule ext)
  fix x
  assume "os_set s = os_set t"
  then have "x \<in> dom (om_get s) \<longleftrightarrow> x \<in> dom (om_get t)" by (simp add: os_set_def)
  then show "om_get s x = om_get t x"
    by (cases "om_get s x"; cases "om_get t x") auto
qed

lemma os_len_card: "om_len s = card (os_set s)"
  by (simp add: om_len_card os_set_def)

lemma os_set_keys [simp]: "set (om_keys (s :: 'a::linorder oset)) = os_set s"
  by (simp add: os_set_def)

lemma os_set_code [code]: "os_set s = set (om_keys s)"
  by (simp add: os_set_def)

lemma os_extend_len: "om_len (os_extend xs s) = om_len s \<longleftrightarrow> set xs \<subseteq> os_set s"
proof -
  have "card (set xs \<union> os_set s) = card (os_set s)" if "set xs \<subseteq> os_set s"
    using that by (simp add: Un_absorb1)
  moreover have "set xs \<subseteq> os_set s" if "card (set xs \<union> os_set s) = card (os_set s)"
    using card_subset_eq [of "set xs \<union> os_set s" "os_set s"] that by auto
  ultimately show ?thesis unfolding os_len_card os_set_extend by blast
qed

lemma os_dom [simp]: "dom (om_get (s :: 'a::linorder oset)) = os_set s"
  by (simp add: os_set_def)

section \<open>Loops that update a map pointwise\<close>

text \<open>
  The interface every merge loop of the program relies on: one iteration changes only the
  entry of its own key, to a value computed from the old entry and the visited one. The
  loop then changes each key of the visited entries once, in whatever order they come.
\<close>

locale pointwise_merge =
  fixes step :: "'k::linorder \<times> 'w \<Rightarrow> ('k, 'v) omap \<Rightarrow> ('k, 'v) omap"
    and join :: "'v option \<Rightarrow> 'w \<Rightarrow> 'v"
  assumes step_get: "om_get (step (k, w) m) = (om_get m)(k \<mapsto> join (om_get m k) w)"
begin

lemma fold_get:
  "distinct (map fst xs) \<Longrightarrow>
   om_get (fold step xs m) k =
     (case map_of xs k of None \<Rightarrow> om_get m k | Some w \<Rightarrow> Some (join (om_get m k) w))"
proof (induction xs arbitrary: m)
  case (Cons x xs)
  obtain k' w where x: "x = (k', w)" by (cases x)
  have "map_of xs k' = None" using Cons.prems x by (simp add: map_of_eq_None_iff)
  with Cons x show ?case by (auto simp: step_get split: option.splits)
qed simp

lemma fold_entries_get:
  "om_get (fold step (om_entries n) m) k =
     (case om_get n k of None \<Rightarrow> om_get m k | Some w \<Rightarrow> Some (join (om_get m k) w))"
  using fold_get [OF om_distinct, of n m k] by (simp add: om_get_map_of [of n])

lemma fold_any_order:
  "distinct (map fst xs) \<Longrightarrow> set xs = set (om_entries n) \<Longrightarrow>
   fold step xs m = fold step (om_entries n) m"
proof (rule om_ext, rule ext)
  fix k
  assume "distinct (map fst xs)" and "set xs = set (om_entries n)"
  then have "map_of xs = map_of (om_entries n)"
    by (metis map_of_inject_set om_distinct)
  with \<open>distinct (map fst xs)\<close>
  show "om_get (fold step xs m) k = om_get (fold step (om_entries n) m) k"
    by (simp add: fold_get)
qed

end

text \<open>
  When the visited entries have the values of the map itself and the value join is
  commutative, associative and idempotent, so is the merge of maps.
\<close>

locale semilattice_merge = pointwise_merge step join
  for step :: "'k::linorder \<times> 'v \<Rightarrow> ('k, 'v) omap \<Rightarrow> ('k, 'v) omap"
    and join :: "'v option \<Rightarrow> 'v \<Rightarrow> 'v" +
  fixes lub :: "'v \<Rightarrow> 'v \<Rightarrow> 'v"
  assumes join_None: "join None w = w"
    and join_Some: "join (Some v) w = lub v w"
    and lub_commute: "lub v w = lub w v"
    and lub_assoc: "lub (lub u v) w = lub u (lub v w)"
    and lub_idem: "lub v v = v"
begin

lemma merge_get:
  "om_get (fold step (om_entries n) m) k =
     (case om_get n k of
        None \<Rightarrow> om_get m k
      | Some w \<Rightarrow> (case om_get m k of None \<Rightarrow> Some w | Some v \<Rightarrow> Some (lub v w)))"
  by (simp add: fold_entries_get join_None join_Some split: option.split)

lemma merge_commute: "fold step (om_entries n) m = fold step (om_entries m) n"
  by (rule om_ext) (auto simp: fun_eq_iff merge_get lub_commute split: option.split)

lemma merge_assoc:
  "fold step (om_entries p) (fold step (om_entries n) m) =
   fold step (om_entries (fold step (om_entries p) n)) m"
  by (rule om_ext) (auto simp: fun_eq_iff merge_get lub_assoc split: option.split)

lemma merge_idem: "fold step (om_entries m) m = m"
  by (rule om_ext) (auto simp: fun_eq_iff merge_get lub_idem split: option.split)

end

end
