(* ===== verification/Kv_Store.thy ===== *)
theory Kv_Store
  imports Ordered_Map
begin

text \<open>
  \<open>nx-store/src/store.rs\<close> and \<open>nx-store/src/error.rs\<close>: the key/value store, a wrapper around
  a \<open>sled\<close> tree. \<open>sled\<close> is third-party, so its operations are a parameter: a record of
  functions over an unknown database type \<open>'db\<close>. \<open>sled_ok\<close> names what the sources rely on
  and \<open>sled\<close> documents: an ordered map, batches applied atomically, iteration in key order.
  Every operation may fail; an operation returns the database it leaves with its result.
\<close>

section \<open>The embedded database, as a parameter\<close>

datatype batch_op = BatchInsert bytes bytes | BatchRemove bytes

record 'db sled =
  sled_get :: "'db \<Rightarrow> bytes \<Rightarrow> string + bytes option"
  sled_contains_key :: "'db \<Rightarrow> bytes \<Rightarrow> string + bool"
  sled_insert :: "'db \<Rightarrow> bytes \<Rightarrow> bytes \<Rightarrow> 'db \<times> (string + bytes option)"
  sled_remove :: "'db \<Rightarrow> bytes \<Rightarrow> 'db \<times> (string + bytes option)"
  sled_apply_batch :: "'db \<Rightarrow> batch_op list \<Rightarrow> 'db \<times> (string + unit)"
  sled_scan_prefix :: "'db \<Rightarrow> bytes \<Rightarrow> (string + bytes \<times> bytes) list"
  sled_range_from :: "'db \<Rightarrow> bytes \<Rightarrow> (string + bytes \<times> bytes) list"
  sled_iter :: "'db \<Rightarrow> (string + bytes \<times> bytes) list"
  sled_flush :: "'db \<Rightarrow> 'db \<times> (string + nat)"

type_synonym contents = "(bytes, bytes) omap"

fun batch_effect :: "batch_op \<Rightarrow> contents \<Rightarrow> contents" where
  "batch_effect (BatchInsert k v) m = om_insert k v m"
| "batch_effect (BatchRemove k) m = om_remove k m"

definition entries_with_prefix :: "bytes \<Rightarrow> contents \<Rightarrow> (bytes \<times> bytes) list" where
  "entries_with_prefix p m = filter (\<lambda>e. starts_with (fst e) p) (om_entries m)"

definition entries_from :: "bytes \<Rightarrow> contents \<Rightarrow> (bytes \<times> bytes) list" where
  "entries_from start m = filter (\<lambda>e. start \<le> fst e) (om_entries m)"

definition sled_ok :: "'db sled \<Rightarrow> ('db \<Rightarrow> contents) \<Rightarrow> bool" where
  "sled_ok S \<alpha> =
     ((\<forall>db k v. sled_get S db k = Inr v \<longrightarrow> v = om_get (\<alpha> db) k)
      \<and> (\<forall>db k b. sled_contains_key S db k = Inr b \<longrightarrow> b = om_contains_key (\<alpha> db) k)
      \<and> (\<forall>db k v db' r. sled_insert S db k v = (db', Inr r) \<longrightarrow> \<alpha> db' = om_insert k v (\<alpha> db))
      \<and> (\<forall>db k db' r. sled_remove S db k = (db', Inr r) \<longrightarrow> \<alpha> db' = om_remove k (\<alpha> db))
      \<and> (\<forall>db ops db'. sled_apply_batch S db ops = (db', Inr ()) \<longrightarrow>
           \<alpha> db' = fold batch_effect ops (\<alpha> db))
      \<and> (\<forall>db ops db' e. sled_apply_batch S db ops = (db', Inl e) \<longrightarrow> \<alpha> db' = \<alpha> db)
      \<and> (\<forall>db p. iterates (sled_scan_prefix S db p) (entries_with_prefix p (\<alpha> db)))
      \<and> (\<forall>db k. iterates (sled_range_from S db k) (entries_from k (\<alpha> db)))
      \<and> (\<forall>db. iterates (sled_iter S db) (om_entries (\<alpha> db)))
      \<and> (\<forall>db db' r. sled_flush S db = (db', r) \<longrightarrow> \<alpha> db' = \<alpha> db))"

section \<open>The store\<close>

datatype store_error =
    Sled string
  | Io string
  | NotADirectory string
  | ScanBatchByteLimitExceeded nat nat
  | WriteLockPoisoned
  | InjectedDiskFull

text \<open>
  \<open>write_lock_poisoned\<close> is the poison flag of the \<open>RwLock\<close>; \<open>fail_writes_with_disk_full\<close> is
  the fault injection hook of the \<open>test-utils\<close> feature, false without it.
\<close>

record 'db store =
  store_sled :: "'db sled"
  store_db :: 'db
  write_lock_poisoned :: bool
  fail_writes_with_disk_full :: bool

record store_stats =
  stats_keys :: u64
  stats_bytes :: u64

text \<open>
  The file system calls of \<open>open\<close> are its arguments: whether the path exists, whether it is
  a directory, what \<open>create_dir_all\<close> and \<open>sled::open\<close> return.
\<close>

definition store_open ::
    "string \<Rightarrow> bool \<Rightarrow> bool \<Rightarrow> string + unit \<Rightarrow> string + 'db \<Rightarrow> 'db sled \<Rightarrow> store_error + 'db store" where
  "store_open path path_exists path_is_dir create_dir_all opened S =
     (if path_exists \<and> \<not> path_is_dir then Inl (NotADirectory path)
      else res_bind (if \<not> path_exists then map_err Io create_dir_all else Inr ()) (\<lambda>_.
        res_bind (map_err Sled opened) (\<lambda>db.
          Inr \<lparr>store_sled = S, store_db = db, write_lock_poisoned = False,
               fail_writes_with_disk_full = False\<rparr>)))"

definition store_get :: "'db store \<Rightarrow> bytes \<Rightarrow> store_error + bytes option" where
  "store_get st key = map_err Sled (sled_get (store_sled st) (store_db st) key)"

definition store_exists :: "'db store \<Rightarrow> bytes \<Rightarrow> store_error + bool" where
  "store_exists st key = map_err Sled (sled_contains_key (store_sled st) (store_db st) key)"

definition store_prefix_exists :: "'db store \<Rightarrow> bytes \<Rightarrow> store_error + bool" where
  "store_prefix_exists st p =
     (case sled_scan_prefix (store_sled st) (store_db st) p of
        item # _ \<Rightarrow> res_bind (map_err Sled item) (\<lambda>_. Inr True)
      | [] \<Rightarrow> Inr False)"

definition check_injected_write_failure :: "'db store \<Rightarrow> store_error + unit" where
  "check_injected_write_failure st =
     (if fail_writes_with_disk_full st then Inl InjectedDiskFull else Inr ())"

definition inject_disk_full_on_writes :: "bool \<Rightarrow> 'db store \<Rightarrow> 'db store" where
  "inject_disk_full_on_writes enabled st = st\<lparr>fail_writes_with_disk_full := enabled\<rparr>"

text \<open>A write of the database, its error converted by \<open>?\<close> and its value dropped.\<close>

definition finish_write :: "'db store \<Rightarrow> 'db \<times> (string + 'a) \<Rightarrow> 'db store \<times> (store_error + unit)" where
  "finish_write st r = (st\<lparr>store_db := fst r\<rparr>, res_bind (map_err Sled (snd r)) (\<lambda>_. Inr ()))"

definition set_unlocked :: "bytes \<Rightarrow> bytes \<Rightarrow> 'db store \<Rightarrow> 'db store \<times> (store_error + unit)" where
  "set_unlocked key value st =
     (case check_injected_write_failure st of
        Inl e \<Rightarrow> (st, Inl e)
      | Inr _ \<Rightarrow> finish_write st (sled_insert (store_sled st) (store_db st) key value))"

definition apply_batch_unlocked ::
    "(bytes \<times> bytes) list \<Rightarrow> bytes list \<Rightarrow> 'db store \<Rightarrow> 'db store \<times> (store_error + unit)" where
  "apply_batch_unlocked sets deletes st =
     (case check_injected_write_failure st of
        Inl e \<Rightarrow> (st, Inl e)
      | Inr _ \<Rightarrow>
          (let batch = map (\<lambda>(k, v). BatchInsert k v) sets @ map BatchRemove deletes
           in finish_write st (sled_apply_batch (store_sled st) (store_db st) batch)))"

definition delete_unlocked :: "bytes \<Rightarrow> 'db store \<Rightarrow> 'db store \<times> (store_error + unit)" where
  "delete_unlocked key st =
     (case check_injected_write_failure st of
        Inl e \<Rightarrow> (st, Inl e)
      | Inr _ \<Rightarrow> finish_write st (sled_remove (store_sled st) (store_db st) key))"

text \<open>The guard of the shared lock fails when the lock is poisoned.\<close>

definition with_write_lock ::
    "('db store \<Rightarrow> 'db store \<times> (store_error + 'a)) \<Rightarrow> 'db store \<Rightarrow> 'db store \<times> (store_error + 'a)" where
  "with_write_lock f st = (if write_lock_poisoned st then (st, Inl WriteLockPoisoned) else f st)"

definition store_set :: "bytes \<Rightarrow> bytes \<Rightarrow> 'db store \<Rightarrow> 'db store \<times> (store_error + unit)" where
  "store_set key value = with_write_lock (set_unlocked key value)"

definition store_apply_batch ::
    "(bytes \<times> bytes) list \<Rightarrow> bytes list \<Rightarrow> 'db store \<Rightarrow> 'db store \<times> (store_error + unit)" where
  "store_apply_batch sets deletes = with_write_lock (apply_batch_unlocked sets deletes)"

definition store_delete :: "bytes \<Rightarrow> 'db store \<Rightarrow> 'db store \<times> (store_error + unit)" where
  "store_delete key = with_write_lock (delete_unlocked key)"

definition store_flush :: "'db store \<Rightarrow> 'db store \<times> (store_error + unit)" where
  "store_flush st =
     (case check_injected_write_failure st of
        Inl e \<Rightarrow> (st, Inl e)
      | Inr _ \<Rightarrow> finish_write st (sled_flush (store_sled st) (store_db st)))"

text \<open>A lease holds the exclusive guard; its writes skip the shared lock.\<close>

datatype 'db store_write_lease = StoreWriteLease "'db store"

definition acquire_write_lease :: "'db store \<Rightarrow> store_error + 'db store_write_lease" where
  "acquire_write_lease st =
     (if write_lock_poisoned st then Inl WriteLockPoisoned else Inr (StoreWriteLease st))"

fun lease_store :: "'db store_write_lease \<Rightarrow> 'db store" where
  "lease_store (StoreWriteLease st) = st"

definition lease_write ::
    "('db store \<Rightarrow> 'db store \<times> (store_error + unit)) \<Rightarrow> 'db store_write_lease \<Rightarrow>
     'db store_write_lease \<times> (store_error + unit)" where
  "lease_write f l = map_prod StoreWriteLease id (f (lease_store l))"

definition lease_set :: "bytes \<Rightarrow> bytes \<Rightarrow> 'db store_write_lease \<Rightarrow> 'db store_write_lease \<times> (store_error + unit)" where
  "lease_set key value = lease_write (set_unlocked key value)"

definition lease_apply_batch ::
    "(bytes \<times> bytes) list \<Rightarrow> bytes list \<Rightarrow> 'db store_write_lease \<Rightarrow> 'db store_write_lease \<times> (store_error + unit)" where
  "lease_apply_batch sets deletes = lease_write (apply_batch_unlocked sets deletes)"

definition lease_delete :: "bytes \<Rightarrow> 'db store_write_lease \<Rightarrow> 'db store_write_lease \<times> (store_error + unit)" where
  "lease_delete key = lease_write (delete_unlocked key)"

section \<open>Scans\<close>

definition stats_item :: "bytes \<times> bytes \<Rightarrow> store_stats \<Rightarrow> (store_error, store_stats) flow" where
  "stats_item item stats =
     (case item of (key, value) \<Rightarrow>
        Continue \<lparr>stats_keys = stats_keys stats + 1,
          stats_bytes = stats_bytes stats + (of_nat (length key) + of_nat (length value))\<rparr>)"

definition stats :: "'db store \<Rightarrow> store_error + store_stats" where
  "stats st = for_try Sled stats_item (sled_iter (store_sled st) (store_db st))
     \<lparr>stats_keys = 0, stats_bytes = 0\<rparr>"

definition scan_prefix :: "'db store \<Rightarrow> bytes \<Rightarrow> store_error + (bytes \<times> bytes) list" where
  "scan_prefix st p =
     for_try Sled (\<lambda>(k, v) out. Continue (out @ [(k, v)])) (sled_scan_prefix (store_sled st) (store_db st) p) []"

definition is_excluded :: "bytes option \<Rightarrow> bytes \<Rightarrow> bool" where
  "is_excluded excluded k = (case excluded of None \<Rightarrow> False | Some p \<Rightarrow> starts_with k p)"

text \<open>
  The bodies of the paging loops; \<open>proj\<close> is what is pushed, the pair in \<open>scan_prefix_page\<close>
  and \<open>scan_prefix_page_after\<close>, the key in \<open>keys_prefix_page\<close> and \<open>keys_prefix_page_after\<close>.
\<close>

definition page_item :: "(bytes \<times> bytes \<Rightarrow> 'a) \<Rightarrow> u64 \<Rightarrow> nat \<Rightarrow> bytes option \<Rightarrow>
    bytes \<times> bytes \<Rightarrow> 'a list \<times> u64 \<Rightarrow> (store_error, 'a list \<times> u64) flow" where
  "page_item proj cursor limit excluded item s =
     (case s of (out, skipped) \<Rightarrow>
        if is_excluded excluded (fst item) then Continue s
        else if skipped < cursor then Continue (out, skipped + 1)
        else if length out \<ge> limit then Break s
        else Continue (out @ [proj item], skipped))"

definition page_from_start_item :: "(bytes \<times> bytes \<Rightarrow> 'a) \<Rightarrow> nat \<Rightarrow> bytes option \<Rightarrow>
    bytes \<times> bytes \<Rightarrow> 'a list \<Rightarrow> (store_error, 'a list) flow" where
  "page_from_start_item proj limit excluded item out =
     (if is_excluded excluded (fst item) then Continue out
      else if length out \<ge> limit then Break out
      else Continue (out @ [proj item]))"

definition page_after_item :: "(bytes \<times> bytes \<Rightarrow> 'a) \<Rightarrow> bytes \<Rightarrow> bytes \<Rightarrow> nat \<Rightarrow> bytes option \<Rightarrow>
    bytes \<times> bytes \<Rightarrow> 'a list \<Rightarrow> (store_error, 'a list) flow" where
  "page_after_item proj p start_after limit excluded item out =
     (if fst item \<le> start_after then Continue out
      else if \<not> starts_with (fst item) p then Break out
      else if is_excluded excluded (fst item) then Continue out
      else if length out \<ge> limit then Break out
      else Continue (out @ [proj item]))"

definition scan_prefix_page ::
    "'db store \<Rightarrow> bytes \<Rightarrow> u64 \<Rightarrow> u32 \<Rightarrow> bytes option \<Rightarrow> store_error + (bytes \<times> bytes) list" where
  "scan_prefix_page st p cursor limit excluded =
     res_bind (for_try Sled (page_item id cursor (unat limit) excluded)
        (sled_scan_prefix (store_sled st) (store_db st) p) ([], 0)) (\<lambda>(out, _). Inr out)"

definition keys_prefix_page ::
    "'db store \<Rightarrow> bytes \<Rightarrow> u64 \<Rightarrow> u32 \<Rightarrow> bytes option \<Rightarrow> store_error + bytes list" where
  "keys_prefix_page st p cursor limit excluded =
     res_bind (for_try Sled (page_item fst cursor (unat limit) excluded)
        (sled_scan_prefix (store_sled st) (store_db st) p) ([], 0)) (\<lambda>(out, _). Inr out)"

definition scan_prefix_page_after ::
    "'db store \<Rightarrow> bytes \<Rightarrow> bytes option \<Rightarrow> u32 \<Rightarrow> bytes option \<Rightarrow> store_error + (bytes \<times> bytes) list" where
  "scan_prefix_page_after st p start_after_key limit excluded =
     (case start_after_key of
        Some start_after \<Rightarrow>
          for_try Sled (page_after_item id p start_after (unat limit) excluded)
            (sled_range_from (store_sled st) (store_db st) start_after) []
      | None \<Rightarrow>
          for_try Sled (page_from_start_item id (unat limit) excluded)
            (sled_scan_prefix (store_sled st) (store_db st) p) [])"

definition keys_prefix_page_after ::
    "'db store \<Rightarrow> bytes \<Rightarrow> bytes option \<Rightarrow> u32 \<Rightarrow> bytes option \<Rightarrow> store_error + bytes list" where
  "keys_prefix_page_after st p start_after_key limit excluded =
     (case start_after_key of
        Some start_after \<Rightarrow>
          for_try Sled (page_after_item fst p start_after (unat limit) excluded)
            (sled_range_from (store_sled st) (store_db st) start_after) []
      | None \<Rightarrow>
          for_try Sled (page_from_start_item fst (unat limit) excluded)
            (sled_scan_prefix (store_sled st) (store_db st) p) [])"

text \<open>
  The closure \<open>push_item\<close> of the byte-bounded scan, on the output and the bytes accumulated,
  and the two loop bodies that call it.
\<close>

definition push_item :: "nat \<Rightarrow> nat \<Rightarrow> bytes \<times> bytes \<Rightarrow> (bytes \<times> bytes) list \<times> nat \<Rightarrow>
    store_error + (((bytes \<times> bytes) list \<times> nat) \<times> bool)" where
  "push_item max_records max_bytes item s =
     (case (item, s) of ((key, value), (out, accumulated_bytes)) \<Rightarrow>
        let record_bytes = length key + length value
        in if record_bytes > max_bytes then Inl (ScanBatchByteLimitExceeded record_bytes max_bytes)
           else if out \<noteq> [] \<and> accumulated_bytes + record_bytes > max_bytes then Inr (s, False)
           else Inr ((out @ [(key, value)], accumulated_bytes + record_bytes),
                     length (out @ [(key, value)]) < max_records))"

definition bounded_item :: "nat \<Rightarrow> nat \<Rightarrow> bytes \<times> bytes \<Rightarrow> (bytes \<times> bytes) list \<times> nat \<Rightarrow>
    (store_error, (bytes \<times> bytes) list \<times> nat) flow" where
  "bounded_item max_records max_bytes item s =
     (case push_item max_records max_bytes item s of
        Inl e \<Rightarrow> Fail e
      | Inr (s', go_on) \<Rightarrow> if \<not> go_on then Break s' else Continue s')"

definition bounded_after_item :: "bytes \<Rightarrow> bytes \<Rightarrow> nat \<Rightarrow> nat \<Rightarrow> bytes \<times> bytes \<Rightarrow>
    (bytes \<times> bytes) list \<times> nat \<Rightarrow> (store_error, (bytes \<times> bytes) list \<times> nat) flow" where
  "bounded_after_item p start_after max_records max_bytes item s =
     (if fst item \<le> start_after then Continue s
      else if \<not> starts_with (fst item) p then Break s
      else bounded_item max_records max_bytes item s)"

definition scan_prefix_page_after_bounded ::
    "'db store \<Rightarrow> bytes \<Rightarrow> bytes option \<Rightarrow> u32 \<Rightarrow> nat \<Rightarrow> store_error + (bytes \<times> bytes) list" where
  "scan_prefix_page_after_bounded st p start_after_key max_records max_bytes =
     (if unat max_records = 0 then Inr []
      else res_bind
        (case start_after_key of
           Some start_after \<Rightarrow>
             for_try Sled (bounded_after_item p start_after (unat max_records) max_bytes)
               (sled_range_from (store_sled st) (store_db st) start_after) ([], 0)
         | None \<Rightarrow>
             for_try Sled (bounded_item (unat max_records) max_bytes)
               (sled_scan_prefix (store_sled st) (store_db st) p) ([], 0))
        (\<lambda>(out, _). Inr out))"

section \<open>The contract of the store\<close>

text \<open>The effect of a batch on the contents: all the sets in order, then all the deletes.\<close>

definition batch_view :: "(bytes \<times> bytes) list \<Rightarrow> bytes list \<Rightarrow> contents \<Rightarrow> contents" where
  "batch_view sets deletes m = fold om_remove deletes (fold (\<lambda>(k, v). om_insert k v) sets m)"

lemma om_get_removes: "om_get (fold om_remove ds m) k = (if k \<in> set ds then None else om_get m k)"
  by (induction ds arbitrary: m) auto

lemma om_get_inserts:
  "om_get (fold (\<lambda>(k, v). om_insert k v) kvs m) k =
     (case map_of (rev kvs) k of Some v \<Rightarrow> Some v | None \<Rightarrow> om_get m k)"
  by (induction kvs arbitrary: m) (auto simp: map_add_def split: option.splits)

lemma om_get_batch_view [store_simps]:
  "om_get (batch_view sets deletes m) k =
     (if k \<in> set deletes then None
      else case map_of (rev sets) k of Some v \<Rightarrow> Some v | None \<Rightarrow> om_get m k)"
  by (simp add: batch_view_def om_get_removes om_get_inserts)

lemma batch_effect_fold:
  "fold batch_effect (map (\<lambda>(k, v). BatchInsert k v) sets @ map BatchRemove deletes) m =
     batch_view sets deletes m"
proof -
  have "fold batch_effect (map (\<lambda>(k, v). BatchInsert k v) sets) m = fold (\<lambda>(k, v). om_insert k v) sets m"
    for m by (induction sets arbitrary: m) auto
  moreover have "fold batch_effect (map BatchRemove deletes) m = fold om_remove deletes m" for m
    by (induction deletes arbitrary: m) auto
  ultimately show ?thesis by (simp add: batch_view_def)
qed

text \<open>
  What the synchronisation layer relies on: reads return what the contents hold, a batch is
  all or nothing, a scan lists the entries with a prefix in key order, and no operation
  leaves the states on which this holds.
\<close>

locale kv_contract =
  fixes get :: "'s \<Rightarrow> bytes \<Rightarrow> 'e + bytes option"
    and prefix_exists :: "'s \<Rightarrow> bytes \<Rightarrow> 'e + bool"
    and scan :: "'s \<Rightarrow> bytes \<Rightarrow> 'e + (bytes \<times> bytes) list"
    and put :: "bytes \<Rightarrow> bytes \<Rightarrow> 's \<Rightarrow> 's \<times> ('e + unit)"
    and batch :: "(bytes \<times> bytes) list \<Rightarrow> bytes list \<Rightarrow> 's \<Rightarrow> 's \<times> ('e + unit)"
    and view :: "'s \<Rightarrow> contents"
    and lawful :: "'s \<Rightarrow> bool"
  assumes get_view: "lawful s \<Longrightarrow> get s k = Inr r \<Longrightarrow> r = om_get (view s) k"
    and prefix_exists_view:
      "lawful s \<Longrightarrow> prefix_exists s p = Inr b \<Longrightarrow> b = (entries_with_prefix p (view s) \<noteq> [])"
    and scan_view: "lawful s \<Longrightarrow> scan s p = Inr es \<Longrightarrow> es = entries_with_prefix p (view s)"
    and put_view: "lawful s \<Longrightarrow> put k v s = (s', Inr u) \<Longrightarrow> view s' = om_insert k v (view s)"
    and put_lawful: "lawful s \<Longrightarrow> lawful (fst (put k v s))"
    and batch_view_ok:
      "lawful s \<Longrightarrow> batch sets deletes s = (s', Inr u) \<Longrightarrow> view s' = batch_view sets deletes (view s)"
    and batch_view_err: "lawful s \<Longrightarrow> batch sets deletes s = (s', Inl e) \<Longrightarrow> view s' = view s"
    and batch_lawful: "lawful s \<Longrightarrow> lawful (fst (batch sets deletes s))"
begin

lemma batch_all_or_nothing:
  assumes "lawful s" "batch sets deletes s = (s', r)"
  shows "lawful s' \<and>
    view s' = (case r of Inr _ \<Rightarrow> batch_view sets deletes (view s) | Inl _ \<Rightarrow> view s)"
  using assms batch_lawful [of s sets deletes]
  by (auto intro: batch_view_ok batch_view_err split: sum.splits)

lemma get_after_batch:
  assumes "lawful s" "batch sets deletes s = (s', Inr u)" "get s' k = Inr v"
  shows "v = (if k \<in> set deletes then None
    else case map_of (rev sets) k of Some v \<Rightarrow> Some v | None \<Rightarrow> om_get (view s) k)"
proof -
  have "lawful s'" using assms(1) batch_lawful [of s sets deletes] by (simp add: assms(2))
  from get_view [OF this assms(3)] batch_view_ok [OF assms(1,2)] show ?thesis
    by (simp add: om_get_batch_view)
qed

lemma scan_get: "lawful s \<Longrightarrow> scan s p = Inr es \<Longrightarrow> (k, v) \<in> set es \<longleftrightarrow> starts_with k p \<and> om_get (view s) k = Some v"
  by (auto dest!: scan_view simp: entries_with_prefix_def om_in_entries)

end

lemma finish_write_simps [simp]:
  "fst (finish_write st r) = st\<lparr>store_db := fst r\<rparr>"
  "snd (finish_write st r) = Inr u \<longleftrightarrow> (\<exists>x. snd r = Inr x)"
  "snd (finish_write st r) = Inl e \<longleftrightarrow> (\<exists>x. snd r = Inl x \<and> e = Sled x)"
  by (auto simp: finish_write_def res_bind_def split: sum.splits) (cases "snd r"; auto)+

lemma store_apply_batch_cases:
  "store_apply_batch sets deletes st =
     (if write_lock_poisoned st then (st, Inl WriteLockPoisoned)
      else if fail_writes_with_disk_full st then (st, Inl InjectedDiskFull)
      else finish_write st (sled_apply_batch (store_sled st) (store_db st)
        (map (\<lambda>(k, v). BatchInsert k v) sets @ map BatchRemove deletes)))"
  by (simp add: store_apply_batch_def with_write_lock_def apply_batch_unlocked_def
      check_injected_write_failure_def)

lemma store_set_cases:
  "store_set k v st =
     (if write_lock_poisoned st then (st, Inl WriteLockPoisoned)
      else if fail_writes_with_disk_full st then (st, Inl InjectedDiskFull)
      else finish_write st (sled_insert (store_sled st) (store_db st) k v))"
  by (simp add: store_set_def with_write_lock_def set_unlocked_def check_injected_write_failure_def)

lemma store_delete_cases:
  "store_delete k st =
     (if write_lock_poisoned st then (st, Inl WriteLockPoisoned)
      else if fail_writes_with_disk_full st then (st, Inl InjectedDiskFull)
      else finish_write st (sled_remove (store_sled st) (store_db st) k))"
  by (simp add: store_delete_def with_write_lock_def delete_unlocked_def check_injected_write_failure_def)

lemma store_sled_writes [simp]:
  "store_sled (fst (store_apply_batch sets deletes st)) = store_sled st"
  "store_sled (fst (store_set k v st)) = store_sled st"
  "store_sled (fst (store_delete k st)) = store_sled st"
  by (simp_all add: store_apply_batch_cases store_set_cases store_delete_cases)

lemma sled_okD:
  assumes "sled_ok S \<alpha>"
  shows "sled_get S db k = Inr r \<Longrightarrow> r = om_get (\<alpha> db) k"
    and "sled_contains_key S db k = Inr b \<Longrightarrow> b = om_contains_key (\<alpha> db) k"
    and "sled_insert S db k v = (db', Inr r) \<Longrightarrow> \<alpha> db' = om_insert k v (\<alpha> db)"
    and "sled_remove S db k = (db', Inr r) \<Longrightarrow> \<alpha> db' = om_remove k (\<alpha> db)"
    and "sled_apply_batch S db ops = (db', Inr ()) \<Longrightarrow> \<alpha> db' = fold batch_effect ops (\<alpha> db)"
    and "sled_apply_batch S db ops = (db', Inl e) \<Longrightarrow> \<alpha> db' = \<alpha> db"
    and "iterates (sled_scan_prefix S db p) (entries_with_prefix p (\<alpha> db))"
    and "iterates (sled_range_from S db k) (entries_from k (\<alpha> db))"
    and "iterates (sled_iter S db) (om_entries (\<alpha> db))"
    and "sled_flush S db = (db', n) \<Longrightarrow> \<alpha> db' = \<alpha> db"
  using assms unfolding sled_ok_def by - (elim conjE, metis)+

lemma scan_prefix_eq:
  assumes "sled_ok (store_sled st) \<alpha>" "scan_prefix st p = Inr es"
  shows "es = entries_with_prefix p (\<alpha> (store_db st))"
  using for_try_iterates [OF sled_okD(7) [OF assms(1)] assms(2) [unfolded scan_prefix_def]] by simp

lemma store_prefix_exists_eq:
  assumes "sled_ok (store_sled st) \<alpha>" "store_prefix_exists st p = Inr b"
  shows "b = (entries_with_prefix p (\<alpha> (store_db st)) \<noteq> [])"
proof (cases "sled_scan_prefix (store_sled st) (store_db st) p")
  case Nil
  with sled_okD(7) [OF assms(1), of "store_db st" p] assms(2) show ?thesis
    by (simp add: store_prefix_exists_def iterates_Nil)
next
  case (Cons item items)
  with assms(2) obtain x where "item = Inr x"
    by (auto simp: store_prefix_exists_def res_bind_Inr_iff)
  with Cons sled_okD(7) [OF assms(1), of "store_db st" p] assms(2) show ?thesis
    by (simp add: store_prefix_exists_def iterates_Cons)
qed

lemma store_get_eq:
  "sled_ok (store_sled st) \<alpha> \<Longrightarrow> store_get st k = Inr v \<Longrightarrow> v = om_get (\<alpha> (store_db st)) k"
  by (auto simp: store_get_def dest: sled_okD)

lemma store_set_view:
  assumes "sled_ok (store_sled st) \<alpha>" "store_set k v st = (st', Inr u)"
  shows "\<alpha> (store_db st') = om_insert k v (\<alpha> (store_db st))"
proof -
  obtain db r where w: "sled_insert (store_sled st) (store_db st) k v = (db, r)" by fastforce
  with assms(2) have "st' = st\<lparr>store_db := db\<rparr>" "\<exists>x. r = Inr x"
    by (auto simp: store_set_cases finish_write_def res_bind_def split: if_splits sum.splits)
  with assms(1) w show ?thesis by (auto dest: sled_okD)
qed

lemma store_delete_view:
  assumes "sled_ok (store_sled st) \<alpha>" "store_delete k st = (st', Inr u)"
  shows "\<alpha> (store_db st') = om_remove k (\<alpha> (store_db st))"
proof -
  obtain db r where w: "sled_remove (store_sled st) (store_db st) k = (db, r)" by fastforce
  with assms(2) have "st' = st\<lparr>store_db := db\<rparr>" "\<exists>x. r = Inr x"
    by (auto simp: store_delete_cases finish_write_def res_bind_def split: if_splits sum.splits)
  with assms(1) w show ?thesis by (auto dest: sled_okD)
qed

lemma store_batch_view:
  assumes "sled_ok (store_sled st) \<alpha>" "store_apply_batch sets deletes st = (st', r)"
  shows "\<alpha> (store_db st') =
    (case r of Inr _ \<Rightarrow> batch_view sets deletes (\<alpha> (store_db st)) | Inl _ \<Rightarrow> \<alpha> (store_db st))"
proof -
  let ?b = "map (\<lambda>(k, v). BatchInsert k v) sets @ map BatchRemove deletes"
  obtain db q where w: "sled_apply_batch (store_sled st) (store_db st) ?b = (db, q)" by fastforce
  show ?thesis
  proof (cases q)
    case (Inl e)
    then have "\<alpha> db = \<alpha> (store_db st)" using assms(1) w by (auto dest: sled_okD)
    with assms(2) w Inl show ?thesis
      by (auto simp: store_apply_batch_cases finish_write_def split: if_splits)
  next
    case (Inr u)
    then have "\<alpha> db = fold batch_effect ?b (\<alpha> (store_db st))"
      using w sled_okD(5) [OF assms(1)] by auto
    then have "\<alpha> db = batch_view sets deletes (\<alpha> (store_db st))" by (simp only: batch_effect_fold)
    with assms(2) w Inr show ?thesis
      by (auto simp: store_apply_batch_cases finish_write_def split: if_splits)
  qed
qed

interpretation kv: kv_contract store_get store_prefix_exists scan_prefix store_set store_apply_batch
    "\<lambda>st. \<alpha> (store_db st)" "\<lambda>st. sled_ok (store_sled st) \<alpha>" for \<alpha>
  by unfold_locales
    (auto dest: store_get_eq store_prefix_exists_eq scan_prefix_eq store_set_view store_batch_view)

section \<open>Lemmas on scans\<close>

text \<open>
  The entries a scan is about: those with the prefix, after the start key if there is one,
  without the excluded ones, in key order.
\<close>

definition page_entries :: "bytes \<Rightarrow> bytes option \<Rightarrow> bytes option \<Rightarrow> contents \<Rightarrow> (bytes \<times> bytes) list" where
  "page_entries p start excluded m =
     filter (\<lambda>e. starts_with (fst e) p \<and> (case start of None \<Rightarrow> True | Some a \<Rightarrow> a < fst e)
       \<and> \<not> is_excluded excluded (fst e)) (om_entries m)"

definition record_bytes :: "(bytes \<times> bytes) list \<Rightarrow> nat" where
  "record_bytes es = sum_list (map (\<lambda>(k, v). length k + length v) es)"

lemma filter_past_prefix:
  assumes "sorted_wrt (<) (map fst ((k, v) # es))" "p \<le> a" "a < k" "\<not> starts_with k p"
  shows "filter (\<lambda>e. a < fst e \<and> starts_with (fst e) p) es = []"
  using assms starts_with_between [of p k] by (fastforce simp: filter_empty_conv)

text \<open>
  A loop over a range that skips the start key and stops after the prefix runs its body on
  the entries with the prefix, when the range does not start before the prefix.
\<close>

lemma for_try_after:
  assumes "sorted_wrt (<) (map fst es)" "p \<le> a"
  shows "for_try g (\<lambda>item s. if fst item \<le> a then Continue s
      else if \<not> starts_with (fst item) p then Break s else body item s) (map Inr es) s =
    for_try g body (map Inr (filter (\<lambda>e. a < fst e \<and> starts_with (fst e) p) es)) s"
  using assms(1)
proof (induction es arbitrary: s)
  case (Cons e es)
  obtain k v where e: "e = (k, v)" by (cases e)
  consider "k \<le> a" | "a < k" "\<not> starts_with k p" | "a < k" "starts_with k p" by fastforce
  then show ?case
  proof cases
    case 1
    then have "\<not> a < k" by simp
    with 1 Cons show ?thesis by (simp add: e)
  next
    case 2
    with Cons.prems assms(2) have "filter (\<lambda>e. a < fst e \<and> starts_with (fst e) p) es = []"
      unfolding e by (intro filter_past_prefix [of k v])
    moreover have "\<not> k \<le> a" using 2(1) by simp
    ultimately show ?thesis using 2(2) by (simp add: e)
  next
    case 3
    then have "\<not> k \<le> a" by simp
    with 3 Cons show ?thesis by (simp add: e split: flow.splits)
  qed
qed simp

lemma page_from_start_loop:
  "length out \<le> n \<Longrightarrow>
   for_try g (page_from_start_item proj n excluded) (map Inr es) out =
     Inr (out @ map proj (take (n - length out) (filter (\<lambda>e. \<not> is_excluded excluded (fst e)) es)))"
  by (induction es arbitrary: out)
    (auto simp: page_from_start_item_def take_Cons' split: prod.splits)

lemma unat_succ: "(a :: u64) < b \<Longrightarrow> unat (a + 1) = Suc (unat a)"
proof -
  assume "a < b"
  then have "unat a + 1 < 2 ^ 64"
    using unsigned_less [of b, where ?'a = nat] by (simp add: word_less_nat_alt)
  then show ?thesis by (simp add: unat_word_ariths)
qed

lemma page_loop:
  "length out \<le> n \<Longrightarrow> skipped \<le> cursor \<Longrightarrow>
   \<exists>skipped'. for_try g (page_item proj cursor n excluded) (map Inr es) (out, skipped) =
     Inr (out @ map proj (take (n - length out) (drop (unat cursor - unat skipped)
       (filter (\<lambda>e. \<not> is_excluded excluded (fst e)) es))), skipped')"
proof (induction es arbitrary: out skipped)
  case (Cons e es)
  consider "is_excluded excluded (fst e)" | "\<not> is_excluded excluded (fst e)" "skipped < cursor"
    | "\<not> is_excluded excluded (fst e)" "skipped = cursor" using Cons.prems by fastforce
  then show ?case
  proof cases
    case 2
    then have "unat cursor - unat skipped = Suc (unat cursor - unat (skipped + 1))"
      and "skipped + 1 \<le> cursor"
      by (simp_all add: unat_succ word_less_nat_alt word_le_nat_alt Suc_diff_Suc)
    with Cons.IH [of out "skipped + 1"] Cons.prems 2 show ?thesis
      by (simp add: page_item_def case_prod_beta)
  next
    case 3
    with Cons.IH [of "out @ [proj e]" skipped] Cons.prems show ?thesis
      by (auto simp: page_item_def case_prod_beta take_Cons')
  qed (use Cons in \<open>simp add: page_item_def case_prod_beta\<close>)
qed simp

lemma page_from_start_eq:
  assumes "sled_ok (store_sled st) \<alpha>"
    and "for_try Sled (page_from_start_item proj n excluded)
      (sled_scan_prefix (store_sled st) (store_db st) p) [] = Inr out"
  shows "out = map proj (take n (page_entries p None excluded (\<alpha> (store_db st))))"
  using for_try_iterates [OF sled_okD(7) [OF assms(1)] assms(2)]
  by (simp add: page_from_start_loop entries_with_prefix_def page_entries_def case_prod_beta conj_commute)

lemma entries_from_sorted: "sorted_wrt (<) (map fst (entries_from a m))"
  unfolding entries_from_def using om_sorted [of m] by (simp add: sorted_wrt_map sorted_wrt_filter)

lemma page_after_eq:
  assumes "sled_ok (store_sled st) \<alpha>" "p \<le> a"
    and "for_try Sled (page_after_item proj p a n excluded)
      (sled_range_from (store_sled st) (store_db st) a) [] = Inr out"
  shows "out = map proj (take n (page_entries p (Some a) excluded (\<alpha> (store_db st))))"
proof -
  have body: "page_after_item proj p a n excluded = (\<lambda>item s. if fst item \<le> a then Continue s
      else if \<not> starts_with (fst item) p then Break s else page_from_start_item proj n excluded item s)"
    by (auto simp: fun_eq_iff page_after_item_def page_from_start_item_def)
  have range: "filter (\<lambda>e. starts_with (fst e) p \<and> a < fst e \<and> q e) (entries_from a m)
      = filter (\<lambda>e. starts_with (fst e) p \<and> a < fst e \<and> q e) (om_entries m)" for m q
    by (auto simp: entries_from_def intro!: filter_cong)
  from for_try_iterates [OF sled_okD(8) [OF assms(1)] assms(3)] show ?thesis
    by (simp add: range body for_try_after [OF entries_from_sorted assms(2)] page_from_start_loop
        page_entries_def case_prod_beta conj_ac)
qed

lemma sorted_page_split:
  fixes out rest :: "(bytes \<times> bytes) list"
  assumes "sorted_wrt (<) (map fst (out @ rest))" "out \<noteq> []"
  shows "filter (\<lambda>e. fst (last out) < fst e) (out @ rest) = rest"
proof -
  obtain xs x where out: "out = xs @ [x]" using assms(2) by (meson rev_exhaust)
  then have "\<forall>e \<in> set out. \<not> fst (last out) < fst e" "\<forall>e \<in> set rest. fst (last out) < fst e"
    using assms(1) by (auto simp: sorted_wrt_append dest: less_imp_not_less)
  then show ?thesis by (simp add: filter_empty_conv filter_id_conv)
qed

lemma page_entries_sorted: "sorted_wrt (<) (map fst (page_entries p start excluded m))"
  unfolding page_entries_def using om_sorted [of m] by (simp add: sorted_wrt_map sorted_wrt_filter)

text \<open>What follows a page is what a scan after its last key is about.\<close>

lemma page_entries_after:
  assumes "page_entries p start excluded m = out @ rest" "out \<noteq> []"
  shows "page_entries p (Some (fst (last out))) excluded m = rest"
proof -
  have sorted: "sorted_wrt (<) (map fst (out @ rest))"
    using page_entries_sorted [of p start excluded m] assms(1) by simp
  have "last out \<in> set (page_entries p start excluded m)" using assms by simp
  then have "case start of None \<Rightarrow> True | Some a \<Rightarrow> a < fst (last out)"
    by (auto simp: page_entries_def)
  then have "filter (\<lambda>e. fst (last out) < fst e) (page_entries p start excluded m)
      = page_entries p (Some (fst (last out))) excluded m"
    by (auto simp: page_entries_def intro!: filter_cong split: option.splits)
  with sorted_page_split [OF sorted assms(2)] assms(1) show ?thesis by simp
qed

lemma bounded_item_cases:
  "bounded_item mr mb (k, v) (out, acc) =
     (if mb < length k + length v then Fail (ScanBatchByteLimitExceeded (length k + length v) mb)
      else if out \<noteq> [] \<and> mb < acc + (length k + length v) then Break (out, acc)
      else if Suc (length out) < mr then Continue (out @ [(k, v)], acc + (length k + length v))
      else Break (out @ [(k, v)], acc + (length k + length v)))"
  by (simp add: bounded_item_def push_item_def Let_def)

lemma bounded_loop:
  assumes "for_try g (bounded_item mr mb) (map Inr es) (out, acc) = Inr (out', acc')"
    and "acc = record_bytes out" "acc \<le> mb" "length out < mr"
  shows "\<exists>ys rest. es = ys @ rest \<and> out' = out @ ys \<and> record_bytes out' \<le> mb \<and> length out' \<le> mr
    \<and> (out = [] \<and> es \<noteq> [] \<longrightarrow> ys \<noteq> [])"
  using assms
proof (induction es arbitrary: out acc)
  case (Cons e es)
  obtain k v where e: "e = (k, v)" by (cases e)
  let ?n = "length k + length v"
  have fits: "?n \<le> mb" using Cons.prems(1) by (auto simp: e bounded_item_cases split: if_splits)
  show ?case
  proof (cases "out \<noteq> [] \<and> acc + ?n > mb")
    case True
    then have "out' = out" using Cons.prems(1) fits by (simp add: e bounded_item_cases)
    with Cons.prems True show ?thesis by (intro exI [of _ "[]"] exI [of _ "e # es"]) auto
  next
    case False
    then have le: "acc + ?n \<le> mb" using fits Cons.prems(2) by (auto simp: record_bytes_def)
    show ?thesis
    proof (cases "Suc (length out) < mr")
      case True
      with False fits Cons.prems have "for_try g (bounded_item mr mb) (map Inr es) (out @ [e], acc + ?n) = Inr (out', acc')"
        by (auto simp: e bounded_item_cases split: if_splits)
      from Cons.IH [OF this] Cons.prems(2) le True obtain ys rest where
        "es = ys @ rest" "out' = (out @ [e]) @ ys" "record_bytes out' \<le> mb" "length out' \<le> mr"
        by (auto simp: e record_bytes_def)
      then show ?thesis by (intro exI [of _ "e # ys"] exI [of _ rest]) auto
    next
      case last: False
      with False fits Cons.prems have "out' = out @ [e]"
        by (auto simp: e bounded_item_cases split: if_splits)
      with last Cons.prems le show ?thesis
        by (intro exI [of _ "[e]"] exI [of _ es]) (auto simp: e record_bytes_def)
    qed
  qed
qed auto

lemma bounded_fail:
  "for_try g (bounded_item mr mb) (map Inr es) s = Inl err \<Longrightarrow>
   \<exists>e \<in> set es. err = ScanBatchByteLimitExceeded (length (fst e) + length (snd e)) mb
     \<and> mb < length (fst e) + length (snd e)"
proof (induction es arbitrary: s)
  case (Cons e es)
  then show ?case by (cases e; cases s) (auto simp: bounded_item_cases split: if_splits)
qed simp

lemma bounded_after_reduce:
  assumes "sled_ok (store_sled st) \<alpha>" "p \<le> a"
    and "for_try Sled (bounded_after_item p a mr mb) (sled_range_from (store_sled st) (store_db st) a) s = Inr r"
  shows "for_try Sled (bounded_item mr mb)
    (map Inr (page_entries p (Some a) None (\<alpha> (store_db st)))) s = Inr r"
proof -
  have body: "bounded_after_item p a mr mb = (\<lambda>item s. if fst item \<le> a then Continue s
      else if \<not> starts_with (fst item) p then Break s else bounded_item mr mb item s)"
    by (auto simp: fun_eq_iff bounded_after_item_def)
  have "filter (\<lambda>e. a < fst e \<and> starts_with (fst e) p) (entries_from a m) = page_entries p (Some a) None m" for m
    by (auto simp: entries_from_def page_entries_def is_excluded_def intro!: filter_cong)
  with for_try_iterates [OF sled_okD(8) [OF assms(1)] assms(3)] show ?thesis
    by (simp add: body for_try_after [OF entries_from_sorted assms(2)])
qed

lemma entries_with_prefix_page: "entries_with_prefix p m = page_entries p None None m"
  by (simp add: entries_with_prefix_def page_entries_def is_excluded_def)

section \<open>A database in memory\<close>

text \<open>An ordered map satisfies what the store expects of its database.\<close>

definition mem_sled :: "contents sled" where
  "mem_sled =
     \<lparr>sled_get = (\<lambda>db k. Inr (om_get db k)),
      sled_contains_key = (\<lambda>db k. Inr (om_contains_key db k)),
      sled_insert = (\<lambda>db k v. (om_insert k v db, Inr (om_get db k))),
      sled_remove = (\<lambda>db k. (om_remove k db, Inr (om_get db k))),
      sled_apply_batch = (\<lambda>db ops. (fold batch_effect ops db, Inr ())),
      sled_scan_prefix = (\<lambda>db p. map Inr (entries_with_prefix p db)),
      sled_range_from = (\<lambda>db k. map Inr (entries_from k db)),
      sled_iter = (\<lambda>db. map Inr (om_entries db)),
      sled_flush = (\<lambda>db. (db, Inr 0))\<rparr>"

definition mem_store :: "contents \<Rightarrow> contents store" where
  "mem_store m = \<lparr>store_sled = mem_sled, store_db = m, write_lock_poisoned = False,
     fail_writes_with_disk_full = False\<rparr>"

lemma mem_sled_ok: "sled_ok mem_sled id"
  by (simp add: sled_ok_def mem_sled_def iterates_def)

lemma mem_store_simps [simp]:
  "store_sled (mem_store m) = mem_sled" "store_db (mem_store m) = m"
  by (simp_all add: mem_store_def)

section \<open>Properties of the store\<close>

text \<open>
  C11. A batch is all or nothing: when \<open>apply_batch\<close> succeeds the contents are those after all
  its sets and then all its deletes (a key both set and deleted is gone, the last set of
  a key wins), and when it fails, for whatever reason, the contents are unchanged.
\<close>

theorem store_batch_atomic:
  assumes "sled_ok (store_sled st) \<alpha>" and "store_apply_batch sets deletes st = (st', r)"
  shows "case r of
      Inl _ \<Rightarrow> \<alpha> (store_db st') = \<alpha> (store_db st)
    | Inr _ \<Rightarrow> (\<forall>k. om_get (\<alpha> (store_db st')) k =
        (if k \<in> set deletes then None
         else case map_of (rev sets) k of Some v \<Rightarrow> Some v | None \<Rightarrow> om_get (\<alpha> (store_db st)) k))"
  using kv.batch_all_or_nothing [where \<alpha> = \<alpha>, OF assms]
  by (auto simp: om_get_batch_view split: sum.splits)

theorem store_batch_atomic_witness:
  "om_get (store_db (fst (store_apply_batch [([1], [2]), ([3], [4])] [[1]] (mem_store om_empty)))) [3]
     = Some [4]"
proof -
  obtain st' r where b: "store_apply_batch [([1], [2]), ([3], [4])] [[1]] (mem_store om_empty) = (st', r)"
    by fastforce
  moreover have "r = Inr ()"
    using b by (auto simp: store_apply_batch_cases mem_store_def mem_sled_def finish_write_def)
  ultimately show ?thesis
    using store_batch_atomic [of "mem_store om_empty" id, OF _ b] mem_sled_ok by simp
qed

text \<open>
  The store refines a map: \<open>set\<close> and \<open>delete\<close> that succeed update it, \<open>get\<close>, \<open>exists\<close>
  and \<open>prefix_exists\<close> that succeed read it, \<open>scan_prefix\<close> lists its entries with the prefix
  in key order, and writes that are refused before they reach the database (the lock is
  poisoned, the disk is full) leave the store as it was.
\<close>

theorem store_refines_map:
  assumes "sled_ok (store_sled st) \<alpha>"
  shows "(store_set k v st = (st', Inr ()) \<longrightarrow> \<alpha> (store_db st') = om_insert k v (\<alpha> (store_db st)))
    \<and> (store_delete k st = (st', Inr ()) \<longrightarrow> \<alpha> (store_db st') = om_remove k (\<alpha> (store_db st)))
    \<and> (store_get st k = Inr r \<longrightarrow> r = om_get (\<alpha> (store_db st)) k)
    \<and> (store_exists st k = Inr b \<longrightarrow> b = om_contains_key (\<alpha> (store_db st)) k)
    \<and> (store_prefix_exists st p = Inr c \<longrightarrow> c = (\<exists>k. starts_with k p \<and> om_contains_key (\<alpha> (store_db st)) k))
    \<and> (scan_prefix st p = Inr es \<longrightarrow> es = entries_with_prefix p (\<alpha> (store_db st)))
    \<and> (write_lock_poisoned st \<or> fail_writes_with_disk_full st \<longrightarrow>
        fst (store_set k v st) = st \<and> fst (store_delete k st) = st)"
proof (intro conjI impI)
  assume "store_prefix_exists st p = Inr c"
  from store_prefix_exists_eq [OF assms this] om_in_entries
  show "c = (\<exists>k. starts_with k p \<and> om_contains_key (\<alpha> (store_db st)) k)"
    by (fastforce simp: entries_with_prefix_def filter_empty_conv om_contains_key_def)
qed (use assms in \<open>auto simp: store_exists_def store_set_cases store_delete_cases
    dest: store_set_view store_delete_view store_get_eq sled_okD(2) scan_prefix_eq\<close>)

theorem store_refines_map_witness:
  "store_get (fst (store_set [1] [2] (mem_store om_empty))) [1] = Inr (Some [2])"
proof -
  let ?st = "fst (store_set [1] [2] (mem_store om_empty))"
  have s: "store_set [1] [2] (mem_store om_empty) = (?st, Inr ())" and g: "\<exists>r. store_get ?st [1] = Inr r"
    and ok: "sled_ok (store_sled (mem_store om_empty)) id" "sled_ok (store_sled ?st) id"
    by (simp_all add: store_set_cases mem_store_def mem_sled_def finish_write_def store_get_def
        mem_sled_ok [unfolded mem_sled_def])
  have "store_db ?st = om_insert [1] [2] om_empty"
    using store_refines_map [OF ok(1), of "[1]" "[2]" ?st] s by simp
  moreover obtain r where "store_get ?st [1] = Inr r" using g by blast
  ultimately show ?thesis using store_refines_map [OF ok(2), where k = "[1]" and r = r] by simp
qed

text \<open>
  Paging by key is exact and complete: a page is the first \<open>limit\<close> entries with the
  prefix that follow the start key and are not excluded, and continuing after the last key
  of a page yields exactly what the page left, so no entry is skipped or repeated. The
  keys-only variant returns the keys of the same page.
\<close>

theorem page_after_exact:
  assumes "sled_ok (store_sled st) \<alpha>" and "case start of None \<Rightarrow> True | Some a \<Rightarrow> p \<le> a"
    and "scan_prefix_page_after st p start limit excluded = Inr out"
  shows "out = take (unat limit) (page_entries p start excluded (\<alpha> (store_db st)))
    \<and> (out \<noteq> [] \<longrightarrow> page_entries p start excluded (\<alpha> (store_db st))
        = out @ page_entries p (Some (fst (last out))) excluded (\<alpha> (store_db st)))
    \<and> (\<forall>ks. keys_prefix_page_after st p start limit excluded = Inr ks \<longrightarrow> ks = map fst out)"
proof -
  let ?es = "page_entries p start excluded (\<alpha> (store_db st))"
  have out: "out = take (unat limit) ?es"
    using assms page_from_start_eq [OF assms(1), where proj = id] page_after_eq [OF assms(1), where proj = id]
    by (auto simp: scan_prefix_page_after_def split: option.splits)
  then have "?es = out @ drop (unat limit) ?es" by simp
  from page_entries_after [OF this] this
  have rest: "out \<noteq> [] \<longrightarrow> ?es = out @ page_entries p (Some (fst (last out))) excluded (\<alpha> (store_db st))"
    by simp
  have "ks = map fst out" if "keys_prefix_page_after st p start limit excluded = Inr ks" for ks
    using that assms(1,2) out page_from_start_eq [OF assms(1), where proj = fst]
      page_after_eq [OF assms(1), where proj = fst]
    by (auto simp: keys_prefix_page_after_def split: option.splits)
  with out rest show ?thesis by blast
qed

theorem page_after_exact_witness:
  "scan_prefix_page_after (mem_store (om_insert [1, 1] [7] (om_insert [1, 2] [8] om_empty))) [1] (Some [1, 1]) 5 None
     = Inr [([1, 2], [8])]"
proof -
  let ?st = "mem_store (om_insert [1, 1] [7] (om_insert [1, 2] [8] om_empty))"
  obtain out where out: "scan_prefix_page_after ?st [1] (Some [1, 1]) 5 None = Inr out"
    by (simp add: scan_prefix_page_after_def mem_sled_def entries_from_def page_after_item_def is_excluded_def)
  have "sled_ok (store_sled ?st) id" "case Some [1, 1] of None \<Rightarrow> True | Some a \<Rightarrow> [1 :: u8] \<le> a"
    by (simp_all add: mem_sled_ok)
  from page_after_exact [OF this out, THEN conjunct1]
  have "out = take (unat (5 :: u32)) (page_entries [1] (Some [1, 1]) None (store_db ?st))" by simp
  also have "\<dots> = [([1, 2], [8])]" by code_simp
  finally show ?thesis using out by simp
qed

text \<open>
  Paging by cursor: skipping \<open>cursor\<close> entries and taking \<open>limit\<close> counts only the entries
  that are not excluded.
\<close>

theorem page_cursor_exact:
  assumes "sled_ok (store_sled st) \<alpha>" and "scan_prefix_page st p cursor limit excluded = Inr out"
  shows "out = take (unat limit) (drop (unat cursor) (page_entries p None excluded (\<alpha> (store_db st))))
    \<and> (\<forall>ks. keys_prefix_page st p cursor limit excluded = Inr ks \<longrightarrow> ks = map fst out)"
proof -
  let ?es = "page_entries p None excluded (\<alpha> (store_db st))"
  have page: "out = map proj (take (unat limit) (drop (unat cursor) ?es))"
    if l: "for_try Sled (page_item proj cursor (unat limit) excluded)
      (sled_scan_prefix (store_sled st) (store_db st) p) ([], 0) = Inr (out, n)"
    for out n and proj :: "bytes \<times> bytes \<Rightarrow> 'z"
    using for_try_iterates [OF sled_okD(7) [OF assms(1)] l]
      page_loop [of "[]" "unat limit" 0 cursor Sled proj excluded "entries_with_prefix p (\<alpha> (store_db st))"]
    by (auto simp: entries_with_prefix_def page_entries_def conj_commute)
  from assms(2) have out: "out = take (unat limit) (drop (unat cursor) ?es)"
    by (auto simp: scan_prefix_page_def res_bind_Inr_iff dest: page)
  moreover have "ks = map fst out" if "keys_prefix_page st p cursor limit excluded = Inr ks" for ks
    using that by (auto simp: keys_prefix_page_def res_bind_Inr_iff out dest: page)
  ultimately show ?thesis by blast
qed

theorem page_cursor_exact_witness:
  "scan_prefix_page (mem_store (om_insert [1, 1] [7] (om_insert [1, 2] [8] om_empty))) [1] 1 5 None
     = Inr [([1, 2], [8])]"
proof -
  let ?st = "mem_store (om_insert [1, 1] [7] (om_insert [1, 2] [8] om_empty))"
  obtain out where out: "scan_prefix_page ?st [1] 1 5 None = Inr out"
    by (simp add: scan_prefix_page_def mem_sled_def entries_with_prefix_def page_item_def is_excluded_def)
  have "out = take (unat (5 :: u32)) (drop (unat (1 :: u64)) (page_entries [1] None None (store_db ?st)))"
    using page_cursor_exact [of ?st id, OF _ out] by (simp add: mem_sled_ok)
  also have "\<dots> = [([1, 2], [8])]" by code_simp
  finally show ?thesis using out by simp
qed

text \<open>
  The byte-bounded page respects both budgets and makes progress: it is a prefix of the
  entries it is about, of at most \<open>max_records\<close> records and \<open>max_bytes\<close> bytes, and is empty
  only when there is nothing left (or no record was asked for); it never splits or drops
  a record to fit.
\<close>

theorem bounded_page_budget:
  assumes "sled_ok (store_sled st) \<alpha>" and "case start of None \<Rightarrow> True | Some a \<Rightarrow> p \<le> a"
    and "scan_prefix_page_after_bounded st p start max_records max_bytes = Inr out"
  shows "(\<exists>rest. page_entries p start None (\<alpha> (store_db st)) = out @ rest)
    \<and> length out \<le> unat max_records \<and> record_bytes out \<le> max_bytes
    \<and> (out = [] \<longrightarrow> unat max_records = 0 \<or> page_entries p start None (\<alpha> (store_db st)) = [])"
proof (cases "unat max_records = 0")
  case True
  with assms(3) show ?thesis by (simp add: scan_prefix_page_after_bounded_def record_bytes_def)
next
  case False
  let ?es = "page_entries p start None (\<alpha> (store_db st))"
  have "\<exists>acc. for_try Sled (bounded_item (unat max_records) max_bytes) (map Inr ?es) ([], 0) = Inr (out, acc)"
    using False assms(2,3) bounded_after_reduce [OF assms(1)] for_try_iterates [OF sled_okD(7) [OF assms(1)]]
    by (fastforce simp: scan_prefix_page_after_bounded_def res_bind_Inr_iff entries_with_prefix_page
        split: option.splits)
  then obtain acc where "for_try Sled (bounded_item (unat max_records) max_bytes) (map Inr ?es) ([], 0)
      = Inr (out, acc)" by blast
  from bounded_loop [OF this] False show ?thesis by (auto simp: record_bytes_def)
qed

theorem bounded_page_budget_witness:
  "scan_prefix_page_after_bounded (mem_store (om_insert [1, 1] [7] (om_insert [1, 2] [8] om_empty))) [1] None 5 4
     = Inr [([1, 1], [7])]"
proof -
  let ?st = "mem_store (om_insert [1, 1] [7] (om_insert [1, 2] [8] om_empty))"
  have out: "scan_prefix_page_after_bounded ?st [1] None 5 4 = Inr [([1, 1], [7])]"
    by (simp add: scan_prefix_page_after_bounded_def mem_sled_def entries_with_prefix_def bounded_item_cases)
  moreover have "record_bytes [([1, 1], [7])] \<le> 4"
    using bounded_page_budget [of ?st id, OF _ _ out] by (simp add: mem_sled_ok)
  ultimately show ?thesis by blast
qed

end
