(* ===== verification/Store_Keys.thy ===== *)
theory Store_Keys
  imports Kv_Store
begin

text \<open>
  The layout of the key space: the prefixes and \<open>CrdtKind\<close> of \<open>sync_manager/types.rs\<close>, and
  the construction and parsing of store keys at the head of \<open>sync_manager/storage.rs\<close>.

  A \<open>String\<close> holds valid UTF-8; \<open>utf8_valid\<close> is the check \<open>String::from_utf8\<close> makes, after
  the table of well-formed byte sequences of the Unicode standard.
\<close>

section \<open>UTF-8\<close>

definition utf8_cont :: "u8 \<Rightarrow> bool" where
  "utf8_cont b = (0x80 \<le> b \<and> b \<le> 0xBF)"

fun utf8_valid :: "bytes \<Rightarrow> bool" where
  "utf8_valid [] = True"
| "utf8_valid (b # bs) =
     (if b \<le> 0x7F then utf8_valid bs
      else if 0xC2 \<le> b \<and> b \<le> 0xDF then
        (case bs of c # rest \<Rightarrow> utf8_cont c \<and> utf8_valid rest | _ \<Rightarrow> False)
      else if 0xE0 \<le> b \<and> b \<le> 0xEF then
        (case bs of
           c # d # rest \<Rightarrow>
             utf8_cont c \<and> (b = 0xE0 \<longrightarrow> 0xA0 \<le> c) \<and> (b = 0xED \<longrightarrow> c \<le> 0x9F)
             \<and> utf8_cont d \<and> utf8_valid rest
         | _ \<Rightarrow> False)
      else if 0xF0 \<le> b \<and> b \<le> 0xF4 then
        (case bs of
           c # d # e # rest \<Rightarrow>
             utf8_cont c \<and> (b = 0xF0 \<longrightarrow> 0x90 \<le> c) \<and> (b = 0xF4 \<longrightarrow> c \<le> 0x8F)
             \<and> utf8_cont d \<and> utf8_cont e \<and> utf8_valid rest
         | _ \<Rightarrow> False)
      else False)"

section \<open>Prefixes and CRDT kinds\<close>

definition GCOUNTER_STORE_PREFIX :: string where
  "GCOUNTER_STORE_PREFIX = ''__nx/crdt/gcounter/''"
definition GCOUNTER_STATE_STORE_PREFIX :: string where
  "GCOUNTER_STATE_STORE_PREFIX = ''__nx/crdt/state/gcounter/''"
definition PNCOUNTER_STORE_PREFIX :: string where
  "PNCOUNTER_STORE_PREFIX = ''__nx/crdt/pncounter/''"
definition PNCOUNTER_STATE_STORE_PREFIX :: string where
  "PNCOUNTER_STATE_STORE_PREFIX = ''__nx/crdt/state/pncounter/''"
definition LWW_REGISTER_STORE_PREFIX :: string where
  "LWW_REGISTER_STORE_PREFIX = ''__nx/crdt/lww-register/''"
definition LWW_REGISTER_STATE_STORE_PREFIX :: string where
  "LWW_REGISTER_STATE_STORE_PREFIX = ''__nx/crdt/state/lww-register/''"
definition LWW_MAP_STORE_PREFIX :: string where
  "LWW_MAP_STORE_PREFIX = ''__nx/crdt/lww-map/''"
definition LWW_MAP_STATE_STORE_PREFIX :: string where
  "LWW_MAP_STATE_STORE_PREFIX = ''__nx/crdt/state/lww-map/''"
definition ORSET_STORE_PREFIX :: string where
  "ORSET_STORE_PREFIX = ''__nx/crdt/orset/''"
definition ORSET_STATE_STORE_PREFIX :: string where
  "ORSET_STATE_STORE_PREFIX = ''__nx/crdt/state/orset/''"
definition RGA_STORE_PREFIX :: string where
  "RGA_STORE_PREFIX = ''__nx/crdt/rga/''"
definition RGA_STATE_STORE_PREFIX :: string where
  "RGA_STATE_STORE_PREFIX = ''__nx/crdt/state/rga/''"
definition SEEN_OP_STORE_PREFIX :: string where
  "SEEN_OP_STORE_PREFIX = ''__nx/crdt/seen-op/''"
definition OP_LOG_STORE_PREFIX :: string where
  "OP_LOG_STORE_PREFIX = ''__nx/crdt/op-log/''"

lemmas store_prefix_defs =
  GCOUNTER_STORE_PREFIX_def GCOUNTER_STATE_STORE_PREFIX_def PNCOUNTER_STORE_PREFIX_def
  PNCOUNTER_STATE_STORE_PREFIX_def LWW_REGISTER_STORE_PREFIX_def LWW_REGISTER_STATE_STORE_PREFIX_def
  LWW_MAP_STORE_PREFIX_def LWW_MAP_STATE_STORE_PREFIX_def ORSET_STORE_PREFIX_def
  ORSET_STATE_STORE_PREFIX_def RGA_STORE_PREFIX_def RGA_STATE_STORE_PREFIX_def
  SEEN_OP_STORE_PREFIX_def OP_LOG_STORE_PREFIX_def

datatype crdt_store_namespace = Materialized | State

datatype crdt_kind = GCounter | PNCounter | LwwRegister | LwwMap | ORSet | Rga

fun crdt_kind_label :: "crdt_kind \<Rightarrow> string" where
  "crdt_kind_label GCounter = ''GCounter''"
| "crdt_kind_label PNCounter = ''PNCounter''"
| "crdt_kind_label LwwRegister = ''LWW-Register''"
| "crdt_kind_label LwwMap = ''LWW-Map''"
| "crdt_kind_label ORSet = ''ORSet''"
| "crdt_kind_label Rga = ''RGA''"

fun crdt_kind_prefix :: "crdt_kind \<Rightarrow> crdt_store_namespace \<Rightarrow> string" where
  "crdt_kind_prefix GCounter Materialized = GCOUNTER_STORE_PREFIX"
| "crdt_kind_prefix GCounter State = GCOUNTER_STATE_STORE_PREFIX"
| "crdt_kind_prefix PNCounter Materialized = PNCOUNTER_STORE_PREFIX"
| "crdt_kind_prefix PNCounter State = PNCOUNTER_STATE_STORE_PREFIX"
| "crdt_kind_prefix LwwRegister Materialized = LWW_REGISTER_STORE_PREFIX"
| "crdt_kind_prefix LwwRegister State = LWW_REGISTER_STATE_STORE_PREFIX"
| "crdt_kind_prefix LwwMap Materialized = LWW_MAP_STORE_PREFIX"
| "crdt_kind_prefix LwwMap State = LWW_MAP_STATE_STORE_PREFIX"
| "crdt_kind_prefix ORSet Materialized = ORSET_STORE_PREFIX"
| "crdt_kind_prefix ORSet State = ORSET_STATE_STORE_PREFIX"
| "crdt_kind_prefix Rga Materialized = RGA_STORE_PREFIX"
| "crdt_kind_prefix Rga State = RGA_STATE_STORE_PREFIX"

section \<open>Store keys\<close>

text \<open>
  The errors of the storage layer. \<open>anyhow\<close> messages become constructors with the values
  the message quotes; \<open>Json\<close> carries the message of the serialisation library.
\<close>

datatype storage_error =
    StoreFailure store_error
  | InvalidKey string
  | InvalidUtf8 string
  | InvalidLength string nat
  | Json string
  | InvalidJson string string
  | CorruptedKey string storage_error
  | CorruptedState string string storage_error
  | StackOverflow

definition prefixed_store_key :: "string \<Rightarrow> string \<Rightarrow> bytes" where
  "prefixed_store_key p key = as_bytes p @ as_bytes key"

definition crdt_store_key :: "crdt_kind \<Rightarrow> crdt_store_namespace \<Rightarrow> string \<Rightarrow> bytes" where
  "crdt_store_key kind namespace key = prefixed_store_key (crdt_kind_prefix kind namespace) key"

definition materialized_gcounter_key :: "string \<Rightarrow> bytes" where
  "materialized_gcounter_key key = crdt_store_key GCounter Materialized key"
definition durable_gcounter_state_key :: "string \<Rightarrow> bytes" where
  "durable_gcounter_state_key key = crdt_store_key GCounter State key"
definition materialized_pncounter_key :: "string \<Rightarrow> bytes" where
  "materialized_pncounter_key key = crdt_store_key PNCounter Materialized key"
definition durable_pncounter_state_key :: "string \<Rightarrow> bytes" where
  "durable_pncounter_state_key key = crdt_store_key PNCounter State key"
definition materialized_lww_register_key :: "string \<Rightarrow> bytes" where
  "materialized_lww_register_key key = crdt_store_key LwwRegister Materialized key"
definition durable_lww_register_state_key :: "string \<Rightarrow> bytes" where
  "durable_lww_register_state_key key = crdt_store_key LwwRegister State key"
definition materialized_lww_map_key :: "string \<Rightarrow> bytes" where
  "materialized_lww_map_key key = crdt_store_key LwwMap Materialized key"
definition durable_lww_map_state_key :: "string \<Rightarrow> bytes" where
  "durable_lww_map_state_key key = crdt_store_key LwwMap State key"
definition materialized_orset_key :: "string \<Rightarrow> bytes" where
  "materialized_orset_key key = crdt_store_key ORSet Materialized key"
definition durable_orset_state_key :: "string \<Rightarrow> bytes" where
  "durable_orset_state_key key = crdt_store_key ORSet State key"
definition materialized_rga_key :: "string \<Rightarrow> bytes" where
  "materialized_rga_key key = crdt_store_key Rga Materialized key"
definition durable_rga_state_key :: "string \<Rightarrow> bytes" where
  "durable_rga_state_key key = crdt_store_key Rga State key"

lemmas crdt_key_defs =
  materialized_gcounter_key_def durable_gcounter_state_key_def materialized_pncounter_key_def
  durable_pncounter_state_key_def materialized_lww_register_key_def durable_lww_register_state_key_def
  materialized_lww_map_key_def durable_lww_map_state_key_def materialized_orset_key_def
  durable_orset_state_key_def materialized_rga_key_def durable_rga_state_key_def

definition seen_op_store_key :: "string \<Rightarrow> bytes" where
  "seen_op_store_key i = prefixed_store_key SEEN_OP_STORE_PREFIX i"

definition op_log_store_key :: "string \<Rightarrow> bytes" where
  "op_log_store_key i = prefixed_store_key OP_LOG_STORE_PREFIX i"

definition logical_key_for_prefix :: "bytes \<Rightarrow> string \<Rightarrow> string \<Rightarrow> storage_error + string" where
  "logical_key_for_prefix store_key p kind =
     (if \<not> starts_with store_key (as_bytes p) then Inl (InvalidKey kind)
      else let key = drop (length p) store_key
           in if utf8_valid key then Inr (string_of_bytes key) else Inl (InvalidUtf8 kind))"

definition logical_crdt_key :: "bytes \<Rightarrow> crdt_kind \<Rightarrow> crdt_store_namespace \<Rightarrow> storage_error + string" where
  "logical_crdt_key store_key kind namespace =
     (let namespace_label = (case namespace of Materialized \<Rightarrow> ''materialized'' | State \<Rightarrow> ''durable state'')
      in logical_key_for_prefix store_key (crdt_kind_prefix kind namespace)
           (namespace_label @ '' '' @ crdt_kind_label kind))"

definition logical_gcounter_key :: "bytes \<Rightarrow> storage_error + string" where
  "logical_gcounter_key store_key = logical_crdt_key store_key GCounter Materialized"
definition logical_gcounter_state_key :: "bytes \<Rightarrow> storage_error + string" where
  "logical_gcounter_state_key store_key = logical_crdt_key store_key GCounter State"
definition logical_pncounter_key :: "bytes \<Rightarrow> storage_error + string" where
  "logical_pncounter_key store_key = logical_crdt_key store_key PNCounter Materialized"
definition logical_pncounter_state_key :: "bytes \<Rightarrow> storage_error + string" where
  "logical_pncounter_state_key store_key = logical_crdt_key store_key PNCounter State"
definition logical_lww_register_state_key :: "bytes \<Rightarrow> storage_error + string" where
  "logical_lww_register_state_key store_key = logical_crdt_key store_key LwwRegister State"
definition logical_lww_map_state_key :: "bytes \<Rightarrow> storage_error + string" where
  "logical_lww_map_state_key store_key = logical_crdt_key store_key LwwMap State"
definition logical_orset_state_key :: "bytes \<Rightarrow> storage_error + string" where
  "logical_orset_state_key store_key = logical_crdt_key store_key ORSet State"
definition logical_rga_state_key :: "bytes \<Rightarrow> storage_error + string" where
  "logical_rga_state_key store_key = logical_crdt_key store_key Rga State"

definition logical_seen_op_id :: "bytes \<Rightarrow> storage_error + string" where
  "logical_seen_op_id store_key = logical_key_for_prefix store_key SEEN_OP_STORE_PREFIX ''seen OpId''"
definition logical_op_log_id :: "bytes \<Rightarrow> storage_error + string" where
  "logical_op_log_id store_key = logical_key_for_prefix store_key OP_LOG_STORE_PREFIX ''op log OpId''"

section \<open>Lemmas on keys\<close>

lemma bytes_of_string_of_bytes [simp]: "as_bytes (string_of_bytes bs) = bs"
proof (induction bs)
  case (Cons b bs)
  have "unat b < 256" using unsigned_less [of b, where ?'a = nat] by simp
  with Cons show ?case by (simp add: as_bytes_def string_of_bytes_def)
qed (simp add: as_bytes_def string_of_bytes_def)

lemma prefixed_key_inject [simp]: "prefixed_store_key p a = prefixed_store_key p b \<longleftrightarrow> a = b"
  by (simp add: prefixed_store_key_def)

lemma starts_with_prefixed [simp]: "starts_with (prefixed_store_key p a) (as_bytes p)"
  by (simp add: prefixed_store_key_def)

lemma logical_key_prefixed:
  "logical_key_for_prefix (prefixed_store_key p a) p kind =
     (if utf8_valid (as_bytes a) then Inr a else Inl (InvalidUtf8 kind))"
  by (simp add: logical_key_for_prefix_def prefixed_store_key_def)

lemma logical_key_Inr:
  "logical_key_for_prefix k p kind = Inr a \<longleftrightarrow> k = prefixed_store_key p a \<and> utf8_valid (as_bytes a)"
proof
  assume "logical_key_for_prefix k p kind = Inr a"
  then have "starts_with k (as_bytes p)" "a = string_of_bytes (drop (length p) k)" "utf8_valid (as_bytes a)"
    by (auto simp: logical_key_for_prefix_def Let_def split: if_splits)
  then show "k = prefixed_store_key p a \<and> utf8_valid (as_bytes a)"
    by (auto simp: prefixed_store_key_def starts_with_iff)
qed (simp add: logical_key_prefixed)

text \<open>The prefixes of the tables; no one is a prefix of another.\<close>

definition table_prefixes :: "string list" where
  "table_prefixes = [GCOUNTER_STORE_PREFIX, GCOUNTER_STATE_STORE_PREFIX, PNCOUNTER_STORE_PREFIX,
     PNCOUNTER_STATE_STORE_PREFIX, LWW_REGISTER_STORE_PREFIX, LWW_REGISTER_STATE_STORE_PREFIX,
     LWW_MAP_STORE_PREFIX, LWW_MAP_STATE_STORE_PREFIX, ORSET_STORE_PREFIX, ORSET_STATE_STORE_PREFIX,
     RGA_STORE_PREFIX, RGA_STATE_STORE_PREFIX, SEEN_OP_STORE_PREFIX, OP_LOG_STORE_PREFIX]"

lemma table_prefix_free:
  "list_all (\<lambda>p. list_all (\<lambda>q. p = q \<or> take (length p) q \<noteq> p) table_prefixes) table_prefixes"
  by code_simp

lemma prefix_free:
  "p \<in> set table_prefixes \<Longrightarrow> q \<in> set table_prefixes \<Longrightarrow> p \<noteq> q \<Longrightarrow> take (length p) q \<noteq> p"
  using table_prefix_free by (auto simp: list_all_iff)

text \<open>A key of one table is never found under the prefix of another.\<close>

lemma prefixed_key_other:
  assumes "p \<in> set table_prefixes" "q \<in> set table_prefixes" "p \<noteq> q"
  shows "\<not> starts_with (prefixed_store_key q a) (as_bytes p)"
proof
  assume "starts_with (prefixed_store_key q a) (as_bytes p)"
  then obtain r where "as_bytes q @ as_bytes a = as_bytes p @ r"
    by (auto simp: starts_with_iff prefixed_store_key_def)
  then consider t where "as_bytes q = as_bytes p @ t" | t where "as_bytes p = as_bytes q @ t"
    unfolding append_eq_append_conv2 by metis
  then have "take (length p) q = p \<or> take (length q) p = q"
    by cases (metis append_eq_conv_conj as_bytes_append bytes_of_string_of_bytes as_bytes_inject)+
  with prefix_free assms show False by metis
qed

lemma prefixed_key_eq_iff:
  assumes "p \<in> set table_prefixes" "q \<in> set table_prefixes"
  shows "prefixed_store_key p a = prefixed_store_key q b \<longleftrightarrow> p = q \<and> a = b"
  using prefixed_key_other [OF assms] by (metis prefixed_key_inject starts_with_prefixed)

lemma crdt_kind_prefix_table [simp]: "crdt_kind_prefix kind ns \<in> set table_prefixes"
  by (cases "(kind, ns)" rule: crdt_kind_prefix.cases) (simp_all add: table_prefixes_def)

lemma op_prefix_table [simp]:
  "SEEN_OP_STORE_PREFIX \<in> set table_prefixes" "OP_LOG_STORE_PREFIX \<in> set table_prefixes"
  by (simp_all add: table_prefixes_def)

lemma crdt_kind_prefix_inject [simp]:
  "crdt_kind_prefix kind ns = crdt_kind_prefix kind' ns' \<longleftrightarrow> kind = kind' \<and> ns = ns'"
  by (cases "(kind, ns)" rule: crdt_kind_prefix.cases; cases "(kind', ns')" rule: crdt_kind_prefix.cases)
    (simp_all add: store_prefix_defs)

lemma crdt_kind_prefix_op [simp]:
  "crdt_kind_prefix kind ns \<noteq> SEEN_OP_STORE_PREFIX" "crdt_kind_prefix kind ns \<noteq> OP_LOG_STORE_PREFIX"
  "SEEN_OP_STORE_PREFIX \<noteq> OP_LOG_STORE_PREFIX"
  by (cases "(kind, ns)" rule: crdt_kind_prefix.cases; simp add: store_prefix_defs)+

lemmas crdt_kind_prefix_op_sym [simp] = crdt_kind_prefix_op [THEN not_sym]

lemma crdt_key_eq_iff [simp]:
  "crdt_store_key kind ns a = crdt_store_key kind' ns' b \<longleftrightarrow> kind = kind' \<and> ns = ns' \<and> a = b"
  by (simp add: crdt_store_key_def prefixed_key_eq_iff)

lemma op_key_eq_iff [simp]:
  "seen_op_store_key i = seen_op_store_key j \<longleftrightarrow> i = j"
  "op_log_store_key i = op_log_store_key j \<longleftrightarrow> i = j"
  "seen_op_store_key i \<noteq> op_log_store_key j" "op_log_store_key i \<noteq> seen_op_store_key j"
  "crdt_store_key kind ns a \<noteq> seen_op_store_key i" "seen_op_store_key i \<noteq> crdt_store_key kind ns a"
  "crdt_store_key kind ns a \<noteq> op_log_store_key i" "op_log_store_key i \<noteq> crdt_store_key kind ns a"
  by (simp_all add: seen_op_store_key_def op_log_store_key_def crdt_store_key_def prefixed_key_eq_iff)

lemma logical_crdt_key_Inr:
  "logical_crdt_key k kind ns = Inr a \<longleftrightarrow> k = crdt_store_key kind ns a \<and> utf8_valid (as_bytes a)"
  by (simp add: logical_crdt_key_def crdt_store_key_def logical_key_Inr)

section \<open>Properties of the key space\<close>

text \<open>
  Store keys parse back to the key they were built from and are the only byte strings
  that parse to it, and the tables are disjoint: keys of different kinds, namespaces or
  names differ, and a scan by the prefix of one table never meets a key of another, nor
  the deduplication and log entries.
\<close>

theorem store_key_layout:
  "(logical_crdt_key k kind ns = Inr a \<longleftrightarrow> k = crdt_store_key kind ns a \<and> utf8_valid (as_bytes a))
   \<and> (crdt_store_key kind ns a = crdt_store_key kind' ns' b \<longleftrightarrow> (kind, ns, a) = (kind', ns', b))
   \<and> (starts_with (crdt_store_key kind ns a) (as_bytes (crdt_kind_prefix kind' ns')) \<longleftrightarrow>
        (kind, ns) = (kind', ns'))
   \<and> \<not> starts_with (seen_op_store_key i) (as_bytes (crdt_kind_prefix kind ns))
   \<and> \<not> starts_with (op_log_store_key i) (as_bytes (crdt_kind_prefix kind ns))
   \<and> \<not> starts_with (crdt_store_key kind ns a) (as_bytes SEEN_OP_STORE_PREFIX)
   \<and> \<not> starts_with (crdt_store_key kind ns a) (as_bytes OP_LOG_STORE_PREFIX)"
proof -
  have "starts_with (crdt_store_key kind ns a) (as_bytes (crdt_kind_prefix kind' ns'))
      \<longleftrightarrow> (kind, ns) = (kind', ns')"
    using prefixed_key_other [of "crdt_kind_prefix kind' ns'" "crdt_kind_prefix kind ns" a]
    by (auto simp: crdt_store_key_def)
  moreover have "\<not> starts_with (crdt_store_key kind ns a) (as_bytes q)"
    "\<not> starts_with (prefixed_store_key q i) (as_bytes (crdt_kind_prefix kind ns))"
    if "q \<in> {SEEN_OP_STORE_PREFIX, OP_LOG_STORE_PREFIX}" for q i
    using that prefixed_key_other [of q "crdt_kind_prefix kind ns" a] prefixed_key_other [of "crdt_kind_prefix kind ns" q i]
    by (auto simp: crdt_store_key_def)
  ultimately show ?thesis
    by (simp add: logical_crdt_key_Inr seen_op_store_key_def op_log_store_key_def)
qed

end
