(* ===== verification/Sync_Op.thy ===== *)
theory Sync_Op
  imports Ordered_Map
begin

text \<open>
  \<open>nx-sync/src/node_id.rs\<close> and \<open>nx-sync/src/op.rs\<close>: node and operation identifiers, the
  operation kinds and the operation constructors. Identifiers are newtypes over strings.
  \<open>Uuid::new_v4\<close> is third-party: the string it yields is an argument of every constructor
  that calls \<open>OpId::generate\<close> (and of \<open>node_id_generate\<close>).
\<close>

section \<open>Identifiers\<close>

datatype node_id = NodeId string

fun node_id_as_str :: "node_id \<Rightarrow> string" where
  "node_id_as_str (NodeId s) = s"

definition node_id_new :: "string \<Rightarrow> node_id" where
  "node_id_new s = NodeId s"

definition node_id_generate :: "string \<Rightarrow> node_id" where
  "node_id_generate uuid = NodeId uuid"

datatype op_id = OpId string

fun op_id_as_str :: "op_id \<Rightarrow> string" where
  "op_id_as_str (OpId s) = s"

definition op_id_new :: "string \<Rightarrow> op_id" where
  "op_id_new s = OpId s"

definition op_id_generate :: "string \<Rightarrow> op_id" where
  "op_id_generate uuid = OpId uuid"

instantiation node_id :: linorder
begin

definition less_eq_node_id :: "node_id \<Rightarrow> node_id \<Rightarrow> bool" where
  "less_eq_node_id a b = (node_id_as_str a \<le> node_id_as_str b)"

definition less_node_id :: "node_id \<Rightarrow> node_id \<Rightarrow> bool" where
  "less_node_id a b = (node_id_as_str a < node_id_as_str b)"

instance
proof
  fix a b :: node_id
  show "a \<le> b \<Longrightarrow> b \<le> a \<Longrightarrow> a = b"
    by (cases a; cases b) (simp add: less_eq_node_id_def)
qed (auto simp: less_eq_node_id_def less_node_id_def)

end

section \<open>Operations\<close>

datatype op_kind =
    GCounterIncrement string u64
  | PNCounterIncrement string u64
  | PNCounterDecrement string u64
  | LwwRegisterSet string bytes u64
  | LwwMapSet string string bytes u64
  | LwwMapRemove string string u64
  | ORSetAdd string string string
  | ORSetRemove string string "string list"
  | RgaInsert string string "string option" bytes
  | RgaDelete string string

record Op =
  op_id :: op_id
  op_origin :: node_id
  op_kind :: op_kind

definition op_gcounter_increment :: "string \<Rightarrow> node_id \<Rightarrow> string \<Rightarrow> u64 \<Rightarrow> Op" where
  "op_gcounter_increment uuid origin key increment =
     \<lparr>op_id = op_id_generate uuid, op_origin = origin,
      op_kind = GCounterIncrement key increment\<rparr>"

definition op_pncounter_increment :: "string \<Rightarrow> node_id \<Rightarrow> string \<Rightarrow> u64 \<Rightarrow> Op" where
  "op_pncounter_increment uuid origin key increment =
     \<lparr>op_id = op_id_generate uuid, op_origin = origin,
      op_kind = PNCounterIncrement key increment\<rparr>"

definition op_pncounter_decrement :: "string \<Rightarrow> node_id \<Rightarrow> string \<Rightarrow> u64 \<Rightarrow> Op" where
  "op_pncounter_decrement uuid origin key decrement =
     \<lparr>op_id = op_id_generate uuid, op_origin = origin,
      op_kind = PNCounterDecrement key decrement\<rparr>"

definition op_lww_register_set ::
    "string \<Rightarrow> node_id \<Rightarrow> string \<Rightarrow> bytes \<Rightarrow> u64 \<Rightarrow> Op" where
  "op_lww_register_set uuid origin key value timestamp_ms =
     \<lparr>op_id = op_id_generate uuid, op_origin = origin,
      op_kind = LwwRegisterSet key value timestamp_ms\<rparr>"

definition op_lww_map_set ::
    "string \<Rightarrow> node_id \<Rightarrow> string \<Rightarrow> string \<Rightarrow> bytes \<Rightarrow> u64 \<Rightarrow> Op" where
  "op_lww_map_set uuid origin key field value timestamp_ms =
     \<lparr>op_id = op_id_generate uuid, op_origin = origin,
      op_kind = LwwMapSet key field value timestamp_ms\<rparr>"

definition op_lww_map_remove :: "string \<Rightarrow> node_id \<Rightarrow> string \<Rightarrow> string \<Rightarrow> u64 \<Rightarrow> Op" where
  "op_lww_map_remove uuid origin key field timestamp_ms =
     \<lparr>op_id = op_id_generate uuid, op_origin = origin,
      op_kind = LwwMapRemove key field timestamp_ms\<rparr>"

definition op_orset_add :: "string \<Rightarrow> node_id \<Rightarrow> string \<Rightarrow> string \<Rightarrow> string \<Rightarrow> Op" where
  "op_orset_add uuid origin key element tag =
     \<lparr>op_id = op_id_generate uuid, op_origin = origin,
      op_kind = ORSetAdd key element tag\<rparr>"

definition op_orset_add_with_op_id_tag :: "string \<Rightarrow> node_id \<Rightarrow> string \<Rightarrow> string \<Rightarrow> Op" where
  "op_orset_add_with_op_id_tag uuid origin key element =
     (let new_id = op_id_generate uuid; tag = op_id_as_str new_id
      in \<lparr>op_id = new_id, op_origin = origin, op_kind = ORSetAdd key element tag\<rparr>)"

definition op_orset_remove ::
    "string \<Rightarrow> node_id \<Rightarrow> string \<Rightarrow> string \<Rightarrow> string list \<Rightarrow> Op" where
  "op_orset_remove uuid origin key element observed_tags =
     \<lparr>op_id = op_id_generate uuid, op_origin = origin,
      op_kind = ORSetRemove key element observed_tags\<rparr>"

definition op_rga_insert ::
    "string \<Rightarrow> node_id \<Rightarrow> string \<Rightarrow> string \<Rightarrow> string option \<Rightarrow> bytes \<Rightarrow> Op" where
  "op_rga_insert uuid origin key elem parent value =
     \<lparr>op_id = op_id_generate uuid, op_origin = origin,
      op_kind = RgaInsert key elem parent value\<rparr>"

definition op_rga_insert_with_op_id ::
    "string \<Rightarrow> node_id \<Rightarrow> string \<Rightarrow> string option \<Rightarrow> bytes \<Rightarrow> Op" where
  "op_rga_insert_with_op_id uuid origin key parent value =
     (let new_id = op_id_generate uuid; element_id = op_id_as_str new_id
      in \<lparr>op_id = new_id, op_origin = origin, op_kind = RgaInsert key element_id parent value\<rparr>)"

definition op_rga_delete :: "string \<Rightarrow> node_id \<Rightarrow> string \<Rightarrow> string \<Rightarrow> Op" where
  "op_rga_delete uuid origin key elem =
     \<lparr>op_id = op_id_generate uuid, op_origin = origin, op_kind = RgaDelete key elem\<rparr>"

section \<open>Lemmas\<close>

text \<open>\<open>op.id.as_str()\<close>, the key of every deduplication table.\<close>

abbreviation op_key :: "Op \<Rightarrow> string" where
  "op_key x \<equiv> op_id_as_str (op_id x)"

lemma node_id_eq_iff: "a = b \<longleftrightarrow> node_id_as_str a = node_id_as_str b"
  by (cases a; cases b) simp

lemma op_id_eq_iff: "a = b \<longleftrightarrow> op_id_as_str a = op_id_as_str b"
  by (cases a; cases b) simp

end
