(* ===== verification/Op_Tracking.thy ===== *)
theory Op_Tracking
  imports Sync_Op
begin

text \<open>
  The bookkeeping that makes replication deliver each operation once: the bounded window of
  operation ids already seen (\<open>SeenOps\<close> of \<open>sync_manager/types.rs\<close>), the bounded operation
  log, and the planning of evictions for a whole batch
  (\<open>plan_seen_evictions\<close>, \<open>plan_op_log_evictions\<close> and the functions around them in
  \<open>sync_manager/replication.rs\<close>).

  The locks are held for the whole of every function here, so each is one step. The
  \<open>HashSet\<close> of ids is a set, the \<open>VecDeque\<close> a list whose head is the front.
\<close>

section \<open>The window of seen operations\<close>

definition normalize_op_log_limit :: "nat \<Rightarrow> nat" where
  "normalize_op_log_limit limit = max limit 1"

definition normalize_seen_ops_limit :: "nat \<Rightarrow> nat" where
  "normalize_seen_ops_limit limit = max limit 1"

record seen_ops =
  seen_ids :: "string set"
  seen_order :: "string list"
  seen_limit :: nat

datatype seen_ops_insert_result =
    AlreadySeen
  | Inserted "string list"

definition seen_ops_new :: "nat \<Rightarrow> seen_ops" where
  "seen_ops_new limit =
     \<lparr>seen_ids = {}, seen_order = [], seen_limit = normalize_seen_ops_limit limit\<rparr>"

definition seen_ops_contains :: "seen_ops \<Rightarrow> string \<Rightarrow> bool" where
  "seen_ops_contains s i = (i \<in> seen_ids s)"

text \<open>The \<open>while\<close> loop of \<open>insert\<close>: pop the front until the order fits the limit.\<close>

fun evict_front :: "nat \<Rightarrow> string list \<Rightarrow> string set \<Rightarrow> string list \<Rightarrow>
    string list \<times> string set \<times> string list" where
  "evict_front limit [] ids evicted = ([], ids, evicted)"
| "evict_front limit (x # xs) ids evicted =
     (if length (x # xs) > limit then evict_front limit xs (ids - {x}) (evicted @ [x])
      else (x # xs, ids, evicted))"

definition seen_ops_insert :: "string \<Rightarrow> seen_ops \<Rightarrow> seen_ops \<times> seen_ops_insert_result" where
  "seen_ops_insert i s =
     (if i \<in> seen_ids s then (s, AlreadySeen)
      else case evict_front (seen_limit s) (seen_order s @ [i]) (insert i (seen_ids s)) [] of
        (order, ids, evicted) \<Rightarrow>
          (s\<lparr>seen_ids := ids, seen_order := order\<rparr>, Inserted evicted))"

definition seen_ops_len :: "seen_ops \<Rightarrow> nat" where
  "seen_ops_len s = card (seen_ids s)"

section \<open>Batches\<close>

definition plan_seen_evictions :: "seen_ops \<Rightarrow> string list \<Rightarrow> string list" where
  "plan_seen_evictions s inserted_ids =
     (let total_len = length (seen_order s) + length inserted_ids;
          remove_count = total_len - seen_limit s
      in if remove_count = 0 then []
         else let evicted = take remove_count (seen_order s)
              in if remove_count > length (seen_order s)
                 then evicted @ take (remove_count - length (seen_order s)) inserted_ids
                 else evicted)"

definition apply_seen_insertions :: "seen_ops \<Rightarrow> string list \<Rightarrow> string list \<Rightarrow> seen_ops" where
  "apply_seen_insertions s inserted_ids evicted =
     fold (\<lambda>i s. s\<lparr>seen_ids := seen_ids s - {i}, seen_order := tl (seen_order s)\<rparr>) evicted
       (fold (\<lambda>i s. s\<lparr>seen_ids := insert i (seen_ids s), seen_order := seen_order s @ [i]\<rparr>)
          inserted_ids s)"

definition plan_op_log_evictions :: "Op list \<Rightarrow> nat \<Rightarrow> nat \<Rightarrow> Op list" where
  "plan_op_log_evictions log inserted_count limit =
     (let limit = normalize_op_log_limit limit;
          total_len = length log + inserted_count;
          remove_count = total_len - limit
      in take remove_count log)"

definition prune_op_log_and_return_evicted :: "Op list \<Rightarrow> nat \<Rightarrow> Op list \<times> Op list" where
  "prune_op_log_and_return_evicted log limit =
     (let limit = normalize_op_log_limit limit
      in if length log > limit
         then let remove_count = length log - limit in (drop remove_count log, take remove_count log)
         else (log, []))"

text \<open>\<open>position\<close>, the index of the first operation with the id, then the rest of the log.\<close>

fun op_position :: "string \<Rightarrow> Op list \<Rightarrow> nat option" where
  "op_position i [] = None"
| "op_position i (x # xs) =
     (if op_key x = i then Some 0 else map_option Suc (op_position i xs))"

definition op_log_since :: "Op list \<Rightarrow> string option \<Rightarrow> Op list" where
  "op_log_since log since_op_id =
     (case since_op_id of
        Some i \<Rightarrow>
          (case op_position i log of None \<Rightarrow> log | Some index \<Rightarrow> drop (index + 1) log)
      | None \<Rightarrow> log)"

record op_persistence_plan =
  plan_op :: Op
  seen_sequence :: u64
  op_log_sequence :: u64
  seen_evicted :: "string list"
  op_log_evicted :: "Op list"

text \<open>
  The loop that numbers the new operations of a batch; the evictions ride on the last plan.
  The index runs from \<open>index\<close>, \<open>last_insert_index\<close> is \<open>inserted_ops.len().saturating_sub(1)\<close>.
\<close>

fun number_plans :: "nat \<Rightarrow> nat \<Rightarrow> Op list \<Rightarrow> u64 \<Rightarrow> u64 \<Rightarrow> string list \<Rightarrow> Op list \<Rightarrow>
    op_persistence_plan list \<times> u64 \<times> u64" where
  "number_plans index last_index [] next_seen next_log evicted log_evicted = ([], next_seen, next_log)"
| "number_plans index last_index (x # xs) next_seen next_log evicted log_evicted =
     (let plan = \<lparr>plan_op = x, seen_sequence = next_seen, op_log_sequence = next_log,
            seen_evicted = (if index = last_index then evicted else []),
            op_log_evicted = (if index = last_index then log_evicted else [])\<rparr>
      in case number_plans (Suc index) last_index xs (saturating_add next_seen 1)
                (saturating_add next_log 1) evicted log_evicted of
           (plans, seen', log') \<Rightarrow> (plan # plans, seen', log'))"

text \<open>The first loop of \<open>remember_ops\<close>: keep the operations that are not duplicates.\<close>

fun fresh_ops :: "string set \<Rightarrow> Op list \<Rightarrow> string list \<Rightarrow> Op list \<Rightarrow> string list \<times> Op list" where
  "fresh_ops ids [] inserted_ids inserted_ops = (inserted_ids, inserted_ops)"
| "fresh_ops ids (x # xs) inserted_ids inserted_ops =
     (if op_key x \<notin> ids \<and> \<not> list_ex (\<lambda>i. i = op_key x) inserted_ids
      then fresh_ops ids xs (inserted_ids @ [op_key x]) (inserted_ops @ [x])
      else fresh_ops ids xs inserted_ids inserted_ops)"

section \<open>The invariant of the window\<close>

text \<open>The ids are exactly those in the order, each once, and there are at most \<open>limit\<close> of them.\<close>

definition seen_wf :: "seen_ops \<Rightarrow> bool" where
  "seen_wf s = (seen_ids s = set (seen_order s) \<and> distinct (seen_order s)
     \<and> length (seen_order s) \<le> seen_limit s \<and> 1 \<le> seen_limit s)"

text \<open>The window over a history: its last \<open>limit\<close> ids.\<close>

definition last_n :: "nat \<Rightarrow> 'a list \<Rightarrow> 'a list" where
  "last_n n xs = drop (length xs - n) xs"

lemma last_n_append:
  "length ys \<le> n \<Longrightarrow> last_n n (xs @ ys) = last_n (n - length ys) xs @ ys"
  by (auto simp: last_n_def)

lemma last_n_append_last_n: "last_n n (last_n n xs @ ys) = last_n n (xs @ ys)"
  by (cases "length xs \<le> n") (auto simp: last_n_def add.commute)

text \<open>What two evictions in a row drop is what one eviction of both drops.\<close>

lemma evicted_append:
  "take (length xs - n) xs @ take (length (last_n n xs @ ys) - n) (last_n n xs @ ys)
     = take (length (xs @ ys) - n) (xs @ ys)"
proof (cases "length xs \<le> n")
  case False
  then have "length (xs @ ys) - n = (length xs - n) + length ys" by simp
  then have "take (length (xs @ ys) - n) (xs @ ys)
      = take (length xs - n) (xs @ ys) @ take (length ys) (drop (length xs - n) (xs @ ys))"
    by (simp only: take_add)
  with False show ?thesis by (simp add: last_n_def)
qed (simp add: last_n_def)

lemma last_n_short [simp]: "length xs \<le> n \<Longrightarrow> last_n n xs = xs"
  by (simp add: last_n_def)

lemma length_last_n [simp]: "length (last_n n xs) = min n (length xs)"
  by (simp add: last_n_def)

lemma distinct_last_n: "distinct xs \<Longrightarrow> distinct (last_n n xs)"
  by (simp add: last_n_def)

lemma seen_wf_new [simp]: "seen_wf (seen_ops_new limit)"
  by (simp add: seen_wf_def seen_ops_new_def normalize_seen_ops_limit_def)

lemma evict_front_eq [plan_simps]:
  "evict_front limit xs ids ev =
     (last_n limit xs, ids - set (take (length xs - limit) xs), ev @ take (length xs - limit) xs)"
  by (induction limit xs ids ev rule: evict_front.induct)
    (auto simp: last_n_def Suc_diff_le)

lemma set_minus_take:
  "distinct xs \<Longrightarrow> set xs - set (take n xs) = set (drop n xs)"
  using set_drop_distinct by metis

lemma seen_ops_insert_fresh:
  assumes "seen_wf s" "i \<notin> seen_ids s"
  shows "seen_ops_insert i s =
    (s\<lparr>seen_ids := set (last_n (seen_limit s) (seen_order s @ [i])),
       seen_order := last_n (seen_limit s) (seen_order s @ [i])\<rparr>,
     Inserted (take (Suc (length (seen_order s)) - seen_limit s) (seen_order s @ [i])))"
proof -
  have d: "distinct (seen_order s @ [i])" and ids: "insert i (seen_ids s) = set (seen_order s @ [i])"
    using assms by (auto simp: seen_wf_def)
  show ?thesis
    using assms(2) set_minus_take [OF d, of "length (seen_order s @ [i]) - seen_limit s"]
    by (simp only: seen_ops_insert_def ids evict_front_eq last_n_def if_False prod.case
        append_Nil length_append list.size add_0_right add_Suc_right)
qed

lemma seen_wf_insert: "seen_wf s \<Longrightarrow> seen_wf (fst (seen_ops_insert i s))"
proof (cases "i \<in> seen_ids s")
  case False
  moreover assume wf: "seen_wf s"
  ultimately have "distinct (last_n (seen_limit s) (seen_order s @ [i]))"
    by (intro distinct_last_n) (auto simp: seen_wf_def)
  with wf show ?thesis by (simp add: seen_ops_insert_fresh [OF wf False] seen_wf_def)
qed (simp add: seen_ops_insert_def)

section \<open>Lemmas on batches\<close>

lemma seen_limit_insert [simp]: "seen_limit (fst (seen_ops_insert i s)) = seen_limit s"
  by (simp add: seen_ops_insert_def split: prod.splits)

lemma seen_ops_insert_fold:
  assumes "seen_wf s" "distinct xs" "set xs \<inter> seen_ids s = {}"
  shows "fold (\<lambda>i s. fst (seen_ops_insert i s)) xs s =
    s\<lparr>seen_ids := set (last_n (seen_limit s) (seen_order s @ xs)),
      seen_order := last_n (seen_limit s) (seen_order s @ xs)\<rparr>"
  using assms
proof (induction xs arbitrary: s)
  case Nil
  then show ?case by (simp add: seen_wf_def)
next
  case (Cons i xs)
  let ?s = "fst (seen_ops_insert i s)"
  have s': "?s = s\<lparr>seen_ids := set (last_n (seen_limit s) (seen_order s @ [i])),
      seen_order := last_n (seen_limit s) (seen_order s @ [i])\<rparr>"
    using Cons.prems by (simp add: seen_ops_insert_fresh)
  have "set (last_n (seen_limit s) (seen_order s @ [i])) \<subseteq> insert i (seen_ids s)"
    using Cons.prems(1) set_drop_subset by (fastforce simp: last_n_def seen_wf_def)
  then have "set xs \<inter> seen_ids ?s = {}" using Cons.prems(2,3) by (auto simp: s')
  then have "fold (\<lambda>i s. fst (seen_ops_insert i s)) xs ?s =
    ?s\<lparr>seen_ids := set (last_n (seen_limit ?s) (seen_order ?s @ xs)),
      seen_order := last_n (seen_limit ?s) (seen_order ?s @ xs)\<rparr>"
    using Cons.prems by (intro Cons.IH) (auto intro: seen_wf_insert)
  then show ?case by (simp add: s' last_n_append_last_n)
qed

lemma apply_insertions_fold [plan_simps]:
  "fold (\<lambda>i s. s\<lparr>seen_ids := insert i (seen_ids s), seen_order := seen_order s @ [i]\<rparr>) xs s =
     s\<lparr>seen_ids := seen_ids s \<union> set xs, seen_order := seen_order s @ xs\<rparr>"
  by (induction xs arbitrary: s) simp_all

lemma apply_evictions_fold [plan_simps]:
  "fold (\<lambda>i s. s\<lparr>seen_ids := seen_ids s - {i}, seen_order := tl (seen_order s)\<rparr>) xs s =
     s\<lparr>seen_ids := seen_ids s - set xs, seen_order := drop (length xs) (seen_order s)\<rparr>"
  by (induction xs arbitrary: s) (simp_all add: drop_Suc Diff_insert2 [symmetric])

lemma plan_seen_evictions_eq [plan_simps]:
  "plan_seen_evictions s xs =
     take (length (seen_order s) + length xs - seen_limit s) (seen_order s @ xs)"
  by (auto simp: plan_seen_evictions_def Let_def)

lemma apply_seen_insertions_eq:
  assumes "seen_wf s" "distinct xs" "set xs \<inter> seen_ids s = {}"
  shows "apply_seen_insertions s xs (plan_seen_evictions s xs) =
    s\<lparr>seen_ids := set (last_n (seen_limit s) (seen_order s @ xs)),
      seen_order := last_n (seen_limit s) (seen_order s @ xs)\<rparr>"
proof -
  obtain ys where ys: "ys = seen_order s @ xs" by simp
  then have d: "distinct ys" and ids: "seen_ids s \<union> set xs = set ys"
    and len: "length (seen_order s) + length xs = length ys"
    using assms by (auto simp: seen_wf_def)
  show ?thesis
    by (simp add: apply_seen_insertions_def plan_simps ys [symmetric] ids len last_n_def
        set_minus_take [OF d])
qed

lemma seen_wf_batch:
  assumes "seen_wf s" "distinct xs" "set xs \<inter> seen_ids s = {}"
  shows "seen_wf (apply_seen_insertions s xs (plan_seen_evictions s xs))"
proof -
  have "distinct (last_n (seen_limit s) (seen_order s @ xs))"
    using assms by (intro distinct_last_n) (auto simp: seen_wf_def)
  with assms show ?thesis by (simp add: apply_seen_insertions_eq [OF assms]) (simp add: seen_wf_def)
qed

lemma fresh_ops_eq:
  "\<exists>ys. fresh_ops ids ops is xs = (is @ map op_key ys, xs @ ys) \<and> distinct (map op_key ys)
    \<and> op_key ` set ys = op_key ` set ops - (ids \<union> set is) \<and> set ys \<subseteq> set ops"
proof (induction ops arbitrary: "is" xs)
  case (Cons x ops)
  show ?case
  proof (cases "op_key x \<in> ids \<union> set is")
    case True
    then have "fresh_ops ids (x # ops) is xs = fresh_ops ids ops is xs" by (auto simp: list_ex_iff)
    with Cons.IH [of "is" xs] True show ?thesis by auto
  next
    case False
    then have step: "fresh_ops ids (x # ops) is xs = fresh_ops ids ops (is @ [op_key x]) (xs @ [x])"
      by (auto simp: list_ex_iff)
    from Cons.IH [of "is @ [op_key x]" "xs @ [x]"] obtain ys where
      ys: "fresh_ops ids ops (is @ [op_key x]) (xs @ [x]) = ((is @ [op_key x]) @ map op_key ys, (xs @ [x]) @ ys)"
      "distinct (map op_key ys)" "set ys \<subseteq> set ops"
      and keys: "op_key ` set ys = op_key ` set ops - (ids \<union> set (is @ [op_key x]))" by blast
    then have "op_key x \<notin> op_key ` set ys" by simp
    moreover have "op_key ` set (x # ys) = op_key ` set (x # ops) - (ids \<union> set is)"
      using keys False by auto
    ultimately show ?thesis using ys step by (intro exI [of _ "x # ys"]) auto
  qed
qed simp

lemma fresh_ops_start:
  obtains ys where "fresh_ops ids ops [] [] = (map op_key ys, ys)" "distinct (map op_key ys)"
    "op_key ` set ys = op_key ` set ops - ids" "set ys \<subseteq> set ops"
  using fresh_ops_eq [of ids ops "[]" "[]"] by auto

lemma in_last_n_iff:
  assumes "distinct (as @ i # bs)"
  shows "i \<in> set (last_n n (as @ i # bs)) \<longleftrightarrow> length bs < n"
proof (cases "length bs < n")
  case True
  then show ?thesis by (simp add: last_n_def)
next
  case False
  then have "last_n n (as @ i # bs) = drop (length bs - n) bs"
    by (simp add: last_n_def Suc_diff_le)
  with False assms set_drop_subset [of "length bs - n" bs] show ?thesis by auto
qed

lemma prune_op_log_eq [plan_simps]:
  "prune_op_log_and_return_evicted log limit =
     (last_n (normalize_op_log_limit limit) log, take (length log - normalize_op_log_limit limit) log)"
  by (simp add: prune_op_log_and_return_evicted_def Let_def last_n_def)

lemma op_position_Some:
  "op_position i log = Some n \<Longrightarrow>
   n < length log \<and> op_key (log ! n) = i \<and> (\<forall>x \<in> set (take n log). op_key x \<noteq> i)"
  by (induction log arbitrary: n) (auto split: if_splits)

lemma op_position_None: "op_position i log = None \<longleftrightarrow> i \<notin> op_key ` set log"
  by (induction log) auto

lemma number_plans_ops: "map plan_op (fst (number_plans k l xs ns nl ev lev)) = xs"
  by (induction k l xs ns nl ev lev rule: number_plans.induct) (auto simp: Let_def split: prod.splits)

lemma number_plans_length [simp]: "length (fst (number_plans k l xs ns nl ev lev)) = length xs"
  by (metis length_map number_plans_ops)

lemma number_plans_Nil_iff [simp]: "fst (number_plans k l xs ns nl ev lev) = [] \<longleftrightarrow> xs = []"
  by (metis length_0_conv number_plans_length)

lemma number_plans_sequences:
  "i < length xs \<Longrightarrow>
   unat (seen_sequence (fst (number_plans k l xs ns nl ev lev) ! i)) = min (unat ns + i) u64_max
   \<and> unat (op_log_sequence (fst (number_plans k l xs ns nl ev lev) ! i)) = min (unat nl + i) u64_max"
proof (induction k l xs ns nl ev lev arbitrary: i rule: number_plans.induct)
  case (2 k l x xs ns nl ev lev)
  then show ?case by (cases i) (auto simp: Let_def split: prod.splits)
qed simp

lemma number_plans_next:
  "map_prod unat unat (snd (number_plans k l xs ns nl ev lev)) =
     (min (unat ns + length xs) u64_max, min (unat nl + length xs) u64_max)"
  by (induction k l xs ns nl ev lev rule: number_plans.induct)
    (auto simp: Let_def split: prod.splits)

text \<open>The evictions are on exactly one plan.\<close>

lemma number_plans_after:
  "l < k \<Longrightarrow> concat (map seen_evicted (fst (number_plans k l xs ns nl ev lev))) = []
   \<and> concat (map op_log_evicted (fst (number_plans k l xs ns nl ev lev))) = []"
  by (induction k l xs ns nl ev lev rule: number_plans.induct)
    (auto simp: Let_def split: prod.splits)

lemma number_plans_evicted:
  "xs \<noteq> [] \<Longrightarrow> l = k + (length xs - 1) \<Longrightarrow>
   concat (map seen_evicted (fst (number_plans k l xs ns nl ev lev))) = ev
   \<and> concat (map op_log_evicted (fst (number_plans k l xs ns nl ev lev))) = lev"
proof (induction k l xs ns nl ev lev rule: number_plans.induct)
  case (2 k l x xs ns nl ev lev)
  then show ?case by (cases xs) (auto simp: Let_def split: prod.splits)
qed simp

section \<open>Properties of the bookkeeping\<close>

text \<open>
  Remembering a batch of new ids at once (plan the evictions, then insert and evict) is
  the same as inserting them one by one: both keep the invariant of the window and leave it
  holding the last \<open>limit\<close> ids of the history, also for a batch longer than the window.
\<close>

theorem seen_batch_is_insertion:
  assumes "seen_wf s" and "distinct ids" and "set ids \<inter> seen_ids s = {}"
  shows "apply_seen_insertions s ids (plan_seen_evictions s ids)
      = fold (\<lambda>i s. fst (seen_ops_insert i s)) ids s
    \<and> seen_order (apply_seen_insertions s ids (plan_seen_evictions s ids))
      = last_n (seen_limit s) (seen_order s @ ids)
    \<and> seen_wf (apply_seen_insertions s ids (plan_seen_evictions s ids))"
  using seen_wf_batch [OF assms]
  by (simp add: apply_seen_insertions_eq [OF assms] seen_ops_insert_fold [OF assms])

theorem seen_batch_is_insertion_witness:
  "seen_order (apply_seen_insertions (fst (seen_ops_insert ''a'' (seen_ops_new 2))) [''b'', ''c'', ''d'']
     (plan_seen_evictions (fst (seen_ops_insert ''a'' (seen_ops_new 2))) [''b'', ''c'', ''d'']))
   = [''c'', ''d'']"
proof -
  let ?s = "fst (seen_ops_insert ''a'' (seen_ops_new 2))"
  have ids: "seen_ids ?s = {''a''}" "seen_order ?s = [''a'']" "seen_limit ?s = 2"
    by (simp_all add: seen_ops_insert_def seen_ops_new_def normalize_seen_ops_limit_def)
  have "seen_order (apply_seen_insertions ?s [''b'', ''c'', ''d''] (plan_seen_evictions ?s [''b'', ''c'', ''d'']))
      = last_n (seen_limit ?s) (seen_order ?s @ [''b'', ''c'', ''d''])"
    by (rule seen_batch_is_insertion [THEN conjunct2, THEN conjunct1])
      (simp_all add: seen_wf_insert ids)
  then show ?thesis unfolding ids by (simp add: last_n_def)
qed



text \<open>
  Appending a batch to the operation log and pruning it keeps the newest \<open>limit\<close>
  operations. The evictions planned before the append are the ones pruned, except that
  a batch larger than the limit also loses its own first operations, which the plan (and so
  the durable log) never evicts.
\<close>

theorem op_log_prune_and_plan:
  "fst (prune_op_log_and_return_evicted (log @ batch) limit)
      = last_n (normalize_op_log_limit limit) (log @ batch)
   \<and> length (fst (prune_op_log_and_return_evicted (log @ batch) limit)) \<le> normalize_op_log_limit limit
   \<and> snd (prune_op_log_and_return_evicted (log @ batch) limit)
      = plan_op_log_evictions log (length batch) limit
        @ take (length batch - normalize_op_log_limit limit) batch"
  by (simp add: plan_simps plan_op_log_evictions_def Let_def)

text \<open>
  Answering a pull request: with a known operation id the answer is exactly what follows
  the first operation with that id in the log, otherwise it is the whole log.
\<close>

theorem op_log_since_suffix:
  "(i \<in> op_key ` set log \<longrightarrow>
      (\<exists>before x. log = before @ x # op_log_since log (Some i) \<and> op_key x = i
         \<and> i \<notin> op_key ` set before))
   \<and> (i \<notin> op_key ` set log \<longrightarrow> op_log_since log (Some i) = log)
   \<and> op_log_since log None = log"
proof (intro conjI impI)
  assume "i \<in> op_key ` set log"
  then obtain n where n: "op_position i log = Some n"
    using op_position_None by (metis option.exhaust)
  note pos = op_position_Some [OF n]
  then have "log = take n log @ log ! n # op_log_since log (Some i)"
    by (simp add: op_log_since_def n id_take_nth_drop [symmetric])
  moreover have "i \<notin> op_key ` set (take n log)" using pos by blast
  ultimately show "\<exists>before x. log = before @ x # op_log_since log (Some i) \<and> op_key x = i
      \<and> i \<notin> op_key ` set before" using pos by blast
next
  assume "i \<notin> op_key ` set log"
  then show "op_log_since log (Some i) = log"
    by (simp add: op_log_since_def op_position_None [THEN iffD2])
qed (simp add: op_log_since_def)

theorem op_log_since_suffix_witness:
  "op_log_since [op_rga_delete ''u1'' (NodeId ''a'') ''k'' ''x'', op_rga_delete ''u2'' (NodeId ''a'') ''k'' ''y'']
     (Some ''u1'') = [op_rga_delete ''u2'' (NodeId ''a'') ''k'' ''y'']"
proof -
  let ?x = "op_rga_delete ''u1'' (NodeId ''a'') ''k'' ''x''" and ?y = "op_rga_delete ''u2'' (NodeId ''a'') ''k'' ''y''"
  have k: "op_key ?x = ''u1''" "op_key ?y = ''u2''" by (simp_all add: op_rga_delete_def op_id_generate_def)
  from op_log_since_suffix [of "''u1''" "[?x, ?y]"] obtain before x where
    b: "[?x, ?y] = before @ x # op_log_since [?x, ?y] (Some ''u1'')" "''u1'' \<notin> op_key ` set before"
    using k by auto
  then have "before = []" using k by (cases before) auto
  with b show ?thesis by (metis append_Nil list.inject)
qed

end
