(* ===== verification/Crdt_Laws.thy ===== *)
theory Crdt_Laws
  imports Ordered_Map
begin

text \<open>
  The two contracts replication relies on, as locales. \<open>state_crdt\<close>: merging replicas is
  commutative, associative and idempotent on the valid states, so any gossip schedule that
  delivers the same set of states ends in the same state. \<open>op_crdt\<close>: applying operations
  commutes, so any two deliveries of the same operations end in the same state. Each CRDT
  of \<open>nx-sync\<close> interprets both, in its own theory, on the model of its code.
\<close>

section \<open>State-based convergence\<close>

locale state_crdt =
  fixes merge :: "'s \<Rightarrow> 's \<Rightarrow> 's"
    and valid :: "'s \<Rightarrow> bool"
  assumes merge_valid: "valid s \<Longrightarrow> valid t \<Longrightarrow> valid (merge s t)"
    and merge_commute: "valid s \<Longrightarrow> valid t \<Longrightarrow> merge s t = merge t s"
    and merge_assoc:
      "valid s \<Longrightarrow> valid t \<Longrightarrow> valid u \<Longrightarrow> merge (merge s t) u = merge s (merge t u)"
    and merge_idem: "valid s \<Longrightarrow> merge s s = s"
begin

lemma gossip_valid:
  "valid s \<Longrightarrow> \<forall>t \<in> set ts. valid t \<Longrightarrow> valid (fold (\<lambda>t s. merge s t) ts s)"
  by (induction ts arbitrary: s) (auto intro: merge_valid)

text \<open>\<open>merge s t = t\<close> is the information order: \<open>t\<close> already contains \<open>s\<close>.\<close>

lemma below_merge_right:
  "valid s \<Longrightarrow> valid t \<Longrightarrow> valid u \<Longrightarrow> merge s u = u \<Longrightarrow> merge s (merge u t) = merge u t"
  by (metis merge_assoc)

lemma below_gossip:
  "valid s \<Longrightarrow> valid u \<Longrightarrow> \<forall>t \<in> set ts. valid t \<Longrightarrow> merge s u = u \<Longrightarrow>
   merge s (fold (\<lambda>t s. merge s t) ts u) = fold (\<lambda>t s. merge s t) ts u"
  by (induction ts arbitrary: u) (auto simp: below_merge_right merge_valid)

lemma gossip_contains_start:
  "valid s \<Longrightarrow> \<forall>t \<in> set ts. valid t \<Longrightarrow>
   merge s (fold (\<lambda>t s. merge s t) ts s) = fold (\<lambda>t s. merge s t) ts s"
  by (rule below_gossip) (auto simp: merge_idem)

lemma gossip_contains:
  "valid s \<Longrightarrow> \<forall>t \<in> set ts. valid t \<Longrightarrow> x \<in> set ts \<Longrightarrow>
   merge x (fold (\<lambda>t s. merge s t) ts s) = fold (\<lambda>t s. merge s t) ts s"
proof (induction ts arbitrary: s)
  case (Cons t ts)
  show ?case
  proof (cases "x = t")
    case True
    have "merge t (merge s t) = merge s t"
      using Cons.prems by (metis list.set_intros(1) merge_assoc merge_commute merge_idem)
    with Cons.prems True show ?thesis by (auto intro!: below_gossip merge_valid)
  next
    case False
    with Cons show ?thesis by (auto simp: merge_valid)
  qed
qed simp

lemma gossip_least:
  "valid s \<Longrightarrow> valid u \<Longrightarrow> \<forall>t \<in> set ts. valid t \<Longrightarrow> merge s u = u \<Longrightarrow>
   \<forall>t \<in> set ts. merge t u = u \<Longrightarrow> merge (fold (\<lambda>t s. merge s t) ts s) u = u"
proof (induction ts arbitrary: s)
  case (Cons t ts)
  then have "merge (merge s t) u = u" by (simp add: merge_assoc)
  with Cons show ?case by (simp add: merge_valid)
qed simp

text \<open>Strong eventual consistency: only the set of states received matters.\<close>

lemma gossip_converges:
  assumes v: "valid s" "valid s'" "\<forall>t \<in> set ts. valid t" "\<forall>t \<in> set us. valid t"
    and same: "insert s (set ts) = insert s' (set us)"
  shows "fold (\<lambda>t s. merge s t) ts s = fold (\<lambda>t s. merge s t) us s'"
proof -
  let ?T = "fold (\<lambda>t s. merge s t) ts s" and ?U = "fold (\<lambda>t s. merge s t) us s'"
  have vT: "valid ?T" and vU: "valid ?U" using v by (auto intro: gossip_valid)
  have inT: "merge x ?T = ?T" if "x \<in> insert s (set ts)" for x
    using that v by (auto intro: gossip_contains gossip_contains_start)
  have inU: "merge x ?U = ?U" if "x \<in> insert s' (set us)" for x
    using that v by (auto intro: gossip_contains gossip_contains_start)
  have "merge ?T ?U = ?U"
    using v vU inU same by (intro gossip_least) auto
  moreover have "merge ?U ?T = ?T"
    using v vT inT same by (intro gossip_least) auto
  ultimately show ?thesis using merge_commute [OF vT vU] by simp
qed

end

section \<open>Operation-based convergence\<close>

locale op_crdt =
  fixes app :: "'o \<Rightarrow> 's \<Rightarrow> 's"
    and inv :: "'s \<Rightarrow> bool"
    and ok :: "'o \<Rightarrow> bool"
  assumes inv_app: "inv s \<Longrightarrow> ok x \<Longrightarrow> inv (app x s)"
    and app_commute:
      "inv s \<Longrightarrow> ok x \<Longrightarrow> ok y \<Longrightarrow> app x (app y s) = app y (app x s)"
begin

lemma inv_fold: "inv s \<Longrightarrow> \<forall>x \<in> set xs. ok x \<Longrightarrow> inv (fold app xs s)"
  by (induction xs arbitrary: s) (auto intro: inv_app)

lemma fold_app_commute:
  "inv s \<Longrightarrow> \<forall>x \<in> set xs. ok x \<Longrightarrow> ok y \<Longrightarrow> fold app xs (app y s) = app y (fold app xs s)"
proof (induction xs arbitrary: s)
  case (Cons x xs)
  then have "app x (app y s) = app y (app x s)" by (simp add: app_commute)
  with Cons show ?case by (simp add: inv_app)
qed simp

lemma delivery_order_irrelevant:
  "inv s \<Longrightarrow> \<forall>x \<in> set xs. ok x \<Longrightarrow> mset xs = mset ys \<Longrightarrow> fold app xs s = fold app ys s"
proof (induction xs arbitrary: s ys)
  case (Cons x xs)
  from Cons.prems(3) have "x \<in> set ys"
    by (metis list.set_intros(1) mset_eq_setD)
  then obtain us vs where ys: "ys = us @ x # vs" by (meson split_list)
  with Cons.prems(3) have m: "mset xs = mset (us @ vs)" by simp
  then have oks: "\<forall>z \<in> set us \<union> set vs. ok z"
    using Cons.prems(2) by (metis list.set_intros(2) mset_eq_setD set_append)
  have "fold app xs (app x s) = fold app (us @ vs) (app x s)"
    using Cons.prems m by (intro Cons.IH) (auto intro: inv_app)
  also have "\<dots> = fold app vs (fold app us (app x s))" by simp
  also have "fold app us (app x s) = app x (fold app us s)"
    using Cons.prems oks by (intro fold_app_commute) auto
  finally show ?case by (simp add: ys)
qed simp

end

end
