(* ===== verification/Counter_Crdt.thy ===== *)
theory Counter_Crdt
  imports Crdt_Laws Sync_Op
begin

text \<open>
  \<open>nx-sync/src/crdt/gcounter.rs\<close> and \<open>pncounter.rs\<close>: the grow-only counter (one saturating
  \<open>u64\<close> slot per node) and the signed counter made of two of them. \<open>Iterator::sum\<close> on
  \<open>u64\<close> wraps in a build without overflow checks (the release profile of the workspace),
  which is the build modelled here; a build with overflow checks panics where the model
  wraps. Serialisation to JSON is a parameter of the storage theory.
\<close>

section \<open>GCounter\<close>

record gcounter =
  counts :: "(string, u64) omap"

definition gcounter_new :: gcounter where
  "gcounter_new = \<lparr>counts = om_empty\<rparr>"

definition gcounter_value :: "gcounter \<Rightarrow> u64" where
  "gcounter_value c = sum_list (om_values (counts c))"

definition gcounter_value_for :: "gcounter \<Rightarrow> node_id \<Rightarrow> u64" where
  "gcounter_value_for c node = om_get_or (counts c) (node_id_as_str node) 0"

definition gcounter_increment :: "node_id \<Rightarrow> u64 \<Rightarrow> gcounter \<Rightarrow> gcounter" where
  "gcounter_increment node delta c =
     (let entry = om_get_or (counts c) (node_id_as_str node) 0
      in c\<lparr>counts := om_insert (node_id_as_str node) (saturating_add entry delta) (counts c)\<rparr>)"

definition gcounter_apply_op :: "Op \<Rightarrow> gcounter \<Rightarrow> gcounter \<times> bool" where
  "gcounter_apply_op x c =
     (case op_kind x of
        GCounterIncrement _ increment \<Rightarrow>
          (let node_key = node_id_as_str (op_origin x);
               current = om_get_or (counts c) node_key 0;
               new_value = saturating_add current increment
           in if new_value \<noteq> current
              then (c\<lparr>counts := om_insert node_key new_value (counts c)\<rparr>, True)
              else (c, False))
      | _ \<Rightarrow> (c, False))"

definition gcounter_merge_slot :: "string \<times> u64 \<Rightarrow> (string, u64) omap \<Rightarrow> (string, u64) omap" where
  "gcounter_merge_slot e m =
     (case e of (node, value) \<Rightarrow> om_insert node (max (om_get_or m node 0) value) m)"

definition gcounter_merge :: "gcounter \<Rightarrow> gcounter \<Rightarrow> gcounter" where
  "gcounter_merge c other =
     c\<lparr>counts := fold gcounter_merge_slot (om_entries (counts other)) (counts c)\<rparr>"

definition gcounter_merged_with :: "gcounter \<Rightarrow> gcounter \<Rightarrow> gcounter" where
  "gcounter_merged_with c other = gcounter_merge c other"

definition gcounter_nodes :: "gcounter \<Rightarrow> string list" where
  "gcounter_nodes c = om_keys (counts c)"

definition gcounter_node_count :: "gcounter \<Rightarrow> nat" where
  "gcounter_node_count c = om_len (counts c)"

definition create_increment_op :: "string \<Rightarrow> node_id \<Rightarrow> string \<Rightarrow> u64 \<Rightarrow> Op" where
  "create_increment_op uuid node key increment = op_gcounter_increment uuid node key increment"

section \<open>PNCounter\<close>

record pncounter =
  positive :: gcounter
  negative :: gcounter

definition pncounter_new :: pncounter where
  "pncounter_new = \<lparr>positive = gcounter_new, negative = gcounter_new\<rparr>"

text \<open>\<open>i128\<close> and \<open>i64\<close> values are integers; the clamp bounds are those of \<open>i64\<close>.\<close>

definition clamp_i128_to_i64 :: "int \<Rightarrow> int" where
  "clamp_i128_to_i64 value = max (- (2 ^ 63)) (min (2 ^ 63 - 1) value)"

definition pncounter_value :: "pncounter \<Rightarrow> int" where
  "pncounter_value c =
     (let p = uint (gcounter_value (positive c)); n = uint (gcounter_value (negative c))
      in clamp_i128_to_i64 (p - n))"

definition pncounter_positive_for :: "pncounter \<Rightarrow> node_id \<Rightarrow> u64" where
  "pncounter_positive_for c node = gcounter_value_for (positive c) node"

definition pncounter_negative_for :: "pncounter \<Rightarrow> node_id \<Rightarrow> u64" where
  "pncounter_negative_for c node = gcounter_value_for (negative c) node"

definition pncounter_increment :: "node_id \<Rightarrow> u64 \<Rightarrow> pncounter \<Rightarrow> pncounter" where
  "pncounter_increment node delta c =
     c\<lparr>positive := gcounter_increment node delta (positive c)\<rparr>"

definition pncounter_decrement :: "node_id \<Rightarrow> u64 \<Rightarrow> pncounter \<Rightarrow> pncounter" where
  "pncounter_decrement node delta c =
     c\<lparr>negative := gcounter_increment node delta (negative c)\<rparr>"

definition pncounter_apply_op :: "Op \<Rightarrow> pncounter \<Rightarrow> pncounter \<times> bool" where
  "pncounter_apply_op x c =
     (case op_kind x of
        PNCounterIncrement _ increment \<Rightarrow>
          (let before = pncounter_positive_for c (op_origin x);
               c' = pncounter_increment (op_origin x) increment c
           in (c', pncounter_positive_for c' (op_origin x) \<noteq> before))
      | PNCounterDecrement _ decrement \<Rightarrow>
          (let before = pncounter_negative_for c (op_origin x);
               c' = pncounter_decrement (op_origin x) decrement c
           in (c', pncounter_negative_for c' (op_origin x) \<noteq> before))
      | _ \<Rightarrow> (c, False))"

definition pncounter_merge :: "pncounter \<Rightarrow> pncounter \<Rightarrow> pncounter" where
  "pncounter_merge c other =
     \<lparr>positive = gcounter_merge (positive c) (positive other),
      negative = gcounter_merge (negative c) (negative other)\<rparr>"

definition pncounter_merged_with :: "pncounter \<Rightarrow> pncounter \<Rightarrow> pncounter" where
  "pncounter_merged_with c other = pncounter_merge c other"

definition pncounter_nodes :: "pncounter \<Rightarrow> string list" where
  "pncounter_nodes c =
     fold (\<lambda>node nodes. if node \<in> set nodes then nodes else nodes @ [node])
       (gcounter_nodes (negative c)) (gcounter_nodes (positive c))"

definition pncounter_node_count :: "pncounter \<Rightarrow> nat" where
  "pncounter_node_count c = length (pncounter_nodes c)"

section \<open>Specification\<close>

text \<open>The mathematical total of the slots, and what a list of increments adds to one slot.\<close>

definition gcounter_total :: "gcounter \<Rightarrow> nat" where
  "gcounter_total c = (\<Sum>k \<in> dom (om_get (counts c)). unat (om_get_or (counts c) k 0))"

fun increments_of :: "node_id \<Rightarrow> (node_id \<times> u64) list \<Rightarrow> nat" where
  "increments_of n [] = 0"
| "increments_of n ((m, d) # xs) = (if m = n then unat d else 0) + increments_of n xs"

section \<open>GCounter lemmas\<close>

lemma gcounter_eqI: "counts c = counts d \<Longrightarrow> c = (d :: gcounter)"
  by simp

lemma gcounter_value_for_new [simp]: "gcounter_value_for gcounter_new n = 0"
  by (simp add: gcounter_value_for_def gcounter_new_def)

lemma gcounter_value_for_increment [crdt_simps]:
  "gcounter_value_for (gcounter_increment n d c) m =
     (if m = n then saturating_add (gcounter_value_for c n) d else gcounter_value_for c m)"
  by (simp add: gcounter_value_for_def gcounter_increment_def node_id_eq_iff Let_def)

interpretation gmerge: pointwise_merge gcounter_merge_slot
    "\<lambda>v w. max (case v of None \<Rightarrow> 0 | Some x \<Rightarrow> x) w"
  by unfold_locales (simp add: gcounter_merge_slot_def om_get_or_def)

interpretation gsemi: semilattice_merge gcounter_merge_slot
    "\<lambda>v w. max (case v of None \<Rightarrow> 0 | Some x \<Rightarrow> x) w" max
  by unfold_locales (auto simp: max.commute max.left_commute)

lemma gcounter_value_for_merge [crdt_simps]:
  "gcounter_value_for (gcounter_merge c d) n = max (gcounter_value_for c n) (gcounter_value_for d n)"
  by (simp add: gcounter_value_for_def gcounter_merge_def om_get_or_def gsemi.merge_get
      split: option.split)

interpretation gcounter_crdt: state_crdt gcounter_merged_with "\<lambda>_. True"
proof unfold_locales
  fix c d e :: gcounter
  show "gcounter_merged_with c d = gcounter_merged_with d c"
    by (simp add: gcounter_merged_with_def gcounter_merge_def gsemi.merge_commute [of "counts d"])
  show "gcounter_merged_with (gcounter_merged_with c d) e
      = gcounter_merged_with c (gcounter_merged_with d e)"
    by (simp add: gcounter_merged_with_def gcounter_merge_def gsemi.merge_assoc)
  show "gcounter_merged_with c c = c"
    by (simp add: gcounter_merged_with_def gcounter_merge_def gsemi.merge_idem)
qed simp

text \<open>Increments of any nodes commute, saturation included.\<close>

lemma gcounter_increment_commute:
  "gcounter_increment n d (gcounter_increment m e c) =
   gcounter_increment m e (gcounter_increment n d c)"
proof (cases "n = m")
  case True
  then show ?thesis
    by (simp add: gcounter_increment_def Let_def saturating_add_assoc
        saturating_add_commute [of d e])
next
  case False
  then have "node_id_as_str n \<noteq> node_id_as_str m" by (simp add: node_id_eq_iff)
  then show ?thesis
    by (simp add: gcounter_increment_def Let_def om_insert_commute)
qed

interpretation gcounter_ops: op_crdt "\<lambda>(n, d). gcounter_increment n d" "\<lambda>_. True" "\<lambda>_. True"
  by unfold_locales (auto simp: gcounter_increment_commute split: prod.splits)

text \<open>\<open>apply_op\<close> and \<open>increment\<close> agree, but for the entry a zero increment creates.\<close>

lemma gcounter_apply_op_value_for:
  "op_kind x = GCounterIncrement key d \<Longrightarrow>
   gcounter_value_for (fst (gcounter_apply_op x c)) n =
   gcounter_value_for (gcounter_increment (op_origin x) d c) n"
  by (auto simp: gcounter_apply_op_def gcounter_value_for_def gcounter_increment_def Let_def
      om_get_or_def split: option.splits)

lemma gcounter_apply_op_changed:
  "op_kind x = GCounterIncrement key d \<Longrightarrow>
   snd (gcounter_apply_op x c) \<longleftrightarrow>
     gcounter_value_for (fst (gcounter_apply_op x c)) (op_origin x)
       \<noteq> gcounter_value_for c (op_origin x)"
  by (simp add: gcounter_apply_op_def gcounter_value_for_def Let_def)

text \<open>The value is the sum of the slots modulo \<open>2 ^ 64\<close>.\<close>

lemma unat_sum_list_u64: "unat (sum_list (ws :: u64 list)) = sum_list (map unat ws) mod 2 ^ 64"
proof (induction ws)
  case (Cons w ws)
  have "unat (sum_list (w # ws)) = (unat w + sum_list (map unat ws) mod 2 ^ 64) mod 2 ^ 64"
    using Cons by (simp add: unat_word_ariths)
  then show ?case by (simp add: mod_add_right_eq)
qed simp

lemma sum_entries: "sum_list (map f (om_entries m)) = (\<Sum>k \<in> dom (om_get m). f (k, the (om_get m k)))"
  for f :: "'k::linorder \<times> 'v \<Rightarrow> nat"
proof -
  have e: "om_entries m = map (\<lambda>k. (k, the (om_get m k))) (om_keys m)"
    by (auto simp: om_keys_def om_in_entries intro!: map_idI [symmetric])
  have "sum_list (map f (om_entries m)) = sum_list (map (\<lambda>k. f (k, the (om_get m k))) (om_keys m))"
    by (subst e) (simp add: comp_def)
  also have "\<dots> = (\<Sum>k \<in> set (om_keys m). f (k, the (om_get m k)))"
    by (simp add: sum_list_distinct_conv_sum_set)
  finally show ?thesis by simp
qed

lemma unat_gcounter_value: "unat (gcounter_value c) = gcounter_total c mod 2 ^ 64"
proof -
  have "sum_list (map unat (om_values (counts c))) =
      (\<Sum>k \<in> dom (om_get (counts c)). unat (the (om_get (counts c) k)))"
    using sum_entries [of "unat \<circ> snd" "counts c"] by (simp add: om_values_def comp_def)
  also have "\<dots> = gcounter_total c"
    unfolding gcounter_total_def by (rule sum.cong) (auto simp: om_get_or_def)
  finally show ?thesis by (simp add: gcounter_value_def unat_sum_list_u64)
qed

text \<open>Replaying increments: each slot is the saturated sum of what its node added.\<close>

lemma gcounter_replay:
  "unat (gcounter_value_for (fold (\<lambda>(n, d). gcounter_increment n d) xs c) n) =
   min (unat (gcounter_value_for c n) + increments_of n xs) u64_max"
proof (induction xs arbitrary: c)
  case (Cons x xs)
  then show ?case
    by (cases x) (auto simp: gcounter_value_for_increment min_def)
qed simp

lemma gcounter_total_increment:
  assumes "unat (gcounter_value_for c n) + unat d \<le> u64_max"
  shows "gcounter_total (gcounter_increment n d c) = gcounter_total c + unat d"
proof -
  let ?k = "node_id_as_str n" and ?D = "dom (om_get (counts c))"
  let ?f = "\<lambda>k. unat (om_get_or (counts c) k 0)"
  let ?g = "\<lambda>k. unat (om_get_or (counts (gcounter_increment n d c)) k 0)"
  have g: "?g ?k = ?f ?k + unat d" "\<And>k. k \<noteq> ?k \<Longrightarrow> ?g k = ?f k"
    using assms by (auto simp: gcounter_increment_def gcounter_value_for_def Let_def)
  have "gcounter_total (gcounter_increment n d c) = sum ?g (insert ?k ?D)"
    by (simp add: gcounter_total_def gcounter_increment_def Let_def)
  also have "\<dots> = ?g ?k + sum ?g (?D - {?k})"
    by (simp add: sum.insert_remove)
  also have "sum ?g (?D - {?k}) = sum ?f (?D - {?k})"
    by (rule sum.cong) (auto simp: g)
  also have "?g ?k + sum ?f (?D - {?k}) = sum ?f (insert ?k ?D) + unat d"
    by (simp add: g sum.insert_remove)
  also have "sum ?f (insert ?k ?D) = sum ?f ?D"
    by (cases "?k \<in> ?D") (auto simp: insert_absorb om_get_or_def domIff)
  finally show ?thesis by (simp add: gcounter_total_def)
qed

lemma gcounter_apply_op_cases:
  "fst (gcounter_apply_op x c) =
     (case op_kind x of
        GCounterIncrement _ d \<Rightarrow>
          (if saturating_add (gcounter_value_for c (op_origin x)) d
              = gcounter_value_for c (op_origin x)
           then c else gcounter_increment (op_origin x) d c)
      | _ \<Rightarrow> c)"
  by (simp add: gcounter_apply_op_def gcounter_increment_def gcounter_value_for_def Let_def
      split: op_kind.split)

lemma saturating_add_stays:
  "saturating_add (saturating_add a b) c = saturating_add a b \<longleftrightarrow>
   c = 0 \<or> unat a + unat b \<ge> u64_max"
  by (auto simp: word_unat_eq_iff min_def)

section \<open>PNCounter lemmas\<close>

lemma pncounter_slot_simps [crdt_simps]:
  "pncounter_positive_for (pncounter_increment n d c) m =
     (if m = n then saturating_add (pncounter_positive_for c n) d else pncounter_positive_for c m)"
  "pncounter_negative_for (pncounter_increment n d c) m = pncounter_negative_for c m"
  "pncounter_negative_for (pncounter_decrement n d c) m =
     (if m = n then saturating_add (pncounter_negative_for c n) d else pncounter_negative_for c m)"
  "pncounter_positive_for (pncounter_decrement n d c) m = pncounter_positive_for c m"
  by (simp_all add: pncounter_positive_for_def pncounter_negative_for_def pncounter_increment_def
      pncounter_decrement_def gcounter_value_for_increment)

interpretation pncounter_crdt: state_crdt pncounter_merged_with "\<lambda>_. True"
proof unfold_locales
  fix c d e :: pncounter
  note defs = pncounter_merged_with_def pncounter_merge_def gcounter_merged_with_def [symmetric]
  show "pncounter_merged_with c d = pncounter_merged_with d c"
    by (simp add: defs gcounter_crdt.merge_commute [of "positive d"]
        gcounter_crdt.merge_commute [of "negative d"])
  show "pncounter_merged_with (pncounter_merged_with c d) e
      = pncounter_merged_with c (pncounter_merged_with d e)"
    by (simp add: defs gcounter_crdt.merge_assoc)
  show "pncounter_merged_with c c = c"
    by (simp add: defs gcounter_crdt.merge_idem)
qed simp

lemma pncounter_apply_op_state:
  "fst (pncounter_apply_op x c) =
     (case op_kind x of
        PNCounterIncrement _ d \<Rightarrow> pncounter_increment (op_origin x) d c
      | PNCounterDecrement _ d \<Rightarrow> pncounter_decrement (op_origin x) d c
      | _ \<Rightarrow> c)"
  by (simp add: pncounter_apply_op_def Let_def split: op_kind.split)

lemma pncounter_apply_op_commute:
  "fst (pncounter_apply_op x (fst (pncounter_apply_op y c))) =
   fst (pncounter_apply_op y (fst (pncounter_apply_op x c)))"
  by (simp add: pncounter_apply_op_state pncounter_increment_def pncounter_decrement_def
      gcounter_increment_commute split: op_kind.split)

interpretation pncounter_ops: op_crdt "\<lambda>x c. fst (pncounter_apply_op x c)" "\<lambda>_. True" "\<lambda>_. True"
  by unfold_locales (auto intro: pncounter_apply_op_commute)

lemma clamp_exact: "- (2 ^ 63) \<le> v \<Longrightarrow> v \<le> 2 ^ 63 - 1 \<Longrightarrow> clamp_i128_to_i64 v = v"
  by (simp add: clamp_i128_to_i64_def)

lemma fold_add_new_set: "set (fold (\<lambda>n ns. if n \<in> set ns then ns else ns @ [n]) xs ys) = set ys \<union> set xs"
  by (induction xs arbitrary: ys) auto

lemma fold_add_new_distinct:
  "distinct ys \<Longrightarrow> distinct (fold (\<lambda>n ns. if n \<in> set ns then ns else ns @ [n]) xs ys)"
  by (induction xs arbitrary: ys) auto

lemma gcounter_value_for_le_total: "unat (gcounter_value_for c n) \<le> gcounter_total c"
proof (cases "node_id_as_str n \<in> dom (om_get (counts c))")
  case True
  then show ?thesis
    unfolding gcounter_total_def gcounter_value_for_def
    by (intro member_le_sum [where f = "\<lambda>k. unat (om_get_or (counts c) k 0)"]) auto
qed (simp add: gcounter_value_for_def om_get_or_def domIff)

section \<open>Properties of the counters\<close>

text \<open>
  C7. GCounter replicas converge under state gossip: two replicas that have between them
  merged the same set of counter states (in any order, with any repetitions) are equal.
\<close>

theorem gcounter_gossip_convergence:
  assumes "insert c (set cs) = insert d (set ds)"
  shows "fold (\<lambda>t s. gcounter_merged_with s t) cs c = fold (\<lambda>t s. gcounter_merged_with s t) ds d"
  using assms by (intro gcounter_crdt.gossip_converges) auto

theorem gcounter_gossip_convergence_witness:
  "fold (\<lambda>t s. gcounter_merged_with s t)
     [gcounter_increment (NodeId ''b'') 7 gcounter_new,
      gcounter_increment (NodeId ''b'') 7 gcounter_new]
     (gcounter_increment (NodeId ''a'') 5 gcounter_new) =
   fold (\<lambda>t s. gcounter_merged_with s t)
     [gcounter_increment (NodeId ''a'') 5 gcounter_new]
     (gcounter_increment (NodeId ''b'') 7 gcounter_new)"
  by (rule gcounter_gossip_convergence) auto

text \<open>
  C8. Delivering increments to a GCounter is exact and independent of the delivery order:
  after any list of increments the slot of a node holds its old value plus everything that
  node added, saturated at the largest \<open>u64\<close>, and two deliveries of the same increments give
  equal counters.
\<close>

theorem gcounter_delivery_exact:
  "unat (gcounter_value_for (fold (\<lambda>(n, d). gcounter_increment n d) xs c) n) =
     min (unat (gcounter_value_for c n) + increments_of n xs) u64_max
   \<and> (mset xs = mset ys \<longrightarrow>
       fold (\<lambda>(n, d). gcounter_increment n d) xs c = fold (\<lambda>(n, d). gcounter_increment n d) ys c)"
  using gcounter_replay gcounter_ops.delivery_order_irrelevant [where s = c and xs = xs and ys = ys] by auto

theorem gcounter_delivery_exact_witness:
  "fold (\<lambda>(n, d). gcounter_increment n d) [(NodeId ''a'', 2), (NodeId ''b'', 3)] gcounter_new =
   fold (\<lambda>(n, d). gcounter_increment n d) [(NodeId ''b'', 3), (NodeId ''a'', 2)] gcounter_new"
  using gcounter_delivery_exact
    [of "[(NodeId ''a'', 2), (NodeId ''b'', 3)]" gcounter_new "NodeId ''a''"
        "[(NodeId ''b'', 3), (NodeId ''a'', 2)]"] by simp

text \<open>
  While the slots of a GCounter sum to at most the largest \<open>u64\<close>, \<open>value\<close> is that sum
  and an increment raises it by exactly the increment.
\<close>

theorem gcounter_value_exact:
  assumes "gcounter_total c + unat d \<le> u64_max"
  shows "unat (gcounter_value c) = gcounter_total c
    \<and> unat (gcounter_value (gcounter_increment n d c)) = unat (gcounter_value c) + unat d"
proof -
  have small: "m mod 2 ^ 64 = m" if "m \<le> u64_max" for m
    using that by (simp add: u64_max_def)
  have value_c: "unat (gcounter_value c) = gcounter_total c"
    using assms small [of "gcounter_total c"] by (simp add: unat_gcounter_value)
  have "unat (gcounter_value_for c n) + unat d \<le> u64_max"
    using assms gcounter_value_for_le_total [of c n] by linarith
  then have "gcounter_total (gcounter_increment n d c) = gcounter_total c + unat d"
    by (rule gcounter_total_increment)
  with assms small [of "gcounter_total c + unat d"] value_c
  show ?thesis
    by (simp add: unat_gcounter_value)
qed

theorem gcounter_value_exact_witness:
  "gcounter_total gcounter_new + unat (5 :: u64) \<le> u64_max \<and>
   unat (gcounter_value (gcounter_increment (NodeId ''a'') 5 gcounter_new)) =
     unat (gcounter_value gcounter_new) + 5"
proof -
  have h: "gcounter_total gcounter_new + unat (5 :: u64) \<le> u64_max"
    by (simp add: gcounter_total_def gcounter_new_def u64_max_def)
  show ?thesis using h gcounter_value_exact [OF h, of "NodeId ''a''"] by simp
qed

text \<open>
  The value of a GCounter wraps around although every slot saturates: two nodes whose
  slots are full are reported as \<open>2 ^ 64 - 2\<close>, below either slot.
\<close>

theorem gcounter_value_wraps:
  "gcounter_value (gcounter_increment (NodeId ''b'') (- 1)
     (gcounter_increment (NodeId ''a'') (- 1) gcounter_new)) = - 2
   \<and> (- 2 :: u64) < gcounter_value_for (gcounter_increment (NodeId ''a'') (- 1) gcounter_new)
       (NodeId ''a'')"
  by (simp add: gcounter_value_def gcounter_value_for_def gcounter_increment_def gcounter_new_def
      om_values_def om_get_or_def om_get_map_of Let_def)

text \<open>
  A PNCounter's value is always an \<open>i64\<close>, and it is the exact difference of the
  positive and negative totals whenever that difference is an \<open>i64\<close> and neither side's sum
  overflows.
\<close>

theorem pncounter_value_clamped:
  "- (2 ^ 63) \<le> pncounter_value c \<and> pncounter_value c \<le> 2 ^ 63 - 1
   \<and> (gcounter_total (positive c) \<le> u64_max \<and> gcounter_total (negative c) \<le> u64_max \<longrightarrow>
       pncounter_value c = clamp_i128_to_i64
         (int (gcounter_total (positive c)) - int (gcounter_total (negative c))))
   \<and> (- (2 ^ 63) \<le> v \<and> v \<le> 2 ^ 63 - 1 \<longrightarrow> clamp_i128_to_i64 v = v)"
proof -
  have small: "m mod 2 ^ 64 = m" if "m \<le> u64_max" for m
    using that by (simp add: u64_max_def)
  have u: "uint (gcounter_value d) = int (gcounter_total d)" if "gcounter_total d \<le> u64_max" for d
    using small [OF that] unat_gcounter_value [of d] by (simp add: uint_nat)
  show ?thesis
    using u [of "positive c"] u [of "negative c"] clamp_exact [of v]
    by (auto simp: pncounter_value_def Let_def) (auto simp: clamp_i128_to_i64_def)
qed

theorem pncounter_value_clamped_witness:
  "pncounter_value (pncounter_decrement (NodeId ''a'') 3
     (pncounter_increment (NodeId ''a'') 10 pncounter_new)) = 7"
proof -
  let ?c = "pncounter_decrement (NodeId ''a'') 3 (pncounter_increment (NodeId ''a'') 10 pncounter_new)"
  have "gcounter_total (positive ?c) = 10" "gcounter_total (negative ?c) = 3"
    by (simp_all add: gcounter_total_def pncounter_increment_def pncounter_decrement_def
        pncounter_new_def gcounter_new_def gcounter_increment_def Let_def)
  then show ?thesis
    using pncounter_value_clamped [of ?c 7] by (simp add: u64_max_def)
qed

text \<open>
  PNCounter replicas converge: delivering the same operations in any order gives equal
  counters, and so does merging the same set of states in any order.
\<close>

theorem pncounter_convergence:
  "(mset xs = mset ys \<longrightarrow>
      fold (\<lambda>x c. fst (pncounter_apply_op x c)) xs c = fold (\<lambda>x c. fst (pncounter_apply_op x c)) ys c)
   \<and> (insert c (set cs) = insert d (set ds) \<longrightarrow>
      fold (\<lambda>t s. pncounter_merged_with s t) cs c = fold (\<lambda>t s. pncounter_merged_with s t) ds d)"
  using pncounter_ops.delivery_order_irrelevant [where s = c and xs = xs and ys = ys]
    pncounter_crdt.gossip_converges [where s = c and s' = d and ts = cs and us = ds] by auto

theorem pncounter_convergence_witness:
  "fold (\<lambda>x c. fst (pncounter_apply_op x c))
     [op_pncounter_increment ''1'' (NodeId ''a'') ''k'' 4,
      op_pncounter_decrement ''2'' (NodeId ''b'') ''k'' 9] pncounter_new =
   fold (\<lambda>x c. fst (pncounter_apply_op x c))
     [op_pncounter_decrement ''2'' (NodeId ''b'') ''k'' 9,
      op_pncounter_increment ''1'' (NodeId ''a'') ''k'' 4] pncounter_new"
  using pncounter_convergence
    [of "[op_pncounter_increment ''1'' (NodeId ''a'') ''k'' 4,
          op_pncounter_decrement ''2'' (NodeId ''b'') ''k'' 9]"
        "[op_pncounter_decrement ''2'' (NodeId ''b'') ''k'' 9,
          op_pncounter_increment ''1'' (NodeId ''a'') ''k'' 4]"
        pncounter_new "[]" pncounter_new "[]"] by simp

end
