(* ===== verification/Lww_Crdt.thy ===== *)
theory Lww_Crdt
  imports Crdt_Laws Sync_Op
begin

text \<open>
  \<open>nx-sync/src/crdt/lww_register.rs\<close> and \<open>lww_map.rs\<close>: the last-writer-wins register and
  the map whose fields are last-writer-wins entries with tombstones. The register orders
  writes by timestamp and writer only; the map also orders by value (a tombstone beats a
  value, values compare byte-wise), which makes its order total.
\<close>

section \<open>LwwRegister\<close>

record lww_register =
  reg_value :: bytes
  reg_timestamp_ms :: u64
  reg_writer :: node_id

definition lww_register_new :: "bytes \<Rightarrow> u64 \<Rightarrow> node_id \<Rightarrow> lww_register" where
  "lww_register_new value timestamp_ms writer =
     \<lparr>reg_value = value, reg_timestamp_ms = timestamp_ms, reg_writer = writer\<rparr>"

definition candidate_wins :: "lww_register \<Rightarrow> lww_register \<Rightarrow> bool" where
  "candidate_wins candidate current =
     (reg_timestamp_ms candidate > reg_timestamp_ms current
      \<or> (reg_timestamp_ms candidate = reg_timestamp_ms current
         \<and> node_id_as_str (reg_writer candidate) > node_id_as_str (reg_writer current)))"

definition lww_register_assign ::
    "bytes \<Rightarrow> u64 \<Rightarrow> node_id \<Rightarrow> lww_register \<Rightarrow> lww_register \<times> bool" where
  "lww_register_assign value timestamp_ms writer r =
     (let candidate = lww_register_new value timestamp_ms writer
      in if candidate_wins candidate r then (candidate, True) else (r, False))"

definition lww_register_merge :: "lww_register \<Rightarrow> lww_register \<Rightarrow> lww_register \<times> bool" where
  "lww_register_merge r other = (if candidate_wins other r then (other, True) else (r, False))"

definition lww_register_merged_with :: "lww_register \<Rightarrow> lww_register \<Rightarrow> lww_register" where
  "lww_register_merged_with r other = fst (lww_register_merge r other)"

section \<open>LwwMap\<close>

record lww_map_entry =
  ent_value :: "bytes option"
  ent_timestamp_ms :: u64
  ent_writer :: node_id

definition lww_map_entry_present :: "bytes \<Rightarrow> u64 \<Rightarrow> node_id \<Rightarrow> lww_map_entry" where
  "lww_map_entry_present value timestamp_ms writer =
     \<lparr>ent_value = Some value, ent_timestamp_ms = timestamp_ms, ent_writer = writer\<rparr>"

definition lww_map_entry_tombstone :: "u64 \<Rightarrow> node_id \<Rightarrow> lww_map_entry" where
  "lww_map_entry_tombstone timestamp_ms writer =
     \<lparr>ent_value = None, ent_timestamp_ms = timestamp_ms, ent_writer = writer\<rparr>"

definition lww_map_entry_is_visible :: "lww_map_entry \<Rightarrow> bool" where
  "lww_map_entry_is_visible e = (ent_value e \<noteq> None)"

record lww_map =
  lww_entries :: "(string, lww_map_entry) omap"

definition lww_map_new :: lww_map where
  "lww_map_new = \<lparr>lww_entries = om_empty\<rparr>"

fun value_wins :: "bytes option \<Rightarrow> bytes option \<Rightarrow> bool" where
  "value_wins None (Some _) = True"
| "value_wins (Some _) None = False"
| "value_wins None None = False"
| "value_wins (Some candidate) (Some current) = (candidate > current)"

definition entry_wins :: "lww_map_entry \<Rightarrow> lww_map_entry \<Rightarrow> bool" where
  "entry_wins candidate current =
     (ent_timestamp_ms candidate > ent_timestamp_ms current
      \<or> (ent_timestamp_ms candidate = ent_timestamp_ms current
         \<and> (node_id_as_str (ent_writer candidate) > node_id_as_str (ent_writer current)
            \<or> (ent_writer candidate = ent_writer current
               \<and> value_wins (ent_value candidate) (ent_value current)))))"

definition lww_map_apply_entry :: "string \<Rightarrow> lww_map_entry \<Rightarrow> lww_map \<Rightarrow> lww_map \<times> bool" where
  "lww_map_apply_entry field candidate m =
     (case om_get (lww_entries m) field of
        Some current \<Rightarrow>
          if \<not> entry_wins candidate current then (m, False)
          else (m\<lparr>lww_entries := om_insert field candidate (lww_entries m)\<rparr>, True)
      | None \<Rightarrow> (m\<lparr>lww_entries := om_insert field candidate (lww_entries m)\<rparr>, True))"

definition lww_map_set ::
    "string \<Rightarrow> bytes \<Rightarrow> u64 \<Rightarrow> node_id \<Rightarrow> lww_map \<Rightarrow> lww_map \<times> bool" where
  "lww_map_set field value timestamp_ms writer m =
     lww_map_apply_entry field (lww_map_entry_present value timestamp_ms writer) m"

definition lww_map_remove :: "string \<Rightarrow> u64 \<Rightarrow> node_id \<Rightarrow> lww_map \<Rightarrow> lww_map \<times> bool" where
  "lww_map_remove field timestamp_ms writer m =
     lww_map_apply_entry field (lww_map_entry_tombstone timestamp_ms writer) m"

definition lww_map_entry_of :: "lww_map \<Rightarrow> string \<Rightarrow> lww_map_entry option" where
  "lww_map_entry_of m field = om_get (lww_entries m) field"

definition lww_map_get :: "lww_map \<Rightarrow> string \<Rightarrow> bytes option" where
  "lww_map_get m field = Option.bind (om_get (lww_entries m) field) ent_value"

definition lww_map_contains :: "lww_map \<Rightarrow> string \<Rightarrow> bool" where
  "lww_map_contains m field = (lww_map_get m field \<noteq> None)"

definition lww_map_entries :: "lww_map \<Rightarrow> (string \<times> bytes) list" where
  "lww_map_entries m =
     List.map_filter (\<lambda>(field, entry). map_option (Pair field) (ent_value entry))
       (om_entries (lww_entries m))"

definition lww_map_merge_entry ::
    "string \<times> lww_map_entry \<Rightarrow> lww_map \<times> bool \<Rightarrow> lww_map \<times> bool" where
  "lww_map_merge_entry x acc =
     (let (s, c) = lww_map_apply_entry (fst x) (snd x) (fst acc) in (s, snd acc \<or> c))"

definition lww_map_merge :: "lww_map \<Rightarrow> lww_map \<Rightarrow> lww_map \<times> bool" where
  "lww_map_merge m other =
     fold lww_map_merge_entry (om_entries (lww_entries other)) (m, False)"

definition lww_map_merged_with :: "lww_map \<Rightarrow> lww_map \<Rightarrow> lww_map" where
  "lww_map_merged_with m other = fst (lww_map_merge m other)"

section \<open>Specification\<close>

text \<open>
  The register is a join semilattice on states in which a timestamp and a writer determine
  the value; \<open>written_by V\<close> says that \<open>V\<close> is that assignment.
\<close>

definition written_by :: "(u64 \<Rightarrow> node_id \<Rightarrow> bytes) \<Rightarrow> lww_register \<Rightarrow> bool" where
  "written_by V r = (reg_value r = V (reg_timestamp_ms r) (reg_writer r))"

text \<open>The later of two entries under the map's order.\<close>

definition entry_lub :: "lww_map_entry \<Rightarrow> lww_map_entry \<Rightarrow> lww_map_entry" where
  "entry_lub a b = (if entry_wins b a then b else a)"

section \<open>LwwRegister lemmas\<close>

lemma candidate_wins_trans:
  "candidate_wins a b \<Longrightarrow> candidate_wins b c \<Longrightarrow> candidate_wins a c"
  by (auto simp: candidate_wins_def)

lemma candidate_wins_asym: "candidate_wins a b \<Longrightarrow> \<not> candidate_wins b a"
  by (auto simp: candidate_wins_def)

lemma candidate_wins_cases:
  "candidate_wins a b \<or> candidate_wins b a
   \<or> (reg_timestamp_ms a = reg_timestamp_ms b \<and> reg_writer a = reg_writer b)"
  by (auto simp: candidate_wins_def node_id_eq_iff)

lemma written_by_total:
  "written_by V a \<Longrightarrow> written_by V b \<Longrightarrow> candidate_wins a b \<or> candidate_wins b a \<or> a = b"
  using candidate_wins_cases [of a b] by (auto simp: written_by_def intro: lww_register.equality)

interpretation lww_register_crdt: state_crdt lww_register_merged_with "written_by V" for V
proof unfold_locales
  fix a b c :: lww_register
  note defs = lww_register_merged_with_def lww_register_merge_def
  show "written_by V (lww_register_merged_with a b)" if "written_by V a" "written_by V b"
    using that by (simp add: defs)
  show "lww_register_merged_with a b = lww_register_merged_with b a"
    if "written_by V a" "written_by V b"
    using written_by_total [OF that] by (auto simp: defs dest: candidate_wins_asym)
  show "lww_register_merged_with (lww_register_merged_with a b) c
      = lww_register_merged_with a (lww_register_merged_with b c)"
    if "written_by V a" "written_by V b" "written_by V c"
    using written_by_total [OF that(1,2)] written_by_total [OF that(2,3)]
      written_by_total [OF that(1,3)]
    by (auto simp: defs dest: candidate_wins_asym candidate_wins_trans)
  show "lww_register_merged_with a a = a" if "written_by V a"
    by (simp add: defs)
qed

lemma lww_register_assign_merge:
  "lww_register_assign v t w r = lww_register_merge r (lww_register_new v t w)"
  by (simp add: lww_register_assign_def lww_register_merge_def Let_def)

section \<open>LwwMap lemmas\<close>

lemma value_wins_total: "value_wins a b \<or> value_wins b a \<or> a = b"
  by (cases a; cases b) auto

lemma value_wins_trans: "value_wins a b \<Longrightarrow> value_wins b c \<Longrightarrow> value_wins a c"
  by (cases a; cases b; cases c) auto

lemma value_wins_asym: "value_wins a b \<Longrightarrow> \<not> value_wins b a"
  by (cases a; cases b) auto

lemma entry_wins_total: "entry_wins a b \<or> entry_wins b a \<or> a = b"
  using value_wins_total [of "ent_value a" "ent_value b"]
  by (auto simp: entry_wins_def node_id_eq_iff intro: lww_map_entry.equality)

lemma entry_wins_trans: "entry_wins a b \<Longrightarrow> entry_wins b c \<Longrightarrow> entry_wins a c"
  by (auto simp: entry_wins_def node_id_eq_iff dest: value_wins_trans)

lemma entry_wins_asym: "entry_wins a b \<Longrightarrow> \<not> entry_wins b a"
  by (auto simp: entry_wins_def node_id_eq_iff dest: value_wins_asym)

lemma entry_wins_irrefl [simp]: "\<not> entry_wins a a"
  using entry_wins_asym by blast

lemma entry_lub_commute: "entry_lub a b = entry_lub b a"
  using entry_wins_total [of a b] by (auto simp: entry_lub_def dest: entry_wins_asym)

lemma entry_lub_assoc: "entry_lub (entry_lub a b) c = entry_lub a (entry_lub b c)"
  using entry_wins_total [of a b] entry_wins_total [of b c] entry_wins_total [of a c]
  by (auto simp: entry_lub_def dest: entry_wins_asym entry_wins_trans)

lemma entry_lub_idem [simp]: "entry_lub a a = a"
  by (simp add: entry_lub_def)

lemma lww_map_apply_entry_get:
  "om_get (lww_entries (fst (lww_map_apply_entry f e m))) =
   (om_get (lww_entries m))(f \<mapsto>
      (case om_get (lww_entries m) f of None \<Rightarrow> e | Some c \<Rightarrow> entry_lub c e))"
  by (auto simp: lww_map_apply_entry_def entry_lub_def fun_eq_iff split: option.split)

lemma lww_map_upd_neq:
  assumes "om_get (lww_entries m) f \<noteq> Some e"
  shows "m\<lparr>lww_entries := om_insert f e (lww_entries m)\<rparr> \<noteq> (m :: lww_map)"
proof
  assume "m\<lparr>lww_entries := om_insert f e (lww_entries m)\<rparr> = m"
  then have "lww_entries (m\<lparr>lww_entries := om_insert f e (lww_entries m)\<rparr>) = lww_entries m"
    by (rule arg_cong)
  then have "om_insert f e (lww_entries m) = lww_entries m" by simp
  then have "om_get (om_insert f e (lww_entries m)) f = om_get (lww_entries m) f" by (rule arg_cong)
  with assms show False by simp
qed

lemma lww_map_apply_entry_changed:
  "snd (lww_map_apply_entry f e m) \<longleftrightarrow> fst (lww_map_apply_entry f e m) \<noteq> m"
  using lww_map_upd_neq [of m f e]
  by (cases "om_get (lww_entries m) f = Some e")
    (auto simp: lww_map_apply_entry_def split: option.split)

text \<open>One iteration of the merge loop, on the entries.\<close>

definition lww_map_step ::
    "string \<times> lww_map_entry \<Rightarrow> (string, lww_map_entry) omap \<Rightarrow> (string, lww_map_entry) omap" where
  "lww_map_step x m = lww_entries (fst (lww_map_apply_entry (fst x) (snd x) \<lparr>lww_entries = m\<rparr>))"

interpretation lmerge: pointwise_merge lww_map_step
    "\<lambda>v w. case v of None \<Rightarrow> w | Some c \<Rightarrow> entry_lub c w"
  by unfold_locales (simp add: lww_map_step_def lww_map_apply_entry_get)

interpretation lsemi: semilattice_merge lww_map_step
    "\<lambda>v w. case v of None \<Rightarrow> w | Some c \<Rightarrow> entry_lub c w" entry_lub
  by unfold_locales (rule entry_lub_commute entry_lub_assoc | simp)+

lemma lww_map_step_entries:
  "fst (lww_map_apply_entry f e m) = \<lparr>lww_entries = lww_map_step (f, e) (lww_entries m)\<rparr>"
  by (cases m) (simp add: lww_map_step_def)

lemma lww_map_merge_fold:
  "fst (fold lww_map_merge_entry xs (m, b))
   = \<lparr>lww_entries = fold lww_map_step xs (lww_entries m)\<rparr>"
proof (induction xs arbitrary: m b)
  case (Cons x xs)
  obtain f e where x: "x = (f, e)" by (cases x)
  show ?case
    using Cons [of "fst (lww_map_apply_entry f e m)"] lww_map_step_entries [of f e m]
    by (simp add: x lww_map_merge_entry_def case_prod_beta)
qed simp

lemma lww_map_merged_with_eq:
  "lww_map_merged_with m n = \<lparr>lww_entries = fold lww_map_step (om_entries (lww_entries n)) (lww_entries m)\<rparr>"
  by (simp add: lww_map_merged_with_def lww_map_merge_def lww_map_merge_fold)

interpretation lww_map_crdt: state_crdt lww_map_merged_with "\<lambda>_. True"
proof unfold_locales
  fix a b c :: lww_map
  show "lww_map_merged_with a b = lww_map_merged_with b a"
    by (simp add: lww_map_merged_with_eq lsemi.merge_commute [of "lww_entries b"])
  show "lww_map_merged_with (lww_map_merged_with a b) c
      = lww_map_merged_with a (lww_map_merged_with b c)"
    by (simp add: lww_map_merged_with_eq lsemi.merge_assoc)
  show "lww_map_merged_with a a = a"
    by (simp add: lww_map_merged_with_eq lsemi.merge_idem)
qed simp

text \<open>The \<open>changed\<close> flag of the loop, visited keys being distinct.\<close>

lemma lww_map_merge_flag:
  "distinct (map fst xs) \<Longrightarrow>
   snd (fold lww_map_merge_entry xs (m, b))
   \<longleftrightarrow> b \<or> (\<exists>(f, e) \<in> set xs. snd (lww_map_apply_entry f e m))"
proof (induction xs arbitrary: m b)
  case (Cons x xs)
  obtain f e where x: "x = (f, e)" by (cases x)
  let ?m = "fst (lww_map_apply_entry f e m)"
  have "snd (lww_map_apply_entry g d ?m) = snd (lww_map_apply_entry g d m)" if "(g, d) \<in> set xs" for g d
  proof -
    have "g \<noteq> f" using Cons.prems that x by force
    then have "om_get (lww_entries ?m) g = om_get (lww_entries m) g"
      by (simp add: lww_map_apply_entry_get)
    then show ?thesis by (simp add: lww_map_apply_entry_def split: option.split)
  qed
  then show ?case
    using Cons.IH [of ?m] Cons.prems
    by (auto simp: x lww_map_merge_entry_def case_prod_beta)
qed simp

lemma lww_map_merge_changed: "snd (lww_map_merge m n) \<longleftrightarrow> fst (lww_map_merge m n) \<noteq> m"
proof -
  let ?r = "fst (lww_map_merge m n)"
  have flag: "snd (lww_map_merge m n) \<longleftrightarrow>
      (\<exists>(f, e) \<in> set (om_entries (lww_entries n)). snd (lww_map_apply_entry f e m))"
    by (simp add: lww_map_merge_def lww_map_merge_flag)
  have r: "?r = lww_map_merged_with m n" by (simp add: lww_map_merged_with_def)
  have get: "om_get (lww_entries ?r) f = om_get (lww_entries (fst (lww_map_apply_entry f e m))) f"
    if "om_get (lww_entries n) f = Some e" for f e
    using that by (simp add: r lww_map_merged_with_eq lmerge.fold_entries_get lww_map_apply_entry_get)
  have same: "om_get (lww_entries ?r) f = om_get (lww_entries m) f"
    if "om_get (lww_entries n) f = None" for f
    using that by (simp add: r lww_map_merged_with_eq lmerge.fold_entries_get)
  have at: "(fst (lww_map_apply_entry f e m) = m) \<longleftrightarrow>
      om_get (lww_entries (fst (lww_map_apply_entry f e m))) f = om_get (lww_entries m) f" for f e
    using lww_map_upd_neq [of m f e] by (cases "om_get (lww_entries m) f = Some e")
      (auto simp: lww_map_apply_entry_def split: option.split)
  have "?r = m \<longleftrightarrow> (\<forall>f. om_get (lww_entries ?r) f = om_get (lww_entries m) f)"
    by (auto intro!: lww_map.equality om_ext)
  also have "\<dots> \<longleftrightarrow> (\<forall>f e. om_get (lww_entries n) f = Some e \<longrightarrow> fst (lww_map_apply_entry f e m) = m)"
    using get same at by (metis option.exhaust)
  finally show ?thesis
    using flag by (auto simp: lww_map_apply_entry_changed om_in_entries)
qed

text \<open>Writes to a map, as the replication layer applies them: a field and an entry.\<close>

lemma lww_map_apply_entry_commute:
  "fst (lww_map_apply_entry f e (fst (lww_map_apply_entry g d m))) =
   fst (lww_map_apply_entry g d (fst (lww_map_apply_entry f e m)))"
  by (intro lww_map.equality om_ext)
    (auto simp: lww_map_apply_entry_get fun_eq_iff entry_lub_commute [of e d] entry_lub_assoc
      split: option.splits)

interpretation lww_map_ops: op_crdt "\<lambda>(f, e) m. fst (lww_map_apply_entry f e m)" "\<lambda>_. True" "\<lambda>_. True"
  by unfold_locales (auto intro: lww_map_apply_entry_commute split: prod.splits)

lemma lww_map_writes_winner:
  "case om_get (lww_entries (fold (\<lambda>(f, e) m. fst (lww_map_apply_entry f e m)) ws lww_map_new)) f of
     None \<Rightarrow> \<forall>e. (f, e) \<notin> set ws
   | Some w \<Rightarrow> (f, w) \<in> set ws \<and> (\<forall>e. (f, e) \<in> set ws \<longrightarrow> \<not> entry_wins e w)"
proof (induction ws rule: rev_induct)
  case (snoc x ws)
  obtain g d where x: "x = (g, d)" by (cases x)
  show ?case
    using snoc entry_wins_total
    by (auto simp: x lww_map_apply_entry_get entry_lub_def
        split: option.splits dest: entry_wins_asym entry_wins_trans)
qed (simp add: lww_map_new_def)

lemma map_filter_fst_sorted:
  "sorted_wrt (<) (map fst xs) \<Longrightarrow>
   sorted_wrt (<) (map fst (List.map_filter (\<lambda>(k, e). map_option (Pair k) (g e)) xs))"
proof (induction xs)
  case (Cons x xs)
  have "\<forall>y \<in> set (map fst (List.map_filter (\<lambda>(k, e). map_option (Pair k) (g e)) xs)). y \<in> set (map fst xs)"
    by (force simp: List.map_filter_def)
  with Cons show ?case
    by (cases x; cases "g (snd x)") (fastforce simp: map_filter_simps)+
qed (simp add: map_filter_simps)

section \<open>Properties of the last-writer-wins types\<close>

text \<open>
  LWW-Register replicas converge under gossip in any order and with any repetition,
  when a timestamp and a writer determine the value written, and the surviving state is one
  of the states merged, over which none of them wins.
\<close>

theorem lww_register_gossip_convergence:
  assumes "\<forall>t \<in> insert r (set rs). written_by V t"
    and "insert r (set rs) = insert q (set qs)"
  shows "fold (\<lambda>t s. lww_register_merged_with s t) rs r = fold (\<lambda>t s. lww_register_merged_with s t) qs q
    \<and> fold (\<lambda>t s. lww_register_merged_with s t) rs r \<in> insert r (set rs)
    \<and> (\<forall>t \<in> insert r (set rs).
         \<not> candidate_wins t (fold (\<lambda>t s. lww_register_merged_with s t) rs r))"
proof (intro conjI ballI)
  let ?R = "fold (\<lambda>t s. lww_register_merged_with s t) rs r"
  have "\<forall>t \<in> insert q (set qs). written_by V t" using assms by simp
  with assms show "?R = fold (\<lambda>t s. lww_register_merged_with s t) qs q"
    by (intro lww_register_crdt.gossip_converges [of V]) auto
  show "?R \<in> insert r (set rs)"
    by (induction rs arbitrary: r)
      (auto simp: lww_register_merged_with_def lww_register_merge_def)
  show "\<not> candidate_wins t ?R" if "t \<in> insert r (set rs)" for t
  proof
    assume wins: "candidate_wins t ?R"
    have "lww_register_merged_with t ?R = ?R"
      using that assms(1)
      by (auto intro: lww_register_crdt.gossip_contains [of V] lww_register_crdt.gossip_contains_start [of V])
    with wins have "t = ?R"
      using candidate_wins_asym [OF wins]
      by (simp add: lww_register_merged_with_def lww_register_merge_def)
    with wins show False using candidate_wins_asym by blast
  qed
qed

theorem lww_register_gossip_convergence_witness:
  "fold (\<lambda>t s. lww_register_merged_with s t) [lww_register_new [2] 9 (NodeId ''b'')]
     (lww_register_new [1] 9 (NodeId ''a'')) =
   fold (\<lambda>t s. lww_register_merged_with s t) [lww_register_new [1] 9 (NodeId ''a'')]
     (lww_register_new [2] 9 (NodeId ''b''))"
  by (rule lww_register_gossip_convergence
      [where V = "\<lambda>t w. if w = NodeId ''a'' then [1] else [2]", THEN conjunct1])
    (auto simp: written_by_def lww_register_new_def)

text \<open>
  The assumption is needed: two writes of one node in the same millisecond with
  different values are ordered by neither side, so two replicas that exchange their states
  keep different values.
\<close>

theorem lww_register_tie_diverges:
  "lww_register_merged_with (lww_register_new [1] 9 (NodeId ''a'')) (lww_register_new [2] 9 (NodeId ''a''))
   \<noteq> lww_register_merged_with (lww_register_new [2] 9 (NodeId ''a'')) (lww_register_new [1] 9 (NodeId ''a''))"
  by (simp add: lww_register_merged_with_def lww_register_merge_def candidate_wins_def lww_register_new_def)

text \<open>
  LWW-Map replicas converge without any assumption: the same writes and removals in any
  order give equal maps, and so does merging the same set of maps in any order.
\<close>

theorem lww_map_convergence:
  "(mset ws = mset vs \<longrightarrow>
      fold (\<lambda>(f, e) m. fst (lww_map_apply_entry f e m)) ws m =
      fold (\<lambda>(f, e) m. fst (lww_map_apply_entry f e m)) vs m)
   \<and> (insert m (set ms) = insert n (set ns) \<longrightarrow>
      fold (\<lambda>t s. lww_map_merged_with s t) ms m = fold (\<lambda>t s. lww_map_merged_with s t) ns n)"
  using lww_map_ops.delivery_order_irrelevant [where s = m and xs = ws and ys = vs]
    lww_map_crdt.gossip_converges [where s = m and s' = n and ts = ms and us = ns] by auto

theorem lww_map_convergence_witness:
  "fold (\<lambda>(f, e) m. fst (lww_map_apply_entry f e m))
     [(''f'', lww_map_entry_present [1] 9 (NodeId ''a'')), (''f'', lww_map_entry_tombstone 9 (NodeId ''a''))]
     lww_map_new =
   fold (\<lambda>(f, e) m. fst (lww_map_apply_entry f e m))
     [(''f'', lww_map_entry_tombstone 9 (NodeId ''a'')), (''f'', lww_map_entry_present [1] 9 (NodeId ''a''))]
     lww_map_new"
  using lww_map_convergence
    [of "[(''f'', lww_map_entry_present [1] 9 (NodeId ''a'')), (''f'', lww_map_entry_tombstone 9 (NodeId ''a''))]"
        "[(''f'', lww_map_entry_tombstone 9 (NodeId ''a'')), (''f'', lww_map_entry_present [1] 9 (NodeId ''a''))]"
        lww_map_new "[]" lww_map_new "[]"] by simp

text \<open>
  The last writer wins in every field: after any writes and removals, a field holds an
  entry that was written to it and over which no other write to it wins, and it is absent
  only if nothing was written to it; \<open>merge\<close> returns true exactly when it changed the map.
\<close>

theorem lww_map_last_writer_wins:
  "(case lww_map_entry_of (fold (\<lambda>(f, e) m. fst (lww_map_apply_entry f e m)) ws lww_map_new) f of
      None \<Rightarrow> \<forall>e. (f, e) \<notin> set ws
    | Some w \<Rightarrow> (f, w) \<in> set ws \<and> (\<forall>e. (f, e) \<in> set ws \<longrightarrow> \<not> entry_wins e w))
   \<and> (snd (lww_map_merge m n) \<longleftrightarrow> fst (lww_map_merge m n) \<noteq> m)"
  using lww_map_writes_winner [where ws = ws and f = f] lww_map_merge_changed
  by (simp add: lww_map_entry_of_def)

theorem lww_map_last_writer_wins_witness:
  "\<not> entry_wins (lww_map_entry_present [1] 9 (NodeId ''a'')) (lww_map_entry_tombstone 9 (NodeId ''a''))"
  using lww_map_last_writer_wins
    [where ws = "[(''f'', lww_map_entry_present [1] 9 (NodeId ''a'')),
        (''f'', lww_map_entry_tombstone 9 (NodeId ''a''))]" and f = "''f''"]
  by (simp add: lww_map_entry_of_def lww_map_apply_entry_def lww_map_new_def entry_wins_def
      lww_map_entry_present_def lww_map_entry_tombstone_def)

text \<open>
  \<open>entries\<close> lists exactly the visible fields with the values \<open>get\<close> returns, in strictly
  ascending field order.
\<close>

theorem lww_map_entries_visible:
  "set (lww_map_entries m) = {(f, v). lww_map_get m f = Some v}
   \<and> sorted_wrt (<) (map fst (lww_map_entries m))"
proof
  have "(f, v) \<in> set (lww_map_entries m) \<longleftrightarrow> lww_map_get m f = Some v" for f v
  proof -
    have "(f, v) \<in> set (lww_map_entries m) \<longleftrightarrow>
        (\<exists>e. (f, e) \<in> set (om_entries (lww_entries m)) \<and> ent_value e = Some v)"
      by (force simp: lww_map_entries_def in_set_map_filter)
    then show ?thesis by (auto simp: om_in_entries lww_map_get_def bind_eq_Some_conv)
  qed
  then show "set (lww_map_entries m) = {(f, v). lww_map_get m f = Some v}" by auto
  show "sorted_wrt (<) (map fst (lww_map_entries m))"
    unfolding lww_map_entries_def by (rule map_filter_fst_sorted) (rule om_sorted)
qed

end
