(* ===== verification/Orset_Crdt.thy ===== *)
theory Orset_Crdt
  imports Crdt_Laws Sync_Op
begin

text \<open>
  \<open>nx-sync/src/crdt/orset.rs\<close>: the observed-remove set. Two grow-only maps from elements to
  tag sets: the tags each add created and the tags removals have observed. An element is
  visible while one of its add tags has not been removed.
\<close>

section \<open>ORSet\<close>

record orset =
  adds :: "(string, string oset) omap"
  removes :: "(string, string oset) omap"

definition orset_new :: orset where
  "orset_new = \<lparr>adds = om_empty, removes = om_empty\<rparr>"

definition orset_add :: "string \<Rightarrow> string \<Rightarrow> orset \<Rightarrow> orset \<times> bool" where
  "orset_add element tag s =
     (let (tags, fresh) = os_insert tag (om_get_or (adds s) element om_empty)
      in (s\<lparr>adds := om_insert element tags (adds s)\<rparr>, fresh))"

definition orset_apply_add :: "string \<Rightarrow> string \<Rightarrow> orset \<Rightarrow> orset \<times> bool" where
  "orset_apply_add element tag s = orset_add element tag s"

definition orset_apply_remove :: "string \<Rightarrow> string list \<Rightarrow> orset \<Rightarrow> orset \<times> bool" where
  "orset_apply_remove element observed_tags s =
     (let tags = om_get_or (removes s) element om_empty;
          tags' = os_extend observed_tags tags
      in (s\<lparr>removes := om_insert element tags' (removes s)\<rparr>, om_len tags' \<noteq> om_len tags))"

definition orset_observed_tags :: "orset \<Rightarrow> string \<Rightarrow> string list" where
  "orset_observed_tags s element =
     (case om_get (adds s) element of None \<Rightarrow> [] | Some tags \<Rightarrow> om_keys tags)"

definition orset_remove :: "string \<Rightarrow> orset \<Rightarrow> orset \<times> string list" where
  "orset_remove element s =
     (let observed_tags =
            (case om_get (adds s) element of None \<Rightarrow> [] | Some tags \<Rightarrow> om_keys tags)
      in (fst (orset_apply_remove element observed_tags s), observed_tags))"

definition orset_visible_tags :: "orset \<Rightarrow> string \<Rightarrow> string list" where
  "orset_visible_tags s element =
     (let removed = om_get (removes s) element
      in filter (\<lambda>tag. case removed of None \<Rightarrow> True | Some r \<Rightarrow> \<not> os_member r tag)
           (case om_get (adds s) element of None \<Rightarrow> [] | Some tags \<Rightarrow> om_keys tags))"

definition orset_contains :: "orset \<Rightarrow> string \<Rightarrow> bool" where
  "orset_contains s element = (orset_visible_tags s element \<noteq> [])"

definition orset_elements :: "orset \<Rightarrow> string list" where
  "orset_elements s = filter (orset_contains s) (om_keys (adds s))"

definition orset_merge_tags ::
    "string \<times> string oset \<Rightarrow> (string, string oset) omap \<times> bool \<Rightarrow> (string, string oset) omap \<times> bool"
  where
  "orset_merge_tags x acc =
     (let (element, tags) = x; (m, changed) = acc;
          local_tags = om_get_or m element om_empty;
          local_tags' = os_extend (om_keys tags) local_tags
      in (om_insert element local_tags' m, changed \<or> om_len local_tags' \<noteq> om_len local_tags))"

definition orset_merge :: "orset \<Rightarrow> orset \<Rightarrow> orset \<times> bool" where
  "orset_merge s other =
     (let (adds', changed) = fold orset_merge_tags (om_entries (adds other)) (adds s, False);
          (removes', changed') = fold orset_merge_tags (om_entries (removes other)) (removes s, changed)
      in (\<lparr>adds = adds', removes = removes'\<rparr>, changed'))"

definition orset_merged_with :: "orset \<Rightarrow> orset \<Rightarrow> orset" where
  "orset_merged_with s other = fst (orset_merge s other)"

section \<open>Specification\<close>

text \<open>The tags recorded for an element, and the effect of one delivered operation.\<close>

definition tags_of :: "(string, string oset) omap \<Rightarrow> string \<Rightarrow> string set" where
  "tags_of m e = os_set (om_get_or m e om_empty)"

fun orset_deliver :: "op_kind \<Rightarrow> orset \<Rightarrow> orset" where
  "orset_deliver (ORSetAdd _ element tag) s = fst (orset_apply_add element tag s)"
| "orset_deliver (ORSetRemove _ element observed) s = fst (orset_apply_remove element observed s)"
| "orset_deliver _ s = s"

definition added_tags :: "op_kind list \<Rightarrow> string \<Rightarrow> string set" where
  "added_tags ks e = {t. \<exists>key. ORSetAdd key e t \<in> set ks}"

definition removed_tags :: "op_kind list \<Rightarrow> string \<Rightarrow> string set" where
  "removed_tags ks e = {t. \<exists>key ts. ORSetRemove key e ts \<in> set ks \<and> t \<in> set ts}"

section \<open>Lemmas\<close>

lemma tags_of_empty [simp]: "tags_of om_empty e = {}"
  by (simp add: tags_of_def)

lemma tags_of_insert [simp]:
  "tags_of (om_insert e ts m) f = (if e = f then os_set ts else tags_of m f)"
  by (simp add: tags_of_def)

lemma tags_of_case: "tags_of m e = (case om_get m e of None \<Rightarrow> {} | Some ts \<Rightarrow> os_set ts)"
  by (simp add: tags_of_def om_get_or_def split: option.split)

lemma orset_add_state:
  "fst (orset_add e t s) =
   s\<lparr>adds := om_insert e (om_insert t () (om_get_or (adds s) e om_empty)) (adds s)\<rparr>"
  by (simp add: orset_add_def os_insert_def)

lemma orset_apply_remove_state:
  "fst (orset_apply_remove e ts s) =
   s\<lparr>removes := om_insert e (os_extend ts (om_get_or (removes s) e om_empty)) (removes s)\<rparr>"
  by (simp add: orset_apply_remove_def Let_def)

lemma orset_tags_add [crdt_simps]:
  "tags_of (adds (fst (orset_add e t s))) f = (if e = f then insert t (tags_of (adds s) f) else tags_of (adds s) f)"
  "removes (fst (orset_add e t s)) = removes s"
  by (simp_all add: orset_add_state tags_of_def)

lemma orset_tags_remove [crdt_simps]:
  "tags_of (removes (fst (orset_apply_remove e ts s))) f =
     (if e = f then set ts \<union> tags_of (removes s) f else tags_of (removes s) f)"
  "adds (fst (orset_apply_remove e ts s)) = adds s"
  by (simp_all add: orset_apply_remove_state tags_of_def)

lemma orset_observed_tags_set: "set (orset_observed_tags s e) = tags_of (adds s) e"
  by (simp add: orset_observed_tags_def tags_of_case split: option.split)

lemma orset_visible_tags_set:
  "set (orset_visible_tags s e) = tags_of (adds s) e - tags_of (removes s) e"
  by (auto simp: orset_visible_tags_def tags_of_case Let_def split: option.splits)

lemma orset_contains_iff: "orset_contains s e \<longleftrightarrow> (\<exists>t. t \<in> tags_of (adds s) e - tags_of (removes s) e)"
  unfolding orset_contains_def
  by (metis orset_visible_tags_set ex_in_conv set_empty)

lemma orset_elements_set: "set (orset_elements s) = {e. orset_contains s e}"
proof -
  have "e \<in> dom (om_get (adds s))" if "orset_contains s e" for e
    using that by (auto simp: orset_contains_iff tags_of_case split: option.splits)
  then show ?thesis by (auto simp: orset_elements_def)
qed

lemma orset_eqI: "adds s = adds t \<Longrightarrow> removes s = removes t \<Longrightarrow> s = (t :: orset)"
  by simp

text \<open>One iteration of the merge loops, without the flag.\<close>

definition orset_step ::
    "string \<times> string oset \<Rightarrow> (string, string oset) omap \<Rightarrow> (string, string oset) omap" where
  "orset_step x m = om_insert (fst x) (os_extend (om_keys (snd x)) (om_get_or m (fst x) om_empty)) m"

interpretation omerge: pointwise_merge orset_step
    "\<lambda>v w. os_extend (om_keys w) (case v of None \<Rightarrow> om_empty | Some t \<Rightarrow> t)"
  by unfold_locales (simp add: orset_step_def om_get_or_def)

interpretation osemi: semilattice_merge orset_step
    "\<lambda>v w. os_extend (om_keys w) (case v of None \<Rightarrow> om_empty | Some t \<Rightarrow> t)"
    "\<lambda>v w. os_extend (om_keys w) v"
  by unfold_locales (auto intro!: os_ext)

lemma orset_merge_tags_fst:
  "fst (fold orset_merge_tags xs (m, b)) = fold orset_step xs m"
proof (induction xs arbitrary: m b)
  case (Cons x xs)
  then show ?case by (cases x) (simp add: orset_merge_tags_def orset_step_def Let_def)
qed simp

lemma orset_merged_with_eq:
  "orset_merged_with s t =
   \<lparr>adds = fold orset_step (om_entries (adds t)) (adds s),
    removes = fold orset_step (om_entries (removes t)) (removes s)\<rparr>"
proof -
  have "\<exists>b. fold orset_merge_tags xs (m, c) = (fold orset_step xs m, b)" for xs m c
    by (metis orset_merge_tags_fst prod.collapse)
  then show ?thesis
    unfolding orset_merged_with_def orset_merge_def
    by (metis (no_types, lifting) case_prod_conv fst_conv)
qed

interpretation orset_crdt: state_crdt orset_merged_with "\<lambda>_. True"
proof unfold_locales
  fix a b c :: orset
  show "orset_merged_with a b = orset_merged_with b a"
    by (simp add: orset_merged_with_eq osemi.merge_commute [of "adds b"]
        osemi.merge_commute [of "removes b"])
  show "orset_merged_with (orset_merged_with a b) c = orset_merged_with a (orset_merged_with b c)"
    by (simp add: orset_merged_with_eq osemi.merge_assoc)
  show "orset_merged_with a a = a"
    by (simp add: orset_merged_with_eq osemi.merge_idem)
qed simp

lemma tags_of_merge: "tags_of (fold orset_step (om_entries n) m) e = tags_of m e \<union> tags_of n e"
  by (auto simp: tags_of_case osemi.merge_get split: option.splits)

lemma orset_merge_tags_flag:
  "distinct (map fst xs) \<Longrightarrow>
   snd (fold orset_merge_tags xs (m, b)) \<longleftrightarrow>
     b \<or> (\<exists>e ts. (e, ts) \<in> set xs \<and> \<not> os_set ts \<subseteq> tags_of m e)"
proof (induction xs arbitrary: m b)
  case (Cons x xs)
  obtain e ts where x: "x = (e, ts)" by (cases x)
  let ?m = "orset_step (e, ts) m" and ?b = "b \<or> \<not> os_set ts \<subseteq> tags_of m e"
  have "orset_merge_tags x (m, b) = (?m, ?b)"
    by (simp add: x orset_merge_tags_def orset_step_def os_extend_len tags_of_def Let_def)
  moreover have "tags_of ?m f = tags_of m f" if "(f, us) \<in> set xs" for f us
    using Cons.prems that x by (force simp: orset_step_def)
  then have "(\<exists>f us. (f, us) \<in> set xs \<and> \<not> os_set us \<subseteq> tags_of ?m f) \<longleftrightarrow>
      (\<exists>f us. (f, us) \<in> set xs \<and> \<not> os_set us \<subseteq> tags_of m f)"
    by metis
  moreover have "snd (fold orset_merge_tags xs (?m, ?b)) \<longleftrightarrow>
      ?b \<or> (\<exists>f us. (f, us) \<in> set xs \<and> \<not> os_set us \<subseteq> tags_of ?m f)"
    using Cons.prems by (intro Cons.IH) simp
  ultimately show ?case unfolding x by (simp only: fold_simps list.set insert_iff prod.inject) blast
qed simp

lemma orset_merge_flag:
  "snd (orset_merge s t) \<longleftrightarrow>
     (\<exists>e. \<not> tags_of (adds t) e \<subseteq> tags_of (adds s) e \<or> \<not> tags_of (removes t) e \<subseteq> tags_of (removes s) e)"
proof -
  let ?A = "fold orset_merge_tags (om_entries (adds t)) (adds s, False)"
  have "snd (orset_merge s t) =
      snd (fold orset_merge_tags (om_entries (removes t)) (removes s, snd ?A))"
    by (simp add: orset_merge_def case_prod_beta)
  moreover have "(\<exists>e ts. (e, ts) \<in> set (om_entries n) \<and> \<not> os_set ts \<subseteq> tags_of m e) \<longleftrightarrow>
      (\<exists>e. \<not> tags_of n e \<subseteq> tags_of m e)" for n m
    by (force simp: om_in_entries tags_of_case [of n] split: option.splits)
  ultimately show ?thesis by (auto simp: orset_merge_tags_flag)
qed

lemma os_extend_commute: "os_extend xs (os_extend ys s) = os_extend ys (os_extend xs s)"
  by (rule os_ext) auto

lemma orset_add_commute:
  "fst (orset_add e t (fst (orset_add f u s))) = fst (orset_add f u (fst (orset_add e t s)))"
proof (cases "e = f")
  case True
  have "om_insert t () (om_insert u () x) = om_insert u () (om_insert t () x)" for x
    by (rule os_ext) auto
  with True show ?thesis by (simp add: orset_add_state)
qed (simp add: orset_add_state om_insert_commute [of e f])

lemma orset_apply_remove_commute:
  "fst (orset_apply_remove e ts (fst (orset_apply_remove f us s))) =
   fst (orset_apply_remove f us (fst (orset_apply_remove e ts s)))"
  by (cases "e = f")
    (simp_all add: orset_apply_remove_state os_extend_commute [of ts us] om_insert_commute [of e f])

lemma orset_add_remove_commute:
  "fst (orset_add e t (fst (orset_apply_remove f us s))) =
   fst (orset_apply_remove f us (fst (orset_add e t s)))"
  by (simp add: orset_add_state orset_apply_remove_state)

lemma orset_deliver_commute: "orset_deliver a (orset_deliver b s) = orset_deliver b (orset_deliver a s)"
  by (cases a; cases b)
    (simp_all add: orset_apply_add_def orset_add_remove_commute orset_add_commute
      orset_apply_remove_commute)

interpretation orset_ops: op_crdt orset_deliver "\<lambda>_. True" "\<lambda>_. True"
  by unfold_locales (auto intro: orset_deliver_commute)

lemma orset_deliver_tags:
  "tags_of (adds (fold orset_deliver ks s)) e = tags_of (adds s) e \<union> added_tags ks e"
  "tags_of (removes (fold orset_deliver ks s)) e = tags_of (removes s) e \<union> removed_tags ks e"
proof (induction ks arbitrary: s)
  case (Cons k ks)
  {
    case 1
    show ?case using Cons(1) [of "orset_deliver k s"]
      by (cases k) (auto simp: added_tags_def orset_apply_add_def crdt_simps)
  next
    case 2
    show ?case using Cons(2) [of "orset_deliver k s"]
      by (cases k) (auto simp: removed_tags_def orset_apply_add_def crdt_simps)
  }
qed (simp_all add: added_tags_def removed_tags_def)

section \<open>Properties of the observed-remove set\<close>

text \<open>
  ORSet replicas converge without any assumption: the same add and remove operations in
  any order give equal sets, and so does merging the same set of states in any order.
\<close>

theorem orset_convergence:
  "(mset ks = mset ls \<longrightarrow> fold orset_deliver ks s = fold orset_deliver ls s)
   \<and> (insert s (set ss) = insert t (set ts) \<longrightarrow>
      fold (\<lambda>t s. orset_merged_with s t) ss s = fold (\<lambda>t s. orset_merged_with s t) ts t)"
  using orset_ops.delivery_order_irrelevant [where s = s and xs = ks and ys = ls]
    orset_crdt.gossip_converges [where s = s and s' = t and ts = ss and us = ts] by auto

theorem orset_convergence_witness:
  "fold orset_deliver [ORSetRemove ''k'' ''blue'' [''t''], ORSetAdd ''k'' ''blue'' ''t''] orset_new =
   fold orset_deliver [ORSetAdd ''k'' ''blue'' ''t'', ORSetRemove ''k'' ''blue'' [''t'']] orset_new"
  using orset_convergence
    [where ks = "[ORSetRemove ''k'' ''blue'' [''t''], ORSetAdd ''k'' ''blue'' ''t'']"
       and ls = "[ORSetAdd ''k'' ''blue'' ''t'', ORSetRemove ''k'' ''blue'' [''t'']]"
       and s = orset_new] by simp

text \<open>
  C9. Observed-remove semantics: after any operations in any order an element is in the set
  exactly when some add created a tag that no removal in the list observed, so a concurrent
  add survives a removal that did not see it; \<open>elements\<close> lists exactly those elements, in
  strictly ascending order.
\<close>

theorem orset_observed_remove:
  "(orset_contains (fold orset_deliver ks orset_new) e \<longleftrightarrow> added_tags ks e - removed_tags ks e \<noteq> {})
   \<and> set (orset_elements (fold orset_deliver ks orset_new)) =
       {e. added_tags ks e - removed_tags ks e \<noteq> {}}
   \<and> sorted_wrt (<) (orset_elements (fold orset_deliver ks orset_new))"
proof -
  have c: "orset_contains (fold orset_deliver ks orset_new) e \<longleftrightarrow>
      added_tags ks e - removed_tags ks e \<noteq> {}" for e
    by (simp add: orset_contains_iff orset_deliver_tags orset_new_def) blast
  have "sorted_wrt (<) (orset_elements s)" for s
    unfolding orset_elements_def by (rule sorted_wrt_filter) simp
  with c show ?thesis by (simp add: orset_elements_set)
qed

text \<open>
  A local \<open>remove\<close> hides the element and returns exactly the tags it observed, in the
  order of the set, and an add with a tag the removals have not seen makes the element visible again.
\<close>

theorem orset_remove_hides:
  "\<not> orset_contains (fst (orset_remove e s)) e
   \<and> snd (orset_remove e s) = orset_observed_tags s e
   \<and> set (snd (orset_remove e s)) = tags_of (adds s) e
   \<and> (t \<notin> tags_of (removes s) e \<longrightarrow> orset_contains (fst (orset_add e t s)) e)"
proof -
  have "fst (orset_remove e s) = fst (orset_apply_remove e (orset_observed_tags s e) s)"
    "snd (orset_remove e s) = orset_observed_tags s e"
    by (simp_all add: orset_remove_def orset_observed_tags_def Let_def)
  then show ?thesis
    by (auto simp: orset_contains_iff crdt_simps orset_observed_tags_set)
qed

theorem orset_remove_hides_witness:
  "orset_contains (fst (orset_add ''blue'' ''t2'' (fst (orset_remove ''blue''
     (fst (orset_add ''blue'' ''t1'' orset_new)))))) ''blue''"
proof -
  let ?s = "fst (orset_remove ''blue'' (fst (orset_add ''blue'' ''t1'' orset_new)))"
  have "''t2'' \<notin> tags_of (removes ?s) ''blue''" by code_simp
  then show ?thesis using orset_remove_hides [of "''blue''" ?s "''t2''"] by blast
qed

text \<open>
  \<open>merge\<close> returns true exactly when the other replica had a tag this one lacked; when it
  returns false no element's visibility changes.
\<close>

theorem orset_merge_reports_change:
  "(snd (orset_merge s t) \<longleftrightarrow>
      (\<exists>e. tags_of (adds (orset_merged_with s t)) e \<noteq> tags_of (adds s) e
         \<or> tags_of (removes (orset_merged_with s t)) e \<noteq> tags_of (removes s) e))
   \<and> (\<not> snd (orset_merge s t) \<longrightarrow> orset_elements (orset_merged_with s t) = orset_elements s)"
proof -
  have "sorted_wrt (<) (orset_elements s)" for s
    unfolding orset_elements_def by (rule sorted_wrt_filter) simp
  then have eqI: "orset_elements s = orset_elements s'" if "\<And>e. orset_contains s e = orset_contains s' e" for s s'
    by (intro strict_sorted_equal) (simp_all add: orset_elements_set that)
  have *: "(\<exists>e. tags_of (adds (orset_merged_with s t)) e \<noteq> tags_of (adds s) e
         \<or> tags_of (removes (orset_merged_with s t)) e \<noteq> tags_of (removes s) e) \<longleftrightarrow> snd (orset_merge s t)"
    unfolding orset_merge_flag by (simp add: orset_merged_with_eq tags_of_merge) blast
  moreover have "orset_elements (orset_merged_with s t) = orset_elements s" if "\<not> snd (orset_merge s t)"
    using that * by (intro eqI) (simp add: orset_contains_iff)
  ultimately show ?thesis by blast
qed

theorem orset_merge_reports_change_witness:
  "\<not> snd (orset_merge orset_new (fst (orset_remove ''blue'' orset_new)))
   \<and> orset_merged_with orset_new (fst (orset_remove ''blue'' orset_new)) \<noteq> orset_new
   \<and> orset_elements (orset_merged_with orset_new (fst (orset_remove ''blue'' orset_new)))
       = orset_elements orset_new"
proof -
  have "\<not> snd (orset_merge orset_new (fst (orset_remove ''blue'' orset_new)))" by code_simp
  moreover have "orset_merged_with orset_new (fst (orset_remove ''blue'' orset_new)) \<noteq> orset_new"
    by code_simp
  ultimately show ?thesis using orset_merge_reports_change by blast
qed

end
