(* ===== verification/Rga_Crdt.thy ===== *)
theory Rga_Crdt
  imports Crdt_Laws Sync_Op "HOL-Library.Option_ord"
begin

text \<open>
  \<open>nx-sync/src/crdt/rga.rs\<close>: the replicated growable array. Elements form a forest by their
  parent pointers (a parent that is not known yet counts as the head); the sequence is the
  depth-first traversal of the forest with children in identifier order, and deletion
  leaves a tombstone. An \<open>RgaElementId\<close> is a newtype over \<open>String\<close> with the derived order,
  modelled by the string itself.

  \<open>append_children\<close> recurses over the \<open>children\<close> table. The recursion gets fuel, and running
  out (\<open>None\<close>) stands for a recursion that does not return. One call more than there are
  elements is enough whenever the element stored under a key has that key as its
  identifier, an invariant of every operation (lemmas \<open>rga_wf_*\<close> and theorem
  \<open>rga_sequence_well_defined\<close>).
\<close>

section \<open>Rga\<close>

type_synonym rga_element_id = string

record rga_element =
  elem_id :: rga_element_id
  elem_parent :: "rga_element_id option"
  elem_value :: bytes

definition rga_element_new :: "rga_element_id \<Rightarrow> rga_element_id option \<Rightarrow> bytes \<Rightarrow> rga_element" where
  "rga_element_new i parent value = \<lparr>elem_id = i, elem_parent = parent, elem_value = value\<rparr>"

record rga =
  elements :: "(rga_element_id, rga_element) omap"
  tombstones :: "rga_element_id oset"

definition rga_new :: rga where
  "rga_new = \<lparr>elements = om_empty, tombstones = om_empty\<rparr>"

definition rga_insert :: "string \<Rightarrow> string option \<Rightarrow> bytes \<Rightarrow> rga \<Rightarrow> rga \<times> bool" where
  "rga_insert i parent value r =
     (if om_contains_key (elements r) i then (r, False)
      else (r\<lparr>elements := om_insert i (rga_element_new i parent value) (elements r)\<rparr>, True))"

definition rga_apply_insert :: "string \<Rightarrow> string option \<Rightarrow> bytes \<Rightarrow> rga \<Rightarrow> rga \<times> bool" where
  "rga_apply_insert i parent value r = rga_insert i parent value r"

definition rga_delete :: "string \<Rightarrow> rga \<Rightarrow> rga \<times> bool" where
  "rga_delete i r =
     (let (ts, fresh) = os_insert i (tombstones r) in (r\<lparr>tombstones := ts\<rparr>, fresh))"

definition rga_apply_delete :: "string \<Rightarrow> rga \<Rightarrow> rga \<times> bool" where
  "rga_apply_delete i r = rga_delete i r"

definition rga_contains :: "rga \<Rightarrow> string \<Rightarrow> bool" where
  "rga_contains r i = (om_contains_key (elements r) i \<and> \<not> os_member (tombstones r) i)"

type_synonym children_table = "(rga_element_id option, rga_element_id list) omap"

definition effective_parent ::
    "(rga_element_id, rga_element) omap \<Rightarrow> rga_element \<Rightarrow> rga_element_id option" where
  "effective_parent els element =
     (case elem_parent element of
        Some parent \<Rightarrow> if om_contains_key els parent then Some parent else None
      | None \<Rightarrow> None)"

definition push_child ::
    "(rga_element_id, rga_element) omap \<Rightarrow> rga_element \<Rightarrow> children_table \<Rightarrow> children_table" where
  "push_child els element table =
     (let parent = effective_parent els element
      in om_insert parent (om_get_or table parent [] @ [elem_id element]) table)"

definition children_of :: "(rga_element_id, rga_element) omap \<Rightarrow> children_table" where
  "children_of els = fold (push_child els) (om_values els) om_empty"

function (sequential) append_children ::
      "nat \<Rightarrow> rga_element_id option \<Rightarrow> children_table \<Rightarrow> (rga_element_id, rga_element) omap \<Rightarrow>
       rga_element list \<Rightarrow> rga_element list option"
    and append_each ::
      "nat \<Rightarrow> rga_element_id list \<Rightarrow> children_table \<Rightarrow> (rga_element_id, rga_element) omap \<Rightarrow>
       rga_element list \<Rightarrow> rga_element list option"
  where
  "append_children 0 parent table els out = None"
| "append_children (Suc fuel) parent table els out =
     (case om_get table parent of
        None \<Rightarrow> Some out
      | Some child_ids \<Rightarrow> append_each fuel child_ids table els out)"
| "append_each fuel [] table els out = Some out"
| "append_each fuel (child_id # child_ids) table els out =
     (case om_get els child_id of
        None \<Rightarrow> append_each fuel child_ids table els out
      | Some element \<Rightarrow>
          (case append_children fuel (Some child_id) table els (out @ [element]) of
             None \<Rightarrow> None
           | Some out' \<Rightarrow> append_each fuel child_ids table els out'))"
  by pat_completeness auto
termination
  by (relation "measures
      [\<lambda>x. case x of Inl (fuel, _) \<Rightarrow> fuel | Inr (fuel, _) \<Rightarrow> fuel,
       \<lambda>x. case x of Inl _ \<Rightarrow> 0 | Inr (_, ids, _) \<Rightarrow> Suc (length ids)]") auto

definition rga_ordered_elements :: "rga \<Rightarrow> rga_element list option" where
  "rga_ordered_elements r =
     append_children (Suc (om_len (elements r))) None (children_of (elements r)) (elements r) []"

definition rga_visible_elements :: "rga \<Rightarrow> rga_element list option" where
  "rga_visible_elements r =
     map_option (filter (\<lambda>e. \<not> os_member (tombstones r) (elem_id e))) (rga_ordered_elements r)"

definition rga_values :: "rga \<Rightarrow> bytes list option" where
  "rga_values r = map_option (map elem_value) (rga_visible_elements r)"

definition rga_ordered_ids :: "rga \<Rightarrow> string list option" where
  "rga_ordered_ids r = map_option (map elem_id) (rga_ordered_elements r)"

definition rga_merge_element ::
    "rga_element_id \<times> rga_element \<Rightarrow> (rga_element_id, rga_element) omap \<times> bool \<Rightarrow>
     (rga_element_id, rga_element) omap \<times> bool" where
  "rga_merge_element x acc =
     (if \<not> om_contains_key (fst acc) (fst x) then (om_insert (fst x) (snd x) (fst acc), True)
      else acc)"

definition rga_merge :: "rga \<Rightarrow> rga \<Rightarrow> rga \<times> bool" where
  "rga_merge r other =
     (let (els, changed) = fold rga_merge_element (om_entries (elements other)) (elements r, False);
          before = om_len (tombstones r);
          ts = os_extend (om_keys (tombstones other)) (tombstones r)
      in (\<lparr>elements = els, tombstones = ts\<rparr>, changed \<or> om_len ts \<noteq> before))"

definition rga_merged_with :: "rga \<Rightarrow> rga \<Rightarrow> rga" where
  "rga_merged_with r other = fst (rga_merge r other)"

section \<open>Specification\<close>

text \<open>
  Well-formed states: every element is stored under its own identifier. \<open>identified_by E\<close>:
  identifiers are globally unique, \<open>E\<close> being the element each one names.
\<close>

definition rga_wf :: "rga \<Rightarrow> bool" where
  "rga_wf r = list_all (\<lambda>(k, e). elem_id e = k) (om_entries (elements r))"

definition identified_by :: "(rga_element_id \<Rightarrow> rga_element) \<Rightarrow> rga \<Rightarrow> bool" where
  "identified_by E r = (\<forall>k e. om_get (elements r) k = Some e \<longrightarrow> e = E k)"

fun rga_deliver :: "op_kind \<Rightarrow> rga \<Rightarrow> rga" where
  "rga_deliver (RgaInsert _ i parent value) r = fst (rga_apply_insert i parent value r)"
| "rga_deliver (RgaDelete _ i) r = fst (rga_apply_delete i r)"
| "rga_deliver _ r = r"

definition insert_identified :: "(rga_element_id \<Rightarrow> rga_element) \<Rightarrow> op_kind \<Rightarrow> bool" where
  "insert_identified E k =
     (case k of RgaInsert _ i parent value \<Rightarrow> E i = rga_element_new i parent value | _ \<Rightarrow> True)"

text \<open>
  The forest: \<open>up\<close> is the effective parent of a key, \<open>climb n k\<close> its \<open>n\<close>-th ancestor
  (\<open>climb 0 k = Some k\<close>), and a key is rooted when climbing from it leaves the forest.
\<close>

definition up :: "(rga_element_id, rga_element) omap \<Rightarrow> rga_element_id \<Rightarrow> rga_element_id option" where
  "up els k = Option.bind (om_get els k) (effective_parent els)"

fun climb :: "(rga_element_id, rga_element) omap \<Rightarrow> nat \<Rightarrow> rga_element_id \<Rightarrow> rga_element_id option" where
  "climb els 0 k = Some k"
| "climb els (Suc n) k = Option.bind (climb els n k) (up els)"

definition rooted :: "(rga_element_id, rga_element) omap \<Rightarrow> rga_element_id \<Rightarrow> bool" where
  "rooted els k = (k \<in> dom (om_get els) \<and> (\<exists>n. climb els n k = None))"

text \<open>
  Every element's parent is at the head of the list segment or occurs before it, and
  siblings come in identifier order.
\<close>

definition parents_first ::
    "(rga_element_id, rga_element) omap \<Rightarrow> rga_element_id option \<Rightarrow> rga_element_id list \<Rightarrow> bool" where
  "parents_first els P ks =
     (\<forall>as k bs. ks = as @ k # bs \<longrightarrow> up els k = P \<or> (\<exists>p \<in> set as. up els k = Some p))"

definition siblings_ordered :: "(rga_element_id, rga_element) omap \<Rightarrow> rga_element_id list \<Rightarrow> bool" where
  "siblings_ordered els ks = (\<forall>P. sorted_wrt (<) (filter (\<lambda>k. up els k = P) ks))"

section \<open>Well-formedness and convergence\<close>

lemma rga_wf_iff: "rga_wf r \<longleftrightarrow> (\<forall>k e. om_get (elements r) k = Some e \<longrightarrow> elem_id e = k)"
  by (force simp: rga_wf_def list_all_iff om_in_entries [symmetric])

lemma rga_wf_new [simp]: "rga_wf rga_new"
  by (simp add: rga_wf_iff rga_new_def)

lemma rga_wf_insert: "rga_wf r \<Longrightarrow> rga_wf (fst (rga_insert i p v r))"
  by (auto simp: rga_wf_iff rga_insert_def rga_element_new_def)

lemma rga_delete_state:
  "fst (rga_delete i r) = r\<lparr>tombstones := om_insert i () (tombstones r)\<rparr>"
  by (simp add: rga_delete_def os_insert_def)

lemma rga_wf_delete: "rga_wf r \<Longrightarrow> rga_wf (fst (rga_delete i r))"
  by (simp add: rga_wf_iff rga_delete_state)

definition rga_step ::
    "rga_element_id \<times> rga_element \<Rightarrow> (rga_element_id, rga_element) omap \<Rightarrow> (rga_element_id, rga_element) omap"
  where
  "rga_step x m = (if om_contains_key m (fst x) then m else om_insert (fst x) (snd x) m)"

interpretation rmerge: pointwise_merge rga_step "\<lambda>v w. case v of None \<Rightarrow> w | Some e \<Rightarrow> e"
  by unfold_locales (auto simp: rga_step_def om_contains_key_def fun_eq_iff)

lemma rga_merge_element_fst:
  "fst (fold rga_merge_element xs (m, b)) = fold rga_step xs m"
proof (induction xs arbitrary: m b)
  case (Cons x xs)
  then show ?case by (cases "om_contains_key m (fst x)") (simp_all add: rga_merge_element_def rga_step_def)
qed simp

lemma rga_merged_with_eq:
  "rga_merged_with r q =
   \<lparr>elements = fold rga_step (om_entries (elements q)) (elements r),
    tombstones = os_extend (om_keys (tombstones q)) (tombstones r)\<rparr>"
  by (simp add: rga_merged_with_def rga_merge_def Let_def case_prod_beta rga_merge_element_fst)

lemma rga_merged_elements:
  "om_get (elements (rga_merged_with r q)) k =
     (case om_get (elements r) k of None \<Rightarrow> om_get (elements q) k | Some e \<Rightarrow> Some e)"
  by (simp add: rga_merged_with_eq rmerge.fold_entries_get split: option.split)

lemma rga_merged_tombstones:
  "os_set (tombstones (rga_merged_with r q)) = os_set (tombstones q) \<union> os_set (tombstones r)"
  by (simp add: rga_merged_with_eq)

lemma rga_wf_merge: "rga_wf r \<Longrightarrow> rga_wf q \<Longrightarrow> rga_wf (rga_merged_with r q)"
  by (auto simp: rga_wf_iff rga_merged_elements split: option.splits)

lemma rga_eqI:
  "(\<And>k. om_get (elements r) k = om_get (elements q) k) \<Longrightarrow>
   os_set (tombstones r) = os_set (tombstones q) \<Longrightarrow> r = (q :: rga)"
  by (intro rga.equality om_ext os_ext) auto

interpretation rga_crdt: state_crdt rga_merged_with "identified_by E" for E
proof unfold_locales
  fix a b c :: rga
  show "identified_by E (rga_merged_with a b)" if "identified_by E a" "identified_by E b"
    using that by (auto simp: identified_by_def rga_merged_elements split: option.splits)
  show "rga_merged_with a b = rga_merged_with b a" if "identified_by E a" "identified_by E b"
    using that
    by (intro rga_eqI) (auto simp: identified_by_def rga_merged_elements rga_merged_tombstones
        split: option.split)
  show "rga_merged_with (rga_merged_with a b) c = rga_merged_with a (rga_merged_with b c)"
    by (rule rga_eqI) (auto simp: rga_merged_elements rga_merged_tombstones split: option.split)
  show "rga_merged_with a a = a"
    by (rule rga_eqI) (auto simp: rga_merged_elements rga_merged_tombstones split: option.split)
qed

lemma rga_insert_elements:
  "om_get (elements (fst (rga_insert i p v r))) =
   (om_get (elements r))(i \<mapsto> (case om_get (elements r) i of None \<Rightarrow> rga_element_new i p v | Some e \<Rightarrow> e))"
  "tombstones (fst (rga_insert i p v r)) = tombstones r"
  by (auto simp: rga_insert_def om_contains_key_def fun_eq_iff)

lemma rga_deliver_identified:
  "identified_by E r \<Longrightarrow> insert_identified E k \<Longrightarrow> identified_by E (rga_deliver k r)"
  by (cases k) (auto simp: identified_by_def insert_identified_def rga_apply_insert_def
      rga_apply_delete_def rga_delete_state rga_insert_elements split: option.splits)

lemma rga_deliver_commute:
  assumes "identified_by E r" "insert_identified E a" "insert_identified E b"
  shows "rga_deliver a (rga_deliver b r) = rga_deliver b (rga_deliver a r)"
  using assms
  by (cases a; cases b; intro rga_eqI) (auto simp: identified_by_def insert_identified_def
      rga_apply_insert_def rga_apply_delete_def rga_delete_state rga_insert_elements
      split: option.splits)

interpretation rga_ops: op_crdt rga_deliver "identified_by E" "insert_identified E" for E
  by unfold_locales (auto intro: rga_deliver_identified rga_deliver_commute)

lemma rga_wf_deliver: "rga_wf r \<Longrightarrow> rga_wf (rga_deliver k r)"
  by (cases k) (simp_all add: rga_apply_insert_def rga_apply_delete_def rga_wf_insert rga_wf_delete)

lemma rga_wf_deliver_all: "rga_wf r \<Longrightarrow> rga_wf (fold rga_deliver ks r)"
  by (induction ks arbitrary: r) (simp_all add: rga_wf_deliver)

section \<open>The forest\<close>

abbreviation kids :: "(rga_element_id, rga_element) omap \<Rightarrow> rga_element_id option \<Rightarrow> rga_element_id list" where
  "kids els P \<equiv> filter (\<lambda>k. up els k = P) (om_keys els)"

lemma up_dom: "up els k = Some p \<Longrightarrow> k \<in> dom (om_get els) \<and> p \<in> dom (om_get els)"
  by (auto simp: up_def bind_eq_Some_conv effective_parent_def om_contains_key_def
      split: option.splits if_splits)

lemma climb_add: "climb els (m + n) k = Option.bind (climb els n k) (climb els m)"
proof (induction m)
  case 0
  show ?case by (cases "climb els n k") auto
next
  case (Suc m)
  then show ?case by (cases "climb els n k") auto
qed

lemma climb_dom: "climb els n k = Some p \<Longrightarrow> k \<in> dom (om_get els) \<Longrightarrow> p \<in> dom (om_get els)"
  by (induction n arbitrary: p) (auto simp: bind_eq_Some_conv dest: up_dom)

lemma climb_start_dom: "climb els (Suc n) k = Some p \<Longrightarrow> k \<in> dom (om_get els)"
  by (induction n arbitrary: p) (auto simp: bind_eq_Some_conv dest: up_dom)

definition has_depth :: "(rga_element_id, rga_element) omap \<Rightarrow> nat \<Rightarrow> rga_element_id \<Rightarrow> bool" where
  "has_depth els d k =
     (k \<in> dom (om_get els) \<and> climb els d k \<noteq> None \<and> climb els (Suc d) k = None)"

lemma climb_None_mono: "climb els n k = None \<Longrightarrow> n \<le> m \<Longrightarrow> climb els m k = None"
  using climb_add [of els "m - n" n k] by simp

lemma has_depth_unique: "has_depth els d k \<Longrightarrow> has_depth els e k \<Longrightarrow> d = e"
  unfolding has_depth_def by (metis climb_None_mono not_less_eq_eq nat_le_linear le_antisym)

lemma rooted_depth: "rooted els k \<longleftrightarrow> (\<exists>d. has_depth els d k)"
proof
  assume "rooted els k"
  then obtain n where n: "climb els n k = None" and k: "k \<in> dom (om_get els)" by (auto simp: rooted_def)
  define m where "m = (LEAST n. climb els n k = None)"
  have m: "climb els m k = None" unfolding m_def using n by (rule LeastI)
  then obtain d where d: "m = Suc d" by (cases m) auto
  have "climb els d k \<noteq> None"
    using not_less_Least [of d "\<lambda>n. climb els n k = None"] d by (simp add: m_def)
  with m d k show "\<exists>d. has_depth els d k" by (auto simp: has_depth_def)
qed (auto simp: has_depth_def rooted_def simp del: climb.simps)

lemma has_depth_climb:
  "has_depth els d c \<Longrightarrow> climb els i k = Some c \<Longrightarrow> has_depth els (d + i) k"
proof -
  assume d: "has_depth els d c" and c: "climb els i k = Some c"
  have "k \<in> dom (om_get els)"
    using d c by (cases i) (auto simp: has_depth_def simp del: climb.simps(2) dest: climb_start_dom)
  moreover have "climb els (d + i) k = climb els d c" "climb els (Suc d + i) k = climb els (Suc d) c"
    using climb_add [of els d i k] climb_add [of els "Suc d" i k] c by simp_all
  ultimately show ?thesis using d by (simp add: has_depth_def)
qed

lemma has_depth_kid:
  assumes "up els k = P" "k \<in> dom (om_get els)"
    and "P = None \<and> d = 0 \<or> (\<exists>c e. P = Some c \<and> has_depth els e c \<and> d = Suc e)"
  shows "has_depth els d k"
  using assms(3)
proof
  assume "P = None \<and> d = 0"
  then show ?thesis using assms by (simp add: has_depth_def)
next
  assume "\<exists>c e. P = Some c \<and> has_depth els e c \<and> d = Suc e"
  then obtain c e where c: "P = Some c" "has_depth els e c" "d = Suc e" by blast
  have "climb els 1 k = Some c" using assms c by simp
  from has_depth_climb [OF c(2) this] c show ?thesis by simp
qed

text \<open>Ancestors are distinct keys, so a depth is smaller than the number of elements.\<close>

lemma has_depth_bound: "has_depth els d k \<Longrightarrow> d < om_len els"
proof -
  assume h: "has_depth els d k"
  let ?f = "\<lambda>i. the (climb els i k)"
  have some: "climb els i k \<noteq> None" if "i \<le> d" for i
    using h climb_None_mono [of els i k d] that unfolding has_depth_def by metis
  have "?f i \<noteq> ?f j" if "i < j" "j \<le> d" for i j
  proof
    assume "?f i = ?f j"
    then have "climb els i k = climb els j k" using some [of i] some [of j] that by auto
    then have "climb els (Suc d - j + i) k = climb els (Suc d - j + j) k"
      by (simp only: climb_add)
    also have "\<dots> = None" using h that by (simp add: has_depth_def)
    finally have "climb els (Suc d - j + i) k = None" .
    moreover have "Suc d - j + i \<le> d" using that by linarith
    ultimately show False using some by blast
  qed
  then have "inj_on ?f {..d}"
    by (intro inj_onI) (metis atMost_iff linorder_neqE_nat)
  moreover have "?f ` {..d} \<subseteq> dom (om_get els)"
  proof
    fix x assume "x \<in> ?f ` {..d}"
    then obtain i where "i \<le> d" "x = ?f i" by auto
    then have "climb els i k = Some x" using some by auto
    with h climb_dom show "x \<in> dom (om_get els)" by (auto simp: has_depth_def)
  qed
  ultimately have "card {..d} \<le> card (dom (om_get els))" by (metis card_inj_on_le om_finite_dom)
  then show ?thesis by (simp add: om_len_card)
qed

text \<open>The keys below \<open>P\<close>: the rooted ones for the head, the descendants of a key otherwise.\<close>

definition below :: "(rga_element_id, rga_element) omap \<Rightarrow> rga_element_id option \<Rightarrow> rga_element_id set" where
  "below els P =
     (case P of None \<Rightarrow> {k. rooted els k} | Some c \<Rightarrow> {k. \<exists>i. climb els (Suc i) k = Some c})"

definition tree :: "(rga_element_id, rga_element) omap \<Rightarrow> rga_element_id \<Rightarrow> rga_element_id set" where
  "tree els c = {k. \<exists>i. climb els i k = Some c}"

lemma tree_split: "tree els c = insert c (below els (Some c))"
proof -
  have "(\<exists>i. climb els i k = Some c) \<longleftrightarrow> k = c \<or> (\<exists>i. climb els (Suc i) k = Some c)" for k
    by (metis climb.simps(1) not0_implies_Suc option.inject)
  then show ?thesis by (auto simp: tree_def below_def simp del: climb.simps)
qed

lemma below_trees: "below els P = (\<Union>c \<in> set (kids els P). tree els c)"
proof (cases P)
  case None
  have "rooted els k \<longleftrightarrow> (\<exists>i r. climb els i k = Some r \<and> r \<in> dom (om_get els) \<and> up els r = None)" for k
  proof
    assume "rooted els k"
    then obtain d where d: "has_depth els d k" by (auto simp: rooted_depth)
    then obtain r where r: "climb els d k = Some r" by (auto simp: has_depth_def)
    moreover have "r \<in> dom (om_get els)" using d r climb_dom by (auto simp: has_depth_def)
    moreover have "up els r = None" using d r by (simp add: has_depth_def)
    ultimately show "\<exists>i r. climb els i k = Some r \<and> r \<in> dom (om_get els) \<and> up els r = None"
      by blast
  next
    assume "\<exists>i r. climb els i k = Some r \<and> r \<in> dom (om_get els) \<and> up els r = None"
    then obtain i r where r: "climb els i k = Some r" "has_depth els 0 r"
      by (auto simp: has_depth_def)
    from has_depth_climb [OF r(2,1)] show "rooted els k" by (auto simp: rooted_depth)
  qed
  then have "below els P = {k. \<exists>r. r \<in> set (kids els P) \<and> (\<exists>i. climb els i k = Some r)}"
    using None by (simp add: below_def) blast
  then show ?thesis by (auto simp: tree_def)
next
  case (Some c)
  have "climb els (Suc i) k = Some c \<longleftrightarrow>
      (\<exists>r. climb els i k = Some r \<and> r \<in> dom (om_get els) \<and> up els r = Some c)" for i k
    using up_dom by (fastforce simp: bind_eq_Some_conv)
  then show ?thesis using Some by (auto simp: below_def tree_def simp del: climb.simps)
qed

lemma tree_depth: "has_depth els d c \<Longrightarrow> k \<in> tree els c \<Longrightarrow> \<exists>e \<ge> d. has_depth els e k \<and> (e = d \<longrightarrow> k = c)"
proof -
  assume d: "has_depth els d c" and "k \<in> tree els c"
  then obtain i where i: "climb els i k = Some c" by (auto simp: tree_def)
  with has_depth_climb [OF d i] show ?thesis
    by (intro exI [of _ "d + i"]) auto
qed

lemma below_deeper: "has_depth els d c \<Longrightarrow> k \<in> below els (Some c) \<Longrightarrow> \<exists>e > d. has_depth els e k"
proof -
  assume d: "has_depth els d c" and "k \<in> below els (Some c)"
  then obtain i where "climb els (Suc i) k = Some c" by (auto simp: below_def simp del: climb.simps)
  from has_depth_climb [OF d this] show ?thesis by (intro exI [of _ "d + Suc i"]) simp
qed

lemma tree_disjoint:
  assumes "has_depth els d c" "has_depth els d c'" "c \<noteq> c'"
  shows "tree els c \<inter> tree els c' = {}"
proof -
  have False if k: "climb els i k = Some c" "climb els j k = Some c'" for k i j
  proof -
    have "d + i = d + j"
      using has_depth_climb [OF assms(1) k(1)] has_depth_climb [OF assms(2) k(2)]
      by (rule has_depth_unique)
    with k assms(3) show False by simp
  qed
  then show ?thesis by (auto simp: tree_def)
qed

section \<open>The traversal\<close>

lemma children_fold:
  "om_get_or (fold (push_child els) es table) P [] =
   om_get_or table P [] @ map elem_id (filter (\<lambda>e. effective_parent els e = P) es)"
  by (induction es arbitrary: table) (auto simp: push_child_def Let_def)

lemma children_of_kids:
  assumes wf: "\<And>k e. om_get els k = Some e \<Longrightarrow> elem_id e = k"
  shows "om_get_or (children_of els) P [] = kids els P"
proof -
  have "\<forall>(k, e) \<in> set (om_entries els). elem_id e = k \<and> up els k = effective_parent els e"
    using wf by (auto simp: om_in_entries up_def)
  then have "map elem_id (filter (\<lambda>e. effective_parent els e = P) (map snd xs)) =
      filter (\<lambda>k. up els k = P) (map fst xs)" if "set xs \<subseteq> set (om_entries els)" for xs
    using that by (induction xs) auto
  then show ?thesis
    by (simp add: children_of_def children_fold om_values_def om_keys_def)
qed

text \<open>
  What a traversal below \<open>P\<close> returns: each key below \<open>P\<close> once, with its element, parents
  before children, and the children of each key it contains in key order.
\<close>

definition traverses ::
    "(rga_element_id, rga_element) omap \<Rightarrow> rga_element_id option \<Rightarrow> rga_element_id list \<Rightarrow>
     rga_element_id set \<Rightarrow> rga_element list \<Rightarrow> bool" where
  "traverses els P cs K es =
     (distinct (map elem_id es) \<and> set (map elem_id es) = K
      \<and> (\<forall>e \<in> set es. om_get els (elem_id e) = Some e)
      \<and> parents_first els P (map elem_id es)
      \<and> (\<forall>Q. filter (\<lambda>k. up els k = Q) (map elem_id es) =
            (if Q = P then cs else if Q \<in> Some ` K then kids els Q else [])))"

lemma parents_first_append:
  assumes "parents_first els P as" and "parents_first els Q bs"
    and "Q = P \<or> (\<exists>q \<in> set as. Q = Some q)"
  shows "parents_first els P (as @ bs)"
  unfolding parents_first_def
proof (intro allI impI)
  fix us k vs
  assume eq: "as @ bs = us @ k # vs"
  then consider ws where "as = us @ k # ws" | ws where "us = as @ ws" "bs = ws @ k # vs"
    by (auto simp: append_eq_append_conv2 append_eq_Cons_conv)
  then show "up els k = P \<or> (\<exists>p \<in> set us. up els k = Some p)"
  proof cases
    case 1
    then show ?thesis using assms(1) by (auto simp: parents_first_def)
  next
    case 2
    then show ?thesis using assms(2,3) by (auto simp: parents_first_def)
  qed
qed

lemma parents_first_single: "up els c = P \<Longrightarrow> parents_first els P [c]"
  by (auto simp: parents_first_def Cons_eq_append_conv)

lemma traverses_Cons:
  assumes P: "P = None \<and> d = 0 \<or> (\<exists>p e. P = Some p \<and> has_depth els e p \<and> d = Suc e)"
    and c: "up els c = P" "om_get els c = Some e" "elem_id e = c"
    and cs: "\<forall>x \<in> set cs. up els x = P \<and> x \<in> dom (om_get els)" "c \<notin> set cs"
    and ys: "traverses els (Some c) (kids els (Some c)) (below els (Some c)) ys"
    and zs: "traverses els P cs (\<Union>x \<in> set cs. tree els x) zs"
  shows "traverses els P (c # cs) (\<Union>x \<in> set (c # cs). tree els x) (e # ys @ zs)"
proof -
  have dc: "has_depth els d c" using c P by (intro has_depth_kid) auto
  have dx: "has_depth els d x" if "x \<in> set cs" for x using that cs P by (intro has_depth_kid) auto
  have disj: "tree els c \<inter> (\<Union>x \<in> set cs. tree els x) = {}"
    using tree_disjoint [OF dc dx] cs(2) by blast
  have deep: "c \<notin> below els (Some c)"
    using below_deeper [OF dc] has_depth_unique [OF dc] by blast
  have Pout: "P \<notin> Some ` (\<Union>x \<in> set (c # cs). tree els x)"
  proof
    assume "P \<in> Some ` (\<Union>x \<in> set (c # cs). tree els x)"
    then obtain x p where xp: "x \<in> set (c # cs)" "P = Some p" "p \<in> tree els x" by auto
    then obtain e where "d \<le> e" "has_depth els e p" using xp dc dx tree_depth [of els d x p] by auto
    moreover from P xp obtain e' where "has_depth els e' p" "d = Suc e'" by auto
    ultimately show False using has_depth_unique [of els e p e'] by simp
  qed
  have ids: "map elem_id (e # ys @ zs) = [c] @ map elem_id ys @ map elem_id zs" using c by simp
  have K: "set (map elem_id (e # ys @ zs)) = (\<Union>x \<in> set (c # cs). tree els x)"
    using c ys zs tree_split [of els c] by (auto simp: traverses_def)
  have "distinct (map elem_id (e # ys @ zs))"
    unfolding ids using ys zs disj deep tree_split [of els c] by (auto simp: traverses_def)
  moreover have "parents_first els P (map elem_id (e # ys @ zs))"
    unfolding ids append_assoc [symmetric]
  proof (rule parents_first_append [where Q = P])
    show "parents_first els P ([c] @ map elem_id ys)"
      using ys c by (intro parents_first_append [where Q = "Some c"] parents_first_single)
        (auto simp: traverses_def)
  qed (use zs in \<open>auto simp: traverses_def\<close>)
  moreover have "filter (\<lambda>k. up els k = Q) (map elem_id (e # ys @ zs)) =
      (if Q = P then c # cs else if Q \<in> Some ` (\<Union>x \<in> set (c # cs). tree els x) then kids els Q else [])" for Q
  proof -
    have fy: "filter (\<lambda>k. up els k = Q) (map elem_id ys) = (if Q \<in> Some ` tree els c then kids els Q else [])"
      using ys tree_split [of els c] by (auto simp: traverses_def)
    have fz: "filter (\<lambda>k. up els k = Q) (map elem_id zs) =
        (if Q = P then cs else if Q \<in> Some ` (\<Union>x \<in> set cs. tree els x) then kids els Q else [])"
      using zs by (auto simp: traverses_def)
    have U: "Q \<in> Some ` (\<Union>x \<in> set (c # cs). tree els x) \<longleftrightarrow>
        Q \<in> Some ` tree els c \<or> Q \<in> Some ` (\<Union>x \<in> set cs. tree els x)" by auto
    have one: "\<not> (Q \<in> Some ` tree els c \<and> Q \<in> Some ` (\<Union>x \<in> set cs. tree els x))"
      using disj by auto
    show ?thesis
      unfolding ids filter_append fy fz U using c one Pout U by auto
  qed
  ultimately show ?thesis
    unfolding traverses_def using K c ys zs by (auto simp: traverses_def)
qed

lemma traverse_list:
  assumes wf: "\<And>k e. om_get els k = Some e \<Longrightarrow> elem_id e = k"
    and P: "P = None \<and> d = 0 \<or> (\<exists>p e. P = Some p \<and> has_depth els e p \<and> d = Suc e)"
    and IH: "\<And>c out. has_depth els d c \<Longrightarrow>
      \<exists>es. append_children fuel (Some c) (children_of els) els out = Some (out @ es)
         \<and> traverses els (Some c) (kids els (Some c)) (below els (Some c)) es"
  shows "distinct cs \<Longrightarrow> \<forall>x \<in> set cs. up els x = P \<and> x \<in> dom (om_get els) \<Longrightarrow>
    \<exists>es. append_each fuel cs (children_of els) els out = Some (out @ es)
       \<and> traverses els P cs (\<Union>x \<in> set cs. tree els x) es"
proof (induction cs arbitrary: out)
  case Nil
  have "traverses els P [] {} []" by (simp add: traverses_def parents_first_def)
  then show ?case by auto
next
  case (Cons c cs)
  then obtain e where e: "om_get els c = Some e" and c: "up els c = P" by auto
  have "has_depth els d c" using c e P by (intro has_depth_kid) auto
  from IH [OF this, of "out @ [e]"] obtain ys where
    ys: "append_children fuel (Some c) (children_of els) els (out @ [e]) = Some ((out @ [e]) @ ys)"
      "traverses els (Some c) (kids els (Some c)) (below els (Some c)) ys" by blast
  obtain zs where
    zs: "append_each fuel cs (children_of els) els ((out @ [e]) @ ys) = Some (((out @ [e]) @ ys) @ zs)"
      "traverses els P cs (\<Union>x \<in> set cs. tree els x) zs"
    using Cons.IH Cons.prems by fastforce
  have "traverses els P (c # cs) (\<Union>x \<in> set (c # cs). tree els x) (e # ys @ zs)"
    using P c e wf [OF e] Cons.prems ys(2) zs(2) by (intro traverses_Cons [where d = d]) auto
  moreover have "append_each fuel (c # cs) (children_of els) els out = Some (out @ e # ys @ zs)"
    using e ys(1) zs(1) by simp
  ultimately show ?case by blast
qed

text \<open>Enough fuel for the depth of the call gives the whole traversal.\<close>

lemma traverse_children:
  assumes wf: "\<And>k e. om_get els k = Some e \<Longrightarrow> elem_id e = k"
    and P: "P = None \<and> d = 0 \<or> (\<exists>p e. P = Some p \<and> has_depth els e p \<and> d = Suc e)"
    and fuel: "om_len els < fuel + d"
  shows "\<exists>es. append_children fuel P (children_of els) els out = Some (out @ es)
    \<and> traverses els P (kids els P) (below els P) es"
  using P fuel
proof (induction fuel arbitrary: P d out)
  case 0
  then show ?case using has_depth_bound by fastforce
next
  case (Suc fuel)
  have IH: "\<exists>es. append_children fuel (Some c) (children_of els) els out = Some (out @ es)
      \<and> traverses els (Some c) (kids els (Some c)) (below els (Some c)) es"
    if "has_depth els d c" for c out
    using Suc.IH [of "Some c" "Suc d" out] Suc.prems that by auto
  have kids: "distinct (kids els P)" "\<forall>x \<in> set (kids els P). up els x = P \<and> x \<in> dom (om_get els)"
    by auto
  from traverse_list [OF wf Suc.prems(1) IH this, of out] obtain es where
    es: "append_each fuel (kids els P) (children_of els) els out = Some (out @ es)"
      "traverses els P (kids els P) (below els P) es"
    unfolding below_trees [symmetric] by blast
  have k: "om_get_or (children_of els) P [] = kids els P"
    using wf by (rule children_of_kids)
  have "append_children (Suc fuel) P (children_of els) els out = Some (out @ es)"
  proof (cases "om_get (children_of els) P")
    case None
    with k have "kids els P = []" by (simp add: om_get_or_def)
    with None es(1) show ?thesis by (simp only: append_children.simps append_each.simps option.case)
  next
    case (Some ids)
    with k have "ids = kids els P" by (simp add: om_get_or_def)
    with Some es(1) show ?thesis by simp
  qed
  with es(2) show ?case by blast
qed

lemma ordered_traverses:
  assumes "rga_wf r"
  obtains es where "rga_ordered_elements r = Some es"
    and "traverses (elements r) None (kids (elements r) None) {k. rooted (elements r) k} es"
proof -
  have "\<exists>es. append_children (Suc (om_len (elements r))) None (children_of (elements r)) (elements r) [] = Some ([] @ es)
    \<and> traverses (elements r) None (kids (elements r) None) (below (elements r) None) es"
    using assms by (intro traverse_children [where d = 0]) (auto simp: rga_wf_iff)
  then show thesis using that by (auto simp: rga_ordered_elements_def below_def)
qed

lemma traverses_siblings:
  "traverses els None (kids els None) K es \<Longrightarrow> siblings_ordered els (map elem_id es)"
  unfolding traverses_def siblings_ordered_def
  by (auto simp: sorted_wrt_filter)

text \<open>
  If identifiers can be ranked so that a parent is below its children (inserts name parents
  that were created before them), every element is rooted.
\<close>

lemma ranked_rooted:
  fixes rank :: "rga_element_id \<Rightarrow> nat"
  assumes rank: "\<And>k e p. om_get els k = Some e \<Longrightarrow> elem_parent e = Some p \<Longrightarrow> rank p < rank k"
    and k: "k \<in> dom (om_get els)"
  shows "rooted els k"
proof (rule ccontr)
  assume not: "\<not> rooted els k"
  have some: "climb els n k \<noteq> None" for n using not k by (auto simp: rooted_def)
  have up_rank: "rank p < rank j" if "up els j = Some p" for j p
    using that rank by (auto simp: up_def bind_eq_Some_conv effective_parent_def split: option.splits if_splits)
  have "n + rank (the (climb els n k)) \<le> rank k" for n
  proof (induction n)
    case (Suc n)
    obtain j where j: "climb els n k = Some j" using some [of n] by auto
    obtain p where p: "up els j = Some p" using some [of "Suc n"] j by auto
    show ?case using Suc up_rank [OF p] j p by simp
  qed simp
  from this [of "Suc (rank k)"] show False by simp
qed

section \<open>Properties of the replicated growable array\<close>

text \<open>
  C10. The sequence of an RGA is well defined: on every well-formed state the recursion
  returns, the result lists every element that is not caught in a cycle of parents exactly
  once and as it is stored, an element comes after the parent it was inserted after (or has
  none in the array), and siblings come in ascending identifier order.
\<close>

theorem rga_sequence_well_defined:
  assumes "rga_wf r"
  shows "\<exists>es. rga_ordered_elements r = Some es \<and> rga_ordered_ids r = Some (map elem_id es)
    \<and> distinct (map elem_id es) \<and> set (map elem_id es) = {k. rooted (elements r) k}
    \<and> (\<forall>e \<in> set es. om_get (elements r) (elem_id e) = Some e)
    \<and> parents_first (elements r) None (map elem_id es)
    \<and> siblings_ordered (elements r) (map elem_id es)"
proof -
  from assms obtain es where es: "rga_ordered_elements r = Some es"
    and t: "traverses (elements r) None (kids (elements r) None) {k. rooted (elements r) k} es"
    by (rule ordered_traverses)
  from traverses_siblings [OF t] t es show ?thesis
    by (intro exI [of _ es]) (simp add: traverses_def rga_ordered_ids_def)
qed

theorem rga_sequence_well_defined_witness:
  "rga_wf (fst (rga_insert ''b'' (Some ''a'') [2] (fst (rga_insert ''a'' None [1] rga_new))))
   \<and> rga_ordered_ids (fst (rga_insert ''b'' (Some ''a'') [2] (fst (rga_insert ''a'' None [1] rga_new))))
       = Some [''a'', ''b'']"
proof -
  let ?r = "fst (rga_insert ''b'' (Some ''a'') [2] (fst (rga_insert ''a'' None [1] rga_new)))"
  have wf: "rga_wf ?r" by code_simp
  have "rga_ordered_ids ?r = Some [''a'', ''b'']" by code_simp
  with wf rga_sequence_well_defined [OF wf] show ?thesis by blast
qed

text \<open>
  When every insert named a parent created before it, the sequence is a permutation of
  all the elements, the visible values are the values of the elements that have not been
  deleted, and an identifier is visible exactly when \<open>contains\<close> says so.
\<close>

theorem rga_sequence_complete:
  fixes rank :: "rga_element_id \<Rightarrow> nat"
  assumes wf: "rga_wf r"
    and rank: "\<forall>k e p. om_get (elements r) k = Some e \<and> elem_parent e = Some p \<longrightarrow> rank p < rank k"
  shows "\<exists>es. rga_ordered_elements r = Some es \<and> mset es = mset (om_values (elements r))
    \<and> rga_visible_elements r = Some (filter (\<lambda>e. elem_id e \<notin> os_set (tombstones r)) es)
    \<and> elem_id ` set (filter (\<lambda>e. elem_id e \<notin> os_set (tombstones r)) es) = {k. rga_contains r k}"
proof -
  from wf obtain es where es: "rga_ordered_elements r = Some es"
    and t: "traverses (elements r) None (kids (elements r) None) {k. rooted (elements r) k} es"
    by (rule ordered_traverses)
  have rooted: "{k. rooted (elements r) k} = dom (om_get (elements r))"
    using ranked_rooted [of "elements r" rank] rank by (auto simp: rooted_def)
  have "map elem_id (om_values (elements r)) = om_keys (elements r)"
    using wf by (auto simp: om_values_def om_keys_def rga_wf_iff om_in_entries)
  then have "distinct (map elem_id (om_values (elements r)))" by simp
  then have d: "distinct es" "distinct (om_values (elements r))"
    using t by (auto simp: traverses_def distinct_map)
  have lookup: "\<forall>e \<in> set es. om_get (elements r) (elem_id e) = Some e"
    and ids: "elem_id ` set es = dom (om_get (elements r))"
    using t rooted by (auto simp: traverses_def)
  have "set es = set (om_values (elements r))"
  proof
    show "set es \<subseteq> set (om_values (elements r))"
      using lookup by (force simp: om_values_def om_in_entries [symmetric])
    show "set (om_values (elements r)) \<subseteq> set es"
    proof
      fix e assume "e \<in> set (om_values (elements r))"
      then obtain k where k: "om_get (elements r) k = Some e" by (auto simp: om_values_def om_in_entries)
      then obtain e' where "e' \<in> set es" "elem_id e' = k" using ids by (metis domI imageE)
      with lookup k show "e \<in> set es" by auto
    qed
  qed
  with d have "mset es = mset (om_values (elements r))" by (simp add: set_eq_iff_mset_eq_distinct)
  moreover have "elem_id ` set (filter (\<lambda>e. elem_id e \<notin> os_set (tombstones r)) es) = {k. rga_contains r k}"
    using ids by (auto simp: rga_contains_def om_contains_key_iff image_iff)
  ultimately show ?thesis
    using es by (auto simp: rga_visible_elements_def)
qed

theorem rga_sequence_complete_witness:
  "rga_values (fst (rga_delete ''a'' (fst (rga_insert ''b'' (Some ''a'') [2] (fst (rga_insert ''a'' None [1] rga_new))))))
     = Some [[2]]"
proof -
  let ?r = "fst (rga_delete ''a'' (fst (rga_insert ''b'' (Some ''a'') [2] (fst (rga_insert ''a'' None [1] rga_new)))))"
  have wf: "rga_wf ?r" by code_simp
  have rank: "\<forall>k e p. om_get (elements ?r) k = Some e \<and> elem_parent e = Some p \<longrightarrow>
      (if p = ''a'' then 0 else 1) < (if k = ''a'' then 0 else (1 :: nat))"
    by (auto simp: rga_delete_state rga_insert_def rga_new_def rga_element_new_def om_contains_key_def
        split: if_splits)
  have "rga_values ?r = Some [[2]]" by code_simp
  with rga_sequence_complete [OF wf rank] show ?thesis by blast
qed

text \<open>
  RGA replicas converge when identifiers are globally unique (each one names one parent
  and one value): the same inserts and deletes in any order give equal arrays, hence equal
  sequences, and so does merging the same set of states in any order.
\<close>

theorem rga_convergence:
  assumes "\<forall>t \<in> insert r (set rs). identified_by E t" and "\<forall>k \<in> set ks. insert_identified E k"
  shows "(mset ks = mset ls \<longrightarrow> fold rga_deliver ks r = fold rga_deliver ls r)
    \<and> (insert r (set rs) = insert q (set qs) \<longrightarrow>
      fold (\<lambda>t s. rga_merged_with s t) rs r = fold (\<lambda>t s. rga_merged_with s t) qs q)"
proof (intro conjI impI)
  show "fold rga_deliver ks r = fold rga_deliver ls r" if "mset ks = mset ls"
    using assms that by (intro rga_ops.delivery_order_irrelevant [where E = E]) auto
  show "fold (\<lambda>t s. rga_merged_with s t) rs r = fold (\<lambda>t s. rga_merged_with s t) qs q"
    if same: "insert r (set rs) = insert q (set qs)"
  proof -
    have "\<forall>t \<in> insert q (set qs). identified_by E t" using assms same by simp
    with assms same show ?thesis by (intro rga_crdt.gossip_converges [where E = E]) auto
  qed
qed

theorem rga_convergence_witness:
  "fold rga_deliver [RgaInsert ''k'' ''b'' (Some ''a'') [2], RgaInsert ''k'' ''a'' None [1]] rga_new =
   fold rga_deliver [RgaInsert ''k'' ''a'' None [1], RgaInsert ''k'' ''b'' (Some ''a'') [2]] rga_new"
  by (rule rga_convergence [where rs = "[]" and
        E = "\<lambda>i. if i = ''a'' then rga_element_new ''a'' None [1] else rga_element_new ''b'' (Some ''a'') [2]",
      THEN conjunct1, THEN mp])
    (auto simp: identified_by_def rga_new_def insert_identified_def)

text \<open>
  An element whose parent chain is a cycle, such as an insert that names itself as its
  parent, is never listed, although \<open>contains\<close> reports it as existing and visible.
\<close>

theorem rga_parent_cycle_hidden:
  assumes wf: "rga_wf r" and p: "om_get (elements r) i = Some e" "elem_parent e = Some i"
    and live: "i \<notin> os_set (tombstones r)"
  shows "rga_contains r i \<and> (\<exists>es. rga_visible_elements r = Some es \<and> i \<notin> elem_id ` set es)"
proof -
  from wf obtain es where es: "rga_ordered_elements r = Some es"
    and t: "traverses (elements r) None (kids (elements r) None) {k. rooted (elements r) k} es"
    by (rule ordered_traverses)
  have "up (elements r) i = Some i"
    using p by (simp add: up_def effective_parent_def om_contains_key_def)
  then have "climb (elements r) n i = Some i" for n by (induction n) auto
  then have "\<not> rooted (elements r) i" by (simp add: rooted_def)
  then have "i \<notin> elem_id ` set es" using t by (auto simp: traverses_def)
  with es p live show ?thesis
    by (auto simp: rga_contains_def om_contains_key_def rga_visible_elements_def)
qed

theorem rga_parent_cycle_hidden_witness:
  "rga_contains (fst (rga_insert ''a'' (Some ''a'') [1] rga_new)) ''a''
   \<and> rga_values (fst (rga_insert ''a'' (Some ''a'') [1] rga_new)) = Some []"
proof -
  let ?r = "fst (rga_insert ''a'' (Some ''a'') [1] rga_new)"
  have wf: "rga_wf ?r" by code_simp
  have p: "om_get (elements ?r) ''a'' = Some (rga_element_new ''a'' (Some ''a'') [1])" by code_simp
  have l: "''a'' \<notin> os_set (tombstones ?r)" by code_simp
  have "rga_values ?r = Some []" by code_simp
  with rga_parent_cycle_hidden [OF wf p _ l] show ?thesis by (simp add: rga_element_new_def)
qed

end
