(* ===== verification/Sync_Storage.thy ===== *)
theory Sync_Storage
  imports Store_Keys Op_Tracking Counter_Crdt Lww_Crdt Orset_Crdt Rga_Crdt
begin

text \<open>
  \<open>sync_manager/storage.rs\<close>: encoding and decoding of durable values, hydration of the
  registries, of the seen-operation window and of the operation log from the store, and the
  atomic persistence of local and remote batches.

  \<open>serde_json\<close> is third-party: its encoders and decoders are a parameter, and \<open>serde_ok\<close>
  names what is relied on (decoding an encoded value gives it back, encoded text is UTF-8).
  A registry \<open>HashMap<String, T>\<close> is an ordered map.
\<close>

section \<open>Serialisation, as a parameter\<close>

record 'a codec =
  to_json :: "'a \<Rightarrow> string + string"
  from_json :: "string \<Rightarrow> string + 'a"

record serde =
  gcounter_codec :: "gcounter codec"
  pncounter_codec :: "pncounter codec"
  lww_register_codec :: "lww_register codec"
  lww_map_codec :: "lww_map codec"
  orset_codec :: "orset codec"
  rga_codec :: "rga codec"
  op_to_bytes :: "Op \<Rightarrow> string + bytes"
  op_from_bytes :: "bytes \<Rightarrow> string + Op"
  entries_to_vec :: "(string \<times> bytes) list \<Rightarrow> string + bytes"
  strings_to_vec :: "string list \<Rightarrow> string + bytes"
  values_to_vec :: "bytes list \<Rightarrow> string + bytes"

definition codec_ok :: "'a codec \<Rightarrow> bool" where
  "codec_ok c = (\<forall>x j. to_json c x = Inr j \<longrightarrow> from_json c j = Inr x \<and> utf8_valid (as_bytes j))"

definition serde_ok :: "serde \<Rightarrow> bool" where
  "serde_ok J = (codec_ok (gcounter_codec J) \<and> codec_ok (pncounter_codec J)
     \<and> codec_ok (lww_register_codec J) \<and> codec_ok (lww_map_codec J) \<and> codec_ok (orset_codec J)
     \<and> codec_ok (rga_codec J) \<and> (\<forall>x b. op_to_bytes J x = Inr b \<longrightarrow> op_from_bytes J b = Inr x))"

section \<open>Values\<close>

type_synonym 'a registry = "(string, 'a) omap"

text \<open>\<open>i64\<close> values are \<open>int\<close>; their bytes are those of the two's complement word.\<close>

definition i64_to_le_bytes :: "int \<Rightarrow> bytes" where
  "i64_to_le_bytes v = u64_to_le_bytes (of_int v)"

definition i64_from_le_bytes :: "bytes \<Rightarrow> int" where
  "i64_from_le_bytes bs = sint (u64_from_le_bytes bs)"

definition parse_seen_op_sequence :: "bytes \<Rightarrow> storage_error + u64" where
  "parse_seen_op_sequence bs =
     (if length bs \<noteq> 8 then Inl (InvalidLength ''seen OpId sequence'' (length bs))
      else Inr (u64_from_be_bytes bs))"

definition parse_materialized_gcounter_value :: "bytes \<Rightarrow> storage_error + u64" where
  "parse_materialized_gcounter_value bs =
     (if length bs \<noteq> 8 then Inl (InvalidLength ''materialized GCounter value'' (length bs))
      else Inr (u64_from_le_bytes bs))"

definition parse_materialized_pncounter_value :: "bytes \<Rightarrow> storage_error + int" where
  "parse_materialized_pncounter_value bs =
     (if length bs \<noteq> 8 then Inl (InvalidLength ''materialized PNCounter value'' (length bs))
      else Inr (i64_from_le_bytes bs))"

definition encode_durable_op_log_value :: "serde \<Rightarrow> u64 \<Rightarrow> Op \<Rightarrow> storage_error + bytes" where
  "encode_durable_op_log_value J sequence x =
     res_bind (map_err Json (op_to_bytes J x)) (\<lambda>op_bytes. Inr (u64_to_be_bytes sequence @ op_bytes))"

definition parse_durable_op_log_value :: "serde \<Rightarrow> bytes \<Rightarrow> storage_error + u64 \<times> Op" where
  "parse_durable_op_log_value J bs =
     (if length bs < 8 then Inl (InvalidLength ''op log value'' (length bs))
      else res_bind (map_err (InvalidJson ''durable op log'') (op_from_bytes J (drop 8 bs))) (\<lambda>x.
        Inr (u64_from_be_bytes (take 8 bs), x)))"

text \<open>\<open>std::str::from_utf8\<close>, then the decoder.\<close>

definition parse_durable :: "string \<Rightarrow> 'a codec \<Rightarrow> bytes \<Rightarrow> storage_error + 'a" where
  "parse_durable label c bs =
     (if \<not> utf8_valid bs then Inl (InvalidUtf8 (''durable '' @ label @ '' state''))
      else map_err (InvalidJson (''durable '' @ label)) (from_json c (string_of_bytes bs)))"

definition parse_durable_gcounter_state :: "serde \<Rightarrow> bytes \<Rightarrow> storage_error + gcounter" where
  "parse_durable_gcounter_state J = parse_durable ''GCounter'' (gcounter_codec J)"
definition parse_durable_pncounter_state :: "serde \<Rightarrow> bytes \<Rightarrow> storage_error + pncounter" where
  "parse_durable_pncounter_state J = parse_durable ''PNCounter'' (pncounter_codec J)"
definition parse_durable_lww_register_state :: "serde \<Rightarrow> bytes \<Rightarrow> storage_error + lww_register" where
  "parse_durable_lww_register_state J = parse_durable ''LWW-Register'' (lww_register_codec J)"
definition parse_durable_lww_map_state :: "serde \<Rightarrow> bytes \<Rightarrow> storage_error + lww_map" where
  "parse_durable_lww_map_state J = parse_durable ''LWW-Map'' (lww_map_codec J)"
definition parse_durable_orset_state :: "serde \<Rightarrow> bytes \<Rightarrow> storage_error + orset" where
  "parse_durable_orset_state J = parse_durable ''ORSet'' (orset_codec J)"
definition parse_durable_rga_state :: "serde \<Rightarrow> bytes \<Rightarrow> storage_error + rga" where
  "parse_durable_rga_state J = parse_durable ''RGA'' (rga_codec J)"

section \<open>Materialised values\<close>

type_synonym ('db, 'a) storage = "('db store, storage_error, 'a) stm"

definition put_value :: "bytes \<Rightarrow> bytes \<Rightarrow> ('db, unit) storage" where
  "put_value key value = st_map_err StoreFailure (store_set key value)"

definition materialize_gcounter_value :: "string \<Rightarrow> u64 \<Rightarrow> ('db, unit) storage" where
  "materialize_gcounter_value key value =
     put_value (materialized_gcounter_key key) (u64_to_le_bytes value)"
definition materialize_pncounter_value :: "string \<Rightarrow> int \<Rightarrow> ('db, unit) storage" where
  "materialize_pncounter_value key value =
     put_value (materialized_pncounter_key key) (i64_to_le_bytes value)"
definition materialize_lww_register_value :: "string \<Rightarrow> bytes \<Rightarrow> ('db, unit) storage" where
  "materialize_lww_register_value key value = put_value (materialized_lww_register_key key) value"
definition materialize_lww_map_entries :: "serde \<Rightarrow> string \<Rightarrow> (string \<times> bytes) list \<Rightarrow> ('db, unit) storage" where
  "materialize_lww_map_entries J key entries =
     st_bind (st_lift (map_err Json (entries_to_vec J entries))) (put_value (materialized_lww_map_key key))"
definition materialize_orset_elements :: "serde \<Rightarrow> string \<Rightarrow> string list \<Rightarrow> ('db, unit) storage" where
  "materialize_orset_elements J key els =
     st_bind (st_lift (map_err Json (strings_to_vec J els))) (put_value (materialized_orset_key key))"
definition materialize_rga_values :: "serde \<Rightarrow> string \<Rightarrow> bytes list \<Rightarrow> ('db, unit) storage" where
  "materialize_rga_values J key vals =
     st_bind (st_lift (map_err Json (values_to_vec J vals))) (put_value (materialized_rga_key key))"

text \<open>
  \<open>rga.values()\<close> does not return on an array whose stored identifiers disagree with its
  keys and close a cycle; it then exhausts the stack.
\<close>

definition rga_values_or_overflow :: "rga \<Rightarrow> storage_error + bytes list" where
  "rga_values_or_overflow r = (case rga_values r of None \<Rightarrow> Inl StackOverflow | Some vs \<Rightarrow> Inr vs)"

section \<open>Hydration\<close>

definition scan_table :: "string \<Rightarrow> ('db, (bytes \<times> bytes) list) storage" where
  "scan_table p st = (st, map_err StoreFailure (scan_prefix st (as_bytes p)))"

text \<open>
  The loop the six \<open>hydrate_durable_*_state\<close> functions share: a key or a value that does not
  parse is fatal, each state is materialised again and entered into the registry.
\<close>

definition hydrate_durable ::
    "crdt_kind \<Rightarrow> (bytes \<Rightarrow> storage_error + string) \<Rightarrow> (bytes \<Rightarrow> storage_error + 'a) \<Rightarrow>
     (string \<Rightarrow> 'a \<Rightarrow> ('db, unit) storage) \<Rightarrow> 'a registry \<Rightarrow> ('db, 'a registry \<times> nat) storage" where
  "hydrate_durable kind logical_key parse materialize reg =
     st_bind (scan_table (crdt_kind_prefix kind State)) (\<lambda>entries.
       st_fold (\<lambda>(store_key, value_bytes) (reg, hydrated).
         st_bind (st_lift (map_err (CorruptedKey (crdt_kind_label kind)) (logical_key store_key))) (\<lambda>key.
         st_bind (st_lift (map_err (CorruptedState (crdt_kind_label kind) key) (parse value_bytes))) (\<lambda>x.
         st_bind (materialize key x) (\<lambda>_.
         st_lift (Inr (om_insert key x reg, hydrated + 1))))))
       entries (reg, 0))"

definition hydrate_durable_gcounter_state ::
    "serde \<Rightarrow> gcounter registry \<Rightarrow> ('db, gcounter registry \<times> nat) storage" where
  "hydrate_durable_gcounter_state J =
     hydrate_durable GCounter logical_gcounter_state_key (parse_durable_gcounter_state J)
       (\<lambda>key counter. materialize_gcounter_value key (gcounter_value counter))"
definition hydrate_durable_pncounter_state ::
    "serde \<Rightarrow> pncounter registry \<Rightarrow> ('db, pncounter registry \<times> nat) storage" where
  "hydrate_durable_pncounter_state J =
     hydrate_durable PNCounter logical_pncounter_state_key (parse_durable_pncounter_state J)
       (\<lambda>key counter. materialize_pncounter_value key (pncounter_value counter))"
definition hydrate_durable_lww_register_state ::
    "serde \<Rightarrow> lww_register registry \<Rightarrow> ('db, lww_register registry \<times> nat) storage" where
  "hydrate_durable_lww_register_state J =
     hydrate_durable LwwRegister logical_lww_register_state_key (parse_durable_lww_register_state J)
       (\<lambda>key register. materialize_lww_register_value key (reg_value register))"
definition hydrate_durable_lww_map_state ::
    "serde \<Rightarrow> lww_map registry \<Rightarrow> ('db, lww_map registry \<times> nat) storage" where
  "hydrate_durable_lww_map_state J =
     hydrate_durable LwwMap logical_lww_map_state_key (parse_durable_lww_map_state J)
       (\<lambda>key m. materialize_lww_map_entries J key (lww_map_entries m))"
definition hydrate_durable_orset_state ::
    "serde \<Rightarrow> orset registry \<Rightarrow> ('db, orset registry \<times> nat) storage" where
  "hydrate_durable_orset_state J =
     hydrate_durable ORSet logical_orset_state_key (parse_durable_orset_state J)
       (\<lambda>key s. materialize_orset_elements J key (orset_elements s))"
definition hydrate_durable_rga_state ::
    "serde \<Rightarrow> rga registry \<Rightarrow> ('db, rga registry \<times> nat) storage" where
  "hydrate_durable_rga_state J =
     hydrate_durable Rga logical_rga_state_key (parse_durable_rga_state J)
       (\<lambda>key r. st_bind (st_lift (rga_values_or_overflow r)) (materialize_rga_values J key))"

text \<open>Materialised counters without a durable state become this node's contribution.\<close>

definition adopt_gcounter ::
    "node_id \<Rightarrow> bytes \<times> bytes \<Rightarrow> gcounter registry \<times> nat \<Rightarrow> gcounter registry \<times> nat" where
  "adopt_gcounter node entry acc =
     (case (entry, acc) of ((store_key, value_bytes), (reg, hydrated)) \<Rightarrow>
        (case logical_gcounter_key store_key of
           Inl _ \<Rightarrow> acc
         | Inr key \<Rightarrow>
             (case parse_materialized_gcounter_value value_bytes of
                Inl _ \<Rightarrow> acc
              | Inr value \<Rightarrow>
                  if om_contains_key reg key then acc
                  else (om_insert key (gcounter_increment node value gcounter_new) reg, hydrated + 1))))"

definition hydrate_materialized_gcounter_values ::
    "node_id \<Rightarrow> gcounter registry \<Rightarrow> ('db, gcounter registry \<times> nat) storage" where
  "hydrate_materialized_gcounter_values node reg =
     st_bind (scan_table GCOUNTER_STORE_PREFIX) (\<lambda>entries.
       st_lift (Inr (fold (adopt_gcounter node) entries (reg, 0))))"

definition adopt_pncounter ::
    "node_id \<Rightarrow> bytes \<times> bytes \<Rightarrow> pncounter registry \<times> nat \<Rightarrow> pncounter registry \<times> nat" where
  "adopt_pncounter node entry acc =
     (case (entry, acc) of ((store_key, value_bytes), (reg, hydrated)) \<Rightarrow>
        (case logical_pncounter_key store_key of
           Inl _ \<Rightarrow> acc
         | Inr key \<Rightarrow>
             (case parse_materialized_pncounter_value value_bytes of
                Inl _ \<Rightarrow> acc
              | Inr value \<Rightarrow>
                  if om_contains_key reg key then acc
                  else
                    let counter =
                      (if value \<ge> 0 then pncounter_increment node (of_int value) pncounter_new
                       else pncounter_decrement node (of_int \<bar>value\<bar>) pncounter_new)
                    in (om_insert key counter reg, hydrated + 1))))"

definition hydrate_materialized_pncounter_values ::
    "node_id \<Rightarrow> pncounter registry \<Rightarrow> ('db, pncounter registry \<times> nat) storage" where
  "hydrate_materialized_pncounter_values node reg =
     st_bind (scan_table PNCOUNTER_STORE_PREFIX) (\<lambda>entries.
       st_lift (Inr (fold (adopt_pncounter node) entries (reg, 0))))"

text \<open>The registry functions return the registry and its size.\<close>

definition hydrate_gcounter_registry ::
    "serde \<Rightarrow> node_id \<Rightarrow> gcounter registry \<Rightarrow> ('db, gcounter registry \<times> nat) storage" where
  "hydrate_gcounter_registry J node reg =
     st_bind (hydrate_durable_gcounter_state J reg) (\<lambda>(reg, _).
     st_bind (hydrate_materialized_gcounter_values node reg) (\<lambda>(reg, _).
     st_lift (Inr (reg, om_len reg))))"
definition hydrate_pncounter_registry ::
    "serde \<Rightarrow> node_id \<Rightarrow> pncounter registry \<Rightarrow> ('db, pncounter registry \<times> nat) storage" where
  "hydrate_pncounter_registry J node reg =
     st_bind (hydrate_durable_pncounter_state J reg) (\<lambda>(reg, _).
     st_bind (hydrate_materialized_pncounter_values node reg) (\<lambda>(reg, _).
     st_lift (Inr (reg, om_len reg))))"
definition hydrate_lww_register_registry ::
    "serde \<Rightarrow> lww_register registry \<Rightarrow> ('db, lww_register registry \<times> nat) storage" where
  "hydrate_lww_register_registry J reg =
     st_bind (hydrate_durable_lww_register_state J reg) (\<lambda>(reg, _). st_lift (Inr (reg, om_len reg)))"
definition hydrate_lww_map_registry ::
    "serde \<Rightarrow> lww_map registry \<Rightarrow> ('db, lww_map registry \<times> nat) storage" where
  "hydrate_lww_map_registry J reg =
     st_bind (hydrate_durable_lww_map_state J reg) (\<lambda>(reg, _). st_lift (Inr (reg, om_len reg)))"
definition hydrate_orset_registry ::
    "serde \<Rightarrow> orset registry \<Rightarrow> ('db, orset registry \<times> nat) storage" where
  "hydrate_orset_registry J reg =
     st_bind (hydrate_durable_orset_state J reg) (\<lambda>(reg, _). st_lift (Inr (reg, om_len reg)))"
definition hydrate_rga_registry ::
    "serde \<Rightarrow> rga registry \<Rightarrow> ('db, rga registry \<times> nat) storage" where
  "hydrate_rga_registry J reg =
     st_bind (hydrate_durable_rga_state J reg) (\<lambda>(reg, _). st_lift (Inr (reg, om_len reg)))"

section \<open>Evictions and batches\<close>

definition write_batch :: "(bytes \<times> bytes) list \<Rightarrow> bytes list \<Rightarrow> ('db, unit) storage" where
  "write_batch sets deletes = st_map_err StoreFailure (store_apply_batch sets deletes)"

definition collect_seen_delete_keys :: "string list \<Rightarrow> bytes list" where
  "collect_seen_delete_keys evicted = map seen_op_store_key evicted"

definition collect_op_log_delete_keys :: "Op list \<Rightarrow> bytes list" where
  "collect_op_log_delete_keys evicted = map (\<lambda>x. op_log_store_key (op_key x)) evicted"

definition persist_seen_op_batch :: "string \<Rightarrow> u64 \<Rightarrow> string list \<Rightarrow> ('db, unit) storage" where
  "persist_seen_op_batch i sequence evicted =
     write_batch [(seen_op_store_key i, u64_to_be_bytes sequence)] (map seen_op_store_key evicted)"

definition persist_seen_op_evictions :: "string list \<Rightarrow> ('db, unit) storage" where
  "persist_seen_op_evictions evicted =
     (if evicted = [] then st_lift (Inr ())
      else write_batch [] (map seen_op_store_key evicted))"

definition persist_op_log_evictions :: "Op list \<Rightarrow> ('db, unit) storage" where
  "persist_op_log_evictions evicted =
     (if evicted = [] then st_lift (Inr ())
      else write_batch [] (collect_op_log_delete_keys evicted))"

definition seen_entry ::
    "bytes \<times> bytes \<Rightarrow> (u64 \<times> string) list \<times> u64 \<Rightarrow> (u64 \<times> string) list \<times> u64" where
  "seen_entry entry acc =
     (case (entry, acc) of ((store_key, value_bytes), (ordered, next_sequence)) \<Rightarrow>
        (case logical_seen_op_id store_key of
           Inl _ \<Rightarrow> acc
         | Inr i \<Rightarrow>
             (case parse_seen_op_sequence value_bytes of
                Inl _ \<Rightarrow> acc
              | Inr sequence \<Rightarrow>
                  (ordered @ [(sequence, i)], max next_sequence (saturating_add sequence 1)))))"

definition seen_reinsert :: "u64 \<times> string \<Rightarrow> seen_ops \<times> string list \<Rightarrow> seen_ops \<times> string list" where
  "seen_reinsert e acc =
     (case acc of (seen, evicted) \<Rightarrow>
        (case seen_ops_insert (snd e) seen of
           (seen', Inserted evicted_ids) \<Rightarrow> (seen', evicted @ evicted_ids)
         | (seen', AlreadySeen) \<Rightarrow> (seen', evicted)))"

definition hydrate_seen_ops :: "nat \<Rightarrow> ('db, seen_ops \<times> u64) storage" where
  "hydrate_seen_ops limit =
     (let limit = normalize_seen_ops_limit limit
      in st_bind (scan_table SEEN_OP_STORE_PREFIX) (\<lambda>entries.
         case fold seen_entry entries ([], 0) of (ordered, next_sequence) \<Rightarrow>
         case fold seen_reinsert (sort_key fst ordered) (seen_ops_new limit, []) of (seen, evicted) \<Rightarrow>
         st_bind (persist_seen_op_evictions evicted) (\<lambda>_. st_lift (Inr (seen, next_sequence)))))"

definition op_log_entry ::
    "serde \<Rightarrow> bytes \<times> bytes \<Rightarrow> (u64 \<times> Op) list \<times> u64 \<Rightarrow> (u64 \<times> Op) list \<times> u64" where
  "op_log_entry J entry acc =
     (case (entry, acc) of ((store_key, value_bytes), (ordered, next_sequence)) \<Rightarrow>
        (case logical_op_log_id store_key of
           Inl _ \<Rightarrow> acc
         | Inr i \<Rightarrow>
             (case parse_durable_op_log_value J value_bytes of
                Inl _ \<Rightarrow> acc
              | Inr (sequence, x) \<Rightarrow>
                  if op_key x \<noteq> i then acc
                  else (ordered @ [(sequence, x)], max next_sequence (saturating_add sequence 1)))))"

definition hydrate_op_log :: "serde \<Rightarrow> nat \<Rightarrow> ('db, Op list \<times> u64) storage" where
  "hydrate_op_log J limit =
     (let limit = normalize_op_log_limit limit
      in st_bind (scan_table OP_LOG_STORE_PREFIX) (\<lambda>entries.
         case fold (op_log_entry J) entries ([], 0) of (ordered, next_sequence) \<Rightarrow>
         case prune_op_log_and_return_evicted (map snd (sort_key fst ordered)) limit of (log, evicted) \<Rightarrow>
         st_bind (persist_op_log_evictions evicted) (\<lambda>_. st_lift (Inr (log, next_sequence)))))"

text \<open>The bytes materialised for a state, as the \<open>persist_*\<close> functions compute them.\<close>

definition gcounter_materialized :: "gcounter \<Rightarrow> storage_error + bytes" where
  "gcounter_materialized c = Inr (u64_to_le_bytes (gcounter_value c))"
definition pncounter_materialized :: "pncounter \<Rightarrow> storage_error + bytes" where
  "pncounter_materialized c = Inr (i64_to_le_bytes (pncounter_value c))"
definition lww_register_materialized :: "lww_register \<Rightarrow> storage_error + bytes" where
  "lww_register_materialized r = Inr (reg_value r)"
definition lww_map_materialized :: "serde \<Rightarrow> lww_map \<Rightarrow> storage_error + bytes" where
  "lww_map_materialized J m = map_err Json (entries_to_vec J (lww_map_entries m))"
definition orset_materialized :: "serde \<Rightarrow> orset \<Rightarrow> storage_error + bytes" where
  "orset_materialized J s = map_err Json (strings_to_vec J (orset_elements s))"
definition rga_materialized :: "serde \<Rightarrow> rga \<Rightarrow> storage_error + bytes" where
  "rga_materialized J r =
     res_bind (rga_values_or_overflow r) (\<lambda>vals. map_err Json (values_to_vec J vals))"

text \<open>The two entries of a state: its JSON and its materialised value.\<close>

definition state_sets ::
    "crdt_kind \<Rightarrow> 'a codec \<Rightarrow> ('a \<Rightarrow> storage_error + bytes) \<Rightarrow> string \<Rightarrow> 'a \<Rightarrow>
     storage_error + (bytes \<times> bytes) list" where
  "state_sets kind c materialized key x =
     res_bind (map_err Json (to_json c x)) (\<lambda>state_json.
     res_bind (materialized x) (\<lambda>materialized_value.
     Inr [(crdt_store_key kind State key, as_bytes state_json),
          (crdt_store_key kind Materialized key, materialized_value)]))"

definition persist_state ::
    "crdt_kind \<Rightarrow> 'a codec \<Rightarrow> ('a \<Rightarrow> storage_error + bytes) \<Rightarrow> string \<Rightarrow> 'a \<Rightarrow> ('db, unit) storage" where
  "persist_state kind c materialized key x =
     st_bind (st_lift (state_sets kind c materialized key x)) (\<lambda>sets. write_batch sets [])"

definition persist_gcounter_state :: "serde \<Rightarrow> string \<Rightarrow> gcounter \<Rightarrow> ('db, unit) storage" where
  "persist_gcounter_state J = persist_state GCounter (gcounter_codec J) gcounter_materialized"
definition persist_pncounter_state :: "serde \<Rightarrow> string \<Rightarrow> pncounter \<Rightarrow> ('db, unit) storage" where
  "persist_pncounter_state J = persist_state PNCounter (pncounter_codec J) pncounter_materialized"
definition persist_lww_register_state :: "serde \<Rightarrow> string \<Rightarrow> lww_register \<Rightarrow> ('db, unit) storage" where
  "persist_lww_register_state J =
     persist_state LwwRegister (lww_register_codec J) lww_register_materialized"
definition persist_lww_map_state :: "serde \<Rightarrow> string \<Rightarrow> lww_map \<Rightarrow> ('db, unit) storage" where
  "persist_lww_map_state J = persist_state LwwMap (lww_map_codec J) (lww_map_materialized J)"
definition persist_orset_state :: "serde \<Rightarrow> string \<Rightarrow> orset \<Rightarrow> ('db, unit) storage" where
  "persist_orset_state J = persist_state ORSet (orset_codec J) (orset_materialized J)"
definition persist_rga_state :: "serde \<Rightarrow> string \<Rightarrow> rga \<Rightarrow> ('db, unit) storage" where
  "persist_rga_state J = persist_state Rga (rga_codec J) (rga_materialized J)"

text \<open>The sets and deletes of a plan, pushed onto those collected so far.\<close>

definition push_plan ::
    "serde \<Rightarrow> op_persistence_plan \<Rightarrow> (bytes \<times> bytes) list \<times> bytes list \<Rightarrow>
     storage_error + (bytes \<times> bytes) list \<times> bytes list" where
  "push_plan J plan acc =
     (case acc of (sets, deletes) \<Rightarrow>
        res_bind (encode_durable_op_log_value J (op_log_sequence plan) (plan_op plan)) (\<lambda>log_value.
          Inr (sets @ [(seen_op_store_key (op_key (plan_op plan)), u64_to_be_bytes (seen_sequence plan)),
                       (op_log_store_key (op_key (plan_op plan)), log_value)],
               deletes @ collect_seen_delete_keys (seen_evicted plan)
                 @ collect_op_log_delete_keys (op_log_evicted plan))))"

definition persist_local_ops_batch :: "serde \<Rightarrow> op_persistence_plan list \<Rightarrow> ('db, unit) storage" where
  "persist_local_ops_batch J plans =
     (if plans = [] then st_lift (Inr ())
      else st_bind (st_lift (fold_res (push_plan J) plans ([], []))) (\<lambda>(sets, deletes).
        write_batch sets deletes))"

text \<open>\<open>RemoteCrdtRegistries\<close>, \<open>RemoteCrdtUpdates\<close> and \<open>RemoteCrdtUpdateBatch\<close>.\<close>

record registries =
  counters :: "gcounter registry"
  pncounters :: "pncounter registry"
  lww_registers :: "lww_register registry"
  lww_maps :: "lww_map registry"
  orsets :: "orset registry"
  rgas :: "rga registry"

definition no_updates :: registries where
  "no_updates = \<lparr>counters = om_empty, pncounters = om_empty, lww_registers = om_empty,
     lww_maps = om_empty, orsets = om_empty, rgas = om_empty\<rparr>"

text \<open>One of the six loops over the changed keys, in key order.\<close>

definition push_states ::
    "crdt_kind \<Rightarrow> 'a codec \<Rightarrow> ('a \<Rightarrow> storage_error + bytes) \<Rightarrow> 'a registry \<Rightarrow>
     (bytes \<times> bytes) list \<Rightarrow> storage_error + (bytes \<times> bytes) list" where
  "push_states kind c materialized updates sets =
     fold_res (\<lambda>(key, x) sets. res_bind (state_sets kind c materialized key x) (\<lambda>new. Inr (sets @ new)))
       (om_entries updates) sets"

definition update_sets :: "serde \<Rightarrow> registries \<Rightarrow> storage_error + (bytes \<times> bytes) list" where
  "update_sets J updates =
     res_bind (push_states GCounter (gcounter_codec J) gcounter_materialized (counters updates) []) (\<lambda>sets.
     res_bind (push_states PNCounter (pncounter_codec J) pncounter_materialized (pncounters updates) sets) (\<lambda>sets.
     res_bind (push_states LwwRegister (lww_register_codec J) lww_register_materialized (lww_registers updates) sets) (\<lambda>sets.
     res_bind (push_states LwwMap (lww_map_codec J) (lww_map_materialized J) (lww_maps updates) sets) (\<lambda>sets.
     res_bind (push_states ORSet (orset_codec J) (orset_materialized J) (orsets updates) sets) (\<lambda>sets.
     push_states Rga (rga_codec J) (rga_materialized J) (rgas updates) sets)))))"

definition persist_remote_ops_batch ::
    "serde \<Rightarrow> op_persistence_plan list \<Rightarrow> registries \<Rightarrow> ('db, unit) storage" where
  "persist_remote_ops_batch J plans updates =
     (if plans = [] then st_lift (Inr ())
      else st_bind (st_lift (update_sets J updates)) (\<lambda>sets.
        st_bind (st_lift (fold_res (push_plan J) plans (sets, []))) (\<lambda>(sets, deletes).
        write_batch sets deletes)))"

text \<open>The hydration of the six registries, as the constructor of \<open>SyncManager\<close> runs it.\<close>

definition hydrate_registries :: "serde \<Rightarrow> node_id \<Rightarrow> ('db, registries) storage" where
  "hydrate_registries J node =
     st_bind (hydrate_gcounter_registry J node om_empty) (\<lambda>(cs, _).
     st_bind (hydrate_pncounter_registry J node om_empty) (\<lambda>(ps, _).
     st_bind (hydrate_lww_register_registry J om_empty) (\<lambda>(rs, _).
     st_bind (hydrate_lww_map_registry J om_empty) (\<lambda>(ms, _).
     st_bind (hydrate_orset_registry J om_empty) (\<lambda>(ss, _).
     st_bind (hydrate_rga_registry J om_empty) (\<lambda>(gs, _).
     st_lift (Inr \<lparr>counters = cs, pncounters = ps, lww_registers = rs, lww_maps = ms,
       orsets = ss, rgas = gs\<rparr>)))))))"

end
