(* ===== verification/Storage_Recovery.thy ===== *)
theory Storage_Recovery
  imports Sync_Storage
begin

text \<open>
  What the durable contents of the store say about the state in memory, and the two halves
  of recovery: a batch that \<open>persist_remote_ops_batch\<close> commits makes the contents represent
  the updated registries, and hydration from contents that represent registries returns
  exactly them. The six CRDT tables share one proof, the locale \<open>crdt_table\<close>, interpreted on
  the functions of each kind.
\<close>

section \<open>Contents that represent a registry\<close>

text \<open>The bytes stored for a state in each namespace.\<close>

definition encode_state ::
    "'a codec \<Rightarrow> ('a \<Rightarrow> storage_error + bytes) \<Rightarrow> crdt_store_namespace \<Rightarrow> 'a \<Rightarrow> storage_error + bytes" where
  "encode_state c mat ns x =
     (case ns of
        State \<Rightarrow> res_bind (map_err Json (to_json c x)) (\<lambda>j. Inr (as_bytes j))
      | Materialized \<Rightarrow> mat x)"

text \<open>Every key of a registry is a string and every state in it can be encoded.\<close>

definition storable :: "'a codec \<Rightarrow> ('a \<Rightarrow> storage_error + bytes) \<Rightarrow> 'a registry \<Rightarrow> bool" where
  "storable c mat reg = (\<forall>key x. om_get reg key = Some x \<longrightarrow>
     utf8_valid (as_bytes key) \<and> (\<forall>ns. \<exists>v. encode_state c mat ns x = Inr v))"

text \<open>Under the two prefixes of a kind the contents hold the registry and nothing else.\<close>

definition table_holds ::
    "crdt_kind \<Rightarrow> 'a codec \<Rightarrow> ('a \<Rightarrow> storage_error + bytes) \<Rightarrow> contents \<Rightarrow> 'a registry \<Rightarrow> bool" where
  "table_holds kind c mat m reg =
     (storable c mat reg
      \<and> (\<forall>ns k v. starts_with k (as_bytes (crdt_kind_prefix kind ns)) \<longrightarrow>
          (om_get m k = Some v \<longleftrightarrow>
             (\<exists>key x. k = crdt_store_key kind ns key \<and> om_get reg key = Some x
                \<and> encode_state c mat ns x = Inr v))))"

text \<open>The loop \<open>for (key, x) in updates { registry.insert(key, x) }\<close>.\<close>

definition install :: "'a registry \<Rightarrow> 'a registry \<Rightarrow> 'a registry" where
  "install updates reg = fold (\<lambda>(key, x). om_insert key x) (om_entries updates) reg"

lemma om_get_install:
  "om_get (install updates reg) key =
     (case om_get updates key of Some x \<Rightarrow> Some x | None \<Rightarrow> om_get reg key)"
proof -
  have "map_of (rev (om_entries updates)) = om_get updates"
    unfolding om_get_map_of by (subst map_of_inject_set) (simp_all add: rev_map [symmetric])
  then show ?thesis by (simp add: install_def om_get_inserts)
qed

lemma install_empty [simp]: "install om_empty reg = reg"
  by (simp add: install_def)

lemma table_holds_empty [simp]: "table_holds kind c mat om_empty om_empty"
  by (simp add: table_holds_def storable_def)

lemma crdt_key_prefix [simp]:
  "starts_with (crdt_store_key kind ns key) (as_bytes (crdt_kind_prefix kind' ns')) \<longleftrightarrow> kind = kind' \<and> ns = ns'"
  using prefixed_key_other [of "crdt_kind_prefix kind' ns'" "crdt_kind_prefix kind ns" key]
  by (auto simp: crdt_store_key_def)

lemma op_key_prefix [simp]:
  "\<not> starts_with (seen_op_store_key i) (as_bytes (crdt_kind_prefix kind ns))"
  "\<not> starts_with (op_log_store_key i) (as_bytes (crdt_kind_prefix kind ns))"
  "\<not> starts_with (crdt_store_key kind ns key) (as_bytes SEEN_OP_STORE_PREFIX)"
  "\<not> starts_with (crdt_store_key kind ns key) (as_bytes OP_LOG_STORE_PREFIX)"
  "\<not> starts_with (op_log_store_key i) (as_bytes SEEN_OP_STORE_PREFIX)"
  "\<not> starts_with (seen_op_store_key i) (as_bytes OP_LOG_STORE_PREFIX)"
  by (simp_all add: seen_op_store_key_def op_log_store_key_def crdt_store_key_def prefixed_key_other)

lemma table_holds_get:
  assumes "table_holds kind c mat m reg" "om_get reg key = Some x" "encode_state c mat ns x = Inr v"
  shows "om_get m (crdt_store_key kind ns key) = Some v"
proof -
  have "starts_with (crdt_store_key kind ns key) (as_bytes (crdt_kind_prefix kind ns))" by simp
  with assms show ?thesis unfolding table_holds_def by blast
qed

lemma map_of_functional:
  "(\<And>v w. (k, v) \<in> set xs \<Longrightarrow> (k, w) \<in> set xs \<Longrightarrow> v = w) \<Longrightarrow> map_of xs k = Some v \<longleftrightarrow> (k, v) \<in> set xs"
  by (metis map_of_SomeD weak_map_of_SomeI)

text \<open>
  A batch whose sets under the prefixes of a kind are the encodings of the updates, and
  whose deletes are elsewhere, moves the table to the registry with the updates installed.
\<close>

lemma table_holds_batch:
  assumes holds: "table_holds kind c mat m reg"
    and sets: "\<And>ns k v. starts_with k (as_bytes (crdt_kind_prefix kind ns)) \<Longrightarrow>
      (k, v) \<in> set sets \<longleftrightarrow> (\<exists>key x. k = crdt_store_key kind ns key \<and> om_get updates key = Some x
         \<and> encode_state c mat ns x = Inr v)"
    and storable: "storable c mat updates"
    and deletes: "\<And>k ns. k \<in> set deletes \<Longrightarrow> \<not> starts_with k (as_bytes (crdt_kind_prefix kind ns))"
  shows "table_holds kind c mat (batch_view sets deletes m) (install updates reg)"
  unfolding table_holds_def
proof (intro conjI allI impI)
  show "storable c mat (install updates reg)"
    using holds storable by (auto simp: table_holds_def storable_def om_get_install split: option.splits)
next
  fix ns k v
  assume k: "starts_with k (as_bytes (crdt_kind_prefix kind ns))"
  have "map_of (rev sets) k = Some w \<longleftrightarrow> (k, w) \<in> set (rev sets)" for w
    by (rule map_of_functional) (use sets [OF k] in auto)
  then have get: "map_of (rev sets) k = Some w \<longleftrightarrow> (\<exists>key x. k = crdt_store_key kind ns key
      \<and> om_get updates key = Some x \<and> encode_state c mat ns x = Inr w)" for w
    using sets [OF k] by simp
  have view: "om_get (batch_view sets deletes m) k
      = (case map_of (rev sets) k of Some w \<Rightarrow> Some w | None \<Rightarrow> om_get m k)"
    using deletes k by (auto simp: om_get_batch_view)
  show "om_get (batch_view sets deletes m) k = Some v \<longleftrightarrow>
      (\<exists>key x. k = crdt_store_key kind ns key \<and> om_get (install updates reg) key = Some x
         \<and> encode_state c mat ns x = Inr v)"
  proof (cases "map_of (rev sets) k")
    case (Some w)
    then have got: "om_get (batch_view sets deletes m) k = Some w" by (simp add: view)
    from Some obtain key x where key: "k = crdt_store_key kind ns key" "om_get updates key = Some x"
      "encode_state c mat ns x = Inr w" using get by blast
    with got show ?thesis by (auto simp: om_get_install)
  next
    case None
    then have "om_get updates key = None" if "k = crdt_store_key kind ns key" for key
      using get storable that unfolding storable_def by (metis option.distinct(1) option.exhaust)
    with None holds k show ?thesis
      unfolding table_holds_def view by (auto simp: om_get_install)
  qed
qed

section \<open>The tables of the six kinds\<close>

locale crdt_table =
  fixes kind :: crdt_kind
    and c :: "'a codec"
    and mat :: "'a \<Rightarrow> storage_error + bytes"
    and logical :: "bytes \<Rightarrow> storage_error + string"
    and parse :: "bytes \<Rightarrow> storage_error + 'a"
    and materialize :: "string \<Rightarrow> 'a \<Rightarrow> ('db, unit) storage"
  assumes logical_key: "logical k = logical_crdt_key k kind State"
    and parse_state: "parse bs = Inr x \<longleftrightarrow> utf8_valid bs \<and> from_json c (string_of_bytes bs) = Inr x"
    and materialize_put:
      "materialize key x st = (st', Inr u) \<Longrightarrow>
       \<exists>v. mat x = Inr v \<and> put_value (crdt_store_key kind Materialized key) v st = (st', Inr ())"
begin

lemma hydrate_loop:
  assumes holds: "table_holds kind c mat m R" and ok: "codec_ok c"
  shows "st_fold (\<lambda>(store_key, value_bytes) (reg, hydrated).
      st_bind (st_lift (map_err (CorruptedKey (crdt_kind_label kind)) (logical store_key))) (\<lambda>key.
      st_bind (st_lift (map_err (CorruptedState (crdt_kind_label kind) key) (parse value_bytes))) (\<lambda>x.
      st_bind (materialize key x) (\<lambda>_. st_lift (Inr (om_insert key x reg, hydrated + 1))))))
      es (reg, n) st = (st', Inr (reg', n')) \<Longrightarrow>
    sled_ok (store_sled st) \<alpha> \<Longrightarrow> \<alpha> (store_db st) = m \<Longrightarrow>
    \<forall>(k, v) \<in> set es. starts_with k (as_bytes (crdt_kind_prefix kind State)) \<and> om_get m k = Some v \<Longrightarrow>
    sled_ok (store_sled st') \<alpha> \<and> \<alpha> (store_db st') = m
    \<and> (\<forall>key. om_get reg' key =
        (if crdt_store_key kind State key \<in> fst ` set es then om_get R key else om_get reg key))"
proof (induction es arbitrary: reg n st)
  case (Cons e es)
  obtain k v where e: "e = (k, v)" by (cases e)
  have kv: "starts_with k (as_bytes (crdt_kind_prefix kind State))" "om_get m k = Some v"
    using Cons.prems(4) by (auto simp: e)
  with holds obtain key x where key: "k = crdt_store_key kind State key"
    "om_get R key = Some x" "encode_state c mat State x = Inr v"
    unfolding table_holds_def by blast
  obtain key' x' st1 where
    l: "logical k = Inr key'" and p: "parse v = Inr x'" and w: "materialize key' x' st = (st1, Inr ())"
    and rest: "st_fold (\<lambda>(store_key, value_bytes) (reg, hydrated).
      st_bind (st_lift (map_err (CorruptedKey (crdt_kind_label kind)) (logical store_key))) (\<lambda>key.
      st_bind (st_lift (map_err (CorruptedState (crdt_kind_label kind) key) (parse value_bytes))) (\<lambda>x.
      st_bind (materialize key x) (\<lambda>_. st_lift (Inr (om_insert key x reg, hydrated + 1))))))
      es (om_insert key' x' reg, n + 1) st1 = (st', Inr (reg', n'))"
    using Cons.prems(1) by (auto simp: e st_bind_Inr)
  have [simp]: "key' = key" using l key(1) by (simp add: logical_key logical_crdt_key_Inr)
  have "x' = x" using p key(3) ok
    by (auto simp: parse_state encode_state_def codec_ok_def res_bind_Inr_iff)
  then obtain mv where mv: "mat x = Inr mv" "store_set (crdt_store_key kind Materialized key) mv st = (st1, Inr ())"
    using materialize_put [OF w] by (auto simp: put_value_def)
  then have "om_get m (crdt_store_key kind Materialized key) = Some mv"
    using table_holds_get [OF holds key(2), of Materialized] by (simp add: encode_state_def)
  then have st1: "\<alpha> (store_db st1) = m" "sled_ok (store_sled st1) \<alpha>"
    using kv.put_view [OF Cons.prems(2) mv(2)] kv.put_lawful [OF Cons.prems(2)] Cons.prems(3) mv(2)
    by (auto simp: om_insert_same) (metis fst_conv store_sled_writes(2))
  have IH: "sled_ok (store_sled st') \<alpha> \<and> \<alpha> (store_db st') = m
    \<and> (\<forall>ky. om_get reg' ky = (if crdt_store_key kind State ky \<in> fst ` set es then om_get R ky
        else om_get (om_insert key' x' reg) ky))"
    using Cons.prems(4) by (intro Cons.IH [OF rest st1(2,1)]) auto
  with key(2) \<open>x' = x\<close> show ?case by (auto simp: e key(1))
qed auto

lemma hydrate_durable_holds:
  assumes holds: "table_holds kind c mat (\<alpha> (store_db st)) R" and ok: "codec_ok c"
    and sled: "sled_ok (store_sled st) \<alpha>"
    and run: "hydrate_durable kind logical parse materialize om_empty st = (st', Inr (reg, n))"
  shows "reg = R \<and> \<alpha> (store_db st') = \<alpha> (store_db st) \<and> sled_ok (store_sled st') \<alpha>"
proof -
  let ?m = "\<alpha> (store_db st)"
  obtain es where scan: "scan_prefix st (as_bytes (crdt_kind_prefix kind State)) = Inr es"
    and loop: "st_fold (\<lambda>(store_key, value_bytes) (reg, hydrated).
      st_bind (st_lift (map_err (CorruptedKey (crdt_kind_label kind)) (logical store_key))) (\<lambda>key.
      st_bind (st_lift (map_err (CorruptedState (crdt_kind_label kind) key) (parse value_bytes))) (\<lambda>x.
      st_bind (materialize key x) (\<lambda>_. st_lift (Inr (om_insert key x reg, hydrated + 1))))))
      es (om_empty, 0) st = (st', Inr (reg, n))"
    using run by (auto simp: hydrate_durable_def st_bind_Inr scan_table_def)
  note es = kv.scan_get [OF sled scan]
  have "\<forall>(k, v) \<in> set es. starts_with k (as_bytes (crdt_kind_prefix kind State)) \<and> om_get ?m k = Some v"
    using es by auto
  note res = hydrate_loop [OF holds ok loop sled refl this]
  have "om_get reg key = om_get R key" for key
  proof (cases "om_get R key")
    case (Some x)
    with holds obtain v where "encode_state c mat State x = Inr v"
      unfolding table_holds_def storable_def by blast
    from table_holds_get [OF holds Some this] have "(crdt_store_key kind State key, v) \<in> set es"
      by (simp add: es)
    then have "crdt_store_key kind State key \<in> fst ` set es" by force
    with res show ?thesis by simp
  qed (use res in simp)
  then have "reg = R" by (intro om_ext) auto
  with res show ?thesis by blast
qed

end

lemma parse_durable_Inr:
  "parse_durable label c bs = Inr x \<longleftrightarrow> utf8_valid bs \<and> from_json c (string_of_bytes bs) = Inr x"
  by (simp add: parse_durable_def)

lemmas materialize_defs =
  materialize_gcounter_value_def materialize_pncounter_value_def materialize_lww_register_value_def
  materialize_lww_map_entries_def materialize_orset_elements_def materialize_rga_values_def

lemmas materialized_defs =
  gcounter_materialized_def pncounter_materialized_def lww_register_materialized_def
  lww_map_materialized_def orset_materialized_def rga_materialized_def

interpretation gcounter_table: crdt_table GCounter "gcounter_codec J" gcounter_materialized
    logical_gcounter_state_key "parse_durable_gcounter_state J"
    "\<lambda>key counter. materialize_gcounter_value key (gcounter_value counter)" for J
  by unfold_locales
    (simp_all add: logical_gcounter_state_key_def parse_durable_gcounter_state_def parse_durable_Inr
      materialize_defs materialized_defs crdt_key_defs)

interpretation pncounter_table: crdt_table PNCounter "pncounter_codec J" pncounter_materialized
    logical_pncounter_state_key "parse_durable_pncounter_state J"
    "\<lambda>key counter. materialize_pncounter_value key (pncounter_value counter)" for J
  by unfold_locales
    (simp_all add: logical_pncounter_state_key_def parse_durable_pncounter_state_def parse_durable_Inr
      materialize_defs materialized_defs crdt_key_defs)

interpretation lww_register_table: crdt_table LwwRegister "lww_register_codec J" lww_register_materialized
    logical_lww_register_state_key "parse_durable_lww_register_state J"
    "\<lambda>key register. materialize_lww_register_value key (reg_value register)" for J
  by unfold_locales
    (simp_all add: logical_lww_register_state_key_def parse_durable_lww_register_state_def parse_durable_Inr
      materialize_defs materialized_defs crdt_key_defs)

interpretation lww_map_table: crdt_table LwwMap "lww_map_codec J" "lww_map_materialized J"
    logical_lww_map_state_key "parse_durable_lww_map_state J"
    "\<lambda>key m. materialize_lww_map_entries J key (lww_map_entries m)" for J
  by unfold_locales
    (auto simp: logical_lww_map_state_key_def parse_durable_lww_map_state_def parse_durable_Inr
      materialize_defs materialized_defs crdt_key_defs st_bind_Inr)

interpretation orset_table: crdt_table ORSet "orset_codec J" "orset_materialized J"
    logical_orset_state_key "parse_durable_orset_state J"
    "\<lambda>key s. materialize_orset_elements J key (orset_elements s)" for J
  by unfold_locales
    (auto simp: logical_orset_state_key_def parse_durable_orset_state_def parse_durable_Inr
      materialize_defs materialized_defs crdt_key_defs st_bind_Inr)

interpretation rga_table: crdt_table Rga "rga_codec J" "rga_materialized J"
    logical_rga_state_key "parse_durable_rga_state J"
    "\<lambda>key r. st_bind (st_lift (rga_values_or_overflow r)) (materialize_rga_values J key)" for J
  by unfold_locales
    (auto simp: logical_rga_state_key_def parse_durable_rga_state_def parse_durable_Inr
      materialize_defs materialized_defs crdt_key_defs st_bind_Inr)

section \<open>All registries\<close>

definition registries_hold :: "serde \<Rightarrow> contents \<Rightarrow> registries \<Rightarrow> bool" where
  "registries_hold J m R =
     (table_holds GCounter (gcounter_codec J) gcounter_materialized m (counters R)
      \<and> table_holds PNCounter (pncounter_codec J) pncounter_materialized m (pncounters R)
      \<and> table_holds LwwRegister (lww_register_codec J) lww_register_materialized m (lww_registers R)
      \<and> table_holds LwwMap (lww_map_codec J) (lww_map_materialized J) m (lww_maps R)
      \<and> table_holds ORSet (orset_codec J) (orset_materialized J) m (orsets R)
      \<and> table_holds Rga (rga_codec J) (rga_materialized J) m (rgas R))"

text \<open>The loops that enter the updates into the registries, at the end of \<open>apply_remote_ops\<close>.\<close>

definition install_updates :: "registries \<Rightarrow> registries \<Rightarrow> registries" where
  "install_updates U R =
     \<lparr>counters = install (counters U) (counters R), pncounters = install (pncounters U) (pncounters R),
      lww_registers = install (lww_registers U) (lww_registers R),
      lww_maps = install (lww_maps U) (lww_maps R), orsets = install (orsets U) (orsets R),
      rgas = install (rgas U) (rgas R)\<rparr>"

text \<open>The keys of a registry are strings.\<close>

definition utf8_keys :: "'a registry \<Rightarrow> bool" where
  "utf8_keys reg = list_all (\<lambda>key. utf8_valid (as_bytes key)) (om_keys reg)"

definition registries_utf8 :: "registries \<Rightarrow> bool" where
  "registries_utf8 R = (utf8_keys (counters R) \<and> utf8_keys (pncounters R) \<and> utf8_keys (lww_registers R)
     \<and> utf8_keys (lww_maps R) \<and> utf8_keys (orsets R) \<and> utf8_keys (rgas R))"

lemma utf8_keysD: "utf8_keys reg \<Longrightarrow> om_get reg key = Some x \<Longrightarrow> utf8_valid (as_bytes key)"
  by (auto simp: utf8_keys_def list_all_iff)

lemma ex_namespace: "(\<exists>ns. P ns) \<longleftrightarrow> P State \<or> P Materialized"
  by (metis crdt_store_namespace.exhaust)

lemma state_sets_Inr:
  "state_sets kind c mat key x = Inr new \<Longrightarrow>
   (\<forall>ns. \<exists>v. encode_state c mat ns x = Inr v)
   \<and> ((k, v) \<in> set new \<longleftrightarrow> (\<exists>ns. k = crdt_store_key kind ns key \<and> encode_state c mat ns x = Inr v))"
proof -
  assume "state_sets kind c mat key x = Inr new"
  then obtain j w where jw: "to_json c x = Inr j" "mat x = Inr w"
    "new = [(crdt_store_key kind State key, as_bytes j), (crdt_store_key kind Materialized key, w)]"
    by (auto simp: state_sets_def res_bind_Inr_iff)
  then have enc: "encode_state c mat ns x = Inr (case ns of State \<Rightarrow> as_bytes j | Materialized \<Rightarrow> w)" for ns
    by (simp add: encode_state_def split: crdt_store_namespace.splits)
  then show ?thesis
    using jw(3) by (auto simp: ex_namespace)
qed

lemma push_loop_Inr:
  "fold_res (\<lambda>(key, x) sets. res_bind (state_sets kind c mat key x) (\<lambda>new. Inr (sets @ new))) es sets = Inr sets' \<Longrightarrow>
   (\<forall>key x ns. (key, x) \<in> set es \<longrightarrow> (\<exists>v. encode_state c mat ns x = Inr v))
   \<and> ((k, v) \<in> set sets' \<longleftrightarrow> (k, v) \<in> set sets
      \<or> (\<exists>ns key x. (key, x) \<in> set es \<and> k = crdt_store_key kind ns key \<and> encode_state c mat ns x = Inr v))"
proof (induction es arbitrary: sets)
  case (Cons e es)
  obtain key x where e: "e = (key, x)" by (cases e)
  from Cons.prems obtain new where new: "state_sets kind c mat key x = Inr new"
    and rest: "fold_res (\<lambda>(key, x) sets. res_bind (state_sets kind c mat key x) (\<lambda>new. Inr (sets @ new))) es (sets @ new) = Inr sets'"
    by (auto simp: e res_bind_def split: sum.splits)
  from Cons.IH [OF rest] state_sets_Inr [OF new, of k v] show ?case by (auto simp: e)
qed simp

text \<open>An entry of the store that encodes a state of the updates of one kind.\<close>

definition encodes ::
    "crdt_kind \<Rightarrow> 'a codec \<Rightarrow> ('a \<Rightarrow> storage_error + bytes) \<Rightarrow> 'a registry \<Rightarrow> bytes \<Rightarrow> bytes \<Rightarrow> bool" where
  "encodes kind c mat U k v = (\<exists>ns key x. om_get U key = Some x \<and> k = crdt_store_key kind ns key
     \<and> encode_state c mat ns x = Inr v)"

lemma encodes_prefix:
  "starts_with k (as_bytes (crdt_kind_prefix kind ns)) \<Longrightarrow>
   encodes kind' c mat U k v \<longleftrightarrow> kind = kind' \<and> (\<exists>key x. k = crdt_store_key kind ns key
     \<and> om_get U key = Some x \<and> encode_state c mat ns x = Inr v)"
  by (auto simp: encodes_def)

lemma push_states_Inr:
  assumes "push_states kind c mat U sets = Inr sets'"
  shows "utf8_keys U \<Longrightarrow> storable c mat U"
    and "(k, v) \<in> set sets' \<longleftrightarrow> (k, v) \<in> set sets \<or> encodes kind c mat U k v"
  using push_loop_Inr [OF assms [unfolded push_states_def], of k v]
  by (auto simp: storable_def encodes_def om_in_entries dest: utf8_keysD)

lemma push_plan_Inr:
  "push_plan J plan (sets, deletes) = Inr acc \<longleftrightarrow>
   (\<exists>w. encode_durable_op_log_value J (op_log_sequence plan) (plan_op plan) = Inr w
    \<and> acc = (sets @ [(seen_op_store_key (op_key (plan_op plan)), u64_to_be_bytes (seen_sequence plan)),
                      (op_log_store_key (op_key (plan_op plan)), w)],
             deletes @ collect_seen_delete_keys (seen_evicted plan) @ collect_op_log_delete_keys (op_log_evicted plan)))"
  by (auto simp: push_plan_def res_bind_Inr_iff)

lemma push_plans_Inr:
  "fold_res (push_plan J) plans (sets, deletes) = Inr (sets', deletes') \<Longrightarrow>
   ((k, v) \<in> set sets' \<longleftrightarrow> (k, v) \<in> set sets
      \<or> (\<exists>plan \<in> set plans. k = seen_op_store_key (op_key (plan_op plan)) \<and> v = u64_to_be_bytes (seen_sequence plan)
          \<or> k = op_log_store_key (op_key (plan_op plan))
            \<and> encode_durable_op_log_value J (op_log_sequence plan) (plan_op plan) = Inr v))
   \<and> set deletes' = set deletes \<union> seen_op_store_key ` set (concat (map seen_evicted plans))
        \<union> (\<lambda>x. op_log_store_key (op_key x)) ` set (concat (map op_log_evicted plans))"
proof (induction plans arbitrary: sets deletes)
  case (Cons plan plans)
  then obtain w where w: "encode_durable_op_log_value J (op_log_sequence plan) (plan_op plan) = Inr w"
    and rest: "fold_res (push_plan J) plans
      (sets @ [(seen_op_store_key (op_key (plan_op plan)), u64_to_be_bytes (seen_sequence plan)),
               (op_log_store_key (op_key (plan_op plan)), w)],
       deletes @ collect_seen_delete_keys (seen_evicted plan) @ collect_op_log_delete_keys (op_log_evicted plan))
      = Inr (sets', deletes')"
    by (auto simp: push_plan_Inr split: sum.splits)
  from Cons.IH [OF rest] w show ?case
    by (auto simp: collect_seen_delete_keys_def collect_op_log_delete_keys_def)
qed auto

lemma push_plans_crdt:
  assumes "fold_res (push_plan J) plans (sets, []) = Inr (sets', deletes)"
    and "starts_with k (as_bytes (crdt_kind_prefix kind ns))"
  shows "(k, v) \<in> set sets' \<longleftrightarrow> (k, v) \<in> set sets" and "k \<notin> set deletes"
  using push_plans_Inr [OF assms(1), of k v] assms(2) by auto

lemma update_sets_Inr:
  assumes "update_sets J U = Inr sets"
  shows "registries_utf8 U \<Longrightarrow>
      storable (gcounter_codec J) gcounter_materialized (counters U)
      \<and> storable (pncounter_codec J) pncounter_materialized (pncounters U)
      \<and> storable (lww_register_codec J) lww_register_materialized (lww_registers U)
      \<and> storable (lww_map_codec J) (lww_map_materialized J) (lww_maps U)
      \<and> storable (orset_codec J) (orset_materialized J) (orsets U)
      \<and> storable (rga_codec J) (rga_materialized J) (rgas U)"
    and "(k, v) \<in> set sets \<longleftrightarrow>
      encodes GCounter (gcounter_codec J) gcounter_materialized (counters U) k v
      \<or> encodes PNCounter (pncounter_codec J) pncounter_materialized (pncounters U) k v
      \<or> encodes LwwRegister (lww_register_codec J) lww_register_materialized (lww_registers U) k v
      \<or> encodes LwwMap (lww_map_codec J) (lww_map_materialized J) (lww_maps U) k v
      \<or> encodes ORSet (orset_codec J) (orset_materialized J) (orsets U) k v
      \<or> encodes Rga (rga_codec J) (rga_materialized J) (rgas U) k v"
proof -
  obtain s1 s2 s3 s4 s5 where
    s: "push_states GCounter (gcounter_codec J) gcounter_materialized (counters U) [] = Inr s1"
      "push_states PNCounter (pncounter_codec J) pncounter_materialized (pncounters U) s1 = Inr s2"
      "push_states LwwRegister (lww_register_codec J) lww_register_materialized (lww_registers U) s2 = Inr s3"
      "push_states LwwMap (lww_map_codec J) (lww_map_materialized J) (lww_maps U) s3 = Inr s4"
      "push_states ORSet (orset_codec J) (orset_materialized J) (orsets U) s4 = Inr s5"
      "push_states Rga (rga_codec J) (rga_materialized J) (rgas U) s5 = Inr sets"
    using assms by (auto simp: update_sets_def res_bind_Inr_iff)
  note storables = s(1) [THEN push_states_Inr(1)] s(2) [THEN push_states_Inr(1)]
    s(3) [THEN push_states_Inr(1)] s(4) [THEN push_states_Inr(1)] s(5) [THEN push_states_Inr(1)]
    s(6) [THEN push_states_Inr(1)]
  note members = s(1) [THEN push_states_Inr(2)] s(2) [THEN push_states_Inr(2)]
    s(3) [THEN push_states_Inr(2)] s(4) [THEN push_states_Inr(2)] s(5) [THEN push_states_Inr(2)]
    s(6) [THEN push_states_Inr(2)]
  show "registries_utf8 U \<Longrightarrow>
      storable (gcounter_codec J) gcounter_materialized (counters U)
      \<and> storable (pncounter_codec J) pncounter_materialized (pncounters U)
      \<and> storable (lww_register_codec J) lww_register_materialized (lww_registers U)
      \<and> storable (lww_map_codec J) (lww_map_materialized J) (lww_maps U)
      \<and> storable (orset_codec J) (orset_materialized J) (orsets U)
      \<and> storable (rga_codec J) (rga_materialized J) (rgas U)"
    using storables by (simp add: registries_utf8_def)
  show "(k, v) \<in> set sets \<longleftrightarrow>
      encodes GCounter (gcounter_codec J) gcounter_materialized (counters U) k v
      \<or> encodes PNCounter (pncounter_codec J) pncounter_materialized (pncounters U) k v
      \<or> encodes LwwRegister (lww_register_codec J) lww_register_materialized (lww_registers U) k v
      \<or> encodes LwwMap (lww_map_codec J) (lww_map_materialized J) (lww_maps U) k v
      \<or> encodes ORSet (orset_codec J) (orset_materialized J) (orsets U) k v
      \<or> encodes Rga (rga_codec J) (rga_materialized J) (rgas U) k v"
    by (simp add: members)
qed

lemma persist_remote_holds:
  assumes ok: "sled_ok (store_sled st) \<alpha>" and holds: "registries_hold J (\<alpha> (store_db st)) R"
    and utf8: "registries_utf8 U" and plans: "plans \<noteq> []"
    and run: "persist_remote_ops_batch J plans U st = (st', Inr ())"
  shows "registries_hold J (\<alpha> (store_db st')) (install_updates U R)"
proof -
  obtain sets sets' deletes where u: "update_sets J U = Inr sets"
    and p: "fold_res (push_plan J) plans (sets, []) = Inr (sets', deletes)"
    and w: "store_apply_batch sets' deletes st = (st', Inr ())"
    using run plans by (auto simp: persist_remote_ops_batch_def st_bind_Inr write_batch_def)
  have view: "\<alpha> (store_db st') = batch_view sets' deletes (\<alpha> (store_db st))"
    using kv.batch_all_or_nothing [OF ok w] by simp
  note members = update_sets_Inr(2) [OF u] push_plans_crdt [OF p] encodes_prefix
  note storables = update_sets_Inr(1) [OF u utf8]
  show ?thesis
    unfolding registries_hold_def view install_updates_def
    by (intro conjI; (simp only: registries.simps)?; rule table_holds_batch)
      (use holds storables in \<open>auto simp: registries_hold_def members\<close>)
qed

section \<open>Hydration of all registries\<close>

text \<open>Every materialised counter has a durable state, so none is adopted.\<close>

lemma adopt_gcounter_known:
  "\<forall>(k, v) \<in> set es. \<exists>key x. k = crdt_store_key GCounter Materialized key \<and> om_get reg key = Some x \<Longrightarrow>
   fold (adopt_gcounter node) es (reg, n) = (reg, n)"
  by (induction es)
    (auto simp: adopt_gcounter_def logical_gcounter_key_def logical_crdt_key_Inr om_contains_key_def split: sum.splits)

lemma adopt_pncounter_known:
  "\<forall>(k, v) \<in> set es. \<exists>key x. k = crdt_store_key PNCounter Materialized key \<and> om_get reg key = Some x \<Longrightarrow>
   fold (adopt_pncounter node) es (reg, n) = (reg, n)"
  by (induction es)
    (auto simp: adopt_pncounter_def logical_pncounter_key_def logical_crdt_key_Inr om_contains_key_def split: sum.splits)

lemma scan_known:
  assumes "table_holds kind c mat (\<alpha> (store_db st)) R" "sled_ok (store_sled st) \<alpha>"
    and "scan_prefix st (as_bytes (crdt_kind_prefix kind Materialized)) = Inr es"
  shows "\<forall>(k, v) \<in> set es. \<exists>key x. k = crdt_store_key kind Materialized key \<and> om_get R key = Some x"
  using kv.scan_get [OF assms(2,3)] assms(1) unfolding table_holds_def by fastforce

lemma hydrate_gcounters_hold:
  assumes "table_holds GCounter (gcounter_codec J) gcounter_materialized (\<alpha> (store_db st)) R"
    and "codec_ok (gcounter_codec J)" and "sled_ok (store_sled st) \<alpha>"
    and "hydrate_gcounter_registry J node om_empty st = (st', Inr (reg, n))"
  shows "reg = R \<and> \<alpha> (store_db st') = \<alpha> (store_db st) \<and> sled_ok (store_sled st') \<alpha>"
proof -
  from assms(4) obtain st1 reg1 n1 es where
    d: "hydrate_durable_gcounter_state J om_empty st = (st1, Inr (reg1, n1))"
    and scan: "scan_prefix st1 (as_bytes GCOUNTER_STORE_PREFIX) = Inr es" and "st' = st1"
    and reg: "reg = fst (fold (adopt_gcounter node) es (reg1, 0))"
    by (auto simp: hydrate_gcounter_registry_def hydrate_materialized_gcounter_values_def scan_table_def
        st_bind_Inr split: prod.splits)
  have "reg1 = R \<and> \<alpha> (store_db st1) = \<alpha> (store_db st) \<and> sled_ok (store_sled st1) \<alpha>"
    using gcounter_table.hydrate_durable_holds [OF assms(1-3)] d
    by (simp add: hydrate_durable_gcounter_state_def)
  with scan_known [of GCounter "gcounter_codec J" gcounter_materialized \<alpha> st1 R es] scan assms(1)
    adopt_gcounter_known [of es R node 0] \<open>st' = st1\<close> reg
  show ?thesis by simp
qed

lemma hydrate_pncounters_hold:
  assumes "table_holds PNCounter (pncounter_codec J) pncounter_materialized (\<alpha> (store_db st)) R"
    and "codec_ok (pncounter_codec J)" and "sled_ok (store_sled st) \<alpha>"
    and "hydrate_pncounter_registry J node om_empty st = (st', Inr (reg, n))"
  shows "reg = R \<and> \<alpha> (store_db st') = \<alpha> (store_db st) \<and> sled_ok (store_sled st') \<alpha>"
proof -
  from assms(4) obtain st1 reg1 n1 es where
    d: "hydrate_durable_pncounter_state J om_empty st = (st1, Inr (reg1, n1))"
    and scan: "scan_prefix st1 (as_bytes PNCOUNTER_STORE_PREFIX) = Inr es" and "st' = st1"
    and reg: "reg = fst (fold (adopt_pncounter node) es (reg1, 0))"
    by (auto simp: hydrate_pncounter_registry_def hydrate_materialized_pncounter_values_def scan_table_def
        st_bind_Inr split: prod.splits)
  have "reg1 = R \<and> \<alpha> (store_db st1) = \<alpha> (store_db st) \<and> sled_ok (store_sled st1) \<alpha>"
    using pncounter_table.hydrate_durable_holds [OF assms(1-3)] d
    by (simp add: hydrate_durable_pncounter_state_def)
  with scan_known [of PNCounter "pncounter_codec J" pncounter_materialized \<alpha> st1 R es] scan assms(1)
    adopt_pncounter_known [of es R node 0] \<open>st' = st1\<close> reg
  show ?thesis by simp
qed

lemma hydrate_registries_hold:
  assumes holds: "registries_hold J (\<alpha> (store_db st)) R" and serde: "serde_ok J"
    and sled: "sled_ok (store_sled st) \<alpha>" and run: "hydrate_registries J node st = (st', Inr R')"
  shows "R' = R \<and> \<alpha> (store_db st') = \<alpha> (store_db st) \<and> sled_ok (store_sled st') \<alpha>"
proof -
  let ?m = "\<alpha> (store_db st)"
  obtain s1 s2 s3 s4 s5 cs ps rs ms ss gs n1 n2 n3 n4 n5 n6 where
    h1: "hydrate_gcounter_registry J node om_empty st = (s1, Inr (cs, n1))"
    and h2: "hydrate_pncounter_registry J node om_empty s1 = (s2, Inr (ps, n2))"
    and h3: "hydrate_durable_lww_register_state J om_empty s2 = (s3, Inr (rs, n3))"
    and h4: "hydrate_durable_lww_map_state J om_empty s3 = (s4, Inr (ms, n4))"
    and h5: "hydrate_durable_orset_state J om_empty s4 = (s5, Inr (ss, n5))"
    and h6: "hydrate_durable_rga_state J om_empty s5 = (st', Inr (gs, n6))"
    and R': "R' = \<lparr>counters = cs, pncounters = ps, lww_registers = rs, lww_maps = ms, orsets = ss, rgas = gs\<rparr>"
    using run
    by (auto simp: hydrate_registries_def hydrate_lww_register_registry_def hydrate_lww_map_registry_def
        hydrate_orset_registry_def hydrate_rga_registry_def st_bind_Inr split: prod.splits)
  note H = holds [unfolded registries_hold_def] and S = serde [unfolded serde_ok_def]
  have 1: "cs = counters R \<and> \<alpha> (store_db s1) = ?m \<and> sled_ok (store_sled s1) \<alpha>"
    using hydrate_gcounters_hold [OF _ _ sled h1, where R = "counters R"] H S by simp
  then have 2: "ps = pncounters R \<and> \<alpha> (store_db s2) = ?m \<and> sled_ok (store_sled s2) \<alpha>"
    using hydrate_pncounters_hold [OF _ _ _ h2, where \<alpha> = \<alpha> and R = "pncounters R"] H S by simp
  then have 3: "rs = lww_registers R \<and> \<alpha> (store_db s3) = ?m \<and> sled_ok (store_sled s3) \<alpha>"
    using lww_register_table.hydrate_durable_holds [OF _ _ _ h3 [unfolded hydrate_durable_lww_register_state_def],
        where \<alpha> = \<alpha> and R = "lww_registers R"] H S by simp
  then have 4: "ms = lww_maps R \<and> \<alpha> (store_db s4) = ?m \<and> sled_ok (store_sled s4) \<alpha>"
    using lww_map_table.hydrate_durable_holds [OF _ _ _ h4 [unfolded hydrate_durable_lww_map_state_def],
        where \<alpha> = \<alpha> and R = "lww_maps R"] H S by simp
  then have 5: "ss = orsets R \<and> \<alpha> (store_db s5) = ?m \<and> sled_ok (store_sled s5) \<alpha>"
    using orset_table.hydrate_durable_holds [OF _ _ _ h5 [unfolded hydrate_durable_orset_state_def],
        where \<alpha> = \<alpha> and R = "orsets R"] H S by simp
  then have "gs = rgas R \<and> \<alpha> (store_db st') = ?m \<and> sled_ok (store_sled st') \<alpha>"
    using rga_table.hydrate_durable_holds [OF _ _ _ h6 [unfolded hydrate_durable_rga_state_def],
        where \<alpha> = \<alpha> and R = "rgas R"] H S by simp
  with 1 2 3 4 5 R' show ?thesis by simp
qed

end
