(* ===== verification/Tracking_Recovery.thy ===== *)
theory Tracking_Recovery
  imports Storage_Recovery
begin

text \<open>
  Recovery of the bookkeeping: the seen-operation window and the operation log are stored as
  numbered entries, one per operation, and hydration sorts them by number. The durable
  entries of both tables are described by the list of numbered items they hold, oldest
  first; a batch appends its operations and removes the evicted ones, and hydration returns
  the newest items of that list.
\<close>

section \<open>Numbered tables\<close>

definition numbered_holds ::
    "string \<Rightarrow> ('a \<Rightarrow> string) \<Rightarrow> (u64 \<Rightarrow> 'a \<Rightarrow> storage_error + bytes) \<Rightarrow> contents \<Rightarrow> (u64 \<times> 'a) list \<Rightarrow> bool" where
  "numbered_holds p key enc m es =
     (sorted_wrt (<) (map fst es) \<and> distinct (map (key \<circ> snd) es)
      \<and> (\<forall>e \<in> set es. utf8_valid (as_bytes (key (snd e))) \<and> (\<exists>v. enc (fst e) (snd e) = Inr v))
      \<and> (\<forall>k v. starts_with k (as_bytes p) \<longrightarrow>
           (om_get m k = Some v \<longleftrightarrow>
              (\<exists>e \<in> set es. k = prefixed_store_key p (key (snd e)) \<and> enc (fst e) (snd e) = Inr v))))"

text \<open>The seen operations and the operation log.\<close>

abbreviation seen_holds :: "contents \<Rightarrow> (u64 \<times> string) list \<Rightarrow> bool" where
  "seen_holds \<equiv> numbered_holds SEEN_OP_STORE_PREFIX id (\<lambda>n _. Inr (u64_to_be_bytes n))"

abbreviation op_log_holds :: "serde \<Rightarrow> contents \<Rightarrow> (u64 \<times> Op) list \<Rightarrow> bool" where
  "op_log_holds J \<equiv> numbered_holds OP_LOG_STORE_PREFIX op_key (encode_durable_op_log_value J)"

lemma numbered_holds_empty [simp]: "numbered_holds p key enc om_empty []"
  by (simp add: numbered_holds_def)

lemma numbered_unique:
  "distinct (map (key \<circ> snd) es) \<Longrightarrow> e \<in> set es \<Longrightarrow> f \<in> set es \<Longrightarrow> key (snd e) = key (snd f) \<Longrightarrow> e = f"
  by (auto simp: distinct_map inj_on_def)

text \<open>A batch that writes new items with larger numbers and deletes some keys.\<close>

lemma numbered_batch:
  assumes holds: "numbered_holds p key enc m es"
    and order: "sorted_wrt (<) (map fst (es @ new))" and keys: "distinct (map (key \<circ> snd) (es @ new))"
    and ok: "\<forall>e \<in> set new. utf8_valid (as_bytes (key (snd e))) \<and> (\<exists>v. enc (fst e) (snd e) = Inr v)"
    and sets: "\<And>k v. starts_with k (as_bytes p) \<Longrightarrow> (k, v) \<in> set sets \<longleftrightarrow>
      (\<exists>e \<in> set new. k = prefixed_store_key p (key (snd e)) \<and> enc (fst e) (snd e) = Inr v)"
    and deletes: "\<And>i. prefixed_store_key p i \<in> set deletes \<longleftrightarrow> i \<in> D"
  shows "numbered_holds p key enc (batch_view sets deletes m) (filter (\<lambda>e. key (snd e) \<notin> D) (es @ new))"
    (is "numbered_holds p key enc ?m ?es")
proof -
  have "om_get ?m k = Some v \<longleftrightarrow>
      (\<exists>e \<in> set ?es. k = prefixed_store_key p (key (snd e)) \<and> enc (fst e) (snd e) = Inr v)"
    if k: "starts_with k (as_bytes p)" for k v
  proof -
    have unique: "e = f" if "e \<in> set (es @ new)" "f \<in> set (es @ new)"
      "k = prefixed_store_key p (key (snd e))" "k = prefixed_store_key p (key (snd f))" for e f
      using numbered_unique [OF keys that(1,2)] that(3,4) by simp
    have "map_of (rev sets) k = Some w \<longleftrightarrow> (k, w) \<in> set (rev sets)" for w
    proof (rule map_of_functional)
      fix v w assume "(k, v) \<in> set (rev sets)" "(k, w) \<in> set (rev sets)"
      then obtain e f where ef: "e \<in> set new" "k = prefixed_store_key p (key (snd e))" "enc (fst e) (snd e) = Inr v"
        "f \<in> set new" "k = prefixed_store_key p (key (snd f))" "enc (fst f) (snd f) = Inr w"
        using sets [OF k] by auto
      with unique [of e f] show "v = w" by simp
    qed
    then have get: "map_of (rev sets) k = Some w \<longleftrightarrow>
        (\<exists>e \<in> set new. k = prefixed_store_key p (key (snd e)) \<and> enc (fst e) (snd e) = Inr w)" for w
      using sets [OF k] by simp
    have old: "om_get m k = Some w \<longleftrightarrow>
        (\<exists>e \<in> set es. k = prefixed_store_key p (key (snd e)) \<and> enc (fst e) (snd e) = Inr w)" for w
      using holds k by (simp add: numbered_holds_def)
    have del: "k \<in> set deletes \<longleftrightarrow> key (snd e) \<in> D" if "k = prefixed_store_key p (key (snd e))" for e
      using deletes that by simp
    show ?thesis
    proof (cases "map_of (rev sets) k")
      case None
      then have "om_get ?m k = Some v \<longleftrightarrow> k \<notin> set deletes \<and> om_get m k = Some v"
        by (simp add: om_get_batch_view)
      also have "\<dots> \<longleftrightarrow> (\<exists>e \<in> set es. key (snd e) \<notin> D \<and> k = prefixed_store_key p (key (snd e))
          \<and> enc (fst e) (snd e) = Inr v)"
        unfolding old using del by blast
      moreover have "\<forall>e \<in> set new. k \<noteq> prefixed_store_key p (key (snd e))"
        using get ok None by (metis option.distinct(1))
      ultimately show ?thesis by auto
    next
      case (Some w)
      then obtain e where e: "e \<in> set new" "k = prefixed_store_key p (key (snd e))"
        "enc (fst e) (snd e) = Inr w" using get by blast
      then have "om_get ?m k = Some v \<longleftrightarrow> key (snd e) \<notin> D \<and> w = v"
        using Some del [OF e(2)] by (simp add: om_get_batch_view)
      also have "\<dots> \<longleftrightarrow> (\<exists>f \<in> set ?es. k = prefixed_store_key p (key (snd f)) \<and> enc (fst f) (snd f) = Inr v)"
      proof
        assume "\<exists>f \<in> set ?es. k = prefixed_store_key p (key (snd f)) \<and> enc (fst f) (snd f) = Inr v"
        then obtain f where f: "f \<in> set (es @ new)" "key (snd f) \<notin> D"
          "k = prefixed_store_key p (key (snd f))" "enc (fst f) (snd f) = Inr v" by auto
        with unique [of e f] e have "e = f" by simp
        with f e(3) show "key (snd e) \<notin> D \<and> w = v" by simp
      qed (use e in auto)
      finally show ?thesis .
    qed
  qed
  moreover have "sorted_wrt (<) (map fst ?es)"
    using order by (simp only: sorted_wrt_map sorted_wrt_filter)
  moreover have "distinct (map (key \<circ> snd) ?es)" using keys by (rule distinct_map_filter)
  moreover have "\<forall>e \<in> set ?es. utf8_valid (as_bytes (key (snd e))) \<and> (\<exists>v. enc (fst e) (snd e) = Inr v)"
    using holds ok by (auto simp: numbered_holds_def)
  ultimately show ?thesis unfolding numbered_holds_def by blast
qed

lemma sort_numbered:
  assumes "sorted_wrt (<) (map fst es)" "distinct xs" "set xs = set es"
  shows "sort_key fst xs = (es :: (u64 \<times> 'a) list)"
proof (rule sort_key_inj_key_eq)
  have d: "distinct (map fst es)" using assms(1) by (simp add: strict_sorted_iff)
  then show "mset xs = mset es" using assms(2,3) by (simp add: distinct_map set_eq_iff_mset_eq_distinct)
  show "inj_on fst (set xs)" using d assms(3) by (simp add: distinct_map)
  show "sorted (map fst es)" using assms(1) by (simp add: strict_sorted_iff)
qed

text \<open>Scanning a numbered table in key order, decoding and sorting gives its items back.\<close>

lemma numbered_scan:
  assumes holds: "numbered_holds p key enc m es"
    and dec: "\<And>e v. e \<in> set es \<Longrightarrow> enc (fst e) (snd e) = Inr v \<Longrightarrow>
      dec (prefixed_store_key p (key (snd e)), v) = e"
  shows "sort_key fst (map dec (entries_with_prefix (as_bytes p) m)) = es"
    and "\<forall>(k, v) \<in> set (entries_with_prefix (as_bytes p) m). \<exists>e \<in> set es.
      k = prefixed_store_key p (key (snd e)) \<and> enc (fst e) (snd e) = Inr v"
proof -
  let ?E = "entries_with_prefix (as_bytes p) m"
  have E: "(k, v) \<in> set ?E \<longleftrightarrow>
      (\<exists>e \<in> set es. k = prefixed_store_key p (key (snd e)) \<and> enc (fst e) (snd e) = Inr v)" for k v
  proof -
    have "(k, v) \<in> set ?E \<longleftrightarrow> starts_with k (as_bytes p) \<and> om_get m k = Some v"
      by (auto simp: entries_with_prefix_def om_in_entries)
    then show ?thesis using holds unfolding numbered_holds_def by (metis starts_with_prefixed)
  qed
  then show "\<forall>(k, v) \<in> set ?E. \<exists>e \<in> set es.
      k = prefixed_store_key p (key (snd e)) \<and> enc (fst e) (snd e) = Inr v" by blast
  have "set (map dec ?E) = set es"
  proof
    show "set (map dec ?E) \<subseteq> set es" using E dec by fastforce
    show "set es \<subseteq> set (map dec ?E)"
    proof
      fix e assume e: "e \<in> set es"
      then obtain v where v: "enc (fst e) (snd e) = Inr v" using holds by (auto simp: numbered_holds_def)
      with e E have "(prefixed_store_key p (key (snd e)), v) \<in> set ?E" by blast
      with dec [OF e v] show "e \<in> set (map dec ?E)" by force
    qed
  qed
  moreover have "distinct ?E"
    using om_distinct [of m] by (simp add: entries_with_prefix_def distinct_map)
  moreover have "inj_on dec (set ?E)"
  proof (rule inj_onI)
    fix a b assume ab: "a \<in> set ?E" "b \<in> set ?E" "dec a = dec b"
    obtain e f where "e \<in> set es" "fst a = prefixed_store_key p (key (snd e))" "enc (fst e) (snd e) = Inr (snd a)"
      "f \<in> set es" "fst b = prefixed_store_key p (key (snd f))" "enc (fst f) (snd f) = Inr (snd b)"
      using ab E by (metis prod.collapse)
    with ab(3) dec show "a = b" by (metis Inr_inject prod.collapse)
  qed
  ultimately show "sort_key fst (map dec ?E) = es"
    using holds by (intro sort_numbered) (auto simp: numbered_holds_def distinct_map)
qed

text \<open>The next number after hydration is above every number stored.\<close>

lemma fold_max_ge:
  "a \<le> fold (\<lambda>e b. max b (f e)) xs a" "e \<in> set xs \<Longrightarrow> f e \<le> fold (\<lambda>e b. max b (f e)) xs (a :: u64)"
proof (induction xs arbitrary: a)
  case (Cons x xs)
  { case 1 show ?case using Cons.IH(1) [of "max a (f x)"] by simp }
  { case 2 then show ?case using Cons.IH(1) [of "max a (f x)"] Cons.IH(2) [of "max a (f x)"] by auto }
qed simp_all

lemma filter_not_taken:
  "distinct (map f xs) \<Longrightarrow> filter (\<lambda>x. f x \<notin> set (take n (map f xs))) xs = drop n xs"
proof (induction xs arbitrary: n)
  case (Cons x xs)
  show ?case
  proof (cases n)
    case (Suc k)
    have "filter (\<lambda>y. f y \<notin> insert (f x) (set (take k (map f xs)))) xs
        = filter (\<lambda>y. f y \<notin> set (take k (map f xs))) xs"
      using Cons.prems by (intro filter_cong) (auto simp: image_iff)
    with Cons Suc show ?thesis by simp
  qed simp
qed simp

section \<open>Hydration of the seen operations\<close>

definition decode_seen :: "bytes \<times> bytes \<Rightarrow> u64 \<times> string" where
  "decode_seen e = (u64_from_be_bytes (snd e), projr (logical_seen_op_id (fst e)))"

lemma seen_entry_fold:
  assumes "\<forall>e \<in> set E. \<exists>n i. fst e = seen_op_store_key i \<and> utf8_valid (as_bytes i) \<and> snd e = u64_to_be_bytes n"
  shows "fold seen_entry E (ordered, next_sequence) =
    (ordered @ map decode_seen E, fold (\<lambda>e b. max b (saturating_add (fst (decode_seen e)) 1)) E next_sequence)"
  using assms
proof (induction E arbitrary: ordered next_sequence)
  case (Cons e E)
  then obtain n i where "e = (seen_op_store_key i, u64_to_be_bytes n)" "utf8_valid (as_bytes i)"
    by (cases e) auto
  then have "seen_entry e (ordered, next_sequence) =
    (ordered @ [decode_seen e], max next_sequence (saturating_add (fst (decode_seen e)) 1))"
    by (simp add: seen_entry_def decode_seen_def logical_seen_op_id_def seen_op_store_key_def
        logical_key_prefixed parse_seen_op_sequence_def)
  with Cons show ?case by simp
qed simp

lemma seen_reinsert_fold:
  assumes "seen_wf s" "distinct (map snd es)" "snd ` set es \<inter> seen_ids s = {}"
  shows "fold seen_reinsert es (s, ev) =
    (s\<lparr>seen_ids := set (last_n (seen_limit s) (seen_order s @ map snd es)),
       seen_order := last_n (seen_limit s) (seen_order s @ map snd es)\<rparr>,
     ev @ take (length (seen_order s @ map snd es) - seen_limit s) (seen_order s @ map snd es))"
  using assms
proof (induction es arbitrary: s ev)
  case Nil
  then show ?case by (simp add: seen_wf_def)
next
  case (Cons e es)
  let ?i = "snd e" and ?L = "seen_limit s"
  let ?xs = "seen_order s @ [?i]"
  let ?s = "s\<lparr>seen_ids := set (last_n ?L ?xs), seen_order := last_n ?L ?xs\<rparr>"
  have fresh: "?i \<notin> seen_ids s" using Cons.prems(3) by auto
  then have step: "seen_reinsert e (s, ev) = (?s, ev @ take (length ?xs - ?L) ?xs)"
    using Cons.prems(1) by (simp add: seen_reinsert_def seen_ops_insert_fresh)
  have wf: "seen_wf ?s"
    using seen_wf_insert [OF Cons.prems(1), of ?i] by (simp add: seen_ops_insert_fresh [OF Cons.prems(1) fresh])
  have "set (last_n ?L ?xs) \<subseteq> insert ?i (seen_ids s)"
    using Cons.prems(1) set_drop_subset by (fastforce simp: last_n_def seen_wf_def)
  moreover have "snd ` set es \<inter> insert ?i (seen_ids s) = {}"
    using Cons.prems(2,3) by (simp add: disjoint_iff)
  ultimately have "snd ` set es \<inter> seen_ids ?s = {}" by (simp, blast)
  note IH = Cons.IH [OF wf _ this, of "ev @ take (length ?xs - ?L) ?xs"]
  have ev: "take (length ?xs - ?L) ?xs @ take (length (last_n ?L ?xs @ map snd es) - ?L) (last_n ?L ?xs @ map snd es)
      = take (length (?xs @ map snd es) - ?L) (?xs @ map snd es)" by (rule evicted_append)
  have "fold seen_reinsert (e # es) (s, ev) = fold seen_reinsert es (?s, ev @ take (length ?xs - ?L) ?xs)"
    by (simp add: step)
  also have "\<dots> = (s\<lparr>seen_ids := set (last_n ?L (?xs @ map snd es)), seen_order := last_n ?L (?xs @ map snd es)\<rparr>,
      ev @ take (length (?xs @ map snd es) - ?L) (?xs @ map snd es))"
    using IH Cons.prems(2) unfolding ev [symmetric] by (simp add: last_n_append_last_n)
  finally show ?case by simp
qed

text \<open>Deleting by key a leading part of a numbered table.\<close>

lemma numbered_delete_front:
  assumes "numbered_holds p key enc m es"
    and "\<And>i. prefixed_store_key p i \<in> set deletes \<longleftrightarrow> i \<in> set (take n (map (key \<circ> snd) es))"
  shows "numbered_holds p key enc (batch_view [] deletes m) (drop n es)"
proof -
  have "numbered_holds p key enc (batch_view [] deletes m)
      (filter (\<lambda>e. key (snd e) \<notin> set (take n (map (key \<circ> snd) es))) (es @ []))"
    using assms by (intro numbered_batch) (auto simp: numbered_holds_def)
  moreover have "filter (\<lambda>e. key (snd e) \<notin> set (take n (map (key \<circ> snd) es))) es = drop n es"
    using filter_not_taken [of "key \<circ> snd" es n] assms(1) by (simp add: numbered_holds_def)
  ultimately show ?thesis by simp
qed

text \<open>Other tables do not notice.\<close>

lemma numbered_other_deletes:
  assumes "numbered_holds p key enc m es" "\<And>i. prefixed_store_key p i \<notin> set deletes"
  shows "numbered_holds p key enc (batch_view [] deletes m) es"
  using numbered_delete_front [OF assms(1), of deletes 0] assms(2) by simp

lemma table_other_deletes:
  assumes "table_holds kind c mat m reg"
    and "\<And>k ns. k \<in> set deletes \<Longrightarrow> \<not> starts_with k (as_bytes (crdt_kind_prefix kind ns))"
  shows "table_holds kind c mat (batch_view [] deletes m) reg"
  using table_holds_batch [OF assms(1), of "[]" om_empty deletes] assms(2) by (simp add: storable_def)

lemma registries_other_deletes:
  assumes "registries_hold J m R"
    and "\<And>k kind ns. k \<in> set deletes \<Longrightarrow> \<not> starts_with k (as_bytes (crdt_kind_prefix kind ns))"
  shows "registries_hold J (batch_view [] deletes m) R"
  using assms by (simp add: registries_hold_def table_other_deletes)

lemma delete_batch_view:
  assumes "sled_ok (store_sled st) \<alpha>" "write_batch [] deletes st = (st', Inr u)"
  shows "\<alpha> (store_db st') = batch_view [] deletes (\<alpha> (store_db st)) \<and> sled_ok (store_sled st') \<alpha>"
  using kv.batch_all_or_nothing [OF assms(1), of "[]" deletes st' "Inr u"] assms(2)
  by (simp add: write_batch_def)

lemma batch_view_Nil [simp]: "batch_view [] [] m = m"
  by (simp add: batch_view_def)

lemma persist_seen_evictions_view:
  assumes "sled_ok (store_sled st) \<alpha>" "persist_seen_op_evictions evicted st = (st', Inr u)"
  shows "\<alpha> (store_db st') = batch_view [] (map seen_op_store_key evicted) (\<alpha> (store_db st)) \<and> sled_ok (store_sled st') \<alpha>"
  using assms delete_batch_view [OF assms(1)]
  by (cases "evicted = []") (auto simp: persist_seen_op_evictions_def)

lemma persist_op_log_evictions_view:
  assumes "sled_ok (store_sled st) \<alpha>" "persist_op_log_evictions evicted st = (st', Inr u)"
  shows "\<alpha> (store_db st') = batch_view [] (map (\<lambda>x. op_log_store_key (op_key x)) evicted) (\<alpha> (store_db st))
    \<and> sled_ok (store_sled st') \<alpha>"
  using assms delete_batch_view [OF assms(1)]
  by (cases "evicted = []") (auto simp: persist_op_log_evictions_def collect_op_log_delete_keys_def)

lemma st_bind_scan:
  "scan_prefix st (as_bytes p) = Inr E \<Longrightarrow> st_bind (scan_table p) f st = f E st"
  by (simp add: st_bind_def scan_table_def)

lemma scan_table_ok:
  "st_bind (scan_table p) f st = (st', Inr r) \<Longrightarrow> sled_ok (store_sled st) \<alpha> \<Longrightarrow>
   scan_prefix st (as_bytes p) = Inr (entries_with_prefix (as_bytes p) (\<alpha> (store_db st)))"
  by (auto simp: st_bind_Inr scan_table_def dest: kv.scan_view)

lemma hydrate_seen_holds:
  assumes ok: "sled_ok (store_sled st) \<alpha>" and holds: "seen_holds (\<alpha> (store_db st)) es"
    and run: "hydrate_seen_ops limit st = (st', Inr (seen, next_sequence))"
  defines "L \<equiv> normalize_seen_ops_limit limit"
  shows "seen_wf seen \<and> seen_limit seen = L \<and> seen_order seen = last_n L (map snd es)
    \<and> (\<forall>e \<in> set es. saturating_add (fst e) 1 \<le> next_sequence)
    \<and> sled_ok (store_sled st') \<alpha>
    \<and> \<alpha> (store_db st') = batch_view [] (map seen_op_store_key (take (length es - L) (map snd es))) (\<alpha> (store_db st))
    \<and> seen_holds (\<alpha> (store_db st')) (last_n L es)"
proof -
  let ?m = "\<alpha> (store_db st)" and ?new = "seen_ops_new L"
  let ?E = "entries_with_prefix (as_bytes SEEN_OP_STORE_PREFIX) ?m"
  have dec: "decode_seen (prefixed_store_key SEEN_OP_STORE_PREFIX (id (snd e)), v) = e"
    if "e \<in> set es" "Inr (u64_to_be_bytes (fst e)) = (Inr v :: storage_error + bytes)" for e v
    using that holds by (auto simp: decode_seen_def logical_seen_op_id_def logical_key_prefixed numbered_holds_def)
  note scan = numbered_scan [OF holds dec, simplified]
  have "\<forall>e \<in> set ?E. \<exists>n i. fst e = seen_op_store_key i \<and> utf8_valid (as_bytes i) \<and> snd e = u64_to_be_bytes n"
    using scan(2) holds unfolding numbered_holds_def seen_op_store_key_def by fastforce
  note folded = seen_entry_fold [OF this, of "[]" 0]
  have new: "seen_wf ?new" by simp
  have fields: "seen_limit ?new = L" "seen_order ?new = []" "seen_ids ?new = {}"
    by (simp_all add: seen_ops_new_def L_def normalize_seen_ops_limit_def)
  have ids: "distinct (map snd es)" using holds by (simp add: numbered_holds_def)
  obtain sn evicted where seen: "fold seen_reinsert es (?new, []) = (sn, evicted)" by fastforce
  have "scan_prefix st (as_bytes SEEN_OP_STORE_PREFIX) = Inr ?E"
    using run ok by (auto simp: hydrate_seen_ops_def Let_def dest: scan_table_ok)
  then have next_seq: "next_sequence = fold (\<lambda>e b. max b (saturating_add (fst (decode_seen e)) 1)) ?E 0"
    and w: "persist_seen_op_evictions evicted st = (st', Inr ())" and "sn = seen"
    using run folded scan(1) seen by (auto simp: hydrate_seen_ops_def L_def st_bind_Inr st_bind_scan)
  have ev: "evicted = take (length es - L) (map snd es)" and order: "seen_order seen = last_n L (map snd es)"
    and seen': "seen = ?new\<lparr>seen_ids := set (last_n L (map snd es)), seen_order := last_n L (map snd es)\<rparr>"
    using seen seen_reinsert_fold [OF new ids, of "[]"] fields \<open>sn = seen\<close> by auto
  have wf: "seen_wf seen"
    using new distinct_last_n [OF ids] fields unfolding seen' by (simp add: seen_wf_def)
  have "saturating_add (fst e) 1 \<le> next_sequence" if "e \<in> set es" for e
  proof -
    have "set (sort_key fst (map decode_seen ?E)) = decode_seen ` set ?E" by simp
    with that scan(1) obtain f where "f \<in> set ?E" "decode_seen f = e" by auto
    then show ?thesis unfolding next_seq 
      using fold_max_ge(2) [of f ?E "\<lambda>e. saturating_add (fst (decode_seen e)) 1" 0] by simp
  qed
  moreover note persist_seen_evictions_view [OF ok w]
  moreover have "seen_holds (batch_view [] (map seen_op_store_key evicted) ?m) (drop (length es - L) es)"
    using holds by (rule numbered_delete_front) (auto simp: ev seen_op_store_key_def)
  moreover have "drop (length es - L) es = last_n L es" by (simp add: last_n_def)
  moreover have "seen_limit seen = L" using fields(1) by (simp add: seen')
  ultimately show ?thesis using wf order by (simp add: ev)
qed

section \<open>Hydration of the operation log\<close>

definition decode_op :: "serde \<Rightarrow> bytes \<times> bytes \<Rightarrow> u64 \<times> Op" where
  "decode_op J e = projr (parse_durable_op_log_value J (snd e))"

lemma op_log_value_roundtrip:
  "serde_ok J \<Longrightarrow> encode_durable_op_log_value J n x = Inr v \<Longrightarrow> parse_durable_op_log_value J v = Inr (n, x)"
  by (auto simp: encode_durable_op_log_value_def parse_durable_op_log_value_def serde_ok_def res_bind_Inr_iff)

lemma op_log_entry_fold:
  assumes "serde_ok J"
    and "\<forall>(k, v) \<in> set E. \<exists>n x. k = op_log_store_key (op_key x) \<and> utf8_valid (as_bytes (op_key x))
      \<and> encode_durable_op_log_value J n x = Inr v"
  shows "fold (op_log_entry J) E (ordered, next_sequence) =
    (ordered @ map (decode_op J) E, fold (\<lambda>e b. max b (saturating_add (fst (decode_op J e)) 1)) E next_sequence)"
  using assms(2)
proof (induction E arbitrary: ordered next_sequence)
  case (Cons e E)
  then obtain n x where x: "fst e = op_log_store_key (op_key x)" "utf8_valid (as_bytes (op_key x))"
    "encode_durable_op_log_value J n x = Inr (snd e)" by fastforce
  with op_log_value_roundtrip [OF assms(1) x(3)]
  have "op_log_entry J e (ordered, next_sequence) =
    (ordered @ [decode_op J e], max next_sequence (saturating_add (fst (decode_op J e)) 1))"
    by (cases e) (simp add: op_log_entry_def decode_op_def logical_op_log_id_def op_log_store_key_def
        logical_key_prefixed)
  with Cons show ?case by simp
qed simp

lemma hydrate_op_log_holds:
  assumes ok: "sled_ok (store_sled st) \<alpha>" and holds: "op_log_holds J (\<alpha> (store_db st)) es"
    and serde: "serde_ok J" and run: "hydrate_op_log J limit st = (st', Inr (log, next_sequence))"
  defines "L \<equiv> normalize_op_log_limit limit"
  shows "log = last_n L (map snd es) \<and> (\<forall>e \<in> set es. saturating_add (fst e) 1 \<le> next_sequence)
    \<and> sled_ok (store_sled st') \<alpha>
    \<and> \<alpha> (store_db st') = batch_view [] (map (\<lambda>x. op_log_store_key (op_key x)) (take (length es - L) (map snd es)))
        (\<alpha> (store_db st))
    \<and> op_log_holds J (\<alpha> (store_db st')) (last_n L es)"
proof -
  let ?m = "\<alpha> (store_db st)"
  let ?E = "entries_with_prefix (as_bytes OP_LOG_STORE_PREFIX) ?m"
  have L: "normalize_op_log_limit L = L" by (simp add: L_def normalize_op_log_limit_def)
  have dec: "decode_op J (prefixed_store_key OP_LOG_STORE_PREFIX (op_key (snd e)), v) = e"
    if "e \<in> set es" "encode_durable_op_log_value J (fst e) (snd e) = Inr v" for e v
    using op_log_value_roundtrip [OF serde that(2)] by (simp add: decode_op_def)
  note scan = numbered_scan [OF holds dec]
  have "\<forall>(k, v) \<in> set ?E. \<exists>n x. k = op_log_store_key (op_key x) \<and> utf8_valid (as_bytes (op_key x))
      \<and> encode_durable_op_log_value J n x = Inr v"
    using scan(2) holds unfolding numbered_holds_def op_log_store_key_def by fastforce
  note folded = op_log_entry_fold [OF serde this, of "[]" 0]
  let ?ev = "take (length es - L) (map snd es)"
  have "scan_prefix st (as_bytes OP_LOG_STORE_PREFIX) = Inr ?E"
    using run ok by (auto simp: hydrate_op_log_def Let_def dest: scan_table_ok)
  then have next_seq: "next_sequence = fold (\<lambda>e b. max b (saturating_add (fst (decode_op J e)) 1)) ?E 0"
    and w: "persist_op_log_evictions ?ev st = (st', Inr ())" and log: "log = last_n L (map snd es)"
    using run folded scan(1)
    by (auto simp: hydrate_op_log_def L_def [symmetric] st_bind_Inr st_bind_scan prune_op_log_eq L)
  have "saturating_add (fst e) 1 \<le> next_sequence" if "e \<in> set es" for e
  proof -
    have "set (sort_key fst (map (decode_op J) ?E)) = decode_op J ` set ?E" by simp
    with that scan(1) obtain f where "f \<in> set ?E" "decode_op J f = e" by auto
    then show ?thesis unfolding next_seq
      using fold_max_ge(2) [of f ?E "\<lambda>e. saturating_add (fst (decode_op J e)) 1" 0] by simp
  qed
  moreover note persist_op_log_evictions_view [OF ok w]
  moreover have "op_log_holds J (batch_view [] (map (\<lambda>x. op_log_store_key (op_key x)) ?ev) ?m) (drop (length es - L) es)"
    using holds by (rule numbered_delete_front) (force simp: op_log_store_key_def take_map)
  moreover have "drop (length es - L) es = last_n L es" by (simp add: last_n_def)
  ultimately show ?thesis using log by simp
qed

section \<open>Persisted batches\<close>

lemma number_plans_sorted:
  fixes plans :: "op_persistence_plan list"
  assumes "unat ns + length xs \<le> u64_max" "unat nl + length xs \<le> u64_max"
    and plans: "plans = fst (number_plans k l xs ns nl ev lev)"
  shows "sorted_wrt (<) (map seen_sequence plans) \<and> sorted_wrt (<) (map op_log_sequence plans)
    \<and> (\<forall>plan \<in> set plans. ns \<le> seen_sequence plan \<and> nl \<le> op_log_sequence plan)"
proof -
  have seq: "unat (seen_sequence (plans ! i)) = unat ns + i \<and> unat (op_log_sequence (plans ! i)) = unat nl + i"
    if "i < length plans" for i
    using number_plans_sequences [of i xs k l ns nl ev lev] that assms by simp
  then show ?thesis
    by (auto simp: sorted_wrt_iff_nth_less word_less_nat_alt word_le_nat_alt in_set_conv_nth)
qed

text \<open>The items a list of plans adds to the two tables.\<close>

definition seen_items :: "op_persistence_plan list \<Rightarrow> (u64 \<times> string) list" where
  "seen_items plans = map (\<lambda>plan. (seen_sequence plan, op_key (plan_op plan))) plans"

definition log_items :: "op_persistence_plan list \<Rightarrow> (u64 \<times> Op) list" where
  "log_items plans = map (\<lambda>plan. (op_log_sequence plan, plan_op plan)) plans"

lemma push_plans_encoded:
  "fold_res (push_plan J) plans acc = Inr acc' \<Longrightarrow> plan \<in> set plans \<Longrightarrow>
   \<exists>v. encode_durable_op_log_value J (op_log_sequence plan) (plan_op plan) = Inr v"
proof (induction plans arbitrary: acc)
  case (Cons p plans)
  then show ?case by (cases acc) (auto simp: push_plan_Inr split: sum.splits)
qed simp

lemma persist_plans_seen:
  assumes push: "fold_res (push_plan J) plans (sets0, []) = Inr (sets, deletes)"
    and sets0: "\<And>k v. (k, v) \<in> set sets0 \<Longrightarrow> \<exists>kind ns a. k = crdt_store_key kind ns a"
    and ids: "distinct (map (op_key \<circ> plan_op) plans)"
      "\<forall>plan \<in> set plans. utf8_valid (as_bytes (op_key (plan_op plan)))"
    and holds: "seen_holds m es" and order: "sorted_wrt (<) (map fst (es @ seen_items plans))"
    and fresh: "snd ` set es \<inter> (op_key \<circ> plan_op) ` set plans = {}"
  shows "seen_holds (batch_view sets deletes m)
        (filter (\<lambda>e. id (snd e) \<notin> set (concat (map seen_evicted plans))) (es @ seen_items plans))"
  using holds order
proof (rule numbered_batch)
  note members = push_plans_Inr [OF push]
  have keys: "prefixed_store_key SEEN_OP_STORE_PREFIX i = seen_op_store_key i" for i
    by (simp add: seen_op_store_key_def)
  have no_crdt: "(k, v) \<notin> set sets0" if "starts_with k (as_bytes SEEN_OP_STORE_PREFIX)" for k v
    using sets0 [of k v] that by auto
  show "distinct (map (id \<circ> snd) (es @ seen_items plans))"
    using holds ids(1) fresh by (auto simp: numbered_holds_def seen_items_def comp_def)
  show "\<forall>e \<in> set (seen_items plans). utf8_valid (as_bytes (id (snd e))) \<and> (\<exists>v. Inr (u64_to_be_bytes (fst e)) = Inr v)"
    using ids(2) by (auto simp: seen_items_def)
  show "(k, v) \<in> set sets \<longleftrightarrow> (\<exists>e \<in> set (seen_items plans). k = prefixed_store_key SEEN_OP_STORE_PREFIX (id (snd e))
      \<and> Inr (u64_to_be_bytes (fst e)) = Inr v)" if "starts_with k (as_bytes SEEN_OP_STORE_PREFIX)" for k v
    using members [of k v] no_crdt [OF that, of v] that by (auto simp: seen_items_def keys)
  show "prefixed_store_key SEEN_OP_STORE_PREFIX i \<in> set deletes \<longleftrightarrow> i \<in> set (concat (map seen_evicted plans))" for i
    using members by (auto simp: keys)
qed

lemma persist_plans_log:
  assumes push: "fold_res (push_plan J) plans (sets0, []) = Inr (sets, deletes)"
    and sets0: "\<And>k v. (k, v) \<in> set sets0 \<Longrightarrow> \<exists>kind ns a. k = crdt_store_key kind ns a"
    and ids: "distinct (map (op_key \<circ> plan_op) plans)"
      "\<forall>plan \<in> set plans. utf8_valid (as_bytes (op_key (plan_op plan)))"
    and holds: "op_log_holds J m fs" and order: "sorted_wrt (<) (map fst (fs @ log_items plans))"
    and fresh: "(op_key \<circ> snd) ` set fs \<inter> (op_key \<circ> plan_op) ` set plans = {}"
  shows "op_log_holds J (batch_view sets deletes m)
        (filter (\<lambda>e. op_key (snd e) \<notin> op_key ` set (concat (map op_log_evicted plans))) (fs @ log_items plans))"
  using holds order
proof (rule numbered_batch)
  note members = push_plans_Inr [OF push]
  have keys: "prefixed_store_key OP_LOG_STORE_PREFIX i = op_log_store_key i" for i
    by (simp add: op_log_store_key_def)
  have no_crdt: "(k, v) \<notin> set sets0" if "starts_with k (as_bytes OP_LOG_STORE_PREFIX)" for k v
    using sets0 [of k v] that by auto
  show "distinct (map (op_key \<circ> snd) (fs @ log_items plans))"
    using holds ids(1) fresh by (auto simp: numbered_holds_def log_items_def comp_def image_image)
  show "\<forall>e \<in> set (log_items plans). utf8_valid (as_bytes (op_key (snd e)))
      \<and> (\<exists>v. encode_durable_op_log_value J (fst e) (snd e) = Inr v)"
    using ids(2) push_plans_encoded [OF push] by (auto simp: log_items_def)
  show "(k, v) \<in> set sets \<longleftrightarrow> (\<exists>e \<in> set (log_items plans). k = prefixed_store_key OP_LOG_STORE_PREFIX (op_key (snd e))
      \<and> encode_durable_op_log_value J (fst e) (snd e) = Inr v)"
    if "starts_with k (as_bytes OP_LOG_STORE_PREFIX)" for k v
    using members [of k v] no_crdt [OF that, of v] that by (auto simp: log_items_def keys)
  show "prefixed_store_key OP_LOG_STORE_PREFIX i \<in> set deletes \<longleftrightarrow> i \<in> op_key ` set (concat (map op_log_evicted plans))" for i
    using members by (auto simp: keys)
qed

end
