(* ===== verification/Runtime_Metrics.thy ===== *)
theory Runtime_Metrics
  imports Ordered_Map
begin

text \<open>
  \<open>nx-core/src/observability.rs\<close>: the counters every component reports to, the histogram of
  the time spent applying remote batches, and the per-module table with its bounded number
  of labels. A \<open>Duration\<close> is its number of nanoseconds. \<open>fetch_add\<close> on an atomic wraps, the
  per-module counters saturate. The HTTP server and the text rendering are not modelled.
\<close>

type_synonym duration = nat

definition duration_ns :: "duration \<Rightarrow> u64" where
  "duration_ns d = (if d \<le> u64_max then of_nat d else of_nat u64_max)"

section \<open>The histogram\<close>

definition REMOTE_OP_APPLY_BUCKETS :: "(string \<times> u64) list" where
  "REMOTE_OP_APPLY_BUCKETS =
    [(''0.0001'', 100000), (''0.00025'', 250000), (''0.0005'', 500000), (''0.001'', 1000000),
     (''0.0025'', 2500000), (''0.005'', 5000000), (''0.01'', 10000000), (''0.025'', 25000000),
     (''0.05'', 50000000), (''0.1'', 100000000), (''0.25'', 250000000), (''0.5'', 500000000),
     (''1'', 1000000000), (''2.5'', 2500000000), (''5'', 5000000000)]"

record duration_histogram =
  buckets :: "u64 list"
  sum_ns :: u64
  hist_count :: u64

definition duration_histogram_default :: duration_histogram where
  "duration_histogram_default = \<lparr>buckets = replicate (length REMOTE_OP_APPLY_BUCKETS) 0, sum_ns = 0, hist_count = 0\<rparr>"

text \<open>\<open>iter().position(..)\<close>.\<close>

fun position :: "('a \<Rightarrow> bool) \<Rightarrow> 'a list \<Rightarrow> nat option" where
  "position p [] = None"
| "position p (x # xs) = (if p x then Some 0 else map_option Suc (position p xs))"

definition duration_histogram_record :: "duration \<Rightarrow> duration_histogram \<Rightarrow> duration_histogram" where
  "duration_histogram_record d h =
     (let nanoseconds = duration_ns d;
          h = h\<lparr>hist_count := hist_count h + 1, sum_ns := sum_ns h + nanoseconds\<rparr>
      in case position (\<lambda>(_, upper_bound_ns). nanoseconds \<le> upper_bound_ns) REMOTE_OP_APPLY_BUCKETS of
           Some index \<Rightarrow> h\<lparr>buckets := (buckets h)[index := buckets h ! index + 1]\<rparr>
         | None \<Rightarrow> h)"

text \<open>
  The running totals that \<open>render_duration_histogram\<close> prints, one per finite bucket.
\<close>

fun cumulative :: "u64 \<Rightarrow> u64 list \<Rightarrow> u64 list" where
  "cumulative c [] = []"
| "cumulative c (b # bs) = saturating_add c b # cumulative (saturating_add c b) bs"

definition rendered_buckets :: "duration_histogram \<Rightarrow> (string \<times> u64) list" where
  "rendered_buckets h = zip (map fst REMOTE_OP_APPLY_BUCKETS) (cumulative 0 (buckets h))"

section \<open>Per-module metrics\<close>

definition MAX_WASM_MODULE_METRIC_LABELS :: nat where
  "MAX_WASM_MODULE_METRIC_LABELS = 128"

definition WASM_MODULE_OVERFLOW_LABEL :: string where
  "WASM_MODULE_OVERFLOW_LABEL = ''overflow''"

record wasm_module_metrics =
  invocations_ok :: u64
  invocations_error :: u64
  cache_hits :: u64
  cache_misses :: u64
  compilation_duration_ns :: u64
  instantiations :: u64
  instantiation_duration_ns :: u64
  executions :: u64
  execution_duration_ns :: u64
  linear_memory_current_bytes :: u64
  linear_memory_peak_bytes :: u64
  linear_memory_growth_bytes :: u64

definition wasm_module_metrics_default :: wasm_module_metrics where
  "wasm_module_metrics_default =
     \<lparr>invocations_ok = 0, invocations_error = 0, cache_hits = 0, cache_misses = 0,
      compilation_duration_ns = 0, instantiations = 0, instantiation_duration_ns = 0,
      executions = 0, execution_duration_ns = 0, linear_memory_current_bytes = 0,
      linear_memory_peak_bytes = 0, linear_memory_growth_bytes = 0\<rparr>"

record runtime_metrics =
  ops_total :: u64
  peers_connected :: u64
  sync_latency_ms :: u64
  sync_errors_total :: u64
  observability_requests_total :: u64
  observability_errors_total :: u64
  peer_connects_total :: u64
  peer_disconnects_total :: u64
  broadcast_batches_total :: u64
  broadcast_ops_total :: u64
  remote_ops_received_total :: u64
  remote_ops_applied_total :: u64
  remote_ops_duplicate_total :: u64
  remote_op_batches_total :: u64
  remote_op_apply_errors_total :: u64
  remote_op_batch_apply_duration :: duration_histogram
  wasm_modules :: "(string, wasm_module_metrics) omap"
  is_ready :: bool

definition runtime_metrics_default :: runtime_metrics where
  "runtime_metrics_default =
     \<lparr>ops_total = 0, peers_connected = 0, sync_latency_ms = 0, sync_errors_total = 0,
      observability_requests_total = 0, observability_errors_total = 0, peer_connects_total = 0,
      peer_disconnects_total = 0, broadcast_batches_total = 0, broadcast_ops_total = 0,
      remote_ops_received_total = 0, remote_ops_applied_total = 0, remote_ops_duplicate_total = 0,
      remote_op_batches_total = 0, remote_op_apply_errors_total = 0,
      remote_op_batch_apply_duration = duration_histogram_default, wasm_modules = om_empty,
      is_ready = False\<rparr>"

definition record_ops :: "u64 \<Rightarrow> runtime_metrics \<Rightarrow> runtime_metrics" where
  "record_ops n m = m\<lparr>ops_total := ops_total m + n\<rparr>"

definition set_peers_connected :: "nat \<Rightarrow> runtime_metrics \<Rightarrow> runtime_metrics" where
  "set_peers_connected n m = m\<lparr>peers_connected := of_nat n\<rparr>"

definition record_sync_latency :: "duration \<Rightarrow> runtime_metrics \<Rightarrow> runtime_metrics" where
  "record_sync_latency d m = m\<lparr>sync_latency_ms := of_nat (d div 1000000)\<rparr>"

definition record_sync_error :: "runtime_metrics \<Rightarrow> runtime_metrics" where
  "record_sync_error m = m\<lparr>sync_errors_total := sync_errors_total m + 1\<rparr>"

definition record_observability_request :: "runtime_metrics \<Rightarrow> runtime_metrics" where
  "record_observability_request m = m\<lparr>observability_requests_total := observability_requests_total m + 1\<rparr>"

definition record_observability_error :: "runtime_metrics \<Rightarrow> runtime_metrics" where
  "record_observability_error m = m\<lparr>observability_errors_total := observability_errors_total m + 1\<rparr>"

definition record_peer_connect :: "runtime_metrics \<Rightarrow> runtime_metrics" where
  "record_peer_connect m = m\<lparr>peer_connects_total := peer_connects_total m + 1\<rparr>"

definition record_peer_disconnect :: "runtime_metrics \<Rightarrow> runtime_metrics" where
  "record_peer_disconnect m = m\<lparr>peer_disconnects_total := peer_disconnects_total m + 1\<rparr>"

definition record_broadcast_batch :: "nat \<Rightarrow> runtime_metrics \<Rightarrow> runtime_metrics" where
  "record_broadcast_batch ops m =
     m\<lparr>broadcast_batches_total := broadcast_batches_total m + 1,
       broadcast_ops_total := broadcast_ops_total m + of_nat ops\<rparr>"

definition record_remote_op_batch ::
    "nat \<Rightarrow> nat \<Rightarrow> nat \<Rightarrow> duration \<Rightarrow> bool \<Rightarrow> runtime_metrics \<Rightarrow> runtime_metrics" where
  "record_remote_op_batch received applied duplicates d failed m =
     m\<lparr>remote_ops_received_total := remote_ops_received_total m + of_nat received,
       remote_ops_applied_total := remote_ops_applied_total m + of_nat applied,
       remote_ops_duplicate_total := remote_ops_duplicate_total m + of_nat duplicates,
       remote_op_batches_total := remote_op_batches_total m + 1,
       remote_op_apply_errors_total := remote_op_apply_errors_total m + (if failed then 1 else 0),
       remote_op_batch_apply_duration := duration_histogram_record d (remote_op_batch_apply_duration m)\<rparr>"

definition set_ready :: "bool \<Rightarrow> runtime_metrics \<Rightarrow> runtime_metrics" where
  "set_ready r m = m\<lparr>is_ready := r\<rparr>"

definition update_wasm_module ::
    "string \<Rightarrow> (wasm_module_metrics \<Rightarrow> wasm_module_metrics) \<Rightarrow> runtime_metrics \<Rightarrow> runtime_metrics" where
  "update_wasm_module name update m =
     (let modules = wasm_modules m;
          label = (if om_contains_key modules name \<or> om_len modules < MAX_WASM_MODULE_METRIC_LABELS - 1
                   then name else WASM_MODULE_OVERFLOW_LABEL)
      in m\<lparr>wasm_modules := om_insert label (update (om_get_or modules label wasm_module_metrics_default)) modules\<rparr>)"

definition record_wasm_cache_lookup :: "string \<Rightarrow> bool \<Rightarrow> runtime_metrics \<Rightarrow> runtime_metrics" where
  "record_wasm_cache_lookup name hit = update_wasm_module name (\<lambda>w.
     if hit then w\<lparr>cache_hits := saturating_add (cache_hits w) 1\<rparr>
     else w\<lparr>cache_misses := saturating_add (cache_misses w) 1\<rparr>)"

definition record_wasm_compilation :: "string \<Rightarrow> duration \<Rightarrow> runtime_metrics \<Rightarrow> runtime_metrics" where
  "record_wasm_compilation name d = update_wasm_module name (\<lambda>w.
     w\<lparr>compilation_duration_ns := saturating_add (compilation_duration_ns w) (duration_ns d)\<rparr>)"

definition record_wasm_instantiation :: "string \<Rightarrow> duration \<Rightarrow> runtime_metrics \<Rightarrow> runtime_metrics" where
  "record_wasm_instantiation name d = update_wasm_module name (\<lambda>w.
     w\<lparr>instantiations := saturating_add (instantiations w) 1,
       instantiation_duration_ns := saturating_add (instantiation_duration_ns w) (duration_ns d)\<rparr>)"

definition record_wasm_execution ::
    "string \<Rightarrow> duration \<Rightarrow> u64 \<Rightarrow> u64 \<Rightarrow> runtime_metrics \<Rightarrow> runtime_metrics" where
  "record_wasm_execution name d initial_memory_bytes final_memory_bytes = update_wasm_module name (\<lambda>w.
     w\<lparr>executions := saturating_add (executions w) 1,
       execution_duration_ns := saturating_add (execution_duration_ns w) (duration_ns d),
       linear_memory_current_bytes := final_memory_bytes,
       linear_memory_peak_bytes := max (linear_memory_peak_bytes w) final_memory_bytes,
       linear_memory_growth_bytes := saturating_add (linear_memory_growth_bytes w)
         (if initial_memory_bytes \<le> final_memory_bytes then final_memory_bytes - initial_memory_bytes else 0)\<rparr>)"

definition record_wasm_invocation :: "string \<Rightarrow> bool \<Rightarrow> runtime_metrics \<Rightarrow> runtime_metrics" where
  "record_wasm_invocation name success = update_wasm_module name (\<lambda>w.
     if success then w\<lparr>invocations_ok := saturating_add (invocations_ok w) 1\<rparr>
     else w\<lparr>invocations_error := saturating_add (invocations_error w) 1\<rparr>)"

section \<open>Lemmas\<close>

text \<open>At most 127 labels, or 128 of which one is the overflow label.\<close>

definition labels_bounded :: "runtime_metrics \<Rightarrow> bool" where
  "labels_bounded m =
     (om_len (wasm_modules m) < MAX_WASM_MODULE_METRIC_LABELS
      \<or> om_len (wasm_modules m) = MAX_WASM_MODULE_METRIC_LABELS
        \<and> om_contains_key (wasm_modules m) WASM_MODULE_OVERFLOW_LABEL)"

lemma om_len_insert: "om_len (om_insert k v m) = (if om_contains_key m k then om_len m else Suc (om_len m))"
  by (simp add: om_len_card om_contains_key_iff card_insert_if)

lemma position_Some:
  "position p xs = Some i \<longleftrightarrow> i < length xs \<and> p (xs ! i) \<and> (\<forall>j < i. \<not> p (xs ! j))"
proof (induction xs arbitrary: i)
  case (Cons x xs)
  show ?case by (cases i) (auto simp: Cons nth_Cons' less_Suc_eq_0_disj)
qed simp

lemma position_None: "position p xs = None \<longleftrightarrow> (\<forall>x \<in> set xs. \<not> p x)"
  by (induction xs) auto

lemma bucket_bounds_sorted: "sorted_wrt (<) (map snd REMOTE_OP_APPLY_BUCKETS)"
  by (simp add: REMOTE_OP_APPLY_BUCKETS_def)

text \<open>The bucket a duration falls into.\<close>

definition bucket_of :: "duration \<Rightarrow> nat option" where
  "bucket_of d = position (\<lambda>(_, b). duration_ns d \<le> b) REMOTE_OP_APPLY_BUCKETS"

lemma bucket_of_le:
  assumes "i < length REMOTE_OP_APPLY_BUCKETS"
  shows "duration_ns d \<le> snd (REMOTE_OP_APPLY_BUCKETS ! i) \<longleftrightarrow> (\<exists>j \<le> i. bucket_of d = Some j)"
proof
  assume le: "duration_ns d \<le> snd (REMOTE_OP_APPLY_BUCKETS ! i)"
  then have "bucket_of d \<noteq> None"
    using nth_mem [OF assms] by (auto simp: bucket_of_def position_None split_beta)
  then obtain j where j: "bucket_of d = Some j" by blast
  with le have "j \<le> i" unfolding bucket_of_def position_Some by (force simp: not_less [symmetric])
  with j show "\<exists>j \<le> i. bucket_of d = Some j" by blast
next
  assume "\<exists>j \<le> i. bucket_of d = Some j"
  then obtain j where "j \<le> i" "duration_ns d \<le> snd (REMOTE_OP_APPLY_BUCKETS ! j)"
    by (auto simp: bucket_of_def position_Some split_beta)
  moreover have "snd (REMOTE_OP_APPLY_BUCKETS ! j) \<le> snd (REMOTE_OP_APPLY_BUCKETS ! i)"
    using bucket_bounds_sorted \<open>j \<le> i\<close> assms
    by (cases "i = j") (auto simp: sorted_wrt_map sorted_wrt_iff_nth_less order_less_imp_le)
  ultimately show "duration_ns d \<le> snd (REMOTE_OP_APPLY_BUCKETS ! i)" by simp
qed

text \<open>What a sequence of recordings leaves in each bucket.\<close>

lemma histogram_buckets:
  "length (buckets (fold duration_histogram_record ds h)) = length (buckets h)
   \<and> hist_count (fold duration_histogram_record ds h) = hist_count h + of_nat (length ds)
   \<and> sum_ns (fold duration_histogram_record ds h) = sum_ns h + (\<Sum>d\<leftarrow>ds. duration_ns d)
   \<and> (length (buckets h) = length REMOTE_OP_APPLY_BUCKETS \<longrightarrow> (\<forall>i < length (buckets h).
       buckets (fold duration_histogram_record ds h) ! i
       = buckets h ! i + of_nat (length (filter (\<lambda>d. bucket_of d = Some i) ds))))"
proof (induction ds arbitrary: h)
  case (Cons d ds)
  let ?h = "duration_histogram_record d h"
  have h: "length (buckets ?h) = length (buckets h)" "hist_count ?h = hist_count h + 1"
    "sum_ns ?h = sum_ns h + duration_ns d"
    "i < length (buckets h) \<Longrightarrow> buckets ?h ! i = buckets h ! i + (if bucket_of d = Some i then 1 else 0)" for i
    by (auto simp: duration_histogram_record_def bucket_of_def Let_def nth_list_update split: option.splits)
  show ?case using Cons.IH [of ?h] by (simp add: h add.assoc)
qed simp

lemma cumulative_nth:
  "i < length bs \<Longrightarrow> unat (cumulative c bs ! i) = min (unat c + (\<Sum>b\<leftarrow>take (Suc i) bs. unat b)) u64_max"
proof (induction bs arbitrary: c i)
  case (Cons b bs)
  show ?case
  proof (cases i)
    case (Suc j)
    with Cons.IH [of j "saturating_add c b"] Cons.prems show ?thesis by (simp add: min_def)
  qed simp
qed simp

lemma length_cumulative [simp]: "length (cumulative c bs) = length bs"
  by (induction bs arbitrary: c) simp_all

lemma sum_bucket_counts:
  "(\<Sum>k\<leftarrow>[0..<n]. length (filter (\<lambda>d. f d = Some k) ds)) = length (filter (\<lambda>d. \<exists>j < n. f d = Some j) ds)"
proof (induction ds)
  case (Cons d ds)
  have "(\<Sum>k\<leftarrow>[0..<n]. length (filter (\<lambda>d. f d = Some k) (d # ds)))
      = (\<Sum>k\<leftarrow>[0..<n]. if f d = Some k then 1 else 0) + (\<Sum>k\<leftarrow>[0..<n]. length (filter (\<lambda>d. f d = Some k) ds))"
    by (simp add: sum_list_addf [symmetric] if_distrib cong: if_cong) (rule arg_cong [where f = sum_list], simp)
  moreover have "(\<Sum>k\<leftarrow>[0..<n]. if f d = Some k then 1 else 0) = (if \<exists>j < n. f d = Some j then 1 else (0 :: nat))"
    by (cases "f d") (auto simp: sum_list_distinct_conv_sum_set if_distrib sum.delta')
  ultimately show ?case using Cons.IH by simp
qed simp

section \<open>Properties of the metrics\<close>

text \<open>
  The histogram reports what was recorded: after fewer than \<open>2\<^sup>6\<^sup>4\<close> recordings the value
  rendered for each bucket is the number of recorded durations not above its bound, and the
  total count is the number of recordings.
\<close>

theorem histogram_cumulative_counts:
  assumes "length ds \<le> u64_max" and "i < length REMOTE_OP_APPLY_BUCKETS"
  shows "unat (snd (rendered_buckets (fold duration_histogram_record ds duration_histogram_default) ! i))
      = length (filter (\<lambda>d. duration_ns d \<le> snd (REMOTE_OP_APPLY_BUCKETS ! i)) ds)
    \<and> unat (hist_count (fold duration_histogram_record ds duration_histogram_default)) = length ds"
proof -
  let ?h = "fold duration_histogram_record ds duration_histogram_default"
  let ?n = "\<lambda>k. length (filter (\<lambda>d. bucket_of d = Some k) ds)"
  note H = histogram_buckets [of ds duration_histogram_default]
  have len: "length (buckets ?h) = length REMOTE_OP_APPLY_BUCKETS"
    using H by (simp add: duration_histogram_default_def)
  have "unat (buckets ?h ! k) = ?n k" if "k < length REMOTE_OP_APPLY_BUCKETS" for k
    using H that le_trans [OF length_filter_le assms(1)]
    by (simp add: duration_histogram_default_def unat_of_nat_u64)
  then have "map unat (take (Suc i) (buckets ?h)) = map ?n [0..<Suc i]"
    using assms(2) len by (intro nth_equalityI) (auto simp del: upt_Suc)
  then have "(\<Sum>b\<leftarrow>take (Suc i) (buckets ?h). unat b) = length (filter (\<lambda>d. \<exists>j < Suc i. bucket_of d = Some j) ds)"
    by (simp only: sum_bucket_counts)
  also have "\<dots> = length (filter (\<lambda>d. duration_ns d \<le> snd (REMOTE_OP_APPLY_BUCKETS ! i)) ds)"
    by (simp add: bucket_of_le [OF assms(2)] less_Suc_eq_le)
  finally have sum: "(\<Sum>b\<leftarrow>take (Suc i) (buckets ?h). unat b)
      = length (filter (\<lambda>d. duration_ns d \<le> snd (REMOTE_OP_APPLY_BUCKETS ! i)) ds)" .
  with cumulative_nth [of i "buckets ?h" 0] len assms
    length_filter_le [of "\<lambda>d. duration_ns d \<le> snd (REMOTE_OP_APPLY_BUCKETS ! i)" ds]
  have "unat (snd (rendered_buckets ?h ! i)) = length (filter (\<lambda>d. duration_ns d \<le> snd (REMOTE_OP_APPLY_BUCKETS ! i)) ds)"
    by (simp add: rendered_buckets_def)
  moreover have "unat (hist_count ?h) = length ds"
    using H assms(1) by (simp add: duration_histogram_default_def unat_of_nat_u64)
  ultimately show ?thesis by blast
qed

theorem histogram_cumulative_counts_witness:
  "unat (snd (rendered_buckets (fold duration_histogram_record [90000, 300000, 200000] duration_histogram_default) ! 1)) = 2"
  using histogram_cumulative_counts [of "[90000, 300000, 200000]" 1]
  by (simp add: REMOTE_OP_APPLY_BUCKETS_def duration_ns_def u64_max_def word_le_nat_alt)

text \<open>
  The module table stays bounded and separated: whatever module reports, at most 128
  labels exist (the 128th only the overflow label), a module already listed keeps its own
  entry, and no entry but the reported one (or the overflow entry) changes.
\<close>

theorem wasm_labels_bounded:
  assumes "labels_bounded m"
  shows "labels_bounded (update_wasm_module name f m)
    \<and> (\<forall>other. other \<noteq> name \<and> other \<noteq> WASM_MODULE_OVERFLOW_LABEL \<longrightarrow>
         om_get (wasm_modules (update_wasm_module name f m)) other = om_get (wasm_modules m) other)
    \<and> (\<forall>w. om_get (wasm_modules m) name = Some w \<longrightarrow>
         om_get (wasm_modules (update_wasm_module name f m)) name = Some (f w))"
  using assms
  by (auto simp: labels_bounded_def update_wasm_module_def Let_def om_len_insert om_get_or_def
      om_contains_key_def MAX_WASM_MODULE_METRIC_LABELS_def split: if_splits)

theorem wasm_labels_bounded_witness:
  "om_get (wasm_modules (record_wasm_invocation ''a'' True (record_wasm_invocation ''b'' True runtime_metrics_default))) ''b''
   = Some (wasm_module_metrics_default\<lparr>invocations_ok := 1\<rparr>)"
proof -
  let ?m = "record_wasm_invocation ''b'' True runtime_metrics_default"
  have "labels_bounded ?m"
    by (simp add: labels_bounded_def record_wasm_invocation_def update_wasm_module_def runtime_metrics_default_def
        MAX_WASM_MODULE_METRIC_LABELS_def om_len_insert om_len_card Let_def)
  from wasm_labels_bounded [OF this, of "''a''"]
  have "om_get (wasm_modules (record_wasm_invocation ''a'' True ?m)) ''b'' = om_get (wasm_modules ?m) ''b''"
    by (simp add: record_wasm_invocation_def WASM_MODULE_OVERFLOW_LABEL_def)
  then show ?thesis
    by (simp add: record_wasm_invocation_def update_wasm_module_def runtime_metrics_default_def Let_def om_get_or_def
        wasm_module_metrics_default_def MAX_WASM_MODULE_METRIC_LABELS_def om_len_card saturating_add_def u64_max_def)
qed

end
