(* ===== verification/Remote_Apply.thy ===== *)
theory Remote_Apply
  imports Tracking_Recovery Runtime_Metrics
begin

text \<open>
  \<open>sync_manager/apply.rs\<close>: the application of a batch of remote operations. Operations are
  deduplicated against the seen window and within the batch, folded into copies of the
  states they touch, persisted in one atomic batch with their bookkeeping, and only then
  installed in memory. The state is what \<open>RemoteOpApplyContext\<close> shares: six registries, the
  seen window, the operation log, the two sequence counters, the store and the metrics.
  All write locks are held for the whole function, so it is one step.
\<close>

section \<open>The appliers\<close>

text \<open>\<open>updates.entry(key).or_insert_with(|| registry.get(key).cloned().unwrap_or_else(new))\<close>.\<close>

definition entry_or_insert :: "'a registry \<Rightarrow> 'a \<Rightarrow> string \<Rightarrow> 'a registry \<Rightarrow> 'a" where
  "entry_or_insert reg new key updates =
     (case om_get updates key of Some x \<Rightarrow> x | None \<Rightarrow> om_get_or reg key new)"

definition apply_remote_gcounter_increment ::
    "Op \<Rightarrow> string \<Rightarrow> u64 \<Rightarrow> gcounter registry \<Rightarrow> gcounter registry \<Rightarrow> gcounter registry" where
  "apply_remote_gcounter_increment x key increment reg updates =
     om_insert key (gcounter_increment (op_origin x) increment (entry_or_insert reg gcounter_new key updates)) updates"

definition apply_remote_pncounter_op ::
    "Op \<Rightarrow> string \<Rightarrow> pncounter registry \<Rightarrow> pncounter registry \<Rightarrow> pncounter registry" where
  "apply_remote_pncounter_op x key reg updates =
     om_insert key (fst (pncounter_apply_op x (entry_or_insert reg pncounter_new key updates))) updates"

definition apply_remote_lww_register_set ::
    "Op \<Rightarrow> string \<Rightarrow> bytes \<Rightarrow> u64 \<Rightarrow> lww_register registry \<Rightarrow> lww_register registry \<Rightarrow> lww_register registry" where
  "apply_remote_lww_register_set x key value timestamp_ms reg updates =
     (case om_get updates key of
        Some register \<Rightarrow>
          om_insert key (fst (lww_register_assign value timestamp_ms (op_origin x) register)) updates
      | None \<Rightarrow>
          (case om_get reg key of
             None \<Rightarrow> om_insert key (lww_register_new value timestamp_ms (op_origin x)) updates
           | Some existing \<Rightarrow>
               (case lww_register_assign value timestamp_ms (op_origin x) existing of
                  (register, True) \<Rightarrow> om_insert key register updates
                | (_, False) \<Rightarrow> updates)))"

definition apply_remote_lww_map_set ::
    "Op \<Rightarrow> string \<Rightarrow> string \<Rightarrow> bytes \<Rightarrow> u64 \<Rightarrow> lww_map registry \<Rightarrow> lww_map registry \<Rightarrow> lww_map registry" where
  "apply_remote_lww_map_set x key field value timestamp_ms reg updates =
     om_insert key (fst (lww_map_set field value timestamp_ms (op_origin x) (entry_or_insert reg lww_map_new key updates))) updates"

definition apply_remote_lww_map_remove ::
    "Op \<Rightarrow> string \<Rightarrow> string \<Rightarrow> u64 \<Rightarrow> lww_map registry \<Rightarrow> lww_map registry \<Rightarrow> lww_map registry" where
  "apply_remote_lww_map_remove x key field timestamp_ms reg updates =
     om_insert key (fst (lww_map_remove field timestamp_ms (op_origin x) (entry_or_insert reg lww_map_new key updates))) updates"

definition apply_remote_orset_add ::
    "string \<Rightarrow> string \<Rightarrow> string \<Rightarrow> orset registry \<Rightarrow> orset registry \<Rightarrow> orset registry" where
  "apply_remote_orset_add key element tag reg updates =
     om_insert key (fst (orset_apply_add element tag (entry_or_insert reg orset_new key updates))) updates"

definition apply_remote_orset_remove ::
    "string \<Rightarrow> string \<Rightarrow> string list \<Rightarrow> orset registry \<Rightarrow> orset registry \<Rightarrow> orset registry" where
  "apply_remote_orset_remove key element observed_tags reg updates =
     om_insert key (fst (orset_apply_remove element observed_tags (entry_or_insert reg orset_new key updates))) updates"

definition apply_remote_rga_insert ::
    "string \<Rightarrow> string \<Rightarrow> string option \<Rightarrow> bytes \<Rightarrow> rga registry \<Rightarrow> rga registry \<Rightarrow> rga registry" where
  "apply_remote_rga_insert key i parent value reg updates =
     om_insert key (fst (rga_apply_insert i parent value (entry_or_insert reg rga_new key updates))) updates"

definition apply_remote_rga_delete ::
    "string \<Rightarrow> string \<Rightarrow> rga registry \<Rightarrow> rga registry \<Rightarrow> rga registry" where
  "apply_remote_rga_delete key i reg updates =
     om_insert key (fst (rga_apply_delete i (entry_or_insert reg rga_new key updates))) updates"

text \<open>The six \<open>OpApplier\<close>s, each acting on the operations of its kind and on no others.\<close>

definition gcounter_applier :: "Op \<Rightarrow> registries \<Rightarrow> registries \<Rightarrow> registries" where
  "gcounter_applier x R U =
     (case op_kind x of
        GCounterIncrement key increment \<Rightarrow>
          U\<lparr>counters := apply_remote_gcounter_increment x key increment (counters R) (counters U)\<rparr>
      | _ \<Rightarrow> U)"

definition pncounter_applier :: "Op \<Rightarrow> registries \<Rightarrow> registries \<Rightarrow> registries" where
  "pncounter_applier x R U =
     (case op_kind x of
        PNCounterIncrement key _ \<Rightarrow> U\<lparr>pncounters := apply_remote_pncounter_op x key (pncounters R) (pncounters U)\<rparr>
      | PNCounterDecrement key _ \<Rightarrow> U\<lparr>pncounters := apply_remote_pncounter_op x key (pncounters R) (pncounters U)\<rparr>
      | _ \<Rightarrow> U)"

definition lww_register_applier :: "Op \<Rightarrow> registries \<Rightarrow> registries \<Rightarrow> registries" where
  "lww_register_applier x R U =
     (case op_kind x of
        LwwRegisterSet key value timestamp_ms \<Rightarrow>
          U\<lparr>lww_registers := apply_remote_lww_register_set x key value timestamp_ms (lww_registers R) (lww_registers U)\<rparr>
      | _ \<Rightarrow> U)"

definition lww_map_applier :: "Op \<Rightarrow> registries \<Rightarrow> registries \<Rightarrow> registries" where
  "lww_map_applier x R U =
     (case op_kind x of
        LwwMapSet key field value timestamp_ms \<Rightarrow>
          U\<lparr>lww_maps := apply_remote_lww_map_set x key field value timestamp_ms (lww_maps R) (lww_maps U)\<rparr>
      | LwwMapRemove key field timestamp_ms \<Rightarrow>
          U\<lparr>lww_maps := apply_remote_lww_map_remove x key field timestamp_ms (lww_maps R) (lww_maps U)\<rparr>
      | _ \<Rightarrow> U)"

definition orset_applier :: "Op \<Rightarrow> registries \<Rightarrow> registries \<Rightarrow> registries" where
  "orset_applier x R U =
     (case op_kind x of
        ORSetAdd key element tag \<Rightarrow> U\<lparr>orsets := apply_remote_orset_add key element tag (orsets R) (orsets U)\<rparr>
      | ORSetRemove key element observed_tags \<Rightarrow>
          U\<lparr>orsets := apply_remote_orset_remove key element observed_tags (orsets R) (orsets U)\<rparr>
      | _ \<Rightarrow> U)"

definition rga_applier :: "Op \<Rightarrow> registries \<Rightarrow> registries \<Rightarrow> registries" where
  "rga_applier x R U =
     (case op_kind x of
        RgaInsert key i parent value \<Rightarrow> U\<lparr>rgas := apply_remote_rga_insert key i parent value (rgas R) (rgas U)\<rparr>
      | RgaDelete key i \<Rightarrow> U\<lparr>rgas := apply_remote_rga_delete key i (rgas R) (rgas U)\<rparr>
      | _ \<Rightarrow> U)"

definition apply_remote_op_to_crdt_updates :: "Op \<Rightarrow> registries \<Rightarrow> registries \<Rightarrow> registries" where
  "apply_remote_op_to_crdt_updates x R U =
     (case op_kind x of
        GCounterIncrement _ _ \<Rightarrow> gcounter_applier x R U
      | PNCounterIncrement _ _ \<Rightarrow> pncounter_applier x R U
      | PNCounterDecrement _ _ \<Rightarrow> pncounter_applier x R U
      | LwwRegisterSet _ _ _ \<Rightarrow> lww_register_applier x R U
      | LwwMapSet _ _ _ _ \<Rightarrow> lww_map_applier x R U
      | LwwMapRemove _ _ _ \<Rightarrow> lww_map_applier x R U
      | ORSetAdd _ _ _ \<Rightarrow> orset_applier x R U
      | ORSetRemove _ _ _ \<Rightarrow> orset_applier x R U
      | RgaInsert _ _ _ _ \<Rightarrow> rga_applier x R U
      | RgaDelete _ _ \<Rightarrow> rga_applier x R U)"

section \<open>Applying a batch\<close>

record 'db sync_state =
  sync_registries :: registries
  seen_ops_window :: seen_ops
  op_log :: "Op list"
  seen_ops_next_sequence :: u64
  op_log_next_sequence :: u64
  op_log_limit :: nat
  sync_store :: "'db store"
  sync_metrics :: runtime_metrics

fun collect_updates ::
    "string set \<Rightarrow> registries \<Rightarrow> Op list \<Rightarrow> string list \<Rightarrow> Op list \<Rightarrow> registries \<Rightarrow>
     string list \<times> Op list \<times> registries" where
  "collect_updates ids R [] inserted_ids inserted_ops U = (inserted_ids, inserted_ops, U)"
| "collect_updates ids R (x # xs) inserted_ids inserted_ops U =
     (if op_key x \<in> ids \<or> list_ex (\<lambda>i. i = op_key x) inserted_ids
      then collect_updates ids R xs inserted_ids inserted_ops U
      else collect_updates ids R xs (inserted_ids @ [op_key x]) (inserted_ops @ [x])
             (apply_remote_op_to_crdt_updates x R U))"

text \<open>\<open>elapsed\<close> is the time \<open>apply_started.elapsed()\<close> reports to the metrics.\<close>

definition apply_remote_ops ::
    "serde \<Rightarrow> duration \<Rightarrow> Op list \<Rightarrow> 'db sync_state \<Rightarrow> 'db sync_state \<times> (storage_error + unit)" where
  "apply_remote_ops J elapsed ops s =
     (if ops = [] then (s, Inr ())
      else
        let seen = seen_ops_window s; log = op_log s; R = sync_registries s in
        case collect_updates (seen_ids seen) R ops [] [] no_updates of (inserted_ids, inserted_ops, U) \<Rightarrow>
        let evicted = plan_seen_evictions seen inserted_ids;
            log_evicted = plan_op_log_evictions log (length inserted_ops) (op_log_limit s) in
        case number_plans 0 (length inserted_ops - 1) inserted_ops (seen_ops_next_sequence s)
            (op_log_next_sequence s) evicted log_evicted of (plans, next_seen, next_log) \<Rightarrow>
        let duplicates = length ops - length inserted_ops in
        case persist_remote_ops_batch J plans U (sync_store s) of
          (st, Inl e) \<Rightarrow>
            (s\<lparr>sync_store := st,
               sync_metrics := record_remote_op_batch (length ops) 0 duplicates elapsed True (sync_metrics s)\<rparr>, Inl e)
        | (st, Inr _) \<Rightarrow>
            let applied = length plans;
                metrics = (if applied > 0 then record_ops (of_nat applied) (sync_metrics s) else sync_metrics s)
            in (s\<lparr>seen_ops_window := apply_seen_insertions seen inserted_ids evicted,
                  op_log := fst (prune_op_log_and_return_evicted (log @ inserted_ops) (op_log_limit s)),
                  sync_registries := install_updates U R,
                  seen_ops_next_sequence := next_seen,
                  op_log_next_sequence := next_log,
                  sync_store := st,
                  sync_metrics := record_remote_op_batch (length ops) applied duplicates elapsed False metrics\<rparr>, Inr ()))"

end
