(* ===== verification/Op_Delivery.thy ===== *)
theory Op_Delivery
  imports Remote_Apply
begin

text \<open>
  The abstract meaning of an operation: \<open>deliver\<close> applies it to the registries directly. The
  locale \<open>registry_ops\<close> lifts the commutation of the operations of one CRDT to a registry of
  them; its six interpretations give the operation-based convergence of a whole replica,
  \<open>replica_ops\<close>. Folding a batch into copied updates and installing them is delivery in order.
\<close>

section \<open>Specification\<close>

definition reg_update :: "string \<Rightarrow> ('a option \<Rightarrow> 'a) \<Rightarrow> 'a registry \<Rightarrow> 'a registry" where
  "reg_update key f reg = om_insert key (f (om_get reg key)) reg"

definition or_new :: "'a \<Rightarrow> 'a option \<Rightarrow> 'a" where
  "or_new new c = (case c of None \<Rightarrow> new | Some x \<Rightarrow> x)"

text \<open>The kind and the key an operation is about.\<close>

definition op_target :: "Op \<Rightarrow> crdt_kind \<times> string" where
  "op_target x =
     (case op_kind x of
        GCounterIncrement key _ \<Rightarrow> (GCounter, key)
      | PNCounterIncrement key _ \<Rightarrow> (PNCounter, key)
      | PNCounterDecrement key _ \<Rightarrow> (PNCounter, key)
      | LwwRegisterSet key _ _ \<Rightarrow> (LwwRegister, key)
      | LwwMapSet key _ _ _ \<Rightarrow> (LwwMap, key)
      | LwwMapRemove key _ _ \<Rightarrow> (LwwMap, key)
      | ORSetAdd key _ _ \<Rightarrow> (ORSet, key)
      | ORSetRemove key _ _ \<Rightarrow> (ORSet, key)
      | RgaInsert key _ _ _ \<Rightarrow> (Rga, key)
      | RgaDelete key _ \<Rightarrow> (Rga, key))"

text \<open>The effect of an operation of its kind on one state, absent at first.\<close>

definition gcounter_effect :: "Op \<Rightarrow> gcounter option \<Rightarrow> gcounter" where
  "gcounter_effect x c =
     (case op_kind x of
        GCounterIncrement _ d \<Rightarrow> gcounter_increment (op_origin x) d (or_new gcounter_new c)
      | _ \<Rightarrow> or_new gcounter_new c)"

definition pncounter_effect :: "Op \<Rightarrow> pncounter option \<Rightarrow> pncounter" where
  "pncounter_effect x c = fst (pncounter_apply_op x (or_new pncounter_new c))"

definition lww_register_effect :: "Op \<Rightarrow> lww_register option \<Rightarrow> lww_register" where
  "lww_register_effect x c =
     (let candidate = (case op_kind x of
          LwwRegisterSet _ value t \<Rightarrow> lww_register_new value t (op_origin x)
        | _ \<Rightarrow> lww_register_new [] 0 (op_origin x))
      in case c of None \<Rightarrow> candidate | Some r \<Rightarrow> lww_register_merged_with r candidate)"

definition lww_map_effect :: "Op \<Rightarrow> lww_map option \<Rightarrow> lww_map" where
  "lww_map_effect x c =
     (case op_kind x of
        LwwMapSet _ field value t \<Rightarrow>
          fst (lww_map_apply_entry field (lww_map_entry_present value t (op_origin x)) (or_new lww_map_new c))
      | LwwMapRemove _ field t \<Rightarrow>
          fst (lww_map_apply_entry field (lww_map_entry_tombstone t (op_origin x)) (or_new lww_map_new c))
      | _ \<Rightarrow> or_new lww_map_new c)"

definition orset_effect :: "Op \<Rightarrow> orset option \<Rightarrow> orset" where
  "orset_effect x c = orset_deliver (op_kind x) (or_new orset_new c)"

definition rga_effect :: "Op \<Rightarrow> rga option \<Rightarrow> rga" where
  "rga_effect x c = rga_deliver (op_kind x) (or_new rga_new c)"

definition deliver :: "Op \<Rightarrow> registries \<Rightarrow> registries" where
  "deliver x R =
     (case op_target x of (kind, key) \<Rightarrow>
       (case kind of
          GCounter \<Rightarrow> R\<lparr>counters := reg_update key (gcounter_effect x) (counters R)\<rparr>
        | PNCounter \<Rightarrow> R\<lparr>pncounters := reg_update key (pncounter_effect x) (pncounters R)\<rparr>
        | LwwRegister \<Rightarrow> R\<lparr>lww_registers := reg_update key (lww_register_effect x) (lww_registers R)\<rparr>
        | LwwMap \<Rightarrow> R\<lparr>lww_maps := reg_update key (lww_map_effect x) (lww_maps R)\<rparr>
        | ORSet \<Rightarrow> R\<lparr>orsets := reg_update key (orset_effect x) (orsets R)\<rparr>
        | Rga \<Rightarrow> R\<lparr>rgas := reg_update key (rga_effect x) (rgas R)\<rparr>))"

section \<open>Lifting commutation to registries\<close>

text \<open>Every state of a registry satisfies a predicate on key and state.\<close>

definition reg_all :: "(string \<Rightarrow> 'a \<Rightarrow> bool) \<Rightarrow> 'a registry \<Rightarrow> bool" where
  "reg_all P reg = (\<forall>key x. om_get reg key = Some x \<longrightarrow> P key x)"

lemma reg_all_empty [simp]: "reg_all P om_empty"
  by (simp add: reg_all_def)

lemma reg_all_True [simp]: "reg_all (\<lambda>_ _. True) reg"
  by (simp add: reg_all_def)

locale registry_ops =
  fixes effect :: "'o \<Rightarrow> 'a option \<Rightarrow> 'a"
    and inv :: "string \<Rightarrow> 'a \<Rightarrow> bool"
    and ok :: "string \<Rightarrow> 'o \<Rightarrow> bool"
  assumes effect_inv: "pred_option (inv key) c \<Longrightarrow> ok key x \<Longrightarrow> inv key (effect x c)"
    and effect_commute:
      "pred_option (inv key) c \<Longrightarrow> ok key x \<Longrightarrow> ok key y \<Longrightarrow>
       effect x (Some (effect y c)) = effect y (Some (effect x c))"
begin

lemma update_inv:
  "reg_all inv reg \<Longrightarrow> ok key x \<Longrightarrow> reg_all inv (reg_update key (effect x) reg)"
  by (auto simp: reg_all_def reg_update_def pred_option_def intro!: effect_inv split: if_splits)

lemma update_commute:
  assumes "reg_all inv reg" "ok key x" "ok key' y"
  shows "reg_update key (effect x) (reg_update key' (effect y) reg)
    = reg_update key' (effect y) (reg_update key (effect x) reg)"
proof (cases "key = key'")
  case True
  have "pred_option (inv key) (om_get reg key)"
    using assms(1) by (simp add: reg_all_def pred_option_def)
  from effect_commute [OF this, of x y] assms True show ?thesis by (simp add: reg_update_def)
qed (simp add: reg_update_def om_insert_commute)

end

interpretation gcounter_reg: registry_ops gcounter_effect "\<lambda>_ _. True" "\<lambda>_ _. True"
  by unfold_locales (auto simp: gcounter_effect_def or_new_def gcounter_increment_commute split: op_kind.splits)

interpretation pncounter_reg: registry_ops pncounter_effect "\<lambda>_ _. True" "\<lambda>_ _. True"
  by unfold_locales (auto simp: pncounter_effect_def or_new_def intro: pncounter_apply_op_commute)

interpretation lww_map_reg: registry_ops lww_map_effect "\<lambda>_ _. True" "\<lambda>_ _. True"
proof unfold_locales
  fix x y c
  show "lww_map_effect x (Some (lww_map_effect y c)) = lww_map_effect y (Some (lww_map_effect x c))"
    unfolding lww_map_effect_def or_new_def
    by (cases "op_kind x"; cases "op_kind y"; simp only: op_kind.case option.case; rule lww_map_apply_entry_commute refl)
qed simp

interpretation orset_reg: registry_ops orset_effect "\<lambda>_ _. True" "\<lambda>_ _. True"
  by unfold_locales (auto simp: orset_effect_def or_new_def intro: orset_deliver_commute)

text \<open>
  Registers need a timestamp and writer to determine the value, arrays globally unique
  element identifiers (per key).
\<close>

definition op_written_by ::
    "(string \<Rightarrow> u64 \<Rightarrow> node_id \<Rightarrow> bytes) \<Rightarrow> (string \<Rightarrow> rga_element_id \<Rightarrow> rga_element) \<Rightarrow> Op \<Rightarrow> bool" where
  "op_written_by V E x =
     (case op_kind x of
        LwwRegisterSet key value t \<Rightarrow> value = V key t (op_origin x)
      | RgaInsert key i parent value \<Rightarrow> E key i = rga_element_new i parent value
      | _ \<Rightarrow> True)"

interpretation lww_register_reg: registry_ops lww_register_effect "\<lambda>key. written_by (V key)"
  "\<lambda>key x. op_target x = (LwwRegister, key) \<and> op_written_by V E x" for V E
proof unfold_locales
  fix key c x y
  let ?n = "\<lambda>x. lww_register_effect x None"
  have eff: "lww_register_effect x (Some r) = lww_register_merged_with r (?n x)" for x r
    by (simp add: lww_register_effect_def)
  have new: "written_by (V key) (?n x)" if "op_target x = (LwwRegister, key) \<and> op_written_by V E x" for x
    using that by (auto simp: lww_register_effect_def op_target_def op_written_by_def written_by_def
        lww_register_new_def split: op_kind.splits)
  assume c: "pred_option (written_by (V key)) c" and x: "op_target x = (LwwRegister, key) \<and> op_written_by V E x"
  from c new [OF x] show "written_by (V key) (lww_register_effect x c)"
    by (cases c) (simp_all add: eff lww_register_crdt.merge_valid)
  assume y: "op_target y = (LwwRegister, key) \<and> op_written_by V E y"
  from c new [OF x] new [OF y]
  show "lww_register_effect x (Some (lww_register_effect y c)) = lww_register_effect y (Some (lww_register_effect x c))"
  proof (cases c)
    case None
    then show ?thesis using new [OF x] new [OF y] by (simp add: eff lww_register_crdt.merge_commute)
  next
    case (Some r)
    with c new [OF x] new [OF y] show ?thesis
      by (simp add: eff lww_register_crdt.merge_assoc)
        (simp add: lww_register_crdt.merge_commute [OF new [OF x] new [OF y]])
  qed
qed

interpretation rga_reg: registry_ops rga_effect "\<lambda>key. identified_by (E key)"
  "\<lambda>key x. op_target x = (Rga, key) \<and> op_written_by V E x" for V E
proof unfold_locales
  fix key c x y
  assume c: "pred_option (identified_by (E key)) c" and x: "op_target x = (Rga, key) \<and> op_written_by V E x"
  have ident: "insert_identified (E key) (op_kind x)" if "op_target x = (Rga, key) \<and> op_written_by V E x" for x
    using that by (auto simp: op_target_def op_written_by_def insert_identified_def split: op_kind.splits)
  have new: "identified_by (E key) (or_new rga_new c)"
    using c by (cases c) (simp_all add: or_new_def identified_by_def rga_new_def)
  then show "identified_by (E key) (rga_effect x c)"
    using ident [OF x] by (simp add: rga_effect_def rga_deliver_identified)
  assume y: "op_target y = (Rga, key) \<and> op_written_by V E y"
  from rga_deliver_commute [OF new ident [OF x] ident [OF y]]
  show "rga_effect x (Some (rga_effect y c)) = rga_effect y (Some (rga_effect x c))"
    by (simp add: rga_effect_def or_new_def [of _ "Some _"])
qed

section \<open>Convergence of replicas\<close>

text \<open>
  What an assignment \<open>V\<close> of register values and \<open>E\<close> of array elements promises of the
  registries: timestamps are not reused by one writer with different values, element
  identifiers not with different elements.
\<close>

definition registries_written_by ::
    "(string \<Rightarrow> u64 \<Rightarrow> node_id \<Rightarrow> bytes) \<Rightarrow> (string \<Rightarrow> rga_element_id \<Rightarrow> rga_element) \<Rightarrow> registries \<Rightarrow> bool" where
  "registries_written_by V E R =
     (reg_all (\<lambda>key. written_by (V key)) (lww_registers R) \<and> reg_all (\<lambda>key. identified_by (E key)) (rgas R))"

lemma registries_written_by_empty [simp]: "registries_written_by V E no_updates"
  by (simp add: registries_written_by_def no_updates_def)

lemma deliver_written_by:
  assumes R: "registries_written_by V E R" and x: "op_written_by V E x"
  shows "registries_written_by V E (deliver x R)"
proof -
  obtain kind key where t: "op_target x = (kind, key)" by fastforce
  from R x t show ?thesis
    by (cases kind) (simp_all add: registries_written_by_def deliver_def
        lww_register_reg.update_inv [where E = E] rga_reg.update_inv [where V = V])
qed

lemma deliver_commute:
  assumes R: "registries_written_by V E R" and x: "op_written_by V E x" and y: "op_written_by V E y"
  shows "deliver x (deliver y R) = deliver y (deliver x R)"
proof -
  obtain k key l key' where t: "op_target x = (k, key)" "op_target y = (l, key')" by fastforce
  have "k = LwwRegister \<Longrightarrow> l = LwwRegister \<Longrightarrow>
      reg_update key (lww_register_effect x) (reg_update key' (lww_register_effect y) (lww_registers R))
      = reg_update key' (lww_register_effect y) (reg_update key (lww_register_effect x) (lww_registers R))"
    using R x y t by (intro lww_register_reg.update_commute [where V = V and E = E])
      (simp_all add: registries_written_by_def)
  moreover have "k = Rga \<Longrightarrow> l = Rga \<Longrightarrow>
      reg_update key (rga_effect x) (reg_update key' (rga_effect y) (rgas R))
      = reg_update key' (rga_effect y) (reg_update key (rga_effect x) (rgas R))"
    using R x y t by (intro rga_reg.update_commute [where V = V and E = E]) (simp_all add: registries_written_by_def)
  ultimately show ?thesis
    by (cases k; cases l)
      (simp_all add: deliver_def t gcounter_reg.update_commute [of _ key x key' y]
        pncounter_reg.update_commute [of _ key x key' y] orset_reg.update_commute [of _ key x key' y]
        lww_map_reg.update_commute [of _ key x key' y])
qed

interpretation replica_ops: op_crdt deliver "registries_written_by V E" "op_written_by V E" for V E
  by unfold_locales (auto intro: deliver_written_by deliver_commute)

section \<open>A batch is delivery in order\<close>

lemma install_insert: "install (om_insert key v U) reg = om_insert key v (install U reg)"
  by (rule om_ext) (auto simp: om_get_install split: option.splits)

lemma entry_or_insert_install:
  "entry_or_insert reg new key U = or_new new (om_get (install U reg) key)"
  by (simp add: entry_or_insert_def or_new_def om_get_install om_get_or_def split: option.splits)

lemmas batch_update_defs = install_updates_def install_insert entry_or_insert_install reg_update_def
  apply_remote_op_to_crdt_updates_def deliver_def op_target_def

lemma lww_register_set_delivers:
  assumes "op_kind x = LwwRegisterSet key value t"
  shows "install (apply_remote_lww_register_set x key value t reg U) reg
    = reg_update key (lww_register_effect x) (install U reg)"
proof (rule om_ext, rule ext)
  fix k
  have assign: "lww_register_assign value t (op_origin x) r = lww_register_merge r (lww_register_new value t (op_origin x))" for r
    by (rule lww_register_assign_merge)
  have lose: "r' = r" if "lww_register_merge r c = (r', False)" for r r' c
    using that by (simp add: lww_register_merge_def split: if_splits)
  show "om_get (install (apply_remote_lww_register_set x key value t reg U) reg) k
      = om_get (reg_update key (lww_register_effect x) (install U reg)) k"
    using assms
    by (auto simp: apply_remote_lww_register_set_def om_get_install reg_update_def lww_register_effect_def assign
        lww_register_merged_with_def dest: lose split: option.splits prod.splits bool.splits)
qed

lemma update_delivers:
  "install_updates (apply_remote_op_to_crdt_updates x R U) R = deliver x (install_updates U R)"
proof (cases "op_kind x")
  case (LwwRegisterSet key v t)
  then show ?thesis
    by (simp add: install_updates_def apply_remote_op_to_crdt_updates_def deliver_def op_target_def
        lww_register_applier_def lww_register_set_delivers)
qed (simp_all add: batch_update_defs gcounter_applier_def apply_remote_gcounter_increment_def gcounter_effect_def
    pncounter_applier_def apply_remote_pncounter_op_def pncounter_effect_def
    lww_map_applier_def apply_remote_lww_map_set_def apply_remote_lww_map_remove_def lww_map_effect_def
    lww_map_set_def lww_map_remove_def
    orset_applier_def apply_remote_orset_add_def apply_remote_orset_remove_def orset_effect_def
    rga_applier_def apply_remote_rga_insert_def apply_remote_rga_delete_def rga_effect_def)

text \<open>The operations of a batch that are new, first occurrences only.\<close>

definition new_ops :: "string set \<Rightarrow> Op list \<Rightarrow> Op list" where
  "new_ops ids ops = snd (fresh_ops ids ops [] [])"

lemma fresh_ops_new: "fresh_ops ids ops [] [] = (map op_key (new_ops ids ops), new_ops ids ops)"
  using fresh_ops_start [of ids ops] by (metis new_ops_def snd_conv)

lemma new_ops_props:
  "distinct (map op_key (new_ops ids ops))" "op_key ` set (new_ops ids ops) = op_key ` set ops - ids"
  "set (new_ops ids ops) \<subseteq> set ops"
  using fresh_ops_start [of ids ops] by (metis new_ops_def snd_conv)+

lemma new_ops_Nil [simp]: "new_ops ids [] = []"
  by (simp add: new_ops_def)

definition ops_updates :: "registries \<Rightarrow> Op list \<Rightarrow> registries \<Rightarrow> registries" where
  "ops_updates R ys U = fold (\<lambda>x. apply_remote_op_to_crdt_updates x R) ys U"

lemma collect_updates_fresh:
  "fresh_ops ids ops is xs = (is @ map op_key ys, xs @ ys) \<Longrightarrow>
   collect_updates ids R ops is xs U = (is @ map op_key ys, xs @ ys, ops_updates R ys U)"
proof (induction ops arbitrary: "is" xs ys U)
  case (Cons x ops)
  show ?case
  proof (cases "op_key x \<in> ids \<or> list_ex (\<lambda>i. i = op_key x) is")
    case True
    with Cons show ?thesis by auto
  next
    case False
    then have "fresh_ops ids ops (is @ [op_key x]) (xs @ [x]) = (is @ map op_key ys, xs @ ys)"
      using Cons.prems by simp
    moreover obtain zs where zs: "fresh_ops ids ops (is @ [op_key x]) (xs @ [x]) = ((is @ [op_key x]) @ map op_key zs, (xs @ [x]) @ zs)"
      using fresh_ops_eq [of ids ops "is @ [op_key x]" "xs @ [x]"] by blast
    ultimately have "ys = x # zs" by simp
    with Cons.IH [OF zs, of "apply_remote_op_to_crdt_updates x R U"] False show ?thesis
      by (simp add: ops_updates_def)
  qed
qed (simp add: ops_updates_def)

lemma collect_updates_new:
  "collect_updates ids R ops [] [] U = (map op_key (new_ops ids ops), new_ops ids ops, ops_updates R (new_ops ids ops) U)"
  using collect_updates_fresh [of ids ops "[]" "[]" "new_ops ids ops"] by (simp add: fresh_ops_new)

lemma install_no_updates [simp]: "install_updates no_updates R = R"
  by (simp add: install_updates_def no_updates_def)

lemma ops_updates_deliver: "install_updates (ops_updates R ys U) R = fold deliver ys (install_updates U R)"
  by (induction ys arbitrary: U) (simp_all add: ops_updates_def update_delivers)

section \<open>Outcomes of applying a batch\<close>

definition sync_wf :: "'db sync_state \<Rightarrow> bool" where
  "sync_wf s = (seen_wf (seen_ops_window s) \<and> length (op_log s) \<le> normalize_op_log_limit (op_log_limit s))"

text \<open>The plans a batch writes: the new operations, numbered, with the evictions they cause.\<close>

definition batch_plans :: "'db sync_state \<Rightarrow> Op list \<Rightarrow> op_persistence_plan list \<times> u64 \<times> u64" where
  "batch_plans s ys =
     number_plans 0 (length ys - 1) ys (seen_ops_next_sequence s) (op_log_next_sequence s)
       (plan_seen_evictions (seen_ops_window s) (map op_key ys))
       (plan_op_log_evictions (op_log s) (length ys) (op_log_limit s))"

text \<open>What both a remote and a local batch do to the bookkeeping in memory.\<close>

definition remembered :: "Op list \<Rightarrow> 'db sync_state \<Rightarrow> 'db sync_state" where
  "remembered ys s =
     s\<lparr>seen_ops_window := apply_seen_insertions (seen_ops_window s) (map op_key ys)
          (plan_seen_evictions (seen_ops_window s) (map op_key ys)),
       op_log := fst (prune_op_log_and_return_evicted (op_log s @ ys) (op_log_limit s)),
       seen_ops_next_sequence := fst (snd (batch_plans s ys)),
       op_log_next_sequence := snd (snd (batch_plans s ys))\<rparr>"

lemma apply_remote_ops_result:
  fixes s :: "'db sync_state"
  assumes "ops \<noteq> []"
  defines "ys \<equiv> new_ops (seen_ids (seen_ops_window s)) ops"
  defines "U \<equiv> ops_updates (sync_registries s) ys no_updates"
  shows "apply_remote_ops J elapsed ops s =
    (case persist_remote_ops_batch J (fst (batch_plans s ys)) U (sync_store s) of
       (st, Inl e) \<Rightarrow>
         (s\<lparr>sync_store := st, sync_metrics := record_remote_op_batch (length ops) 0 (length ops - length ys)
              elapsed True (sync_metrics s)\<rparr>, Inl e)
     | (st, Inr _) \<Rightarrow>
         ((remembered ys s)\<lparr>sync_registries := fold deliver ys (sync_registries s), sync_store := st,
            sync_metrics := record_remote_op_batch (length ops) (length ys) (length ops - length ys) elapsed False
              (if ys = [] then sync_metrics s else record_ops (of_nat (length ys)) (sync_metrics s))\<rparr>, Inr ()))"
proof -
  have U: "install_updates U (sync_registries s) = fold deliver ys (sync_registries s)"
    by (simp add: U_def ops_updates_deliver)
  have len: "length (fst (batch_plans s ys)) = length ys" by (simp add: batch_plans_def)
  obtain plans ns nl where p: "batch_plans s ys = (plans, ns, nl)" by (cases "batch_plans s ys") auto
  show ?thesis
    using assms(1) p len
    by (cases "persist_remote_ops_batch J plans U (sync_store s)")
      (auto simp: apply_remote_ops_def collect_updates_new ys_def [symmetric] U_def [symmetric] U batch_plans_def
        remembered_def Let_def split: sum.splits)
qed

lemma remembered_window:
  assumes "sync_wf s" "distinct (map op_key ys)" "op_key ` set ys \<inter> seen_ids (seen_ops_window s) = {}"
  shows "seen_order (seen_ops_window (remembered ys s))
      = last_n (seen_limit (seen_ops_window s)) (seen_order (seen_ops_window s) @ map op_key ys)"
    and "seen_limit (seen_ops_window (remembered ys s)) = seen_limit (seen_ops_window s)"
    and "op_log (remembered ys s) = last_n (normalize_op_log_limit (op_log_limit s)) (op_log s @ ys)"
    and "sync_wf (remembered ys s)"
proof -
  have wf: "seen_wf (seen_ops_window s)" and d: "distinct (map op_key ys)"
    "set (map op_key ys) \<inter> seen_ids (seen_ops_window s) = {}" using assms by (auto simp: sync_wf_def)
  note batch = apply_seen_insertions_eq [OF wf d] and wf' = seen_wf_batch [OF wf d]
  show "seen_order (seen_ops_window (remembered ys s))
      = last_n (seen_limit (seen_ops_window s)) (seen_order (seen_ops_window s) @ map op_key ys)"
    "seen_limit (seen_ops_window (remembered ys s)) = seen_limit (seen_ops_window s)"
    by (simp_all add: remembered_def batch)
  show "op_log (remembered ys s) = last_n (normalize_op_log_limit (op_log_limit s)) (op_log s @ ys)"
    by (simp add: remembered_def prune_op_log_eq)
  show "sync_wf (remembered ys s)"
    using wf' by (simp add: sync_wf_def remembered_def prune_op_log_eq)
qed

end
