(* ===== verification/Peer_Health.thy ===== *)
theory Peer_Health
  imports Sync_Op Runtime_Metrics
begin

text \<open>
  Peer health and reconnection: \<open>sync_manager/peer.rs\<close>, the connection attempts, the pass of
  the reconnect loop, the reconciliation with new candidates and the anti-entropy cadence of
  \<open>sync_manager/replication.rs\<close>, and the error types of \<open>nx-net\<close> (\<open>message.rs\<close>, \<open>error.rs\<close>,
  \<open>peer.rs\<close>) they inspect.

  Durations and instants are nanoseconds. \<open>Duration\<close> holds 64-bit seconds, \<open>Instant\<close> signed
  64-bit seconds (Unix); \<open>checked_add\<close> returns \<open>None\<close> beyond that. The network node is the
  record \<open>node_api\<close> of the operations called here over an arbitrary world, which also
  carries the clock: connecting may take time.
\<close>

section \<open>Time\<close>

type_synonym instant = nat

definition DURATION_MAX :: duration where
  "DURATION_MAX = u64_max * 1000000000 + 999999999"

definition INSTANT_MAX :: instant where
  "INSTANT_MAX = (2 ^ 63 - 1) * 1000000000 + 999999999"

definition millis :: "nat \<Rightarrow> duration" where
  "millis n = n * 1000000"

definition duration_saturating_mul :: "duration \<Rightarrow> nat \<Rightarrow> duration" where
  "duration_saturating_mul d n = min (d * n) DURATION_MAX"

definition instant_checked_add :: "instant \<Rightarrow> duration \<Rightarrow> instant option" where
  "instant_checked_add t d = (if t + d \<le> INSTANT_MAX then Some (t + d) else None)"

definition checked_duration_since :: "instant \<Rightarrow> instant \<Rightarrow> duration option" where
  "checked_duration_since t earlier = (if earlier \<le> t then Some (t - earlier) else None)"

section \<open>Network errors and connections\<close>

datatype wire_error =
    ProtocolMismatch u32 u32
  | OpRejected string
  | RateLimited "u64 option"
  | NotAuthorized string
  | InternalWireError string

datatype wire_retry_policy = PolicyFatal | PolicyRetry | PolicyRetryAfter duration | PolicyRequestFatal

definition PROTOCOL_VERSION :: u32 where
  "PROTOCOL_VERSION = 5"

definition protocol_mismatch :: "u32 \<Rightarrow> wire_error" where
  "protocol_mismatch got = ProtocolMismatch PROTOCOL_VERSION got"

fun retry_policy :: "wire_error \<Rightarrow> wire_retry_policy" where
  "retry_policy (ProtocolMismatch _ _) = PolicyFatal"
| "retry_policy (NotAuthorized _) = PolicyFatal"
| "retry_policy (RateLimited (Some retry_after_ms)) = PolicyRetryAfter (millis (unat retry_after_ms))"
| "retry_policy (RateLimited None) = PolicyRetry"
| "retry_policy (InternalWireError _) = PolicyRetry"
| "retry_policy (OpRejected _) = PolicyRequestFatal"

datatype net_error =
    NetIo string
  | Serialization string
  | BinarySerialization string
  | BinaryDeserialization string
  | ConnectionFailed string
  | PeerDisconnectedError string
  | InvalidMessage string
  | Wire wire_error
  | MessageTooLarge nat nat
  | Timeout
  | ChannelClosed
  | TlsError string
  | PeerNotAllowed string
  | PeerLimitReached nat
  | NodeIdMismatch string string

datatype connection_direction = Inbound | Outbound

datatype peer_identity_verification = CertificateBound | Unverified

record peer_identity =
  identity_node_id :: node_id
  verification :: peer_identity_verification

record peer_connection_info =
  transport_addr :: string
  dialed_endpoint :: "string option"
  direction :: connection_direction
  identity :: peer_identity

text \<open>What replication calls of \<open>nx_net::Node\<close>, over the state \<open>'w\<close> of network and clock.\<close>

record 'w node_api =
  node_is_connected_addr :: "'w \<Rightarrow> string \<Rightarrow> bool"
  node_connected_peer_count :: "'w \<Rightarrow> nat"
  node_connect_to_peer :: "string \<Rightarrow> 'w \<Rightarrow> 'w \<times> (net_error + unit)"
  node_connection_info :: "'w \<Rightarrow> string \<Rightarrow> peer_connection_info option"
  node_send_ops_to_addr :: "string \<Rightarrow> Op list \<Rightarrow> 'w \<Rightarrow> 'w \<times> (net_error + unit)"
  node_broadcast_ops :: "Op list \<Rightarrow> 'w \<Rightarrow> 'w \<times> (net_error + unit)"
  world_now :: "'w \<Rightarrow> instant"

section \<open>Health\<close>

datatype peer_health_state = Healthy | Suspect | Dead

record peer_health =
  health_state :: peer_health_state
  consecutive_failures :: u32

definition peer_health_default :: peer_health where
  "peer_health_default = \<lparr>health_state = Suspect, consecutive_failures = 0\<rparr>"

type_synonym health_table = "(string, peer_health) omap"

definition normalize_peer_dead_after_failures :: "u32 \<Rightarrow> u32" where
  "normalize_peer_dead_after_failures failures = max failures 1"

definition record_peer_success :: "string \<Rightarrow> health_table \<Rightarrow> health_table" where
  "record_peer_success peer table =
     om_insert peer ((om_get_or table peer peer_health_default)
       \<lparr>health_state := Healthy, consecutive_failures := 0\<rparr>) table"

definition record_peer_failure :: "u32 \<Rightarrow> string \<Rightarrow> health_table \<Rightarrow> health_table" where
  "record_peer_failure dead_after peer table =
     (let dead_after = normalize_peer_dead_after_failures dead_after;
          health = om_get_or table peer peer_health_default;
          failures = u32_saturating_add (consecutive_failures health) 1
      in om_insert peer (health\<lparr>consecutive_failures := failures,
           health_state := (if failures \<ge> dead_after then Dead else Suspect)\<rparr>) table)"

definition mark_peer_success :: "string \<Rightarrow> health_table \<Rightarrow> health_table" where
  "mark_peer_success peer table = record_peer_success peer table"

definition mark_peer_failure :: "u32 \<Rightarrow> string \<Rightarrow> health_table \<Rightarrow> health_table" where
  "mark_peer_failure dead_after peer table = record_peer_failure dead_after peer table"

definition mark_known_peer_success :: "string \<Rightarrow> health_table \<Rightarrow> health_table" where
  "mark_known_peer_success peer table =
     (if om_contains_key table peer then record_peer_success peer table else table)"

definition mark_known_peer_failure :: "u32 \<Rightarrow> string \<Rightarrow> health_table \<Rightarrow> health_table" where
  "mark_known_peer_failure dead_after peer table =
     (if om_contains_key table peer then record_peer_failure dead_after peer table else table)"

section \<open>Backoff\<close>

record peer_reconnect_state =
  peer_addr :: string
  delay :: duration
  next_attempt_at :: instant
  stopped :: bool

definition peer_reconnect_state_new :: "string \<Rightarrow> duration \<Rightarrow> instant \<Rightarrow> peer_reconnect_state" where
  "peer_reconnect_state_new addr initial_delay now =
     \<lparr>peer_addr = addr, delay = initial_delay, next_attempt_at = now, stopped = False\<rparr>"

definition peer_reset :: "duration \<Rightarrow> instant \<Rightarrow> peer_reconnect_state \<Rightarrow> peer_reconnect_state" where
  "peer_reset initial_delay now p = p\<lparr>delay := initial_delay, next_attempt_at := now, stopped := False\<rparr>"

definition peer_stop :: "peer_reconnect_state \<Rightarrow> peer_reconnect_state" where
  "peer_stop p = p\<lparr>stopped := True\<rparr>"

definition schedule_retry ::
    "duration \<Rightarrow> instant \<Rightarrow> peer_reconnect_state \<Rightarrow> peer_reconnect_state \<times> duration option" where
  "schedule_retry d now p =
     (case instant_checked_add now d of
        None \<Rightarrow> (peer_stop p, None)
      | Some deadline \<Rightarrow> (p\<lparr>next_attempt_at := deadline\<rparr>, Some d))"

definition normalize_reconnect_delay :: "duration \<Rightarrow> duration" where
  "normalize_reconnect_delay d = max d (millis 1)"

definition next_reconnect_delay :: "duration \<Rightarrow> duration \<Rightarrow> duration" where
  "next_reconnect_delay current max_delay =
     min (duration_saturating_mul current 2) (max max_delay current)"

definition record_failure ::
    "duration \<Rightarrow> instant \<Rightarrow> peer_reconnect_state \<Rightarrow> peer_reconnect_state \<times> duration option" where
  "record_failure max_delay now p =
     (let attempt_delay = delay p
      in case schedule_retry attempt_delay now p of
           (p', None) \<Rightarrow> (p', None)
         | (p', Some _) \<Rightarrow> (p'\<lparr>delay := next_reconnect_delay attempt_delay max_delay\<rparr>, Some attempt_delay))"

definition record_retry_after ::
    "duration \<Rightarrow> instant \<Rightarrow> peer_reconnect_state \<Rightarrow> peer_reconnect_state \<times> duration option" where
  "record_retry_after d now p = schedule_retry (normalize_reconnect_delay d) now p"

definition bounded_retry_after :: "duration \<Rightarrow> duration \<Rightarrow> duration" where
  "bounded_retry_after d max_delay = min (normalize_reconnect_delay d) max_delay"

section \<open>Connecting\<close>

datatype configured_peer_connect_outcome =
    Connected | AlreadyConnected | SlotLimitReached | Failed | RetryAfter duration | Fatal

fun connect_failure_outcome :: "net_error \<Rightarrow> configured_peer_connect_outcome" where
  "connect_failure_outcome (Wire e) =
     (case retry_policy e of
        PolicyFatal \<Rightarrow> Fatal
      | PolicyRetryAfter d \<Rightarrow> RetryAfter d
      | PolicyRetry \<Rightarrow> Failed
      | PolicyRequestFatal \<Rightarrow> Failed)"
| "connect_failure_outcome _ = Failed"

record 'w link_state =
  world :: 'w
  link_health :: health_table
  link_metrics :: runtime_metrics

definition try_connect_configured_peer ::
    "'w node_api \<Rightarrow> nat \<Rightarrow> u32 \<Rightarrow> string \<Rightarrow> 'w link_state \<Rightarrow> 'w link_state \<times> configured_peer_connect_outcome" where
  "try_connect_configured_peer N max_peers dead_after addr s =
     (if node_is_connected_addr N (world s) addr
      then (s\<lparr>link_health := mark_peer_success addr (link_health s)\<rparr>, AlreadyConnected)
      else if node_connected_peer_count N (world s) \<ge> max_peers then (s, SlotLimitReached)
      else case node_connect_to_peer N addr (world s) of
        (w, Inr _) \<Rightarrow> (s\<lparr>world := w, link_health := mark_peer_success addr (link_health s)\<rparr>, Connected)
      | (w, Inl (PeerLimitReached _)) \<Rightarrow> (s\<lparr>world := w\<rparr>, SlotLimitReached)
      | (w, Inl e) \<Rightarrow>
          (s\<lparr>world := w, link_metrics := record_sync_error (link_metrics s),
             link_health := mark_peer_failure dead_after addr (link_health s)\<rparr>,
           connect_failure_outcome e))"

text \<open>\<open>reconnect_configured_peers\<close> of the manager: try every candidate until the slots are full.\<close>

fun reconnect_configured_peers ::
    "'w node_api \<Rightarrow> nat \<Rightarrow> u32 \<Rightarrow> string list \<Rightarrow> 'w link_state \<Rightarrow> 'w link_state" where
  "reconnect_configured_peers N max_peers dead_after [] s = s"
| "reconnect_configured_peers N max_peers dead_after (a # as) s =
     (case try_connect_configured_peer N max_peers (normalize_peer_dead_after_failures dead_after) a s of
        (s', SlotLimitReached) \<Rightarrow> s'
      | (s', _) \<Rightarrow> reconnect_configured_peers N max_peers dead_after as s')"

text \<open>
  One pass of the reconnect loop over its peers. \<open>now\<close> is read once before the pass,
  \<open>sleep\<close> is the shortest wait found so far. Shutdown during an attempt is not modelled.
\<close>

record reconnect_config =
  max_peers :: nat
  initial_delay :: duration
  max_delay :: duration
  dead_after_failures :: u32

definition shorter :: "duration option \<Rightarrow> duration \<Rightarrow> duration option" where
  "shorter sleep d = Some (case sleep of None \<Rightarrow> d | Some current \<Rightarrow> min current d)"

definition attempt_outcome ::
    "'w node_api \<Rightarrow> reconnect_config \<Rightarrow> configured_peer_connect_outcome \<Rightarrow> peer_reconnect_state \<Rightarrow>
     'w link_state \<Rightarrow> duration option \<Rightarrow> peer_reconnect_state \<times> 'w link_state \<times> duration option" where
  "attempt_outcome N C outcome p s sleep =
     (let now = world_now N (world s);
          scheduled = (\<lambda>(p', d). case d of
             None \<Rightarrow> (p', s\<lparr>link_metrics := record_sync_error (link_metrics s)\<rparr>, sleep)
           | Some d \<Rightarrow> (p', s, shorter sleep d))
      in case outcome of
           Connected \<Rightarrow> (peer_reset (initial_delay C) now p, s, sleep)
         | AlreadyConnected \<Rightarrow> (peer_reset (initial_delay C) now p, s, sleep)
         | SlotLimitReached \<Rightarrow> (p, s, sleep)
         | Failed \<Rightarrow> scheduled (record_failure (max_delay C) now p)
         | RetryAfter d \<Rightarrow> scheduled (record_retry_after (bounded_retry_after d (max_delay C)) now p)
         | Fatal \<Rightarrow> (peer_stop p, s, sleep))"

fun reconnect_pass ::
    "'w node_api \<Rightarrow> reconnect_config \<Rightarrow> instant \<Rightarrow> peer_reconnect_state list \<Rightarrow>
     'w link_state \<Rightarrow> duration option \<Rightarrow> peer_reconnect_state list \<times> 'w link_state \<times> duration option" where
  "reconnect_pass N C now [] s sleep = ([], s, sleep)"
| "reconnect_pass N C now (p # ps) s sleep =
     (if stopped p then
        (case reconnect_pass N C now ps s sleep of (ps', r) \<Rightarrow> (p # ps', r))
      else if node_is_connected_addr N (world s) (peer_addr p) then
        (case reconnect_pass N C now ps
            (s\<lparr>link_health := mark_peer_success (peer_addr p) (link_health s)\<rparr>) sleep of
           (ps', r) \<Rightarrow> (peer_reset (initial_delay C) (world_now N (world s)) p # ps', r))
      else case checked_duration_since (next_attempt_at p) now of
        Some (Suc w) \<Rightarrow>
          (case reconnect_pass N C now ps s (shorter sleep (Suc w)) of (ps', r) \<Rightarrow> (p # ps', r))
      | _ \<Rightarrow>
          (case try_connect_configured_peer N (max_peers C) (dead_after_failures C) (peer_addr p) s of
             (s', SlotLimitReached) \<Rightarrow> (p # ps, s', sleep)
           | (s', outcome) \<Rightarrow>
               (case attempt_outcome N C outcome p s' sleep of (p', s'', sleep') \<Rightarrow>
                case reconnect_pass N C now ps s'' sleep' of (ps', r) \<Rightarrow> (p' # ps', r))))"

text \<open>The configuration as the loop normalises it.\<close>

definition reconnect_config_new :: "nat \<Rightarrow> duration \<Rightarrow> duration \<Rightarrow> u32 \<Rightarrow> reconnect_config" where
  "reconnect_config_new peers initial maximum dead_after =
     (let initial = normalize_reconnect_delay initial
      in \<lparr>max_peers = peers, initial_delay = initial, max_delay = max maximum initial,
          dead_after_failures = normalize_peer_dead_after_failures dead_after\<rparr>)"

definition reconcile_reconnect_candidates ::
    "peer_reconnect_state list \<Rightarrow> string list \<Rightarrow> duration \<Rightarrow> instant \<Rightarrow> health_table \<Rightarrow>
     peer_reconnect_state list \<times> health_table" where
  "reconcile_reconnect_candidates peers candidates initial now health =
     (let existing = fold (\<lambda>p m. om_insert (peer_addr p) p m) peers om_empty;
          (_, peers') = fold (\<lambda>addr (m, out).
             (om_remove addr m,
              out @ [om_get_or m addr (peer_reconnect_state_new addr initial now)]))
            candidates (existing, [])
      in (peers', fold (\<lambda>c h. om_insert c (om_get_or h c peer_health_default) h) candidates
            (om_filter (\<lambda>addr. addr \<in> set candidates) health)))"

section \<open>Anti-entropy cadence\<close>

definition normalize_anti_entropy_interval :: "duration \<Rightarrow> duration" where
  "normalize_anti_entropy_interval interval = max interval (millis 1)"

definition checked_anti_entropy_deadline :: "instant \<Rightarrow> duration \<Rightarrow> instant \<Rightarrow> instant option" where
  "checked_anti_entropy_deadline previous interval now =
     (let interval = normalize_anti_entropy_interval interval
      in case instant_checked_add previous interval of
           None \<Rightarrow> None
         | Some next_tick \<Rightarrow>
             if next_tick > now then Some next_tick
             else let remainder = (now - previous) mod interval
                  in instant_checked_add now (interval - remainder))"

section \<open>Lemmas\<close>

lemma u32_le_unat: "unat (a :: u32) < 2 ^ 32"
  using unsigned_less [of a, where ?'a = nat] by simp

lemma unat_of_nat_u32: "n < 2 ^ 32 \<Longrightarrow> unat (of_nat n :: u32) = n"
  by (simp add: unsigned_of_nat take_bit_nat_eq_self)

lemma max_unat_u32: "unat (max a b :: u32) = max (unat a) (unat b)"
  by (simp add: max_def word_le_nat_alt)

lemma record_peer_failure_get:
  "om_get (record_peer_failure k peer t) q =
     (if q = peer then
        (let f = u32_saturating_add (consecutive_failures (om_get_or t peer peer_health_default)) 1
         in Some \<lparr>health_state = (if f \<ge> max k 1 then Dead else Suspect), consecutive_failures = f\<rparr>)
      else om_get t q)"
  by (auto simp: record_peer_failure_def Let_def normalize_peer_dead_after_failures_def)

lemma failures_count:
  "om_get ((record_peer_failure k peer ^^ Suc n) (record_peer_success peer t)) peer =
     Some \<lparr>health_state = (if unat (max k 1) \<le> Suc n then Dead else Suspect),
       consecutive_failures = of_nat (min (Suc n) (2 ^ 32 - 1))\<rparr>"
proof -
  have sat: "u32_saturating_add (of_nat (min n (2 ^ 32 - 1))) 1 = of_nat (min (Suc n) (2 ^ 32 - 1))" for n
    by (rule word_unat_eq_iff [THEN iffD2]) (auto simp: min_def unat_of_nat_u32)
  have dead: "of_nat (min (Suc n) (2 ^ 32 - 1)) \<ge> max k 1 \<longleftrightarrow> unat (max k 1) \<le> Suc n" for n
    using u32_le_unat [of "max k 1"] by (auto simp: word_le_nat_alt min_def unat_of_nat_u32)
  show ?thesis
  proof (induction n)
    case 0
    have "consecutive_failures (om_get_or (record_peer_success peer t) peer peer_health_default) = of_nat (min 0 (2 ^ 32 - 1))"
      by (simp add: record_peer_success_def)
    then show ?case using sat [of 0] dead [of 0] by (simp add: record_peer_failure_get Let_def)
  next
    case (Suc n)
    let ?t = "(record_peer_failure k peer ^^ Suc n) (record_peer_success peer t)"
    have "consecutive_failures (om_get_or ?t peer peer_health_default) = of_nat (min (Suc n) (2 ^ 32 - 1))"
      by (simp add: om_get_or_def Suc del: funpow.simps)
    then have "om_get (record_peer_failure k peer ?t) peer =
        Some \<lparr>health_state = (if unat (max k 1) \<le> Suc (Suc n) then Dead else Suspect),
          consecutive_failures = of_nat (min (Suc (Suc n)) (2 ^ 32 - 1))\<rparr>"
      by (simp only: record_peer_failure_get Let_def sat dead if_True simp_thms)
    then show ?case by simp
  qed
qed

lemma failures_other: "q \<noteq> peer \<Longrightarrow> om_get ((record_peer_failure k peer ^^ n) t) q = om_get t q"
  by (induction n) (simp_all add: record_peer_failure_get)

lemma record_failure_scheduled:
  "now + delay p \<le> INSTANT_MAX \<Longrightarrow>
   record_failure M now p =
     (p\<lparr>next_attempt_at := now + delay p, delay := next_reconnect_delay (delay p) M\<rparr>, Some (delay p))"
  by (simp add: record_failure_def schedule_retry_def instant_checked_add_def Let_def)

lemma next_delay_capped:
  "i \<le> M \<Longrightarrow> M \<le> DURATION_MAX \<Longrightarrow> next_reconnect_delay (min (i * 2 ^ n) M) M = min (i * 2 ^ Suc n) M"
  by (auto simp: next_reconnect_delay_def duration_saturating_mul_def min_def max_def)

lemma reconnect_pass_Cons:
  "\<exists>p' s' sleep'. peer_addr p' = peer_addr p \<and> (stopped p \<longrightarrow> p' = p)
     \<and> (fst (reconnect_pass N C now (p # ps) s sleep) = p' # ps
        \<or> fst (reconnect_pass N C now (p # ps) s sleep) = p' # fst (reconnect_pass N C now ps s' sleep'))"
proof -
  have addr: "peer_addr (fst (attempt_outcome N C oc p s' sl)) = peer_addr p" for oc s' sl
    by (auto simp: attempt_outcome_def Let_def peer_reset_def peer_stop_def record_failure_def
        record_retry_after_def schedule_retry_def split: configured_peer_connect_outcome.splits option.splits)
  consider "stopped p" | "\<not> stopped p" "node_is_connected_addr N (world s) (peer_addr p)"
    | w where "\<not> stopped p" "\<not> node_is_connected_addr N (world s) (peer_addr p)"
        "checked_duration_since (next_attempt_at p) now = Some (Suc w)"
    | "\<not> stopped p" "\<not> node_is_connected_addr N (world s) (peer_addr p)"
        "checked_duration_since (next_attempt_at p) now \<in> {None, Some 0}"
    by (cases "checked_duration_since (next_attempt_at p) now") (auto, metis not0_implies_Suc)
  then show ?thesis
  proof cases
    case 1
    then have "fst (reconnect_pass N C now (p # ps) s sleep) = p # fst (reconnect_pass N C now ps s sleep)"
      by (simp split: prod.splits)
    then show ?thesis by blast
  next
    case 2
    let ?p = "peer_reset (initial_delay C) (world_now N (world s)) p"
    let ?s = "s\<lparr>link_health := mark_peer_success (peer_addr p) (link_health s)\<rparr>"
    have "fst (reconnect_pass N C now (p # ps) s sleep) = ?p # fst (reconnect_pass N C now ps ?s sleep)"
      using 2 by (simp split: prod.splits)
    moreover have "peer_addr ?p = peer_addr p" by (simp add: peer_reset_def)
    ultimately show ?thesis using 2 by blast
  next
    case 3
    then have "fst (reconnect_pass N C now (p # ps) s sleep)
        = p # fst (reconnect_pass N C now ps s (shorter sleep (Suc w)))"
      by (simp split: prod.splits)
    then show ?thesis by blast
  next
    case 4
    obtain s' oc where t: "try_connect_configured_peer N (max_peers C) (dead_after_failures C) (peer_addr p) s = (s', oc)"
      by fastforce
    obtain p' s'' sl where a: "attempt_outcome N C oc p s' sleep = (p', s'', sl)" by (cases "attempt_outcome N C oc p s' sleep")
    have "peer_addr p' = peer_addr p" using addr [of oc s' sleep] a by simp
    moreover have "fst (reconnect_pass N C now (p # ps) s sleep) = p # ps
        \<or> fst (reconnect_pass N C now (p # ps) s sleep) = p' # fst (reconnect_pass N C now ps s'' sl)"
      using 4 t a by (cases oc) (auto split: prod.splits)
    ultimately show ?thesis using 4 by blast
  qed
qed

lemma reconnect_pass_addresses:
  "map peer_addr (fst (reconnect_pass N C now ps s sleep)) = map peer_addr ps
   \<and> (\<forall>i < length ps. stopped (ps ! i) \<longrightarrow> fst (reconnect_pass N C now ps s sleep) ! i = ps ! i)"
proof (induction ps arbitrary: s sleep)
  case (Cons p ps)
  from reconnect_pass_Cons [of p N C now ps s sleep] Cons show ?case
    by (fastforce simp: nth_Cons' simp del: reconnect_pass.simps)
qed simp

text \<open>A pass that finds no peer due does nothing but compute the shortest wait.\<close>

lemma reconnect_pass_idle:
  "\<forall>p \<in> set ps. stopped p \<or> \<not> node_is_connected_addr N (world s) (peer_addr p) \<and> now < next_attempt_at p \<Longrightarrow>
   reconnect_pass N C now ps s sleep =
     (ps, s, fold (\<lambda>p sl. shorter sl (next_attempt_at p - now)) (filter (\<lambda>p. \<not> stopped p) ps) sleep)"
proof (induction ps arbitrary: sleep)
  case (Cons p ps)
  show ?case
  proof (cases "stopped p")
    case False
    then obtain w where w: "next_attempt_at p - now = Suc w" "now < next_attempt_at p"
      using Cons.prems by (metis list.set_intros(1) zero_less_diff gr0_implies_Suc)
    then have "checked_duration_since (next_attempt_at p) now = Some (Suc w)"
      by (simp add: checked_duration_since_def)
    with False Cons w show ?thesis by simp
  qed (use Cons in simp)
qed simp

section \<open>Properties of peer handling\<close>

text \<open>
  The health state machine: one success makes a peer healthy and clears its failures;
  after \<open>n\<close> failures in a row it is dead exactly when \<open>n\<close> has reached the threshold (at
  least one) and suspect before; other peers are not affected.
\<close>

theorem peer_dead_after_threshold:
  fixes k :: u32
  shows "map_option health_state (om_get (record_peer_success peer t) peer) = Some Healthy
   \<and> om_get ((record_peer_failure k peer ^^ Suc n) (record_peer_success peer t)) peer =
     Some \<lparr>health_state = (if max (unat k) 1 \<le> Suc n then Dead else Suspect),
       consecutive_failures = of_nat (min (Suc n) (2 ^ 32 - 1))\<rparr>
   \<and> (q \<noteq> peer \<longrightarrow> om_get ((record_peer_failure k peer ^^ Suc n) (record_peer_success peer t)) q = om_get t q)"
  using failures_count [where k = k and peer = peer and n = n and t = t]
    failures_other [where q = q and peer = peer and k = k and n = "Suc n" and t = "record_peer_success peer t"]
  by (simp add: max_unat_u32 record_peer_success_def del: funpow.simps)

theorem peer_dead_after_threshold_witness:
  "om_get ((record_peer_failure 3 ''a'' ^^ Suc 1) (record_peer_success ''a'' (record_peer_success ''b'' om_empty))) ''b''
   = Some \<lparr>health_state = Healthy, consecutive_failures = 0\<rparr>"
  using peer_dead_after_threshold [where peer = "''a''" and t = "record_peer_success ''b'' om_empty" and k = 3 and n = 1 and q = "''b''"]
  by (simp add: record_peer_success_def peer_health_default_def del: funpow.simps)

text \<open>
  Exponential backoff: after a success the failures of a peer schedule the next attempts
  after \<open>initial\<close>, \<open>2 \<cdot> initial\<close>, \<open>4 \<cdot> initial\<close> and so on, capped at the maximum, never at
  once and never beyond the cap; the peer is never stopped while the deadlines are
  representable.
\<close>

theorem backoff_doubles_to_cap:
  assumes M: "M = max_delay (reconnect_config_new n i m k)" and I: "I = initial_delay (reconnect_config_new n i m k)"
    and cap: "M \<le> DURATION_MAX" and rep: "\<forall>t \<in> set (ts @ [t]). t + M \<le> INSTANT_MAX"
  shows "fold (\<lambda>t p. fst (record_failure M t p)) (ts @ [t]) (peer_reset I t0 p) =
      \<lparr>peer_addr = peer_addr p, delay = min (I * 2 ^ Suc (length ts)) M,
       next_attempt_at = t + min (I * 2 ^ length ts) M, stopped = False\<rparr>
    \<and> snd (record_failure M t (fold (\<lambda>t p. fst (record_failure M t p)) ts (peer_reset I t0 p)))
      = Some (min (I * 2 ^ length ts) M)
    \<and> millis 1 \<le> min (I * 2 ^ length ts) M"
proof -
  have IM: "I \<le> M" "millis 1 \<le> I"
    by (simp_all add: M I reconnect_config_new_def Let_def normalize_reconnect_delay_def)
  have run: "\<exists>a. fold (\<lambda>t p. fst (record_failure M t p)) us (peer_reset I t0 p) =
      \<lparr>peer_addr = peer_addr p, delay = min (I * 2 ^ length us) M, next_attempt_at = a, stopped = False\<rparr>"
    if "\<forall>t \<in> set us. t + M \<le> INSTANT_MAX" for us
    using that
  proof (induction us rule: rev_induct)
    case Nil
    then show ?case using IM by (cases p) (simp add: peer_reset_def min_absorb1)
  next
    case (snoc u us)
    then have "u + min (I * 2 ^ length us) M \<le> INSTANT_MAX" by (simp add: min_def split: if_splits)
    with snoc IM cap show ?case
      by (auto simp: record_failure_scheduled next_delay_capped simp del: power_Suc)
  qed
  then obtain a where a: "fold (\<lambda>t p. fst (record_failure M t p)) ts (peer_reset I t0 p) =
      \<lparr>peer_addr = peer_addr p, delay = min (I * 2 ^ length ts) M, next_attempt_at = a, stopped = False\<rparr>"
    using rep by auto
  have "t + min (I * 2 ^ length ts) M \<le> INSTANT_MAX" using rep by (simp add: min_def split: if_splits)
  moreover have "millis 1 \<le> min (I * 2 ^ length ts) M"
    using IM mult_le_mono [OF IM(2), of 1 "2 ^ length ts"] by simp
  ultimately show ?thesis
    using IM cap by (simp add: a record_failure_scheduled next_delay_capped del: power_Suc)
qed

theorem backoff_doubles_to_cap_witness:
  "snd (record_failure (millis 5) 9 (fold (\<lambda>t p. fst (record_failure (millis 5) t p)) [7, 8]
      (peer_reset (millis 2) 6 (peer_reconnect_state_new ''a'' 0 0)))) = Some (millis 5)"
proof -
  have "millis 5 = max_delay (reconnect_config_new 1 (millis 2) (millis 5) 1)"
    "millis 2 = initial_delay (reconnect_config_new 1 (millis 2) (millis 5) 1)"
    by (simp_all add: reconnect_config_new_def normalize_reconnect_delay_def millis_def)
  from backoff_doubles_to_cap [OF this, of "[7, 8]" 9 6 "peer_reconnect_state_new ''a'' 0 0"]
  show ?thesis by (simp add: millis_def DURATION_MAX_def INSTANT_MAX_def u64_max_def)
qed

text \<open>
  The reconnect pass respects the schedule: it keeps the list of peers, never touches a
  stopped one, and when no peer is due it dials nobody (network, health and metrics are
  unchanged) and asks to sleep for the shortest remaining wait.
\<close>

theorem reconnect_pass_respects_schedule:
  "map peer_addr (fst (reconnect_pass N C now ps s sleep)) = map peer_addr ps
   \<and> (\<forall>i < length ps. stopped (ps ! i) \<longrightarrow> fst (reconnect_pass N C now ps s sleep) ! i = ps ! i)
   \<and> ((\<forall>p \<in> set ps. stopped p \<or> \<not> node_is_connected_addr N (world s) (peer_addr p) \<and> now < next_attempt_at p) \<longrightarrow>
      reconnect_pass N C now ps s None =
        (ps, s, if \<forall>p \<in> set ps. stopped p then None
                else Some (Min {next_attempt_at p - now | p. p \<in> set ps \<and> \<not> stopped p})))"
proof -
  have shorter_None: "shorter None d = Some d" for d by (simp add: shorter_def)
  have shortest: "fold (\<lambda>p sl. shorter sl (f p)) qs (Some d) = Some (Min (insert d (f ` set qs)))"
    for f :: "peer_reconnect_state \<Rightarrow> duration" and qs d
  proof (induction qs arbitrary: d)
    case (Cons q qs)
    have "Min (insert (min d (f q)) (f ` set qs)) = Min (insert d (insert (f q) (f ` set qs)))"
      by (cases "set qs = {}") (simp_all add: min.assoc)
    with Cons show ?case by (simp add: shorter_def)
  qed simp
  have "fold (\<lambda>p sl. shorter sl (next_attempt_at p - now)) (filter (\<lambda>p. \<not> stopped p) ps) None =
      (if \<forall>p \<in> set ps. stopped p then None
       else Some (Min {next_attempt_at p - now | p. p \<in> set ps \<and> \<not> stopped p}))"
  proof (cases "filter (\<lambda>p. \<not> stopped p) ps")
    case Nil
    then show ?thesis by (simp add: filter_empty_conv)
  next
    case (Cons q qs)
    have "{next_attempt_at p - now | p. p \<in> set ps \<and> \<not> stopped p}
        = (\<lambda>p. next_attempt_at p - now) ` set (filter (\<lambda>p. \<not> stopped p) ps)" by auto
    also have "\<dots> = insert (next_attempt_at q - now) ((\<lambda>p. next_attempt_at p - now) ` set qs)"
      by (simp only: Cons list.set image_insert)
    finally have "fold (\<lambda>p sl. shorter sl (next_attempt_at p - now)) (filter (\<lambda>p. \<not> stopped p) ps) None
        = Some (Min {next_attempt_at p - now | p. p \<in> set ps \<and> \<not> stopped p})"
      by (simp add: Cons shortest shorter_None)
    moreover have "\<not> (\<forall>p \<in> set ps. stopped p)"
      using Cons by (metis filter_empty_conv list.distinct(1))
    ultimately show ?thesis by simp
  qed
  then show ?thesis
    using reconnect_pass_addresses [of N C now ps s sleep] reconnect_pass_idle [of ps N s now C None] by simp
qed

text \<open>A node whose world is a clock: nothing is connected and connecting times out after a second.\<close>

definition offline_node :: "nat node_api" where
  "offline_node =
     \<lparr>node_is_connected_addr = (\<lambda>_ _. False), node_connected_peer_count = (\<lambda>_. 0),
      node_connect_to_peer = (\<lambda>_ w. (w + 1000000000, Inl Timeout)), node_connection_info = (\<lambda>_ _. None),
      node_send_ops_to_addr = (\<lambda>_ _ w. (w, Inl Timeout)), node_broadcast_ops = (\<lambda>_ w. (w, Inl Timeout)),
      world_now = id\<rparr>"

theorem reconnect_pass_respects_schedule_witness:
  "reconnect_pass offline_node (reconnect_config_new 4 1 2 3) 5 [peer_reconnect_state_new ''a'' 1 9]
     \<lparr>world = 5, link_health = om_empty, link_metrics = runtime_metrics_default\<rparr> None =
   ([peer_reconnect_state_new ''a'' 1 9],
    \<lparr>world = 5, link_health = om_empty, link_metrics = runtime_metrics_default\<rparr>, Some 4)"
  using reconnect_pass_respects_schedule [of offline_node "reconnect_config_new 4 1 2 3" 5
      "[peer_reconnect_state_new ''a'' 1 9]"
      "\<lparr>world = 5, link_health = om_empty, link_metrics = runtime_metrics_default\<rparr>" None]
  by (simp add: offline_node_def peer_reconnect_state_new_def)

text \<open>
  Reconciliation with a new candidate list: the peers are the candidates in their order,
  a known candidate keeps its backoff state and a new one may be dialled at once; the health
  table has exactly the candidates, with the health known before.
\<close>

theorem reconcile_keeps_known_peers:
  assumes "distinct candidates" and "distinct (map peer_addr peers)"
  shows "map peer_addr (fst (reconcile_reconnect_candidates peers candidates initial now health)) = candidates
    \<and> (\<forall>p \<in> set peers. peer_addr p \<in> set candidates \<longrightarrow>
         p \<in> set (fst (reconcile_reconnect_candidates peers candidates initial now health)))
    \<and> (\<forall>p \<in> set (fst (reconcile_reconnect_candidates peers candidates initial now health)).
         p \<in> set peers \<or> p = peer_reconnect_state_new (peer_addr p) initial now \<and> peer_addr p \<notin> peer_addr ` set peers)
    \<and> (\<forall>a. om_get (snd (reconcile_reconnect_candidates peers candidates initial now health)) a =
         (if a \<in> set candidates then Some (om_get_or health a peer_health_default) else None))"
proof -
  let ?f = "\<lambda>m a. om_get_or m a (peer_reconnect_state_new a initial now)"
  let ?E = "fold (\<lambda>p m. om_insert (peer_addr p) p m) peers om_empty"
  have E: "om_get ?E a = map_of (map (\<lambda>p. (peer_addr p, p)) (rev ps)) a" if "peers = ps" for a ps
    unfolding that by (induction ps rule: rev_induct) auto
  then have E: "om_get ?E a = Some p \<longleftrightarrow> p \<in> set peers \<and> a = peer_addr p" for a p
    using assms(2) by (subst E [OF refl], subst map_of_eq_Some_iff) (auto simp: comp_def rev_map [symmetric])
  have walk: "snd (fold (\<lambda>a (m, out). (om_remove a m, out @ [?f m a])) cs (m, out)) = out @ map (?f m) cs"
    if "distinct cs" for cs m out
    using that
  proof (induction cs arbitrary: m out)
    case (Cons c cs)
    then have "map (?f (om_remove c m)) cs = map (?f m) cs" by (auto simp: om_get_or_def)
    with Cons show ?case by simp
  qed simp
  have peers': "fst (reconcile_reconnect_candidates peers candidates initial now health) = map (?f ?E) candidates"
    using walk [OF assms(1), of ?E "[]"] by (simp add: reconcile_reconnect_candidates_def Let_def split_beta)
  have health: "om_get (fold (\<lambda>c h. om_insert c (om_get_or h c peer_health_default) h) cs h) a =
      (if a \<in> set cs then Some (om_get_or h a peer_health_default) else om_get h a)" for cs h a
  proof (induction cs arbitrary: h)
    case (Cons c cs)
    then show ?case by (auto simp: om_get_or_def)
  qed simp
  have addr: "peer_addr (?f ?E a) = a" for a
  proof (cases "om_get ?E a")
    case (Some p)
    with E [of a p] show ?thesis by (simp add: om_get_or_def)
  qed (simp add: om_get_or_def peer_reconnect_state_new_def)
  moreover have "p = ?f ?E (peer_addr p)" if "p \<in> set peers" for p
    using E [of "peer_addr p" p] that by (simp add: om_get_or_def)
  moreover have "?f ?E a \<in> set peers \<or> ?f ?E a = peer_reconnect_state_new a initial now \<and> a \<notin> peer_addr ` set peers" for a
  proof (cases "om_get ?E a")
    case None
    have "a \<noteq> peer_addr p" if "p \<in> set peers" for p using E [of a p] None that by auto
    with None show ?thesis by (auto simp: om_get_or_def)
  next
    case (Some p)
    with E [of a p] show ?thesis by (simp add: om_get_or_def)
  qed
  moreover have "om_get (snd (reconcile_reconnect_candidates peers candidates initial now health)) a =
      (if a \<in> set candidates then Some (om_get_or health a peer_health_default) else None)" for a
    by (simp add: reconcile_reconnect_candidates_def Let_def split_beta health) (simp add: om_get_or_def om_get_filter)
  ultimately show ?thesis unfolding peers' by (auto simp: comp_def)
qed

theorem reconcile_keeps_known_peers_witness:
  "map peer_addr (fst (reconcile_reconnect_candidates [peer_reconnect_state_new ''a'' 3 4] [''b'', ''a''] 1 2 om_empty))
     = [''b'', ''a'']"
  using reconcile_keeps_known_peers [of "[''b'', ''a'']" "[peer_reconnect_state_new ''a'' 3 4]" 1 2 om_empty] by simp

text \<open>
  The anti-entropy cadence: the next deadline lies strictly in the future and at most one
  interval ahead, missed ticks are skipped without losing the phase, and no deadline is
  returned only when it would not be representable.
\<close>

theorem anti_entropy_keeps_phase:
  assumes "previous \<le> now"
  shows "case checked_anti_entropy_deadline previous interval now of
      Some d \<Rightarrow> now < d \<and> d \<le> now + max interval (millis 1)
        \<and> (d - previous) mod (max interval (millis 1)) = 0 \<and> d \<le> INSTANT_MAX
    | None \<Rightarrow> INSTANT_MAX < now + max interval (millis 1)"
proof -
  let ?i = "max interval (millis 1)"
  let ?r = "(now - previous) mod ?i"
  have i: "0 < ?i" by (simp add: millis_def)
  then have r: "?r < ?i" by simp
  have "(now + (?i - ?r) - previous) mod ?i = 0"
  proof -
    have "now + (?i - ?r) - previous = ?i * ((now - previous) div ?i) + ?i"
      using assms r minus_mult_div_eq_mod [of "now - previous" ?i] mult_div_mod_eq [of ?i "now - previous"] by linarith
    then show ?thesis by simp
  qed
  note phase = this
  have step: "checked_anti_entropy_deadline previous interval now =
      (if INSTANT_MAX < previous + ?i then None else if now < previous + ?i then Some (previous + ?i)
       else if now + (?i - ?r) \<le> INSTANT_MAX then Some (now + (?i - ?r)) else None)"
    by (simp add: checked_anti_entropy_deadline_def normalize_anti_entropy_interval_def instant_checked_add_def Let_def)
  show ?thesis
  proof (cases "now < previous + ?i")
    case True
    then show ?thesis using assms by (simp add: step)
  next
    case False
    have "now < now + (?i - ?r)" "now + (?i - ?r) \<le> now + ?i" using r by linarith+
    with False phase show ?thesis unfolding step by (auto simp only: if_False option.case split: if_splits)
  qed
qed

theorem anti_entropy_keeps_phase_witness:
  "checked_anti_entropy_deadline 0 (millis 10) (millis 25) = Some (millis 30)
   \<and> (millis 30 - 0) mod max (millis 10) (millis 1) = 0"
  using anti_entropy_keeps_phase [of 0 "millis 25" "millis 10"]
  by (simp add: checked_anti_entropy_deadline_def normalize_anti_entropy_interval_def instant_checked_add_def
      Let_def millis_def INSTANT_MAX_def)

end
