(* ===== verification/Replication.thy ===== *)
theory Replication
  imports Op_Delivery Peer_Health
begin

text \<open>
  \<open>sync_manager/replication.rs\<close>: remembering and broadcasting the operations this node
  produces, and handling the events of the network. The queue of local operations and the
  queue of events are lists, oldest first. The network is the \<open>node_api\<close> parameter; its
  world is threaded through the calls.
\<close>

section \<open>Local operations\<close>

definition BROADCAST_BATCH_MAX :: nat where
  "BROADCAST_BATCH_MAX = 1024"

definition remember_ops ::
    "serde \<Rightarrow> Op list \<Rightarrow> 'db sync_state \<Rightarrow> 'db sync_state \<times> (storage_error + unit)" where
  "remember_ops J ops s =
     (let seen = seen_ops_window s; log = op_log s in
      case fresh_ops (seen_ids seen) ops [] [] of (inserted_ids, inserted_ops) \<Rightarrow>
      let evicted = plan_seen_evictions seen inserted_ids;
          log_evicted = plan_op_log_evictions log (length inserted_ops) (op_log_limit s) in
      case number_plans 0 (length inserted_ops - 1) inserted_ops (seen_ops_next_sequence s)
          (op_log_next_sequence s) evicted log_evicted of (inserts, next_seen, next_log) \<Rightarrow>
      case persist_local_ops_batch J inserts (sync_store s) of
        (st, Inl e) \<Rightarrow> (s\<lparr>sync_store := st\<rparr>, Inl e)
      | (st, Inr _) \<Rightarrow>
          (s\<lparr>seen_ops_window := apply_seen_insertions seen inserted_ids evicted,
             op_log := fst (prune_op_log_and_return_evicted (log @ inserted_ops) (op_log_limit s)),
             seen_ops_next_sequence := next_seen,
             op_log_next_sequence := next_log,
             sync_store := st\<rparr>, Inr ()))"

record ('db, 'w) node_context =
  ctx_sync :: "'db sync_state"
  ctx_world :: 'w
  ctx_peer_health :: health_table
  ctx_active_connections :: "(string, peer_connection_info) omap"
  ctx_watermarks :: "(node_id, string) omap"
  ctx_dead_after :: u32

definition with_metrics :: "(runtime_metrics \<Rightarrow> runtime_metrics) \<Rightarrow> 'db sync_state \<Rightarrow> 'db sync_state" where
  "with_metrics f s = s\<lparr>sync_metrics := f (sync_metrics s)\<rparr>"

text \<open>
  \<open>broadcast_batch\<close>: the first operation and what the channel holds after the short sleep, at
  most \<open>BROADCAST_BATCH_MAX\<close> in all, are remembered and then sent. \<open>elapsed\<close> is the time the
  send took.
\<close>

definition broadcast_batch ::
    "serde \<Rightarrow> 'w node_api \<Rightarrow> duration \<Rightarrow> Op \<Rightarrow> Op list \<Rightarrow> ('db, 'w) node_context \<Rightarrow>
     Op list \<times> ('db, 'w) node_context" where
  "broadcast_batch J N elapsed first queue c =
     (let batch = first # take (BROADCAST_BATCH_MAX - 1) queue;
          rest = drop (BROADCAST_BATCH_MAX - 1) queue;
          n = length batch
      in case remember_ops J batch (ctx_sync c) of
           (s, Inl e) \<Rightarrow> (rest, c\<lparr>ctx_sync := with_metrics record_sync_error s\<rparr>)
         | (s, Inr _) \<Rightarrow>
             (case node_broadcast_ops N batch (ctx_world c) of
                (w, Inl e) \<Rightarrow> (rest, c\<lparr>ctx_sync := with_metrics record_sync_error s, ctx_world := w\<rparr>)
              | (w, Inr _) \<Rightarrow>
                  (rest, c\<lparr>ctx_sync := with_metrics (record_sync_latency elapsed \<circ> record_broadcast_batch n) s,
                           ctx_world := w\<rparr>)))"

lemma broadcast_batch_rest:
  "fst (broadcast_batch J N elapsed first queue c) = drop (BROADCAST_BATCH_MAX - 1) queue"
  by (simp add: broadcast_batch_def Let_def split: prod.splits sum.splits)

text \<open>\<open>drain_broadcast_queue\<close>, on shutdown: batch after batch until the channel is empty.\<close>

function drain_broadcast_queue ::
    "serde \<Rightarrow> 'w node_api \<Rightarrow> duration \<Rightarrow> Op list \<Rightarrow> ('db, 'w) node_context \<Rightarrow> ('db, 'w) node_context" where
  "drain_broadcast_queue J N elapsed [] c = c"
| "drain_broadcast_queue J N elapsed (first # queue) c =
     (let r = broadcast_batch J N elapsed first queue c
      in drain_broadcast_queue J N elapsed (fst r) (snd r))"
  by pat_completeness auto
termination
  by (relation "measure (\<lambda>(J, N, elapsed, queue, c). length queue)") (auto simp: broadcast_batch_rest)

section \<open>Network events\<close>

datatype node_event =
    OpsReceived node_id "Op list"
  | PullRequested node_id string "string option"
  | PeerConnected node_id string nat
  | PeerDisconnected node_id string nat

fun handle_node_event ::
    "serde \<Rightarrow> 'w node_api \<Rightarrow> duration \<Rightarrow> node_event \<Rightarrow> ('db, 'w) node_context \<Rightarrow> ('db, 'w) node_context" where
  "handle_node_event J N elapsed (OpsReceived from_node ops) c =
     (let last_received_op_id = (if ops = [] then None else Some (op_key (last ops)))
      in case apply_remote_ops J elapsed ops (ctx_sync c) of
           (s, Inl e) \<Rightarrow> c\<lparr>ctx_sync := with_metrics record_sync_error s\<rparr>
         | (s, Inr _) \<Rightarrow>
             (case last_received_op_id of
                None \<Rightarrow> c\<lparr>ctx_sync := s\<rparr>
              | Some i \<Rightarrow> c\<lparr>ctx_sync := s, ctx_watermarks := om_insert from_node i (ctx_watermarks c)\<rparr>))"
| "handle_node_event J N elapsed (PullRequested from_node addr since_op_id) c =
     (let ops = op_log_since (op_log (ctx_sync c)) since_op_id
      in case node_send_ops_to_addr N addr ops (ctx_world c) of
           (w, Inl e) \<Rightarrow> c\<lparr>ctx_sync := with_metrics record_sync_error (ctx_sync c), ctx_world := w\<rparr>
         | (w, Inr _) \<Rightarrow> c\<lparr>ctx_world := w\<rparr>)"
| "handle_node_event J N elapsed (PeerConnected node addr n) c =
     (let c = c\<lparr>ctx_peer_health := mark_known_peer_success addr (ctx_peer_health c)\<rparr>;
          c = (case node_connection_info N (ctx_world c) addr of
                 None \<Rightarrow> c
               | Some connection \<Rightarrow>
                   if identity_node_id (identity connection) = node
                   then c\<lparr>ctx_active_connections := om_insert addr connection (ctx_active_connections c)\<rparr>
                   else c)
      in c\<lparr>ctx_sync := with_metrics (set_peers_connected n \<circ> record_peer_connect) (ctx_sync c)\<rparr>)"
| "handle_node_event J N elapsed (PeerDisconnected node addr n) c =
     c\<lparr>ctx_peer_health := mark_known_peer_failure (ctx_dead_after c) addr (ctx_peer_health c),
       ctx_active_connections := om_remove addr (ctx_active_connections c),
       ctx_sync := with_metrics (set_peers_connected n \<circ> record_peer_disconnect) (ctx_sync c)\<rparr>"

definition drain_node_events ::
    "serde \<Rightarrow> 'w node_api \<Rightarrow> (node_event \<times> duration) list \<Rightarrow> ('db, 'w) node_context \<Rightarrow> ('db, 'w) node_context" where
  "drain_node_events J N events c = fold (\<lambda>(e, elapsed). handle_node_event J N elapsed e) events c"

section \<open>Outcomes of remembering a batch\<close>

lemma remember_ops_result:
  fixes s :: "'db sync_state" and ops :: "Op list"
  defines "ys \<equiv> new_ops (seen_ids (seen_ops_window s)) ops"
  shows "remember_ops J ops s =
    (case persist_local_ops_batch J (fst (batch_plans s ys)) (sync_store s) of
       (st, Inl e) \<Rightarrow> (s\<lparr>sync_store := st\<rparr>, Inl e)
     | (st, Inr _) \<Rightarrow> ((remembered ys s)\<lparr>sync_store := st\<rparr>, Inr ()))"
proof -
  obtain plans ns nl where p: "batch_plans s ys = (plans, ns, nl)" by (cases "batch_plans s ys") auto
  then show ?thesis
    by (cases "persist_local_ops_batch J plans (sync_store s)")
      (auto simp: remember_ops_def fresh_ops_new ys_def [symmetric] batch_plans_def remembered_def Let_def
        split: sum.splits)
qed

end
