(* ===== verification/Durable_Replica.thy ===== *)
theory Durable_Replica
  imports Replication
begin

text \<open>
  Memory and store agree: \<open>durable\<close> says that the store holds exactly the registries, the seen
  window and the operation log that are in memory. Remote and local batches keep it, whether
  they succeed or fail, and hydrating a durable store gives the state in memory back.
\<close>

section \<open>The invariant\<close>

abbreviation sync_view :: "('db \<Rightarrow> contents) \<Rightarrow> 'db sync_state \<Rightarrow> contents" where
  "sync_view \<alpha> s \<equiv> \<alpha> (store_db (sync_store s))"

abbreviation log_capacity :: "'db sync_state \<Rightarrow> nat" where
  "log_capacity s \<equiv> normalize_op_log_limit (op_log_limit s)"

definition window_durable :: "contents \<Rightarrow> 'db sync_state \<Rightarrow> bool" where
  "window_durable m s =
     (\<exists>es. seen_holds m es \<and> map snd es = seen_order (seen_ops_window s)
        \<and> (\<forall>e \<in> set es. fst e < seen_ops_next_sequence s))"

definition log_durable :: "serde \<Rightarrow> contents \<Rightarrow> 'db sync_state \<Rightarrow> bool" where
  "log_durable J m s =
     (\<exists>fs. op_log_holds J m fs \<and> map snd fs = op_log s
        \<and> (\<forall>e \<in> set fs. fst e < op_log_next_sequence s))"

text \<open>The log holds the most recent operations of the window, as long as its limit is not the larger one.\<close>

definition log_in_window :: "'db sync_state \<Rightarrow> bool" where
  "log_in_window s = (map op_key (op_log s) = last_n (length (op_log s)) (seen_order (seen_ops_window s)))"

definition durable :: "serde \<Rightarrow> ('db \<Rightarrow> contents) \<Rightarrow> 'db sync_state \<Rightarrow> bool" where
  "durable J \<alpha> s =
     (sled_ok (store_sled (sync_store s)) \<alpha> \<and> sync_wf s \<and> log_in_window s
      \<and> registries_hold J (sync_view \<alpha> s) (sync_registries s)
      \<and> window_durable (sync_view \<alpha> s) s \<and> log_durable J (sync_view \<alpha> s) s)"

text \<open>Strings are UTF-8.\<close>

definition op_utf8 :: "Op \<Rightarrow> bool" where
  "op_utf8 x = (utf8_valid (as_bytes (op_key x)) \<and> utf8_valid (as_bytes (snd (op_target x))))"

text \<open>There is room for a batch: it fits the log, and the counters do not saturate.\<close>

definition batch_fits :: "nat \<Rightarrow> 'db sync_state \<Rightarrow> bool" where
  "batch_fits n s = (n \<le> log_capacity s \<and> log_capacity s \<le> seen_limit (seen_ops_window s)
     \<and> unat (seen_ops_next_sequence s) + n \<le> u64_max \<and> unat (op_log_next_sequence s) + n \<le> u64_max)"

section \<open>Lemmas\<close>

lemma last_n_last_n: "m \<le> n \<Longrightarrow> last_n m (last_n n xs) = last_n m xs"
  by (cases "n \<le> length xs") (simp_all add: last_n_def add.commute)

lemma map_last_n: "map f (last_n n xs) = last_n n (map f xs)"
  by (simp add: last_n_def drop_map)

lemma sorted_append_numbers:
  assumes "sorted_wrt (<) xs" "sorted_wrt (<) ys" "\<forall>x \<in> set xs. x < (n :: u64)" "\<forall>y \<in> set ys. n \<le> y"
  shows "sorted_wrt (<) (xs @ ys)"
  using assms by (auto simp: sorted_wrt_append intro: less_le_trans)

lemma batch_plans_numbers:
  fixes s :: "'db sync_state"
  assumes "unat (seen_ops_next_sequence s) + length ys \<le> u64_max" "unat (op_log_next_sequence s) + length ys \<le> u64_max"
    and plans: "batch_plans s ys = (plans, ns, nl)"
  shows "sorted_wrt (<) (map seen_sequence plans)" "sorted_wrt (<) (map op_log_sequence plans)"
    "\<forall>plan \<in> set plans. seen_ops_next_sequence s \<le> seen_sequence plan \<and> seen_sequence plan < ns"
    "\<forall>plan \<in> set plans. op_log_next_sequence s \<le> op_log_sequence plan \<and> op_log_sequence plan < nl"
    "seen_ops_next_sequence s \<le> ns" "op_log_next_sequence s \<le> nl" "map plan_op plans = ys"
proof -
  let ?ev = "plan_seen_evictions (seen_ops_window s) (map op_key ys)"
  let ?lev = "plan_op_log_evictions (op_log s) (length ys) (op_log_limit s)"
  have p: "number_plans 0 (length ys - 1) ys (seen_ops_next_sequence s) (op_log_next_sequence s) ?ev ?lev = (plans, ns, nl)"
    using plans by (simp add: batch_plans_def)
  have next_numbers: "unat ns = unat (seen_ops_next_sequence s) + length ys" "unat nl = unat (op_log_next_sequence s) + length ys"
    using number_plans_next [of 0 "length ys - 1" ys "seen_ops_next_sequence s" "op_log_next_sequence s" ?ev ?lev] assms(1,2)
    unfolding p by simp_all
  have "unat (seen_sequence (plans ! i)) = unat (seen_ops_next_sequence s) + i
      \<and> unat (op_log_sequence (plans ! i)) = unat (op_log_next_sequence s) + i" if "i < length ys" for i
    using number_plans_sequences [OF that, of 0 "length ys - 1" "seen_ops_next_sequence s" "op_log_next_sequence s" ?ev ?lev]
      that assms(1,2) unfolding p by simp
  moreover show ops: "map plan_op plans = ys"
    using number_plans_ops [of 0 "length ys - 1" ys "seen_ops_next_sequence s" "op_log_next_sequence s" ?ev ?lev] unfolding p by simp
  moreover have len: "length plans = length ys" using ops by (metis length_map)
  ultimately have nth: "unat (seen_sequence (plans ! i)) = unat (seen_ops_next_sequence s) + i"
      "unat (op_log_sequence (plans ! i)) = unat (op_log_next_sequence s) + i" if "i < length plans" for i
    using that by simp_all
  show "sorted_wrt (<) (map seen_sequence plans)" "sorted_wrt (<) (map op_log_sequence plans)"
    by (simp_all add: sorted_wrt_iff_nth_less word_less_nat_alt nth)
  show "\<forall>plan \<in> set plans. seen_ops_next_sequence s \<le> seen_sequence plan \<and> seen_sequence plan < ns"
    "\<forall>plan \<in> set plans. op_log_next_sequence s \<le> op_log_sequence plan \<and> op_log_sequence plan < nl"
    by (auto simp: in_set_conv_nth word_less_nat_alt word_le_nat_alt nth next_numbers len)
  show "seen_ops_next_sequence s \<le> ns" "op_log_next_sequence s \<le> nl"
    by (simp_all add: word_le_nat_alt next_numbers)
qed

lemma batch_plans_evicted:
  assumes "ys \<noteq> []" "batch_plans s ys = (plans, ns, nl)"
  shows "concat (map seen_evicted plans) = plan_seen_evictions (seen_ops_window s) (map op_key ys)"
    and "concat (map op_log_evicted plans) = plan_op_log_evictions (op_log s) (length ys) (op_log_limit s)"
  using number_plans_evicted [OF assms(1), of "length ys - 1" 0 "seen_ops_next_sequence s" "op_log_next_sequence s"
      "plan_seen_evictions (seen_ops_window s) (map op_key ys)"
      "plan_op_log_evictions (op_log s) (length ys) (op_log_limit s)"] assms(2)
  by (simp_all add: batch_plans_def)

lemma seen_items_map: "map fst (seen_items plans) = map seen_sequence plans" "map snd (seen_items plans) = map (op_key \<circ> plan_op) plans"
  by (simp_all add: seen_items_def)

lemma log_items_map: "map fst (log_items plans) = map op_log_sequence plans" "map snd (log_items plans) = map plan_op plans"
  by (simp_all add: log_items_def)

text \<open>New operations are neither in the window nor, therefore, in the log.\<close>

lemma fresh_not_logged:
  assumes "sync_wf s" "log_in_window s" "op_key ` set ys \<inter> seen_ids (seen_ops_window s) = {}"
  shows "op_key ` set (op_log s) \<inter> op_key ` set ys = {}"
proof -
  have "op_key ` set (op_log s) = set (last_n (length (op_log s)) (seen_order (seen_ops_window s)))"
    using assms(2) by (metis log_in_window_def set_map)
  also have "\<dots> \<subseteq> seen_ids (seen_ops_window s)"
    using assms(1) set_drop_subset by (fastforce simp: sync_wf_def seen_wf_def last_n_def)
  finally show ?thesis using assms(3) by blast
qed

section \<open>A batch keeps the bookkeeping durable\<close>

lemma batch_window_durable:
  assumes wf: "sync_wf s" and w: "window_durable m s" and ys: "ys \<noteq> []" "distinct (map op_key ys)"
      "op_key ` set ys \<inter> seen_ids (seen_ops_window s) = {}" "\<forall>x \<in> set ys. op_utf8 x"
    and fits: "batch_fits (length ys) s"
    and push: "fold_res (push_plan J) (fst (batch_plans s ys)) (sets0, []) = Inr (sets, deletes)"
    and sets0: "\<And>k v. (k, v) \<in> set sets0 \<Longrightarrow> \<exists>kind ns a. k = crdt_store_key kind ns a"
  shows "window_durable (batch_view sets deletes m) (remembered ys s)"
proof -
  obtain plans ns nl where p: "batch_plans s ys = (plans, ns, nl)" by (cases "batch_plans s ys") auto
  obtain es where es: "seen_holds m es" "map snd es = seen_order (seen_ops_window s)"
    "\<forall>e \<in> set es. fst e < seen_ops_next_sequence s" using w by (auto simp: window_durable_def)
  have fit: "unat (seen_ops_next_sequence s) + length ys \<le> u64_max" "unat (op_log_next_sequence s) + length ys \<le> u64_max"
    using fits by (simp_all add: batch_fits_def)
  note num = batch_plans_numbers [OF fit p]
  let ?xs = "es @ seen_items plans"
  let ?ev = "plan_seen_evictions (seen_ops_window s) (map op_key ys)"
  have ids: "map (op_key \<circ> plan_op) plans = map op_key ys" using num(7) by (metis map_map)
  have members: "(op_key \<circ> plan_op) ` set plans = op_key ` set ys" using ids by (metis set_map)
  have keys: "map snd ?xs = seen_order (seen_ops_window s) @ map op_key ys" by (simp add: es(2) seen_items_map ids)
  have seen: "seen_ids (seen_ops_window s) = set (map snd es)" using wf es(2) by (simp add: sync_wf_def seen_wf_def)
  have disjoint: "snd ` set es \<inter> (op_key \<circ> plan_op) ` set plans = {}"
    using ys(3) unfolding seen members by (auto simp del: set_map simp: image_set)
  have sorted: "sorted_wrt (<) (map fst ?xs)"
    using es(1,3) num(1,3) unfolding map_append seen_items_map
    by (intro sorted_append_numbers [where n = "seen_ops_next_sequence s"]) (auto simp: numbered_holds_def)
  have utf8: "\<forall>plan \<in> set plans. utf8_valid (as_bytes (op_key (plan_op plan)))"
    using ys(4) unfolding num(7) [symmetric] by (auto simp: op_utf8_def)
  have "seen_holds (batch_view sets deletes m) (filter (\<lambda>e. id (snd e) \<notin> set (concat (map seen_evicted plans))) ?xs)"
  proof (rule persist_plans_seen [OF push [unfolded p fst_conv] _ _ utf8 es(1) sorted disjoint])
    show "distinct (map (op_key \<circ> plan_op) plans)" using ys(2) by (simp only: ids)
  qed (rule sets0)
  then have holds: "seen_holds (batch_view sets deletes m) (filter (\<lambda>e. id (snd e) \<notin> set ?ev) ?xs)"
    by (simp only: batch_plans_evicted(1) [OF ys(1) p])
  have d: "distinct (map snd ?xs)"
    unfolding keys using ys(2,3) wf by (auto simp: sync_wf_def seen_wf_def)
  let ?n = "length ?xs - seen_limit (seen_ops_window s)"
  have len: "length ?xs = length (seen_order (seen_ops_window s)) + length ys"
    using keys by (metis length_append length_map)
  have ev: "?ev = take ?n (map snd ?xs)" unfolding keys plan_seen_evictions_eq len by simp
  have filt: "filter (\<lambda>e. id (snd e) \<notin> set ?ev) ?xs = drop ?n ?xs"
    using filter_not_taken [OF d, of ?n] by (simp only: ev id_apply)
  moreover have "map snd (drop ?n ?xs) = seen_order (seen_ops_window (remembered ys s))"
    unfolding drop_map [symmetric] keys remembered_window(1) [OF wf ys(2,3)] len by (simp add: last_n_def)
  moreover have "\<forall>e \<in> set (drop ?n ?xs). fst e < seen_ops_next_sequence (remembered ys s)"
  proof
    fix e assume "e \<in> set (drop ?n ?xs)"
    then have "e \<in> set ?xs" by (rule in_set_dropD)
    then have "e \<in> set es \<or> (\<exists>plan \<in> set plans. fst e = seen_sequence plan)"
      by (auto simp: seen_items_def)
    then show "fst e < seen_ops_next_sequence (remembered ys s)"
      using es(3) num(3,5) by (auto simp: remembered_def p intro: less_le_trans)
  qed
  ultimately show ?thesis using holds unfolding window_durable_def by metis
qed

lemma batch_log_durable:
  assumes wf: "sync_wf s" and w: "log_durable J m s" and lw: "log_in_window s"
    and ys: "ys \<noteq> []" "distinct (map op_key ys)"
      "op_key ` set ys \<inter> seen_ids (seen_ops_window s) = {}" "\<forall>x \<in> set ys. op_utf8 x"
    and fits: "batch_fits (length ys) s"
    and push: "fold_res (push_plan J) (fst (batch_plans s ys)) (sets0, []) = Inr (sets, deletes)"
    and sets0: "\<And>k v. (k, v) \<in> set sets0 \<Longrightarrow> \<exists>kind ns a. k = crdt_store_key kind ns a"
  shows "log_durable J (batch_view sets deletes m) (remembered ys s)"
proof -
  obtain plans ns nl where p: "batch_plans s ys = (plans, ns, nl)" by (cases "batch_plans s ys") auto
  obtain fs where fs: "op_log_holds J m fs" "map snd fs = op_log s"
    "\<forall>e \<in> set fs. fst e < op_log_next_sequence s" using w by (auto simp: log_durable_def)
  have fit: "unat (seen_ops_next_sequence s) + length ys \<le> u64_max" "unat (op_log_next_sequence s) + length ys \<le> u64_max"
    using fits by (simp_all add: batch_fits_def)
  note num = batch_plans_numbers [OF fit p]
  let ?xs = "fs @ log_items plans"
  let ?ev = "plan_op_log_evictions (op_log s) (length ys) (op_log_limit s)"
  have ids: "map (op_key \<circ> plan_op) plans = map op_key ys" using num(7) by (metis map_map)
  have members: "(op_key \<circ> plan_op) ` set plans = op_key ` set ys" using ids by (metis set_map)
  have vals: "map snd ?xs = op_log s @ ys" by (simp add: fs(2) log_items_map num(7))
  have keys: "map (op_key \<circ> snd) ?xs = map op_key (op_log s @ ys)" using vals by (metis map_map)
  have disjoint: "(op_key \<circ> snd) ` set fs \<inter> (op_key \<circ> plan_op) ` set plans = {}"
    using fresh_not_logged [OF wf lw ys(3)] unfolding members fs(2) [symmetric] by (simp add: image_comp)
  have sorted: "sorted_wrt (<) (map fst ?xs)"
    using fs(1,3) num(2,4) unfolding map_append log_items_map
    by (intro sorted_append_numbers [where n = "op_log_next_sequence s"]) (auto simp: numbered_holds_def)
  have utf8: "\<forall>plan \<in> set plans. utf8_valid (as_bytes (op_key (plan_op plan)))"
    using ys(4) unfolding num(7) [symmetric] by (auto simp: op_utf8_def)
  have "op_log_holds J (batch_view sets deletes m) (filter (\<lambda>e. op_key (snd e) \<notin> op_key ` set (concat (map op_log_evicted plans))) ?xs)"
  proof (rule persist_plans_log [OF push [unfolded p fst_conv] _ _ utf8 fs(1) sorted disjoint])
    show "distinct (map (op_key \<circ> plan_op) plans)" using ys(2) by (simp only: ids)
  qed (rule sets0)
  then have holds: "op_log_holds J (batch_view sets deletes m) (filter (\<lambda>e. op_key (snd e) \<notin> op_key ` set ?ev) ?xs)"
    by (simp only: batch_plans_evicted(2) [OF ys(1) p])
  let ?n = "length ?xs - log_capacity s"
  have d: "distinct (map (op_key \<circ> snd) ?xs)"
  proof -
    have "distinct (map (op_key \<circ> snd) fs)" using fs(1) by (simp add: numbered_holds_def)
    then have "distinct (map op_key (op_log s))" unfolding fs(2) [symmetric] by simp
    with fresh_not_logged [OF wf lw ys(3)] ys(2) show ?thesis unfolding keys by simp
  qed
  have len: "length ?xs = length (op_log s) + length ys" using vals by (metis length_append length_map)
  have "?ev = take ?n (op_log s @ ys)"
    unfolding len using fits by (simp add: plan_op_log_evictions_def Let_def batch_fits_def)
  then have "op_key ` set ?ev = set (take ?n (map (op_key \<circ> snd) ?xs))"
    by (simp only: keys take_map set_map)
  then have filt: "filter (\<lambda>e. op_key (snd e) \<notin> op_key ` set ?ev) ?xs = drop ?n ?xs"
    using filter_not_taken [OF d, of ?n] by (simp only: comp_apply)
  moreover have "map snd (drop ?n ?xs) = op_log (remembered ys s)"
    unfolding drop_map [symmetric] vals remembered_window(3) [OF wf ys(2,3)] len by (simp add: last_n_def)
  moreover have "\<forall>e \<in> set (drop ?n ?xs). fst e < op_log_next_sequence (remembered ys s)"
  proof
    fix e assume "e \<in> set (drop ?n ?xs)"
    then have "e \<in> set ?xs" by (rule in_set_dropD)
    then have "e \<in> set fs \<or> (\<exists>plan \<in> set plans. fst e = op_log_sequence plan)"
      by (auto simp: log_items_def)
    then show "fst e < op_log_next_sequence (remembered ys s)"
      using fs(3) num(4,6) by (auto simp: remembered_def p intro: less_le_trans)
  qed
  ultimately show ?thesis using holds unfolding log_durable_def by metis
qed

lemma last_n_tail: "n \<le> length xs \<Longrightarrow> last_n n xs @ ys = last_n (n + length ys) (xs @ ys)"
  by (simp add: last_n_def)

lemma remembered_log_in_window:
  assumes wf: "sync_wf s" and lw: "log_in_window s" and ys: "distinct (map op_key ys)"
      "op_key ` set ys \<inter> seen_ids (seen_ops_window s) = {}"
    and fits: "log_capacity s \<le> seen_limit (seen_ops_window s)"
  shows "log_in_window (remembered ys s)"
proof -
  let ?order = "seen_order (seen_ops_window s)" and ?k = "length (op_log s)" and ?c = "log_capacity s"
  let ?n = "min (?k + length ys) ?c"
  have k: "?k \<le> length ?order"
    using arg_cong [OF lw [unfolded log_in_window_def], of length] by simp
  have "map op_key (op_log (remembered ys s)) = last_n ?c (last_n ?k ?order @ map op_key ys)"
    using lw by (simp add: remembered_window(3) [OF wf ys] map_last_n log_in_window_def)
  also have "\<dots> = last_n ?c (last_n (?k + length ys) (?order @ map op_key ys))"
    by (simp add: last_n_tail [OF k])
  also have "\<dots> = last_n ?n (?order @ map op_key ys)"
    using k by (simp add: last_n_def min_def add.commute)
  also have "\<dots> = last_n ?n (seen_order (seen_ops_window (remembered ys s)))"
    using fits by (simp add: remembered_window(1) [OF wf ys] last_n_last_n)
  finally show ?thesis by (simp add: log_in_window_def remembered_window(3) [OF wf ys] min.commute)
qed

section \<open>Outcomes of persisting\<close>

lemma utf8_keys_insert: "utf8_keys U \<Longrightarrow> utf8_valid (as_bytes key) \<Longrightarrow> utf8_keys (om_insert key v U)"
  by (auto simp: utf8_keys_def list_all_iff)

lemma update_utf8:
  assumes "registries_utf8 U" "op_utf8 x"
  shows "registries_utf8 (apply_remote_op_to_crdt_updates x R U)"
proof (cases "op_kind x")
  case (LwwRegisterSet key v t)
  then show ?thesis using assms
    by (auto simp: registries_utf8_def apply_remote_op_to_crdt_updates_def lww_register_applier_def
        apply_remote_lww_register_set_def op_utf8_def op_target_def intro!: utf8_keys_insert split: option.splits prod.splits bool.splits)
qed (use assms in \<open>simp_all add: registries_utf8_def apply_remote_op_to_crdt_updates_def op_utf8_def op_target_def
    gcounter_applier_def apply_remote_gcounter_increment_def pncounter_applier_def apply_remote_pncounter_op_def
    lww_map_applier_def apply_remote_lww_map_set_def apply_remote_lww_map_remove_def
    orset_applier_def apply_remote_orset_add_def apply_remote_orset_remove_def
    rga_applier_def apply_remote_rga_insert_def apply_remote_rga_delete_def utf8_keys_insert\<close>)

lemma registries_utf8_no_updates [simp]: "registries_utf8 no_updates"
  by (simp add: registries_utf8_def no_updates_def utf8_keys_def om_keys_def)

lemma ops_updates_utf8: "registries_utf8 U \<Longrightarrow> \<forall>x \<in> set ys. op_utf8 x \<Longrightarrow> registries_utf8 (ops_updates R ys U)"
  by (induction ys arbitrary: U) (simp_all add: ops_updates_def update_utf8)

lemma write_batch_outcome:
  assumes "sled_ok (store_sled st) \<alpha>" "write_batch sets deletes st = (st', r)"
  shows "store_sled st' = store_sled st
    \<and> \<alpha> (store_db st') = (case r of Inr _ \<Rightarrow> batch_view sets deletes (\<alpha> (store_db st)) | Inl _ \<Rightarrow> \<alpha> (store_db st))"
proof -
  obtain q where q: "store_apply_batch sets deletes st = (st', q)" "r = map_err StoreFailure q"
    using assms(2) by (cases "store_apply_batch sets deletes st") (auto simp: write_batch_def st_map_err_def)
  then have "store_sled st' = store_sled st" using store_sled_writes(1) [of sets deletes st] by simp
  with store_batch_view [OF assms(1) q(1)] q(2) show ?thesis by (cases q) simp_all
qed

text \<open>Registries do not notice a batch that stays out of their tables.\<close>

lemma table_other_batch:
  assumes "table_holds kind c mat m reg"
    and "\<And>k v ns. starts_with k (as_bytes (crdt_kind_prefix kind ns)) \<Longrightarrow> (k, v) \<notin> set sets \<and> k \<notin> set deletes"
  shows "table_holds kind c mat (batch_view sets deletes m) reg"
  using table_holds_batch [OF assms(1), of sets om_empty deletes] assms(2) by (auto simp: storable_def)

lemma registries_other_batch:
  assumes "registries_hold J m R"
    and "\<And>k v kind ns. starts_with k (as_bytes (crdt_kind_prefix kind ns)) \<Longrightarrow> (k, v) \<notin> set sets \<and> k \<notin> set deletes"
  shows "registries_hold J (batch_view sets deletes m) R"
  using assms by (simp add: registries_hold_def table_other_batch)

text \<open>Persisting writes one batch or leaves the contents as they are.\<close>

lemma persist_remote_outcome:
  assumes ok: "sled_ok (store_sled st) \<alpha>" and plans: "plans \<noteq> []"
    and run: "persist_remote_ops_batch J plans U st = (st', r)"
  shows "store_sled st' = store_sled st"
    and "r = Inl e \<Longrightarrow> \<alpha> (store_db st') = \<alpha> (store_db st)"
    and "r = Inr () \<Longrightarrow> \<exists>sets0 sets deletes. update_sets J U = Inr sets0
      \<and> fold_res (push_plan J) plans (sets0, []) = Inr (sets, deletes)
      \<and> \<alpha> (store_db st') = batch_view sets deletes (\<alpha> (store_db st))"
proof -
  consider e where "update_sets J U = Inl e" "st' = st" "r = Inl e"
    | sets0 e where "update_sets J U = Inr sets0" "fold_res (push_plan J) plans (sets0, []) = Inl e" "st' = st" "r = Inl e"
    | sets0 sets deletes where "update_sets J U = Inr sets0"
        "fold_res (push_plan J) plans (sets0, []) = Inr (sets, deletes)" "write_batch sets deletes st = (st', r)"
    using run plans
    by (cases "update_sets J U"; auto simp: persist_remote_ops_batch_def st_bind_def st_lift_def split: sum.splits)
  then have "store_sled st' = store_sled st
    \<and> (\<forall>e. r = Inl e \<longrightarrow> \<alpha> (store_db st') = \<alpha> (store_db st))
    \<and> (r = Inr () \<longrightarrow> (\<exists>sets0 sets deletes. update_sets J U = Inr sets0
      \<and> fold_res (push_plan J) plans (sets0, []) = Inr (sets, deletes)
      \<and> \<alpha> (store_db st') = batch_view sets deletes (\<alpha> (store_db st))))"
    by cases (auto dest!: write_batch_outcome [OF ok])
  then show "store_sled st' = store_sled st" "r = Inl e \<Longrightarrow> \<alpha> (store_db st') = \<alpha> (store_db st)"
    "r = Inr () \<Longrightarrow> \<exists>sets0 sets deletes. update_sets J U = Inr sets0
      \<and> fold_res (push_plan J) plans (sets0, []) = Inr (sets, deletes)
      \<and> \<alpha> (store_db st') = batch_view sets deletes (\<alpha> (store_db st))" by blast+
qed

lemma persist_local_outcome:
  assumes ok: "sled_ok (store_sled st) \<alpha>" and plans: "plans \<noteq> []"
    and run: "persist_local_ops_batch J plans st = (st', r)"
  shows "store_sled st' = store_sled st"
    and "r = Inl e \<Longrightarrow> \<alpha> (store_db st') = \<alpha> (store_db st)"
    and "r = Inr () \<Longrightarrow> \<exists>sets deletes. fold_res (push_plan J) plans ([], []) = Inr (sets, deletes)
      \<and> \<alpha> (store_db st') = batch_view sets deletes (\<alpha> (store_db st))"
proof -
  consider e where "fold_res (push_plan J) plans ([], []) = Inl e" "st' = st" "r = Inl e"
    | sets deletes where "fold_res (push_plan J) plans ([], []) = Inr (sets, deletes)" "write_batch sets deletes st = (st', r)"
    using run plans
    by (cases "fold_res (push_plan J) plans ([], [])"; auto simp: persist_local_ops_batch_def st_bind_def st_lift_def split: sum.splits)
  then have "store_sled st' = store_sled st
    \<and> (\<forall>e. r = Inl e \<longrightarrow> \<alpha> (store_db st') = \<alpha> (store_db st))
    \<and> (r = Inr () \<longrightarrow> (\<exists>sets deletes. fold_res (push_plan J) plans ([], []) = Inr (sets, deletes)
      \<and> \<alpha> (store_db st') = batch_view sets deletes (\<alpha> (store_db st))))"
    by cases (auto dest!: write_batch_outcome [OF ok])
  then show "store_sled st' = store_sled st" "r = Inl e \<Longrightarrow> \<alpha> (store_db st') = \<alpha> (store_db st)"
    "r = Inr () \<Longrightarrow> \<exists>sets deletes. fold_res (push_plan J) plans ([], []) = Inr (sets, deletes)
      \<and> \<alpha> (store_db st') = batch_view sets deletes (\<alpha> (store_db st))" by blast+
qed

lemma batch_plans_Nil_iff [simp]: "fst (batch_plans s ys) = [] \<longleftrightarrow> ys = []"
  by (simp add: batch_plans_def)

lemma remembered_Nil: "sync_wf s \<Longrightarrow> remembered [] s = s"
  by (simp add: remembered_def batch_plans_def sync_wf_def prune_op_log_eq plan_seen_evictions_def
      apply_seen_insertions_def Let_def seen_wf_def)

section \<open>Steps keep the invariant\<close>

text \<open>The invariant does not look at the metrics, and only at the view of the store.\<close>

lemma durable_cong:
  assumes "durable J \<alpha> s" "sync_registries s' = sync_registries s" "seen_ops_window s' = seen_ops_window s"
    "op_log s' = op_log s" "seen_ops_next_sequence s' = seen_ops_next_sequence s"
    "op_log_next_sequence s' = op_log_next_sequence s" "op_log_limit s' = op_log_limit s"
    "store_sled (sync_store s') = store_sled (sync_store s)" "sync_view \<alpha> s' = sync_view \<alpha> s"
  shows "durable J \<alpha> s'"
  using assms by (simp add: durable_def sync_wf_def log_in_window_def window_durable_def log_durable_def)

lemma durable_batch:
  assumes dur: "durable J \<alpha> s" and ys: "ys \<noteq> []" "distinct (map op_key ys)"
      "op_key ` set ys \<inter> seen_ids (seen_ops_window s) = {}" "\<forall>x \<in> set ys. op_utf8 x"
    and fits: "batch_fits (length ys) s"
    and push: "fold_res (push_plan J) (fst (batch_plans s ys)) (sets0, []) = Inr (sets, deletes)"
    and sets0: "\<And>k v. (k, v) \<in> set sets0 \<Longrightarrow> \<exists>kind ns a. k = crdt_store_key kind ns a"
    and st: "store_sled st = store_sled (sync_store s)" "\<alpha> (store_db st) = batch_view sets deletes (sync_view \<alpha> s)"
    and R: "registries_hold J (\<alpha> (store_db st)) R"
  shows "durable J \<alpha> ((remembered ys s)\<lparr>sync_registries := R, sync_store := st, sync_metrics := mt\<rparr>)"
proof -
  have wf: "sync_wf s" "log_in_window s" "sled_ok (store_sled (sync_store s)) \<alpha>" "window_durable (sync_view \<alpha> s) s"
    "log_durable J (sync_view \<alpha> s) s" using dur by (simp_all add: durable_def)
  have cap: "log_capacity s \<le> seen_limit (seen_ops_window s)" using fits by (simp add: batch_fits_def)
  have "window_durable (\<alpha> (store_db st)) (remembered ys s)"
    unfolding st(2) by (rule batch_window_durable [OF wf(1,4) ys fits push sets0])
  moreover have "log_durable J (\<alpha> (store_db st)) (remembered ys s)"
    unfolding st(2) by (rule batch_log_durable [OF wf(1,5,2) ys fits push sets0])
  moreover have "log_in_window (remembered ys s)" using remembered_log_in_window [OF wf(1,2) ys(2,3) cap] .
  moreover have "sync_wf (remembered ys s)" using remembered_window(4) [OF wf(1) ys(2,3)] .
  ultimately show ?thesis using R wf(3) st(1)
    by (simp add: durable_def window_durable_def log_durable_def log_in_window_def sync_wf_def)
qed

lemma new_ops_fresh: "op_key ` set (new_ops ids ops) \<inter> ids = {}"
  using new_ops_props(2) [of ids ops] by blast

lemma new_ops_length: "length (new_ops ids ops) \<le> length ops"
proof -
  have "length (new_ops ids ops) = card (op_key ` set (new_ops ids ops))"
    using distinct_card [OF new_ops_props(1) [of ids ops]] by simp
  also have "\<dots> \<le> card (op_key ` set ops)" by (intro card_mono) (auto simp: new_ops_props(2))
  also have "\<dots> \<le> length ops" using card_length [of "map op_key ops"] by simp
  finally show ?thesis .
qed

lemma batch_fits_mono: "batch_fits n s \<Longrightarrow> m \<le> n \<Longrightarrow> batch_fits m s"
  by (auto simp: batch_fits_def)

lemma update_sets_crdt: "update_sets J U = Inr sets \<Longrightarrow> (k, v) \<in> set sets \<Longrightarrow> \<exists>kind ns a. k = crdt_store_key kind ns a"
  by (auto simp: update_sets_Inr(2) encodes_def)

lemma durable_apply_remote:
  assumes dur: "durable J \<alpha> s" and utf8: "\<forall>x \<in> set ops. op_utf8 x" and fits: "batch_fits (length ops) s"
    and run: "apply_remote_ops J elapsed ops s = (s', r)"
  shows "durable J \<alpha> s'"
proof (cases "ops = []")
  case True
  with run dur show ?thesis by (simp add: apply_remote_ops_def)
next
  case False
  let ?ids = "seen_ids (seen_ops_window s)"
  let ?ys = "new_ops ?ids ops"
  let ?U = "ops_updates (sync_registries s) ?ys no_updates"
  have ok: "sled_ok (store_sled (sync_store s)) \<alpha>" "sync_wf s" "registries_hold J (sync_view \<alpha> s) (sync_registries s)"
    using dur by (simp_all add: durable_def)
  obtain st q where q: "persist_remote_ops_batch J (fst (batch_plans s ?ys)) ?U (sync_store s) = (st, q)" by fastforce
  note result = apply_remote_ops_result [OF False, of J elapsed s, unfolded q prod.case]
  show ?thesis
  proof (cases "?ys = []")
    case True
    then have "batch_plans s ?ys = ([], seen_ops_next_sequence s, op_log_next_sequence s)" by (simp add: batch_plans_def)
    then have "st = sync_store s" "q = Inr ()" using q by (simp_all add: persist_remote_ops_batch_def st_lift_def)
    then show ?thesis using result run True remembered_Nil [OF ok(2)]
      by (intro durable_cong [OF dur]) auto
  next
    case ys: False
    then have plans: "fst (batch_plans s ?ys) \<noteq> []" by simp
    note out = persist_remote_outcome [OF ok(1) plans q]
    show ?thesis
    proof (cases q)
      case (Inl e)
      with result run have "s' = s\<lparr>sync_store := st, sync_metrics := record_remote_op_batch (length ops) 0
          (length ops - length ?ys) elapsed True (sync_metrics s)\<rparr>" by simp
      then show ?thesis using out(1) out(2) [OF Inl] by (intro durable_cong [OF dur]) auto
    next
      case (Inr u)
      then obtain sets0 sets deletes where w: "update_sets J ?U = Inr sets0"
        "fold_res (push_plan J) (fst (batch_plans s ?ys)) (sets0, []) = Inr (sets, deletes)"
        "\<alpha> (store_db st) = batch_view sets deletes (sync_view \<alpha> s)" using out(3) by auto
      have members: "\<forall>x \<in> set ?ys. op_utf8 x" using utf8 new_ops_props(3) by blast
      have "registries_hold J (\<alpha> (store_db st)) (install_updates ?U (sync_registries s))"
        using persist_remote_holds [OF ok(1,3) _ plans] q Inr ops_updates_utf8 [OF _ members] by auto
      then have R: "registries_hold J (\<alpha> (store_db st)) (fold deliver ?ys (sync_registries s))"
        by (simp add: ops_updates_deliver)
      show ?thesis
        using durable_batch [OF dur ys new_ops_props(1) new_ops_fresh members
            batch_fits_mono [OF fits new_ops_length] w(2) update_sets_crdt [OF w(1)] out(1) w(3) R] result run Inr
        by auto
    qed
  qed
qed

lemma durable_remember:
  assumes dur: "durable J \<alpha> s" and utf8: "\<forall>x \<in> set ops. op_utf8 x" and fits: "batch_fits (length ops) s"
    and run: "remember_ops J ops s = (s', r)"
  shows "durable J \<alpha> s'"
proof -
  let ?ids = "seen_ids (seen_ops_window s)"
  let ?ys = "new_ops ?ids ops"
  have ok: "sled_ok (store_sled (sync_store s)) \<alpha>" "sync_wf s" "registries_hold J (sync_view \<alpha> s) (sync_registries s)"
    using dur by (simp_all add: durable_def)
  obtain st q where q: "persist_local_ops_batch J (fst (batch_plans s ?ys)) (sync_store s) = (st, q)" by fastforce
  note result = remember_ops_result [of J ops s, unfolded q prod.case]
  show ?thesis
  proof (cases "?ys = []")
    case True
    then have "batch_plans s ?ys = ([], seen_ops_next_sequence s, op_log_next_sequence s)" by (simp add: batch_plans_def)
    then have "st = sync_store s" "q = Inr ()" using q by (simp_all add: persist_local_ops_batch_def st_lift_def)
    then show ?thesis using result run True remembered_Nil [OF ok(2)]
      by (intro durable_cong [OF dur]) auto
  next
    case ys: False
    then have plans: "fst (batch_plans s ?ys) \<noteq> []" by simp
    note out = persist_local_outcome [OF ok(1) plans q]
    show ?thesis
    proof (cases q)
      case (Inl e)
      with result run have "s' = s\<lparr>sync_store := st\<rparr>" by simp
      then show ?thesis using out(1) out(2) [OF Inl] by (intro durable_cong [OF dur]) auto
    next
      case (Inr u)
      then obtain sets deletes where w:
        "fold_res (push_plan J) (fst (batch_plans s ?ys)) ([], []) = Inr (sets, deletes)"
        "\<alpha> (store_db st) = batch_view sets deletes (sync_view \<alpha> s)" using out(3) by auto
      have members: "\<forall>x \<in> set ?ys. op_utf8 x" using utf8 new_ops_props(3) by blast
      have R: "registries_hold J (\<alpha> (store_db st)) (sync_registries s)"
        unfolding w(2) using push_plans_crdt [OF w(1)] by (intro registries_other_batch [OF ok(3)]) auto
      have "s' = (remembered ?ys s)\<lparr>sync_registries := sync_registries s, sync_store := st, sync_metrics := sync_metrics s\<rparr>"
        using result run Inr by (auto simp: remembered_def)
      then show ?thesis
        using durable_batch [OF dur ys new_ops_props(1) new_ops_fresh members
            batch_fits_mono [OF fits new_ops_length] w(1) _ out(1) w(2) R] by simp
    qed
  qed
qed

end
