(* ===== verification/Sample_Replica.thy ===== *)
theory Sample_Replica
  imports Durable_Replica
begin

text \<open>
  Concrete instances of the parameters, on which the hypotheses of the properties are met: a
  serialisation that knows a finite table of states and operations, and an empty replica over
  the store in memory.
\<close>

section \<open>An empty replica over a store in memory\<close>

text \<open>A concrete serialisation for the states listed in a table, by their position.\<close>

fun index_of :: "'a \<Rightarrow> 'a list \<Rightarrow> nat option" where
  "index_of x [] = None"
| "index_of x (y # ys) = (if x = y then Some 0 else map_option Suc (index_of x ys))"

definition table_codec :: "'a list \<Rightarrow> 'a codec" where
  "table_codec xs =
     \<lparr>to_json = (\<lambda>x. case index_of x xs of None \<Rightarrow> Inl ''unsupported'' | Some i \<Rightarrow> Inr (replicate i CHR ''i'')),
      from_json = (\<lambda>j. if length j < length xs then Inr (xs ! length j) else Inl ''unknown'')\<rparr>"

lemma index_of_Some: "index_of x xs = Some i \<Longrightarrow> i < length xs \<and> xs ! i = x"
  by (induction xs arbitrary: i) (auto split: if_splits)

lemma utf8_ascii: "utf8_valid (as_bytes (replicate n CHR ''i''))"
  by (induction n) (simp_all add: as_bytes_def)

lemma codec_ok_table: "codec_ok (table_codec xs)"
  by (auto simp: codec_ok_def table_codec_def utf8_ascii dest!: index_of_Some split: option.splits)

definition table_serde :: "gcounter list \<Rightarrow> Op list \<Rightarrow> serde" where
  "table_serde cs ops =
     \<lparr>gcounter_codec = table_codec cs, pncounter_codec = table_codec [], lww_register_codec = table_codec [],
      lww_map_codec = table_codec [], orset_codec = table_codec [], rga_codec = table_codec [],
      op_to_bytes = (\<lambda>x. case index_of x ops of None \<Rightarrow> Inl ''unsupported'' | Some i \<Rightarrow> Inr (replicate i 0)),
      op_from_bytes = (\<lambda>b. if length b < length ops then Inr (ops ! length b) else Inl ''unknown''),
      entries_to_vec = (\<lambda>_. Inl ''unsupported''), strings_to_vec = (\<lambda>_. Inl ''unsupported''),
      values_to_vec = (\<lambda>_. Inl ''unsupported'')\<rparr>"

lemma serde_ok_table: "serde_ok (table_serde cs ops)"
  by (auto simp: serde_ok_def table_serde_def codec_ok_table dest!: index_of_Some split: option.splits)

definition empty_replica :: "nat \<Rightarrow> nat \<Rightarrow> contents sync_state" where
  "empty_replica log_limit seen_max =
     \<lparr>sync_registries = no_updates, seen_ops_window = seen_ops_new seen_max, op_log = [],
      seen_ops_next_sequence = 0, op_log_next_sequence = 0, op_log_limit = log_limit,
      sync_store = mem_store om_empty, sync_metrics = runtime_metrics_default\<rparr>"

lemma durable_empty: "durable J id (empty_replica log_limit seen_max)"
proof -
  have "sync_wf (empty_replica log_limit seen_max)" "log_in_window (empty_replica log_limit seen_max)"
    by (simp_all add: sync_wf_def empty_replica_def log_in_window_def last_n_def)
  moreover have "registries_hold J om_empty no_updates"
    by (simp add: registries_hold_def no_updates_def)
  moreover have "window_durable om_empty (empty_replica log_limit seen_max)" "log_durable J om_empty (empty_replica log_limit seen_max)"
    unfolding window_durable_def log_durable_def
    by (auto intro!: exI [of _ "[]"] simp: empty_replica_def seen_ops_new_def)
  ultimately show ?thesis
    by (simp add: durable_def empty_replica_def mem_sled_ok)
qed

text \<open>The store in memory never fails.\<close>

lemma mem_store_batch: "store_apply_batch sets deletes (mem_store m) = (mem_store (batch_view sets deletes m), Inr ())"
  by (simp add: store_apply_batch_def apply_batch_unlocked_def with_write_lock_def check_injected_write_failure_def
      finish_write_def mem_store_def mem_sled_def batch_effect_fold [symmetric] case_prod_beta)

lemma mem_store_scan: "scan_prefix (mem_store m) p = Inr (entries_with_prefix p m)"
proof -
  have "for_try Sled (\<lambda>(k, v) out. Continue (out @ [(k, v)])) (map Inr es) acc = Inr (acc @ es)" for es acc
    by (induction es arbitrary: acc) auto
  then show ?thesis by (simp add: scan_prefix_def mem_store_def mem_sled_def)
qed

text \<open>Hydrating a store whose tables are empty.\<close>

lemma hydrate_empty_tables:
  assumes "\<And>p. p \<in> set table_prefixes \<Longrightarrow> entries_with_prefix (as_bytes p) m = []"
  shows "hydrate_op_log J limit (mem_store m) = (mem_store m, Inr ([], 0))"
    and "hydrate_seen_ops seen_max (mem_store m) = (mem_store m, Inr (seen_ops_new (normalize_seen_ops_limit seen_max), 0))"
    and "hydrate_registries J node (mem_store m) = (mem_store m, Inr no_updates)"
proof -
  have scan: "st_bind (scan_table p) f (mem_store m) = f [] (mem_store m)" if "p \<in> set table_prefixes" for p
    and f :: "(bytes \<times> bytes) list \<Rightarrow> (contents, 'a) storage"
    by (rule st_bind_scan) (simp add: mem_store_scan assms that)
  have prefixes: "GCOUNTER_STORE_PREFIX \<in> set table_prefixes" "PNCOUNTER_STORE_PREFIX \<in> set table_prefixes"
    by (simp_all add: table_prefixes_def)
  have bind: "st_bind (st_lift (Inr a)) f = f a" for a and f :: "'x \<Rightarrow> ('s, 'e, 'y) stm"
    by (rule ext) (simp add: st_bind_def st_lift_def)
  show "hydrate_op_log J limit (mem_store m) = (mem_store m, Inr ([], 0))"
    by (simp add: hydrate_op_log_def Let_def scan prune_op_log_and_return_evicted_def persist_op_log_evictions_def bind st_lift_def)
  show "hydrate_seen_ops seen_max (mem_store m) = (mem_store m, Inr (seen_ops_new (normalize_seen_ops_limit seen_max), 0))"
    by (simp add: hydrate_seen_ops_def Let_def scan persist_seen_op_evictions_def bind st_lift_def)
  have durable: "hydrate_durable kind lk pa ma om_empty (mem_store m) = (mem_store m, Inr (om_empty, 0))"
    for kind lk and pa :: "bytes \<Rightarrow> storage_error + 'a" and ma
    by (simp add: hydrate_durable_def scan st_lift_def)
  show "hydrate_registries J node (mem_store m) = (mem_store m, Inr no_updates)"
    by (simp add: hydrate_registries_def hydrate_gcounter_registry_def hydrate_pncounter_registry_def
        hydrate_lww_register_registry_def hydrate_lww_map_registry_def hydrate_orset_registry_def hydrate_rga_registry_def
        hydrate_durable_gcounter_state_def hydrate_durable_pncounter_state_def hydrate_durable_lww_register_state_def
        hydrate_durable_lww_map_state_def hydrate_durable_orset_state_def hydrate_durable_rga_state_def
        hydrate_materialized_gcounter_values_def hydrate_materialized_pncounter_values_def st_bind_def [of "hydrate_durable _ _ _ _ _"]
        durable scan prefixes st_bind_def st_lift_def scan_table_def mem_store_scan assms no_updates_def)
qed

section \<open>Sample operations\<close>

definition sample_op :: Op where
  "sample_op = op_gcounter_increment ''u1'' (NodeId ''n1'') ''k'' 3"

definition other_op :: Op where
  "other_op = op_gcounter_increment ''u2'' (NodeId ''n2'') ''k'' 4"

definition sample_serde :: serde where
  "sample_serde =
     (let c1 = gcounter_increment (NodeId ''n1'') 3 gcounter_new; c2 = gcounter_increment (NodeId ''n2'') 4 gcounter_new
      in table_serde [c1, c2, gcounter_increment (NodeId ''n1'') 3 c2] [sample_op, other_op])"

lemma sample_batch_accepted:
  assumes "ops = [sample_op, other_op, sample_op] \<or> ops = [other_op, sample_op]"
  shows "\<exists>s'. apply_remote_ops sample_serde 5 ops (empty_replica 4 8) = (s', Inr ())"
proof -
  let ?s = "empty_replica 4 8"
  have "new_ops (seen_ids (seen_ops_window ?s)) [sample_op, other_op, sample_op] = [sample_op, other_op]"
    "new_ops (seen_ids (seen_ops_window ?s)) [other_op, sample_op] = [other_op, sample_op]" by code_simp+
  moreover have "snd (persist_remote_ops_batch sample_serde (fst (batch_plans ?s [sample_op, other_op]))
      (ops_updates (sync_registries ?s) [sample_op, other_op] no_updates) (sync_store ?s)) = Inr ()" by code_simp
  moreover have "snd (persist_remote_ops_batch sample_serde (fst (batch_plans ?s [other_op, sample_op]))
      (ops_updates (sync_registries ?s) [other_op, sample_op] no_updates) (sync_store ?s)) = Inr ()" by code_simp
  ultimately show ?thesis
    using assms by (auto simp: apply_remote_ops_result split: prod.splits)
qed

end
