(* ===== verification/Sync_Config.thy ===== *)
theory Sync_Config
  imports Peer_Health
begin

text \<open>
  \<open>nx-core/src/sync_config.rs\<close>: the synchronisation settings, their defaults, the builder
  functions and the validation, and the TLS settings of \<open>nx-net/src/tls.rs\<close> they carry.
  \<open>tokio\<close>'s largest semaphore (\<open>max_permits\<close>) and the current instant are arguments of the
  validation.
\<close>

section \<open>Settings\<close>

datatype serialization_format = Json_Format | Bincode_Format

record tls_config =
  cert_path :: "string option"
  key_path :: "string option"
  ca_path :: "string option"
  allowed_peers :: "string set option"
  insecure :: bool

record sync_config =
  cfg_peers :: "string list"
  cfg_listen_addr :: "string option"
  cfg_tls :: "tls_config option"
  cfg_max_peers :: nat
  cfg_queued_ops_limit :: nat
  cfg_op_log_limit :: nat
  cfg_seen_ops_limit :: nat
  cfg_max_message_size :: nat
  cfg_socket_timeout :: duration
  cfg_reconnect_initial_delay :: duration
  cfg_reconnect_max_delay :: duration
  cfg_peer_dead_after_failures :: u32
  cfg_anti_entropy_interval :: duration
  cfg_serialization_format :: serialization_format

definition secs :: "nat \<Rightarrow> duration" where
  "secs n = n * 1000000000"

definition DEFAULT_MAX_PEERS :: nat where "DEFAULT_MAX_PEERS = 64"
definition DEFAULT_QUEUED_OPS_LIMIT :: nat where "DEFAULT_QUEUED_OPS_LIMIT = 10000"
definition DEFAULT_OP_LOG_LIMIT :: nat where "DEFAULT_OP_LOG_LIMIT = 10000"
definition DEFAULT_SEEN_OPS_LIMIT :: nat where "DEFAULT_SEEN_OPS_LIMIT = 100000"
definition DEFAULT_MAX_MESSAGE_SIZE :: nat where "DEFAULT_MAX_MESSAGE_SIZE = 16 * 1024 * 1024"
definition DEFAULT_SOCKET_TIMEOUT :: duration where "DEFAULT_SOCKET_TIMEOUT = secs 30"
definition DEFAULT_RECONNECT_INITIAL_DELAY :: duration where "DEFAULT_RECONNECT_INITIAL_DELAY = millis 500"
definition DEFAULT_RECONNECT_MAX_DELAY :: duration where "DEFAULT_RECONNECT_MAX_DELAY = secs 30"
definition DEFAULT_PEER_DEAD_AFTER_FAILURES :: u32 where "DEFAULT_PEER_DEAD_AFTER_FAILURES = 3"
definition DEFAULT_ANTI_ENTROPY_INTERVAL :: duration where "DEFAULT_ANTI_ENTROPY_INTERVAL = secs 30"

definition sync_config_default :: sync_config where
  "sync_config_default =
     \<lparr>cfg_peers = [], cfg_listen_addr = None, cfg_tls = None, cfg_max_peers = DEFAULT_MAX_PEERS,
      cfg_queued_ops_limit = DEFAULT_QUEUED_OPS_LIMIT, cfg_op_log_limit = DEFAULT_OP_LOG_LIMIT,
      cfg_seen_ops_limit = DEFAULT_SEEN_OPS_LIMIT, cfg_max_message_size = DEFAULT_MAX_MESSAGE_SIZE,
      cfg_socket_timeout = DEFAULT_SOCKET_TIMEOUT,
      cfg_reconnect_initial_delay = DEFAULT_RECONNECT_INITIAL_DELAY,
      cfg_reconnect_max_delay = DEFAULT_RECONNECT_MAX_DELAY,
      cfg_peer_dead_after_failures = DEFAULT_PEER_DEAD_AFTER_FAILURES,
      cfg_anti_entropy_interval = DEFAULT_ANTI_ENTROPY_INTERVAL,
      cfg_serialization_format = Bincode_Format\<rparr>"

section \<open>Validation\<close>

datatype sync_config_error = Invalid string

text \<open>The two loops over named limits and named durations, then the zero check.\<close>

definition check_capacity :: "nat \<Rightarrow> string \<times> nat \<Rightarrow> unit \<Rightarrow> sync_config_error + unit" where
  "check_capacity max_permits e _ =
     (case e of (name, limit) \<Rightarrow>
       if limit > max_permits
       then Inl (Invalid (name @ '' exceeds the supported channel/semaphore capacity'')) else Inr ())"

definition check_deadline :: "instant \<Rightarrow> string \<times> duration \<Rightarrow> unit \<Rightarrow> sync_config_error + unit" where
  "check_deadline now e _ =
     (case e of (name, d) \<Rightarrow>
       if instant_checked_add now (max d (millis 1)) = None
       then Inl (Invalid (name @ '' exceeds the supported deadline range'')) else Inr ())"

definition sync_config_validate :: "nat \<Rightarrow> instant \<Rightarrow> sync_config \<Rightarrow> sync_config_error + unit" where
  "sync_config_validate max_permits now c =
     res_bind (fold_res (check_capacity max_permits)
       [(''queued_ops_limit'', cfg_queued_ops_limit c), (''max_peers'', cfg_max_peers c)] ()) (\<lambda>_.
     res_bind (fold_res (check_deadline now)
       [(''reconnect_initial_delay'', cfg_reconnect_initial_delay c),
        (''reconnect_max_delay'', cfg_reconnect_max_delay c),
        (''anti_entropy_interval'', cfg_anti_entropy_interval c),
        (''socket_timeout'', cfg_socket_timeout c)] ()) (\<lambda>_.
     if cfg_socket_timeout c = 0 then Inl (Invalid ''socket_timeout must be positive'') else Inr ()))"

section \<open>Builders\<close>

definition sync_config_new :: sync_config where
  "sync_config_new = sync_config_default"
definition with_peer :: "string \<Rightarrow> sync_config \<Rightarrow> sync_config" where
  "with_peer addr c = c\<lparr>cfg_peers := cfg_peers c @ [addr]\<rparr>"
definition with_listen_addr :: "string \<Rightarrow> sync_config \<Rightarrow> sync_config" where
  "with_listen_addr addr c = c\<lparr>cfg_listen_addr := Some addr\<rparr>"
definition with_tls :: "tls_config \<Rightarrow> sync_config \<Rightarrow> sync_config" where
  "with_tls tls c = c\<lparr>cfg_tls := Some tls\<rparr>"
definition with_max_peers :: "nat \<Rightarrow> sync_config \<Rightarrow> sync_config" where
  "with_max_peers n c = c\<lparr>cfg_max_peers := n\<rparr>"
definition with_queued_ops_limit :: "nat \<Rightarrow> sync_config \<Rightarrow> sync_config" where
  "with_queued_ops_limit n c = c\<lparr>cfg_queued_ops_limit := n\<rparr>"
definition with_op_log_limit :: "nat \<Rightarrow> sync_config \<Rightarrow> sync_config" where
  "with_op_log_limit n c = c\<lparr>cfg_op_log_limit := n\<rparr>"
definition with_seen_ops_limit :: "nat \<Rightarrow> sync_config \<Rightarrow> sync_config" where
  "with_seen_ops_limit n c = c\<lparr>cfg_seen_ops_limit := n\<rparr>"
definition with_max_message_size :: "nat \<Rightarrow> sync_config \<Rightarrow> sync_config" where
  "with_max_message_size n c = c\<lparr>cfg_max_message_size := n\<rparr>"
definition with_socket_timeout :: "duration \<Rightarrow> sync_config \<Rightarrow> sync_config" where
  "with_socket_timeout d c = c\<lparr>cfg_socket_timeout := d\<rparr>"
definition with_reconnect_backoff :: "duration \<Rightarrow> duration \<Rightarrow> sync_config \<Rightarrow> sync_config" where
  "with_reconnect_backoff i m c = c\<lparr>cfg_reconnect_initial_delay := i, cfg_reconnect_max_delay := m\<rparr>"
definition with_peer_dead_after_failures :: "u32 \<Rightarrow> sync_config \<Rightarrow> sync_config" where
  "with_peer_dead_after_failures n c = c\<lparr>cfg_peer_dead_after_failures := n\<rparr>"
definition with_anti_entropy_interval :: "duration \<Rightarrow> sync_config \<Rightarrow> sync_config" where
  "with_anti_entropy_interval d c = c\<lparr>cfg_anti_entropy_interval := d\<rparr>"
definition with_serialization_format :: "serialization_format \<Rightarrow> sync_config \<Rightarrow> sync_config" where
  "with_serialization_format f c = c\<lparr>cfg_serialization_format := f\<rparr>"
definition sync_is_enabled :: "sync_config \<Rightarrow> bool" where
  "sync_is_enabled c = (cfg_listen_addr c \<noteq> None)"

section \<open>Properties of the settings\<close>

lemma sync_config_validate_Inr:
  "sync_config_validate max_permits now c = Inr () \<longleftrightarrow>
   cfg_queued_ops_limit c \<le> max_permits \<and> cfg_max_peers c \<le> max_permits \<and> 0 < cfg_socket_timeout c
   \<and> (\<forall>d \<in> {cfg_reconnect_initial_delay c, cfg_reconnect_max_delay c, cfg_anti_entropy_interval c, cfg_socket_timeout c}.
        now + max d (millis 1) \<le> INSTANT_MAX)"
  by (auto simp: sync_config_validate_def check_capacity_def check_deadline_def instant_checked_add_def res_bind_Inr_iff
      split: sum.splits if_splits)

text \<open>
  Validated settings give timers that work: at the instant of validation every reconnect
  delay up to the cap, the anti-entropy tick and the socket deadline are representable, so
  a first failure is rescheduled and never stops the peer, and the cadence yields a deadline.
\<close>

theorem validated_timers_representable:
  assumes "sync_config_validate max_permits now c = Inr ()"
  defines "rc \<equiv> reconnect_config_new (cfg_max_peers c) (cfg_reconnect_initial_delay c) (cfg_reconnect_max_delay c)
    (cfg_peer_dead_after_failures c)"
  shows "(delay p \<le> max_delay rc \<longrightarrow>
      record_failure (max_delay rc) now p =
        (p\<lparr>next_attempt_at := now + delay p, delay := next_reconnect_delay (delay p) (max_delay rc)\<rparr>, Some (delay p)))
    \<and> snd (record_retry_after (bounded_retry_after d (max_delay rc)) now p) \<noteq> None
    \<and> (\<exists>t. checked_anti_entropy_deadline now (cfg_anti_entropy_interval c) now = Some t)
    \<and> (\<exists>t > now. instant_checked_add now (cfg_socket_timeout c) = Some t)"
proof -
  have M: "max_delay rc = max (cfg_reconnect_max_delay c) (max (cfg_reconnect_initial_delay c) (millis 1))"
    by (simp add: rc_def reconnect_config_new_def Let_def normalize_reconnect_delay_def)
  have rep: "now + max_delay rc \<le> INSTANT_MAX" "now + max (cfg_anti_entropy_interval c) (millis 1) \<le> INSTANT_MAX"
    "now + cfg_socket_timeout c \<le> INSTANT_MAX" "0 < cfg_socket_timeout c"
    using assms(1) unfolding sync_config_validate_Inr M by (auto simp: max_def split: if_splits)
  have "millis 1 \<le> max_delay rc" by (simp add: M)
  then have "normalize_reconnect_delay (bounded_retry_after d (max_delay rc)) \<le> max_delay rc"
    by (simp add: normalize_reconnect_delay_def bounded_retry_after_def)
  then have "snd (record_retry_after (bounded_retry_after d (max_delay rc)) now p) \<noteq> None"
    using rep(1) by (simp add: record_retry_after_def schedule_retry_def instant_checked_add_def)
  moreover have "delay p \<le> max_delay rc \<Longrightarrow> now + delay p \<le> INSTANT_MAX" using rep(1) by simp
  moreover have "0 < max (cfg_anti_entropy_interval c) (millis 1)" by (simp add: millis_def)
  ultimately show ?thesis
    using rep by (auto simp: record_failure_scheduled instant_checked_add_def checked_anti_entropy_deadline_def
        normalize_anti_entropy_interval_def Let_def)
qed

theorem validated_timers_representable_witness:
  "\<exists>t > 7. instant_checked_add 7 (cfg_socket_timeout sync_config_default) = Some t"
proof -
  have "sync_config_validate 100000 7 sync_config_default = Inr ()"
    unfolding sync_config_validate_Inr
    by (simp add: sync_config_default_def DEFAULT_QUEUED_OPS_LIMIT_def DEFAULT_MAX_PEERS_def DEFAULT_SOCKET_TIMEOUT_def
        DEFAULT_RECONNECT_INITIAL_DELAY_def DEFAULT_RECONNECT_MAX_DELAY_def DEFAULT_ANTI_ENTROPY_INTERVAL_def
        secs_def millis_def INSTANT_MAX_def)
  from validated_timers_representable [OF this, of "peer_reconnect_state_new ''a'' 0 0" 0] show ?thesis by simp
qed

end
