(* ===== verification/Store_Schema.thy ===== *)
theory Store_Schema
  imports Store_Keys
begin

text \<open>
  \<open>sync_manager/schema.rs\<close>: the fourteen tables of the synchronisation layer, the eight-byte
  schema header of each, its validation, and \<open>ensure_sync_schema\<close>, which initialises a new
  store atomically and refuses one it cannot read.
\<close>

section \<open>Tables and headers\<close>

definition SCHEMA_MAGIC :: bytes where
  "SCHEMA_MAGIC = as_bytes ''NXDB''"

definition SCHEMA_HEADER_LEN :: nat where
  "SCHEMA_HEADER_LEN = 8"

definition SCHEMA_KEY_PREFIX :: string where
  "SCHEMA_KEY_PREFIX = ''__nx/schema/''"

definition INITIAL_SCHEMA_VERSION :: u16 where
  "INITIAL_SCHEMA_VERSION = 1"

datatype store_table =
    GCounterMaterialized | GCounterState | PNCounterMaterialized | PNCounterState
  | LwwRegisterMaterialized | LwwRegisterState | LwwMapMaterialized | LwwMapState
  | ORSetMaterialized | ORSetState | RgaMaterialized | RgaState | SeenOps | OpLog

text \<open>\<open>table as u16\<close>, the discriminants of the enum.\<close>

fun table_id :: "store_table \<Rightarrow> u16" where
  "table_id GCounterMaterialized = 1"
| "table_id GCounterState = 2"
| "table_id PNCounterMaterialized = 3"
| "table_id PNCounterState = 4"
| "table_id LwwRegisterMaterialized = 5"
| "table_id LwwRegisterState = 6"
| "table_id LwwMapMaterialized = 7"
| "table_id LwwMapState = 8"
| "table_id ORSetMaterialized = 9"
| "table_id ORSetState = 10"
| "table_id RgaMaterialized = 11"
| "table_id RgaState = 12"
| "table_id SeenOps = 13"
| "table_id OpLog = 14"

definition store_table_ALL :: "store_table list" where
  "store_table_ALL = [GCounterMaterialized, GCounterState, PNCounterMaterialized, PNCounterState,
     LwwRegisterMaterialized, LwwRegisterState, LwwMapMaterialized, LwwMapState, ORSetMaterialized,
     ORSetState, RgaMaterialized, RgaState, SeenOps, OpLog]"

fun table_name :: "store_table \<Rightarrow> string" where
  "table_name GCounterMaterialized = ''gcounter-materialized''"
| "table_name GCounterState = ''gcounter-state''"
| "table_name PNCounterMaterialized = ''pncounter-materialized''"
| "table_name PNCounterState = ''pncounter-state''"
| "table_name LwwRegisterMaterialized = ''lww-register-materialized''"
| "table_name LwwRegisterState = ''lww-register-state''"
| "table_name LwwMapMaterialized = ''lww-map-materialized''"
| "table_name LwwMapState = ''lww-map-state''"
| "table_name ORSetMaterialized = ''orset-materialized''"
| "table_name ORSetState = ''orset-state''"
| "table_name RgaMaterialized = ''rga-materialized''"
| "table_name RgaState = ''rga-state''"
| "table_name SeenOps = ''seen-ops''"
| "table_name OpLog = ''op-log''"

fun data_prefix :: "store_table \<Rightarrow> string" where
  "data_prefix GCounterMaterialized = GCOUNTER_STORE_PREFIX"
| "data_prefix GCounterState = GCOUNTER_STATE_STORE_PREFIX"
| "data_prefix PNCounterMaterialized = PNCOUNTER_STORE_PREFIX"
| "data_prefix PNCounterState = PNCOUNTER_STATE_STORE_PREFIX"
| "data_prefix LwwRegisterMaterialized = LWW_REGISTER_STORE_PREFIX"
| "data_prefix LwwRegisterState = LWW_REGISTER_STATE_STORE_PREFIX"
| "data_prefix LwwMapMaterialized = LWW_MAP_STORE_PREFIX"
| "data_prefix LwwMapState = LWW_MAP_STATE_STORE_PREFIX"
| "data_prefix ORSetMaterialized = ORSET_STORE_PREFIX"
| "data_prefix ORSetState = ORSET_STATE_STORE_PREFIX"
| "data_prefix RgaMaterialized = RGA_STORE_PREFIX"
| "data_prefix RgaState = RGA_STATE_STORE_PREFIX"
| "data_prefix SeenOps = SEEN_OP_STORE_PREFIX"
| "data_prefix OpLog = OP_LOG_STORE_PREFIX"

definition current_version :: "store_table \<Rightarrow> u16" where
  "current_version table = INITIAL_SCHEMA_VERSION"

definition schema_key :: "store_table \<Rightarrow> bytes" where
  "schema_key table = as_bytes (SCHEMA_KEY_PREFIX @ table_name table)"

record schema_header =
  header_version :: u16
  header_table :: store_table

datatype schema_error =
    SchemaStore store_error
  | InvalidHeaderLength store_table nat
  | InvalidMagic store_table
  | TableMismatch store_table u16
  | LegacyTable store_table
  | OlderVersion store_table u16 u16
  | FutureVersion store_table u16 u16

definition header_current :: "store_table \<Rightarrow> schema_header" where
  "header_current table = \<lparr>header_version = current_version table, header_table = table\<rparr>"

definition header_encode :: "schema_header \<Rightarrow> bytes" where
  "header_encode h =
     SCHEMA_MAGIC @ u16_to_be_bytes (header_version h) @ u16_to_be_bytes (table_id (header_table h))"

definition header_decode :: "store_table \<Rightarrow> bytes \<Rightarrow> schema_error + schema_header" where
  "header_decode table bs =
     (if length bs \<noteq> SCHEMA_HEADER_LEN then Inl (InvalidHeaderLength table (length bs))
      else if take 4 bs \<noteq> SCHEMA_MAGIC then Inl (InvalidMagic table)
      else let version = u16_from_be_bytes [bs ! 4, bs ! 5];
               actual_table = u16_from_be_bytes [bs ! 6, bs ! 7]
           in if actual_table \<noteq> table_id table then Inl (TableMismatch table actual_table)
              else Inr \<lparr>header_version = version, header_table = table\<rparr>)"

definition validate_header :: "store_table \<Rightarrow> bytes \<Rightarrow> schema_error + unit" where
  "validate_header table bs =
     res_bind (header_decode table bs) (\<lambda>header.
       let current = current_version table
       in if header_version header < current
          then Inl (OlderVersion table (header_version header) current)
          else if header_version header > current
          then Inl (FutureVersion table (header_version header) current)
          else Inr ())"

text \<open>One turn of the loop over the tables, collecting the missing ones.\<close>

definition check_table ::
    "'db store \<Rightarrow> store_table \<Rightarrow> store_table list \<Rightarrow> schema_error + store_table list" where
  "check_table st table missing =
     res_bind (map_err SchemaStore (store_get st (schema_key table))) (\<lambda>found.
       case found of
         Some bs \<Rightarrow> res_bind (validate_header table bs) (\<lambda>_. Inr missing)
       | None \<Rightarrow>
           res_bind (map_err SchemaStore (store_prefix_exists st (as_bytes (data_prefix table)))) (\<lambda>b.
             if b then Inl (LegacyTable table) else Inr (missing @ [table])))"

definition ensure_sync_schema :: "'db store \<Rightarrow> 'db store \<times> (schema_error + unit)" where
  "ensure_sync_schema st =
     (case fold_res (check_table st) store_table_ALL [] of
        Inl e \<Rightarrow> (st, Inl e)
      | Inr missing_tables \<Rightarrow>
          if missing_tables = [] then (st, Inr ())
          else let keys = map schema_key missing_tables;
                   vals = map (\<lambda>table. header_encode (header_current table)) missing_tables;
                   sets = zip keys vals
               in case store_apply_batch sets [] st of
                    (st', r) \<Rightarrow> (st', map_err SchemaStore r))"

section \<open>Lemmas\<close>

lemma all_tables [simp]: "table \<in> set store_table_ALL"
  by (cases table) (simp_all add: store_table_ALL_def)

lemma distinct_tables [simp]: "distinct store_table_ALL"
  by (simp add: store_table_ALL_def)

lemma table_id_inject [simp]: "table_id t = table_id u \<longleftrightarrow> t = u"
  by (cases t; cases u) simp_all

lemma table_name_inject [simp]: "table_name t = table_name u \<longleftrightarrow> t = u"
  by (cases t; cases u) simp_all

lemma schema_key_inject [simp]: "schema_key t = schema_key u \<longleftrightarrow> t = u"
  by (simp add: schema_key_def)

lemma data_prefix_table: "data_prefix t \<in> set table_prefixes"
  by (cases t) (simp_all add: table_prefixes_def)

lemma length_header [simp]: "length (header_encode h) = 8"
  by (simp add: header_encode_def SCHEMA_MAGIC_def)

lemma u16_bytes_nth: "[u16_to_be_bytes w ! 0, u16_to_be_bytes w ! 1] = u16_to_be_bytes w"
  by (rule nth_equalityI) (auto simp: less_Suc_eq nth_Cons split: nat.splits)

lemma header_decode_encode:
  "header_decode table (header_encode h) =
     (if header_table h = table then Inr h else Inl (TableMismatch table (table_id (header_table h))))"
proof -
  let ?v = "u16_to_be_bytes (header_version h)" and ?t = "u16_to_be_bytes (table_id (header_table h))"
  have "take 4 (header_encode h) = SCHEMA_MAGIC" by (simp add: header_encode_def SCHEMA_MAGIC_def)
  moreover have "header_encode h ! 4 = ?v ! 0" "header_encode h ! 5 = ?v ! 1"
    "header_encode h ! 6 = ?t ! 0" "header_encode h ! 7 = ?t ! 1"
    by (simp_all add: header_encode_def SCHEMA_MAGIC_def nth_append)
  ultimately show ?thesis
    by (simp add: header_decode_def SCHEMA_HEADER_LEN_def u16_bytes_nth u16_bytes_nth [simplified])
qed

lemma u16_from_to_be_bytes: "u16_to_be_bytes (u16_from_be_bytes [a, b]) = [a, b]"
  by (simp add: be_bytes_decoded)

lemma header_decode_Inr:
  "header_decode table bs = Inr h \<longleftrightarrow> bs = header_encode h \<and> header_table h = table"
proof
  assume dec: "header_decode table bs = Inr h"
  then have len: "length bs = 8" and magic: "take 4 bs = SCHEMA_MAGIC"
    and h: "header_version h = u16_from_be_bytes [bs ! 4, bs ! 5]" "header_table h = table"
    and t: "table_id table = u16_from_be_bytes [bs ! 6, bs ! 7]"
    by (auto simp: header_decode_def SCHEMA_HEADER_LEN_def Let_def split: if_splits)
  have "drop 4 bs = [bs ! 4, bs ! 5, bs ! 6, bs ! 7]"
    using len by (auto intro!: nth_equalityI simp: less_Suc_eq numeral_eq_Suc)
  then have "bs = SCHEMA_MAGIC @ [bs ! 4, bs ! 5] @ [bs ! 6, bs ! 7]"
    using magic by (metis append_Cons append_Nil append_take_drop_id)
  then show "bs = header_encode h \<and> header_table h = table"
    by (simp add: header_encode_def h t u16_from_to_be_bytes)
qed (simp add: header_decode_encode)

lemma validate_header_iff:
  "validate_header table bs = Inr () \<longleftrightarrow> bs = header_encode (header_current table)"
proof
  assume "validate_header table bs = Inr ()"
  then obtain h where h: "header_decode table bs = Inr h" "header_version h = current_version table"
    by (auto simp: validate_header_def res_bind_Inr_iff Let_def split: if_splits)
  then have "h = header_current table" by (cases h) (simp add: header_decode_Inr header_current_def)
  with h show "bs = header_encode (header_current table)" by (simp add: header_decode_Inr)
qed (simp add: validate_header_def header_decode_encode header_current_def)

lemma validate_header_cases:
  "validate_header table bs = (if bs = header_encode (header_current table) then Inr ()
     else Inl (projl (validate_header table bs)))"
  using validate_header_iff [of table bs] by (cases "validate_header table bs") auto

text \<open>What a successful pass over the tables says of the contents.\<close>

definition table_ready :: "contents \<Rightarrow> store_table \<Rightarrow> bool" where
  "table_ready m table = (om_get m (schema_key table) = Some (header_encode (header_current table)))"

definition table_fresh :: "contents \<Rightarrow> store_table \<Rightarrow> bool" where
  "table_fresh m table = (om_get m (schema_key table) = None
     \<and> entries_with_prefix (as_bytes (data_prefix table)) m = [])"

lemma check_table_Inr:
  assumes "sled_ok (store_sled st) \<alpha>" "check_table st table missing = Inr missing'"
  shows "table_ready (\<alpha> (store_db st)) table \<and> missing' = missing
    \<or> table_fresh (\<alpha> (store_db st)) table \<and> missing' = missing @ [table]"
proof -
  obtain found where g: "store_get st (schema_key table) = Inr found"
    and rest: "(case found of Some bs \<Rightarrow> res_bind (validate_header table bs) (\<lambda>_. Inr missing)
       | None \<Rightarrow> res_bind (map_err SchemaStore (store_prefix_exists st (as_bytes (data_prefix table))))
          (\<lambda>b. if b then Inl (LegacyTable table) else Inr (missing @ [table]))) = Inr missing'"
    using assms(2) by (auto simp: check_table_def res_bind_Inr_iff)
  have found: "found = om_get (\<alpha> (store_db st)) (schema_key table)"
    using kv.get_view [OF assms(1) g] .
  show ?thesis
  proof (cases found)
    case None
    with rest obtain b where "store_prefix_exists st (as_bytes (data_prefix table)) = Inr b" "\<not> b"
      "missing' = missing @ [table]" by (auto simp: res_bind_Inr_iff split: if_splits)
    with kv.prefix_exists_view [OF assms(1)] None found show ?thesis by (auto simp: table_fresh_def)
  next
    case (Some bs)
    with rest have "validate_header table bs = Inr ()" "missing' = missing"
      by (auto simp: res_bind_Inr_iff)
    with Some found show ?thesis by (simp add: table_ready_def validate_header_iff)
  qed
qed

lemma check_tables_Inr:
  assumes ok: "sled_ok (store_sled st) \<alpha>"
  shows "fold_res (check_table st) tables missing = Inr missing' \<Longrightarrow>
    (\<forall>t \<in> set tables. table_ready (\<alpha> (store_db st)) t \<or> table_fresh (\<alpha> (store_db st)) t)
    \<and> missing' = missing @ filter (table_fresh (\<alpha> (store_db st))) tables"
proof (induction tables arbitrary: missing)
  case (Cons t tables)
  then obtain mid where mid: "check_table st t missing = Inr mid" "fold_res (check_table st) tables mid = Inr missing'"
    by (auto split: sum.splits)
  have "\<not> (table_ready (\<alpha> (store_db st)) t \<and> table_fresh (\<alpha> (store_db st)) t)"
    by (auto simp: table_ready_def table_fresh_def)
  with check_table_Inr [OF ok mid(1)] Cons.IH [OF mid(2)] show ?case by auto
qed simp

lemma check_tables_ready:
  assumes ok: "sled_ok (store_sled st) \<alpha>" and ready: "\<forall>t. table_ready (\<alpha> (store_db st)) t"
  shows "fold_res (check_table st) tables missing = Inr missing
    \<or> (\<exists>e. fold_res (check_table st) tables missing = Inl (SchemaStore e))"
proof (induction tables)
  case (Cons t tables)
  show ?case
  proof (cases "store_get st (schema_key t)")
    case (Inr v)
    with kv.get_view [OF ok Inr] ready have "check_table st t missing = Inr missing"
      by (simp add: check_table_def table_ready_def validate_header_iff [THEN iffD2])
    with Cons show ?thesis by simp
  qed (simp add: check_table_def)
qed simp

lemma map_of_rev_zip:
  "inj f \<Longrightarrow> map_of (rev (zip (map f xs) (map g xs))) (f x) = (if x \<in> set xs then Some (g x) else None)"
  "k \<notin> f ` set xs \<Longrightarrow> map_of (rev (zip (map f xs) (map g xs))) k = None"
  by (induction xs) (auto simp: map_add_def inj_eq)

lemma ensure_schema_ok:
  assumes ok: "sled_ok (store_sled st) \<alpha>" and run: "ensure_sync_schema st = (st', Inr ())"
  shows "(\<forall>t. table_ready (\<alpha> (store_db st)) t \<or> table_fresh (\<alpha> (store_db st)) t)
    \<and> (\<forall>t. table_ready (\<alpha> (store_db st')) t)
    \<and> (\<forall>k. k \<notin> range schema_key \<longrightarrow> om_get (\<alpha> (store_db st')) k = om_get (\<alpha> (store_db st)) k)
    \<and> sled_ok (store_sled st') \<alpha>"
proof -
  let ?m = "\<alpha> (store_db st)"
  obtain missing where fold: "fold_res (check_table st) store_table_ALL [] = Inr missing"
    using run by (auto simp: ensure_sync_schema_def split: sum.splits)
  have tables: "\<forall>t. table_ready ?m t \<or> table_fresh ?m t"
    and missing: "missing = filter (table_fresh ?m) store_table_ALL"
    using check_tables_Inr [OF ok fold] by simp_all
  show ?thesis
  proof (cases "missing = []")
    case True
    then have "st' = st" using run fold by (simp add: ensure_sync_schema_def)
    moreover have "\<forall>t. table_ready ?m t"
      using tables True missing by (metis all_tables filter_empty_conv)
    ultimately show ?thesis using ok tables by simp
  next
    case False
    let ?sets = "zip (map schema_key missing) (map (\<lambda>t. header_encode (header_current t)) missing)"
    have batch: "store_apply_batch ?sets [] st = (st', Inr ())"
      using run fold False by (auto simp: ensure_sync_schema_def Let_def split: prod.splits)
    from kv.batch_all_or_nothing [OF ok this]
    have st': "sled_ok (store_sled st') \<alpha>" and m': "\<alpha> (store_db st') = batch_view ?sets [] ?m" by simp_all
    have "inj schema_key" by (simp add: inj_def)
    note sets = map_of_rev_zip(1) [OF this] map_of_rev_zip(2)
    have "table_ready (\<alpha> (store_db st')) t" for t
      using tables missing by (auto simp: table_ready_def m' om_get_batch_view sets)
    moreover have "om_get (\<alpha> (store_db st')) k = om_get ?m k" if "k \<notin> range schema_key" for k
      using that by (subst m', subst om_get_batch_view, subst sets(2)) auto
    ultimately show ?thesis using tables st' by blast
  qed
qed

lemma ensure_schema_err:
  assumes "sled_ok (store_sled st) \<alpha>" "ensure_sync_schema st = (st', Inl e)"
  shows "\<alpha> (store_db st') = \<alpha> (store_db st)"
proof (cases "fold_res (check_table st) store_table_ALL []")
  case (Inr missing)
  let ?sets = "zip (map schema_key missing) (map (\<lambda>t. header_encode (header_current t)) missing)"
  obtain r where "store_apply_batch ?sets [] st = (st', Inl r)"
    using assms(2) Inr
    by (auto simp: ensure_sync_schema_def Let_def map_err_def split: prod.splits sum.splits if_splits)
  from kv.batch_all_or_nothing [OF assms(1) this] show ?thesis by simp
qed (use assms in \<open>simp add: ensure_sync_schema_def\<close>)

lemma ensure_schema_ready:
  assumes "sled_ok (store_sled st) \<alpha>" "\<forall>t. table_ready (\<alpha> (store_db st)) t" "ensure_sync_schema st = (st', r)"
  shows "st' = st \<and> (r = Inr () \<or> (\<exists>e. r = Inl (SchemaStore e)))"
  using check_tables_ready [OF assms(1,2), of store_table_ALL "[]"] assms(3)
  by (auto simp: ensure_sync_schema_def)

section \<open>Properties of the schema\<close>

text \<open>
  The schema header is exact: decoding accepts precisely the encoding of a header of the
  expected table and returns that header, and validation accepts one byte string per table,
  the header of the current version; headers of older or newer versions, of another table,
  of another length or magic are all refused.
\<close>

theorem schema_header_exact:
  "(header_decode table bs = Inr h \<longleftrightarrow> bs = header_encode h \<and> header_table h = table)
   \<and> (validate_header table bs = Inr () \<longleftrightarrow> bs = header_encode (header_current table))
   \<and> validate_header table (header_encode \<lparr>header_version = v, header_table = table\<rparr>) =
       (if v < INITIAL_SCHEMA_VERSION then Inl (OlderVersion table v INITIAL_SCHEMA_VERSION)
        else if v > INITIAL_SCHEMA_VERSION then Inl (FutureVersion table v INITIAL_SCHEMA_VERSION)
        else Inr ())"
proof (intro conjI)
  show "validate_header table (header_encode \<lparr>header_version = v, header_table = table\<rparr>) =
       (if v < INITIAL_SCHEMA_VERSION then Inl (OlderVersion table v INITIAL_SCHEMA_VERSION)
        else if v > INITIAL_SCHEMA_VERSION then Inl (FutureVersion table v INITIAL_SCHEMA_VERSION)
        else Inr ())"
    by (simp add: validate_header_def header_decode_encode current_version_def Let_def)
qed (simp_all add: header_decode_Inr validate_header_iff)

text \<open>
  Opening a store for synchronisation: when \<open>ensure_sync_schema\<close> succeeds every table
  carries a current header, nothing but missing headers was written, and no table held data
  without a header before (legacy data is never adopted silently); running it again writes
  nothing and can fail only on a read error. When it fails the contents are unchanged.
\<close>

theorem ensure_schema_outcome:
  assumes "sled_ok (store_sled st) \<alpha>" and "ensure_sync_schema st = (st', r)"
  shows "case r of
      Inl _ \<Rightarrow> \<alpha> (store_db st') = \<alpha> (store_db st)
    | Inr _ \<Rightarrow>
        (\<forall>t. table_ready (\<alpha> (store_db st)) t \<or> table_fresh (\<alpha> (store_db st)) t)
        \<and> (\<forall>t. table_ready (\<alpha> (store_db st')) t)
        \<and> (\<forall>k. k \<notin> range schema_key \<longrightarrow> om_get (\<alpha> (store_db st')) k = om_get (\<alpha> (store_db st)) k)
        \<and> (\<forall>st'' r'. ensure_sync_schema st' = (st'', r') \<longrightarrow>
             st'' = st' \<and> (r' = Inr () \<or> (\<exists>e. r' = Inl (SchemaStore e))))"
proof (cases r)
  case (Inl e)
  with assms show ?thesis by (auto dest: ensure_schema_err)
next
  case (Inr u)
  with assms(2) have "ensure_sync_schema st = (st', Inr ())" by simp
  note run = ensure_schema_ok [OF assms(1) this]
  with ensure_schema_ready [of st' \<alpha>] have "\<forall>st'' r'. ensure_sync_schema st' = (st'', r') \<longrightarrow>
      st'' = st' \<and> (r' = Inr () \<or> (\<exists>e. r' = Inl (SchemaStore e)))" by blast
  with run show ?thesis unfolding Inr by auto
qed

theorem ensure_schema_outcome_witness:
  "snd (ensure_sync_schema (mem_store om_empty)) = Inr ()
   \<and> table_ready (store_db (fst (ensure_sync_schema (mem_store om_empty)))) OpLog"
proof -
  have r: "snd (ensure_sync_schema (mem_store om_empty)) = Inr ()"
    by (simp add: ensure_sync_schema_def store_table_ALL_def check_table_def store_get_def
        store_prefix_exists_def mem_sled_def entries_with_prefix_def store_apply_batch_cases
        mem_store_def finish_write_def Let_def)
  let ?st = "fst (ensure_sync_schema (mem_store om_empty))"
  have "sled_ok (store_sled (mem_store om_empty)) id" by (simp add: mem_sled_ok)
  moreover have "ensure_sync_schema (mem_store om_empty) = (?st, Inr ())" using r by (metis prod.collapse)
  ultimately have "\<forall>t. table_ready (store_db ?st) t"
    using ensure_schema_outcome [of "mem_store om_empty" id ?st "Inr ()"] by simp
  with r show ?thesis by blast
qed

end
