(* ===== verification/Sync_Manager.thy ===== *)
theory Sync_Manager
  imports Sample_Replica Sync_Config Store_Schema
begin

text \<open>
  \<open>sync_manager/manager.rs\<close>: the construction of a manager from a store, its start, and what
  it answers. Construction validates the settings, checks the schema and recovers the log, the
  seen window and the registries from the store. The store is shared, so what construction did
  to it is visible when it fails. The discovery providers, the listener and the node are the
  answers of a \<open>start_env\<close>; the calls made to them are recorded in order.
\<close>

section \<open>The manager\<close>

datatype manager_error =
    ConfigInvalid sync_config_error
  | SchemaInvalid schema_error
  | StorageFailed storage_error
  | AlreadyStarted
  | NotStarted
  | EventReceiverUnavailable
  | External string
  | NetworkFailed net_error

text \<open>
  \<open>manager_candidates\<close> is the snapshot of the discovery coordinator, if there is one;
  \<open>manager_node\<close> and \<open>manager_op_rx\<close> say whether the node and the receiver are present.
\<close>

record 'db sync_manager =
  manager_node_id :: node_id
  manager_config :: sync_config
  manager_candidates :: "string list option"
  manager_node :: bool
  manager_sync :: "'db sync_state"
  manager_peer_health :: health_table
  manager_active_connections :: "(string, peer_connection_info) omap"
  manager_watermarks :: "(node_id, string) omap"
  manager_op_capacity :: nat
  manager_op_rx :: bool
  manager_tasks :: bool

definition initial_health :: "string list \<Rightarrow> health_table" where
  "initial_health peers = fold (\<lambda>peer. om_insert peer peer_health_default) peers om_empty"

definition try_new_with_discovery ::
    "serde \<Rightarrow> nat \<Rightarrow> instant \<Rightarrow> node_id \<Rightarrow> sync_config \<Rightarrow> runtime_metrics \<Rightarrow>
     ('db store, manager_error, 'db sync_manager) stm" where
  "try_new_with_discovery J max_permits now node config metrics =
     st_bind (st_lift (map_err ConfigInvalid (sync_config_validate max_permits now config))) (\<lambda>_.
     st_bind (st_map_err SchemaInvalid ensure_sync_schema) (\<lambda>_.
     let log_limit = normalize_op_log_limit (cfg_op_log_limit config);
         seen_max = normalize_seen_ops_limit (cfg_seen_ops_limit config) in
     st_bind (st_map_err StorageFailed (hydrate_op_log J log_limit)) (\<lambda>(log, next_log).
     st_bind (st_map_err StorageFailed (hydrate_seen_ops seen_max)) (\<lambda>(seen, next_seen).
     st_bind (st_map_err StorageFailed (hydrate_registries J node)) (\<lambda>R.
     (\<lambda>st. (st, Inr \<lparr>manager_node_id = node, manager_config = config, manager_candidates = None,
        manager_node = False,
        manager_sync = \<lparr>sync_registries = R, seen_ops_window = seen, op_log = log,
          seen_ops_next_sequence = next_seen, op_log_next_sequence = next_log,
          op_log_limit = log_limit, sync_store = st, sync_metrics = metrics\<rparr>,
        manager_peer_health = initial_health (cfg_peers config),
        manager_active_connections = om_empty, manager_watermarks = om_empty,
        manager_op_capacity = max (cfg_queued_ops_limit config) 1, manager_op_rx = True,
        manager_tasks = False\<rparr>)))))))"

section \<open>Starting\<close>

record node_config =
  node_cfg_id :: node_id
  node_listen_addr :: string
  node_initial_peers :: "string list"
  node_tls :: "tls_config option"
  node_max_peers :: nat
  node_max_message_size :: nat
  node_socket_timeout :: duration
  node_serialization_format :: serialization_format
  node_event_channel_capacity :: nat

definition DEFAULT_EVENT_CHANNEL_CAPACITY :: nat where
  "DEFAULT_EVENT_CHANNEL_CAPACITY = 1024"

definition node_config_new :: "node_id \<Rightarrow> string \<Rightarrow> node_config" where
  "node_config_new node addr =
     \<lparr>node_cfg_id = node, node_listen_addr = addr, node_initial_peers = [], node_tls = None,
      node_max_peers = DEFAULT_MAX_PEERS, node_max_message_size = DEFAULT_MAX_MESSAGE_SIZE,
      node_socket_timeout = DEFAULT_SOCKET_TIMEOUT, node_serialization_format = Bincode_Format,
      node_event_channel_capacity = DEFAULT_EVENT_CHANNEL_CAPACITY\<rparr>"

definition start_node_config :: "node_id \<Rightarrow> sync_config \<Rightarrow> string \<Rightarrow> node_config" where
  "start_node_config node c addr =
     (let n = (node_config_new node addr)
            \<lparr>node_max_peers := cfg_max_peers c, node_max_message_size := cfg_max_message_size c,
             node_socket_timeout := cfg_socket_timeout c,
             node_serialization_format := cfg_serialization_format c,
             node_event_channel_capacity := max (cfg_queued_ops_limit c) 1\<rparr>
      in case cfg_tls c of None \<Rightarrow> n | Some tls \<Rightarrow> n\<lparr>node_tls := Some tls\<rparr>)"

text \<open>What the discovery providers, the bootstrap settings and the network node answer.\<close>

record start_env =
  env_bootstrap_server :: "string + unit"
  env_node_new :: "node_config \<Rightarrow> string + unit"
  env_event_receiver :: bool
  env_discovery_start :: "string + string list"
  env_start_listener :: "string + string"
  env_local_endpoint :: "string \<Rightarrow> string + string option"
  env_announce_bootstrap :: "string \<Rightarrow> string + unit"
  env_announce :: "string option \<Rightarrow> string + unit"

datatype start_call =
    DiscoveryStarted
  | ListenerBound
  | BootstrapAnnounced string
  | EndpointAnnounced "string option"
  | NodeShutdown
  | DiscoveryShutdown
  | TasksSpawned

text \<open>
  \<open>start\<close> acquires discovery, then the listener, then announces; a failure after an acquisition
  rolls back what was acquired before it. Only the last step changes the manager.
\<close>

definition rolled_back :: "start_call list \<Rightarrow> bool \<Rightarrow> string \<Rightarrow> start_call list \<times> (manager_error + 'a)" where
  "rolled_back calls node e =
     (calls @ (if node then [NodeShutdown] else []) @ [DiscoveryShutdown], Inl (External e))"

definition start_services ::
    "start_env \<Rightarrow> node_config \<Rightarrow> start_call list \<times> (manager_error + string list)" where
  "start_services E nc =
     (case env_bootstrap_server E of Inl e \<Rightarrow> ([], Inl (External e)) | Inr _ \<Rightarrow>
      case env_node_new E nc of Inl e \<Rightarrow> ([], Inl (External e)) | Inr _ \<Rightarrow>
      if \<not> env_event_receiver E then ([], Inl EventReceiverUnavailable) else
      case env_discovery_start E of Inl e \<Rightarrow> ([], Inl (External e)) | Inr candidates \<Rightarrow>
      case env_start_listener E of Inl e \<Rightarrow> rolled_back [DiscoveryStarted] False e | Inr bound_addr \<Rightarrow>
      case env_local_endpoint E bound_addr of
        Inl e \<Rightarrow> rolled_back [DiscoveryStarted, ListenerBound] True e
      | Inr advertised_endpoint \<Rightarrow>
      let r = (case advertised_endpoint of None \<Rightarrow> Inr () | Some a \<Rightarrow> env_announce_bootstrap E a);
          calls = [DiscoveryStarted, ListenerBound]
                  @ (case advertised_endpoint of None \<Rightarrow> [] | Some a \<Rightarrow> [BootstrapAnnounced a])
      in case r of Inl e \<Rightarrow> rolled_back calls True e | Inr _ \<Rightarrow>
      let calls = calls @ [EndpointAnnounced advertised_endpoint]
      in case env_announce E advertised_endpoint of
           Inl e \<Rightarrow> rolled_back calls True e
         | Inr _ \<Rightarrow> (calls, Inr candidates))"

definition manager_start ::
    "nat \<Rightarrow> instant \<Rightarrow> start_env \<Rightarrow> 'db sync_manager \<Rightarrow>
     'db sync_manager \<times> start_call list \<times> (manager_error + unit)" where
  "manager_start max_permits now E mgr =
     (case sync_config_validate max_permits now (manager_config mgr) of
        Inl e \<Rightarrow> (mgr, [], Inl (ConfigInvalid e))
      | Inr _ \<Rightarrow>
      case cfg_listen_addr (manager_config mgr) of
        None \<Rightarrow> (mgr, [], Inr ())
      | Some listen_addr \<Rightarrow>
      if manager_node mgr \<or> \<not> manager_op_rx mgr then (mgr, [], Inl AlreadyStarted) else
      case start_services E (start_node_config (manager_node_id mgr) (manager_config mgr) listen_addr) of
        (calls, Inl e) \<Rightarrow> (mgr, calls, Inl e)
      | (calls, Inr candidates) \<Rightarrow>
          (mgr\<lparr>manager_peer_health := initial_health candidates, manager_op_rx := False,
             manager_node := True, manager_tasks := True, manager_candidates := Some candidates\<rparr>,
           calls @ [TasksSpawned], Inr ()))"

definition take_op_receiver :: "'db sync_manager \<Rightarrow> 'db sync_manager \<times> bool" where
  "take_op_receiver mgr = (mgr\<lparr>manager_op_rx := False\<rparr>, manager_op_rx mgr)"

definition manager_connect_to_peer ::
    "'w node_api \<Rightarrow> string \<Rightarrow> 'db sync_manager \<Rightarrow> 'w \<Rightarrow> 'w \<times> (manager_error + unit)" where
  "manager_connect_to_peer N addr mgr w =
     (if manager_node mgr then map_prod id (map_err NetworkFailed) (node_connect_to_peer N addr w)
      else (w, Inl NotStarted))"

section \<open>What a manager answers\<close>

definition peer_health_state_of :: "'db sync_manager \<Rightarrow> string \<Rightarrow> peer_health_state option" where
  "peer_health_state_of mgr addr = map_option health_state (om_get (manager_peer_health mgr) addr)"

definition peer_candidates :: "'db sync_manager \<Rightarrow> string list" where
  "peer_candidates mgr = (case manager_candidates mgr of None \<Rightarrow> [] | Some cs \<Rightarrow> cs)"

definition connected_peer_count :: "'w node_api \<Rightarrow> 'db sync_manager \<Rightarrow> 'w \<Rightarrow> nat" where
  "connected_peer_count N mgr w = (if manager_node mgr then node_connected_peer_count N w else 0)"

definition get_counter_value :: "registries \<Rightarrow> string \<Rightarrow> u64" where
  "get_counter_value R key = (case om_get (counters R) key of None \<Rightarrow> 0 | Some c \<Rightarrow> gcounter_value c)"

definition get_pncounter_value :: "registries \<Rightarrow> string \<Rightarrow> int" where
  "get_pncounter_value R key = (case om_get (pncounters R) key of None \<Rightarrow> 0 | Some c \<Rightarrow> pncounter_value c)"

definition get_lww_register_value :: "registries \<Rightarrow> string \<Rightarrow> bytes option" where
  "get_lww_register_value R key = map_option reg_value (om_get (lww_registers R) key)"

definition get_lww_map_entries :: "registries \<Rightarrow> string \<Rightarrow> (string \<times> bytes) list" where
  "get_lww_map_entries R key = (case om_get (lww_maps R) key of None \<Rightarrow> [] | Some m \<Rightarrow> lww_map_entries m)"

definition get_orset_elements :: "registries \<Rightarrow> string \<Rightarrow> string list" where
  "get_orset_elements R key = (case om_get (orsets R) key of None \<Rightarrow> [] | Some s \<Rightarrow> orset_elements s)"

text \<open>\<open>None\<close> is the stack overflow of the recursive traversal.\<close>

definition get_rga_values :: "registries \<Rightarrow> string \<Rightarrow> bytes list option" where
  "get_rga_values R key = (case om_get (rgas R) key of None \<Rightarrow> Some [] | Some r \<Rightarrow> rga_values r)"

text \<open>The two lists of \<open>SyncHandle\<close>, sorted as the code sorts them; both sorts are stable.\<close>

definition connected_peers :: "(string, peer_connection_info) omap \<Rightarrow> (string \<times> node_id) list" where
  "connected_peers conns =
     sort_key fst (map (\<lambda>(addr, connection). (addr, identity_node_id (identity connection))) (om_entries conns))"

section \<open>Recovery\<close>

text \<open>What the store holds of a state is not affected by its schema headers.\<close>

lemma schema_key_outside:
  assumes "p \<in> set table_prefixes"
  shows "\<not> starts_with (schema_key t) (as_bytes p)"
proof
  assume "starts_with (schema_key t) (as_bytes p)"
  then obtain r where r: "schema_key t = as_bytes p @ r" by (auto simp: starts_with_iff)
  have p: "5 < length p \<and> p ! 5 = CHR ''c''"
    using assms by (auto simp: table_prefixes_def store_prefix_defs)
  then have "schema_key t ! 5 = as_bytes p ! 5" by (simp add: r nth_append)
  also have "\<dots> = of_nat (of_char CHR ''c'')" using p by (simp add: as_bytes_def)
  finally show False by (simp add: schema_key_def SCHEMA_KEY_PREFIX_def as_bytes_def)
qed

definition same_tables :: "contents \<Rightarrow> contents \<Rightarrow> bool" where
  "same_tables m m' =
     (\<forall>p \<in> set table_prefixes. \<forall>k. starts_with k (as_bytes p) \<longrightarrow> om_get m' k = om_get m k)"

lemma same_tablesD: "same_tables m m' \<Longrightarrow> p \<in> set table_prefixes \<Longrightarrow> starts_with k (as_bytes p) \<Longrightarrow> om_get m' k = om_get m k"
  by (simp add: same_tables_def)

lemma table_holds_same: "same_tables m m' \<Longrightarrow> table_holds kind c mat m reg \<Longrightarrow> table_holds kind c mat m' reg"
  by (simp add: table_holds_def same_tablesD [OF _ crdt_kind_prefix_table])

lemma registries_hold_same: "same_tables m m' \<Longrightarrow> registries_hold J m R \<Longrightarrow> registries_hold J m' R"
  by (simp add: registries_hold_def table_holds_same)

lemma numbered_holds_same:
  "same_tables m m' \<Longrightarrow> p \<in> set table_prefixes \<Longrightarrow> numbered_holds p key enc m es \<Longrightarrow> numbered_holds p key enc m' es"
  by (simp add: numbered_holds_def same_tablesD)

lemma ensure_schema_same_tables:
  assumes "sled_ok (store_sled st) \<alpha>" "ensure_sync_schema st = (st', Inr ())"
  shows "same_tables (\<alpha> (store_db st)) (\<alpha> (store_db st'))"
proof -
  have out: "k \<notin> range schema_key" if "p \<in> set table_prefixes" "starts_with k (as_bytes p)" for p k
    using that schema_key_outside by auto
  show ?thesis unfolding same_tables_def using ensure_schema_ok [OF assms] out by simp
qed

lemma next_sequence_above:
  assumes "saturating_add a 1 \<le> n" "a < (b :: u64)"
  shows "a < n"
proof -
  have "unat a < u64_max" using assms(2) less_le_trans [OF _ unat_le_u64_max [of b]] by (simp add: word_less_nat_alt)
  then have "unat (saturating_add a 1) = Suc (unat a)" by (simp add: unat_saturating_add)
  with assms(1) show ?thesis by (simp add: word_less_nat_alt word_le_nat_alt)
qed

lemma set_last_n: "set (last_n n xs) \<subseteq> set xs"
  by (simp add: last_n_def set_drop_subset)

text \<open>The recovery itself, from any contents that hold a state, on any limits.\<close>

lemma hydrate_all:
  assumes ok: "sled_ok (store_sled st) \<alpha>" and serde: "serde_ok J"
    and R: "registries_hold J (\<alpha> (store_db st)) R"
    and es: "seen_holds (\<alpha> (store_db st)) es" and fs: "op_log_holds J (\<alpha> (store_db st)) fs"
    and run: "hydrate_op_log J log_limit st = (st1, Inr (log, next_log))"
      "hydrate_seen_ops seen_max st1 = (st2, Inr (seen, next_seen))"
      "hydrate_registries J node st2 = (st3, Inr R')"
  shows "R' = R" "sled_ok (store_sled st3) \<alpha>" "registries_hold J (\<alpha> (store_db st3)) R"
    "seen_wf seen" "seen_order seen = last_n (normalize_seen_ops_limit seen_max) (map snd es)"
    "log = last_n (normalize_op_log_limit log_limit) (map snd fs)"
    "seen_holds (\<alpha> (store_db st3)) (last_n (normalize_seen_ops_limit seen_max) es)"
    "op_log_holds J (\<alpha> (store_db st3)) (last_n (normalize_op_log_limit log_limit) fs)"
    "\<forall>e \<in> set es. saturating_add (fst e) 1 \<le> next_seen" "\<forall>e \<in> set fs. saturating_add (fst e) 1 \<le> next_log"
proof -
  note l = hydrate_op_log_holds [OF ok fs serde run(1)]
  let ?ld = "map (\<lambda>x. op_log_store_key (op_key x)) (take (length fs - normalize_op_log_limit log_limit) (map snd fs))"
  have m1: "\<alpha> (store_db st1) = batch_view [] ?ld (\<alpha> (store_db st))" and ok1: "sled_ok (store_sled st1) \<alpha>"
    using l by simp_all
  have R1: "registries_hold J (\<alpha> (store_db st1)) R"
    unfolding m1 by (rule registries_other_deletes [OF R]) (auto simp: op_key_prefix)
  have es1: "seen_holds (\<alpha> (store_db st1)) es"
    unfolding m1 by (rule numbered_other_deletes [OF es]) (auto simp: op_log_store_key_def prefixed_key_eq_iff)
  note w = hydrate_seen_holds [OF ok1 es1 run(2)]
  let ?sd = "map seen_op_store_key (take (length es - normalize_seen_ops_limit seen_max) (map snd es))"
  have m2: "\<alpha> (store_db st2) = batch_view [] ?sd (\<alpha> (store_db st1))" and ok2: "sled_ok (store_sled st2) \<alpha>"
    using w by simp_all
  have R2: "registries_hold J (\<alpha> (store_db st2)) R"
    unfolding m2 by (rule registries_other_deletes [OF R1]) (auto simp: op_key_prefix)
  have fs2: "op_log_holds J (\<alpha> (store_db st2)) (last_n (normalize_op_log_limit log_limit) fs)"
    unfolding m2 using l by (intro numbered_other_deletes) (auto simp: seen_op_store_key_def prefixed_key_eq_iff)
  note r = hydrate_registries_hold [OF R2 serde ok2 run(3)]
  have m3: "\<alpha> (store_db st3) = \<alpha> (store_db st2)" using r by blast
  show "R' = R" "sled_ok (store_sled st3) \<alpha>" "registries_hold J (\<alpha> (store_db st3)) R"
    using r R2 unfolding m3 by blast+
  show "seen_wf seen" "seen_order seen = last_n (normalize_seen_ops_limit seen_max) (map snd es)"
    "\<forall>e \<in> set es. saturating_add (fst e) 1 \<le> next_seen"
    "seen_holds (\<alpha> (store_db st3)) (last_n (normalize_seen_ops_limit seen_max) es)" using w unfolding m3 by blast+
  show "log = last_n (normalize_op_log_limit log_limit) (map snd fs)"
    "\<forall>e \<in> set fs. saturating_add (fst e) 1 \<le> next_log"
    "op_log_holds J (\<alpha> (store_db st3)) (last_n (normalize_op_log_limit log_limit) fs)" using l fs2 unfolding m3 by blast+
qed

lemma try_new_Inr:
  assumes "try_new_with_discovery J max_permits now node config metrics st = (st', Inr mgr)"
  obtains st0 st1 st2 log next_log seen next_seen R where
    "sync_config_validate max_permits now config = Inr ()"
    "ensure_sync_schema st = (st0, Inr ())"
    "hydrate_op_log J (normalize_op_log_limit (cfg_op_log_limit config)) st0 = (st1, Inr (log, next_log))"
    "hydrate_seen_ops (normalize_seen_ops_limit (cfg_seen_ops_limit config)) st1 = (st2, Inr (seen, next_seen))"
    "hydrate_registries J node st2 = (st', Inr R)"
    "manager_sync mgr = \<lparr>sync_registries = R, seen_ops_window = seen, op_log = log,
       seen_ops_next_sequence = next_seen, op_log_next_sequence = next_log,
       op_log_limit = normalize_op_log_limit (cfg_op_log_limit config), sync_store = st', sync_metrics = metrics\<rparr>"
  using assms
  by (auto simp: try_new_with_discovery_def Let_def st_bind_Inr st_lift_def split: prod.splits)

lemma recovered_log_in_window:
  assumes "map op_key (op_log s) = last_n (length (op_log s)) order" "L \<le> L'"
  shows "map op_key (last_n L (op_log s)) = last_n (length (last_n L (op_log s))) (last_n L' order)"
proof -
  have k: "length (op_log s) \<le> length order" using arg_cong [OF assms(1), of length] by simp
  have "map op_key (last_n L (op_log s)) = last_n L (last_n (length (op_log s)) order)"
    by (simp only: map_last_n assms(1))
  also have "\<dots> = last_n (min L (length (op_log s))) order" using k by (simp add: last_n_def min_def)
  also have "\<dots> = last_n (min L (length (op_log s))) (last_n L' order)" using assms(2) by (simp add: last_n_last_n)
  finally show ?thesis by simp
qed

lemma restart_durable:
  assumes dur: "durable J \<alpha> s" and serde: "serde_ok J"
    and run: "try_new_with_discovery J max_permits now node config metrics (sync_store s) = (st', Inr mgr)"
    and limits: "normalize_op_log_limit (cfg_op_log_limit config) \<le> normalize_seen_ops_limit (cfg_seen_ops_limit config)"
  defines "s' \<equiv> manager_sync mgr"
  shows "sync_registries s' = sync_registries s"
    and "seen_order (seen_ops_window s') = last_n (normalize_seen_ops_limit (cfg_seen_ops_limit config)) (seen_order (seen_ops_window s))"
    and "op_log s' = last_n (normalize_op_log_limit (cfg_op_log_limit config)) (op_log s)"
    and "durable J \<alpha> s'"
proof -
  let ?m = "sync_view \<alpha> s" and ?L = "normalize_op_log_limit (cfg_op_log_limit config)"
    and ?W = "normalize_seen_ops_limit (cfg_seen_ops_limit config)"
  from try_new_Inr [OF run] obtain st0 st1 st2 log next_log seen next_seen R where
    schema: "ensure_sync_schema (sync_store s) = (st0, Inr ())"
    and run': "hydrate_op_log J ?L st0 = (st1, Inr (log, next_log))"
      "hydrate_seen_ops ?W st1 = (st2, Inr (seen, next_seen))" "hydrate_registries J node st2 = (st', Inr R)"
    and s': "s' = \<lparr>sync_registries = R, seen_ops_window = seen, op_log = log, seen_ops_next_sequence = next_seen,
      op_log_next_sequence = next_log, op_log_limit = ?L, sync_store = st', sync_metrics = metrics\<rparr>"
    unfolding s'_def by metis
  have ok: "sled_ok (store_sled (sync_store s)) \<alpha>" "registries_hold J ?m (sync_registries s)" "log_in_window s"
    using dur by (simp_all add: durable_def)
  obtain es where es: "seen_holds ?m es" "map snd es = seen_order (seen_ops_window s)"
    "\<forall>e \<in> set es. fst e < seen_ops_next_sequence s" using dur by (auto simp: durable_def window_durable_def)
  obtain fs where fs: "op_log_holds J ?m fs" "map snd fs = op_log s" "\<forall>e \<in> set fs. fst e < op_log_next_sequence s"
    using dur by (auto simp: durable_def log_durable_def)
  note same = ensure_schema_same_tables [OF ok(1) schema]
  have "sled_ok (store_sled st0) \<alpha>" using ensure_schema_ok [OF ok(1) schema] by simp
  note H = hydrate_all [OF this serde registries_hold_same [OF same ok(2)] numbered_holds_same [OF same op_prefix_table(1) es(1)]
      numbered_holds_same [OF same op_prefix_table(2) fs(1)] run']
  have N: "normalize_op_log_limit ?L = ?L" "normalize_seen_ops_limit ?W = ?W"
    by (simp_all add: normalize_op_log_limit_def normalize_seen_ops_limit_def)
  note H = H [unfolded N es(2) fs(2)]
  show "sync_registries s' = sync_registries s" "seen_order (seen_ops_window s') = last_n ?W (seen_order (seen_ops_window s))"
    "op_log s' = last_n ?L (op_log s)" by (simp_all add: s' H)
  have "\<forall>e \<in> set (last_n ?W es). fst e < next_seen"
    using H(9) es(3) set_last_n [of ?W es] next_sequence_above by blast
  then have "window_durable (\<alpha> (store_db st')) s'"
    using H(7) unfolding window_durable_def by (intro exI [of _ "last_n ?W es"]) (simp add: s' H(5) map_last_n es(2))
  moreover have "\<forall>e \<in> set (last_n ?L fs). fst e < next_log"
    using H(10) fs(3) set_last_n [of ?L fs] next_sequence_above by blast
  then have "log_durable J (\<alpha> (store_db st')) s'"
    using H(8) unfolding log_durable_def by (intro exI [of _ "last_n ?L fs"]) (simp add: s' H(6) map_last_n fs(2))
  moreover have "log_in_window s'"
    using recovered_log_in_window [OF ok(3) [unfolded log_in_window_def] limits]
    by (simp add: log_in_window_def s' H(5,6))
  ultimately show "durable J \<alpha> s'" using H(1-4,6) by (simp add: durable_def sync_wf_def s' N)
qed

section \<open>Properties of starting\<close>

lemma start_services_rolls_back:
  "start_services E nc = (calls, Inl e) \<Longrightarrow>
   TasksSpawned \<notin> set calls \<and> (DiscoveryStarted \<in> set calls \<longrightarrow> last calls = DiscoveryShutdown)
   \<and> (ListenerBound \<in> set calls \<longrightarrow> NodeShutdown \<in> set calls)"
  by (auto simp: start_services_def rolled_back_def Let_def split: sum.splits option.splits if_splits)

lemma start_services_keeps:
  "start_services E nc = (calls, Inr candidates) \<Longrightarrow>
   env_discovery_start E = Inr candidates \<and> {DiscoveryStarted, ListenerBound} \<subseteq> set calls
   \<and> NodeShutdown \<notin> set calls \<and> DiscoveryShutdown \<notin> set calls"
  by (auto simp: start_services_def rolled_back_def Let_def split: sum.splits option.splits if_splits)


definition sample_manager :: "sync_config \<Rightarrow> contents sync_manager" where
  "sample_manager config =
     \<lparr>manager_node_id = NodeId ''n1'', manager_config = config, manager_candidates = None, manager_node = False,
      manager_sync = empty_replica 4 8, manager_peer_health = initial_health [], manager_active_connections = om_empty,
      manager_watermarks = om_empty, manager_op_capacity = 4, manager_op_rx = True, manager_tasks = False\<rparr>"

definition refusing_env :: start_env where
  "refusing_env =
     \<lparr>env_bootstrap_server = Inr (), env_node_new = (\<lambda>_. Inr ()), env_event_receiver = True,
      env_discovery_start = Inr [''peer:1''], env_start_listener = Inr ''addr:1'', env_local_endpoint = (\<lambda>a. Inr (Some a)),
      env_announce_bootstrap = (\<lambda>_. Inr ()), env_announce = (\<lambda>_. Inl ''refused'')\<rparr>"


section \<open>A fresh store\<close>

text \<open>On an empty store in memory construction succeeds and the replica is empty.\<close>

lemma entries_none:
  assumes "\<And>k. starts_with k p \<Longrightarrow> om_get m k = None"
  shows "entries_with_prefix p m = []"
proof -
  have False if "(k, v) \<in> set (om_entries m)" "starts_with k p" for k v
    using that assms [of k] weak_map_of_SomeI [of k v "om_entries m"] by (simp add: om_get_map_of)
  then show ?thesis by (auto simp: entries_with_prefix_def filter_empty_conv)
qed

lemma try_new_without_tables:
  assumes "sync_config_validate max_permits now config = Inr ()"
    and "\<And>t. om_get m0 (schema_key t) = None" "\<And>p. p \<in> set table_prefixes \<Longrightarrow> entries_with_prefix (as_bytes p) m0 = []"
  obtains st mgr where "try_new_with_discovery J max_permits now node config metrics (mem_store m0) = (st, Inr mgr)"
    "sync_registries (manager_sync mgr) = no_updates" "op_log (manager_sync mgr) = []"
proof -
  have "fold_res (check_table (mem_store m0)) store_table_ALL [] = Inr store_table_ALL"
    by (simp add: store_table_ALL_def check_table_def store_get_def store_prefix_exists_def mem_store_def mem_sled_def assms(2)
        assms(3) [unfolded table_prefixes_def])
  then obtain m where run: "ensure_sync_schema (mem_store m0) = (mem_store m, Inr ())"
    by (auto simp: ensure_sync_schema_def mem_store_batch Let_def store_table_ALL_def)
  have same: "same_tables m0 m" using ensure_schema_same_tables [OF _ run, of id] mem_sled_ok by simp
  have "entries_with_prefix (as_bytes p) m = []" if "p \<in> set table_prefixes" for p
  proof (rule entries_none)
    fix k
    assume k: "starts_with k (as_bytes p)"
    then have "om_get m0 k = None"
      using assms(3) [OF that] om_in_entries [of k _ m0]
      by (cases "om_get m0 k") (fastforce simp: entries_with_prefix_def filter_empty_conv)+
    with same that k show "om_get m k = None" by (simp add: same_tables_def)
  qed
  note H = hydrate_empty_tables [OF this]
  show ?thesis
    by (rule that) (auto simp: try_new_with_discovery_def assms(1) run H st_bind_def st_map_err_def Let_def st_lift_def)
qed

lemma try_new_fresh:
  assumes "sync_config_validate max_permits now config = Inr ()"
  obtains st mgr where "try_new_with_discovery J max_permits now node config metrics (mem_store om_empty) = (st, Inr mgr)"
    "sync_registries (manager_sync mgr) = no_updates" "op_log (manager_sync mgr) = []"
proof -
  have none: "om_get om_empty (schema_key t) = None" "entries_with_prefix (as_bytes p) om_empty = []" for t p
    by (simp_all add: entries_with_prefix_def)
  show thesis by (rule try_new_without_tables [OF assms none]) (rule that)
qed

end
