(* ===== verification/Replica_Runs.thy ===== *)
theory Replica_Runs
  imports Sync_Manager
begin

text \<open>
  Histories of one replica. \<open>run_batches\<close> applies batches one after another, some of which may
  fail, and collects the operations of those that succeeded; \<open>reachable\<close> closes a state under
  remote batches, local batches and restarts. Both are the sequences of steps the event loop,
  the broadcast loop and a new process take, with the failures of the store left open.
\<close>

section \<open>Sequences of remote batches\<close>

fun run_batches ::
    "serde \<Rightarrow> (Op list \<times> duration) list \<Rightarrow> 'db sync_state \<Rightarrow> 'db sync_state \<times> Op list" where
  "run_batches J [] s = (s, [])"
| "run_batches J ((ops, elapsed) # batches) s =
     (case apply_remote_ops J elapsed ops s of
        (s', r) \<Rightarrow>
          (case run_batches J batches s' of
             (s'', accepted) \<Rightarrow> (s'', (case r of Inl _ \<Rightarrow> [] | Inr _ \<Rightarrow> ops) @ accepted)))"

text \<open>One batch that does not overflow the window: exactly the new operations are delivered.\<close>

lemma apply_remote_delivers:
  assumes wf: "sync_wf s" and run: "apply_remote_ops J elapsed ops s = (s', Inr ())"
  defines "ys \<equiv> new_ops (seen_ids (seen_ops_window s)) ops"
  shows "sync_registries s' = fold deliver ys (sync_registries s)"
    and "seen_order (seen_ops_window s') = last_n (seen_limit (seen_ops_window s)) (seen_order (seen_ops_window s) @ map op_key ys)"
    and "seen_limit (seen_ops_window s') = seen_limit (seen_ops_window s)"
    and "op_log s' = last_n (log_capacity s) (op_log s @ ys)" and "op_log_limit s' = op_log_limit s"
    and "sync_wf s'"
proof -
  have "sync_registries s' = fold deliver ys (sync_registries s) \<and> seen_ops_window s' = seen_ops_window (remembered ys s)
      \<and> op_log s' = op_log (remembered ys s) \<and> op_log_limit s' = op_log_limit (remembered ys s)"
  proof (cases "ops = []")
    case True
    with run wf show ?thesis by (auto simp: apply_remote_ops_def ys_def remembered_Nil)
  next
    case False
    with run show ?thesis unfolding apply_remote_ops_result [OF False] ys_def
      by (auto split: prod.splits sum.splits)
  qed
  moreover note R = remembered_window [OF wf new_ops_props(1) new_ops_fresh, of ops, folded ys_def]
  moreover have "op_log_limit (remembered ys s) = op_log_limit s" by (simp add: remembered_def)
  ultimately show "sync_registries s' = fold deliver ys (sync_registries s)"
    "seen_order (seen_ops_window s') = last_n (seen_limit (seen_ops_window s)) (seen_order (seen_ops_window s) @ map op_key ys)"
    "seen_limit (seen_ops_window s') = seen_limit (seen_ops_window s)"
    "op_log s' = last_n (log_capacity s) (op_log s @ ys)" "op_log_limit s' = op_log_limit s" "sync_wf s'"
    by (simp_all add: sync_wf_def)
qed

text \<open>A batch that fails changes nothing in memory but the metrics.\<close>

lemma apply_remote_fails:
  assumes "apply_remote_ops J elapsed ops s = (s', Inl e)"
  shows "sync_registries s' = sync_registries s \<and> seen_ops_window s' = seen_ops_window s \<and> op_log s' = op_log s
    \<and> seen_ops_next_sequence s' = seen_ops_next_sequence s \<and> op_log_next_sequence s' = op_log_next_sequence s
    \<and> op_log_limit s' = op_log_limit s"
proof (cases "ops = []")
  case False
  with assms show ?thesis unfolding apply_remote_ops_result [OF False] by (auto split: prod.splits sum.splits)
qed (use assms in \<open>simp add: apply_remote_ops_def\<close>)

lemma sync_wf_cong:
  "sync_wf s \<Longrightarrow> seen_ops_window s' = seen_ops_window s \<Longrightarrow> op_log s' = op_log s \<Longrightarrow> op_log_limit s' = op_log_limit s
    \<Longrightarrow> sync_wf s'"
  by (simp add: sync_wf_def)

abbreviation window_ids :: "'db sync_state \<Rightarrow> string set" where
  "window_ids s \<equiv> seen_ids (seen_ops_window s)"

abbreviation window_len :: "'db sync_state \<Rightarrow> nat" where
  "window_len s \<equiv> length (seen_order (seen_ops_window s))"

text \<open>Any number of batches, while the window has room for every operation.\<close>

lemma run_batches_deliver:
  assumes "sync_wf s" "run_batches J batches s = (s', accepted)"
    "window_len s + card (op_key ` set accepted - window_ids s) \<le> seen_limit (seen_ops_window s)"
  shows "\<exists>ys. sync_registries s' = fold deliver ys (sync_registries s) \<and> distinct (map op_key ys)
    \<and> op_key ` set ys = op_key ` set accepted - window_ids s \<and> set ys \<subseteq> set accepted
    \<and> seen_order (seen_ops_window s') = seen_order (seen_ops_window s) @ map op_key ys"
  using assms
proof (induction J batches s arbitrary: s' accepted rule: run_batches.induct)
  case (2 J ops elapsed batches s)
  obtain t r where t: "apply_remote_ops J elapsed ops s = (t, r)" by fastforce
  obtain rest where rest: "run_batches J batches t = (s', rest)" and
    acc: "accepted = (case r of Inl _ \<Rightarrow> [] | Inr _ \<Rightarrow> ops) @ rest"
    using "2.prems"(2) t by (auto split: prod.splits)
  show ?case
  proof (cases r)
    case (Inl e)
    note same = apply_remote_fails [OF t [unfolded Inl]]
    have "sync_wf t" using same "2.prems"(1) by (auto intro: sync_wf_cong)
    from "2.IH" [OF t [symmetric] this rest] "2.prems"(3) acc Inl same show ?thesis by simp
  next
    case (Inr u)
    let ?ys = "new_ops (window_ids s) ops"
    note d = apply_remote_delivers [OF "2.prems"(1) t [unfolded Inr unit_eq [of u]]]
    have acc': "accepted = ops @ rest" using acc Inr by simp
    have len: "length ?ys = card (op_key ` set ops - window_ids s)"
      using distinct_card [OF new_ops_props(1) [of "window_ids s" ops]] by (simp add: new_ops_props(2))
    have "card (op_key ` set ops - window_ids s) \<le> card (op_key ` set accepted - window_ids s)"
      unfolding acc' by (rule card_mono) auto
    then have order: "seen_order (seen_ops_window t) = seen_order (seen_ops_window s) @ map op_key ?ys"
      using d(2) "2.prems"(3) by (simp add: last_n_short len)
    have ids: "window_ids t = window_ids s \<union> op_key ` set ops"
      using d(6) "2.prems"(1) order new_ops_props(2) [of "window_ids s" ops] by (auto simp: sync_wf_def seen_wf_def)
    have split: "op_key ` set accepted - window_ids s
        = (op_key ` set ops - window_ids s) \<union> (op_key ` set rest - window_ids t)" by (auto simp: ids acc')
    have "card (op_key ` set accepted - window_ids s) = length ?ys + card (op_key ` set rest - window_ids t)"
      unfolding split len by (rule card_Un_disjoint) (auto simp: ids)
    then have "window_len t + card (op_key ` set rest - window_ids t) \<le> seen_limit (seen_ops_window t)"
      using "2.prems"(3) d(3) order by simp
    from "2.IH" [OF t [symmetric] d(6) rest this] obtain zs where
      zs: "sync_registries s' = fold deliver zs (sync_registries t)" "distinct (map op_key zs)"
      "op_key ` set zs = op_key ` set rest - window_ids t" "set zs \<subseteq> set rest"
      "seen_order (seen_ops_window s') = seen_order (seen_ops_window t) @ map op_key zs" by blast
    have "op_key ` set (?ys @ zs) = op_key ` set accepted - window_ids s"
      unfolding split by (simp add: image_Un zs(3) new_ops_props(2))
    moreover have "distinct (map op_key (?ys @ zs))"
      using zs(2,3) new_ops_props(1,2) [of "window_ids s" ops] ids by auto
    moreover have "set (?ys @ zs) \<subseteq> set accepted" using zs(4) new_ops_props(3) [of "window_ids s" ops] acc' by auto
    ultimately show ?thesis using zs(1,5) d(1) order by (intro exI [of _ "?ys @ zs"]) simp
  qed
qed (auto intro: exI [of _ "[]"])

text \<open>Two lists of the same operations, each once, deliver the same.\<close>

lemma deliver_same_ops:
  assumes R: "registries_written_by V E R" and ok: "\<forall>x \<in> set xs \<union> set ys. op_written_by V E x"
    and inj: "inj_on op_key (set xs \<union> set ys)" and d: "distinct (map op_key xs)" "distinct (map op_key ys)"
    and same: "op_key ` set xs = op_key ` set ys"
  shows "fold deliver xs R = fold deliver ys R"
proof -
  have "set xs = set ys" using inj same by (metis Un_upper1 Un_upper2 inj_on_image_eq_iff)
  then have "mset xs = mset ys" using d by (simp add: set_eq_iff_mset_eq_distinct distinct_map)
  then show ?thesis using R ok by (intro replica_ops.delivery_order_irrelevant [where V = V and E = E]) auto
qed

section \<open>Reachable states\<close>

text \<open>
  The states a replica can be in after remote batches, local batches and restarts in any order,
  successful or not. A batch is one the log has room for (\<open>batch_fits\<close>), and a restart uses
  limits under which the log is not longer than the window.
\<close>

inductive reachable :: "serde \<Rightarrow> 'db sync_state \<Rightarrow> 'db sync_state \<Rightarrow> bool" for J s0 where
  initial: "reachable J s0 s0"
| remote: "reachable J s0 s \<Longrightarrow> \<forall>x \<in> set ops. op_utf8 x \<Longrightarrow> batch_fits (length ops) s \<Longrightarrow>
    apply_remote_ops J elapsed ops s = (s', r) \<Longrightarrow> reachable J s0 s'"
| local: "reachable J s0 s \<Longrightarrow> \<forall>x \<in> set ops. op_utf8 x \<Longrightarrow> batch_fits (length ops) s \<Longrightarrow>
    remember_ops J ops s = (s', r) \<Longrightarrow> reachable J s0 s'"
| restart: "reachable J s0 s \<Longrightarrow>
    normalize_op_log_limit (cfg_op_log_limit config) \<le> normalize_seen_ops_limit (cfg_seen_ops_limit config) \<Longrightarrow>
    try_new_with_discovery J max_permits now node config metrics (sync_store s) = (st', Inr mgr) \<Longrightarrow>
    reachable J s0 (manager_sync mgr)"

lemma reachable_durable:
  "reachable J s0 s \<Longrightarrow> serde_ok J \<Longrightarrow> durable J \<alpha> s0 \<Longrightarrow> durable J \<alpha> s"
  by (induction rule: reachable.induct) (auto intro: durable_apply_remote durable_remember restart_durable(4))

end
