(* ===== verification/Host_Crdt.thy ===== *)
theory Host_Crdt
  imports Sync_Manager
begin

text \<open>
  \<open>nx-core/src/host_api/crdt.rs\<close>: the CRDT functions the runtime exports to a guest module. A
  mutating call reads its arguments from guest memory, reserves a slot of the broadcast queue,
  applies the operation to a copy of the state, persists it, installs it and queues the
  operation; a reading call encodes the current value into guest memory. Codes returned to the
  guest are \<open>i32\<close>: lengths or zero on success, negative on failure. The linear memory of the
  WebAssembly engine is the \<open>memory_api\<close> parameter. A call holds the write lock of its registry
  and is one step; \<open>uuid\<close> is what \<open>Uuid::new_v4\<close> returned, \<open>clock\<close> the system time in
  milliseconds relative to the Unix epoch.
\<close>

section \<open>Codes and limits\<close>

definition ERR_NOT_FOUND :: int where "ERR_NOT_FOUND = -1"
definition ERR_BUF_TOO_SMALL :: int where "ERR_BUF_TOO_SMALL = -2"
definition ERR_INTERNAL :: int where "ERR_INTERNAL = -3"
definition ERR_RESERVED_KEY :: int where "ERR_RESERVED_KEY = -4"
definition ERR_SYNC_DISABLED :: int where "ERR_SYNC_DISABLED = -5"

definition MAX_KEY_LEN :: nat where "MAX_KEY_LEN = 8 * 1024"
definition MAX_ELEMENT_LEN :: nat where "MAX_ELEMENT_LEN = 8 * 1024"
definition MAX_FIELD_LEN :: nat where "MAX_FIELD_LEN = 8 * 1024"
definition MAX_RGA_ID_LEN :: nat where "MAX_RGA_ID_LEN = 8 * 1024"
definition MAX_VALUE_LEN :: nat where "MAX_VALUE_LEN = 1024 * 1024"
definition MAX_OUT_CAP :: nat where "MAX_OUT_CAP = 1024 * 1024"
definition U64_LEN :: nat where "U64_LEN = 8"
definition I64_LEN :: nat where "I64_LEN = 8"

definition RESERVED_PREFIX :: string where
  "RESERVED_PREFIX = ''__nx/''"

lemmas host_codes = ERR_NOT_FOUND_def ERR_BUF_TOO_SMALL_def ERR_INTERNAL_def ERR_RESERVED_KEY_def ERR_SYNC_DISABLED_def

section \<open>Host state\<close>

text \<open>
  \<open>memory_read m ptr len\<close> are the \<open>len\<close> bytes from \<open>ptr\<close>, and both calls fail out of bounds.
\<close>

record 'm memory_api =
  memory_read :: "'m \<Rightarrow> nat \<Rightarrow> nat \<Rightarrow> bytes option"
  memory_write :: "'m \<Rightarrow> nat \<Rightarrow> bytes \<Rightarrow> 'm option"

text \<open>\<open>SyncHandle\<close>, with the broadcast channel as a list of at most \<open>handle_capacity\<close> operations.\<close>

record 'db sync_handle =
  handle_node :: node_id
  handle_sync :: "'db sync_state"
  handle_queue :: "Op list"
  handle_capacity :: nat
  handle_closed :: bool

record ('db, 'm) host_state =
  host_memory :: "'m option"
  host_handle :: "'db sync_handle option"

type_synonym ('db, 'm, 'a) host = "(('db, 'm) host_state, int, 'a) stm"

definition get_memory :: "('db, 'm, 'm) host" where
  "get_memory s = (s, case host_memory s of None \<Rightarrow> Inl ERR_INTERNAL | Some m \<Rightarrow> Inr m)"

definition read_bytes :: "'m memory_api \<Rightarrow> 'm \<Rightarrow> nat \<Rightarrow> nat \<Rightarrow> nat \<Rightarrow> int + bytes" where
  "read_bytes M mem ptr len max_len =
     (if len > max_len then Inl ERR_INTERNAL
      else case memory_read M mem ptr len of None \<Rightarrow> Inl ERR_INTERNAL | Some buf \<Rightarrow> Inr buf)"

definition read_value_bytes :: "'m memory_api \<Rightarrow> 'm \<Rightarrow> nat \<Rightarrow> nat \<Rightarrow> int + bytes" where
  "read_value_bytes M mem ptr len = read_bytes M mem ptr len MAX_VALUE_LEN"

definition read_utf8_arg :: "'m memory_api \<Rightarrow> 'm \<Rightarrow> nat \<Rightarrow> nat \<Rightarrow> nat \<Rightarrow> int + string" where
  "read_utf8_arg M mem ptr len max_len =
     res_bind (read_bytes M mem ptr len max_len) (\<lambda>buf.
       if utf8_valid buf then Inr (string_of_bytes buf) else Inl ERR_INTERNAL)"

definition read_validated_key :: "'m memory_api \<Rightarrow> 'm \<Rightarrow> nat \<Rightarrow> nat \<Rightarrow> int + string" where
  "read_validated_key M mem ptr len =
     res_bind (read_utf8_arg M mem ptr len MAX_KEY_LEN) (\<lambda>s.
       if take (length RESERVED_PREFIX) s = RESERVED_PREFIX then Inl ERR_RESERVED_KEY else Inr s)"

definition unix_epoch_millis :: "int \<Rightarrow> int + u64" where
  "unix_epoch_millis clock =
     (if clock < 0 then Inl ERR_INTERNAL else if clock > int u64_max then Inl ERR_INTERNAL else Inr (of_int clock))"

definition get_handle :: "('db, 'm, 'db sync_handle) host" where
  "get_handle s = (s, case host_handle s of None \<Rightarrow> Inl ERR_SYNC_DISABLED | Some h \<Rightarrow> Inr h)"

definition update_handle :: "('db sync_handle \<Rightarrow> 'db sync_handle) \<Rightarrow> ('db, 'm) host_state \<Rightarrow> ('db, 'm) host_state" where
  "update_handle f s = s\<lparr>host_handle := map_option f (host_handle s)\<rparr>"

definition update_sync :: "('db sync_state \<Rightarrow> 'db sync_state) \<Rightarrow> 'db sync_handle \<Rightarrow> 'db sync_handle" where
  "update_sync f h = h\<lparr>handle_sync := f (handle_sync h)\<rparr>"

text \<open>\<open>op_tx.try_reserve()\<close>: fails when the queue is full or its receiver is gone.\<close>

definition try_reserve :: "'db sync_handle \<Rightarrow> ('db, 'm, unit) host" where
  "try_reserve h s =
     (if handle_closed h \<or> handle_capacity h \<le> length (handle_queue h)
      then (update_handle (update_sync (with_metrics record_sync_error)) s, Inl ERR_INTERNAL)
      else (s, Inr ()))"

text \<open>Persist a state; on failure count a synchronisation error.\<close>

definition persist_or_fail :: "'db sync_handle \<Rightarrow> ('db, unit) storage \<Rightarrow> ('db, 'm, unit) host" where
  "persist_or_fail h write s =
     (case write (sync_store (handle_sync h)) of
        (st, Inl _) \<Rightarrow>
          (update_handle (update_sync (with_metrics record_sync_error \<circ> (\<lambda>y. y\<lparr>sync_store := st\<rparr>))) s, Inl ERR_INTERNAL)
      | (st, Inr _) \<Rightarrow> (update_handle (update_sync (\<lambda>y. y\<lparr>sync_store := st\<rparr>)) s, Inr ()))"

definition put_registries :: "(registries \<Rightarrow> registries) \<Rightarrow> ('db, 'm, unit) host" where
  "put_registries f s = (update_handle (update_sync (\<lambda>y. y\<lparr>sync_registries := f (sync_registries y)\<rparr>)) s, Inr ())"

text \<open>\<open>op_permit.send(op)\<close> and the operation counter.\<close>

definition send_op :: "Op \<Rightarrow> int \<Rightarrow> ('db, 'm, int) host" where
  "send_op x code s =
     (update_handle (\<lambda>h. update_sync (with_metrics (record_ops 1)) (h\<lparr>handle_queue := handle_queue h @ [x]\<rparr>)) s, Inr code)"

definition write_out :: "'m memory_api \<Rightarrow> nat \<Rightarrow> bytes \<Rightarrow> ('db, 'm, unit) host" where
  "write_out M ptr bs s =
     (case Option.bind (host_memory s) (\<lambda>m. memory_write M m ptr bs) of
        None \<Rightarrow> (s, Inl ERR_INTERNAL)
      | Some m \<Rightarrow> (s\<lparr>host_memory := Some m\<rparr>, Inr ()))"

text \<open>The code a host function returns, whichever way it leaves.\<close>

definition host_call :: "('db, 'm, int) host \<Rightarrow> ('db, 'm) host_state \<Rightarrow> ('db, 'm) host_state \<times> int" where
  "host_call f s = (case f s of (s', Inl code) \<Rightarrow> (s', code) | (s', Inr code) \<Rightarrow> (s', code))"

section \<open>Encodings\<close>

definition u32_to_le_bytes :: "nat \<Rightarrow> bytes" where
  "u32_to_le_bytes n = le_bytes 4 n"

definition u32_try_from :: "nat \<Rightarrow> int + nat" where
  "u32_try_from n = (if n < 2 ^ 32 then Inr n else Inl ERR_INTERNAL)"

definition encode_item :: "bytes \<Rightarrow> bytes \<Rightarrow> int + bytes" where
  "encode_item bs encoded =
     res_bind (u32_try_from (length bs)) (\<lambda>len. Inr (encoded @ u32_to_le_bytes len @ bs))"

definition encode_bytes_list :: "bytes list \<Rightarrow> int + bytes" where
  "encode_bytes_list values =
     res_bind (u32_try_from (length values)) (\<lambda>count. fold_res encode_item values (u32_to_le_bytes count))"

definition encode_string_list :: "string list \<Rightarrow> int + bytes" where
  "encode_string_list values =
     res_bind (u32_try_from (length values)) (\<lambda>count.
       fold_res (\<lambda>v. encode_item (as_bytes v)) values (u32_to_le_bytes count))"

definition encode_lww_map_entry :: "string \<times> bytes \<Rightarrow> bytes \<Rightarrow> int + bytes" where
  "encode_lww_map_entry e encoded =
     (case e of (field, value) \<Rightarrow>
        res_bind (u32_try_from (length (as_bytes field))) (\<lambda>field_len.
        res_bind (u32_try_from (length value)) (\<lambda>value_len.
        Inr (encoded @ u32_to_le_bytes field_len @ as_bytes field @ u32_to_le_bytes value_len @ value))))"

definition encode_lww_map_entries :: "(string \<times> bytes) list \<Rightarrow> int + bytes" where
  "encode_lww_map_entries entries =
     res_bind (u32_try_from (length entries)) (\<lambda>count. fold_res encode_lww_map_entry entries (u32_to_le_bytes count))"

section \<open>Counters\<close>

definition crdt_gcounter_inc_impl ::
    "'m memory_api \<Rightarrow> serde \<Rightarrow> string \<Rightarrow> nat \<Rightarrow> nat \<Rightarrow> u64 \<Rightarrow> ('db, 'm) host_state \<Rightarrow> ('db, 'm) host_state \<times> int" where
  "crdt_gcounter_inc_impl M J uuid key_ptr key_len delta = host_call (
     st_bind get_memory (\<lambda>mem.
     st_bind (st_lift (read_validated_key M mem key_ptr key_len)) (\<lambda>key.
     st_bind get_handle (\<lambda>h.
     st_bind (try_reserve h) (\<lambda>_.
     let counter = gcounter_increment (handle_node h) delta
           (om_get_or (counters (sync_registries (handle_sync h))) key gcounter_new) in
     st_bind (persist_or_fail h (persist_gcounter_state J key counter)) (\<lambda>_.
     st_bind (put_registries (\<lambda>R. R\<lparr>counters := om_insert key counter (counters R)\<rparr>)) (\<lambda>_.
     send_op (op_gcounter_increment uuid (handle_node h) key delta) 0)))))))"

text \<open>Encode a value into the guest's buffer, unless it is too small.\<close>

definition answer :: "'m memory_api \<Rightarrow> nat \<Rightarrow> nat \<Rightarrow> bytes \<Rightarrow> ('db, 'm, int) host" where
  "answer M out_ptr out_cap bs =
     (if length bs > out_cap then st_lift (Inl ERR_BUF_TOO_SMALL)
      else st_bind (write_out M out_ptr bs) (\<lambda>_. st_lift (Inr (int (length bs)))))"

definition crdt_gcounter_value_impl ::
    "'m memory_api \<Rightarrow> nat \<Rightarrow> nat \<Rightarrow> nat \<Rightarrow> nat \<Rightarrow> ('db, 'm) host_state \<Rightarrow> ('db, 'm) host_state \<times> int" where
  "crdt_gcounter_value_impl M key_ptr key_len out_ptr out_cap = host_call (
     st_bind get_memory (\<lambda>mem.
     if out_cap < U64_LEN then st_lift (Inl ERR_BUF_TOO_SMALL) else
     st_bind (st_lift (read_validated_key M mem key_ptr key_len)) (\<lambda>key.
     st_bind get_handle (\<lambda>h.
     let v = get_counter_value (sync_registries (handle_sync h)) key in
     st_bind (write_out M out_ptr (u64_to_le_bytes v)) (\<lambda>_. st_lift (Inr (int U64_LEN)))))))"

datatype pncounter_change = Increment | Decrement

definition crdt_pncounter_change_impl ::
    "'m memory_api \<Rightarrow> serde \<Rightarrow> string \<Rightarrow> nat \<Rightarrow> nat \<Rightarrow> u64 \<Rightarrow> pncounter_change \<Rightarrow>
     ('db, 'm) host_state \<Rightarrow> ('db, 'm) host_state \<times> int" where
  "crdt_pncounter_change_impl M J uuid key_ptr key_len delta change = host_call (
     st_bind get_memory (\<lambda>mem.
     st_bind (st_lift (read_validated_key M mem key_ptr key_len)) (\<lambda>key.
     st_bind get_handle (\<lambda>h.
     st_bind (try_reserve h) (\<lambda>_.
     let old = om_get_or (pncounters (sync_registries (handle_sync h))) key pncounter_new;
         counter = (case change of
             Increment \<Rightarrow> pncounter_increment (handle_node h) delta old
           | Decrement \<Rightarrow> pncounter_decrement (handle_node h) delta old) in
     st_bind (persist_or_fail h (persist_pncounter_state J key counter)) (\<lambda>_.
     st_bind (put_registries (\<lambda>R. R\<lparr>pncounters := om_insert key counter (pncounters R)\<rparr>)) (\<lambda>_.
     send_op (case change of
         Increment \<Rightarrow> op_pncounter_increment uuid (handle_node h) key delta
       | Decrement \<Rightarrow> op_pncounter_decrement uuid (handle_node h) key delta) 0)))))))"

definition crdt_pncounter_inc_impl ::
    "'m memory_api \<Rightarrow> serde \<Rightarrow> string \<Rightarrow> nat \<Rightarrow> nat \<Rightarrow> u64 \<Rightarrow> ('db, 'm) host_state \<Rightarrow> ('db, 'm) host_state \<times> int" where
  "crdt_pncounter_inc_impl M J uuid key_ptr key_len delta =
     crdt_pncounter_change_impl M J uuid key_ptr key_len delta Increment"

definition crdt_pncounter_dec_impl ::
    "'m memory_api \<Rightarrow> serde \<Rightarrow> string \<Rightarrow> nat \<Rightarrow> nat \<Rightarrow> u64 \<Rightarrow> ('db, 'm) host_state \<Rightarrow> ('db, 'm) host_state \<times> int" where
  "crdt_pncounter_dec_impl M J uuid key_ptr key_len delta =
     crdt_pncounter_change_impl M J uuid key_ptr key_len delta Decrement"

definition crdt_pncounter_value_impl ::
    "'m memory_api \<Rightarrow> nat \<Rightarrow> nat \<Rightarrow> nat \<Rightarrow> nat \<Rightarrow> ('db, 'm) host_state \<Rightarrow> ('db, 'm) host_state \<times> int" where
  "crdt_pncounter_value_impl M key_ptr key_len out_ptr out_cap = host_call (
     st_bind get_memory (\<lambda>mem.
     if out_cap < I64_LEN then st_lift (Inl ERR_BUF_TOO_SMALL) else
     st_bind (st_lift (read_validated_key M mem key_ptr key_len)) (\<lambda>key.
     st_bind get_handle (\<lambda>h.
     let v = get_pncounter_value (sync_registries (handle_sync h)) key in
     st_bind (write_out M out_ptr (i64_to_le_bytes v)) (\<lambda>_. st_lift (Inr (int I64_LEN)))))))"

section \<open>Last writer wins\<close>

text \<open>The timestamp of a local write: the clock, but above what it overwrites.\<close>

definition next_timestamp :: "u64 \<Rightarrow> u64 option \<Rightarrow> u64" where
  "next_timestamp observed existing =
     (case existing of None \<Rightarrow> observed | Some t \<Rightarrow> max observed (saturating_add t 1))"

definition crdt_lww_set_impl ::
    "'m memory_api \<Rightarrow> serde \<Rightarrow> string \<Rightarrow> int \<Rightarrow> nat \<Rightarrow> nat \<Rightarrow> nat \<Rightarrow> nat \<Rightarrow>
     ('db, 'm) host_state \<Rightarrow> ('db, 'm) host_state \<times> int" where
  "crdt_lww_set_impl M J uuid clock key_ptr key_len value_ptr value_len = host_call (
     st_bind get_memory (\<lambda>mem.
     st_bind (st_lift (read_validated_key M mem key_ptr key_len)) (\<lambda>key.
     st_bind (st_lift (read_value_bytes M mem value_ptr value_len)) (\<lambda>v.
     st_bind (st_lift (unix_epoch_millis clock)) (\<lambda>observed.
     st_bind get_handle (\<lambda>h.
     st_bind (try_reserve h) (\<lambda>_.
     let existing = om_get (lww_registers (sync_registries (handle_sync h))) key;
         timestamp_ms = next_timestamp observed (map_option reg_timestamp_ms existing);
         candidate = lww_register_new v timestamp_ms (handle_node h);
         next_register = (case existing of
             None \<Rightarrow> Some candidate
           | Some register \<Rightarrow>
               (case lww_register_merge register candidate of (r, changed) \<Rightarrow> if changed then Some r else None)) in
     st_bind (case next_register of
         None \<Rightarrow> st_lift (Inr ())
       | Some register \<Rightarrow>
           st_bind (persist_or_fail h (persist_lww_register_state J key register)) (\<lambda>_.
           put_registries (\<lambda>R. R\<lparr>lww_registers := om_insert key register (lww_registers R)\<rparr>))) (\<lambda>_.
     send_op (op_lww_register_set uuid (handle_node h) key v timestamp_ms) 0))))))))"

definition crdt_lww_get_impl ::
    "'m memory_api \<Rightarrow> nat \<Rightarrow> nat \<Rightarrow> nat \<Rightarrow> nat \<Rightarrow> ('db, 'm) host_state \<Rightarrow> ('db, 'm) host_state \<times> int" where
  "crdt_lww_get_impl M key_ptr key_len out_ptr out_cap = host_call (
     st_bind get_memory (\<lambda>mem.
     if out_cap > MAX_OUT_CAP then st_lift (Inl ERR_INTERNAL) else
     st_bind (st_lift (read_validated_key M mem key_ptr key_len)) (\<lambda>key.
     st_bind get_handle (\<lambda>h.
     case om_get (lww_registers (sync_registries (handle_sync h))) key of
       None \<Rightarrow> st_lift (Inl ERR_NOT_FOUND)
     | Some register \<Rightarrow> answer M out_ptr out_cap (reg_value register)))))"

text \<open>The two LWW-Map writes differ in the update and in the operation.\<close>

definition lww_map_write ::
    "serde \<Rightarrow> string \<Rightarrow> string \<Rightarrow> u64 \<Rightarrow>
     (u64 \<Rightarrow> node_id \<Rightarrow> lww_map \<Rightarrow> lww_map) \<Rightarrow> (node_id \<Rightarrow> u64 \<Rightarrow> Op) \<Rightarrow> ('db, 'm, int) host" where
  "lww_map_write J key field observed update mk_op =
     st_bind get_handle (\<lambda>h.
     st_bind (try_reserve h) (\<lambda>_.
     let m = om_get_or (lww_maps (sync_registries (handle_sync h))) key lww_map_new;
         timestamp_ms = next_timestamp observed (map_option ent_timestamp_ms (lww_map_entry_of m field));
         m' = update timestamp_ms (handle_node h) m in
     st_bind (persist_or_fail h (persist_lww_map_state J key m')) (\<lambda>_.
     st_bind (put_registries (\<lambda>R. R\<lparr>lww_maps := om_insert key m' (lww_maps R)\<rparr>)) (\<lambda>_.
     send_op (mk_op (handle_node h) timestamp_ms) 0))))"

definition crdt_lww_map_set_impl ::
    "'m memory_api \<Rightarrow> serde \<Rightarrow> string \<Rightarrow> int \<Rightarrow> nat \<Rightarrow> nat \<Rightarrow> nat \<Rightarrow> nat \<Rightarrow> nat \<Rightarrow> nat \<Rightarrow>
     ('db, 'm) host_state \<Rightarrow> ('db, 'm) host_state \<times> int" where
  "crdt_lww_map_set_impl M J uuid clock key_ptr key_len field_ptr field_len value_ptr value_len = host_call (
     st_bind get_memory (\<lambda>mem.
     st_bind (st_lift (read_validated_key M mem key_ptr key_len)) (\<lambda>key.
     st_bind (st_lift (read_utf8_arg M mem field_ptr field_len MAX_FIELD_LEN)) (\<lambda>field.
     st_bind (st_lift (read_value_bytes M mem value_ptr value_len)) (\<lambda>v.
     st_bind (st_lift (unix_epoch_millis clock)) (\<lambda>observed.
     lww_map_write J key field observed (\<lambda>t w m. fst (lww_map_set field v t w m))
       (\<lambda>node t. op_lww_map_set uuid node key field v t)))))))"

definition crdt_lww_map_remove_impl ::
    "'m memory_api \<Rightarrow> serde \<Rightarrow> string \<Rightarrow> int \<Rightarrow> nat \<Rightarrow> nat \<Rightarrow> nat \<Rightarrow> nat \<Rightarrow>
     ('db, 'm) host_state \<Rightarrow> ('db, 'm) host_state \<times> int" where
  "crdt_lww_map_remove_impl M J uuid clock key_ptr key_len field_ptr field_len = host_call (
     st_bind get_memory (\<lambda>mem.
     st_bind (st_lift (read_validated_key M mem key_ptr key_len)) (\<lambda>key.
     st_bind (st_lift (read_utf8_arg M mem field_ptr field_len MAX_FIELD_LEN)) (\<lambda>field.
     st_bind (st_lift (unix_epoch_millis clock)) (\<lambda>observed.
     lww_map_write J key field observed (\<lambda>t w m. fst (lww_map_remove field t w m))
       (\<lambda>node t. op_lww_map_remove uuid node key field t))))))"

definition crdt_lww_map_get_impl ::
    "'m memory_api \<Rightarrow> nat \<Rightarrow> nat \<Rightarrow> nat \<Rightarrow> nat \<Rightarrow> nat \<Rightarrow> nat \<Rightarrow> ('db, 'm) host_state \<Rightarrow> ('db, 'm) host_state \<times> int" where
  "crdt_lww_map_get_impl M key_ptr key_len field_ptr field_len out_ptr out_cap = host_call (
     st_bind get_memory (\<lambda>mem.
     if out_cap > MAX_OUT_CAP then st_lift (Inl ERR_INTERNAL) else
     st_bind (st_lift (read_validated_key M mem key_ptr key_len)) (\<lambda>key.
     st_bind (st_lift (read_utf8_arg M mem field_ptr field_len MAX_FIELD_LEN)) (\<lambda>field.
     st_bind get_handle (\<lambda>h.
     case Option.bind (om_get (lww_maps (sync_registries (handle_sync h))) key) (\<lambda>m. lww_map_get m field) of
       None \<Rightarrow> st_lift (Inl ERR_NOT_FOUND)
     | Some v \<Rightarrow> answer M out_ptr out_cap v)))))"

definition crdt_lww_map_contains_impl ::
    "'m memory_api \<Rightarrow> nat \<Rightarrow> nat \<Rightarrow> nat \<Rightarrow> nat \<Rightarrow> ('db, 'm) host_state \<Rightarrow> ('db, 'm) host_state \<times> int" where
  "crdt_lww_map_contains_impl M key_ptr key_len field_ptr field_len = host_call (
     st_bind get_memory (\<lambda>mem.
     st_bind (st_lift (read_validated_key M mem key_ptr key_len)) (\<lambda>key.
     st_bind (st_lift (read_utf8_arg M mem field_ptr field_len MAX_FIELD_LEN)) (\<lambda>field.
     st_bind get_handle (\<lambda>h.
     st_lift (Inr (case om_get (lww_maps (sync_registries (handle_sync h))) key of
         None \<Rightarrow> 0 | Some m \<Rightarrow> of_bool (lww_map_contains m field))))))))"

definition crdt_lww_map_entries_impl ::
    "'m memory_api \<Rightarrow> nat \<Rightarrow> nat \<Rightarrow> nat \<Rightarrow> nat \<Rightarrow> ('db, 'm) host_state \<Rightarrow> ('db, 'm) host_state \<times> int" where
  "crdt_lww_map_entries_impl M key_ptr key_len out_ptr out_cap = host_call (
     st_bind get_memory (\<lambda>mem.
     if out_cap > MAX_OUT_CAP then st_lift (Inl ERR_INTERNAL) else
     st_bind (st_lift (read_validated_key M mem key_ptr key_len)) (\<lambda>key.
     st_bind get_handle (\<lambda>h.
     st_bind (st_lift (encode_lww_map_entries (get_lww_map_entries (sync_registries (handle_sync h)) key)))
       (answer M out_ptr out_cap)))))"

section \<open>Sets\<close>

definition crdt_orset_add_impl ::
    "'m memory_api \<Rightarrow> serde \<Rightarrow> string \<Rightarrow> nat \<Rightarrow> nat \<Rightarrow> nat \<Rightarrow> nat \<Rightarrow>
     ('db, 'm) host_state \<Rightarrow> ('db, 'm) host_state \<times> int" where
  "crdt_orset_add_impl M J uuid key_ptr key_len element_ptr element_len = host_call (
     st_bind get_memory (\<lambda>mem.
     st_bind (st_lift (read_validated_key M mem key_ptr key_len)) (\<lambda>key.
     st_bind (st_lift (read_utf8_arg M mem element_ptr element_len MAX_ELEMENT_LEN)) (\<lambda>element.
     st_bind get_handle (\<lambda>h.
     st_bind (try_reserve h) (\<lambda>_.
     let x = op_orset_add_with_op_id_tag uuid (handle_node h) key element in
     case op_kind x of
       ORSetAdd _ _ tag \<Rightarrow>
         let set' = fst (orset_add element tag (om_get_or (orsets (sync_registries (handle_sync h))) key orset_new)) in
         st_bind (persist_or_fail h (persist_orset_state J key set')) (\<lambda>_.
         st_bind (put_registries (\<lambda>R. R\<lparr>orsets := om_insert key set' (orsets R)\<rparr>)) (\<lambda>_.
         send_op x 0))
     | _ \<Rightarrow> (\<lambda>s. (update_handle (update_sync (with_metrics record_sync_error)) s, Inl ERR_INTERNAL))))))))"

definition crdt_orset_remove_impl ::
    "'m memory_api \<Rightarrow> serde \<Rightarrow> string \<Rightarrow> nat \<Rightarrow> nat \<Rightarrow> nat \<Rightarrow> nat \<Rightarrow>
     ('db, 'm) host_state \<Rightarrow> ('db, 'm) host_state \<times> int" where
  "crdt_orset_remove_impl M J uuid key_ptr key_len element_ptr element_len = host_call (
     st_bind get_memory (\<lambda>mem.
     st_bind (st_lift (read_validated_key M mem key_ptr key_len)) (\<lambda>key.
     st_bind (st_lift (read_utf8_arg M mem element_ptr element_len MAX_ELEMENT_LEN)) (\<lambda>element.
     st_bind get_handle (\<lambda>h.
     st_bind (try_reserve h) (\<lambda>_.
     case orset_remove element (om_get_or (orsets (sync_registries (handle_sync h))) key orset_new) of
       (set', observed_tags) \<Rightarrow>
         if observed_tags = [] then st_lift (Inl 0)
         else
           st_bind (persist_or_fail h (persist_orset_state J key set')) (\<lambda>_.
           st_bind (put_registries (\<lambda>R. R\<lparr>orsets := om_insert key set' (orsets R)\<rparr>)) (\<lambda>_.
           send_op (op_orset_remove uuid (handle_node h) key element observed_tags) 0))))))))"

definition crdt_orset_contains_impl ::
    "'m memory_api \<Rightarrow> nat \<Rightarrow> nat \<Rightarrow> nat \<Rightarrow> nat \<Rightarrow> ('db, 'm) host_state \<Rightarrow> ('db, 'm) host_state \<times> int" where
  "crdt_orset_contains_impl M key_ptr key_len element_ptr element_len = host_call (
     st_bind get_memory (\<lambda>mem.
     st_bind (st_lift (read_validated_key M mem key_ptr key_len)) (\<lambda>key.
     st_bind (st_lift (read_utf8_arg M mem element_ptr element_len MAX_ELEMENT_LEN)) (\<lambda>element.
     st_bind get_handle (\<lambda>h.
     st_lift (Inr (case om_get (orsets (sync_registries (handle_sync h))) key of
         None \<Rightarrow> 0 | Some t \<Rightarrow> of_bool (orset_contains t element))))))))"

definition crdt_orset_elements_impl ::
    "'m memory_api \<Rightarrow> nat \<Rightarrow> nat \<Rightarrow> nat \<Rightarrow> nat \<Rightarrow> ('db, 'm) host_state \<Rightarrow> ('db, 'm) host_state \<times> int" where
  "crdt_orset_elements_impl M key_ptr key_len out_ptr out_cap = host_call (
     st_bind get_memory (\<lambda>mem.
     if out_cap > MAX_OUT_CAP then st_lift (Inl ERR_INTERNAL) else
     st_bind (st_lift (read_validated_key M mem key_ptr key_len)) (\<lambda>key.
     st_bind get_handle (\<lambda>h.
     st_bind (st_lift (encode_string_list (get_orset_elements (sync_registries (handle_sync h)) key)))
       (answer M out_ptr out_cap)))))"

section \<open>Arrays\<close>

text \<open>
  The identifier is written to guest memory after the element is persisted and installed; when
  that write fails the operation is not queued.
\<close>

definition crdt_rga_insert_impl ::
    "'m memory_api \<Rightarrow> serde \<Rightarrow> string \<Rightarrow> nat \<Rightarrow> nat \<Rightarrow> nat \<Rightarrow> nat \<Rightarrow> nat \<Rightarrow> nat \<Rightarrow> nat \<Rightarrow> nat \<Rightarrow>
     ('db, 'm) host_state \<Rightarrow> ('db, 'm) host_state \<times> int" where
  "crdt_rga_insert_impl M J uuid key_ptr key_len parent_ptr parent_len value_ptr value_len out_id_ptr out_id_cap = host_call (
     st_bind get_memory (\<lambda>mem.
     if out_id_cap > MAX_OUT_CAP then st_lift (Inl ERR_INTERNAL) else
     st_bind (st_lift (read_validated_key M mem key_ptr key_len)) (\<lambda>key.
     st_bind (if parent_len = 0 then st_lift (Inr None)
              else st_bind (st_lift (read_utf8_arg M mem parent_ptr parent_len MAX_RGA_ID_LEN)) (\<lambda>p. st_lift (Inr (Some p)))) (\<lambda>parent.
     st_bind (st_lift (read_value_bytes M mem value_ptr value_len)) (\<lambda>v.
     st_bind get_handle (\<lambda>h.
     st_bind (try_reserve h) (\<lambda>_.
     let x = op_rga_insert_with_op_id uuid (handle_node h) key parent v in
     case op_kind x of
       RgaInsert _ element_id _ _ \<Rightarrow>
         let id_bytes = as_bytes element_id in
         if length id_bytes > out_id_cap then st_lift (Inl ERR_BUF_TOO_SMALL) else
         let rga' = fst (rga_insert element_id parent v (om_get_or (rgas (sync_registries (handle_sync h))) key rga_new)) in
         st_bind (persist_or_fail h (persist_rga_state J key rga')) (\<lambda>_.
         st_bind (put_registries (\<lambda>R. R\<lparr>rgas := om_insert key rga' (rgas R)\<rparr>)) (\<lambda>_.
         st_bind (write_out M out_id_ptr id_bytes) (\<lambda>_.
         send_op x (int (length id_bytes)))))
     | _ \<Rightarrow> (\<lambda>s. (update_handle (update_sync (with_metrics record_sync_error)) s, Inl ERR_INTERNAL)))))))))"

definition crdt_rga_delete_impl ::
    "'m memory_api \<Rightarrow> serde \<Rightarrow> string \<Rightarrow> nat \<Rightarrow> nat \<Rightarrow> nat \<Rightarrow> nat \<Rightarrow>
     ('db, 'm) host_state \<Rightarrow> ('db, 'm) host_state \<times> int" where
  "crdt_rga_delete_impl M J uuid key_ptr key_len id_ptr id_len = host_call (
     st_bind get_memory (\<lambda>mem.
     st_bind (st_lift (read_validated_key M mem key_ptr key_len)) (\<lambda>key.
     st_bind (st_lift (read_utf8_arg M mem id_ptr id_len MAX_RGA_ID_LEN)) (\<lambda>i.
     st_bind get_handle (\<lambda>h.
     st_bind (try_reserve h) (\<lambda>_.
     let rga' = fst (rga_delete i (om_get_or (rgas (sync_registries (handle_sync h))) key rga_new)) in
     st_bind (persist_or_fail h (persist_rga_state J key rga')) (\<lambda>_.
     st_bind (put_registries (\<lambda>R. R\<lparr>rgas := om_insert key rga' (rgas R)\<rparr>)) (\<lambda>_.
     send_op (op_rga_delete uuid (handle_node h) key i) 0))))))))"

text \<open>A traversal that overflows the stack aborts the call; it answers as an internal error here.\<close>

definition crdt_rga_values_impl ::
    "'m memory_api \<Rightarrow> nat \<Rightarrow> nat \<Rightarrow> nat \<Rightarrow> nat \<Rightarrow> ('db, 'm) host_state \<Rightarrow> ('db, 'm) host_state \<times> int" where
  "crdt_rga_values_impl M key_ptr key_len out_ptr out_cap = host_call (
     st_bind get_memory (\<lambda>mem.
     if out_cap > MAX_OUT_CAP then st_lift (Inl ERR_INTERNAL) else
     st_bind (st_lift (read_validated_key M mem key_ptr key_len)) (\<lambda>key.
     st_bind get_handle (\<lambda>h.
     case get_rga_values (sync_registries (handle_sync h)) key of
       None \<Rightarrow> st_lift (Inl ERR_INTERNAL)
     | Some vals \<Rightarrow> st_bind (st_lift (encode_bytes_list vals)) (answer M out_ptr out_cap)))))"

section \<open>The mutating calls\<close>

text \<open>
  The exports that change state, with the arguments the linker passes on. \<open>uuid\<close> and \<open>clock\<close>
  are what the environment supplies to this call.
\<close>

datatype host_command =
    CallGCounterInc nat nat u64
  | CallPNCounterInc nat nat u64
  | CallPNCounterDec nat nat u64
  | CallLwwSet nat nat nat nat
  | CallLwwMapSet nat nat nat nat nat nat
  | CallLwwMapRemove nat nat nat nat
  | CallORSetAdd nat nat nat nat
  | CallORSetRemove nat nat nat nat
  | CallRgaInsert nat nat nat nat nat nat nat nat
  | CallRgaDelete nat nat nat nat

fun host_dispatch ::
    "'m memory_api \<Rightarrow> serde \<Rightarrow> string \<Rightarrow> int \<Rightarrow> host_command \<Rightarrow> ('db, 'm) host_state \<Rightarrow> ('db, 'm) host_state \<times> int" where
  "host_dispatch M J uuid clock (CallGCounterInc kp kl delta) = crdt_gcounter_inc_impl M J uuid kp kl delta"
| "host_dispatch M J uuid clock (CallPNCounterInc kp kl delta) = crdt_pncounter_inc_impl M J uuid kp kl delta"
| "host_dispatch M J uuid clock (CallPNCounterDec kp kl delta) = crdt_pncounter_dec_impl M J uuid kp kl delta"
| "host_dispatch M J uuid clock (CallLwwSet kp kl vp vl) = crdt_lww_set_impl M J uuid clock kp kl vp vl"
| "host_dispatch M J uuid clock (CallLwwMapSet kp kl fp fl vp vl) = crdt_lww_map_set_impl M J uuid clock kp kl fp fl vp vl"
| "host_dispatch M J uuid clock (CallLwwMapRemove kp kl fp fl) = crdt_lww_map_remove_impl M J uuid clock kp kl fp fl"
| "host_dispatch M J uuid clock (CallORSetAdd kp kl ep el) = crdt_orset_add_impl M J uuid kp kl ep el"
| "host_dispatch M J uuid clock (CallORSetRemove kp kl ep el) = crdt_orset_remove_impl M J uuid kp kl ep el"
| "host_dispatch M J uuid clock (CallRgaInsert kp kl pp pl vp vl op oc) = crdt_rga_insert_impl M J uuid kp kl pp pl vp vl op oc"
| "host_dispatch M J uuid clock (CallRgaDelete kp kl ip il) = crdt_rga_delete_impl M J uuid kp kl ip il"

end
