(* ===== verification/Host_Outcomes.thy ===== *)
theory Host_Outcomes
  imports Host_Crdt
begin

text \<open>
  What a mutating host call does: it delivers exactly the operation it queues, or it changes
  neither the registries nor the queue, and the store follows the memory in both cases. The
  one call that breaks this is \<open>crdt_rga_insert\<close> when the identifier cannot be written back.
\<close>

section \<open>Persisting one state\<close>

lemma numbered_other_sets:
  assumes "numbered_holds p key enc m es" "\<forall>k \<in> fst ` set sets. \<not> starts_with k (as_bytes p)"
  shows "numbered_holds p key enc (batch_view sets [] m) es"
proof -
  have "map_of (rev sets) k = None" if "starts_with k (as_bytes p)" for k
    using assms(2) that by (auto simp: map_of_eq_None_iff)
  with assms(1) show ?thesis by (simp add: numbered_holds_def om_get_batch_view)
qed

lemma persist_state_outcome:
  assumes ok: "sled_ok (store_sled st) \<alpha>" and run: "persist_state kind c mat key x st = (st', r)"
  shows "store_sled st' = store_sled st"
    and "r = Inl e \<Longrightarrow> \<alpha> (store_db st') = \<alpha> (store_db st)"
    and "r = Inr () \<Longrightarrow> \<exists>sets. state_sets kind c mat key x = Inr sets \<and> \<alpha> (store_db st') = batch_view sets [] (\<alpha> (store_db st))"
proof -
  consider e where "state_sets kind c mat key x = Inl e" "st' = st" "r = Inl e"
    | sets where "state_sets kind c mat key x = Inr sets" "write_batch sets [] st = (st', r)"
    using run by (cases "state_sets kind c mat key x") (auto simp: persist_state_def st_bind_def st_lift_def)
  then have "store_sled st' = store_sled st \<and> (\<forall>e. r = Inl e \<longrightarrow> \<alpha> (store_db st') = \<alpha> (store_db st))
    \<and> (r = Inr () \<longrightarrow> (\<exists>sets. state_sets kind c mat key x = Inr sets \<and> \<alpha> (store_db st') = batch_view sets [] (\<alpha> (store_db st))))"
    by cases (auto dest!: write_batch_outcome [OF ok])
  then show "store_sled st' = store_sled st" "r = Inl e \<Longrightarrow> \<alpha> (store_db st') = \<alpha> (store_db st)"
    "r = Inr () \<Longrightarrow> \<exists>sets. state_sets kind c mat key x = Inr sets \<and> \<alpha> (store_db st') = batch_view sets [] (\<alpha> (store_db st))"
    by blast+
qed

lemma state_sets_key: "state_sets kind c mat key x = Inr sets \<Longrightarrow> (k, v) \<in> set sets \<Longrightarrow> \<exists>ns. k = crdt_store_key kind ns key"
  using state_sets_Inr [of kind c mat key x sets] by blast

lemma table_put:
  assumes "table_holds kind c mat m reg" "utf8_valid (as_bytes key)" "state_sets kind c mat key x = Inr sets"
  shows "table_holds kind c mat (batch_view sets [] m) (om_insert key x reg)"
proof -
  let ?U = "om_insert key x om_empty"
  note S = state_sets_Inr [OF assms(3)]
  have "install ?U reg = om_insert key x reg" by (simp add: install_insert)
  moreover have "table_holds kind c mat (batch_view sets [] m) (install ?U reg)"
    by (rule table_holds_batch [OF assms(1)]) (use S assms(2) in \<open>auto simp: storable_def split: if_splits\<close>)
  ultimately show ?thesis by simp
qed

lemma table_other_put:
  assumes "state_sets kind' c' mat' key x = Inr sets" "table_holds kind c mat m reg" "kind \<noteq> kind'"
  shows "table_holds kind c mat (batch_view sets [] m) reg"
proof (rule table_other_batch [OF assms(2)])
  fix k v ns
  assume "starts_with k (as_bytes (crdt_kind_prefix kind ns))"
  then show "(k, v) \<notin> set sets \<and> k \<notin> set []" using state_sets_key [OF assms(1), of k v] assms(3) by auto
qed

text \<open>Writing a state and installing it in memory keeps the replica durable.\<close>

lemma durable_put:
  assumes dur: "durable J \<alpha> s" and utf8: "utf8_valid (as_bytes key)"
    and sets: "state_sets kind c mat key x = Inr sets"
    and st: "store_sled st' = store_sled (sync_store s)" "\<alpha> (store_db st') = batch_view sets [] (sync_view \<alpha> s)"
    and R: "registries_hold J (batch_view sets [] (sync_view \<alpha> s)) R'"
  shows "durable J \<alpha> (s\<lparr>sync_registries := R', sync_store := st'\<rparr>)"
proof -
  have out: "\<forall>k \<in> fst ` set sets. \<not> starts_with k (as_bytes SEEN_OP_STORE_PREFIX)"
    "\<forall>k \<in> fst ` set sets. \<not> starts_with k (as_bytes OP_LOG_STORE_PREFIX)"
    using state_sets_key [OF sets] by fastforce+
  show ?thesis
    using dur R numbered_other_sets [OF _ out(1)] numbered_other_sets [OF _ out(2)]
    unfolding durable_def window_durable_def log_durable_def
    by (auto simp: st sync_wf_def log_in_window_def) blast+
qed

lemma durable_persist_state:
  assumes dur: "durable J \<alpha> s" and utf8: "utf8_valid (as_bytes key)"
    and run: "persist_state kind c mat key x (sync_store s) = (st', Inr ())"
    and R: "\<And>sets. state_sets kind c mat key x = Inr sets \<Longrightarrow> registries_hold J (sync_view \<alpha> s) (sync_registries s) \<Longrightarrow>
      registries_hold J (batch_view sets [] (sync_view \<alpha> s)) R'"
  shows "durable J \<alpha> (s\<lparr>sync_registries := R', sync_store := st'\<rparr>)"
proof -
  have ok: "sled_ok (store_sled (sync_store s)) \<alpha>" "registries_hold J (sync_view \<alpha> s) (sync_registries s)"
    using dur by (simp_all add: durable_def)
  note out = persist_state_outcome [OF ok(1) run]
  from out(3) obtain sets where sets: "state_sets kind c mat key x = Inr sets"
    "\<alpha> (store_db st') = batch_view sets [] (sync_view \<alpha> s)" by auto
  show ?thesis by (rule durable_put [OF dur utf8 sets(1) out(1) sets(2) R [OF sets(1) ok(2)]])
qed

lemma durable_persist:
  assumes "durable J \<alpha> s" "utf8_valid (as_bytes key)"
  shows "persist_gcounter_state J key c (sync_store s) = (st', Inr ()) \<Longrightarrow>
      durable J \<alpha> (s\<lparr>sync_registries := (sync_registries s)\<lparr>counters := om_insert key c (counters (sync_registries s))\<rparr>, sync_store := st'\<rparr>)"
    and "persist_pncounter_state J key p (sync_store s) = (st', Inr ()) \<Longrightarrow>
      durable J \<alpha> (s\<lparr>sync_registries := (sync_registries s)\<lparr>pncounters := om_insert key p (pncounters (sync_registries s))\<rparr>, sync_store := st'\<rparr>)"
    and "persist_lww_register_state J key r (sync_store s) = (st', Inr ()) \<Longrightarrow>
      durable J \<alpha> (s\<lparr>sync_registries := (sync_registries s)\<lparr>lww_registers := om_insert key r (lww_registers (sync_registries s))\<rparr>, sync_store := st'\<rparr>)"
    and "persist_lww_map_state J key m (sync_store s) = (st', Inr ()) \<Longrightarrow>
      durable J \<alpha> (s\<lparr>sync_registries := (sync_registries s)\<lparr>lww_maps := om_insert key m (lww_maps (sync_registries s))\<rparr>, sync_store := st'\<rparr>)"
    and "persist_orset_state J key t (sync_store s) = (st', Inr ()) \<Longrightarrow>
      durable J \<alpha> (s\<lparr>sync_registries := (sync_registries s)\<lparr>orsets := om_insert key t (orsets (sync_registries s))\<rparr>, sync_store := st'\<rparr>)"
    and "persist_rga_state J key g (sync_store s) = (st', Inr ()) \<Longrightarrow>
      durable J \<alpha> (s\<lparr>sync_registries := (sync_registries s)\<lparr>rgas := om_insert key g (rgas (sync_registries s))\<rparr>, sync_store := st'\<rparr>)"
  unfolding persist_gcounter_state_def persist_pncounter_state_def persist_lww_register_state_def
    persist_lww_map_state_def persist_orset_state_def persist_rga_state_def
  by (erule durable_persist_state [OF assms]; auto simp: registries_hold_def intro: table_put [OF _ assms(2)] table_other_put)+

section \<open>Outcomes of local calls\<close>

text \<open>
  \<open>local_outcome\<close>: the operation queued, under the identifier \<open>uuid\<close>, is the one delivered, or
  nothing was queued and nothing delivered. \<open>lossy\<close> admits the third outcome. The window and the log are left to \<open>remember_ops\<close>.
\<close>

definition handle_kept :: "'db sync_handle \<Rightarrow> 'db sync_handle \<Rightarrow> bool" where
  "handle_kept h h' =
     (handle_node h' = handle_node h \<and> handle_capacity h' = handle_capacity h \<and> handle_closed h' = handle_closed h
      \<and> seen_ops_window (handle_sync h') = seen_ops_window (handle_sync h) \<and> op_log (handle_sync h') = op_log (handle_sync h))"

abbreviation handle_registries :: "'db sync_handle \<Rightarrow> registries" where
  "handle_registries h \<equiv> sync_registries (handle_sync h)"

definition op_queued :: "string \<Rightarrow> 'db sync_handle \<Rightarrow> 'db sync_handle \<Rightarrow> bool" where
  "op_queued uuid h h' =
     (\<exists>x. op_id x = op_id_generate uuid \<and> op_origin x = handle_node h \<and> op_utf8 x
        \<and> length (handle_queue h) < handle_capacity h
        \<and> handle_queue h' = handle_queue h @ [x] \<and> handle_registries h' = deliver x (handle_registries h))"

definition nothing_done :: "'db sync_handle \<Rightarrow> 'db sync_handle \<Rightarrow> bool" where
  "nothing_done h h' = (handle_queue h' = handle_queue h \<and> handle_registries h' = handle_registries h)"

text \<open>An insertion installed and persisted, but never queued for the other replicas.\<close>

definition insert_unsent :: "string \<Rightarrow> 'db sync_handle \<Rightarrow> 'db sync_handle \<Rightarrow> bool" where
  "insert_unsent uuid h h' =
     (\<exists>x key parent v. op_id x = op_id_generate uuid \<and> op_origin x = handle_node h \<and> op_utf8 x
        \<and> op_kind x = RgaInsert key uuid parent v
        \<and> handle_queue h' = handle_queue h \<and> handle_registries h' = deliver x (handle_registries h))"

definition local_outcome ::
    "serde \<Rightarrow> ('db \<Rightarrow> contents) \<Rightarrow> bool \<Rightarrow> string \<Rightarrow> 'db sync_handle \<Rightarrow> ('db, 'm) host_state \<Rightarrow> int \<Rightarrow> bool" where
  "local_outcome J \<alpha> lossy uuid h s' code =
     (\<exists>h'. host_handle s' = Some h' \<and> handle_kept h h' \<and> durable J \<alpha> (handle_sync h')
        \<and> (op_queued uuid h h' \<and> 0 \<le> code \<or> nothing_done h h' \<and> code \<le> 0
           \<or> lossy \<and> insert_unsent uuid h h' \<and> code = ERR_INTERNAL))"

abbreviation host_result :: "int + int \<Rightarrow> int" where
  "host_result r \<equiv> (case r of Inl code \<Rightarrow> code | Inr code \<Rightarrow> code)"

abbreviation outcome_of ::
    "serde \<Rightarrow> ('db \<Rightarrow> contents) \<Rightarrow> bool \<Rightarrow> string \<Rightarrow> 'db sync_handle \<Rightarrow> ('db, 'm) host_state \<times> (int + int) \<Rightarrow> bool" where
  "outcome_of J \<alpha> lossy uuid h p \<equiv> local_outcome J \<alpha> lossy uuid h (fst p) (host_result (snd p))"

lemma host_call_outcome: "host_call f s = (s', code) \<Longrightarrow> outcome_of J \<alpha> lossy uuid h (f s) \<Longrightarrow> local_outcome J \<alpha> lossy uuid h s' code"
  by (auto simp: host_call_def split: prod.splits sum.splits)

lemma outcome_unchanged:
  "host_handle s = Some h \<Longrightarrow> durable J \<alpha> (handle_sync h) \<Longrightarrow> code \<le> 0 \<Longrightarrow> local_outcome J \<alpha> lossy uuid h s code"
  by (auto simp: local_outcome_def handle_kept_def nothing_done_def)

lemma durable_metrics: "durable J \<alpha> s \<Longrightarrow> durable J \<alpha> (with_metrics f s)"
  by (rule durable_cong) (simp_all add: with_metrics_def)

lemma outcome_metrics:
  "host_handle s = Some h \<Longrightarrow> durable J \<alpha> (handle_sync h) \<Longrightarrow> code \<le> 0 \<Longrightarrow>
   local_outcome J \<alpha> lossy uuid h (update_handle (update_sync (with_metrics f)) s) code"
  by (auto simp: local_outcome_def handle_kept_def nothing_done_def update_handle_def update_sync_def
      durable_metrics with_metrics_def [of _ "handle_sync h"] intro: durable_metrics [unfolded with_metrics_def])

text \<open>The prefix of a call: reading arguments, finding the handle, reserving a slot.\<close>

lemma outcome_get_memory:
  assumes "host_handle s = Some h" "durable J \<alpha> (handle_sync h)" "\<And>mem. outcome_of J \<alpha> lossy uuid h (f mem s)"
  shows "outcome_of J \<alpha> lossy uuid h (st_bind get_memory f s)"
  using assms outcome_unchanged [OF assms(1,2)]
  by (cases "host_memory s") (auto simp: st_bind_def get_memory_def host_codes)

lemma outcome_lift:
  assumes "host_handle s = Some h" "durable J \<alpha> (handle_sync h)" "\<And>e. r = Inl e \<Longrightarrow> e \<le> 0"
    "\<And>a. r = Inr a \<Longrightarrow> outcome_of J \<alpha> lossy uuid h (f a s)"
  shows "outcome_of J \<alpha> lossy uuid h (st_bind (st_lift r) f s)"
  using assms outcome_unchanged [OF assms(1,2)] by (cases r) (auto simp: st_bind_def st_lift_def)

lemma outcome_get_handle:
  assumes "host_handle s = Some h" "outcome_of J \<alpha> lossy uuid h (f h s)"
  shows "outcome_of J \<alpha> lossy uuid h (st_bind get_handle f s)"
  using assms by (simp add: st_bind_def get_handle_def)

lemma outcome_reserve:
  assumes "host_handle s = Some h" "durable J \<alpha> (handle_sync h)"
    "length (handle_queue h) < handle_capacity h \<Longrightarrow> outcome_of J \<alpha> lossy uuid h (f () s)"
  shows "outcome_of J \<alpha> lossy uuid h (st_bind (try_reserve h) f s)"
  using assms outcome_metrics [OF assms(1,2)] by (auto simp: st_bind_def try_reserve_def host_codes)

lemmas outcome_prefix = outcome_get_memory outcome_lift outcome_reserve

lemma read_errors:
  "read_value_bytes M mem ptr len = Inl e \<Longrightarrow> e \<le> 0" "read_utf8_arg M mem ptr len n = Inl e \<Longrightarrow> e \<le> 0"
  "read_validated_key M mem ptr len = Inl e \<Longrightarrow> e \<le> 0" "unix_epoch_millis clock = Inl e \<Longrightarrow> e \<le> 0"
  by (auto simp: read_value_bytes_def read_utf8_arg_def read_validated_key_def read_bytes_def unix_epoch_millis_def
      host_codes res_bind_def split: if_splits option.splits sum.splits)

lemma read_key_utf8: "read_validated_key M mem ptr len = Inr key \<Longrightarrow> utf8_valid (as_bytes key)"
  by (auto simp: read_validated_key_def read_utf8_arg_def res_bind_Inr_iff split: if_splits)

text \<open>The end of a call: persist, install, queue.\<close>

lemma outcome_commit:
  assumes s: "host_handle s = Some h" and dur: "durable J \<alpha> (handle_sync h)"
    and room: "length (handle_queue h) < handle_capacity h"
    and stored: "\<And>st' e. write (sync_store (handle_sync h)) = (st', Inl e) \<Longrightarrow>
        store_sled st' = store_sled (sync_store (handle_sync h)) \<and> \<alpha> (store_db st') = sync_view \<alpha> (handle_sync h)"
      "\<And>st'. write (sync_store (handle_sync h)) = (st', Inr ()) \<Longrightarrow>
        durable J \<alpha> ((handle_sync h)\<lparr>sync_registries := f (handle_registries h), sync_store := st'\<rparr>)"
    and x: "op_id x = op_id_generate uuid" "op_origin x = handle_node h" "op_utf8 x"
      "f (handle_registries h) = deliver x (handle_registries h)"
    and code: "0 \<le> code"
  shows "outcome_of J \<alpha> lossy uuid h (st_bind (persist_or_fail h write) (\<lambda>_. st_bind (put_registries f) (\<lambda>_. send_op x code)) s)"
proof -
  obtain st' r where w: "write (sync_store (handle_sync h)) = (st', r)" by fastforce
  show ?thesis
  proof (cases r)
    case (Inl e)
    let ?h = "update_sync (with_metrics record_sync_error \<circ> (\<lambda>y. y\<lparr>sync_store := st'\<rparr>)) h"
    have "durable J \<alpha> ((handle_sync h)\<lparr>sync_store := st'\<rparr>)"
      using stored(1) [OF w [unfolded Inl]] by (intro durable_cong [OF dur]) simp_all
    then have "durable J \<alpha> (handle_sync ?h)" by (simp add: update_sync_def durable_metrics)
    with w Inl s show ?thesis
      by (auto simp: st_bind_def persist_or_fail_def local_outcome_def handle_kept_def nothing_done_def host_codes
          update_handle_def update_sync_def with_metrics_def)
  next
    case (Inr u)
    let ?y = "(handle_sync h)\<lparr>sync_registries := f (handle_registries h), sync_store := st'\<rparr>"
    have y: "durable J \<alpha> ?y" using stored(2) w Inr by simp
    have "durable J \<alpha> (with_metrics (record_ops 1) ((handle_sync h)\<lparr>sync_store := st', sync_registries := f (handle_registries h)\<rparr>))"
      by (rule durable_metrics, rule durable_cong [OF y]) simp_all
    with w Inr s x room code show ?thesis
      by (auto simp: st_bind_def persist_or_fail_def put_registries_def send_op_def local_outcome_def handle_kept_def
          op_queued_def update_handle_def update_sync_def with_metrics_def)
  qed
qed

lemma persist_failure_unchanged:
  assumes "durable J \<alpha> y"
  shows "persist_gcounter_state J key c (sync_store y) = (st', Inl e) \<Longrightarrow>
      store_sled st' = store_sled (sync_store y) \<and> \<alpha> (store_db st') = sync_view \<alpha> y"
    and "persist_pncounter_state J key p (sync_store y) = (st', Inl e) \<Longrightarrow>
      store_sled st' = store_sled (sync_store y) \<and> \<alpha> (store_db st') = sync_view \<alpha> y"
    and "persist_lww_register_state J key r (sync_store y) = (st', Inl e) \<Longrightarrow>
      store_sled st' = store_sled (sync_store y) \<and> \<alpha> (store_db st') = sync_view \<alpha> y"
    and "persist_lww_map_state J key m (sync_store y) = (st', Inl e) \<Longrightarrow>
      store_sled st' = store_sled (sync_store y) \<and> \<alpha> (store_db st') = sync_view \<alpha> y"
    and "persist_orset_state J key t (sync_store y) = (st', Inl e) \<Longrightarrow>
      store_sled st' = store_sled (sync_store y) \<and> \<alpha> (store_db st') = sync_view \<alpha> y"
    and "persist_rga_state J key g (sync_store y) = (st', Inl e) \<Longrightarrow>
      store_sled st' = store_sled (sync_store y) \<and> \<alpha> (store_db st') = sync_view \<alpha> y"
  using assms unfolding durable_def persist_gcounter_state_def persist_pncounter_state_def persist_lww_register_state_def
    persist_lww_map_state_def persist_orset_state_def persist_rga_state_def
  by (blast dest: persist_state_outcome(1) persist_state_outcome(2) [OF _ _ refl])+

text \<open>What delivery does with the operations the calls build.\<close>

lemmas op_constructors = op_gcounter_increment_def op_pncounter_increment_def op_pncounter_decrement_def
  op_lww_register_set_def op_lww_map_set_def op_lww_map_remove_def op_orset_add_with_op_id_tag_def op_orset_remove_def
  op_rga_insert_with_op_id_def op_rga_delete_def

lemma or_new_get: "or_new d (om_get reg key) = om_get_or reg key d"
  by (simp add: or_new_def om_get_or_def)

lemmas delivered = op_constructors deliver_def op_target_def reg_update_def or_new_get gcounter_effect_def
  pncounter_effect_def lww_map_effect_def orset_effect_def rga_effect_def op_utf8_def op_id_generate_def Let_def

lemma outcome_send:
  assumes "host_handle s = Some h" "durable J \<alpha> (handle_sync h)" "length (handle_queue h) < handle_capacity h"
    "op_id x = op_id_generate uuid" "op_origin x = handle_node h" "op_utf8 x"
    "deliver x (handle_registries h) = handle_registries h" "0 \<le> code"
  shows "outcome_of J \<alpha> lossy uuid h (send_op x code s)"
  using assms durable_metrics [of J \<alpha> "handle_sync h" "record_ops 1"]
  by (auto simp: send_op_def local_outcome_def handle_kept_def op_queued_def update_handle_def update_sync_def with_metrics_def)

text \<open>A register: written when the candidate wins, and broadcast in any case.\<close>

lemma st_bind_assoc: "st_bind (st_bind m f) g = st_bind m (\<lambda>a. st_bind (f a) g)"
  by (rule ext) (auto simp: st_bind_def split: prod.splits sum.splits)

lemma outcome_register:
  fixes v :: bytes and t :: u64
  assumes s: "host_handle s = Some h" and dur: "durable J \<alpha> (handle_sync h)"
    and room: "length (handle_queue h) < handle_capacity h"
    and utf8: "utf8_valid (as_bytes key)" "utf8_valid (as_bytes uuid)"
  defines "existing \<equiv> om_get (lww_registers (handle_registries h)) key"
    and "candidate \<equiv> lww_register_new v t (handle_node h)"
  shows "outcome_of J \<alpha> lossy uuid h (st_bind (case (case existing of None \<Rightarrow> Some candidate
       | Some register \<Rightarrow> (case lww_register_merge register candidate of (r, changed) \<Rightarrow> if changed then Some r else None)) of
         None \<Rightarrow> st_lift (Inr ())
       | Some register \<Rightarrow>
           st_bind (persist_or_fail h (persist_lww_register_state J key register)) (\<lambda>_.
           put_registries (\<lambda>R. R\<lparr>lww_registers := om_insert key register (lww_registers R)\<rparr>))) (\<lambda>_.
     send_op (op_lww_register_set uuid (handle_node h) key v t) 0) s)"
proof -
  let ?x = "op_lww_register_set uuid (handle_node h) key v t"
  have x: "op_id ?x = op_id_generate uuid" "op_origin ?x = handle_node h" "op_utf8 ?x"
    using utf8 by (simp_all add: delivered)
  have put: "outcome_of J \<alpha> lossy uuid h (st_bind (st_bind (persist_or_fail h (persist_lww_register_state J key r)) (\<lambda>_.
      put_registries (\<lambda>R. R\<lparr>lww_registers := om_insert key r (lww_registers R)\<rparr>))) (\<lambda>_. send_op ?x 0) s)"
    if "deliver ?x (handle_registries h) =
        (handle_registries h)\<lparr>lww_registers := om_insert key r (lww_registers (handle_registries h))\<rparr>" for r
    unfolding st_bind_assoc using x that
    by (intro outcome_commit [OF s dur room] persist_failure_unchanged [OF dur] durable_persist [OF dur utf8(1)]) simp_all
  have del: "deliver ?x (handle_registries h) = (handle_registries h)\<lparr>lww_registers :=
      om_insert key (case existing of None \<Rightarrow> candidate | Some r \<Rightarrow> lww_register_merged_with r candidate) (lww_registers (handle_registries h))\<rparr>"
    by (simp add: delivered lww_register_effect_def existing_def candidate_def split: option.splits)
  show ?thesis
  proof (cases existing)
    case None
    with del show ?thesis by (simp add: put)
  next
    case (Some r)
    obtain r' changed where m: "lww_register_merge r candidate = (r', changed)" by fastforce
    then have m': "lww_register_merged_with r candidate = r'" by (simp add: lww_register_merged_with_def)
    show ?thesis
    proof (cases changed)
      case True
      with del Some m m' show ?thesis by (simp add: put)
    next
      case False
      then have "r' = r" using m by (simp add: lww_register_merge_def split: if_splits)
      then have "om_insert key r' (lww_registers (handle_registries h)) = lww_registers (handle_registries h)"
        using Some by (intro om_ext ext) (simp add: existing_def)
      then have "deliver ?x (handle_registries h) = handle_registries h" using del Some m' by simp
      from outcome_send [OF s dur room x this, of 0] False m Some show ?thesis by (simp add: st_bind_def st_lift_def)
    qed
  qed
qed

lemma outcome_done:
  assumes "host_handle s = Some h" "durable J \<alpha> (handle_sync h)" "code \<le> 0"
  shows "outcome_of J \<alpha> lossy uuid h (st_lift (Inl code) s)"
  using outcome_unchanged [OF assms] by (simp add: st_lift_def)

lemma outcome_if:
  assumes "b \<Longrightarrow> outcome_of J \<alpha> lossy uuid h (f s)" "\<not> b \<Longrightarrow> outcome_of J \<alpha> lossy uuid h (g s)"
  shows "outcome_of J \<alpha> lossy uuid h ((if b then f else g) s)"
  using assms by simp

lemmas host_call_defs = crdt_gcounter_inc_impl_def crdt_pncounter_inc_impl_def crdt_pncounter_dec_impl_def
  crdt_pncounter_change_impl_def crdt_lww_set_impl_def crdt_lww_map_set_impl_def crdt_lww_map_remove_impl_def
  lww_map_write_def crdt_orset_add_impl_def crdt_orset_remove_impl_def crdt_rga_delete_impl_def

lemma commit_call_outcomes:
  assumes s: "host_handle s = Some h" and dur: "durable J \<alpha> (handle_sync h)" and uuid: "utf8_valid (as_bytes uuid)"
  shows "crdt_gcounter_inc_impl M J uuid kp kl delta s = (s', code) \<Longrightarrow> local_outcome J \<alpha> lossy uuid h s' code"
    and "crdt_pncounter_inc_impl M J uuid kp kl delta s = (s', code) \<Longrightarrow> local_outcome J \<alpha> lossy uuid h s' code"
    and "crdt_pncounter_dec_impl M J uuid kp kl delta s = (s', code) \<Longrightarrow> local_outcome J \<alpha> lossy uuid h s' code"
    and "crdt_lww_set_impl M J uuid clock kp kl vp vl s = (s', code) \<Longrightarrow> local_outcome J \<alpha> lossy uuid h s' code"
    and "crdt_lww_map_set_impl M J uuid clock kp kl fp fl vp vl s = (s', code) \<Longrightarrow> local_outcome J \<alpha> lossy uuid h s' code"
    and "crdt_lww_map_remove_impl M J uuid clock kp kl fp fl s = (s', code) \<Longrightarrow> local_outcome J \<alpha> lossy uuid h s' code"
    and "crdt_orset_add_impl M J uuid kp kl fp fl s = (s', code) \<Longrightarrow> local_outcome J \<alpha> lossy uuid h s' code"
    and "crdt_orset_remove_impl M J uuid kp kl fp fl s = (s', code) \<Longrightarrow> local_outcome J \<alpha> lossy uuid h s' code"
    and "crdt_rga_delete_impl M J uuid kp kl ip il s = (s', code) \<Longrightarrow> local_outcome J \<alpha> lossy uuid h s' code"
  unfolding host_call_defs Let_def op_orset_add_with_op_id_tag_def Op.simps op_kind.case pncounter_change.case case_prod_beta
  by (elim host_call_outcome;
      intro outcome_prefix [OF s dur] outcome_get_handle [OF s] outcome_if outcome_done [OF s dur]
        outcome_register [OF s dur, unfolded case_prod_beta] outcome_commit [OF s dur];
      (erule read_errors | erule persist_failure_unchanged [OF dur] | erule durable_persist [OF dur read_key_utf8], assumption
       | simp add: delivered uuid read_key_utf8 pncounter_apply_op_def lww_map_set_def lww_map_remove_def
          orset_apply_add_def orset_remove_def rga_apply_delete_def))+

section \<open>Array insertion\<close>

lemma outcome_insert:
  fixes parent :: "string option" and v :: bytes
  assumes s: "host_handle s = Some h" and dur: "durable J \<alpha> (handle_sync h)"
    and room: "length (handle_queue h) < handle_capacity h"
    and utf8: "utf8_valid (as_bytes key)" "utf8_valid (as_bytes uuid)" and code: "0 \<le> code"
  defines "g \<equiv> fst (rga_insert uuid parent v (om_get_or (rgas (handle_registries h)) key rga_new))"
  shows "outcome_of J \<alpha> True uuid h (st_bind (persist_or_fail h (persist_rga_state J key g)) (\<lambda>_.
         st_bind (put_registries (\<lambda>R. R\<lparr>rgas := om_insert key g (rgas R)\<rparr>)) (\<lambda>_.
         st_bind (write_out M ptr bs) (\<lambda>_.
         send_op (op_rga_insert_with_op_id uuid (handle_node h) key parent v) code))) s)"
proof -
  let ?x = "op_rga_insert_with_op_id uuid (handle_node h) key parent v"
  let ?f = "\<lambda>R. R\<lparr>rgas := om_insert key g (rgas R)\<rparr>"
  let ?tail = "st_bind (persist_or_fail h (persist_rga_state J key g)) (\<lambda>_. st_bind (put_registries ?f) (\<lambda>_. send_op ?x code))"
  have x: "op_id ?x = op_id_generate uuid" "op_origin ?x = handle_node h" "op_utf8 ?x"
    "op_kind ?x = RgaInsert key uuid parent v" "?f (handle_registries h) = deliver ?x (handle_registries h)"
    using utf8 by (simp_all add: delivered g_def rga_apply_insert_def)
  have whole: "outcome_of J \<alpha> True uuid h (?tail s)"
    by (intro outcome_commit [OF s dur room] persist_failure_unchanged [OF dur] durable_persist [OF dur utf8(1)])
      (use x code in simp_all)
  obtain st' r where w: "persist_rga_state J key g (sync_store (handle_sync h)) = (st', r)" by fastforce
  show ?thesis
  proof (cases r)
    case (Inl e)
    then show ?thesis using whole w by (simp add: st_bind_def persist_or_fail_def)
  next
    case (Inr u)
    let ?y = "(handle_sync h)\<lparr>sync_store := st', sync_registries := ?f (handle_registries h)\<rparr>"
    have z: "durable J \<alpha> ((handle_sync h)\<lparr>sync_registries := ?f (handle_registries h), sync_store := st'\<rparr>)"
      by (rule durable_persist(6) [OF dur utf8(1)]) (use w Inr in simp)
    have y: "durable J \<alpha> ?y" by (rule durable_cong [OF z]) simp_all
    show ?thesis
    proof (cases "Option.bind (host_memory s) (\<lambda>m. memory_write M m ptr bs)")
      case None
      with w Inr s x y show ?thesis
        by (auto simp: st_bind_def persist_or_fail_def put_registries_def write_out_def local_outcome_def handle_kept_def
            insert_unsent_def update_handle_def update_sync_def)
    next
      case (Some m)
      with w Inr s whole show ?thesis
        by (auto simp: st_bind_def persist_or_fail_def put_registries_def write_out_def send_op_def local_outcome_def
            update_handle_def update_sync_def)
    qed
  qed
qed

lemma rga_insert_outcome:
  assumes s: "host_handle s = Some h" and dur: "durable J \<alpha> (handle_sync h)" and uuid: "utf8_valid (as_bytes uuid)"
    and run: "crdt_rga_insert_impl M J uuid kp kl pp pl vp vl op oc s = (s', code)"
  shows "local_outcome J \<alpha> True uuid h s' code"
proof -
  have x: "op_kind (op_rga_insert_with_op_id uuid n key p v) = RgaInsert key uuid p v" for n key p v
    by (simp add: op_rga_insert_with_op_id_def op_id_generate_def Let_def)
  have parent: "st_bind (if pl = 0 then st_lift (Inr None)
      else st_bind (st_lift (read_utf8_arg M mem pp pl n)) (\<lambda>p. st_lift (Inr (Some p)))) f
    = st_bind (st_lift (if pl = 0 then Inr None else res_bind (read_utf8_arg M mem pp pl n) (\<lambda>p. Inr (Some p)))) f" for mem n and f :: "string option \<Rightarrow> ('db, 'm, int) host"
    by (rule ext) (auto simp: st_bind_def st_lift_def res_bind_def split: sum.splits)
  have parent_errors: "(if pl = 0 then Inr None else res_bind (read_utf8_arg M mem pp pl n) (\<lambda>p. Inr (Some p))) = Inl e \<Longrightarrow> e \<le> 0" for mem n e
    using read_errors(2) [of M mem pp pl n] by (auto simp: res_bind_def split: if_splits sum.splits)
  show ?thesis
    by (rule host_call_outcome [OF run [unfolded crdt_rga_insert_impl_def Let_def x op_kind.case parent]];
        intro outcome_prefix [OF s dur] outcome_get_handle [OF s] outcome_if outcome_done [OF s dur] outcome_insert [OF s dur];
        (erule read_errors | erule parent_errors | simp add: uuid read_key_utf8 host_codes))
qed

text \<open>Every mutating call, by its name.\<close>

definition is_rga_insert :: "host_command \<Rightarrow> bool" where
  "is_rga_insert cmd = (case cmd of CallRgaInsert _ _ _ _ _ _ _ _ \<Rightarrow> True | _ \<Rightarrow> False)"

lemma command_outcome:
  assumes "host_handle s = Some h" "durable J \<alpha> (handle_sync h)" "utf8_valid (as_bytes uuid)"
    "host_dispatch M J uuid clock cmd s = (s', code)"
  shows "local_outcome J \<alpha> (is_rga_insert cmd) uuid h s' code"
  using assms(4) rga_insert_outcome [OF assms(1-3)] commit_call_outcomes [OF assms(1-3)]
  by (cases cmd) (auto simp: is_rga_insert_def)

section \<open>Local last-writer writes\<close>

text \<open>A local timestamp is above the one it overwrites unless that one is the largest.\<close>

lemma next_timestamp_above: "unat t < u64_max \<Longrightarrow> t < next_timestamp observed (Some t)"
proof -
  assume "unat t < u64_max"
  then have "t < saturating_add t 1" by (simp add: word_less_nat_alt)
  then show ?thesis by (simp add: next_timestamp_def less_max_iff_disj)
qed

lemma next_timestamp_full: "unat t = u64_max \<Longrightarrow> next_timestamp observed (Some t) = t"
proof -
  assume t: "unat t = u64_max"
  then have "saturating_add t 1 = t" by (simp add: word_unat_eq_iff)
  moreover have "observed \<le> t" using unat_le_u64_max [of observed] t by (simp add: word_le_nat_alt)
  ultimately show ?thesis by (simp add: next_timestamp_def max_absorb2)
qed

end
