(* ===== verification/Guest_Sdk.thy ===== *)
theory Guest_Sdk
  imports Host_Crdt
begin

text \<open>
  \<open>nx-sdk\<close>: the guest side of the CRDT calls. The return codes become \<open>NxError\<close>s, the buffers
  the host fills are parsed back, and reads retry with a doubled buffer until the answer fits.
  A call is a function from the capacity of the buffer to the code returned and the contents of
  the buffer afterwards.
\<close>

section \<open>Return codes\<close>

datatype nx_error = Internal | BufferTooSmall | NotFound | ReservedKey | SyncDisabled | UnknownCode int

definition map_unit_result :: "int \<Rightarrow> nx_error + unit" where
  "map_unit_result rc =
     (if rc = 0 then Inr ()
      else if rc = ERR_INTERNAL then Inl Internal
      else if rc = ERR_RESERVED_KEY then Inl ReservedKey
      else if rc = ERR_SYNC_DISABLED then Inl SyncDisabled
      else if rc < 0 then Inl (UnknownCode rc)
      else Inl (UnknownCode rc))"

definition map_bool_result :: "int \<Rightarrow> nx_error + bool" where
  "map_bool_result rc =
     (if rc = 0 then Inr False
      else if rc = 1 then Inr True
      else if rc = ERR_INTERNAL then Inl Internal
      else if rc = ERR_RESERVED_KEY then Inl ReservedKey
      else if rc = ERR_SYNC_DISABLED then Inl SyncDisabled
      else if rc < 0 then Inl (UnknownCode rc)
      else Inl Internal)"

section \<open>Parsing\<close>

text \<open>A parser takes the buffer and the offset and returns the value with the next offset.\<close>

definition read_u32_le :: "bytes \<Rightarrow> nat \<Rightarrow> nx_error + nat \<times> nat" where
  "read_u32_le buf offset =
     (if offset + 4 > length buf then Inl Internal
      else Inr (nat_of_le_bytes [buf ! offset, buf ! (offset + 1), buf ! (offset + 2), buf ! (offset + 3)], offset + 4))"

definition read_block :: "bytes \<Rightarrow> nat \<Rightarrow> nx_error + bytes \<times> nat" where
  "read_block buf offset =
     res_bind (read_u32_le buf offset) (\<lambda>(len, offset).
       if offset + len > length buf then Inl Internal
       else Inr (take len (drop offset buf), offset + len))"

fun parse_times :: "nat \<Rightarrow> (bytes \<Rightarrow> nat \<Rightarrow> nx_error + 'a \<times> nat) \<Rightarrow> bytes \<Rightarrow> nat \<Rightarrow> 'a list \<Rightarrow> nx_error + 'a list \<times> nat" where
  "parse_times 0 item buf offset acc = Inr (acc, offset)"
| "parse_times (Suc n) item buf offset acc =
     res_bind (item buf offset) (\<lambda>(x, offset). parse_times n item buf offset (acc @ [x]))"

definition parse_list :: "(bytes \<Rightarrow> nat \<Rightarrow> nx_error + 'a \<times> nat) \<Rightarrow> bytes \<Rightarrow> nx_error + 'a list" where
  "parse_list item buf =
     res_bind (read_u32_le buf 0) (\<lambda>(count, offset).
     res_bind (parse_times count item buf offset []) (\<lambda>(xs, offset).
       if offset \<noteq> length buf then Inl Internal else Inr xs))"

definition string_from_utf8 :: "bytes \<Rightarrow> nx_error + string" where
  "string_from_utf8 bs = (if utf8_valid bs then Inr (string_of_bytes bs) else Inl Internal)"

definition parse_values :: "bytes \<Rightarrow> nx_error + bytes list" where
  "parse_values = parse_list read_block"

definition parse_elements :: "bytes \<Rightarrow> nx_error + string list" where
  "parse_elements = parse_list (\<lambda>buf offset.
     res_bind (read_block buf offset) (\<lambda>(bs, offset).
     res_bind (string_from_utf8 bs) (\<lambda>element. Inr (element, offset))))"

definition parse_entries :: "bytes \<Rightarrow> nx_error + (string \<times> bytes) list" where
  "parse_entries = parse_list (\<lambda>buf offset.
     res_bind (read_block buf offset) (\<lambda>(bs, offset).
     res_bind (string_from_utf8 bs) (\<lambda>field.
     res_bind (read_block buf offset) (\<lambda>(v, offset). Inr ((field, v), offset)))))"

section \<open>Reading with a growing buffer\<close>

definition MAX_SDK_BUFFER :: nat where
  "MAX_SDK_BUFFER = 1024 * 1024"

text \<open>The codes the loops of \<open>crdt\<close> answer before they look at the length.\<close>

definition crdt_codes :: "int \<Rightarrow> (nx_error + 'a) option" where
  "crdt_codes n =
     (if n = ERR_INTERNAL then Some (Inl Internal)
      else if n = ERR_RESERVED_KEY then Some (Inl ReservedKey)
      else if n = ERR_SYNC_DISABLED then Some (Inl SyncDisabled)
      else None)"

text \<open>
  The loop of the calls that fill a buffer; \<open>codes\<close> are the codes a call answers first. It runs
  as long as the host asks for more room; from a positive capacity it always returns.
\<close>

partial_function (option) fetch ::
    "(int \<Rightarrow> (nx_error + 'a) option) \<Rightarrow> (nat \<Rightarrow> int \<times> bytes) \<Rightarrow> (bytes \<Rightarrow> nx_error + 'a) \<Rightarrow> nat \<Rightarrow> (nx_error + 'a) option" where
  "fetch codes call parse cap =
     (case call cap of (n, out) \<Rightarrow>
        (case codes n of
           Some r \<Rightarrow> Some r
         | None \<Rightarrow>
             if n = ERR_BUF_TOO_SMALL then
               (if cap * 2 > MAX_SDK_BUFFER then Some (Inl BufferTooSmall) else fetch codes call parse (cap * 2))
             else if n < 0 then Some (Inl (UnknownCode n))
             else Some (parse (take (nat n) out))))"

definition sdk_elements :: "(nat \<Rightarrow> int \<times> bytes) \<Rightarrow> (nx_error + string list) option" where
  "sdk_elements call = fetch crdt_codes call parse_elements 256"

definition sdk_entries :: "(nat \<Rightarrow> int \<times> bytes) \<Rightarrow> (nx_error + (string \<times> bytes) list) option" where
  "sdk_entries call = fetch crdt_codes call parse_entries 256"

definition sdk_values :: "(nat \<Rightarrow> int \<times> bytes) \<Rightarrow> (nx_error + bytes list) option" where
  "sdk_values call = fetch crdt_codes call parse_values 256"

text \<open>The identifier returned by an insertion, from a buffer of 64 bytes on.\<close>

definition sdk_insert_after :: "(nat \<Rightarrow> int \<times> bytes) \<Rightarrow> (nx_error + string) option" where
  "sdk_insert_after call = fetch crdt_codes call string_from_utf8 64"

section \<open>Round trip\<close>

lemma u32_bytes_length [simp]: "length (u32_to_le_bytes n) = 4"
  by (simp add: u32_to_le_bytes_def)

lemma four_nth:
  assumes "length bs = 4"
  shows "[bs ! 0, bs ! 1, bs ! 2, bs ! 3] = bs"
  using assms by (auto intro!: nth_equalityI simp: less_Suc_eq numeral_eq_Suc)

lemma read_u32_at:
  assumes "n < 2 ^ 32"
  shows "read_u32_le (pre @ u32_to_le_bytes n @ rest) (length pre) = Inr (n, length pre + 4)"
proof -
  let ?bs = "u32_to_le_bytes n" and ?buf = "pre @ u32_to_le_bytes n @ rest"
  have "?buf ! (length pre + i) = ?bs ! i" if "i < 4" for i using that by (simp add: nth_append)
  from this [of 0] this [of 1] this [of 2] this [of 3]
  have "[?buf ! length pre, ?buf ! (length pre + 1), ?buf ! (length pre + 2), ?buf ! (length pre + 3)] = ?bs"
    using four_nth [of ?bs] by simp
  moreover have "nat_of_le_bytes ?bs = n" using assms by (simp add: u32_to_le_bytes_def nat_of_le_bytes_le_bytes)
  ultimately show ?thesis by (simp add: read_u32_le_def)
qed

lemma read_block_at:
  assumes "length bs < 2 ^ 32"
  shows "read_block (pre @ u32_to_le_bytes (length bs) @ bs @ rest) (length pre) = Inr (bs, length pre + 4 + length bs)"
  using read_u32_at [OF assms, of pre "bs @ rest"] by (simp add: read_block_def)

text \<open>An item parser that reads back what an item encoder appended, wherever it stands.\<close>

definition parses :: "('a \<Rightarrow> bytes) \<Rightarrow> (bytes \<Rightarrow> nat \<Rightarrow> nx_error + 'a \<times> nat) \<Rightarrow> 'a \<Rightarrow> bool" where
  "parses enc item x = (\<forall>pre rest. item (pre @ enc x @ rest) (length pre) = Inr (x, length pre + length (enc x)))"

lemma parse_times_encoded:
  "\<forall>x \<in> set xs. parses enc item x \<Longrightarrow>
   parse_times (length xs) item (pre @ concat (map enc xs) @ rest) (length pre) acc
     = Inr (acc @ xs, length pre + length (concat (map enc xs)))"
proof (induction xs arbitrary: pre acc)
  case (Cons x xs)
  have "item (pre @ enc x @ concat (map enc xs) @ rest) (length pre) = Inr (x, length (pre @ enc x))"
    using Cons.prems by (simp add: parses_def)
  with Cons.IH [of "pre @ enc x" "acc @ [x]"] Cons.prems show ?case by simp
qed simp

lemma parse_list_encoded:
  assumes "length xs < 2 ^ 32" "\<forall>x \<in> set xs. parses enc item x"
  shows "parse_list item (u32_to_le_bytes (length xs) @ concat (map enc xs)) = Inr xs"
  using read_u32_at [OF assms(1), of "[]"] parse_times_encoded [OF assms(2), of "u32_to_le_bytes (length xs)" "[]" "[]"]
  by (simp add: parse_list_def)

lemma fold_encode:
  assumes "\<And>x acc. step x acc = (if ok x then Inr (acc @ enc x) else Inl e)"
  shows "fold_res step xs acc = Inr r \<longleftrightarrow> (\<forall>x \<in> set xs. ok x) \<and> r = acc @ concat (map enc xs)"
  by (induction xs arbitrary: acc) (auto simp: assms)

abbreviation block :: "bytes \<Rightarrow> bytes" where
  "block bs \<equiv> u32_to_le_bytes (length bs) @ bs"

lemma encode_bytes_list_Inr:
  "encode_bytes_list vs = Inr r \<longleftrightarrow> length vs < 2 ^ 32 \<and> (\<forall>v \<in> set vs. length v < 2 ^ 32)
     \<and> r = u32_to_le_bytes (length vs) @ concat (map block vs)"
proof -
  have "encode_item v acc = (if length v < 2 ^ 32 then Inr (acc @ block v) else Inl ERR_INTERNAL)" for v acc
    by (simp add: encode_item_def u32_try_from_def)
  from fold_encode [where step = encode_item, OF this] show ?thesis by (auto simp: encode_bytes_list_def u32_try_from_def)
qed

lemma encode_string_list_Inr:
  "encode_string_list vs = Inr r \<longleftrightarrow> length vs < 2 ^ 32 \<and> (\<forall>v \<in> set vs. length (as_bytes v) < 2 ^ 32)
     \<and> r = u32_to_le_bytes (length vs) @ concat (map (\<lambda>v. block (as_bytes v)) vs)"
proof -
  have "encode_item (as_bytes v) acc = (if length (as_bytes v) < 2 ^ 32 then Inr (acc @ block (as_bytes v)) else Inl ERR_INTERNAL)" for v acc
    by (simp add: encode_item_def u32_try_from_def)
  from fold_encode [where step = "\<lambda>v. encode_item (as_bytes v)", OF this] show ?thesis
    by (auto simp: encode_string_list_def u32_try_from_def)
qed

abbreviation entry_block :: "string \<times> bytes \<Rightarrow> bytes" where
  "entry_block e \<equiv> block (as_bytes (fst e)) @ block (snd e)"

lemma encode_entries_Inr:
  "encode_lww_map_entries es = Inr r \<longleftrightarrow> length es < 2 ^ 32
     \<and> (\<forall>e \<in> set es. length (as_bytes (fst e)) < 2 ^ 32 \<and> length (snd e) < 2 ^ 32)
     \<and> r = u32_to_le_bytes (length es) @ concat (map entry_block es)"
proof -
  have "encode_lww_map_entry e acc = (if length (as_bytes (fst e)) < 2 ^ 32 \<and> length (snd e) < 2 ^ 32
      then Inr (acc @ entry_block e) else Inl ERR_INTERNAL)" for e acc
    by (cases e) (simp add: encode_lww_map_entry_def u32_try_from_def)
  from fold_encode [where step = encode_lww_map_entry, OF this] show ?thesis
    by (auto simp: encode_lww_map_entries_def u32_try_from_def)
qed

lemma string_utf8_roundtrip: "utf8_valid (as_bytes s) \<Longrightarrow> string_from_utf8 (as_bytes s) = Inr s"
  by (simp add: string_from_utf8_def)

lemma values_roundtrip: "encode_bytes_list vs = Inr bs \<Longrightarrow> parse_values bs = Inr vs"
  using parse_list_encoded [of vs block read_block] read_block_at
  by (auto simp: encode_bytes_list_Inr parse_values_def parses_def)

lemma elements_roundtrip:
  assumes "encode_string_list ss = Inr bs" "\<forall>s \<in> set ss. utf8_valid (as_bytes s)"
  shows "parse_elements bs = Inr ss"
proof -
  let ?item = "\<lambda>buf offset. res_bind (read_block buf offset) (\<lambda>(bs, offset).
     res_bind (string_from_utf8 bs) (\<lambda>element. Inr (element, offset)))"
  have enc: "length ss < 2 ^ 32" "bs = u32_to_le_bytes (length ss) @ concat (map (\<lambda>v. block (as_bytes v)) ss)"
    "\<forall>s \<in> set ss. length (as_bytes s) < 2 ^ 32" using assms(1) unfolding encode_string_list_Inr by blast+
  have "parses (\<lambda>v. block (as_bytes v)) ?item s" if "s \<in> set ss" for s
    unfolding parses_def using read_block_at [OF enc(3) [rule_format, OF that]] assms(2) that
    by (simp add: string_utf8_roundtrip)
  then show ?thesis
    using parse_list_encoded [OF enc(1), of "\<lambda>v. block (as_bytes v)" ?item] by (simp add: parse_elements_def enc(2))
qed

lemma entries_roundtrip:
  assumes "encode_lww_map_entries es = Inr bs" "\<forall>e \<in> set es. utf8_valid (as_bytes (fst e))"
  shows "parse_entries bs = Inr es"
proof -
  let ?item = "\<lambda>buf offset. res_bind (read_block buf offset) (\<lambda>(bs, offset).
     res_bind (string_from_utf8 bs) (\<lambda>field.
     res_bind (read_block buf offset) (\<lambda>(v, offset). Inr ((field, v), offset))))"
  have enc: "length es < 2 ^ 32" "bs = u32_to_le_bytes (length es) @ concat (map entry_block es)"
    "\<forall>e \<in> set es. length (as_bytes (fst e)) < 2 ^ 32 \<and> length (snd e) < 2 ^ 32"
    using assms(1) unfolding encode_entries_Inr by blast+
  have "parses entry_block ?item e" if e: "e \<in> set es" for e
    unfolding parses_def
  proof (intro allI)
    fix pre rest
    have len: "length (as_bytes (fst e)) < 2 ^ 32" "length (snd e) < 2 ^ 32" using enc(3) e by blast+
    show "?item (pre @ entry_block e @ rest) (length pre) = Inr (e, length pre + length (entry_block e))"
      using read_block_at [OF len(1), of pre "block (snd e) @ rest"]
        read_block_at [OF len(2), of "pre @ block (as_bytes (fst e))" rest] assms(2) e
      by (simp add: string_utf8_roundtrip add.assoc)
  qed
  then show ?thesis
    using parse_list_encoded [OF enc(1), of entry_block ?item] by (simp add: parse_entries_def enc(2))
qed

section \<open>The retry loop\<close>

text \<open>What a host that answers \<open>bs\<close> does to a buffer: refuse it when it is too small.\<close>

definition answers :: "bytes \<Rightarrow> (nat \<Rightarrow> int \<times> bytes) \<Rightarrow> bool" where
  "answers bs call =
     (\<forall>cap \<le> MAX_SDK_BUFFER. if length bs > cap then fst (call cap) = ERR_BUF_TOO_SMALL
        else fst (call cap) = int (length bs) \<and> take (length bs) (snd (call cap)) = bs)"

text \<open>The codes leave a request for room and a length to the loop.\<close>

definition passes :: "(int \<Rightarrow> (nx_error + 'a) option) \<Rightarrow> bool" where
  "passes codes = (codes ERR_BUF_TOO_SMALL = None \<and> (\<forall>n \<ge> 0. codes n = None))"

lemma passes_crdt [simp]: "passes crdt_codes"
  by (simp add: passes_def crdt_codes_def host_codes)

lemma passes_length: "passes codes \<Longrightarrow> codes (int n) = None"
  by (simp add: passes_def)

lemma fetch_total: "0 < cap \<Longrightarrow> \<exists>r. fetch codes call parse cap = Some r"
proof (induction "MAX_SDK_BUFFER - cap" arbitrary: cap rule: less_induct)
  case less
  show ?case
  proof (cases "cap * 2 > MAX_SDK_BUFFER")
    case True
    then show ?thesis by (subst fetch.simps) (auto split: prod.splits option.splits)
  next
    case False
    then have "\<exists>r. fetch codes call parse (cap * 2) = Some r" using less.prems by (intro less.hyps) auto
    then show ?thesis by (subst fetch.simps) (auto split: prod.splits option.splits)
  qed
qed

lemma fetch_answers:
  assumes "answers bs call" "0 < cap" "cap \<le> MAX_SDK_BUFFER" and codes: "passes codes" and "\<exists>k. length bs \<le> cap * 2 ^ k \<and> cap * 2 ^ k \<le> MAX_SDK_BUFFER"
  shows "fetch codes call parse cap = Some (parse bs)"
proof -
  obtain k where "length bs \<le> cap * 2 ^ k" "cap * 2 ^ k \<le> MAX_SDK_BUFFER" using assms(5) by blast
  with assms(2,3) show ?thesis
  proof (induction k arbitrary: cap)
    case 0
    then have "fst (call cap) = int (length bs)" "take (length bs) (snd (call cap)) = bs"
      using assms(1) by (auto simp: answers_def)
    then show ?case by (subst fetch.simps) (use codes in \<open>auto simp: passes_def host_codes split: prod.splits\<close>)
  next
    case (Suc k)
    show ?case
    proof (cases "length bs \<le> cap")
      case True
      then have "fst (call cap) = int (length bs)" "take (length bs) (snd (call cap)) = bs"
        using assms(1) Suc.prems by (auto simp: answers_def)
      then show ?thesis by (subst fetch.simps) (use codes in \<open>auto simp: passes_def host_codes split: prod.splits\<close>)
    next
      case False
      have "cap * 2 * 1 \<le> cap * 2 * 2 ^ k" by (rule mult_le_mono2) simp
      also have "\<dots> = cap * 2 ^ Suc k" by simp
      also note Suc.prems(4)
      finally have cap: "cap * 2 \<le> MAX_SDK_BUFFER" by simp
      have "fst (call cap) = ERR_BUF_TOO_SMALL" using assms(1) Suc.prems(2) False by (simp add: answers_def)
      then have "fetch codes call parse cap = fetch codes call parse (cap * 2)"
        using cap by (subst fetch.simps) (use codes in \<open>auto simp: passes_def host_codes split: prod.splits\<close>)
      also have "\<dots> = Some (parse bs)" using Suc.prems cap by (intro Suc.IH) (simp_all add: mult.assoc)
      finally show ?thesis .
    qed
  qed
qed

lemma fetch_fits:
  assumes "answers bs call" "length bs \<le> MAX_SDK_BUFFER" "passes codes"
  shows "fetch codes call parse 256 = Some (parse bs)"
  using assms by (intro fetch_answers) (auto simp: MAX_SDK_BUFFER_def intro: exI [of _ 12])

end
