(* ===== verification/Guest_Host.thy ===== *)
theory Guest_Host
  imports Host_Outcomes Guest_Sdk
begin

text \<open>
  Guest and host together: what a guest reads through the SDK is what the registries hold, what
  a local write leaves behind, and a byte array as linear memory for the witnesses.
\<close>

section \<open>Linear memory\<close>

text \<open>Bytes written can be read back.\<close>

definition memory_ok :: "'m memory_api \<Rightarrow> bool" where
  "memory_ok M = (\<forall>m ptr bs m'. memory_write M m ptr bs = Some m' \<longrightarrow> memory_read M m' ptr (length bs) = Some bs)"

definition list_memory :: "bytes memory_api" where
  "list_memory =
     \<lparr>memory_read = (\<lambda>m ptr len. if ptr + len \<le> length m then Some (take len (drop ptr m)) else None),
      memory_write = (\<lambda>m ptr bs. if ptr + length bs \<le> length m
        then Some (take ptr m @ bs @ drop (ptr + length bs) m) else None)\<rparr>"

lemma memory_ok_list: "memory_ok list_memory"
  by (simp add: memory_ok_def list_memory_def)

text \<open>A reading call as the SDK sees it: the code, and the bytes of its buffer up to the code.\<close>

definition buffer_call ::
    "'m memory_api \<Rightarrow> nat \<Rightarrow> (nat \<Rightarrow> nat \<Rightarrow> ('db, 'm) host_state \<Rightarrow> ('db, 'm) host_state \<times> int) \<Rightarrow>
     ('db, 'm) host_state \<Rightarrow> nat \<Rightarrow> int \<times> bytes" where
  "buffer_call M out_ptr call s cap =
     (case call out_ptr cap s of (s', n) \<Rightarrow>
        (n, case host_memory s' of
              None \<Rightarrow> []
            | Some m \<Rightarrow> (case memory_read M m out_ptr (nat n) of None \<Rightarrow> [] | Some bs \<Rightarrow> bs)))"

lemma answer_outcome:
  assumes "memory_ok M" "host_memory s = Some mem" "memory_write M mem out_ptr bs \<noteq> None"
  shows "case host_call (answer M out_ptr cap bs) s of (s', n) \<Rightarrow>
    if length bs > cap then n = ERR_BUF_TOO_SMALL
    else n = int (length bs) \<and> (\<exists>m. host_memory s' = Some m \<and> memory_read M m out_ptr (length bs) = Some bs)"
  using assms
  by (auto simp: answer_def host_call_def st_lift_def st_bind_def write_out_def memory_ok_def)

lemma buffer_call_answers:
  assumes M: "memory_ok M" "host_memory s = Some mem" "memory_write M mem out_ptr bs \<noteq> None"
    and call: "\<And>cap. cap \<le> MAX_SDK_BUFFER \<Longrightarrow> call out_ptr cap s = host_call (answer M out_ptr cap bs) s"
  shows "answers bs (buffer_call M out_ptr call s)"
  unfolding answers_def
proof (intro allI impI)
  fix cap assume "cap \<le> MAX_SDK_BUFFER"
  with answer_outcome [OF M, of cap] call
  show "if length bs > cap then fst (buffer_call M out_ptr call s cap) = ERR_BUF_TOO_SMALL
    else fst (buffer_call M out_ptr call s cap) = int (length bs) \<and> take (length bs) (snd (buffer_call M out_ptr call s cap)) = bs"
    by (auto simp: buffer_call_def split: prod.splits if_splits)
qed

lemma fetch_buffer_call:
  assumes "memory_ok M" "host_memory s = Some mem" "memory_write M mem out_ptr bs \<noteq> None" "length bs \<le> MAX_SDK_BUFFER"
    "\<And>cap. cap \<le> MAX_SDK_BUFFER \<Longrightarrow> call out_ptr cap s = host_call (answer M out_ptr cap bs) s"
  shows "fetch crdt_codes (buffer_call M out_ptr call s) parse 256 = Some (parse bs)"
  by (rule fetch_fits [OF buffer_call_answers [OF assms(1-3)] assms(4) passes_crdt]) (rule assms(5))

section \<open>Reading calls\<close>

lemma st_bind_run: "m s = (s', Inr a) \<Longrightarrow> st_bind m f s = f a s'"
  by (simp add: st_bind_def)

lemma host_call_cong: "f s = g s \<Longrightarrow> host_call f s = host_call g s"
  by (simp add: host_call_def)

lemma reading_calls:
  assumes "host_memory s = Some mem" "host_handle s = Some h" "read_validated_key M mem kp kl = Inr key"
    "cap \<le> MAX_SDK_BUFFER"
  shows "encode_string_list (get_orset_elements (handle_registries h) key) = Inr bs \<Longrightarrow>
      crdt_orset_elements_impl M kp kl out_ptr cap s = host_call (answer M out_ptr cap bs) s"
    and "encode_lww_map_entries (get_lww_map_entries (handle_registries h) key) = Inr bs \<Longrightarrow>
      crdt_lww_map_entries_impl M kp kl out_ptr cap s = host_call (answer M out_ptr cap bs) s"
    and "get_rga_values (handle_registries h) key = Some vs \<Longrightarrow> encode_bytes_list vs = Inr bs \<Longrightarrow>
      crdt_rga_values_impl M kp kl out_ptr cap s = host_call (answer M out_ptr cap bs) s"
  using assms
  by (auto simp: crdt_orset_elements_impl_def crdt_lww_map_entries_impl_def crdt_rga_values_impl_def st_bind_run get_memory_def
      get_handle_def st_lift_def MAX_OUT_CAP_def MAX_SDK_BUFFER_def intro!: host_call_cong)

text \<open>
  C12. A guest reads what the replica holds: when the encoding of the visible elements of a set,
  entries of a map or values of an array is at most a mebibyte and the guest's buffer lies in its
  memory, the SDK returns exactly that list, growing its buffer as often as needed; set elements
  and map fields are strings, hence UTF-8.
\<close>

theorem guest_reads_replica:
  assumes M: "memory_ok M" "host_memory s = Some mem" and h: "host_handle s = Some h"
    and key: "read_validated_key M mem kp kl = Inr key"
    and room: "memory_write M mem out_ptr bs \<noteq> None" "length bs \<le> MAX_SDK_BUFFER"
  defines "R \<equiv> handle_registries h"
  shows "(encode_string_list (get_orset_elements R key) = Inr bs
        \<and> (\<forall>e \<in> set (get_orset_elements R key). utf8_valid (as_bytes e)) \<longrightarrow>
      sdk_elements (buffer_call M out_ptr (crdt_orset_elements_impl M kp kl) s) = Some (Inr (get_orset_elements R key)))
    \<and> (encode_lww_map_entries (get_lww_map_entries R key) = Inr bs
        \<and> (\<forall>e \<in> set (get_lww_map_entries R key). utf8_valid (as_bytes (fst e))) \<longrightarrow>
      sdk_entries (buffer_call M out_ptr (crdt_lww_map_entries_impl M kp kl) s) = Some (Inr (get_lww_map_entries R key)))
    \<and> (get_rga_values R key = Some vs \<and> encode_bytes_list vs = Inr bs \<longrightarrow>
      sdk_values (buffer_call M out_ptr (crdt_rga_values_impl M kp kl) s) = Some (Inr vs))"
proof -
  note calls = reading_calls [OF M(2) h key] and fits = fetch_buffer_call [OF M room]
  show ?thesis
    unfolding sdk_elements_def sdk_entries_def sdk_values_def R_def
    by (intro conjI impI; elim conjE; subst fits; simp add: calls elements_roundtrip entries_roundtrip values_roundtrip)
qed

text \<open>
  The retry loop of the SDK ends: from any positive buffer size it returns after finitely many
  calls whatever the host answers; a host that always asks for more room makes it give up with
  \<open>BufferTooSmall\<close>, and a unit result is an error exactly for a nonzero code.
\<close>

theorem sdk_retry_terminates:
  assumes "0 < cap" "passes codes"
  shows "(\<exists>r. fetch codes call parse cap = Some r)
    \<and> ((\<forall>n. fst (call n) = ERR_BUF_TOO_SMALL) \<longrightarrow> fetch codes call parse cap = Some (Inl BufferTooSmall))
    \<and> (map_unit_result rc = Inr () \<longleftrightarrow> rc = 0)"
proof -
  have "fetch codes call parse cap = Some (Inl BufferTooSmall)" if "\<forall>n. fst (call n) = ERR_BUF_TOO_SMALL"
    using assms(1)
  proof (induction "MAX_SDK_BUFFER - cap" arbitrary: cap rule: less_induct)
    case less
    have step: "fetch codes call parse cap = (if cap * 2 > MAX_SDK_BUFFER then Some (Inl BufferTooSmall) else fetch codes call parse (cap * 2))"
      using that [rule_format, of cap] by (subst fetch.simps) (use assms(2) in \<open>cases "call cap"; simp add: passes_def host_codes\<close>)
    show ?case
    proof (cases "cap * 2 > MAX_SDK_BUFFER")
      case False
      then have "fetch codes call parse (cap * 2) = Some (Inl BufferTooSmall)" using less.prems by (intro less.hyps) auto
      with step False show ?thesis by simp
    qed (simp add: step)
  qed
  then show ?thesis using fetch_total [OF assms(1)] by (auto simp: map_unit_result_def)
qed

theorem sdk_retry_terminates_witness:
  "fetch crdt_codes (\<lambda>_. (ERR_BUF_TOO_SMALL, [])) parse_values 256 = Some (Inl BufferTooSmall)"
  using sdk_retry_terminates [of 256 crdt_codes "\<lambda>_. (ERR_BUF_TOO_SMALL, [])" parse_values] by simp

definition sample_host :: "registries \<Rightarrow> bytes \<Rightarrow> (contents, bytes) host_state" where
  "sample_host R mem =
     \<lparr>host_memory = Some mem,
      host_handle = Some \<lparr>handle_node = NodeId ''n1'', handle_sync = (empty_replica 4 8)\<lparr>sync_registries := R\<rparr>,
        handle_queue = [], handle_capacity = 4, handle_closed = False\<rparr>\<rparr>"

definition blue_set :: registries where
  "blue_set = no_updates\<lparr>orsets := om_insert ''k'' (fst (orset_add ''blue'' ''t1'' orset_new)) om_empty\<rparr>"

definition key_memory :: bytes where
  "key_memory = as_bytes ''k'' @ replicate 40 0"

lemma key_memory_reads:
  "read_validated_key list_memory key_memory 0 1 = Inr ''k''" "read_value_bytes list_memory key_memory 0 1 = Inr (as_bytes ''k'')"
proof -
  have "memory_read list_memory key_memory 0 1 = Some (as_bytes ''k'')" "utf8_valid (as_bytes ''k'')"
    by (simp_all add: list_memory_def key_memory_def as_bytes_def)
  then show "read_validated_key list_memory key_memory 0 1 = Inr ''k''" "read_value_bytes list_memory key_memory 0 1 = Inr (as_bytes ''k'')"
    by (simp_all add: read_validated_key_def read_utf8_arg_def read_value_bytes_def read_bytes_def MAX_KEY_LEN_def MAX_VALUE_LEN_def
        RESERVED_PREFIX_def)
qed

theorem guest_reads_replica_witness:
  "sdk_elements (buffer_call list_memory 8 (crdt_orset_elements_impl list_memory 0 1) (sample_host blue_set key_memory))
   = Some (Inr [''blue''])"
proof -
  let ?s = "sample_host blue_set key_memory"
  let ?bs = "u32_to_le_bytes 1 @ u32_to_le_bytes (length ''blue'') @ as_bytes ''blue''"
  have els: "get_orset_elements blue_set ''k'' = [''blue'']" by code_simp
  have mem: "host_memory ?s = Some key_memory" by (simp add: sample_host_def)
  obtain h where h: "host_handle ?s = Some h" "handle_registries h = blue_set" by (simp add: sample_host_def)
  have room: "memory_write list_memory key_memory 8 ?bs \<noteq> None" "length ?bs \<le> MAX_SDK_BUFFER"
    by (simp_all add: list_memory_def key_memory_def MAX_SDK_BUFFER_def)
  have "encode_string_list [''blue''] = Inr ?bs" by (simp add: encode_string_list_Inr)
  moreover have "utf8_valid (as_bytes ''blue'')" by (simp add: as_bytes_def)
  ultimately show ?thesis
    using guest_reads_replica [OF memory_ok_list mem h(1) key_memory_reads(1) room] unfolding h(2) els by simp
qed

section \<open>Local register writes\<close>

lemma candidate_wins_next_timestamp:
  "candidate_wins (lww_register_new v (next_timestamp observed (Some (reg_timestamp_ms r))) w) r
   \<longleftrightarrow> unat (reg_timestamp_ms r) < u64_max \<or> node_id_as_str w > node_id_as_str (reg_writer r)"
proof (cases "unat (reg_timestamp_ms r) < u64_max")
  case True
  from next_timestamp_above [OF this, of observed] True show ?thesis by (simp add: candidate_wins_def lww_register_new_def)
next
  case False
  then have "unat (reg_timestamp_ms r) = u64_max" using unat_le_u64_max [of "reg_timestamp_ms r"] by simp
  from next_timestamp_full [OF this, of observed] False show ?thesis by (simp add: candidate_wins_def lww_register_new_def)
qed


definition register_serde :: serde where
  "register_serde = sample_serde\<lparr>lww_register_codec := table_codec [lww_register_new (as_bytes ''k'') 7 (NodeId ''n1'')]\<rparr>"


section \<open>An insertion that is never sent\<close>

definition rga_serde :: serde where
  "rga_serde = sample_serde\<lparr>rga_codec := table_codec [fst (rga_insert ''u9'' None (as_bytes ''k'') rga_new)], values_to_vec := (\<lambda>_. Inr [])\<rparr>"


end
