(* ===== verification/Host_Db.thy ===== *)
theory Host_Db
  imports Guest_Host
begin

text \<open>
  \<open>nx-core/src/host_api/db.rs\<close>: the key/value functions the runtime exports to a guest module.
  They work on the same store as the synchronisation layer, whose keys start with the reserved
  prefix; every key, prefix and cursor a guest passes is checked against it, and pages leave
  reserved keys out. So no call can touch what the registries, the window or the log rely on.
\<close>

section \<open>State and arguments\<close>

definition MAX_SCAN_LIMIT :: u32 where "MAX_SCAN_LIMIT = 1024"
definition MAX_READ_LEN :: nat where "MAX_READ_LEN = 1024 * 1024"

text \<open>The part of \<open>HostState\<close> these calls use.\<close>

record ('db, 'm) db_state =
  db_memory :: "'m option"
  db_store :: "'db store"

type_synonym ('db, 'm, 'a) dbm = "(('db, 'm) db_state, int, 'a) stm"

definition db_get_memory :: "('db, 'm, 'm) dbm" where
  "db_get_memory s = (s, case db_memory s of None \<Rightarrow> Inl ERR_INTERNAL | Some m \<Rightarrow> Inr m)"

definition db_read_bytes :: "'m memory_api \<Rightarrow> 'm \<Rightarrow> nat \<Rightarrow> nat \<Rightarrow> bytes option" where
  "db_read_bytes M mem ptr len = (if len > MAX_READ_LEN then None else memory_read M mem ptr len)"

definition reserved :: "bytes \<Rightarrow> bool" where
  "reserved key = starts_with key (as_bytes RESERVED_PREFIX)"

definition db_read_validated_key :: "'m memory_api \<Rightarrow> 'm \<Rightarrow> nat \<Rightarrow> nat \<Rightarrow> int + bytes" where
  "db_read_validated_key M mem key_ptr key_len =
     (if key_len > MAX_KEY_LEN then Inl ERR_INTERNAL
      else case db_read_bytes M mem key_ptr key_len of
             None \<Rightarrow> Inl ERR_INTERNAL
           | Some key \<Rightarrow> if reserved key then Inl ERR_RESERVED_KEY else Inr key)"

definition read_scan_cursor :: "'m memory_api \<Rightarrow> 'm \<Rightarrow> nat \<Rightarrow> nat \<Rightarrow> bytes \<Rightarrow> int + bytes option" where
  "read_scan_cursor M mem cursor_ptr cursor_len p =
     (if cursor_len = 0 then Inr None
      else if cursor_len > MAX_KEY_LEN then Inl ERR_INTERNAL
      else case db_read_bytes M mem cursor_ptr cursor_len of
             None \<Rightarrow> Inl ERR_INTERNAL
           | Some cursor \<Rightarrow>
               if reserved cursor then Inl ERR_RESERVED_KEY
               else if p \<noteq> [] \<and> \<not> starts_with cursor p then Inl ERR_INTERNAL
               else Inr (Some cursor))"

definition encode_scan_row :: "bytes \<times> bytes \<Rightarrow> bytes \<Rightarrow> int + bytes" where
  "encode_scan_row row out =
     (case row of (key, value) \<Rightarrow>
        res_bind (u32_try_from (length key)) (\<lambda>key_len.
        res_bind (u32_try_from (length value)) (\<lambda>value_len.
        Inr (out @ u32_to_le_bytes key_len @ u32_to_le_bytes value_len @ key @ value))))"

definition encode_scan_rows :: "(bytes \<times> bytes) list \<Rightarrow> int + bytes" where
  "encode_scan_rows rows =
     res_bind (u32_try_from (length rows)) (\<lambda>row_count. fold_res encode_scan_row rows (u32_to_le_bytes row_count))"

definition encode_keys :: "bytes list \<Rightarrow> int + bytes" where
  "encode_keys keys =
     res_bind (u32_try_from (length keys)) (\<lambda>key_count. fold_res encode_item keys (u32_to_le_bytes key_count))"

definition validate_page_request :: "u32 \<Rightarrow> nat \<Rightarrow> int + unit" where
  "validate_page_request limit out_cap =
     (if limit = 0 \<or> limit > MAX_SCAN_LIMIT then Inl ERR_INTERNAL
      else if out_cap > MAX_OUT_CAP then Inl ERR_INTERNAL
      else Inr ())"

section \<open>The calls\<close>

definition db_call :: "('db, 'm, int) dbm \<Rightarrow> ('db, 'm) db_state \<Rightarrow> ('db, 'm) db_state \<times> int" where
  "db_call f s = (case f s of (s', Inl code) \<Rightarrow> (s', code) | (s', Inr code) \<Rightarrow> (s', code))"

definition db_write_out :: "'m memory_api \<Rightarrow> nat \<Rightarrow> bytes \<Rightarrow> ('db, 'm, unit) dbm" where
  "db_write_out M ptr bs s =
     (case Option.bind (db_memory s) (\<lambda>m. memory_write M m ptr bs) of
        None \<Rightarrow> (s, Inl ERR_INTERNAL)
      | Some m \<Rightarrow> (s\<lparr>db_memory := Some m\<rparr>, Inr ()))"

definition db_answer :: "'m memory_api \<Rightarrow> nat \<Rightarrow> nat \<Rightarrow> bytes \<Rightarrow> ('db, 'm, int) dbm" where
  "db_answer M out_ptr out_cap bs =
     (if length bs > out_cap then st_lift (Inl ERR_BUF_TOO_SMALL)
      else st_bind (db_write_out M out_ptr bs) (\<lambda>_. st_lift (Inr (int (length bs)))))"

text \<open>A read of the store and a write to it; any store error is an internal error of the call.\<close>

definition db_reads :: "('db store \<Rightarrow> store_error + 'a) \<Rightarrow> ('db, 'm, 'a) dbm" where
  "db_reads f s = (s, case f (db_store s) of Inl _ \<Rightarrow> Inl ERR_INTERNAL | Inr a \<Rightarrow> Inr a)"

definition db_writes :: "('db store \<Rightarrow> 'db store \<times> (store_error + unit)) \<Rightarrow> ('db, 'm, int) dbm" where
  "db_writes f s =
     (case f (db_store s) of (st, r) \<Rightarrow>
        (s\<lparr>db_store := st\<rparr>, case r of Inl _ \<Rightarrow> Inl ERR_INTERNAL | Inr _ \<Rightarrow> Inr 0))"

definition db_get_impl ::
    "'m memory_api \<Rightarrow> nat \<Rightarrow> nat \<Rightarrow> nat \<Rightarrow> nat \<Rightarrow> ('db, 'm) db_state \<Rightarrow> ('db, 'm) db_state \<times> int" where
  "db_get_impl M key_ptr key_len out_ptr out_cap = db_call (
     st_bind db_get_memory (\<lambda>mem.
     if out_cap > MAX_OUT_CAP then st_lift (Inl ERR_INTERNAL) else
     st_bind (st_lift (db_read_validated_key M mem key_ptr key_len)) (\<lambda>key.
     st_bind (db_reads (\<lambda>st. store_get st key)) (\<lambda>r.
     case r of None \<Rightarrow> st_lift (Inl ERR_NOT_FOUND) | Some v \<Rightarrow> db_answer M out_ptr out_cap v))))"

definition db_set_impl ::
    "'m memory_api \<Rightarrow> nat \<Rightarrow> nat \<Rightarrow> nat \<Rightarrow> nat \<Rightarrow> ('db, 'm) db_state \<Rightarrow> ('db, 'm) db_state \<times> int" where
  "db_set_impl M key_ptr key_len val_ptr val_len = db_call (
     st_bind db_get_memory (\<lambda>mem.
     if val_len > MAX_VALUE_LEN then st_lift (Inl ERR_INTERNAL) else
     st_bind (st_lift (db_read_validated_key M mem key_ptr key_len)) (\<lambda>key.
     case db_read_bytes M mem val_ptr val_len of
       None \<Rightarrow> st_lift (Inl ERR_INTERNAL)
     | Some v \<Rightarrow> db_writes (store_set key v))))"

definition db_delete_impl ::
    "'m memory_api \<Rightarrow> nat \<Rightarrow> nat \<Rightarrow> ('db, 'm) db_state \<Rightarrow> ('db, 'm) db_state \<times> int" where
  "db_delete_impl M key_ptr key_len = db_call (
     st_bind db_get_memory (\<lambda>mem.
     st_bind (st_lift (db_read_validated_key M mem key_ptr key_len)) (\<lambda>key.
     db_writes (store_delete key))))"

definition db_exists_impl ::
    "'m memory_api \<Rightarrow> nat \<Rightarrow> nat \<Rightarrow> ('db, 'm) db_state \<Rightarrow> ('db, 'm) db_state \<times> int" where
  "db_exists_impl M key_ptr key_len = db_call (
     st_bind db_get_memory (\<lambda>mem.
     st_bind (st_lift (db_read_validated_key M mem key_ptr key_len)) (\<lambda>key.
     st_bind (db_reads (\<lambda>st. store_exists st key)) (\<lambda>b. st_lift (Inr (of_bool b))))))"

text \<open>Pages by position and by key; \<open>page\<close> and \<open>encode\<close> are those of the rows or of the keys.\<close>

definition db_page_impl ::
    "'m memory_api \<Rightarrow> ('db store \<Rightarrow> bytes \<Rightarrow> u64 \<Rightarrow> u32 \<Rightarrow> bytes option \<Rightarrow> store_error + 'r list) \<Rightarrow> ('r list \<Rightarrow> int + bytes) \<Rightarrow>
     nat \<Rightarrow> nat \<Rightarrow> u64 \<Rightarrow> u32 \<Rightarrow> nat \<Rightarrow> nat \<Rightarrow> ('db, 'm) db_state \<Rightarrow> ('db, 'm) db_state \<times> int" where
  "db_page_impl M page encode prefix_ptr prefix_len cursor limit out_ptr out_cap = db_call (
     st_bind db_get_memory (\<lambda>mem.
     st_bind (st_lift (validate_page_request limit out_cap)) (\<lambda>_.
     st_bind (st_lift (db_read_validated_key M mem prefix_ptr prefix_len)) (\<lambda>p.
     st_bind (db_reads (\<lambda>st. page st p cursor limit (Some (as_bytes RESERVED_PREFIX)))) (\<lambda>rows.
     st_bind (st_lift (encode rows)) (db_answer M out_ptr out_cap))))))"

record key_cursor_page_request =
  req_prefix_ptr :: nat
  req_prefix_len :: nat
  req_start_after_ptr :: nat
  req_start_after_len :: nat
  req_limit :: u32
  req_out_ptr :: nat
  req_out_cap :: nat

definition db_page_after_impl ::
    "'m memory_api \<Rightarrow> ('db store \<Rightarrow> bytes \<Rightarrow> bytes option \<Rightarrow> u32 \<Rightarrow> bytes option \<Rightarrow> store_error + 'r list) \<Rightarrow>
     ('r list \<Rightarrow> int + bytes) \<Rightarrow> key_cursor_page_request \<Rightarrow> ('db, 'm) db_state \<Rightarrow> ('db, 'm) db_state \<times> int" where
  "db_page_after_impl M page encode req = db_call (
     st_bind db_get_memory (\<lambda>mem.
     st_bind (st_lift (validate_page_request (req_limit req) (req_out_cap req))) (\<lambda>_.
     st_bind (st_lift (db_read_validated_key M mem (req_prefix_ptr req) (req_prefix_len req))) (\<lambda>p.
     st_bind (st_lift (read_scan_cursor M mem (req_start_after_ptr req) (req_start_after_len req) p)) (\<lambda>start_after.
     st_bind (db_reads (\<lambda>st. page st p start_after (req_limit req) (Some (as_bytes RESERVED_PREFIX)))) (\<lambda>rows.
     st_bind (st_lift (encode rows)) (db_answer M (req_out_ptr req) (req_out_cap req))))))))"

definition db_scan_impl ::
    "'m memory_api \<Rightarrow> nat \<Rightarrow> nat \<Rightarrow> u64 \<Rightarrow> u32 \<Rightarrow> nat \<Rightarrow> nat \<Rightarrow> ('db, 'm) db_state \<Rightarrow> ('db, 'm) db_state \<times> int" where
  "db_scan_impl M = db_page_impl M scan_prefix_page encode_scan_rows"

definition db_keys_impl ::
    "'m memory_api \<Rightarrow> nat \<Rightarrow> nat \<Rightarrow> u64 \<Rightarrow> u32 \<Rightarrow> nat \<Rightarrow> nat \<Rightarrow> ('db, 'm) db_state \<Rightarrow> ('db, 'm) db_state \<times> int" where
  "db_keys_impl M = db_page_impl M keys_prefix_page encode_keys"

definition db_scan_after_impl ::
    "'m memory_api \<Rightarrow> key_cursor_page_request \<Rightarrow> ('db, 'm) db_state \<Rightarrow> ('db, 'm) db_state \<times> int" where
  "db_scan_after_impl M = db_page_after_impl M scan_prefix_page_after encode_scan_rows"

definition db_keys_after_impl ::
    "'m memory_api \<Rightarrow> key_cursor_page_request \<Rightarrow> ('db, 'm) db_state \<Rightarrow> ('db, 'm) db_state \<times> int" where
  "db_keys_after_impl M = db_page_after_impl M keys_prefix_page_after encode_keys"

text \<open>The exports, with the arguments the linker passes on.\<close>

datatype db_command =
    CallDbGet nat nat nat nat
  | CallDbSet nat nat nat nat
  | CallDbExists nat nat
  | CallDbScan nat nat u64 u32 nat nat
  | CallDbKeys nat nat u64 u32 nat nat
  | CallDbScanAfter key_cursor_page_request
  | CallDbKeysAfter key_cursor_page_request
  | CallDbDelete nat nat

fun db_dispatch :: "'m memory_api \<Rightarrow> db_command \<Rightarrow> ('db, 'm) db_state \<Rightarrow> ('db, 'm) db_state \<times> int" where
  "db_dispatch M (CallDbGet kp kl out cap) = db_get_impl M kp kl out cap"
| "db_dispatch M (CallDbSet kp kl vp vl) = db_set_impl M kp kl vp vl"
| "db_dispatch M (CallDbExists kp kl) = db_exists_impl M kp kl"
| "db_dispatch M (CallDbScan pp pl cursor limit out cap) = db_scan_impl M pp pl cursor limit out cap"
| "db_dispatch M (CallDbKeys pp pl cursor limit out cap) = db_keys_impl M pp pl cursor limit out cap"
| "db_dispatch M (CallDbScanAfter req) = db_scan_after_impl M req"
| "db_dispatch M (CallDbKeysAfter req) = db_keys_after_impl M req"
| "db_dispatch M (CallDbDelete kp kl) = db_delete_impl M kp kl"

section \<open>What the calls leave of the store\<close>

text \<open>A single write that fails leaves every other key as it was.\<close>

definition sled_local :: "'db sled \<Rightarrow> ('db \<Rightarrow> contents) \<Rightarrow> bool" where
  "sled_local S \<alpha> =
     ((\<forall>db k v db' e k'. sled_insert S db k v = (db', Inl e) \<and> k' \<noteq> k \<longrightarrow> om_get (\<alpha> db') k' = om_get (\<alpha> db) k')
      \<and> (\<forall>db k db' e k'. sled_remove S db k = (db', Inl e) \<and> k' \<noteq> k \<longrightarrow> om_get (\<alpha> db') k' = om_get (\<alpha> db) k'))"

lemma store_writes_sled [simp]:
  "store_sled (fst (store_set k v st)) = store_sled st" "store_sled (fst (store_delete k st)) = store_sled st"
  by (simp_all add: store_set_cases store_delete_cases finish_write_def split: prod.splits)

lemma store_write_other:
  assumes "sled_ok (store_sled st) \<alpha>" "sled_local (store_sled st) \<alpha>" "k' \<noteq> k"
  shows "om_get (\<alpha> (store_db (fst (store_set k v st)))) k' = om_get (\<alpha> (store_db st)) k'"
    and "om_get (\<alpha> (store_db (fst (store_delete k st)))) k' = om_get (\<alpha> (store_db st)) k'"
proof -
  obtain db r where w: "sled_insert (store_sled st) (store_db st) k v = (db, r)" by fastforce
  have "om_get (\<alpha> db) k' = om_get (\<alpha> (store_db st)) k'"
    using assms w by (cases r) (auto simp: sled_local_def dest: sled_okD(3))
  with w show "om_get (\<alpha> (store_db (fst (store_set k v st)))) k' = om_get (\<alpha> (store_db st)) k'"
    by (simp add: store_set_cases finish_write_def)
  obtain db r where w: "sled_remove (store_sled st) (store_db st) k = (db, r)" by fastforce
  have "om_get (\<alpha> db) k' = om_get (\<alpha> (store_db st)) k'"
    using assms w by (cases r) (auto simp: sled_local_def dest: sled_okD(4))
  with w show "om_get (\<alpha> (store_db (fst (store_delete k st)))) k' = om_get (\<alpha> (store_db st)) k'"
    by (simp add: store_delete_cases finish_write_def)
qed

text \<open>The store after a run: as before, or after one write of a key that is not reserved.\<close>

definition guest_write :: "'db store \<Rightarrow> 'db store \<Rightarrow> bool" where
  "guest_write st st' =
     (st' = st \<or> (\<exists>k v. \<not> reserved k \<and> (st' = fst (store_set k v st) \<or> st' = fst (store_delete k st))))"

definition writes_guest_keys :: "('db, 'm, 'a) dbm \<Rightarrow> bool" where
  "writes_guest_keys f = (\<forall>s. guest_write (db_store s) (db_store (fst (f s))))"

definition reads_only :: "('db, 'm, 'a) dbm \<Rightarrow> bool" where
  "reads_only f = (\<forall>s. db_store (fst (f s)) = db_store s)"

lemma reads_only_writes: "reads_only f \<Longrightarrow> writes_guest_keys f"
  by (simp add: reads_only_def writes_guest_keys_def guest_write_def)

lemma reads_only_basic [simp]:
  "reads_only db_get_memory" "reads_only (st_lift r)" "reads_only (db_reads f)" "reads_only (db_write_out M ptr bs)"
  by (auto simp: reads_only_def db_get_memory_def st_lift_def db_reads_def db_write_out_def split: option.splits)

lemma reads_only_bind: "reads_only f \<Longrightarrow> (\<And>a. reads_only (g a)) \<Longrightarrow> reads_only (st_bind f g)"
  by (auto simp: reads_only_def st_bind_def split: prod.splits sum.splits) (metis fst_conv)+

lemma reads_only_answer [simp]: "reads_only (db_answer M out_ptr out_cap bs)"
  by (simp add: db_answer_def reads_only_bind)

lemma writes_bind: "reads_only f \<Longrightarrow> (\<And>a s s'. f s = (s', Inr a) \<Longrightarrow> writes_guest_keys (g a)) \<Longrightarrow> writes_guest_keys (st_bind f g)"
  unfolding writes_guest_keys_def reads_only_def st_bind_def
  by (clarsimp split: prod.splits sum.splits) (metis fst_conv guest_write_def)

lemma read_key_not_reserved: "db_read_validated_key M mem ptr len = Inr key \<Longrightarrow> \<not> reserved key"
  by (auto simp: db_read_validated_key_def split: if_splits option.splits)

lemma writes_db_writes:
  "\<not> reserved key \<Longrightarrow> writes_guest_keys (db_writes (store_set key v))"
  "\<not> reserved key \<Longrightarrow> writes_guest_keys (db_writes (store_delete key))"
  by (auto simp: writes_guest_keys_def db_writes_def guest_write_def split: prod.splits) (metis fst_conv)+

lemma writes_key:
  "(\<And>key. \<not> reserved key \<Longrightarrow> writes_guest_keys (f key)) \<Longrightarrow>
   writes_guest_keys (st_bind (st_lift (db_read_validated_key M mem ptr len)) f)"
  by (rule writes_bind) (auto simp: st_lift_def dest: read_key_not_reserved)

lemma writes_split:
  "(b \<Longrightarrow> writes_guest_keys f) \<Longrightarrow> (\<not> b \<Longrightarrow> writes_guest_keys g) \<Longrightarrow> writes_guest_keys (if b then f else g)"
  "writes_guest_keys f \<Longrightarrow> (\<And>x. writes_guest_keys (h x)) \<Longrightarrow> writes_guest_keys (case r of None \<Rightarrow> f | Some x \<Rightarrow> h x)"
  by (auto split: option.splits)

lemmas writes_steps = writes_key writes_split writes_db_writes writes_bind [OF reads_only_basic(1)]
  writes_bind [OF reads_only_basic(2)] writes_bind [OF reads_only_basic(3)]
  reads_only_writes [OF reads_only_basic(2)] reads_only_writes [OF reads_only_answer]

definition guest_call :: "(('db, 'm) db_state \<Rightarrow> ('db, 'm) db_state \<times> int) \<Rightarrow> bool" where
  "guest_call f = (\<forall>s. guest_write (db_store s) (db_store (fst (f s))))"

lemma guest_call_db: "writes_guest_keys f \<Longrightarrow> guest_call (db_call f)"
  by (auto simp: guest_call_def db_call_def writes_guest_keys_def split: prod.splits sum.splits) (metis fst_conv)+

lemma guest_call_page: "guest_call (db_page_impl M page encode pp pl cursor limit out cap)"
  "guest_call (db_page_after_impl M page_after encode req)"
  unfolding db_page_impl_def db_page_after_impl_def by (intro guest_call_db writes_steps; assumption)+

lemma db_dispatch_store: "guest_call (db_dispatch M cmd)"
  by (cases cmd; simp add: db_scan_impl_def db_keys_impl_def db_scan_after_impl_def db_keys_after_impl_def guest_call_page
      db_get_impl_def db_set_impl_def db_delete_impl_def db_exists_impl_def del: One_nat_def;
    intro guest_call_db writes_steps; assumption)

section \<open>Isolation\<close>

lemma tables_reserved:
  assumes "p \<in> set table_prefixes" "starts_with k (as_bytes p)"
  shows "reserved k"
proof -
  have "starts_with (as_bytes p) (as_bytes RESERVED_PREFIX)"
    using assms(1) by (auto simp: table_prefixes_def RESERVED_PREFIX_def as_bytes_def store_prefix_defs)
  with assms(2) show ?thesis
    unfolding reserved_def starts_with_def by (metis length_take min.absorb_iff1 take_take min.absorb2 nat_le_linear)
qed

lemma guest_write_reserved:
  assumes "guest_write st st'" "sled_ok (store_sled st) \<alpha>" "sled_local (store_sled st) \<alpha>" "reserved k"
  shows "om_get (\<alpha> (store_db st')) k = om_get (\<alpha> (store_db st)) k" "store_sled st' = store_sled st"
  using assms(1,4) store_write_other [OF assms(2,3)] unfolding guest_write_def by (metis, metis store_writes_sled)

lemma durable_same:
  assumes "durable J \<alpha> s" "store_sled st' = store_sled (sync_store s)" "same_tables (sync_view \<alpha> s) (\<alpha> (store_db st'))"
  shows "durable J \<alpha> (s\<lparr>sync_store := st'\<rparr>)"
proof -
  have "SEEN_OP_STORE_PREFIX \<in> set table_prefixes" "OP_LOG_STORE_PREFIX \<in> set table_prefixes"
    by (simp_all add: table_prefixes_def)
  note same = registries_hold_same [OF assms(3)] numbered_holds_same [OF assms(3) this(1)] numbered_holds_same [OF assms(3) this(2)]
  show ?thesis
    using assms(1,2) same unfolding durable_def window_durable_def log_durable_def
    by (auto simp: sync_wf_def log_in_window_def) blast+
qed

text \<open>
  C13. Guest writes are isolated from replication: whatever key/value call a guest makes, every
  key under the reserved prefix keeps its value, and a durable replica on the same store stays
  durable, also when the write fails in the store.
\<close>

theorem db_calls_keep_replica:
  assumes "durable J \<alpha> y" "sync_store y = db_store s" "sled_local (store_sled (db_store s)) \<alpha>"
    and "db_dispatch M cmd s = (s', code)"
  shows "durable J \<alpha> (y\<lparr>sync_store := db_store s'\<rparr>)
    \<and> (\<forall>k. reserved k \<longrightarrow> om_get (\<alpha> (store_db (db_store s'))) k = om_get (\<alpha> (store_db (db_store s))) k)"
proof -
  have ok: "sled_ok (store_sled (db_store s)) \<alpha>" using assms(1,2) by (simp add: durable_def)
  have w: "guest_write (db_store s) (db_store s')"
    using db_dispatch_store [of M cmd] assms(4) by (metis fst_conv guest_call_def)
  note kept = guest_write_reserved [OF w ok assms(3)]
  have sled: "store_sled (db_store s') = store_sled (sync_store y)"
    using w assms(2) by (auto simp: guest_write_def)
  have "same_tables (sync_view \<alpha> y) (\<alpha> (store_db (db_store s')))"
    unfolding same_tables_def assms(2) using kept(1) tables_reserved by blast
  from durable_same [OF assms(1) sled this] kept(1) show ?thesis by blast
qed

lemma sled_local_mem: "sled_local mem_sled id"
  by (simp add: sled_local_def mem_sled_def)

text \<open>A guest's memory with a key at 0 and a value at 1, over an empty store.\<close>

definition sample_db :: "contents store \<Rightarrow> (contents, bytes) db_state" where
  "sample_db st = \<lparr>db_memory = Some key_memory, db_store = st\<rparr>"

theorem db_calls_keep_replica_witness:
  "durable sample_serde id ((empty_replica 4 8)\<lparr>sync_store :=
     db_store (fst (db_dispatch list_memory (CallDbSet 0 1 1 1) (sample_db (mem_store om_empty))))\<rparr>)"
proof -
  have st: "sync_store (empty_replica 4 8) = db_store (sample_db (mem_store om_empty))"
    by (simp add: empty_replica_def sample_db_def)
  have "sled_local (store_sled (db_store (sample_db (mem_store om_empty)))) id"
    by (simp add: sample_db_def mem_store_def sled_local_mem)
  from db_calls_keep_replica [OF durable_empty st this surjective_pairing] show ?thesis by blast
qed

section \<open>The calls refine a map\<close>

lemma key_run:
  assumes "db_memory s = Some mem"
  shows "st_bind db_get_memory f s = f mem s"
  using assms by (simp add: st_bind_def db_get_memory_def)

lemma st_bind_lift: "st_bind (st_lift r) f s = (case r of Inl e \<Rightarrow> (s, Inl e) | Inr a \<Rightarrow> f a s)"
  by (simp add: st_bind_def st_lift_def split: sum.splits)

lemmas db_run = db_call_def key_run st_bind_lift st_bind_def [of "db_reads f" for f] db_reads_def db_writes_def st_lift_def host_codes



end
