(* ===== verification/Guest_Db.thy ===== *)
theory Guest_Db
  imports Host_Db
begin

text \<open>
  \<open>nx-sdk/src/db.rs\<close>: the guest side of the key/value calls. A page is fetched with a growing
  buffer and decoded; \<open>scan\<close> and \<open>keys\<close> ask for page after page, each after the last key of the
  one before, until a page is not full.
\<close>

section \<open>Results and pages\<close>

definition map_rc_unit :: "int \<Rightarrow> nx_error + unit" where
  "map_rc_unit rc =
     (if rc = 0 then Inr ()
      else if rc = ERR_INTERNAL then Inl Internal
      else if rc = ERR_RESERVED_KEY then Inl ReservedKey
      else Inl (UnknownCode rc))"

definition sdk_exists_result :: "int \<Rightarrow> nx_error + bool" where
  "sdk_exists_result rc =
     (if rc = 0 then Inr False
      else if rc = 1 then Inr True
      else if rc = ERR_INTERNAL then Inl Internal
      else if rc = ERR_RESERVED_KEY then Inl ReservedKey
      else Inl (UnknownCode rc))"

definition read_scan_row :: "bytes \<Rightarrow> nat \<Rightarrow> nx_error + (bytes \<times> bytes) \<times> nat" where
  "read_scan_row buf offset =
     res_bind (read_u32_le buf offset) (\<lambda>(key_len, offset).
     res_bind (read_u32_le buf offset) (\<lambda>(value_len, offset).
     let key_end = offset + key_len; value_end = key_end + value_len in
     if key_end > length buf \<or> value_end > length buf then Inl Internal
     else Inr ((take key_len (drop offset buf), take value_len (drop key_end buf)), value_end)))"

definition parse_scan_rows :: "bytes \<Rightarrow> nx_error + (bytes \<times> bytes) list" where
  "parse_scan_rows = parse_list read_scan_row"

definition parse_keys :: "bytes \<Rightarrow> nx_error + bytes list" where
  "parse_keys = parse_list read_block"

definition DEFAULT_SCAN_LIMIT :: u32 where
  "DEFAULT_SCAN_LIMIT = 64"

text \<open>The codes answered first; \<open>missing\<close> is the answer of \<open>get\<close> to a missing key.\<close>

definition db_codes :: "(nx_error + 'a) option \<Rightarrow> int \<Rightarrow> (nx_error + 'a) option" where
  "db_codes missing n =
     (if n = ERR_NOT_FOUND then missing
      else if n = ERR_INTERNAL then Some (Inl Internal)
      else if n = ERR_RESERVED_KEY then Some (Inl ReservedKey)
      else None)"

definition sdk_scan_page :: "(nat \<Rightarrow> int \<times> bytes) \<Rightarrow> (nx_error + (bytes \<times> bytes) list) option" where
  "sdk_scan_page call = fetch (db_codes None) call parse_scan_rows 256"

definition sdk_keys_page :: "(nat \<Rightarrow> int \<times> bytes) \<Rightarrow> (nx_error + bytes list) option" where
  "sdk_keys_page call = fetch (db_codes None) call parse_keys 256"

definition sdk_get :: "(nat \<Rightarrow> int \<times> bytes) \<Rightarrow> (nx_error + bytes option) option" where
  "sdk_get call = fetch (db_codes (Some (Inr None))) call (\<lambda>out. Inr (Some out)) 64"

text \<open>
  The loops of \<open>scan\<close> and \<open>keys\<close>. \<open>page last_key\<close> is what \<open>scan_page_after\<close> or \<open>keys_page_after\<close>
  returns, \<open>key\<close> the key of a row.
\<close>

partial_function (option) sdk_pages ::
    "('r \<Rightarrow> bytes) \<Rightarrow> (bytes option \<Rightarrow> (nx_error + 'r list) option) \<Rightarrow> bytes option \<Rightarrow> 'r list \<Rightarrow> (nx_error + 'r list) option" where
  "sdk_pages key page last_key out =
     Option.bind (page last_key) (\<lambda>r.
       case r of
         Inl e \<Rightarrow> Some (Inl e)
       | Inr rows \<Rightarrow>
           if rows = [] then Some (Inr out)
           else if length rows < unat DEFAULT_SCAN_LIMIT then Some (Inr (out @ rows))
           else sdk_pages key page (Some (key (last rows))) (out @ rows))"

definition sdk_scan :: "(bytes option \<Rightarrow> (nx_error + (bytes \<times> bytes) list) option) \<Rightarrow> (nx_error + (bytes \<times> bytes) list) option" where
  "sdk_scan page = sdk_pages fst page None []"

definition sdk_keys :: "(bytes option \<Rightarrow> (nx_error + bytes list) option) \<Rightarrow> (nx_error + bytes list) option" where
  "sdk_keys page = sdk_pages id page None []"

section \<open>Decoding\<close>

lemma passes_db [simp]: "passes (db_codes missing)"
  by (simp add: passes_def db_codes_def host_codes)

abbreviation row_block :: "bytes \<times> bytes \<Rightarrow> bytes" where
  "row_block e \<equiv> u32_to_le_bytes (length (fst e)) @ u32_to_le_bytes (length (snd e)) @ fst e @ snd e"

lemma encode_scan_rows_Inr:
  "encode_scan_rows es = Inr r \<longleftrightarrow> length es < 2 ^ 32 \<and> (\<forall>e \<in> set es. length (fst e) < 2 ^ 32 \<and> length (snd e) < 2 ^ 32)
     \<and> r = u32_to_le_bytes (length es) @ concat (map row_block es)"
proof -
  have "encode_scan_row e acc = (if length (fst e) < 2 ^ 32 \<and> length (snd e) < 2 ^ 32
      then Inr (acc @ row_block e) else Inl ERR_INTERNAL)" for e acc
    by (cases e) (simp add: encode_scan_row_def u32_try_from_def)
  from fold_encode [where step = encode_scan_row, OF this] show ?thesis
    by (auto simp: encode_scan_rows_def u32_try_from_def)
qed

lemma read_scan_row_at:
  assumes "length (fst e) < 2 ^ 32" "length (snd e) < 2 ^ 32"
  shows "read_scan_row (pre @ row_block e @ rest) (length pre) = Inr (e, length pre + length (row_block e))"
  using read_u32_at [OF assms(1), of pre "u32_to_le_bytes (length (snd e)) @ fst e @ snd e @ rest"]
    read_u32_at [OF assms(2), of "pre @ u32_to_le_bytes (length (fst e))" "fst e @ snd e @ rest"]
  by (simp add: read_scan_row_def Let_def)

lemma scan_rows_roundtrip: "encode_scan_rows es = Inr bs \<Longrightarrow> parse_scan_rows bs = Inr es"
  using parse_list_encoded [of es row_block read_scan_row] read_scan_row_at
  by (auto simp: encode_scan_rows_Inr parse_scan_rows_def parses_def)

lemma encode_keys_bytes_list: "encode_keys = encode_bytes_list"
  by (simp add: fun_eq_iff encode_keys_def encode_bytes_list_def)

lemma keys_roundtrip: "encode_keys ks = Inr bs \<Longrightarrow> parse_keys bs = Inr ks"
  using values_roundtrip by (simp add: encode_keys_bytes_list parse_keys_def parse_values_def)

section \<open>A page\<close>

text \<open>A host that answers the encoding \<open>r\<close> or a negative code.\<close>

definition honest :: "int + bytes \<Rightarrow> (nat \<Rightarrow> int \<times> bytes) \<Rightarrow> bool" where
  "honest r call =
     (\<forall>cap \<le> MAX_SDK_BUFFER. fst (call cap) < 0
        \<or> (\<exists>bs. r = Inr bs \<and> fst (call cap) = int (length bs) \<and> take (length bs) (snd (call cap)) = bs))"

lemma fetch_honest:
  assumes "honest r call" "passes codes" "\<And>n r. codes n = Some r \<Longrightarrow> \<exists>e. r = Inl e"
  shows "0 < cap \<Longrightarrow> cap \<le> MAX_SDK_BUFFER \<Longrightarrow>
    (\<exists>bs. r = Inr bs \<and> fetch codes call parse cap = Some (parse bs)) \<or> (\<exists>e. fetch codes call parse cap = Some (Inl e))"
proof (induction "MAX_SDK_BUFFER - cap" arbitrary: cap rule: less_induct)
  case less
  obtain n out where n: "call cap = (n, out)" by fastforce
  from assms(1) less.prems n have h: "n < 0 \<or> (\<exists>bs. r = Inr bs \<and> n = int (length bs) \<and> take (length bs) out = bs)"
    by (auto simp: honest_def)
  show ?case
  proof (cases "codes n")
    case (Some r)
    then show ?thesis using assms(3) n by (subst fetch.simps) (auto simp: fetch.simps)
  next
    case None
    show ?thesis
    proof (cases "n = ERR_BUF_TOO_SMALL")
      case True
      show ?thesis
      proof (cases "cap * 2 > MAX_SDK_BUFFER")
        case False
        then have "fetch codes call parse cap = fetch codes call parse (cap * 2)"
          using None True n by (subst fetch.simps) simp
        with less.hyps [of "cap * 2"] less.prems False show ?thesis by simp
      qed (use None True n in \<open>subst fetch.simps, simp add: fetch.simps\<close>)
    next
      case False
      then show ?thesis using None n h by (subst (1 2) fetch.simps) auto
    qed
  qed
qed

text \<open>What a call to \<open>db_scan_after\<close> or \<open>db_keys_after\<close> leaves in the buffer of the SDK.\<close>

definition page_call ::
    "'m memory_api \<Rightarrow> (key_cursor_page_request \<Rightarrow> ('db, 'm) db_state \<Rightarrow> ('db, 'm) db_state \<times> int) \<Rightarrow>
     ('db, 'm) db_state \<Rightarrow> key_cursor_page_request \<Rightarrow> nat \<Rightarrow> int \<times> bytes" where
  "page_call M impl s req cap =
     (case impl (req\<lparr>req_out_cap := cap\<rparr>) s of (s', n) \<Rightarrow>
        (n, case db_memory s' of
              None \<Rightarrow> []
            | Some m \<Rightarrow> (case memory_read M m (req_out_ptr req) (nat n) of None \<Rightarrow> [] | Some bs \<Rightarrow> bs)))"

text \<open>
  \<open>place start\<close> is the guest's memory with the prefix and the cursor in it, and the request that
  points to them.
\<close>

definition places :: "'m memory_api \<Rightarrow> bytes \<Rightarrow> (bytes option \<Rightarrow> 'm \<times> key_cursor_page_request) \<Rightarrow> bool" where
  "places M p place =
     (\<forall>start. case place start of (mem, req) \<Rightarrow>
        db_read_validated_key M mem (req_prefix_ptr req) (req_prefix_len req) = Inr p \<and> req_limit req = DEFAULT_SCAN_LIMIT
        \<and> (case start of
             None \<Rightarrow> req_start_after_len req = 0
           | Some a \<Rightarrow> req_start_after_len req = length a
               \<and> (length a \<le> MAX_KEY_LEN \<longrightarrow> db_read_bytes M mem (req_start_after_ptr req) (length a) = Some a)))"

definition page_at ::
    "'m memory_api \<Rightarrow> (key_cursor_page_request \<Rightarrow> ('db, 'm) db_state \<Rightarrow> ('db, 'm) db_state \<times> int) \<Rightarrow>
     (bytes option \<Rightarrow> 'm \<times> key_cursor_page_request) \<Rightarrow> 'db store \<Rightarrow> bytes option \<Rightarrow> nat \<Rightarrow> int \<times> bytes" where
  "page_at M impl place st start =
     page_call M impl \<lparr>db_memory = Some (fst (place start)), db_store = st\<rparr> (snd (place start))"

lemma page_honest:
  assumes M: "memory_ok M" and place: "places M p place" and start: "start \<noteq> Some []"
    and page: "\<And>rows. page st p start DEFAULT_SCAN_LIMIT (Some (as_bytes RESERVED_PREFIX)) = Inr rows \<Longrightarrow> rows = es"
    and encode: "\<And>e. encode es = Inl e \<Longrightarrow> e < 0"
  shows "honest (encode es) (page_at M (db_page_after_impl M page encode) place st start)"
  unfolding honest_def
proof (intro allI impI)
  fix cap assume cap: "cap \<le> MAX_SDK_BUFFER"
  obtain mem req where pl: "place start = (mem, req)" by fastforce
  have prefix: "db_read_validated_key M mem (req_prefix_ptr req) (req_prefix_len req) = Inr p" "req_limit req = DEFAULT_SCAN_LIMIT"
    "case start of None \<Rightarrow> req_start_after_len req = 0
      | Some a \<Rightarrow> req_start_after_len req = length a
          \<and> (length a \<le> MAX_KEY_LEN \<longrightarrow> db_read_bytes M mem (req_start_after_ptr req) (length a) = Some a)"
    using place [unfolded places_def, rule_format, of start] by (simp_all add: pl)
  have valid: "validate_page_request DEFAULT_SCAN_LIMIT cap = Inr ()"
    using cap by (simp add: validate_page_request_def DEFAULT_SCAN_LIMIT_def MAX_SCAN_LIMIT_def MAX_OUT_CAP_def MAX_SDK_BUFFER_def)
  let ?call = "page_at M (db_page_after_impl M page encode) place st start cap"
  have "(\<exists>e < 0. read_scan_cursor M mem (req_start_after_ptr req) (req_start_after_len req) p = Inl e)
      \<or> read_scan_cursor M mem (req_start_after_ptr req) (req_start_after_len req) p = Inr start"
    using prefix(3) start by (cases start) (auto simp: read_scan_cursor_def host_codes)
  then consider e where "read_scan_cursor M mem (req_start_after_ptr req) (req_start_after_len req) p = Inl e" "e < 0"
    | "read_scan_cursor M mem (req_start_after_ptr req) (req_start_after_len req) p = Inr start" by blast
  then show "fst ?call < 0 \<or> (\<exists>bs. encode es = Inr bs \<and> fst ?call = int (length bs) \<and> take (length bs) (snd ?call) = bs)"
  proof cases
    case 1
    with valid prefix show ?thesis by (simp add: page_at_def page_call_def pl db_page_after_impl_def db_run)
  next
    case 2
    with valid prefix M page encode show ?thesis
      by (auto simp: page_at_def page_call_def pl db_page_after_impl_def db_run db_answer_def db_write_out_def memory_ok_def
          st_bind_def [of "db_write_out M out bs" for out bs] split: sum.splits option.splits)
  qed
qed

lemma db_codes_error: "db_codes None n = Some r \<Longrightarrow> \<exists>e. r = Inl e"
  by (auto simp: db_codes_def split: if_splits)

lemma page_fetched:
  assumes honest: "honest (encode es) call" and parse: "\<And>bs. encode es = Inr bs \<Longrightarrow> parse bs = Inr es"
  shows "fetch (db_codes None) call parse 256 = Some (Inr es) \<or> (\<exists>e. fetch (db_codes None) call parse 256 = Some (Inl e))"
proof -
  have cap: "(0::nat) < 256" "256 \<le> MAX_SDK_BUFFER" by (simp_all add: MAX_SDK_BUFFER_def)
  have "(\<exists>bs. encode es = Inr bs \<and> fetch (db_codes None) call parse 256 = Some (parse bs))
      \<or> (\<exists>e. fetch (db_codes None) call parse 256 = Some (Inl e))"
    by (rule fetch_honest [OF honest passes_db]) (use cap in \<open>auto dest: db_codes_error\<close>)
  with parse show ?thesis by auto
qed

section \<open>All pages\<close>

text \<open>
  The loop over exact pages: \<open>start\<close> is nothing or the key of an entry before, and \<open>proj\<close> what a
  page lists of an entry.
\<close>

definition page_starts :: "bytes \<Rightarrow> bytes option \<Rightarrow> contents \<Rightarrow> bytes option set" where
  "page_starts p ex m = insert None ((Some \<circ> fst) ` set (page_entries p None ex m))"

lemma page_starts_None [simp]: "None \<in> page_starts p ex m"
  by (simp add: page_starts_def)

lemma pages_complete:
  fixes proj :: "bytes \<times> bytes \<Rightarrow> 'r"
  assumes page: "\<And>start. start \<noteq> Some [] \<Longrightarrow> (case start of None \<Rightarrow> True | Some a \<Rightarrow> p \<le> a) \<Longrightarrow>
      page start = Some (Inr (map proj (take (unat DEFAULT_SCAN_LIMIT) (page_entries p start ex m)))) \<or> (\<exists>e. page start = Some (Inl e))"
    and key: "\<And>e. key (proj e) = fst e"
  shows "start \<noteq> Some [] \<Longrightarrow> (case start of None \<Rightarrow> True | Some a \<Rightarrow> p \<le> a) \<Longrightarrow> start \<in> page_starts p ex m \<Longrightarrow>
    \<exists>r. sdk_pages key page start out = Some r \<and> (\<forall>rows. r = Inr rows \<longrightarrow> rows = out @ map proj (page_entries p start ex m))
      \<and> ((\<forall>start \<in> page_starts p ex m. \<forall>e. page start \<noteq> Some (Inl e)) \<longrightarrow> r = Inr (out @ map proj (page_entries p start ex m)))"
proof (induction "length (page_entries p start ex m)" arbitrary: start out rule: less_induct)
  case less
  let ?E = "page_entries p start ex m" and ?n = "unat DEFAULT_SCAN_LIMIT"
  have n: "1 < ?n" by (simp add: DEFAULT_SCAN_LIMIT_def)
  from page [OF less.prems(1,2)] show ?case
  proof
    assume pg: "page start = Some (Inr (map proj (take ?n ?E)))"
    show ?thesis
    proof (cases "length ?E < ?n")
      case True
      with pg show ?thesis by (subst sdk_pages.simps) (auto simp: sdk_pages.simps)
    next
      case False
      define a where "a = fst (last (take ?n ?E))"
      have E: "?E \<noteq> []"
      proof
        assume "?E = []"
        with False n show False by simp
      qed
      then have ne: "take ?n ?E \<noteq> []" using n by simp
      have split: "?E = take ?n ?E @ drop ?n ?E" by simp
      from page_entries_after [OF split ne] have rest: "page_entries p (Some a) ex m = drop ?n ?E" by (simp add: a_def)
      have in_E: "last (take ?n ?E) \<in> set ?E" using ne by (meson in_set_takeD last_in_set)
      then have "starts_with a p" by (auto simp: a_def page_entries_def)
      then have pa: "p \<le> a" by (rule starts_with_ge)
      have "map fst ?E ! 0 < map fst ?E ! (?n - 1)"
        by (rule sorted_wrt_nth_less [OF page_entries_sorted]) (use False n E in simp_all)
      then have "fst (?E ! 0) < fst (?E ! (?n - 1))" using False n E by (subst (asm) (1 2) nth_map) simp_all
      moreover have "a = fst (?E ! (?n - 1))" using False n unfolding a_def last_conv_nth [OF ne] by simp
      ultimately have a0: "a \<noteq> []" by auto
      have pstart: "Some a \<in> page_starts p ex m"
        using in_E by (auto simp: a_def page_starts_def page_entries_def split: option.splits)
      have step: "sdk_pages key page start out = sdk_pages key page (Some a) (out @ map proj (take ?n ?E))"
        using False n ne E pg by (subst sdk_pages.simps) (auto simp: last_map key a_def)
      have "length (page_entries p (Some a) ex m) < length ?E" using False n E by (simp add: rest)
      from less.hyps [OF this, where out = "out @ map proj (take ?n ?E)"] pa a0 pstart
      show ?thesis unfolding step rest by (simp flip: map_append)
    qed
  qed (use less.prems(3) in \<open>subst sdk_pages.simps, auto\<close>)
qed

lemma pages_exact:
  assumes "sled_ok (store_sled st) \<alpha>" "case start of None \<Rightarrow> True | Some a \<Rightarrow> p \<le> a"
  shows "scan_prefix_page_after st p start limit ex = Inr rows \<Longrightarrow> rows = take (unat limit) (page_entries p start ex (\<alpha> (store_db st)))"
    and "keys_prefix_page_after st p start limit ex = Inr ks \<Longrightarrow> ks = map fst (take (unat limit) (page_entries p start ex (\<alpha> (store_db st))))"
  using assms page_from_start_eq [OF assms(1), where proj = id] page_after_eq [OF assms(1), where proj = id]
    page_from_start_eq [OF assms(1), where proj = fst] page_after_eq [OF assms(1), where proj = fst]
  by (auto simp: scan_prefix_page_after_def keys_prefix_page_after_def split: option.splits)

lemma fold_negative:
  assumes "\<And>x acc e. step x acc = Inl e \<Longrightarrow> e < (0 :: int)"
  shows "fold_res step xs acc = Inl e \<Longrightarrow> e < 0"
  by (induction xs arbitrary: acc) (auto dest: assms simp: res_bind_def split: sum.splits)

lemma encode_negative:
  "encode_scan_rows rows = Inl e \<Longrightarrow> e < 0" "encode_keys ks = Inl e \<Longrightarrow> e < 0"
  unfolding encode_scan_rows_def encode_keys_def
  by (auto simp: res_bind_def u32_try_from_def encode_scan_row_def encode_item_def host_codes split: if_splits sum.splits prod.splits
      elim!: fold_negative [rotated])

text \<open>
  C15. A guest that lists a prefix sees the store: \<open>scan\<close> and \<open>keys\<close> of the SDK return after
  finitely many pages; a result that is not an error is exactly the entries under the prefix,
  in ascending order and without repetition, less the reserved ones; and when no page from the start or after one of these entries is
  refused (each fits a mebibyte, memory and store answer) the result is not an error.
\<close>

theorem guest_scan_complete:
  assumes ok: "sled_ok (store_sled st) \<alpha>" and M: "memory_ok M" and place: "places M p place"
  defines "all \<equiv> page_entries p None (Some (as_bytes RESERVED_PREFIX)) (\<alpha> (store_db st))"
    and "starts \<equiv> page_starts p (Some (as_bytes RESERVED_PREFIX)) (\<alpha> (store_db st))"
    and "scan_page \<equiv> \<lambda>start. sdk_scan_page (page_at M (db_scan_after_impl M) place st start)"
    and "keys_page \<equiv> \<lambda>start. sdk_keys_page (page_at M (db_keys_after_impl M) place st start)"
  shows "(\<exists>r. sdk_scan scan_page = Some r \<and> (\<forall>rows. r = Inr rows \<longrightarrow> rows = all)
        \<and> ((\<forall>start \<in> starts. \<forall>e. scan_page start \<noteq> Some (Inl e)) \<longrightarrow> r = Inr all))
    \<and> (\<exists>r. sdk_keys keys_page = Some r \<and> (\<forall>rows. r = Inr rows \<longrightarrow> rows = map fst all)
        \<and> ((\<forall>start \<in> starts. \<forall>e. keys_page start \<noteq> Some (Inl e)) \<longrightarrow> r = Inr (map fst all)))"
proof -
  let ?m = "\<alpha> (store_db st)" and ?ex = "Some (as_bytes RESERVED_PREFIX)" and ?n = "unat DEFAULT_SCAN_LIMIT"
  let ?E = "\<lambda>start. take ?n (page_entries p start ?ex ?m)"
  have neg: "encode_scan_rows rows = Inl e \<Longrightarrow> e < 0" "encode_keys ks = Inl e \<Longrightarrow> e < 0" for rows ks e
    by (simp_all add: encode_negative)
  have scan: "scan_page start = Some (Inr (map id (?E start))) \<or> (\<exists>e. scan_page start = Some (Inl e))"
    if "start \<noteq> Some []" "case start of None \<Rightarrow> True | Some a \<Rightarrow> p \<le> a" for start
    unfolding scan_page_def sdk_scan_page_def db_scan_after_impl_def list.map_id
    by (rule page_fetched [where es = "?E start" and encode = encode_scan_rows], rule page_honest [OF M place that(1)])
      (use pages_exact [OF ok that(2)] neg scan_rows_roundtrip in \<open>blast+\<close>)
  have keys: "keys_page start = Some (Inr (map fst (?E start))) \<or> (\<exists>e. keys_page start = Some (Inl e))"
    if "start \<noteq> Some []" "case start of None \<Rightarrow> True | Some a \<Rightarrow> p \<le> a" for start
    unfolding keys_page_def sdk_keys_page_def db_keys_after_impl_def
    by (rule page_fetched [where es = "map fst (?E start)" and encode = encode_keys], rule page_honest [OF M place that(1)])
      (use pages_exact [OF ok that(2)] neg keys_roundtrip in \<open>blast+\<close>)
  from pages_complete [where proj = id and key = fst and start = None and out = "[]", OF scan]
    pages_complete [where proj = fst and key = id and start = None and out = "[]", OF keys]
  show ?thesis unfolding sdk_scan_def sdk_keys_def all_def starts_def by simp
qed

definition sample_place :: "bytes option \<Rightarrow> bytes \<times> key_cursor_page_request" where
  "sample_place start =
     (let a = (case start of None \<Rightarrow> [] | Some a \<Rightarrow> a)
      in (as_bytes ''k'' @ a @ replicate 300 0,
          \<lparr>req_prefix_ptr = 0, req_prefix_len = 1, req_start_after_ptr = 1, req_start_after_len = length a,
           req_limit = DEFAULT_SCAN_LIMIT, req_out_ptr = 1 + length a, req_out_cap = 0\<rparr>))"

lemma places_sample: "places list_memory (as_bytes ''k'') sample_place"
proof -
  have "\<not> reserved (as_bytes ''k'')" by (simp add: reserved_def RESERVED_PREFIX_def as_bytes_def)
  then show ?thesis
    by (auto simp: places_def sample_place_def Let_def db_read_validated_key_def db_read_bytes_def MAX_READ_LEN_def MAX_KEY_LEN_def
        list_memory_def as_bytes_def split: option.splits)
qed

theorem guest_scan_complete_witness:
  "\<exists>r. sdk_scan (\<lambda>start. sdk_scan_page (page_at list_memory (db_scan_after_impl list_memory) sample_place
        (mem_store (om_insert (as_bytes ''k1'') [7] (om_insert (as_bytes ''j'') [8] om_empty))) start)) = Some r
     \<and> (\<forall>rows. r = Inr rows \<longrightarrow> rows = [(as_bytes ''k1'', [7])])"
proof -
  let ?m = "om_insert (as_bytes ''k1'') [7] (om_insert (as_bytes ''j'') [8] om_empty)"
  have ok: "sled_ok (store_sled (mem_store ?m)) id" by (simp add: mem_store_def mem_sled_ok)
  have "page_entries (as_bytes ''k'') None (Some (as_bytes RESERVED_PREFIX)) ?m = [(as_bytes ''k1'', [7])]" by code_simp
  then show ?thesis
    using guest_scan_complete [OF ok memory_ok_list places_sample] by (auto simp: mem_store_def)
qed

end
