(* ===== verification/Migration.thy ===== *)
theory Migration
  imports Store_Schema Sample_Replica
begin

text \<open>
  \<open>sync_manager/migration.rs\<close>: the resumable migration of a store to the current schema. A
  table without a header, or with an older one, is validated in batches; after each batch a
  checkpoint with the last key is stored, and when no record is left the header of the new
  version replaces the checkpoint. Every batch is one atomic write under the exclusive lease.

  An error carries its cause where the code keeps the text of it. \<open>serde_json::from_slice\<close> of
  the materialised values is a parameter, \<open>materialized_decoders\<close>.
\<close>

section \<open>Checkpoints and steps\<close>

definition MIGRATION_MAGIC :: bytes where
  "MIGRATION_MAGIC = as_bytes ''NXMG''"

definition CHECKPOINT_FORMAT_VERSION :: u16 where
  "CHECKPOINT_FORMAT_VERSION = 1"

definition CHECKPOINT_FIXED_LEN :: nat where
  "CHECKPOINT_FIXED_LEN = 16"

definition MIGRATION_KEY_PREFIX :: string where
  "MIGRATION_KEY_PREFIX = ''__nx/migration/''"

definition DEFAULT_MIGRATION_BATCH_SIZE :: u32 where
  "DEFAULT_MIGRATION_BATCH_SIZE = 512"

definition DEFAULT_MIGRATION_BATCH_BYTES :: nat where
  "DEFAULT_MIGRATION_BATCH_BYTES = 4 * 1024 * 1024"

text \<open>Both limits are \<open>NonZero\<close> in the code (\<open>options_nonzero\<close>).\<close>

record migration_options =
  max_records :: u32
  max_bytes :: nat

definition options_nonzero :: "migration_options \<Rightarrow> bool" where
  "options_nonzero opts = (max_records opts \<noteq> 0 \<and> max_bytes opts \<noteq> 0)"

definition migration_options_default :: migration_options where
  "migration_options_default =
     \<lparr>max_records = DEFAULT_MIGRATION_BATCH_SIZE, max_bytes = DEFAULT_MIGRATION_BATCH_BYTES\<rparr>"

datatype migration_progress =
    BatchValidated string nat
  | TableCompleted string u16 u16
  | MigrationComplete

datatype record_fault = StorageFault storage_error | OpIdMismatch string string

text \<open>\<open>UnreachableReached\<close> is the panic of \<open>unreachable!\<close>.\<close>

datatype migration_error =
    MigrationStore store_error
  | MigrationSchema schema_error
  | InvalidCheckpoint string string
  | CheckpointTableMismatch string u16
  | UnsupportedPath string u16 u16
  | InvalidRecord string bytes record_fault
  | StaleCheckpoint string
  | InvalidRegistry string string
  | BatchMemoryLimitExceeded string nat nat
  | InvalidMutation string bytes string
  | MissingDatastore string
  | UnreachableReached

record migration_checkpoint =
  checkpoint_table :: store_table
  checkpoint_from :: u16
  checkpoint_to :: u16
  last_processed_key :: "bytes option"

record record_migration =
  record_sets :: "(bytes \<times> bytes) list"
  record_deletes :: "bytes list"

definition record_unchanged :: record_migration where
  "record_unchanged = \<lparr>record_sets = [], record_deletes = []\<rparr>"

type_synonym record_migrator = "store_table \<Rightarrow> bytes \<Rightarrow> bytes \<Rightarrow> migration_error + record_migration"

record migration_step =
  step_from :: u16
  step_to :: u16
  migrate_record :: record_migrator

definition checkpoint_new :: "store_table \<Rightarrow> u16 \<Rightarrow> u16 \<Rightarrow> migration_checkpoint" where
  "checkpoint_new table from to =
     \<lparr>checkpoint_table = table, checkpoint_from = from, checkpoint_to = to, last_processed_key = None\<rparr>"

text \<open>\<open>as_deref().unwrap_or_default()\<close> on the cursor.\<close>

definition cursor_bytes :: "bytes option \<Rightarrow> bytes" where
  "cursor_bytes cursor = (case cursor of None \<Rightarrow> [] | Some k \<Rightarrow> k)"

definition checkpoint_encode :: "migration_checkpoint \<Rightarrow> migration_error + bytes" where
  "checkpoint_encode c =
     (let key = cursor_bytes (last_processed_key c)
      in if length key \<ge> 2 ^ 32
         then Inl (InvalidCheckpoint (table_name (checkpoint_table c)) ''cursor key exceeds u32'')
         else Inr (MIGRATION_MAGIC @ u16_to_be_bytes CHECKPOINT_FORMAT_VERSION
           @ u16_to_be_bytes (table_id (checkpoint_table c)) @ u16_to_be_bytes (checkpoint_from c)
           @ u16_to_be_bytes (checkpoint_to c) @ u32_to_be_bytes (of_nat (length key)) @ key))"

definition checkpoint_decode :: "store_table \<Rightarrow> bytes \<Rightarrow> migration_error + migration_checkpoint" where
  "checkpoint_decode table bs =
     (if length bs < CHECKPOINT_FIXED_LEN
      then Inl (InvalidCheckpoint (table_name table) ''checkpoint is truncated'')
      else if take 4 bs \<noteq> MIGRATION_MAGIC then Inl (InvalidCheckpoint (table_name table) ''invalid magic'')
      else if u16_from_be_bytes [bs ! 4, bs ! 5] \<noteq> CHECKPOINT_FORMAT_VERSION
      then Inl (InvalidCheckpoint (table_name table) ''unsupported checkpoint format version'')
      else let actual_table = u16_from_be_bytes [bs ! 6, bs ! 7]
           in if actual_table \<noteq> table_id table then Inl (CheckpointTableMismatch (table_name table) actual_table)
              else let from = u16_from_be_bytes [bs ! 8, bs ! 9];
                       to = u16_from_be_bytes [bs ! 10, bs ! 11];
                       key_len = unat (u32_from_be_bytes [bs ! 12, bs ! 13, bs ! 14, bs ! 15]);
                       expected_len = CHECKPOINT_FIXED_LEN + key_len
                   in if expected_len > u64_max
                      then Inl (InvalidCheckpoint (table_name table) ''cursor length overflow'')
                      else if length bs \<noteq> expected_len
                      then Inl (InvalidCheckpoint (table_name table) ''cursor length does not match checkpoint'')
                      else Inr \<lparr>checkpoint_table = table, checkpoint_from = from, checkpoint_to = to,
                             last_processed_key = (if key_len > 0 then Some (drop CHECKPOINT_FIXED_LEN bs) else None)\<rparr>)"

definition checkpoint_key :: "store_table \<Rightarrow> bytes" where
  "checkpoint_key table = as_bytes (MIGRATION_KEY_PREFIX @ table_name table)"

section \<open>Records\<close>

record materialized_decoders =
  entries_from_slice :: "bytes \<Rightarrow> string + (string \<times> bytes) list"
  strings_from_slice :: "bytes \<Rightarrow> string + string list"
  values_from_slice :: "bytes \<Rightarrow> string + bytes list"

text \<open>\<open>.map(|_| ())\<close> on a parse result.\<close>

definition parsed :: "storage_error + 'a \<Rightarrow> record_fault + unit" where
  "parsed r = res_bind (map_err StorageFault r) (\<lambda>_. Inr ())"

fun legacy_value :: "serde \<Rightarrow> materialized_decoders \<Rightarrow> store_table \<Rightarrow> bytes \<Rightarrow> bytes \<Rightarrow> record_fault + unit" where
  "legacy_value J D GCounterMaterialized key value = parsed (parse_materialized_gcounter_value value)"
| "legacy_value J D GCounterState key value = parsed (parse_durable_gcounter_state J value)"
| "legacy_value J D PNCounterMaterialized key value = parsed (parse_materialized_pncounter_value value)"
| "legacy_value J D PNCounterState key value = parsed (parse_durable_pncounter_state J value)"
| "legacy_value J D LwwRegisterMaterialized key value = Inr ()"
| "legacy_value J D LwwRegisterState key value = parsed (parse_durable_lww_register_state J value)"
| "legacy_value J D LwwMapMaterialized key value = parsed (map_err Json (entries_from_slice D value))"
| "legacy_value J D LwwMapState key value = parsed (parse_durable_lww_map_state J value)"
| "legacy_value J D ORSetMaterialized key value = parsed (map_err Json (strings_from_slice D value))"
| "legacy_value J D ORSetState key value = parsed (parse_durable_orset_state J value)"
| "legacy_value J D RgaMaterialized key value = parsed (map_err Json (values_from_slice D value))"
| "legacy_value J D RgaState key value = parsed (parse_durable_rga_state J value)"
| "legacy_value J D SeenOps key value = parsed (parse_seen_op_sequence value)"
| "legacy_value J D OpLog key value =
     res_bind (map_err StorageFault (parse_durable_op_log_value J value)) (\<lambda>(_, x).
     res_bind (map_err StorageFault (logical_key_for_prefix key (data_prefix OpLog) (table_name OpLog))) (\<lambda>key_op_id.
     if op_key x \<noteq> key_op_id then Inl (OpIdMismatch key_op_id (op_key x)) else Inr ()))"

definition migrate_legacy_record :: "serde \<Rightarrow> materialized_decoders \<Rightarrow> record_migrator" where
  "migrate_legacy_record J D table key value =
     res_bind (map_err (InvalidRecord (table_name table) key)
         (res_bind (map_err StorageFault (logical_key_for_prefix key (data_prefix table) (table_name table))) (\<lambda>_.
            legacy_value J D table key value)))
       (\<lambda>_. Inr record_unchanged)"

definition LEGACY_TO_V1 :: "serde \<Rightarrow> materialized_decoders \<Rightarrow> migration_step" where
  "LEGACY_TO_V1 J D = \<lparr>step_from = 0, step_to = 1, migrate_record = migrate_legacy_record J D\<rparr>"

fun migration_steps :: "serde \<Rightarrow> materialized_decoders \<Rightarrow> store_table \<Rightarrow> migration_step list" where
  "migration_steps J D GCounterMaterialized = [LEGACY_TO_V1 J D]"
| "migration_steps J D GCounterState = [LEGACY_TO_V1 J D]"
| "migration_steps J D PNCounterMaterialized = [LEGACY_TO_V1 J D]"
| "migration_steps J D PNCounterState = [LEGACY_TO_V1 J D]"
| "migration_steps J D LwwRegisterMaterialized = [LEGACY_TO_V1 J D]"
| "migration_steps J D LwwRegisterState = [LEGACY_TO_V1 J D]"
| "migration_steps J D LwwMapMaterialized = [LEGACY_TO_V1 J D]"
| "migration_steps J D LwwMapState = [LEGACY_TO_V1 J D]"
| "migration_steps J D ORSetMaterialized = [LEGACY_TO_V1 J D]"
| "migration_steps J D ORSetState = [LEGACY_TO_V1 J D]"
| "migration_steps J D RgaMaterialized = [LEGACY_TO_V1 J D]"
| "migration_steps J D RgaState = [LEGACY_TO_V1 J D]"
| "migration_steps J D SeenOps = [LEGACY_TO_V1 J D]"
| "migration_steps J D OpLog = [LEGACY_TO_V1 J D]"

text \<open>One turn of the loop over the steps, on the version expected next.\<close>

definition check_step :: "store_table \<Rightarrow> u16 \<Rightarrow> migration_step \<Rightarrow> u16 \<Rightarrow> migration_error + u16" where
  "check_step table target_version s expected_from =
     (if expected_from = target_version
      then Inl (InvalidRegistry (table_name table) ''registry contains steps beyond the current schema'')
      else if step_from s \<noteq> expected_from
      then Inl (InvalidRegistry (table_name table) ''registry contains a gap or unordered step'')
      else if unat (step_to s) \<noteq> min (unat expected_from + 1) (2 ^ 16 - 1)
      then Inl (InvalidRegistry (table_name table) ''steps must advance exactly one schema version'')
      else Inr (step_to s))"

definition validate_migration_path :: "store_table \<Rightarrow> u16 \<Rightarrow> migration_step list \<Rightarrow> migration_error + unit" where
  "validate_migration_path table target_version steps =
     res_bind (fold_res (check_step table target_version) steps 0) (\<lambda>expected_from.
       if expected_from \<noteq> target_version
       then Inl (InvalidRegistry (table_name table) ''registry does not reach the current schema'')
       else Inr ())"

definition validate_migration_registries :: "serde \<Rightarrow> materialized_decoders \<Rightarrow> migration_error + unit" where
  "validate_migration_registries J D =
     fold_res (\<lambda>table _. validate_migration_path table (current_version table) (migration_steps J D table))
       store_table_ALL ()"

definition next_migration_step ::
    "store_table \<Rightarrow> u16 \<Rightarrow> u16 \<Rightarrow> migration_step list \<Rightarrow> migration_error + migration_step" where
  "next_migration_step table from_version target_version steps =
     (case find (\<lambda>s. step_from s = from_version) steps of
        None \<Rightarrow> Inl (UnsupportedPath (table_name table) from_version target_version)
      | Some s \<Rightarrow>
          if unat (step_to s) \<noteq> min (unat from_version + 1) (2 ^ 16 - 1) \<or> step_to s > target_version
          then Inl (UnsupportedPath (table_name table) from_version target_version)
          else Inr s)"

section \<open>Batches\<close>

definition validate_mutation_key :: "store_table \<Rightarrow> bytes \<Rightarrow> migration_error + unit" where
  "validate_mutation_key table key =
     (if starts_with key (as_bytes SCHEMA_KEY_PREFIX) \<or> starts_with key (as_bytes MIGRATION_KEY_PREFIX)
      then Inl (InvalidMutation (table_name table) key ''schema and migration metadata are managed by the engine'')
      else Inr ())"

definition validate_record_mutation_key :: "store_table \<Rightarrow> bytes \<Rightarrow> bytes \<Rightarrow> migration_error + unit" where
  "validate_record_mutation_key table source_key key =
     res_bind (validate_mutation_key table key) (\<lambda>_.
       if starts_with key (as_bytes (data_prefix table)) \<and> key \<noteq> source_key
       then Inl (InvalidMutation (table_name table) key
         ''record migrations can only mutate their source key inside the source namespace'')
       else Inr ())"

text \<open>The sets and deletes of a batch with its size in bytes.\<close>

type_synonym batch_mutations = "(bytes, bytes) omap \<times> bytes oset \<times> nat"

definition collect_set :: "store_table \<Rightarrow> bytes \<Rightarrow> nat \<Rightarrow> bytes \<times> bytes \<Rightarrow> batch_mutations \<Rightarrow> migration_error + batch_mutations" where
  "collect_set table source_key limit entry acc =
     (case (entry, acc) of ((key, value), (sets, deletes, batch_bytes)) \<Rightarrow>
        res_bind (validate_record_mutation_key table source_key key) (\<lambda>_.
          if os_member deletes key \<or> om_contains_key sets key
          then Inl (InvalidMutation (table_name table) key ''duplicate or conflicting mutation'')
          else let total = batch_bytes + length key + length value
               in if total > limit then Inl (BatchMemoryLimitExceeded (table_name table) total limit)
                  else Inr (om_insert key value sets, deletes, total)))"

definition collect_delete :: "store_table \<Rightarrow> bytes \<Rightarrow> nat \<Rightarrow> bytes \<Rightarrow> batch_mutations \<Rightarrow> migration_error + batch_mutations" where
  "collect_delete table source_key limit key acc =
     (case acc of (sets, deletes, batch_bytes) \<Rightarrow>
        res_bind (validate_record_mutation_key table source_key key) (\<lambda>_.
          if om_contains_key sets key \<or> \<not> snd (os_insert key deletes)
          then Inl (InvalidMutation (table_name table) key ''duplicate or conflicting mutation'')
          else let total = batch_bytes + length key
               in if total > limit then Inl (BatchMemoryLimitExceeded (table_name table) total limit)
                  else Inr (sets, fst (os_insert key deletes), total)))"

definition collect_record_migration ::
    "store_table \<Rightarrow> bytes \<Rightarrow> record_migration \<Rightarrow> nat \<Rightarrow> batch_mutations \<Rightarrow> migration_error + batch_mutations" where
  "collect_record_migration table source_key mig limit acc =
     res_bind (fold_res (collect_set table source_key limit) (record_sets mig) acc)
       (fold_res (collect_delete table source_key limit) (record_deletes mig))"

text \<open>
  The version a table is migrated from, \<open>None\<close> when there is nothing to do.
\<close>

definition table_from_version ::
    "store_table \<Rightarrow> u16 \<Rightarrow> bytes option \<Rightarrow> bytes option \<Rightarrow> migration_error + u16 option" where
  "table_from_version table target_version checkpoint_bytes schema_bytes =
     (case schema_bytes of
        Some bs \<Rightarrow>
          res_bind (map_err MigrationSchema (header_decode table bs)) (\<lambda>header.
            if header_version header = target_version
            then (if checkpoint_bytes \<noteq> None then Inl (StaleCheckpoint (table_name table)) else Inr None)
            else if header_version header > target_version
            then res_bind (map_err MigrationSchema (validate_header table bs)) (\<lambda>_. Inl UnreachableReached)
            else Inr (Some (header_version header)))
      | None \<Rightarrow> Inr (Some 0))"

definition load_checkpoint ::
    "store_table \<Rightarrow> migration_step \<Rightarrow> bytes option \<Rightarrow> migration_error + migration_checkpoint" where
  "load_checkpoint table s checkpoint_bytes =
     res_bind (case checkpoint_bytes of
         Some bs \<Rightarrow> checkpoint_decode table bs
       | None \<Rightarrow> Inr (checkpoint_new table (step_from s) (step_to s))) (\<lambda>checkpoint.
       if checkpoint_from checkpoint \<noteq> step_from s \<or> checkpoint_to checkpoint \<noteq> step_to s
       then Inl (InvalidCheckpoint (table_name table) ''checkpoint migration path does not match registered step'')
       else Inr checkpoint)"

text \<open>Everything of a batch up to the write: the sets, the deletes and what to report.\<close>

definition plan_table_batch ::
    "store_table \<Rightarrow> migration_step \<Rightarrow> migration_checkpoint \<Rightarrow> (bytes \<times> bytes) list \<Rightarrow> nat \<Rightarrow>
     migration_error + ((bytes \<times> bytes) list \<times> bytes list) \<times> migration_progress" where
  "plan_table_batch table s checkpoint entries limit =
     (if entries = []
      then Inr (([(schema_key table, header_encode \<lparr>header_version = step_to s, header_table = table\<rparr>)],
            [checkpoint_key table]), TableCompleted (table_name table) (step_from s) (step_to s))
      else res_bind (fold_res (\<lambda>(key, value) acc.
               res_bind (migrate_record s table key value) (\<lambda>mig. collect_record_migration table key mig limit acc))
             entries (om_empty, om_empty, sum_list (map (\<lambda>(key, value). length key + length value) entries)))
        (\<lambda>(sets, deletes, _).
           res_bind (checkpoint_encode (checkpoint\<lparr>last_processed_key := Some (fst (last entries))\<rparr>)) (\<lambda>bs.
             Inr ((om_entries (om_insert (checkpoint_key table) bs sets), om_keys deletes),
               BatchValidated (table_name table) (length entries)))))"

type_synonym ('db, 'a) migrating = "('db store_write_lease, migration_error, 'a) stm"

definition migrate_table_batch ::
    "store_table \<Rightarrow> u16 \<Rightarrow> migration_step list \<Rightarrow> migration_options \<Rightarrow> ('db, migration_progress option) migrating" where
  "migrate_table_batch table target_version steps opts lease =
     (let st = lease_store lease in
        st_bind (st_lift (map_err MigrationStore (store_get st (checkpoint_key table)))) (\<lambda>checkpoint_bytes.
        st_bind (st_lift (map_err MigrationStore (store_get st (schema_key table)))) (\<lambda>schema_bytes.
        st_bind (st_lift (table_from_version table target_version checkpoint_bytes schema_bytes)) (\<lambda>from.
        case from of
          None \<Rightarrow> st_lift (Inr None)
        | Some from_version \<Rightarrow>
            st_bind (st_lift (next_migration_step table from_version target_version steps)) (\<lambda>s.
            st_bind (st_lift (load_checkpoint table s checkpoint_bytes)) (\<lambda>checkpoint.
            st_bind (st_lift (map_err MigrationStore (scan_prefix_page_after_bounded st (as_bytes (data_prefix table))
                (last_processed_key checkpoint) (max_records opts) (max_bytes opts)))) (\<lambda>entries.
            st_bind (st_lift (plan_table_batch table s checkpoint entries (max_bytes opts))) (\<lambda>((sets, deletes), progress).
            st_bind (st_map_err MigrationStore (lease_apply_batch sets deletes)) (\<lambda>_.
            st_lift (Inr (Some progress)))))))))) lease)"

text \<open>One turn of the loop over the tables before a batch.\<close>

definition preflight_checkpoint :: "serde \<Rightarrow> materialized_decoders \<Rightarrow> 'db store \<Rightarrow> store_table \<Rightarrow> migration_error + unit" where
  "preflight_checkpoint J D st table =
     res_bind (map_err MigrationStore (store_get st (checkpoint_key table))) (\<lambda>found.
       case found of
         None \<Rightarrow> Inr ()
       | Some bs \<Rightarrow>
           res_bind (checkpoint_decode table bs) (\<lambda>checkpoint.
             if (case last_processed_key checkpoint of None \<Rightarrow> False
                 | Some key \<Rightarrow> \<not> starts_with key (as_bytes (data_prefix table)))
             then Inl (InvalidCheckpoint (table_name table) ''cursor is outside the table prefix'')
             else res_bind (map_err MigrationStore (store_get st (schema_key table))) (\<lambda>schema_bytes.
               res_bind (case schema_bytes of
                   Some bs \<Rightarrow> res_bind (map_err MigrationSchema (header_decode table bs)) (\<lambda>h. Inr (header_version h))
                 | None \<Rightarrow> Inr 0) (\<lambda>schema_version.
                 if schema_version = current_version table then Inl (StaleCheckpoint (table_name table))
                 else res_bind (next_migration_step table schema_version (current_version table) (migration_steps J D table)) (\<lambda>s.
                   if checkpoint_from checkpoint \<noteq> step_from s \<or> checkpoint_to checkpoint \<noteq> step_to s
                   then Inl (InvalidCheckpoint (table_name table)
                     ''checkpoint migration path does not match registered step'')
                   else Inr ())))))"

definition preflight_checkpoints :: "serde \<Rightarrow> materialized_decoders \<Rightarrow> 'db store \<Rightarrow> migration_error + unit" where
  "preflight_checkpoints J D st = fold_res (\<lambda>table _. preflight_checkpoint J D st table) store_table_ALL ()"

fun migrate_tables ::
    "serde \<Rightarrow> materialized_decoders \<Rightarrow> migration_options \<Rightarrow> store_table list \<Rightarrow> ('db, migration_progress) migrating" where
  "migrate_tables J D opts [] = st_lift (Inr MigrationComplete)"
| "migrate_tables J D opts (table # tables) =
     st_bind (migrate_table_batch table (current_version table) (migration_steps J D table) opts) (\<lambda>progress.
       case progress of Some p \<Rightarrow> st_lift (Inr p) | None \<Rightarrow> migrate_tables J D opts tables)"

definition migrate_sync_schema_batch ::
    "serde \<Rightarrow> materialized_decoders \<Rightarrow> migration_options \<Rightarrow> ('db, migration_progress) migrating" where
  "migrate_sync_schema_batch J D opts =
     (\<lambda>lease. st_bind (st_lift (preflight_checkpoints J D (lease_store lease)))
        (\<lambda>_. migrate_tables J D opts store_table_ALL) lease)"

definition migration_new :: "serde \<Rightarrow> materialized_decoders \<Rightarrow> 'db store \<Rightarrow> migration_error + 'db store_write_lease" where
  "migration_new J D st =
     res_bind (validate_migration_registries J D) (\<lambda>_. map_err MigrationStore (acquire_write_lease st))"

text \<open>The loop of \<open>migrate_sync_schema\<close>; \<open>None\<close> would mean that it does not return.\<close>

partial_function (option) migration_loop ::
    "serde \<Rightarrow> materialized_decoders \<Rightarrow> migration_options \<Rightarrow> 'db store_write_lease \<Rightarrow>
     ('db store_write_lease \<times> (migration_error + unit)) option" where
  "migration_loop J D opts lease =
     (case migrate_sync_schema_batch J D opts lease of
        (lease', Inl e) \<Rightarrow> Some (lease', Inl e)
      | (lease', Inr progress) \<Rightarrow>
          if progress = MigrationComplete then Some (lease', Inr ()) else migration_loop J D opts lease')"

definition migrate_sync_schema ::
    "serde \<Rightarrow> materialized_decoders \<Rightarrow> migration_options \<Rightarrow> 'db store \<Rightarrow> ('db store \<times> (migration_error + unit)) option" where
  "migrate_sync_schema J D opts st =
     (case migration_new J D st of
        Inl e \<Rightarrow> Some (st, Inl e)
      | Inr lease \<Rightarrow> map_option (map_prod lease_store id) (migration_loop J D opts lease))"

text \<open>Whether the path exists and what opening it returns are arguments.\<close>

definition migrate_sync_schema_at_path ::
    "serde \<Rightarrow> materialized_decoders \<Rightarrow> migration_options \<Rightarrow> string \<Rightarrow> bool \<Rightarrow> store_error + 'db store \<Rightarrow>
     ('db store option \<times> (migration_error + unit)) option" where
  "migrate_sync_schema_at_path J D opts path path_exists opened =
     (if \<not> path_exists then Some (None, Inl (MissingDatastore path))
      else case opened of
        Inl e \<Rightarrow> Some (None, Inl (MigrationStore e))
      | Inr st \<Rightarrow>
          (case migrate_sync_schema J D opts st of
             None \<Rightarrow> None
           | Some (st', Inl e) \<Rightarrow> Some (Some st', Inl e)
           | Some (st', Inr _) \<Rightarrow> Some (map_prod Some (map_err MigrationStore) (store_flush st'))))"

section \<open>Lemmas on checkpoints\<close>

lemma checkpoint_key_inject [simp]: "checkpoint_key t = checkpoint_key u \<longleftrightarrow> t = u"
  by (simp add: checkpoint_key_def)

lemma engine_keys_apart:
  "list_all (\<lambda>t. list_all (\<lambda>u. checkpoint_key t \<noteq> schema_key u \<and> \<not> starts_with (checkpoint_key t) (as_bytes (data_prefix u))
     \<and> \<not> starts_with (schema_key t) (as_bytes (data_prefix u))) store_table_ALL) store_table_ALL"
  by code_simp

lemma engine_key [simp]:
  "checkpoint_key t \<noteq> schema_key u" "schema_key u \<noteq> checkpoint_key t"
  "\<not> starts_with (checkpoint_key t) (as_bytes (data_prefix u))"
  "\<not> starts_with (schema_key t) (as_bytes (data_prefix u))"
proof -
  have "\<forall>t u. checkpoint_key t \<noteq> schema_key u \<and> \<not> starts_with (checkpoint_key t) (as_bytes (data_prefix u))
     \<and> \<not> starts_with (schema_key t) (as_bytes (data_prefix u))"
    using engine_keys_apart by (simp add: list_all_iff)
  then show "checkpoint_key t \<noteq> schema_key u" "schema_key u \<noteq> checkpoint_key t"
    "\<not> starts_with (checkpoint_key t) (as_bytes (data_prefix u))"
    "\<not> starts_with (schema_key t) (as_bytes (data_prefix u))" by metis+
qed

lemma u16_be_list: obtains a b where "u16_to_be_bytes w = [a, b]" "u16_from_be_bytes [a, b] = w"
  by (metis length_0_conv length_Suc_conv length_to_bytes(3) numeral_2_eq_2 u16_be_bytes_roundtrip)

lemma length_4: "length xs = 4 \<Longrightarrow> \<exists>a b c d. xs = [a, b, c, d]"
  by (auto simp: numeral_eq_Suc length_Suc_conv)

lemma u32_be_list: obtains a b c d where "u32_to_be_bytes w = [a, b, c, d]" "u32_from_be_bytes [a, b, c, d] = w"
  by (metis length_4 length_to_bytes(4) u32_be_bytes_roundtrip)

lemma decode_encoded:
  assumes "checkpoint_encode c = Inr bs"
  shows "checkpoint_decode table bs =
    (if checkpoint_table c = table
     then Inr (c\<lparr>last_processed_key := (if cursor_bytes (last_processed_key c) = [] then None else last_processed_key c)\<rparr>)
     else Inl (CheckpointTableMismatch (table_name table) (table_id (checkpoint_table c))))"
proof -
  let ?key = "cursor_bytes (last_processed_key c)"
  obtain a b where v: "u16_to_be_bytes CHECKPOINT_FORMAT_VERSION = [a, b]" "u16_from_be_bytes [a, b] = CHECKPOINT_FORMAT_VERSION" by (rule u16_be_list)
  obtain d e where t: "u16_to_be_bytes (table_id (checkpoint_table c)) = [d, e]" "u16_from_be_bytes [d, e] = table_id (checkpoint_table c)" by (rule u16_be_list)
  obtain f g where f: "u16_to_be_bytes (checkpoint_from c) = [f, g]" "u16_from_be_bytes [f, g] = checkpoint_from c" by (rule u16_be_list)
  obtain h i where h: "u16_to_be_bytes (checkpoint_to c) = [h, i]" "u16_from_be_bytes [h, i] = checkpoint_to c" by (rule u16_be_list)
  obtain p q r s where n: "u32_to_be_bytes (of_nat (length ?key)) = [p, q, r, s]"
    "u32_from_be_bytes [p, q, r, s] = of_nat (length ?key)" by (rule u32_be_list)
  obtain m where m: "MIGRATION_MAGIC = m" "length m = 4" by (simp add: MIGRATION_MAGIC_def)
  then obtain m0 m1 m2 m3 where m: "MIGRATION_MAGIC = [m0, m1, m2, m3]"
    by (auto simp: numeral_eq_Suc length_Suc_conv)
  have len: "length ?key < 2 ^ 32" and bs: "bs = [m0, m1, m2, m3, a, b, d, e, f, g, h, i, p, q, r, s] @ ?key"
    using assms by (auto simp: checkpoint_encode_def Let_def v t f h n m split: if_splits)
  have "unat (of_nat (length ?key) :: u32) = length ?key" using len by (simp add: unat_of_nat)
  moreover have "CHECKPOINT_FIXED_LEN + length ?key \<le> u64_max" using len by (simp add: CHECKPOINT_FIXED_LEN_def u64_max_def)
  ultimately show ?thesis
    using v(2) t(2) f(2) h(2) n(2) m
    by (cases c) (auto simp: bs checkpoint_decode_def CHECKPOINT_FIXED_LEN_def Let_def cursor_bytes_def split: option.splits)
qed

lemma decode_is_encoded:
  assumes "checkpoint_decode table bs = Inr c"
  shows "checkpoint_encode c = Inr bs \<and> checkpoint_table c = table \<and> last_processed_key c \<noteq> Some []"
proof -
  have len: "16 \<le> length bs" using assms by (auto simp: checkpoint_decode_def CHECKPOINT_FIXED_LEN_def split: if_splits)
  then obtain m0 m1 m2 m3 a b d e f g h i p q r s rest where
    bs: "bs = m0 # m1 # m2 # m3 # a # b # d # e # f # g # h # i # p # q # r # s # rest"
    by (auto simp: numeral_eq_Suc Suc_le_length_iff)
  have le: "unat (u32_from_be_bytes [p, q, r, s]) < 2 ^ 32" using unat_u32_less [of "u32_from_be_bytes [p, q, r, s]"] by simp
  from assms have ok: "[m0, m1, m2, m3] = MIGRATION_MAGIC" "u16_from_be_bytes [a, b] = CHECKPOINT_FORMAT_VERSION"
    "u16_from_be_bytes [d, e] = table_id table" "length rest = unat (u32_from_be_bytes [p, q, r, s])"
    "c = \<lparr>checkpoint_table = table, checkpoint_from = u16_from_be_bytes [f, g], checkpoint_to = u16_from_be_bytes [h, i],
       last_processed_key = (if rest \<noteq> [] then Some rest else None)\<rparr>"
    by (auto simp: bs checkpoint_decode_def CHECKPOINT_FIXED_LEN_def Let_def split: if_splits)
  have w: "u32_to_be_bytes (of_nat (length rest)) = [p, q, r, s]" by (simp add: ok(4) be_bytes_decoded)
  have "u16_to_be_bytes CHECKPOINT_FORMAT_VERSION = [a, b]" "u16_to_be_bytes (table_id table) = [d, e]"
    using be_bytes_decoded(1) [of "[a, b]"] be_bytes_decoded(1) [of "[d, e]"] by (simp_all add: ok(2,3))
  moreover have "cursor_bytes (last_processed_key c) = rest" "last_processed_key c \<noteq> Some []"
    by (simp_all add: ok(5) cursor_bytes_def)
  ultimately show ?thesis using le w
    by (simp add: checkpoint_encode_def ok(4) bs be_bytes_decoded flip: ok(1)) (simp add: ok(5) be_bytes_decoded)
qed

section \<open>The lease as a store\<close>

text \<open>Writes through the lease are those of the store, except that the lock is not taken.\<close>

definition unpoisoned :: "'db store_write_lease \<Rightarrow> 'db store" where
  "unpoisoned l = (lease_store l)\<lparr>write_lock_poisoned := False\<rparr>"

lemma lease_writes:
  "lease_apply_batch sets deletes l = (l', r) \<Longrightarrow> store_apply_batch sets deletes (unpoisoned l) = (unpoisoned l', r)"
  "lease_set k v l = (l', r) \<Longrightarrow> store_set k v (unpoisoned l) = (unpoisoned l', r)"
  by (auto simp: lease_apply_batch_def lease_set_def lease_write_def unpoisoned_def store_apply_batch_cases store_set_cases
      apply_batch_unlocked_def set_unlocked_def check_injected_write_failure_def finish_write_def Let_def split: if_splits)

lemma unpoisoned_simps [simp]:
  "store_db (unpoisoned l) = store_db (lease_store l)" "store_sled (unpoisoned l) = store_sled (lease_store l)"
  by (simp_all add: unpoisoned_def)

interpretation lease: kv_contract "\<lambda>l. store_get (lease_store l)" "\<lambda>l. store_prefix_exists (lease_store l)"
    "\<lambda>l. scan_prefix (lease_store l)" lease_set lease_apply_batch
    "\<lambda>l. \<alpha> (store_db (lease_store l))" "\<lambda>l. sled_ok (store_sled (lease_store l)) \<alpha>" for \<alpha>
proof unfold_locales
  fix s s' :: "'a store_write_lease" and k v sets deletes u e
  assume ok: "sled_ok (store_sled (lease_store s)) \<alpha>"
  show "lease_set k v s = (s', Inr u) \<Longrightarrow> \<alpha> (store_db (lease_store s')) = om_insert k v (\<alpha> (store_db (lease_store s)))"
    using kv.put_view [of "unpoisoned s" \<alpha>] lease_writes(2) ok by fastforce
  show "sled_ok (store_sled (lease_store (fst (lease_set k v s)))) \<alpha>"
    using kv.put_lawful [of "unpoisoned s" \<alpha> k v] lease_writes(2) [of k v s] ok by (cases "lease_set k v s") auto
  show "lease_apply_batch sets deletes s = (s', Inr u) \<Longrightarrow>
      \<alpha> (store_db (lease_store s')) = batch_view sets deletes (\<alpha> (store_db (lease_store s)))"
    using kv.batch_view_ok [of "unpoisoned s" \<alpha>] lease_writes(1) ok by fastforce
  show "lease_apply_batch sets deletes s = (s', Inl e) \<Longrightarrow> \<alpha> (store_db (lease_store s')) = \<alpha> (store_db (lease_store s))"
    using kv.batch_view_err [of "unpoisoned s" \<alpha>] lease_writes(1) ok by fastforce
  show "sled_ok (store_sled (lease_store (fst (lease_apply_batch sets deletes s)))) \<alpha>"
    using kv.batch_lawful [of "unpoisoned s" \<alpha> sets deletes] lease_writes(1) [of sets deletes s] ok
    by (cases "lease_apply_batch sets deletes s") auto
qed (auto dest: store_get_eq store_prefix_exists_eq scan_prefix_eq)

section \<open>What a batch does to the contents\<close>

definition record_valid :: "serde \<Rightarrow> materialized_decoders \<Rightarrow> store_table \<Rightarrow> bytes \<times> bytes \<Rightarrow> bool" where
  "record_valid J D table e = is_ok (migrate_legacy_record J D table (fst e) (snd e))"

text \<open>A table to be migrated has no header or one of version 0.\<close>

definition unversioned :: "contents \<Rightarrow> store_table \<Rightarrow> bool" where
  "unversioned m table = (om_get m (schema_key table) = None
     \<or> om_get m (schema_key table) = Some (header_encode \<lparr>header_version = 0, header_table = table\<rparr>))"

definition table_cursor :: "contents \<Rightarrow> store_table \<Rightarrow> bytes option" where
  "table_cursor m table =
     (case om_get m (checkpoint_key table) of
        None \<Rightarrow> None
      | Some bs \<Rightarrow> (case checkpoint_decode table bs of Inl _ \<Rightarrow> None | Inr c \<Rightarrow> last_processed_key c))"

definition pending_rows :: "contents \<Rightarrow> store_table \<Rightarrow> (bytes \<times> bytes) list" where
  "pending_rows m table = page_entries (as_bytes (data_prefix table)) (table_cursor m table) None m"

definition cursor_at :: "store_table \<Rightarrow> bytes \<Rightarrow> migration_checkpoint" where
  "cursor_at table key =
     \<lparr>checkpoint_table = table, checkpoint_from = 0, checkpoint_to = 1, last_processed_key = Some key\<rparr>"

text \<open>The abstract migration: a batch of records is validated, or a table is finished.\<close>

inductive migrates :: "serde \<Rightarrow> materialized_decoders \<Rightarrow> contents \<Rightarrow> migration_progress \<Rightarrow> contents \<Rightarrow> bool"
  for J D where
  validate: "migrates J D m (BatchValidated (table_name table) (length es)) (om_insert (checkpoint_key table) bs m)"
    if "unversioned m table" "pending_rows m table = es @ rest" "es \<noteq> []" "list_all (record_valid J D table) es"
      "checkpoint_encode (cursor_at table (fst (last es))) = Inr bs"
| finish: "migrates J D m (TableCompleted (table_name table) 0 1)
      (om_remove (checkpoint_key table) (om_insert (schema_key table) (header_encode (header_current table)) m))"
    if "unversioned m table" "pending_rows m table = []"

section \<open>The code refines the abstract migration\<close>

lemma current_version_1 [simp]: "current_version table = 1"
  by (simp add: current_version_def INITIAL_SCHEMA_VERSION_def)

lemma legacy_step [simp]:
  "step_from (LEGACY_TO_V1 J D) = 0" "step_to (LEGACY_TO_V1 J D) = 1"
  "migrate_record (LEGACY_TO_V1 J D) = migrate_legacy_record J D"
  by (simp_all add: LEGACY_TO_V1_def)

lemma migration_steps_legacy [simp]: "migration_steps J D table = [LEGACY_TO_V1 J D]"
  by (cases table) simp_all

lemma next_step:
  "next_migration_step table v 1 [LEGACY_TO_V1 J D] =
     (if v = 0 then Inr (LEGACY_TO_V1 J D) else Inl (UnsupportedPath (table_name table) v 1))"
  by (auto simp: next_migration_step_def)

lemma registries_valid: "validate_migration_registries J D = Inr ()"
  by (simp add: validate_migration_registries_def validate_migration_path_def check_step_def store_table_ALL_def)

lemma header_version_0:
  "header_decode table bs = Inr h \<Longrightarrow> header_version h = v \<longleftrightarrow> bs = header_encode \<lparr>header_version = v, header_table = table\<rparr>"
  by (cases h) (auto simp: header_decode_encode dest: header_decode_Inr [THEN iffD1])

lemma legacy_record_cases: "migrate_legacy_record J D table key value = Inr mig \<Longrightarrow> mig = record_unchanged"
  by (auto simp: migrate_legacy_record_def res_bind_Inr_iff)

lemma legacy_fold:
  "fold_res (\<lambda>(key, value) acc. res_bind (migrate_legacy_record J D table key value)
       (\<lambda>mig. collect_record_migration table key mig limit acc)) es acc = Inr acc' \<longleftrightarrow>
     acc' = acc \<and> list_all (record_valid J D table) es"
proof (induction es arbitrary: acc)
  case (Cons e es)
  show ?case
  proof (cases "migrate_legacy_record J D table (fst e) (snd e)")
    case (Inr mig)
    with legacy_record_cases [OF Inr] Cons show ?thesis
      by (auto simp: case_prod_beta record_valid_def collect_record_migration_def record_unchanged_def)
  qed (auto simp: case_prod_beta record_valid_def)
qed auto

lemma table_version_cases:
  assumes "table_from_version table 1 cp sch = Inr from"
  shows "case from of
      None \<Rightarrow> cp = None \<and> sch = Some (header_encode (header_current table))
    | Some v \<Rightarrow> v = 0 \<and> (sch = None \<or> sch = Some (header_encode \<lparr>header_version = 0, header_table = table\<rparr>))"
proof (cases sch)
  case (Some bs)
  with assms obtain h where h: "header_decode table bs = Inr h"
    by (auto simp: table_from_version_def res_bind_Inr_iff)
  have "validate_header table bs \<noteq> Inr ()" if "header_version h > 1"
    using that h by (auto simp: validate_header_def)
  moreover have "header_version h = 0" if "header_version h \<noteq> 1" "\<not> 1 < header_version h"
    using that by (auto simp: word_less_nat_alt word_unat_eq_iff)
  ultimately show ?thesis
    using assms Some h header_version_0 [OF h, of 0] header_version_0 [OF h, of 1]
    by (auto simp: table_from_version_def header_current_def res_bind_Inr_iff split: if_splits)
qed (use assms in \<open>auto simp: table_from_version_def\<close>)

text \<open>What the preflight has checked of a checkpoint.\<close>

definition checkpoint_fits :: "contents \<Rightarrow> store_table \<Rightarrow> bool" where
  "checkpoint_fits m table =
     (case om_get m (checkpoint_key table) of
        None \<Rightarrow> True
      | Some bs \<Rightarrow> (case checkpoint_decode table bs of
          Inl _ \<Rightarrow> False
        | Inr c \<Rightarrow> checkpoint_from c = 0 \<and> checkpoint_to c = 1 \<and> unversioned m table
            \<and> (\<forall>k. last_processed_key c = Some k \<longrightarrow> starts_with k (as_bytes (data_prefix table)))))"

lemma preflight_fits:
  assumes "sled_ok (store_sled st) \<alpha>" "preflight_checkpoint J D st table = Inr ()"
  shows "checkpoint_fits (\<alpha> (store_db st)) table"
proof -
  obtain found where f: "store_get st (checkpoint_key table) = Inr found" using assms(2) by (auto simp: preflight_checkpoint_def res_bind_Inr_iff)
  note found = kv.get_view [OF assms(1) f]
  show ?thesis
  proof (cases found)
    case (Some bs)
    with assms(2) f obtain c sch where c: "checkpoint_decode table bs = Inr c"
      and cur: "\<forall>k. last_processed_key c = Some k \<longrightarrow> starts_with k (as_bytes (data_prefix table))"
      and sch: "store_get st (schema_key table) = Inr sch"
      by (auto simp: preflight_checkpoint_def res_bind_Inr_iff split: if_splits option.splits)
    from assms(2) f Some c sch have "(case sch of None \<Rightarrow> True | Some h \<Rightarrow>
        \<exists>hd. header_decode table h = Inr hd \<and> header_version hd = 0) \<and> checkpoint_from c = 0 \<and> checkpoint_to c = 1"
      by (auto simp: preflight_checkpoint_def res_bind_Inr_iff next_step split: if_splits option.splits)
    with kv.get_view [OF assms(1) sch] found Some c cur show ?thesis
      by (auto simp: checkpoint_fits_def unversioned_def header_version_0 split: option.splits)
  qed (use found in \<open>simp add: checkpoint_fits_def\<close>)
qed

lemma fold_res_unit:
  "fold_res (\<lambda>x _. f x) xs () = Inr u \<longleftrightarrow> (\<forall>x \<in> set xs. f x = Inr ())"
  by (induction xs) (auto split: sum.splits)

lemma preflight_all_fit:
  assumes "sled_ok (store_sled st) \<alpha>" "preflight_checkpoints J D st = Inr ()"
  shows "checkpoint_fits (\<alpha> (store_db st)) table"
  using assms(2) by (intro preflight_fits [OF assms(1), of J D]) (simp add: preflight_checkpoints_def fold_res_unit)

lemma load_checkpoint_fits:
  assumes "checkpoint_fits m table" "load_checkpoint table (LEGACY_TO_V1 J D) (om_get m (checkpoint_key table)) = Inr c"
  shows "last_processed_key c = table_cursor m table" "c\<lparr>last_processed_key := Some k\<rparr> = cursor_at table k"
    "case table_cursor m table of None \<Rightarrow> True | Some a \<Rightarrow> as_bytes (data_prefix table) \<le> a"
proof -
  show "last_processed_key c = table_cursor m table" "c\<lparr>last_processed_key := Some k\<rparr> = cursor_at table k"
    using assms decode_is_encoded
    by (auto simp: load_checkpoint_def table_cursor_def checkpoint_fits_def checkpoint_new_def cursor_at_def res_bind_Inr_iff
        split: option.splits sum.splits if_splits)
  show "case table_cursor m table of None \<Rightarrow> True | Some a \<Rightarrow> as_bytes (data_prefix table) \<le> a"
    using assms(1) by (auto simp: table_cursor_def checkpoint_fits_def starts_with_ge split: option.splits sum.splits)
qed

lemma plan_batch_cases:
  assumes "plan_table_batch table (LEGACY_TO_V1 J D) c es limit = Inr ((sets, deletes), progress)"
    and "\<And>k. c\<lparr>last_processed_key := Some k\<rparr> = cursor_at table k"
  shows "(es = [] \<and> progress = TableCompleted (table_name table) 0 1
        \<and> batch_view sets deletes m = om_remove (checkpoint_key table)
            (om_insert (schema_key table) (header_encode (header_current table)) m))
    \<or> (es \<noteq> [] \<and> progress = BatchValidated (table_name table) (length es) \<and> list_all (record_valid J D table) es
        \<and> (\<exists>bs. checkpoint_encode (cursor_at table (fst (last es))) = Inr bs
            \<and> batch_view sets deletes m = om_insert (checkpoint_key table) bs m))"
proof (cases "es = []")
  case True
  with assms(1) show ?thesis by (auto simp: plan_table_batch_def batch_view_def header_current_def)
next
  case False
  with assms show ?thesis
    by (auto simp: plan_table_batch_def res_bind_Inr_iff legacy_fold batch_view_def om_keys_def)
qed

abbreviation lease_view :: "('db \<Rightarrow> contents) \<Rightarrow> 'db store_write_lease \<Rightarrow> contents" where
  "lease_view \<alpha> l \<equiv> \<alpha> (store_db (lease_store l))"

text \<open>One table: nothing to do, an abstract step, or an error that leaves the contents alone.\<close>

definition table_outcome ::
    "serde \<Rightarrow> materialized_decoders \<Rightarrow> store_table \<Rightarrow> contents \<Rightarrow> migration_error + migration_progress option \<Rightarrow> contents \<Rightarrow> bool" where
  "table_outcome J D table m r m' =
     (case r of
        Inl _ \<Rightarrow> m' = m
      | Inr None \<Rightarrow> m' = m \<and> table_ready m table \<and> om_get m (checkpoint_key table) = None
      | Inr (Some progress) \<Rightarrow> migrates J D m progress m')"

lemma table_outcome_simps [simp]:
  "table_outcome J D table m (Inl e) m' \<longleftrightarrow> m' = m"
  "table_outcome J D table m (Inr None) m' \<longleftrightarrow> m' = m \<and> table_ready m table \<and> om_get m (checkpoint_key table) = None"
  "table_outcome J D table m (Inr (Some progress)) m' \<longleftrightarrow> migrates J D m progress m'"
  by (simp_all add: table_outcome_def)

lemmas batch_run = migrate_table_batch_def st_bind_def st_lift_def st_map_err_def Let_def next_step

lemma planned_batch_refines:
  assumes ok: "sled_ok (store_sled (lease_store l)) \<alpha>" and fits: "checkpoint_fits (lease_view \<alpha> l) table"
    and opts: "options_nonzero opts" and unv: "unversioned (lease_view \<alpha> l) table"
    and c: "load_checkpoint table (LEGACY_TO_V1 J D) (om_get (lease_view \<alpha> l) (checkpoint_key table)) = Inr c"
    and es: "scan_prefix_page_after_bounded (lease_store l) (as_bytes (data_prefix table)) (last_processed_key c)
      (max_records opts) (max_bytes opts) = Inr es"
    and plan: "plan_table_batch table (LEGACY_TO_V1 J D) c es limit = Inr ((sets, deletes), progress)"
  shows "migrates J D (lease_view \<alpha> l) progress (batch_view sets deletes (lease_view \<alpha> l))"
proof -
  note C = load_checkpoint_fits [OF fits c]
  have "\<exists>rest. pending_rows (lease_view \<alpha> l) table = es @ rest" "es = [] \<Longrightarrow> pending_rows (lease_view \<alpha> l) table = []"
    using bounded_page_budget [OF ok _ es] C(1,3) opts
    by (auto simp: pending_rows_def options_nonzero_def unat_eq_0)
  with plan_batch_cases [OF plan C(2), of "lease_view \<alpha> l"] unv show ?thesis by (auto intro: migrates.intros)
qed

lemma table_batch_refines:
  assumes ok: "sled_ok (store_sled (lease_store l)) \<alpha>" and fits: "checkpoint_fits (lease_view \<alpha> l) table"
    and opts: "options_nonzero opts"
    and run: "migrate_table_batch table 1 [LEGACY_TO_V1 J D] opts l = (l', r)"
  shows "sled_ok (store_sled (lease_store l')) \<alpha> \<and> table_outcome J D table (lease_view \<alpha> l) r (lease_view \<alpha> l')"
proof (cases "\<exists>cp sch v. store_get (lease_store l) (checkpoint_key table) = Inr cp
    \<and> store_get (lease_store l) (schema_key table) = Inr sch \<and> table_from_version table 1 cp sch = Inr v")
  case False
  with run ok show ?thesis by (auto simp: batch_run split: sum.splits)
next
  case True
  then obtain cp sch v where get: "store_get (lease_store l) (checkpoint_key table) = Inr cp"
      "store_get (lease_store l) (schema_key table) = Inr sch" "table_from_version table 1 cp sch = Inr v" by blast
  note m = lease.get_view [OF ok get(1)] lease.get_view [OF ok get(2)]
  show ?thesis
  proof (cases v)
    case None
    with table_version_cases [OF get(3)] run get m ok show ?thesis by (auto simp: batch_run table_ready_def)
  next
    case (Some n)
    with table_version_cases [OF get(3)] m(2) have n: "n = 0" and unv: "unversioned (lease_view \<alpha> l) table"
      by (auto simp: unversioned_def)
    let ?s = "LEGACY_TO_V1 J D" and ?scan = "\<lambda>c. scan_prefix_page_after_bounded (lease_store l) (as_bytes (data_prefix table))
      (last_processed_key c) (max_records opts) (max_bytes opts)"
    show ?thesis
    proof (cases "\<exists>c es sets deletes progress. load_checkpoint table ?s cp = Inr c \<and> ?scan c = Inr es
        \<and> plan_table_batch table ?s c es (max_bytes opts) = Inr ((sets, deletes), progress)")
      case False
      with run get Some n ok show ?thesis by (auto simp: batch_run split: sum.splits)
    next
      case True
      then obtain c es sets deletes progress where plan: "load_checkpoint table ?s cp = Inr c" "?scan c = Inr es"
        "plan_table_batch table ?s c es (max_bytes opts) = Inr ((sets, deletes), progress)" by blast
      obtain l2 q where w: "lease_apply_batch sets deletes l = (l2, q)" by fastforce
      have "l' = l2 \<and> r = (case q of Inl e \<Rightarrow> Inl (MigrationStore e) | Inr _ \<Rightarrow> Inr (Some progress))"
        using run get Some n plan w by (auto simp: batch_run split: sum.splits)
      with lease.batch_all_or_nothing [OF ok w] planned_batch_refines [OF ok fits opts unv plan(1) [unfolded m(1)] plan(2,3)]
      show ?thesis by (auto split: sum.splits)
    qed
  qed
qed

lemma migrates_not_complete: "migrates J D m progress m' \<Longrightarrow> progress \<noteq> MigrationComplete"
  by (auto elim: migrates.cases)

lemma tables_refine:
  assumes "sled_ok (store_sled (lease_store l)) \<alpha>" "\<forall>table. checkpoint_fits (lease_view \<alpha> l) table" "options_nonzero opts"
    and "migrate_tables J D opts tables l = (l', r)"
  shows "sled_ok (store_sled (lease_store l')) \<alpha> \<and> (case r of
      Inl _ \<Rightarrow> lease_view \<alpha> l' = lease_view \<alpha> l
    | Inr progress \<Rightarrow> if progress = MigrationComplete
        then lease_view \<alpha> l' = lease_view \<alpha> l \<and> (\<forall>table \<in> set tables. table_ready (lease_view \<alpha> l) table
          \<and> om_get (lease_view \<alpha> l) (checkpoint_key table) = None)
        else migrates J D (lease_view \<alpha> l) progress (lease_view \<alpha> l'))"
  using assms
proof (induction tables arbitrary: l)
  case Nil
  then show ?case by (auto simp: st_lift_def)
next
  case (Cons table tables)
  obtain l2 q where step: "migrate_table_batch table 1 [LEGACY_TO_V1 J D] opts l = (l2, q)" by fastforce
  note T = table_batch_refines [OF Cons.prems(1) _ Cons.prems(3) step] Cons.prems(2)
  consider e where "q = Inl e" | p where "q = Inr (Some p)" | "q = Inr None" by (cases q) (metis option.exhaust)+
  then show ?case
  proof cases
    case 3
    with T Cons.prems step have "migrate_tables J D opts tables l2 = (l', r)" "lease_view \<alpha> l2 = lease_view \<alpha> l"
      "sled_ok (store_sled (lease_store l2)) \<alpha>" "table_ready (lease_view \<alpha> l) table"
      "om_get (lease_view \<alpha> l) (checkpoint_key table) = None" by (auto simp: st_bind_def)
    with Cons.IH [of l2] Cons.prems(2,3) show ?thesis by (auto split: sum.splits if_splits)
  qed (use T Cons.prems(4) step in \<open>auto simp: st_bind_def st_lift_def dest: migrates_not_complete\<close>)
qed

text \<open>A call of \<open>step\<close>.\<close>

lemma batch_refines:
  assumes "sled_ok (store_sled (lease_store l)) \<alpha>" "options_nonzero opts" "migrate_sync_schema_batch J D opts l = (l', r)"
  shows "sled_ok (store_sled (lease_store l')) \<alpha> \<and> (case r of
      Inl _ \<Rightarrow> lease_view \<alpha> l' = lease_view \<alpha> l
    | Inr progress \<Rightarrow> if progress = MigrationComplete
        then lease_view \<alpha> l' = lease_view \<alpha> l
          \<and> (\<forall>table. table_ready (lease_view \<alpha> l) table \<and> om_get (lease_view \<alpha> l) (checkpoint_key table) = None)
        else migrates J D (lease_view \<alpha> l) progress (lease_view \<alpha> l'))"
proof (cases "preflight_checkpoints J D (lease_store l)")
  case (Inl e)
  with assms show ?thesis by (auto simp: migrate_sync_schema_batch_def st_bind_def st_lift_def)
next
  case (Inr u)
  then have "migrate_tables J D opts store_table_ALL l = (l', r)"
    using assms(3) by (simp add: migrate_sync_schema_batch_def st_bind_def st_lift_def)
  from tables_refine [OF assms(1) _ assms(2) this] preflight_all_fit [OF assms(1) Inr [unfolded unit_eq [of u]]]
  show ?thesis by (auto split: sum.splits)
qed

section \<open>Progress and invariants\<close>

lemma page_entries_cong:
  assumes "\<And>k. starts_with k p \<Longrightarrow> om_get m' k = om_get m k"
  shows "page_entries p start excluded m' = page_entries p start excluded m"
proof -
  have "om_filter (\<lambda>k. starts_with k p) m' = om_filter (\<lambda>k. starts_with k p) m"
    using assms by (simp add: om_eq_iff om_get_filter)
  moreover have "page_entries p start excluded n = filter (\<lambda>e. (case start of None \<Rightarrow> True | Some a \<Rightarrow> a < fst e)
      \<and> \<not> is_excluded excluded (fst e)) (om_entries (om_filter (\<lambda>k. starts_with k p) n))" for n
    by (auto simp: page_entries_def intro!: filter_cong)
  ultimately show ?thesis by (simp only:)
qed

lemma migrates_keeps:
  assumes "migrates J D m progress m'"
  shows "k \<notin> range schema_key \<union> range checkpoint_key \<Longrightarrow> om_get m' k = om_get m k"
    and "page_entries (as_bytes (data_prefix u)) start excluded m' = page_entries (as_bytes (data_prefix u)) start excluded m"
proof -
  have keep: "om_get m' k = om_get m k" if "k \<notin> range schema_key \<union> range checkpoint_key" for k
    using assms that by cases auto
  then show "k \<notin> range schema_key \<union> range checkpoint_key \<Longrightarrow> om_get m' k = om_get m k" .
  show "page_entries (as_bytes (data_prefix u)) start excluded m' = page_entries (as_bytes (data_prefix u)) start excluded m"
    by (rule page_entries_cong, rule keep) auto
qed

lemma data_prefix_nonempty [simp]: "data_prefix table \<noteq> []"
  by (cases table) (simp_all add: store_prefix_defs)

lemma cursor_stored:
  assumes "pending_rows m table = es @ rest" "es \<noteq> []" "checkpoint_encode (cursor_at table (fst (last es))) = Inr bs"
  shows "checkpoint_decode table bs = Inr (cursor_at table (fst (last es)))"
    and "starts_with (fst (last es)) (as_bytes (data_prefix table))"
proof -
  have "last es \<in> set (pending_rows m table)" using assms(1,2) by simp
  then show p: "starts_with (fst (last es)) (as_bytes (data_prefix table))" by (simp add: pending_rows_def page_entries_def)
  then have "fst (last es) \<noteq> []" by (cases "data_prefix table") (auto simp: as_bytes_def)
  with decode_encoded [OF assms(3), of table] show "checkpoint_decode table bs = Inr (cursor_at table (fst (last es)))"
    by (simp add: cursor_at_def cursor_bytes_def)
qed

text \<open>What a step does to each table.\<close>

lemma migrates_pending:
  assumes "migrates J D m progress m'"
  obtains (rows) table es where "progress = BatchValidated (table_name table) (length es)" "es \<noteq> []" "unversioned m table"
      "unversioned m' table" "pending_rows m table = es @ pending_rows m' table" "list_all (record_valid J D table) es"
      "checkpoint_fits m' table" "\<And>u. u \<noteq> table \<Longrightarrow> pending_rows m' u = pending_rows m u"
      "\<And>u. om_get m' (schema_key u) = om_get m (schema_key u)"
      "\<And>u. u \<noteq> table \<Longrightarrow> om_get m' (checkpoint_key u) = om_get m (checkpoint_key u)"
  | (completed) table where "progress = TableCompleted (table_name table) 0 1" "unversioned m table" "pending_rows m table = []"
      "table_ready m' table" "om_get m' (checkpoint_key table) = None"
      "\<And>u. u \<noteq> table \<Longrightarrow> pending_rows m' u = pending_rows m u"
      "\<And>u. u \<noteq> table \<Longrightarrow> om_get m' (schema_key u) = om_get m (schema_key u)"
      "\<And>u. u \<noteq> table \<Longrightarrow> om_get m' (checkpoint_key u) = om_get m (checkpoint_key u)"
proof -
  note keep = migrates_keeps(2) [OF assms]
  have other: "pending_rows m' u = pending_rows m u" if "om_get m' (checkpoint_key u) = om_get m (checkpoint_key u)" for u
    using that by (simp add: pending_rows_def keep table_cursor_def)
  from assms show ?thesis
  proof cases
    case (validate table es rest bs)
    note C = cursor_stored [OF validate(4,5,7)]
    have "table_cursor m' table = Some (fst (last es))" by (simp add: table_cursor_def validate(2) C(1) cursor_at_def)
    with page_entries_after [OF validate(4) [unfolded pending_rows_def] validate(5)]
    have "pending_rows m' table = rest" by (simp add: pending_rows_def keep)
    moreover have unv: "unversioned m' table" using validate(3) by (simp add: unversioned_def validate(2))
    moreover have "checkpoint_fits m' table"
      using C unv by (simp add: checkpoint_fits_def validate(2) cursor_at_def)
    ultimately show ?thesis
      using validate other by (intro rows [of table es]) auto
  next
    case (finish table)
    with other show ?thesis by (intro completed [of table]) (auto simp: table_ready_def)
  qed
qed

lemma unversioned_not_ready: "unversioned m table \<Longrightarrow> \<not> table_ready m table"
proof
  assume "unversioned m table" "table_ready m table"
  then have "header_encode \<lparr>header_version = 0, header_table = table\<rparr> = header_encode (header_current table)"
    by (auto simp: unversioned_def table_ready_def)
  with header_decode_encode [of table "header_current table"] header_decode_encode [of table "\<lparr>header_version = 0, header_table = table\<rparr>"]
  show False by (simp add: header_current_def)
qed

text \<open>The records still to be looked at and the headers still to be written.\<close>

definition table_work :: "contents \<Rightarrow> store_table \<Rightarrow> nat" where
  "table_work m table = (if table_ready m table then 0 else Suc (length (pending_rows m table)))"

definition migration_work :: "contents \<Rightarrow> nat" where
  "migration_work m = (\<Sum>table \<in> set store_table_ALL. table_work m table)"

lemma migrates_work: "migrates J D m progress m' \<Longrightarrow> migration_work m' < migration_work m"
proof -
  assume "migrates J D m progress m'"
  then obtain table where "table_work m' table < table_work m table" "\<And>u. u \<noteq> table \<Longrightarrow> table_work m' u = table_work m u"
  proof (cases rule: migrates_pending)
    case (rows table es)
    then show ?thesis using unversioned_not_ready [of m table] unversioned_not_ready [of m' table]
      by (intro that [of table]) (auto simp: table_work_def table_ready_def)
  next
    case (completed table)
    then show ?thesis using unversioned_not_ready [of m table]
      by (intro that [of table]) (auto simp: table_work_def table_ready_def)
  qed
  then show ?thesis unfolding migration_work_def
    by (intro sum_strict_mono_ex1) (simp, metis le_refl less_imp_le, auto)
qed

text \<open>Migration up to some point: the contents a run may leave behind.\<close>

inductive migrated :: "serde \<Rightarrow> materialized_decoders \<Rightarrow> contents \<Rightarrow> contents \<Rightarrow> bool" for J D m where
  start: "migrated J D m m"
| step: "migrated J D m m1 \<Longrightarrow> migrates J D m1 progress m2 \<Longrightarrow> migrated J D m m2"

lemma migrated_keeps:
  "migrated J D m m' \<Longrightarrow> k \<notin> range schema_key \<union> range checkpoint_key \<Longrightarrow> om_get m' k = om_get m k"
  by (induction rule: migrated.induct) (auto simp: migrates_keeps(1))

text \<open>
  What is pending after some batches, with what was checked in between, is what was pending
  before; a table that is finished meanwhile has been checked completely.
\<close>

lemma migrated_validated:
  assumes "migrated J D m m'" "unversioned m table"
  shows "if unversioned m' table
    then \<exists>es. pending_rows m table = es @ pending_rows m' table \<and> list_all (record_valid J D table) es
    else table_ready m' table \<and> list_all (record_valid J D table) (pending_rows m table)"
  using assms
proof (induction rule: migrated.induct)
  case (step m1 progress m2)
  have same: "unversioned m2 table = unversioned m1 table" "table_ready m2 table = table_ready m1 table"
    if "om_get m2 (schema_key table) = om_get m1 (schema_key table)"
    using that by (simp_all add: unversioned_def table_ready_def)
  from step.hyps(2) show ?case
  proof (cases rule: migrates_pending)
    case (rows t es)
    with step.IH [OF step.prems] same show ?thesis by (cases "t = table") auto
  next
    case (completed t)
    with step.IH [OF step.prems] same unversioned_not_ready [of m2 t] show ?thesis by (cases "t = table") auto
  qed
qed auto

section \<open>Stores that can be migrated\<close>

text \<open>
  Every table is current, or unversioned with a checkpoint that fits and records that parse;
  every record fits a batch and no key is so long that a checkpoint could not hold it.
\<close>

definition fits_batch :: "nat \<Rightarrow> bytes \<times> bytes \<Rightarrow> bool" where
  "fits_batch limit e = (length (fst e) + length (snd e) \<le> limit \<and> length (fst e) < 2 ^ 32)"

definition migratable :: "serde \<Rightarrow> materialized_decoders \<Rightarrow> migration_options \<Rightarrow> contents \<Rightarrow> store_table \<Rightarrow> bool" where
  "migratable J D opts m table =
     (table_ready m table \<and> om_get m (checkpoint_key table) = None
      \<or> unversioned m table \<and> checkpoint_fits m table
        \<and> list_all (\<lambda>e. record_valid J D table e \<and> fits_batch (max_bytes opts) e) (pending_rows m table))"

lemma migratable_fits: "migratable J D opts m table \<Longrightarrow> checkpoint_fits m table"
  by (auto simp: migratable_def checkpoint_fits_def)

lemma migrates_migratable:
  assumes "migrates J D m progress m'" "migratable J D opts m table"
  shows "migratable J D opts m' table"
proof -
  have same: "table_ready m' table = table_ready m table" "unversioned m' table = unversioned m table"
    if "om_get m' (schema_key table) = om_get m (schema_key table)"
    using that by (simp_all add: unversioned_def table_ready_def)
  then have fits: "checkpoint_fits m' table = checkpoint_fits m table"
    if "om_get m' (schema_key table) = om_get m (schema_key table)" "om_get m' (checkpoint_key table) = om_get m (checkpoint_key table)"
    using that by (auto simp: checkpoint_fits_def split: option.splits sum.splits)
  from assms(1) show ?thesis
  proof (cases rule: migrates_pending)
    case (rows t es)
    then show ?thesis
      using assms(2) same fits unversioned_not_ready [of m t] by (cases "t = table") (auto simp: migratable_def)
  next
    case (completed t)
    then show ?thesis using assms(2) same fits by (cases "t = table") (auto simp: migratable_def)
  qed
qed

text \<open>The errors a database reports, and the errors that are the store's own.\<close>

definition sled_errors :: "'db sled \<Rightarrow> string set" where
  "sled_errors S = {msg. (\<exists>db k. sled_get S db k = Inl msg) \<or> (\<exists>db ops. snd (sled_apply_batch S db ops) = Inl msg)
     \<or> (\<exists>db p. Inl msg \<in> set (sled_scan_prefix S db p)) \<or> (\<exists>db k. Inl msg \<in> set (sled_range_from S db k))}"

definition store_fault :: "'db store \<Rightarrow> migration_error \<Rightarrow> bool" where
  "store_fault st e =
     ((\<exists>msg \<in> sled_errors (store_sled st). e = MigrationStore (Sled msg))
      \<or> fail_writes_with_disk_full st \<and> e = MigrationStore InjectedDiskFull
      \<or> write_lock_poisoned st \<and> e = MigrationStore WriteLockPoisoned)"

definition same_handle :: "'db store \<Rightarrow> 'db store \<Rightarrow> bool" where
  "same_handle st st' = (store_sled st' = store_sled st \<and> write_lock_poisoned st' = write_lock_poisoned st
     \<and> fail_writes_with_disk_full st' = fail_writes_with_disk_full st)"

lemma same_handle_fault: "same_handle st st' \<Longrightarrow> store_fault st' e = store_fault st e"
  by (simp add: same_handle_def store_fault_def)

lemma get_fault: "store_get st k = Inl x \<Longrightarrow> store_fault st (MigrationStore x)"
  by (cases "sled_get (store_sled st) (store_db st) k") (auto simp: store_get_def store_fault_def sled_errors_def)

lemma lease_batch_fault:
  assumes "lease_apply_batch sets deletes l = (l', r)"
  shows "same_handle (lease_store l) (lease_store l')" "r = Inl x \<Longrightarrow> store_fault (lease_store l) (MigrationStore x)"
proof -
  let ?w = "sled_apply_batch (store_sled (lease_store l)) (store_db (lease_store l))
    (map (\<lambda>(k, v). BatchInsert k v) sets @ map BatchRemove deletes)"
  have "store_fault (lease_store l) (MigrationStore x)" if "snd ?w = Inl msg" "x = Sled msg" for msg
    using that unfolding store_fault_def sled_errors_def by blast
  with assms show "same_handle (lease_store l) (lease_store l')" "r = Inl x \<Longrightarrow> store_fault (lease_store l) (MigrationStore x)"
    by (auto simp: lease_apply_batch_def lease_write_def apply_batch_unlocked_def check_injected_write_failure_def
        finish_write_def Let_def same_handle_def res_bind_def map_err_def store_fault_def split: if_splits sum.splits)
qed

lemma for_try_error:
  assumes "iterates items xs" "for_try g body items s = Inl e"
  shows "(\<exists>f. Inl f \<in> set items \<and> e = g f) \<or> (\<exists>x \<in> set xs. \<exists>s'. body x s' = Fail e)"
proof -
  have run: "(\<exists>f. Inl f \<in> set rest \<and> e = g f) \<or> (\<exists>x \<in> set ys. \<exists>s'. body x s' = Fail e)"
    if "for_try g body (map Inr ys @ rest) s = Inl e" "rest = [] \<or> (\<exists>f rs. rest = Inl f # rs)" for ys rest s
    using that by (induction ys arbitrary: s) (auto split: flow.splits)
  from assms(1) show ?thesis unfolding iterates_def
  proof
    assume "items = map Inr xs"
    with run [of xs "[]"] assms(2) show ?thesis by simp
  next
    assume "\<exists>n f rest. items = map Inr (take n xs) @ Inl f # rest"
    then obtain n f rest where items: "items = map Inr (take n xs) @ Inl f # rest" by blast
    with run [of "take n xs" "Inl f # rest" s] assms(2) show ?thesis by (auto dest: in_set_takeD)
  qed
qed

lemma scan_bounded_fault:
  assumes ok: "sled_ok (store_sled st) \<alpha>"
    and fits: "list_all (fits_batch limit) (page_entries p start None (\<alpha> (store_db st)))"
    and run: "scan_prefix_page_after_bounded st p start n limit = Inl x"
  shows "store_fault st (MigrationStore x)"
proof -
  have body: "bounded_item mr limit e s \<noteq> Fail x" if "fits_batch limit e" for mr e s
    using that by (cases e; cases s) (auto simp: bounded_item_cases fits_batch_def split: if_splits)
  show ?thesis
  proof (cases start)
    case None
    with run have "for_try Sled (bounded_item (unat n) limit) (sled_scan_prefix (store_sled st) (store_db st) p) ([], 0) = Inl x"
      by (auto simp: scan_prefix_page_after_bounded_def res_bind_def split: if_splits sum.splits)
    from for_try_error [OF sled_okD(7) [OF ok] this] fits body None show ?thesis
      by (auto simp: store_fault_def sled_errors_def entries_with_prefix_page list_all_iff)
  next
    case (Some a)
    have "bounded_after_item p a mr limit e s \<noteq> Fail x" if "e \<in> set (entries_from a (\<alpha> (store_db st)))" for mr e s
    proof (cases "a < fst e \<and> starts_with (fst e) p")
      case True
      with that have "e \<in> set (page_entries p start None (\<alpha> (store_db st)))"
        by (auto simp: Some page_entries_def entries_from_def is_excluded_def)
      with fits body True show ?thesis by (auto simp: bounded_after_item_def list_all_iff)
    qed (auto simp: bounded_after_item_def)
    moreover have "for_try Sled (bounded_after_item p a (unat n) limit) (sled_range_from (store_sled st) (store_db st) a) ([], 0) = Inl x"
      using run Some by (auto simp: scan_prefix_page_after_bounded_def res_bind_def split: if_splits sum.splits)
    ultimately obtain msg where "Inl msg \<in> set (sled_range_from (store_sled st) (store_db st) a)" "x = Sled msg"
      using for_try_error [OF sled_okD(8) [OF ok]] by metis
    then show ?thesis unfolding store_fault_def sled_errors_def by blast
  qed
qed

lemma preflight_store_fault:
  assumes "sled_ok (store_sled st) \<alpha>" "checkpoint_fits (\<alpha> (store_db st)) table" "preflight_checkpoint J D st table = Inl e"
  shows "store_fault st e"
proof (cases "store_get st (checkpoint_key table)")
  case (Inr found)
  show ?thesis
  proof (cases "store_get st (schema_key table)")
    case inner: (Inr sch)
    from kv.get_view [OF assms(1) Inr] kv.get_view [OF assms(1) inner] assms(2,3) Inr inner show ?thesis
      by (auto simp: preflight_checkpoint_def checkpoint_fits_def unversioned_def header_decode_encode next_step
          split: option.splits sum.splits if_splits)
  qed (use kv.get_view [OF assms(1) Inr] assms(2,3) Inr in
      \<open>auto simp: preflight_checkpoint_def checkpoint_fits_def split: option.splits sum.splits if_splits intro: get_fault\<close>)
qed (use assms(3) in \<open>auto simp: preflight_checkpoint_def intro: get_fault\<close>)

lemma load_checkpoint_ok:
  "checkpoint_fits m table \<Longrightarrow> \<exists>c. load_checkpoint table (LEGACY_TO_V1 J D) (om_get m (checkpoint_key table)) = Inr c"
  by (auto simp: checkpoint_fits_def load_checkpoint_def checkpoint_new_def split: option.splits sum.splits)

lemma plan_batch_ok:
  assumes "list_all (\<lambda>e. record_valid J D table e \<and> fits_batch limit e) es"
    and "\<And>k. c\<lparr>last_processed_key := Some k\<rparr> = cursor_at table k"
  shows "\<exists>p. plan_table_batch table (LEGACY_TO_V1 J D) c es limit = Inr p"
proof (cases "es = []")
  case False
  then have "length (fst (last es)) < 2 ^ 32" "list_all (record_valid J D table) es"
    using assms(1) by (auto simp: list_all_iff fits_batch_def)
  with False legacy_fold [of J D table limit es, THEN iffD2, OF conjI, OF refl] show ?thesis
    by (simp add: plan_table_batch_def assms(2) checkpoint_encode_def cursor_at_def cursor_bytes_def Let_def)
qed (simp add: plan_table_batch_def)

lemma table_batch_store_fault:
  assumes ok: "sled_ok (store_sled (lease_store l)) \<alpha>" and mig: "migratable J D opts (lease_view \<alpha> l) table"
    and run: "migrate_table_batch table 1 [LEGACY_TO_V1 J D] opts l = (l', Inl e)"
  shows "store_fault (lease_store l) e"
proof (cases "\<exists>cp sch. store_get (lease_store l) (checkpoint_key table) = Inr cp \<and> store_get (lease_store l) (schema_key table) = Inr sch")
  case True
  then obtain cp sch where get: "store_get (lease_store l) (checkpoint_key table) = Inr cp" "store_get (lease_store l) (schema_key table) = Inr sch" by blast
  note m = lease.get_view [OF ok get(1)] lease.get_view [OF ok get(2)]
  show ?thesis
  proof (cases "table_ready (lease_view \<alpha> l) table")
    case True
    with mig run get m unversioned_not_ready show ?thesis
      by (auto simp: batch_run migratable_def table_ready_def table_from_version_def header_decode_encode header_current_def)
  next
    case False
    with mig have unv: "unversioned (lease_view \<alpha> l) table" and fits: "checkpoint_fits (lease_view \<alpha> l) table"
      and valid: "list_all (\<lambda>e. record_valid J D table e \<and> fits_batch (max_bytes opts) e) (pending_rows (lease_view \<alpha> l) table)"
      by (auto simp: migratable_def)
    have v: "table_from_version table 1 cp sch = Inr (Some 0)"
      using unv by (auto simp: m unversioned_def table_from_version_def header_decode_encode)
    obtain c where c: "load_checkpoint table (LEGACY_TO_V1 J D) cp = Inr c" using load_checkpoint_ok [OF fits] m(1) by blast
    note C = load_checkpoint_fits [OF fits c [unfolded m(1)]]
    let ?scan = "scan_prefix_page_after_bounded (lease_store l) (as_bytes (data_prefix table)) (last_processed_key c)
      (max_records opts) (max_bytes opts)"
    show ?thesis
    proof (cases ?scan)
      case (Inr es)
      from bounded_page_budget [OF ok _ Inr] C(1,3) obtain rest where "pending_rows (lease_view \<alpha> l) table = es @ rest"
        by (auto simp: pending_rows_def)
      with valid plan_batch_ok [OF _ C(2), where limit = "max_bytes opts", of J D es] obtain sets deletes progress where
        "plan_table_batch table (LEGACY_TO_V1 J D) c es (max_bytes opts) = Inr ((sets, deletes), progress)" by auto
      with run get v c Inr show ?thesis
        by (cases "lease_apply_batch sets deletes l")
          (auto simp: batch_run map_err_def split: sum.splits prod.splits dest: lease_batch_fault(2))
    next
      case (Inl x)
      have "list_all (fits_batch (max_bytes opts)) (pending_rows (lease_view \<alpha> l) table)"
        using valid by (simp add: list_all_iff)
      with scan_bounded_fault [OF ok _ Inl] C(1) have "store_fault (lease_store l) (MigrationStore x)" by (simp add: pending_rows_def)
      with run get v c Inl show ?thesis by (auto simp: batch_run)
    qed
  qed
qed (use run in \<open>auto simp: batch_run map_err_def split: sum.splits intro: get_fault\<close>)

lemma same_handle_refl [simp]: "same_handle st st"
  by (simp add: same_handle_def)

lemma same_handle_trans: "same_handle st st' \<Longrightarrow> same_handle st' st'' \<Longrightarrow> same_handle st st''"
  by (simp add: same_handle_def)

lemma table_batch_handle:
  assumes "migrate_table_batch table v steps opts l = (l', r)"
  shows "same_handle (lease_store l) (lease_store l')"
proof -
  have "same_handle (lease_store l) (lease_store (fst (lease_apply_batch sets deletes l)))" for sets deletes
    by (metis lease_batch_fault(1) prod.collapse)
  then show ?thesis using assms
    by (auto simp: migrate_table_batch_def st_bind_def st_lift_def st_map_err_def Let_def map_prod_def case_prod_beta
        split: sum.splits option.splits prod.splits)
qed

lemma batch_handle:
  assumes "migrate_sync_schema_batch J D opts l = (l', r)"
  shows "same_handle (lease_store l) (lease_store l')"
proof -
  have "same_handle (lease_store l) (lease_store (fst (migrate_tables J D opts tables l)))" for tables l
  proof (induction tables arbitrary: l)
    case (Cons table tables)
    obtain l2 q where "migrate_table_batch table 1 [LEGACY_TO_V1 J D] opts l = (l2, q)" by fastforce
    with table_batch_handle [OF this] Cons [of l2] show ?case
      by (auto simp: st_bind_def st_lift_def split: sum.splits option.splits intro: same_handle_trans)
  qed (simp add: st_lift_def)
  from this [of l store_table_ALL] assms show ?thesis
    by (auto simp: migrate_sync_schema_batch_def st_bind_def st_lift_def split: sum.splits)
qed

lemma tables_store_fault:
  assumes "sled_ok (store_sled (lease_store l)) \<alpha>" "\<forall>table. migratable J D opts (lease_view \<alpha> l) table" "options_nonzero opts"
    and "migrate_tables J D opts tables l = (l', Inl e)"
  shows "store_fault (lease_store l) e"
  using assms
proof (induction tables arbitrary: l)
  case (Cons table tables)
  obtain l2 q where step: "migrate_table_batch table 1 [LEGACY_TO_V1 J D] opts l = (l2, q)" by fastforce
  have T: "sled_ok (store_sled (lease_store l2)) \<alpha>" "table_outcome J D table (lease_view \<alpha> l) q (lease_view \<alpha> l2)"
    using table_batch_refines [OF Cons.prems(1) migratable_fits Cons.prems(3) step] Cons.prems(2) by blast+
  have same: "same_handle (lease_store l) (lease_store l2)" using step by (rule table_batch_handle)
  show ?case
  proof (cases q)
    case (Inl f)
    then have "store_fault (lease_store l) f" using table_batch_store_fault [OF Cons.prems(1)] step Cons.prems(2) by blast
    with Inl step Cons.prems(4) show ?thesis by (simp add: st_bind_def)
  next
    case (Inr p)
    with T Cons.prems step have "migrate_tables J D opts tables l2 = (l', Inl e)" "lease_view \<alpha> l2 = lease_view \<alpha> l"
      by (auto simp: st_bind_def st_lift_def split: option.splits)
    with Cons.IH [OF T(1) _ Cons.prems(3)] Cons.prems(2) same_handle_fault [OF same] show ?thesis by simp
  qed
qed (simp add: st_lift_def)

lemma batch_store_fault:
  assumes "sled_ok (store_sled (lease_store l)) \<alpha>" "\<forall>table. migratable J D opts (lease_view \<alpha> l) table" "options_nonzero opts"
    and "migrate_sync_schema_batch J D opts l = (l', Inl e)"
  shows "store_fault (lease_store l) e"
proof (cases "preflight_checkpoints J D (lease_store l)")
  case (Inl f)
  have "\<exists>x \<in> set xs. g x = Inl f" if "fold_res (\<lambda>x _. g x) xs () = Inl f" for g :: "store_table \<Rightarrow> migration_error + unit" and xs
    using that by (induction xs) (auto split: sum.splits)
  with Inl obtain table where "preflight_checkpoint J D (lease_store l) table = Inl f"
    unfolding preflight_checkpoints_def by blast
  with preflight_store_fault [OF assms(1) migratable_fits] assms(2) have "store_fault (lease_store l) f" by blast
  with Inl assms(4) show ?thesis by (simp add: migrate_sync_schema_batch_def st_bind_def st_lift_def)
next
  case (Inr u)
  then have "migrate_tables J D opts store_table_ALL l = (l', Inl e)"
    using assms(4) by (simp add: migrate_sync_schema_batch_def st_bind_def st_lift_def)
  from tables_store_fault [OF assms(1-3) this] show ?thesis .
qed

section \<open>The whole migration\<close>

lemma loop_returns:
  assumes "sled_ok (store_sled (lease_store l)) \<alpha>" "options_nonzero opts"
  shows "\<exists>l' r. migration_loop J D opts l = Some (l', r) \<and> sled_ok (store_sled (lease_store l')) \<alpha>
    \<and> migrated J D (lease_view \<alpha> l) (lease_view \<alpha> l')
    \<and> (r = Inr () \<longrightarrow> (\<forall>table. table_ready (lease_view \<alpha> l') table \<and> om_get (lease_view \<alpha> l') (checkpoint_key table) = None))
    \<and> ((\<forall>table. migratable J D opts (lease_view \<alpha> l) table) \<longrightarrow> (\<forall>e. r = Inl e \<longrightarrow> store_fault (lease_store l) e))"
  using assms(1)
proof (induction "migration_work (lease_view \<alpha> l)" arbitrary: l rule: less_induct)
  case less
  obtain l2 q where q: "migrate_sync_schema_batch J D opts l = (l2, q)" by fastforce
  note B = batch_refines [OF less.prems assms(2) q]
  show ?case
  proof (cases "\<exists>p. q = Inr p \<and> p \<noteq> MigrationComplete")
    case True
    then obtain p where p: "q = Inr p" "p \<noteq> MigrationComplete" by blast
    with B have step: "migrates J D (lease_view \<alpha> l) p (lease_view \<alpha> l2)" "sled_ok (store_sled (lease_store l2)) \<alpha>" by auto
    have "migrated J D (lease_view \<alpha> l) m" if "migrated J D (lease_view \<alpha> l2) m" for m
      using that by (induction rule: migrated.induct) (auto intro: migrated.intros step)
    moreover have "migration_loop J D opts l = migration_loop J D opts l2"
      by (subst migration_loop.simps) (simp add: q p)
    ultimately show ?thesis
      using less.hyps [OF migrates_work [OF step(1)] step(2)] migrates_migratable [OF step(1)]
        same_handle_fault [OF batch_handle [OF q]] by fastforce
  next
    case False
    then have "migration_loop J D opts l = Some (l2, map_sum id (\<lambda>_. ()) q)"
      by (subst migration_loop.simps) (auto simp: q split: sum.splits)
    with False B batch_store_fault [OF less.prems _ assms(2)] q show ?thesis
      by (auto split: sum.splits intro: migrated.start)
  qed
qed

lemma migrate_returns:
  assumes "sled_ok (store_sled st) \<alpha>" "options_nonzero opts"
  shows "\<exists>st' r. migrate_sync_schema J D opts st = Some (st', r) \<and> sled_ok (store_sled st') \<alpha>
    \<and> migrated J D (\<alpha> (store_db st)) (\<alpha> (store_db st'))
    \<and> (r = Inr () \<longrightarrow> (\<forall>table. table_ready (\<alpha> (store_db st')) table \<and> om_get (\<alpha> (store_db st')) (checkpoint_key table) = None))
    \<and> ((\<forall>table. migratable J D opts (\<alpha> (store_db st)) table) \<longrightarrow> (\<forall>e. r = Inl e \<longrightarrow> store_fault st e))"
proof (cases "write_lock_poisoned st")
  case True
  with assms(1) show ?thesis
    by (auto simp: migrate_sync_schema_def migration_new_def registries_valid acquire_write_lease_def store_fault_def
        intro: migrated.start)
next
  case False
  then have "migrate_sync_schema J D opts st = map_option (map_prod lease_store id) (migration_loop J D opts (StoreWriteLease st))"
    by (simp add: migrate_sync_schema_def migration_new_def registries_valid acquire_write_lease_def)
  with loop_returns [of "StoreWriteLease st" \<alpha> opts J D] assms show ?thesis by fastforce
qed

lemma migrated_trans: "migrated J D m1 m2 \<Longrightarrow> migrated J D m m1 \<Longrightarrow> migrated J D m m2"
  by (induction rule: migrated.induct) (auto intro: migrated.intros)

text \<open>What a migration ends with is determined by what it starts with.\<close>

definition all_current :: "contents \<Rightarrow> bool" where
  "all_current m = list_all (\<lambda>table. table_ready m table \<and> om_get m (checkpoint_key table) = None) store_table_ALL"

lemma all_current_iff: "all_current m \<longleftrightarrow> (\<forall>table. table_ready m table \<and> om_get m (checkpoint_key table) = None)"
  by (auto simp: all_current_def list_all_iff)

lemma migrated_unique:
  assumes "migrated J D m a" "migrated J D m b" "all_current a" "all_current b"
  shows "a = b"
  unfolding om_eq_iff
proof
  fix k
  show "om_get a k = om_get b k"
    using assms migrated_keeps [OF assms(1), of k] migrated_keeps [OF assms(2), of k]
    by (cases "k \<in> range schema_key \<union> range checkpoint_key") (auto simp: all_current_iff table_ready_def)
qed

section \<open>Properties of the migration\<close>

text \<open>
  The checkpoint format is exact: decoding for a table accepts precisely the encodings of the
  checkpoints of that table and gives the checkpoint back; an absent cursor and an empty one
  have the same encoding.
\<close>

theorem checkpoint_exact:
  "checkpoint_decode table bs = Inr c \<longleftrightarrow>
   checkpoint_encode c = Inr bs \<and> checkpoint_table c = table \<and> last_processed_key c \<noteq> Some []"
proof
  assume "checkpoint_encode c = Inr bs \<and> checkpoint_table c = table \<and> last_processed_key c \<noteq> Some []"
  with decode_encoded [of c bs table] show "checkpoint_decode table bs = Inr c"
    by (cases c) (auto simp: cursor_bytes_def split: option.splits)
qed (rule decode_is_encoded)

text \<open>
  C17. Migration always returns, whatever the store holds and however it fails, and it never touches
  a key that is neither a header nor a checkpoint. When it succeeds every table carries the
  current header and no checkpoint is left, every record of an unversioned table that was
  still to be checked has been checked, and opening the store for synchronisation then writes
  nothing. On a store whose tables are current or hold records that parse and fit a
  batch, it can fail only with an error that the database reports, or because writing fails.
\<close>

theorem migration_completes:
  assumes "sled_ok (store_sled st) \<alpha>" "options_nonzero opts"
  defines "m \<equiv> \<alpha> (store_db st)"
  shows "\<exists>st' r. migrate_sync_schema J D opts st = Some (st', r)
    \<and> (\<forall>k. k \<notin> range schema_key \<union> range checkpoint_key \<longrightarrow> om_get (\<alpha> (store_db st')) k = om_get m k)
    \<and> (r = Inr () \<longrightarrow> all_current (\<alpha> (store_db st'))
        \<and> (\<forall>table. unversioned m table \<longrightarrow> list_all (record_valid J D table) (pending_rows m table))
        \<and> (\<forall>st'' r'. ensure_sync_schema st' = (st'', r') \<longrightarrow> st'' = st' \<and> (r' = Inr () \<or> (\<exists>e. r' = Inl (SchemaStore e)))))
    \<and> ((\<forall>table. migratable J D opts m table) \<longrightarrow> (\<forall>e. r = Inl e \<longrightarrow> store_fault st e))"
proof -
  obtain st' r where run: "migrate_sync_schema J D opts st = Some (st', r)" "sled_ok (store_sled st') \<alpha>"
    "migrated J D m (\<alpha> (store_db st'))" "r = Inr () \<longrightarrow> all_current (\<alpha> (store_db st'))"
    "(\<forall>table. migratable J D opts m table) \<longrightarrow> (\<forall>e. r = Inl e \<longrightarrow> store_fault st e)"
    using migrate_returns [OF assms(1,2), of J D] unfolding m_def all_current_iff by blast
  have "list_all (record_valid J D table) (pending_rows m table)" if "r = Inr ()" "unversioned m table" for table
    using migrated_validated [OF run(3) that(2)] that(1) run(4) unversioned_not_ready
    by (auto simp: all_current_iff split: if_splits)
  moreover have "st'' = st' \<and> (r' = Inr () \<or> (\<exists>e. r' = Inl (SchemaStore e)))"
    if "r = Inr ()" "ensure_sync_schema st' = (st'', r')" for st'' r'
    using ensure_schema_ready [OF run(2) _ that(2)] run(4) that(1) by (auto simp: all_current_iff)
  ultimately show ?thesis
    using run migrated_keeps [OF run(3)] by (intro exI [of _ st'] exI [of _ r]) blast
qed


section \<open>A store from before the schema\<close>

definition sample_decoders :: materialized_decoders where
  "sample_decoders = \<lparr>entries_from_slice = (\<lambda>_. Inl ''entries''), strings_from_slice = (\<lambda>_. Inl ''strings''),
     values_from_slice = (\<lambda>_. Inl ''values'')\<rparr>"

definition legacy_row :: "bytes \<times> bytes" where
  "legacy_row = (prefixed_store_key LWW_REGISTER_STORE_PREFIX ''a'', [7])"

definition legacy_store :: contents where
  "legacy_store = om_insert (fst legacy_row) (snd legacy_row) om_empty"

definition one_by_one :: migration_options where
  "one_by_one = \<lparr>max_records = 1, max_bytes = 100\<rparr>"

lemma legacy_prefix: "starts_with (fst legacy_row) (as_bytes (data_prefix table)) \<longleftrightarrow> table = LwwRegisterMaterialized"
proof -
  have "data_prefix table = LWW_REGISTER_STORE_PREFIX \<longleftrightarrow> table = LwwRegisterMaterialized"
    by (cases table) (simp_all add: store_prefix_defs)
  moreover have "LWW_REGISTER_STORE_PREFIX \<in> set table_prefixes" by (simp add: table_prefixes_def)
  ultimately show ?thesis
    using prefixed_key_other [OF data_prefix_table, of LWW_REGISTER_STORE_PREFIX table] by (auto simp: legacy_row_def)
qed

lemma legacy_get [simp]: "om_get legacy_store (schema_key table) = None" "om_get legacy_store (checkpoint_key table) = None"
  using engine_key(3,4) [of table LwwRegisterMaterialized] legacy_prefix [of LwwRegisterMaterialized]
  by (auto simp: legacy_store_def)

lemma legacy_pending:
  "pending_rows legacy_store table = (if table = LwwRegisterMaterialized then [legacy_row] else [])"
  by (simp add: pending_rows_def table_cursor_def page_entries_def legacy_store_def [THEN arg_cong [where f = om_entries]] legacy_prefix is_excluded_def)

lemma legacy_row_valid: "record_valid J D LwwRegisterMaterialized legacy_row" "fits_batch 100 legacy_row"
proof -
  have "utf8_valid (as_bytes ''a'')" by code_simp
  then show "record_valid J D LwwRegisterMaterialized legacy_row"
    by (simp add: record_valid_def migrate_legacy_record_def legacy_row_def logical_key_prefixed)
  show "fits_batch 100 legacy_row"
    by (simp add: fits_batch_def legacy_row_def prefixed_store_key_def store_prefix_defs)
qed

lemma legacy_migratable: "migratable sample_serde sample_decoders one_by_one legacy_store table"
  by (simp add: migratable_def unversioned_def checkpoint_fits_def legacy_pending legacy_row_valid one_by_one_def)

lemma mem_store_no_fault: "\<not> store_fault (mem_store m) e"
  by (auto simp: store_fault_def sled_errors_def mem_store_def mem_sled_def)

declare mem_sled_ok [simp]

lemma one_by_one_nonzero [simp]: "options_nonzero one_by_one"
  by (simp add: options_nonzero_def one_by_one_def)

lemma mem_store_migrates:
  assumes "\<forall>table. migratable J D opts m table" "options_nonzero opts"
  shows "\<exists>st'. migrate_sync_schema J D opts (mem_store m) = Some (st', Inr ())"
proof -
  obtain st' r where "migrate_sync_schema J D opts (mem_store m) = Some (st', r)" "\<forall>e. r \<noteq> Inl e"
    using migrate_returns [of "mem_store m" id opts J D] assms mem_store_no_fault [of m] by auto
  then show ?thesis by (cases r) auto
qed

theorem migration_completes_witness:
  "\<exists>st'. migrate_sync_schema sample_serde sample_decoders one_by_one (mem_store legacy_store) = Some (st', Inr ())
     \<and> all_current (store_db st') \<and> om_get (store_db st') (fst legacy_row) = Some [7]"
proof -
  have "fst legacy_row \<notin> range schema_key \<union> range checkpoint_key"
    using engine_key(3,4) [of _ LwwRegisterMaterialized] legacy_prefix [of LwwRegisterMaterialized] by auto
  moreover have "om_get legacy_store (fst legacy_row) = Some [7]" by (simp add: legacy_store_def legacy_row_def)
  moreover obtain st' where "migrate_sync_schema sample_serde sample_decoders one_by_one (mem_store legacy_store) = Some (st', Inr ())"
    using mem_store_migrates legacy_migratable one_by_one_nonzero by blast
  ultimately show ?thesis
    using migration_completes [of "mem_store legacy_store" id one_by_one sample_serde sample_decoders] by auto
qed

text \<open>The same store after one batch.\<close>

definition interrupted_store :: contents where
  "interrupted_store = om_insert (checkpoint_key LwwRegisterMaterialized)
     (projr (checkpoint_encode (cursor_at LwwRegisterMaterialized (fst legacy_row)))) legacy_store"


end
