(* ===== verification/Wire_Message.thy ===== *)
theory Wire_Message
  imports Sync_Config Peer_Health
begin

text \<open>
  \<open>nx-net/src/message.rs\<close> and the framing of \<open>nx-net/src/node.rs\<close>: the messages of the protocol,
  the conversion between public messages and wire messages, the frame around an encoded
  message, and reading and writing frames on a stream.

  \<open>serde_json\<close> and \<open>wincode\<close> are third-party: their encoders and decoders are the parameter
  \<open>wire_codec\<close>, and \<open>wire_codec_ok\<close> names what is relied on. A stream is the bytes that will
  still arrive, with what happens after the last of them.
\<close>

section \<open>Messages\<close>

definition FORMAT_JSON :: u8 where "FORMAT_JSON = 0x01"
definition FORMAT_BINCODE :: u8 where "FORMAT_BINCODE = 0x02"
definition MIB :: nat where "MIB = 1024 * 1024"

fun to_wire_byte :: "serialization_format \<Rightarrow> u8" where
  "to_wire_byte Json_Format = FORMAT_JSON"
| "to_wire_byte Bincode_Format = FORMAT_BINCODE"

definition from_wire_byte :: "u8 \<Rightarrow> net_error + serialization_format" where
  "from_wire_byte byte =
     (if byte = FORMAT_JSON then Inr Json_Format
      else if byte = FORMAT_BINCODE then Inr Bincode_Format
      else Inl (InvalidMessage ''unknown serialization format byte''))"

definition DEFAULT_SUPPORTED_FORMATS :: "serialization_format list" where
  "DEFAULT_SUPPORTED_FORMATS = [Bincode_Format, Json_Format]"

datatype message_kind =
    Hello node_id u32 "serialization_format list" serialization_format
  | HelloAck node_id u32 serialization_format
  | PushOps "Op list"
  | PushOpsAck u64
  | PullSince "string option"
  | Ping
  | Pong
  | ErrorMessage wire_error

record message =
  kind :: message_kind

datatype protocol_wire_error =
    WireProtocolMismatch u32 u32
  | WireOpRejected string
  | WireRateLimited "u64 option"
  | WireNotAuthorized string
  | WireInternal string
  | BootstrapRejected string

datatype wire_message_kind =
    WireHello node_id u32 "serialization_format list" serialization_format
  | WireHelloAck node_id u32 serialization_format
  | WirePushOps "Op list"
  | WirePushOpsAck u64
  | WirePullSince "string option"
  | WirePing
  | WirePong
  | WireErrorMessage protocol_wire_error
  | BootstrapHello node_id u32 "serialization_format list" serialization_format string "string option" u32
  | BootstrapAck node_id u32 serialization_format string "string list" u64

record wire_message =
  wire_kind :: wire_message_kind

definition hello_with_formats :: "node_id \<Rightarrow> serialization_format list \<Rightarrow> serialization_format \<Rightarrow> message" where
  "hello_with_formats n supported_formats preferred_format =
     \<lparr>kind = Hello n PROTOCOL_VERSION supported_formats preferred_format\<rparr>"

definition hello :: "node_id \<Rightarrow> message" where
  "hello n = hello_with_formats n DEFAULT_SUPPORTED_FORMATS Bincode_Format"

definition hello_ack_with_format :: "node_id \<Rightarrow> serialization_format \<Rightarrow> message" where
  "hello_ack_with_format n selected_format = \<lparr>kind = HelloAck n PROTOCOL_VERSION selected_format\<rparr>"

definition hello_ack :: "node_id \<Rightarrow> message" where
  "hello_ack n = hello_ack_with_format n Bincode_Format"

definition push_ops :: "Op list \<Rightarrow> message" where "push_ops ops = \<lparr>kind = PushOps ops\<rparr>"
definition push_ops_ack :: "nat \<Rightarrow> message" where "push_ops_ack received_count = \<lparr>kind = PushOpsAck (of_nat received_count)\<rparr>"
definition pull_since :: "string option \<Rightarrow> message" where "pull_since since_op_id = \<lparr>kind = PullSince since_op_id\<rparr>"
definition ping :: message where "ping = \<lparr>kind = Ping\<rparr>"
definition pong :: message where "pong = \<lparr>kind = Pong\<rparr>"
definition message_wire_error :: "wire_error \<Rightarrow> message" where "message_wire_error error = \<lparr>kind = ErrorMessage error\<rparr>"

definition bootstrap_hello ::
    "node_id \<Rightarrow> serialization_format list \<Rightarrow> serialization_format \<Rightarrow> string \<Rightarrow> string option \<Rightarrow> u32 \<Rightarrow> wire_message" where
  "bootstrap_hello n supported_formats preferred_format cluster_id advertised_endpoint max_results =
     \<lparr>wire_kind = BootstrapHello n PROTOCOL_VERSION supported_formats preferred_format cluster_id advertised_endpoint max_results\<rparr>"

definition bootstrap_ack :: "node_id \<Rightarrow> serialization_format \<Rightarrow> string \<Rightarrow> string list \<Rightarrow> u64 \<Rightarrow> wire_message" where
  "bootstrap_ack n selected_format cluster_id candidates candidate_ttl_ms =
     \<lparr>wire_kind = BootstrapAck n PROTOCOL_VERSION selected_format cluster_id candidates candidate_ttl_ms\<rparr>"

definition wire_message_error :: "protocol_wire_error \<Rightarrow> wire_message" where
  "wire_message_error error = \<lparr>wire_kind = WireErrorMessage error\<rparr>"

section \<open>Conversions\<close>

fun protocol_error_of :: "wire_error \<Rightarrow> protocol_wire_error" where
  "protocol_error_of (ProtocolMismatch expected got) = WireProtocolMismatch expected got"
| "protocol_error_of (OpRejected reason) = WireOpRejected reason"
| "protocol_error_of (RateLimited retry_after_ms) = WireRateLimited retry_after_ms"
| "protocol_error_of (NotAuthorized reason) = WireNotAuthorized reason"
| "protocol_error_of (InternalWireError reason) = WireInternal reason"

fun wire_error_of :: "protocol_wire_error \<Rightarrow> net_error + wire_error" where
  "wire_error_of (WireProtocolMismatch expected got) = Inr (ProtocolMismatch expected got)"
| "wire_error_of (WireOpRejected reason) = Inr (OpRejected reason)"
| "wire_error_of (WireRateLimited retry_after_ms) = Inr (RateLimited retry_after_ms)"
| "wire_error_of (WireNotAuthorized reason) = Inr (NotAuthorized reason)"
| "wire_error_of (WireInternal reason) = Inr (InternalWireError reason)"
| "wire_error_of (BootstrapRejected _) = Inl (InvalidMessage ''bootstrap wire errors are not public protocol messages'')"

fun wire_kind_of :: "message_kind \<Rightarrow> wire_message_kind" where
  "wire_kind_of (Hello n v fs p) = WireHello n v fs p"
| "wire_kind_of (HelloAck n v f) = WireHelloAck n v f"
| "wire_kind_of (PushOps ops) = WirePushOps ops"
| "wire_kind_of (PushOpsAck c) = WirePushOpsAck c"
| "wire_kind_of (PullSince i) = WirePullSince i"
| "wire_kind_of Ping = WirePing"
| "wire_kind_of Pong = WirePong"
| "wire_kind_of (ErrorMessage e) = WireErrorMessage (protocol_error_of e)"

definition wire_of_message :: "message \<Rightarrow> wire_message" where
  "wire_of_message m = \<lparr>wire_kind = wire_kind_of (kind m)\<rparr>"

fun kind_of_wire :: "wire_message_kind \<Rightarrow> net_error + message_kind" where
  "kind_of_wire (WireHello n v fs p) = Inr (Hello n v fs p)"
| "kind_of_wire (WireHelloAck n v f) = Inr (HelloAck n v f)"
| "kind_of_wire (WirePushOps ops) = Inr (PushOps ops)"
| "kind_of_wire (WirePushOpsAck c) = Inr (PushOpsAck c)"
| "kind_of_wire (WirePullSince i) = Inr (PullSince i)"
| "kind_of_wire WirePing = Inr Ping"
| "kind_of_wire WirePong = Inr Pong"
| "kind_of_wire (WireErrorMessage e) = res_bind (wire_error_of e) (\<lambda>e. Inr (ErrorMessage e))"
| "kind_of_wire (BootstrapHello _ _ _ _ _ _ _) = Inl (InvalidMessage ''bootstrap wire messages are not public protocol messages'')"
| "kind_of_wire (BootstrapAck _ _ _ _ _ _) = Inl (InvalidMessage ''bootstrap wire messages are not public protocol messages'')"

definition message_of_wire :: "wire_message \<Rightarrow> net_error + message" where
  "message_of_wire w = res_bind (kind_of_wire (wire_kind w)) (\<lambda>k. Inr \<lparr>kind = k\<rparr>)"

section \<open>Frames\<close>

text \<open>
  The encoders and decoders of both message types. A binary decoder is given the limit on what
  it may allocate up front, \<open>None\<close> for no limit.
\<close>

record 'm format_codec =
  codec_to_json :: "'m \<Rightarrow> string + bytes"
  codec_from_json :: "bytes \<Rightarrow> string + 'm"
  codec_to_binary :: "'m \<Rightarrow> string + bytes"
  codec_from_binary :: "nat option \<Rightarrow> bytes \<Rightarrow> string + 'm"

record wire_codec =
  message_codec :: "message format_codec"
  wire_message_codec :: "wire_message format_codec"

definition encode_frame :: "serialization_format \<Rightarrow> net_error + bytes \<Rightarrow> net_error + bytes \<Rightarrow> net_error + bytes" where
  "encode_frame fmt json binary =
     res_bind (case fmt of Json_Format \<Rightarrow> json | Bincode_Format \<Rightarrow> binary) (\<lambda>payload.
       if length payload + 1 \<ge> 2 ^ 32 then Inl (InvalidMessage ''message payload exceeds u32'')
       else Inr (u32_to_be_bytes (of_nat (length payload + 1)) @ to_wire_byte fmt # payload))"

definition decode_frame ::
    "bytes \<Rightarrow> (bytes \<Rightarrow> string + 'm) \<Rightarrow> (bytes \<Rightarrow> string + 'm) \<Rightarrow> net_error + serialization_format \<times> 'm" where
  "decode_frame bs json binary =
     (case bs of
        [] \<Rightarrow> Inl (InvalidMessage ''message payload is missing serialization format byte'')
      | format_byte # payload \<Rightarrow>
          res_bind (from_wire_byte format_byte) (\<lambda>fmt.
          res_bind (case fmt of
              Json_Format \<Rightarrow> map_err Serialization (json payload)
            | Bincode_Format \<Rightarrow> map_err BinaryDeserialization (binary payload)) (\<lambda>m.
          Inr (fmt, m))))"

definition validate_payload_len :: "nat \<Rightarrow> nat \<Rightarrow> net_error + unit" where
  "validate_payload_len len limit = (if len > limit then Inl (MessageTooLarge len limit) else Inr ())"

datatype binary_preallocation_limit =
  Limit4MiB | Limit16MiB | Limit64MiB | Limit256MiB | Limit1024MiB | LimitDisabled

definition select_binary_preallocation_limit :: "nat \<Rightarrow> binary_preallocation_limit" where
  "select_binary_preallocation_limit declared_len =
     (if declared_len \<le> 4 * MIB then Limit4MiB
      else if declared_len \<le> 16 * MIB then Limit16MiB
      else if declared_len \<le> 64 * MIB then Limit64MiB
      else if declared_len \<le> 256 * MIB then Limit256MiB
      else if declared_len \<le> 1024 * MIB then Limit1024MiB
      else LimitDisabled)"

fun preallocation_bytes :: "binary_preallocation_limit \<Rightarrow> nat option" where
  "preallocation_bytes Limit4MiB = Some (4 * MIB)"
| "preallocation_bytes Limit16MiB = Some (16 * MIB)"
| "preallocation_bytes Limit64MiB = Some (64 * MIB)"
| "preallocation_bytes Limit256MiB = Some (256 * MIB)"
| "preallocation_bytes Limit1024MiB = Some (1024 * MIB)"
| "preallocation_bytes LimitDisabled = None"

definition deserialize_binary :: "'m format_codec \<Rightarrow> bytes \<Rightarrow> string + 'm" where
  "deserialize_binary c payload =
     codec_from_binary c (preallocation_bytes (select_binary_preallocation_limit (length payload))) payload"

definition to_bytes_with_format :: "'m format_codec \<Rightarrow> serialization_format \<Rightarrow> 'm \<Rightarrow> net_error + bytes" where
  "to_bytes_with_format c fmt m =
     encode_frame fmt (map_err Serialization (codec_to_json c m)) (map_err BinarySerialization (codec_to_binary c m))"

definition to_bytes :: "'m format_codec \<Rightarrow> 'm \<Rightarrow> net_error + bytes" where
  "to_bytes c m = to_bytes_with_format c Bincode_Format m"

definition to_json_bytes :: "'m format_codec \<Rightarrow> 'm \<Rightarrow> net_error + bytes" where
  "to_json_bytes c m = to_bytes_with_format c Json_Format m"

definition from_bytes_with_format :: "'m format_codec \<Rightarrow> bytes \<Rightarrow> net_error + serialization_format \<times> 'm" where
  "from_bytes_with_format c bs = decode_frame bs (codec_from_json c) (deserialize_binary c)"

definition from_bytes :: "'m format_codec \<Rightarrow> bytes \<Rightarrow> net_error + 'm" where
  "from_bytes c bs = res_bind (from_bytes_with_format c bs) (\<lambda>(_, m). Inr m)"

section \<open>Streams\<close>

text \<open>
  What a peer will still send: bytes, then the end of the stream or silence. \<open>read_exact\<close> under
  the socket timeout returns that many bytes, or fails and has used up what there was.
\<close>

datatype stream_end = StreamClosed | StreamSilent | StreamBroken string

record stream =
  stream_bytes :: bytes
  stream_end :: stream_end

fun end_error :: "stream_end \<Rightarrow> net_error" where
  "end_error StreamClosed = NetIo ''unexpected end of file''"
| "end_error StreamSilent = Timeout"
| "end_error (StreamBroken e) = NetIo e"

definition read_exact :: "nat \<Rightarrow> (stream, net_error, bytes) stm" where
  "read_exact n s =
     (if n \<le> length (stream_bytes s)
      then (s\<lparr>stream_bytes := drop n (stream_bytes s)\<rparr>, Inr (take n (stream_bytes s)))
      else (s\<lparr>stream_bytes := []\<rparr>, Inl (end_error (stream_end s))))"

definition read_wire_message_with_format ::
    "wire_codec \<Rightarrow> nat \<Rightarrow> (stream, net_error, serialization_format \<times> wire_message) stm" where
  "read_wire_message_with_format C max_message_size =
     st_bind (read_exact 4) (\<lambda>len_buf.
     let len = unat (u32_from_be_bytes len_buf) in
     st_bind (st_lift (validate_payload_len len max_message_size)) (\<lambda>_.
     st_bind (read_exact len) (\<lambda>buf.
     st_lift (from_bytes_with_format (wire_message_codec C) buf))))"

definition read_message_with_format ::
    "wire_codec \<Rightarrow> nat \<Rightarrow> (stream, net_error, serialization_format \<times> message) stm" where
  "read_message_with_format C max_message_size =
     st_bind (read_wire_message_with_format C max_message_size) (\<lambda>(fmt, w).
     st_lift (res_bind (message_of_wire w) (\<lambda>m. Inr (fmt, m))))"

definition read_message :: "wire_codec \<Rightarrow> nat \<Rightarrow> (stream, net_error, message) stm" where
  "read_message C max_message_size =
     st_bind (read_message_with_format C max_message_size) (\<lambda>(_, m). st_lift (Inr m))"

text \<open>
  A writer is what has been sent. How many bytes \<open>write_all\<close> gets out before it fails or times
  out, and what \<open>flush\<close> returns, are given.
\<close>

datatype write_result = WriteAll | WriteStops nat net_error

definition write_bytes :: "write_result \<Rightarrow> net_error + unit \<Rightarrow> bytes \<Rightarrow> (bytes, net_error, unit) stm" where
  "write_bytes write_all flush bs out =
     (case write_all of
        WriteAll \<Rightarrow> (out @ bs, flush)
      | WriteStops n e \<Rightarrow> (out @ take n bs, Inl e))"

definition write_message ::
    "'m format_codec \<Rightarrow> serialization_format \<Rightarrow> write_result \<Rightarrow> net_error + unit \<Rightarrow> 'm \<Rightarrow> (bytes, net_error, unit) stm" where
  "write_message c fmt write_all flush m =
     st_bind (st_lift (to_bytes_with_format c fmt m)) (write_bytes write_all flush)"

section \<open>What is expected of the encoders\<close>

text \<open>
  Decoding an encoded message gives it back, provided the binary decoder may allocate what the
  message needs (\<open>need\<close>, the memory of its longest sequence); and a message is encoded as the
  wire message it corresponds to, because both types derive the same layout for the variants
  they share.
\<close>

definition format_codec_ok :: "('m \<Rightarrow> nat) \<Rightarrow> 'm format_codec \<Rightarrow> bool" where
  "format_codec_ok need c =
     ((\<forall>m b. codec_to_json c m = Inr b \<longrightarrow> codec_from_json c b = Inr m)
      \<and> (\<forall>m b limit. codec_to_binary c m = Inr b \<and> (case limit of None \<Rightarrow> True | Some n \<Rightarrow> need m \<le> n) \<longrightarrow>
           codec_from_binary c limit b = Inr m))"

definition wire_codec_ok :: "(wire_message \<Rightarrow> nat) \<Rightarrow> wire_codec \<Rightarrow> bool" where
  "wire_codec_ok need C =
     (format_codec_ok need (wire_message_codec C)
      \<and> (\<forall>m. codec_to_json (message_codec C) m = codec_to_json (wire_message_codec C) (wire_of_message m))
      \<and> (\<forall>m. codec_to_binary (message_codec C) m = codec_to_binary (wire_message_codec C) (wire_of_message m)))"

text \<open>The decoder of a payload of \<open>n\<close> bytes may allocate what \<open>m\<close> needs.\<close>

definition allocatable :: "('m \<Rightarrow> nat) \<Rightarrow> serialization_format \<Rightarrow> nat \<Rightarrow> 'm \<Rightarrow> bool" where
  "allocatable need fmt n m =
     (fmt = Json_Format \<or> (case preallocation_bytes (select_binary_preallocation_limit n) of None \<Rightarrow> True | Some k \<Rightarrow> need m \<le> k))"

lemma preallocation_covers_payload:
  "preallocation_bytes (select_binary_preallocation_limit n) = Some k \<Longrightarrow> n \<le> k"
  by (auto simp: select_binary_preallocation_limit_def split: if_splits)

section \<open>Lemmas on frames\<close>

lemma from_wire_byte_to [simp]: "from_wire_byte (to_wire_byte fmt) = Inr fmt"
  by (cases fmt) (simp_all add: from_wire_byte_def FORMAT_JSON_def FORMAT_BINCODE_def)

lemma from_wire_byte_Inr: "from_wire_byte b = Inr fmt \<longleftrightarrow> b = to_wire_byte fmt"
  by (cases fmt) (auto simp: from_wire_byte_def FORMAT_JSON_def FORMAT_BINCODE_def)

lemma to_bytes_Inr:
  assumes "to_bytes_with_format c fmt m = Inr bs"
  obtains payload where "bs = u32_to_be_bytes (of_nat (length payload + 1)) @ to_wire_byte fmt # payload"
    "length payload + 1 < 2 ^ 32"
    "case fmt of Json_Format \<Rightarrow> codec_to_json c m = Inr payload | Bincode_Format \<Rightarrow> codec_to_binary c m = Inr payload"
  using assms by (cases fmt) (auto simp: to_bytes_with_format_def encode_frame_def res_bind_Inr_iff split: if_splits)

lemma decode_encoded_frame:
  assumes "format_codec_ok need c" "to_bytes_with_format c fmt m = Inr bs" "allocatable need fmt (length bs - 5) m"
  shows "from_bytes_with_format c (drop 4 bs) = Inr (fmt, m)" "5 \<le> length bs"
    "unat (u32_from_be_bytes (take 4 bs)) = length bs - 4"
proof -
  obtain payload where bs: "bs = u32_to_be_bytes (of_nat (length payload + 1)) @ to_wire_byte fmt # payload"
    "length payload + 1 < 2 ^ 32"
    "case fmt of Json_Format \<Rightarrow> codec_to_json c m = Inr payload | Bincode_Format \<Rightarrow> codec_to_binary c m = Inr payload"
    using to_bytes_Inr [OF assms(2)] .
  from bs(1) show "5 \<le> length bs" by simp
  define w :: u32 where "w = of_nat (length payload + 1)"
  have "unat w = length payload + 1" unfolding w_def unat_of_nat using bs(2) by simp
  moreover note bs(1) [folded w_def]
  ultimately show "unat (u32_from_be_bytes (take 4 bs)) = length bs - 4" by simp
  have n: "length bs - 5 = length payload" "drop 4 bs = to_wire_byte fmt # payload" by (simp_all add: bs(1))
  have "from_bytes_with_format c (to_wire_byte fmt # payload) = res_bind (case fmt of
      Json_Format \<Rightarrow> map_err Serialization (codec_from_json c payload)
    | Bincode_Format \<Rightarrow> map_err BinaryDeserialization (deserialize_binary c payload)) (\<lambda>m. Inr (fmt, m))"
    by (simp add: from_bytes_with_format_def decode_frame_def)
  moreover have "deserialize_binary c payload = Inr m" if "fmt = Bincode_Format"
    using assms(1,3) bs(3) that by (simp add: n deserialize_binary_def format_codec_ok_def allocatable_def)
  moreover have "codec_from_json c payload = Inr m" if "fmt = Json_Format"
    using assms(1) bs(3) that by (simp add: format_codec_ok_def)
  ultimately show "from_bytes_with_format c (drop 4 bs) = Inr (fmt, m)"
    unfolding n by (cases fmt) simp_all
qed

lemma message_of_wire_iff: "message_of_wire w = Inr m \<longleftrightarrow> w = wire_of_message m"
proof
  assume "message_of_wire w = Inr m"
  then obtain k where k: "kind_of_wire (wire_kind w) = Inr k" "m = \<lparr>kind = k\<rparr>" by (auto simp: message_of_wire_def res_bind_Inr_iff)
  have e: "wire_error_of e = Inr e' \<Longrightarrow> e = protocol_error_of e'" for e e' by (cases e) auto
  from k(1) have "wire_kind w = wire_kind_of k" by (cases "wire_kind w") (auto simp: res_bind_Inr_iff dest: e)
  with k(2) show "w = wire_of_message m" by (cases w) (simp add: wire_of_message_def)
next
  have e: "wire_error_of (protocol_error_of e) = Inr e" for e by (cases e) auto
  have "kind_of_wire (wire_kind_of k) = Inr k" for k by (cases k) (auto simp: e)
  then show "w = wire_of_message m \<Longrightarrow> message_of_wire w = Inr m" by (cases m) (simp add: message_of_wire_def wire_of_message_def)
qed

section \<open>Lemmas on streams\<close>

abbreviation stream_of :: "stream_end \<Rightarrow> bytes \<Rightarrow> stream" where
  "stream_of e bs \<equiv> \<lparr>stream_bytes = bs, stream_end = e\<rparr>"

text \<open>Sending messages in a row, and reading so many of them.\<close>

definition send_all :: "wire_codec \<Rightarrow> (serialization_format \<times> message) list \<Rightarrow> (bytes, net_error, unit) stm" where
  "send_all C items = st_fold (\<lambda>(fmt, m) _. write_message (message_codec C) fmt WriteAll (Inr ()) m) items ()"

fun read_all :: "wire_codec \<Rightarrow> nat \<Rightarrow> nat \<Rightarrow> (stream, net_error, (serialization_format \<times> message) list) stm" where
  "read_all C max_message_size 0 = st_lift (Inr [])"
| "read_all C max_message_size (Suc n) =
     st_bind (read_message_with_format C max_message_size) (\<lambda>x.
     st_bind (read_all C max_message_size n) (\<lambda>xs. st_lift (Inr (x # xs))))"

lemma send_all_Cons:
  "send_all C ((fmt, m) # items) out = (out', Inr ()) \<longleftrightarrow>
     (\<exists>bs. to_bytes_with_format (message_codec C) fmt m = Inr bs \<and> send_all C items (out @ bs) = (out', Inr ()))"
  by (auto simp: send_all_def st_bind_Inr write_message_def write_bytes_def)

lemma send_all_grows: "send_all C items out = (out', Inr ()) \<Longrightarrow> \<exists>cs. out' = out @ cs"
proof (induction items arbitrary: out)
  case (Cons item items)
  then obtain bs where "send_all C items (out @ bs) = (out', Inr ())" by (cases item) (auto simp: send_all_Cons)
  from Cons.IH [OF this] show ?case by auto
qed (simp add: send_all_def st_lift_def)

lemma message_bytes:
  "wire_codec_ok need C \<Longrightarrow> to_bytes_with_format (message_codec C) fmt m = to_bytes_with_format (wire_message_codec C) fmt (wire_of_message m)"
  by (simp add: to_bytes_with_format_def wire_codec_ok_def)

text \<open>The frame of one item that a reader with these limits accepts.\<close>

definition readable :: "(wire_message \<Rightarrow> nat) \<Rightarrow> wire_codec \<Rightarrow> nat \<Rightarrow> serialization_format \<times> message \<Rightarrow> bool" where
  "readable need C max_message_size item =
     (case item of (fmt, m) \<Rightarrow> case to_bytes_with_format (message_codec C) fmt m of
        Inl _ \<Rightarrow> False
      | Inr bs \<Rightarrow> length bs - 4 \<le> max_message_size \<and> allocatable need fmt (length bs - 5) (wire_of_message m))"

lemma read_one:
  assumes "wire_codec_ok need C" "readable need C limit (fmt, m)" "to_bytes_with_format (message_codec C) fmt m = Inr bs"
  shows "read_message_with_format C limit (stream_of e (bs @ rest)) = (stream_of e rest, Inr (fmt, m))"
    and "k < length bs \<Longrightarrow> read_message_with_format C limit (stream_of e (take k bs)) = (stream_of e [], Inl (end_error e))"
proof -
  let ?len = "unat (u32_from_be_bytes (take 4 bs))"
  have wire: "to_bytes_with_format (wire_message_codec C) fmt (wire_of_message m) = Inr bs" using assms(3) message_bytes [OF assms(1)] by simp
  have fits: "length bs - 4 \<le> limit" "allocatable need fmt (length bs - 5) (wire_of_message m)"
    using assms(2,3) by (simp_all add: readable_def)
  have codec: "format_codec_ok need (wire_message_codec C)" using assms(1) by (simp add: wire_codec_ok_def)
  note D = decode_encoded_frame [OF codec wire fits(2)]
  show "read_message_with_format C limit (stream_of e (bs @ rest)) = (stream_of e rest, Inr (fmt, m))"
    using D fits(1) message_of_wire_iff [of "wire_of_message m" m]
    by (simp add: read_message_with_format_def read_wire_message_with_format_def read_exact_def st_bind_def st_lift_def Let_def
        validate_payload_len_def)
  assume k: "k < length bs"
  show "read_message_with_format C limit (stream_of e (take k bs)) = (stream_of e [], Inl (end_error e))"
  proof (cases "k < 4")
    case False
    then have "take 4 (take k bs) = take 4 bs" "\<not> length bs - 4 \<le> k - 4" using k by simp_all
    with False k D fits(1) show ?thesis
      by (simp add: read_message_with_format_def read_wire_message_with_format_def read_exact_def st_bind_def st_lift_def Let_def
          validate_payload_len_def)
  qed (use k in \<open>simp add: read_message_with_format_def read_wire_message_with_format_def read_exact_def st_bind_def\<close>)
qed

lemma send_read:
  assumes "wire_codec_ok need C" "list_all (readable need C limit) items" "send_all C items out = (out @ bs, Inr ())"
  shows "read_all C limit (length items) (stream_of e (bs @ rest)) = (stream_of e rest, Inr items)
    \<and> (\<forall>k < length bs. read_all C limit (length items) (stream_of e (take k bs)) = (stream_of e [], Inl (end_error e)))"
  using assms(2,3)
proof (induction items arbitrary: out bs)
  case Nil
  then show ?case by (simp add: send_all_def st_lift_def)
next
  case (Cons item items)
  obtain fmt m where item: "item = (fmt, m)" by (cases item)
  from Cons.prems(2) obtain b where b: "to_bytes_with_format (message_codec C) fmt m = Inr b" "send_all C items (out @ b) = (out @ bs, Inr ())"
    unfolding item send_all_Cons by blast
  from send_all_grows [OF b(2)] obtain cs where bs: "bs = b @ cs" by auto
  have IH: "read_all C limit (length items) (stream_of e (cs @ rest)) = (stream_of e rest, Inr items)"
    "\<forall>k < length cs. read_all C limit (length items) (stream_of e (take k cs)) = (stream_of e [], Inl (end_error e))"
    using Cons.IH [of "out @ b" cs] Cons.prems(1) b(2) by (simp_all add: bs)
  have r: "readable need C limit (fmt, m)" using Cons.prems(1) by (simp add: item)
  note R = read_one [OF assms(1) r b(1)]
  have "read_all C limit (Suc (length items)) (stream_of e (take k bs)) = (stream_of e [], Inl (end_error e))" if "k < length bs" for k
  proof (cases "k < length b")
    case True
    with R(2) show ?thesis by (simp add: bs st_bind_def)
  next
    case False
    then have "take k bs = b @ take (k - length b) cs" "k - length b < length cs" using that by (simp_all add: bs)
    with IH(2) R(1) show ?thesis by (simp add: st_bind_def)
  qed
  with IH(1) R(1) [where rest = "cs @ rest"] show ?case by (simp add: bs st_bind_def st_lift_def item)
qed

lemma read_exact_uses:
  "read_exact n s = (s', r) \<Longrightarrow> \<exists>used. stream_bytes s = used @ stream_bytes s' \<and> stream_end s' = stream_end s
     \<and> length used \<le> n \<and> (\<forall>bs. r = Inr bs \<longrightarrow> used = bs \<and> length bs = n)"
  by (auto simp: read_exact_def split: if_splits intro: exI [of _ "take n (stream_bytes s)"])

section \<open>Properties of the wire protocol\<close>

text \<open>
  C37. Public messages and wire messages: every public message has exactly one wire form and is read
  back from it, and the messages of the bootstrap exchange are never taken for public ones.
\<close>

theorem wire_conversion_exact:
  "(message_of_wire w = Inr m \<longleftrightarrow> w = wire_of_message m)
   \<and> is_ok (message_of_wire w) = (case wire_kind w of
        BootstrapHello _ _ _ _ _ _ _ \<Rightarrow> False | BootstrapAck _ _ _ _ _ _ \<Rightarrow> False
      | WireErrorMessage (BootstrapRejected _) \<Rightarrow> False | _ \<Rightarrow> True)"
proof (intro conjI message_of_wire_iff)
  show "is_ok (message_of_wire w) = (case wire_kind w of
        BootstrapHello _ _ _ _ _ _ _ \<Rightarrow> False | BootstrapAck _ _ _ _ _ _ \<Rightarrow> False
      | WireErrorMessage (BootstrapRejected _) \<Rightarrow> False | _ \<Rightarrow> True)"
    by (auto simp: message_of_wire_def split: wire_message_kind.splits protocol_wire_error.splits)
qed

text \<open>
  A conversation is read as it was sent: from the bytes of any messages, each in its own format
  and within the reader's limits, a reader gets exactly these messages in order and leaves what
  follows untouched; when the stream is cut anywhere before the end it reports how the stream
  ended and never a message that was not sent.
\<close>

theorem message_stream_roundtrip:
  assumes "wire_codec_ok need C" "list_all (readable need C limit) items" "send_all C items [] = (bs, Inr ())"
  shows "read_all C limit (length items) (stream_of e (bs @ rest)) = (stream_of e rest, Inr items)
    \<and> (\<forall>k < length bs. read_all C limit (length items) (stream_of e (take k bs)) = (stream_of e [], Inl (end_error e)))"
  using send_read [OF assms(1,2), where out = "[]"] assms(3) by simp

text \<open>A codec that knows two messages.\<close>

definition tiny_codec :: "'m \<Rightarrow> 'm \<Rightarrow> 'm format_codec" where
  "tiny_codec a b =
     (let enc = (\<lambda>m. if m = a then Inr [0] else if m = b then Inr [1] else Inl ''unknown'');
          dec = (\<lambda>bs. if bs = [0] then Inr a else if bs = [1] then Inr b else Inl ''unknown'')
      in \<lparr>codec_to_json = enc, codec_from_json = dec, codec_to_binary = enc, codec_from_binary = (\<lambda>_. dec)\<rparr>)"

definition tiny_wire_codec :: wire_codec where
  "tiny_wire_codec = \<lparr>message_codec = tiny_codec ping pong,
     wire_message_codec = tiny_codec (wire_of_message ping) (wire_of_message pong)\<rparr>"

lemma tiny_codec_ok: "format_codec_ok need (tiny_codec a b)"
  by (auto simp: format_codec_ok_def tiny_codec_def Let_def split: if_splits)

lemma tiny_wire_codec_ok: "wire_codec_ok need tiny_wire_codec"
proof -
  have inj: "wire_of_message m = wire_of_message n \<longleftrightarrow> m = n" for m n
    using message_of_wire_iff [of "wire_of_message m" m] message_of_wire_iff [of "wire_of_message m" n] by auto
  show ?thesis
    by (simp add: wire_codec_ok_def tiny_wire_codec_def tiny_codec_ok) (simp add: tiny_codec_def Let_def inj)
qed

lemma tiny_bytes:
  "to_bytes_with_format (message_codec tiny_wire_codec) Json_Format ping = Inr [0, 0, 0, 2, 1, 0]"
  "to_bytes_with_format (message_codec tiny_wire_codec) Bincode_Format pong = Inr [0, 0, 0, 2, 2, 1]"
proof -
  have two: "u32_to_be_bytes 2 = [0, 0, 0, 2]" by code_simp
  show "to_bytes_with_format (message_codec tiny_wire_codec) Json_Format ping = Inr [0, 0, 0, 2, 1, 0]"
    "to_bytes_with_format (message_codec tiny_wire_codec) Bincode_Format pong = Inr [0, 0, 0, 2, 2, 1]"
    by (simp_all add: to_bytes_with_format_def encode_frame_def tiny_wire_codec_def tiny_codec_def ping_def pong_def
        Let_def two FORMAT_JSON_def FORMAT_BINCODE_def)
qed

theorem message_stream_roundtrip_witness:
  "read_all tiny_wire_codec 2 2 (stream_of StreamClosed [0, 0, 0, 2, 1, 0, 0, 0, 0, 2, 2, 1, 9])
     = (stream_of StreamClosed [9], Inr [(Json_Format, ping), (Bincode_Format, pong)])
   \<and> read_all tiny_wire_codec 2 2 (stream_of StreamSilent [0, 0, 0, 2, 1, 0, 0, 0, 0]) = (stream_of StreamSilent [], Inl Timeout)"
proof -
  let ?items = "[(Json_Format, ping), (Bincode_Format, pong)]" and ?bs = "[0, 0, 0, 2, 1, 0, 0, 0, 0, 2, 2, 1] :: bytes"
  have send: "send_all tiny_wire_codec ?items [] = (?bs, Inr ())"
    unfolding send_all_Cons using tiny_bytes by (simp add: send_all_def st_lift_def)
  have fits: "list_all (readable (\<lambda>_. 0) tiny_wire_codec 2) ?items"
    by (simp add: readable_def tiny_bytes allocatable_def split: option.splits)
  note R = message_stream_roundtrip [OF tiny_wire_codec_ok fits send]
  have "read_all tiny_wire_codec 2 2 (stream_of StreamSilent (take 9 ?bs)) = (stream_of StreamSilent [], Inl (end_error StreamSilent))"
    using R [where e = StreamSilent, THEN conjunct2, THEN spec [of _ 9]]
    by (simp add: numeral_2_eq_2 del: read_all.simps)
  with R [where e = StreamClosed and rest = "[9]"] show ?thesis by (simp add: numeral_2_eq_2 del: read_all.simps)
qed

text \<open>
  Whatever arrives, reading a message uses at most the length field and \<open>max_message_size\<close> bytes, and a
  frame that declares more is refused after the length field, before any of its payload is read.
\<close>

theorem frame_read_bounded:
  assumes "read_message_with_format C limit s = (s', r)"
  shows "\<exists>used. stream_bytes s = used @ stream_bytes s' \<and> length used \<le> 4 + limit
    \<and> (4 \<le> length (stream_bytes s) \<and> limit < unat (u32_from_be_bytes (take 4 (stream_bytes s))) \<longrightarrow>
        length used = 4 \<and> r = Inl (MessageTooLarge (unat (u32_from_be_bytes (take 4 (stream_bytes s)))) limit))"
proof -
  obtain s1 r1 where one: "read_exact 4 s = (s1, r1)" by fastforce
  from read_exact_uses [OF one] obtain u where u: "stream_bytes s = u @ stream_bytes s1" "length u \<le> 4"
    "\<forall>bs. r1 = Inr bs \<longrightarrow> u = bs \<and> length bs = 4" by auto
  show ?thesis
  proof (cases r1)
    case (Inl e)
    with assms one have "s' = s1" "\<not> 4 \<le> length (stream_bytes s)"
      by (auto simp: read_message_with_format_def read_wire_message_with_format_def st_bind_def read_exact_def split: if_splits)
    with u show ?thesis by auto
  next
    case (Inr b)
    with u have b: "stream_bytes s = b @ stream_bytes s1" "length b = 4" by auto
    let ?len = "unat (u32_from_be_bytes b)"
    obtain s2 r2 where two: "read_exact ?len s1 = (s2, r2)" by fastforce
    from read_exact_uses [OF two] obtain v where v: "stream_bytes s1 = v @ stream_bytes s2" "length v \<le> ?len" by auto
    show ?thesis
    proof (cases "?len > limit")
      case True
      with assms one Inr have "s' = s1" "r = Inl (MessageTooLarge ?len limit)"
        by (auto simp: read_message_with_format_def read_wire_message_with_format_def st_bind_def st_lift_def Let_def validate_payload_len_def)
      with b show ?thesis by auto
    next
      case False
      with assms one Inr two have "s' = s2"
        by (auto simp: read_message_with_format_def read_wire_message_with_format_def st_bind_def st_lift_def Let_def
            validate_payload_len_def split: sum.splits)
      with b v False show ?thesis by (auto intro!: exI [of _ "b @ v"])
    qed
  qed
qed

theorem frame_read_bounded_witness:
  "read_message_with_format tiny_wire_codec 2 (stream_of StreamClosed [0, 0, 1, 0, 7])
     = (stream_of StreamClosed [7], Inl (MessageTooLarge 256 2))"
proof -
  obtain s r where run: "read_message_with_format tiny_wire_codec 2 (stream_of StreamClosed [0, 0, 1, 0, 7]) = (s, r)" by fastforce
  have len: "unat (u32_from_be_bytes [0, 0, 1, 0]) = 256" by (simp add: u32_from_be_bytes_def)
  from frame_read_bounded [OF run] obtain used where
    "[0, 0, 1, 0, 7] = used @ stream_bytes s" "length used = 4" "r = Inl (MessageTooLarge 256 2)"
    by (auto simp: len)
  moreover from this have "stream_bytes s = [7]" by (auto simp: numeral_eq_Suc length_Suc_conv)
  moreover have "stream_end s = StreamClosed" using run
    by (auto simp: read_message_with_format_def read_wire_message_with_format_def st_bind_def st_lift_def read_exact_def Let_def
        validate_payload_len_def len)
  ultimately show ?thesis using run by simp
qed

end
