(* ===== verification/Endpoint.thy ===== *)
theory Endpoint
  imports Peer_Health "HOL-Library.Sublist"
begin

text \<open>
  Endpoints: the canonical form of an advertised endpoint (\<open>nx-net/src/bootstrap.rs\<close>) and the
  host of a dialled one (\<open>nx-net/src/node.rs\<close>), with what they use of the standard library on
  strings, numbers and IP addresses. Strings are lists of UTF-8 bytes.
\<close>

section \<open>Strings of the standard library\<close>

text \<open>\<open>rsplit_once\<close> at a character, \<open>split\<close> at a character, and \<open>find\<close>.\<close>

definition rsplit_once :: "char \<Rightarrow> string \<Rightarrow> (string \<times> string) option" where
  "rsplit_once c s =
     (if c \<in> set s
      then let after = takeWhile (\<lambda>x. x \<noteq> c) (rev s)
           in Some (take (length s - length after - 1) s, rev after)
      else None)"

fun split_at :: "char \<Rightarrow> string \<Rightarrow> string list" where
  "split_at c [] = [[]]"
| "split_at c (x # s) =
     (if x = c then [] # split_at c s
      else (case split_at c s of [] \<Rightarrow> [[x]] | p # ps \<Rightarrow> (x # p) # ps))"

definition find_char :: "char \<Rightarrow> string \<Rightarrow> nat option" where
  "find_char c s = (if c \<in> set s then Some (length (takeWhile (\<lambda>x. x \<noteq> c) s)) else None)"

definition strip_final_dot :: "string \<Rightarrow> string" where
  "strip_final_dot s = (if s \<noteq> [] \<and> last s = CHR ''.'' then butlast s else s)"

text \<open>The UTF-8 encodings of the characters \<open>trim\<close> removes, and \<open>s.trim() == s\<close>.\<close>

definition WHITE_SPACE :: "nat list list" where
  "WHITE_SPACE = [[0x09], [0x0A], [0x0B], [0x0C], [0x0D], [0x20], [0xC2, 0x85], [0xC2, 0xA0], [0xE1, 0x9A, 0x80],
     [0xE2, 0x80, 0x80], [0xE2, 0x80, 0x81], [0xE2, 0x80, 0x82], [0xE2, 0x80, 0x83], [0xE2, 0x80, 0x84],
     [0xE2, 0x80, 0x85], [0xE2, 0x80, 0x86], [0xE2, 0x80, 0x87], [0xE2, 0x80, 0x88], [0xE2, 0x80, 0x89],
     [0xE2, 0x80, 0x8A], [0xE2, 0x80, 0xA8], [0xE2, 0x80, 0xA9], [0xE2, 0x80, 0xAF], [0xE2, 0x81, 0x9F],
     [0xE3, 0x80, 0x80]]"

definition trimmed :: "string \<Rightarrow> bool" where
  "trimmed s = list_all (\<lambda>w. \<not> prefix w (map of_char s) \<and> \<not> suffix w (map of_char s)) WHITE_SPACE"

definition is_digit :: "char \<Rightarrow> bool" where
  "is_digit c = (48 \<le> (of_char c :: nat) \<and> (of_char c :: nat) \<le> 57)"

definition is_upper :: "char \<Rightarrow> bool" where
  "is_upper c = (65 \<le> (of_char c :: nat) \<and> (of_char c :: nat) \<le> 90)"

definition is_lower :: "char \<Rightarrow> bool" where
  "is_lower c = (97 \<le> (of_char c :: nat) \<and> (of_char c :: nat) \<le> 122)"

definition is_alphanumeric :: "char \<Rightarrow> bool" where
  "is_alphanumeric c = (is_digit c \<or> is_upper c \<or> is_lower c)"

definition ascii_lower :: "char \<Rightarrow> char" where
  "ascii_lower c = (if is_upper c then char_of (of_char c + 32 :: nat) else c)"

definition to_ascii_lowercase :: "string \<Rightarrow> string" where
  "to_ascii_lowercase s = map ascii_lower s"

text \<open>\<open>str::parse::<u16>\<close>: an optional plus sign, at least one digit, no overflow.\<close>

definition digits_value :: "string \<Rightarrow> nat" where
  "digits_value s = foldl (\<lambda>n c. 10 * n + (of_char c - 48)) 0 s"

definition parse_u16 :: "string \<Rightarrow> nat option" where
  "parse_u16 s =
     (let ds = (case s of c # cs \<Rightarrow> if c = CHR ''+'' then cs else s | [] \<Rightarrow> [])
      in if ds = [] \<or> \<not> list_all is_digit ds then None
         else if digits_value ds \<ge> 2 ^ 16 then None
         else Some (digits_value ds))"

text \<open>\<open>Display\<close> of an unsigned number, and in hexadecimal.\<close>

definition digit_char :: "nat \<Rightarrow> char" where
  "digit_char d = (if d < 10 then char_of (48 + d) else char_of (87 + d))"

fun show_radix :: "nat \<Rightarrow> nat \<Rightarrow> string" where
  "show_radix r n = (if n < r \<or> r < 2 then [digit_char n] else show_radix r (n div r) @ [digit_char (n mod r)])"

declare show_radix.simps [simp del]

definition show_nat :: "nat \<Rightarrow> string" where
  "show_nat n = show_radix 10 n"

section \<open>IP addresses of the standard library\<close>

text \<open>Four octets, or eight groups of sixteen bits.\<close>

datatype ip_addr = V4 "nat list" | V6 "nat list"

definition digit_of :: "nat \<Rightarrow> char \<Rightarrow> nat option" where
  "digit_of r c =
     (let d = (if is_digit c then of_char c - 48
               else if 97 \<le> (of_char c :: nat) \<and> (of_char c :: nat) \<le> 102 then of_char c - 87
               else if 65 \<le> (of_char c :: nat) \<and> (of_char c :: nat) \<le> 70 then of_char c - 55 else r)
      in if d < r then Some d else None)"

text \<open>
  The parser of \<open>std::net\<close>: a number has at most \<open>max_digits\<close> digits and is below \<open>bound\<close>; a
  leading zero is accepted only when \<open>zero_prefix\<close> is set. Each reader returns what it
  read and the rest, or nothing.
\<close>

definition read_number :: "nat \<Rightarrow> nat \<Rightarrow> nat \<Rightarrow> bool \<Rightarrow> string \<Rightarrow> (nat \<times> string) option" where
  "read_number r max_digits bound zero_prefix s =
     (let ds = takeWhile (\<lambda>c. digit_of r c \<noteq> None) s;
          n = foldl (\<lambda>n c. r * n + (case digit_of r c of None \<Rightarrow> 0 | Some d \<Rightarrow> d)) 0 ds
      in if ds = [] \<or> length ds > max_digits \<or> n \<ge> bound then None
         else if \<not> zero_prefix \<and> hd ds = CHR ''0'' \<and> length ds > 1 then None
         else Some (n, drop (length ds) s))"

definition read_separated :: "char \<Rightarrow> nat \<Rightarrow> (string \<Rightarrow> ('a \<times> string) option) \<Rightarrow> string \<Rightarrow> ('a \<times> string) option" where
  "read_separated sep i inner s =
     (if i = 0 then inner s
      else case s of c # cs \<Rightarrow> if c = sep then inner cs else None | [] \<Rightarrow> None)"

fun read_octets :: "nat \<Rightarrow> nat \<Rightarrow> string \<Rightarrow> (nat list \<times> string) option" where
  "read_octets 0 i s = Some ([], s)"
| "read_octets (Suc n) i s =
     (case read_separated CHR ''.'' i (read_number 10 3 256 False) s of
        None \<Rightarrow> None
      | Some (octet, rest) \<Rightarrow> (case read_octets n (Suc i) rest of None \<Rightarrow> None | Some (os, rest') \<Rightarrow> Some (octet # os, rest')))"

definition read_ipv4_addr :: "string \<Rightarrow> (nat list \<times> string) option" where
  "read_ipv4_addr s = read_octets 4 0 s"

text \<open>
  \<open>read_groups\<close> reads up to so many groups, the last two of which may be an embedded IPv4
  address; it also says whether they were.
\<close>

fun read_groups :: "nat \<Rightarrow> nat \<Rightarrow> string \<Rightarrow> nat list \<times> bool \<times> string" where
  "read_groups 0 i s = ([], False, s)"
| "read_groups (Suc n) i s =
     (case (if n \<ge> 1 then read_separated CHR '':'' i read_ipv4_addr s else None) of
        Some (os, rest) \<Rightarrow> ([256 * os ! 0 + os ! 1, 256 * os ! 2 + os ! 3], True, rest)
      | None \<Rightarrow>
          (case read_separated CHR '':'' i (read_number 16 4 65536 True) s of
             None \<Rightarrow> ([], False, s)
           | Some (g, rest) \<Rightarrow> (case read_groups n (Suc i) rest of (gs, v4, rest') \<Rightarrow> (g # gs, v4, rest'))))"

definition read_ipv6_addr :: "string \<Rightarrow> (nat list \<times> string) option" where
  "read_ipv6_addr s =
     (case read_groups 8 0 s of (front, front_v4, rest) \<Rightarrow>
        if length front = 8 then Some (front, rest)
        else if front_v4 then None
        else case rest of
          a # b # rest' \<Rightarrow>
            if a = CHR '':'' \<and> b = CHR '':''
            then (case read_groups (8 - (length front + 1)) 0 rest' of (back, _, rest'') \<Rightarrow>
              Some (front @ replicate (8 - length front - length back) 0 @ back, rest''))
            else None
        | _ \<Rightarrow> None)"

definition parse_ip :: "string \<Rightarrow> ip_addr option" where
  "parse_ip s =
     (case read_ipv4_addr s of
        Some (os, rest) \<Rightarrow> if rest = [] then Some (V4 os) else None
      | None \<Rightarrow> (case read_ipv6_addr s of
          Some (gs, rest) \<Rightarrow> if rest = [] then Some (V6 gs) else None
        | None \<Rightarrow> None))"

definition is_unspecified :: "ip_addr \<Rightarrow> bool" where
  "is_unspecified ip = (case ip of V4 os \<Rightarrow> os = [0, 0, 0, 0] | V6 gs \<Rightarrow> gs = [0, 0, 0, 0, 0, 0, 0, 0])"

definition is_multicast :: "ip_addr \<Rightarrow> bool" where
  "is_multicast ip = (case ip of V4 os \<Rightarrow> 224 \<le> os ! 0 \<and> os ! 0 \<le> 239 | V6 gs \<Rightarrow> 0xFF00 \<le> gs ! 0)"

definition is_broadcast :: "ip_addr \<Rightarrow> bool" where
  "is_broadcast ip = (case ip of V4 os \<Rightarrow> os = [255, 255, 255, 255] | V6 gs \<Rightarrow> False)"

definition is_unicast_link_local :: "ip_addr \<Rightarrow> bool" where
  "is_unicast_link_local ip = (case ip of V4 os \<Rightarrow> False | V6 gs \<Rightarrow> 0xFE80 \<le> gs ! 0 \<and> gs ! 0 < 0xFEC0)"

fun join :: "string \<Rightarrow> string list \<Rightarrow> string" where
  "join sep [] = []"
| "join sep [x] = x"
| "join sep (x # y # ys) = x @ sep @ join sep (y # ys)"

text \<open>The first of the longest runs of zero groups: where it starts and its length.\<close>

fun zero_span :: "nat \<Rightarrow> nat list \<Rightarrow> nat \<times> nat \<Rightarrow> nat \<times> nat \<Rightarrow> nat \<times> nat" where
  "zero_span i [] current longest = longest"
| "zero_span i (g # gs) current longest =
     (if g = 0
      then let current' = (if snd current = 0 then (i, 1) else (fst current, snd current + 1))
           in zero_span (Suc i) gs current' (if snd current' > snd longest then current' else longest)
      else zero_span (Suc i) gs (0, 0) longest)"

definition show_v4 :: "nat list \<Rightarrow> string" where
  "show_v4 os = join ''.'' (map show_nat os)"

definition show_groups :: "nat list \<Rightarrow> string" where
  "show_groups gs = join '':'' (map (show_radix 16) gs)"

definition show_ip :: "ip_addr \<Rightarrow> string" where
  "show_ip ip =
     (case ip of
        V4 os \<Rightarrow> show_v4 os
      | V6 gs \<Rightarrow>
          if take 6 gs = [0, 0, 0, 0, 0, 0xFFFF]
          then ''::ffff:'' @ show_v4 [gs ! 6 div 256, gs ! 6 mod 256, gs ! 7 div 256, gs ! 7 mod 256]
          else (case zero_span 0 gs (0, 0) (0, 0) of (start, len) \<Rightarrow>
            if len > 1 then show_groups (take start gs) @ ''::'' @ show_groups (drop (start + len) gs)
            else show_groups gs))"

section \<open>Endpoints\<close>

definition MAX_ENDPOINT_LEN :: nat where
  "MAX_ENDPOINT_LEN = 512"

definition invalid :: "string \<Rightarrow> net_error + 'a" where
  "invalid reason = Inl (InvalidMessage reason)"

definition split_endpoint :: "string \<Rightarrow> net_error + string \<times> nat" where
  "split_endpoint endpoint =
     res_bind
       (if endpoint \<noteq> [] \<and> hd endpoint = CHR ''[''
        then (case find_char CHR '']'' endpoint of
            None \<Rightarrow> invalid ''invalid bracketed advertised endpoint''
          | Some closing \<Rightarrow>
              if \<not> (closing + 1 < length endpoint \<and> endpoint ! (closing + 1) = CHR '':'')
              then invalid ''advertised endpoint must include a port''
              else Inr (drop 1 (take closing endpoint), drop (closing + 2) endpoint))
        else (case rsplit_once CHR '':'' endpoint of
            None \<Rightarrow> invalid ''advertised endpoint must be host:port''
          | Some (host, port) \<Rightarrow>
              if CHR '':'' \<in> set host then invalid ''IPv6 advertised endpoints must use brackets''
              else Inr (host, port)))
       (\<lambda>(host, port).
          case parse_u16 port of
            None \<Rightarrow> invalid ''advertised endpoint port must be a valid u16''
          | Some p \<Rightarrow> Inr (host, p))"

definition valid_label :: "string \<Rightarrow> bool" where
  "valid_label label = (label \<noteq> [] \<and> length label \<le> 63
     \<and> list_all (\<lambda>b. is_alphanumeric b \<or> b = CHR ''-'') label \<and> is_alphanumeric (hd label) \<and> is_alphanumeric (last label))"

definition valid_dns_name :: "string \<Rightarrow> bool" where
  "valid_dns_name host =
     (let host = strip_final_dot host
      in host \<noteq> [] \<and> length host \<le> 253 \<and> list_all valid_label (split_at CHR ''.'' host))"

definition canonical_host :: "string \<Rightarrow> net_error + string" where
  "canonical_host host =
     (case parse_ip host of
        Some ip \<Rightarrow>
          if is_unspecified ip \<or> is_multicast ip \<or> is_broadcast ip \<or> is_unicast_link_local ip
          then invalid ''advertised endpoint must use a dialable unicast IP address''
          else Inr (show_ip ip)
      | None \<Rightarrow>
          if \<not> valid_dns_name host
          then invalid ''advertised endpoint host must be a valid DNS name or IP address''
          else Inr (to_ascii_lowercase (strip_final_dot host)))"

definition canonicalize_advertised_endpoint :: "string \<Rightarrow> net_error + string" where
  "canonicalize_advertised_endpoint endpoint =
     (if endpoint = [] \<or> length endpoint > MAX_ENDPOINT_LEN \<or> \<not> trimmed endpoint
      then invalid ''advertised endpoint must be non-empty, trimmed, and at most 512 bytes''
      else res_bind (split_endpoint endpoint) (\<lambda>(host, port).
        if port = 0 then invalid ''advertised endpoint must not use port zero''
        else res_bind (canonical_host host) (\<lambda>host.
          Inr (if CHR '':'' \<in> set host then ''['' @ host @ '']:'' @ show_nat port else host @ '':'' @ show_nat port))))"

definition validate_advertised_endpoint :: "string \<Rightarrow> net_error + unit" where
  "validate_advertised_endpoint endpoint = res_bind (canonicalize_advertised_endpoint endpoint) (\<lambda>_. Inr ())"

definition endpoint_host :: "string \<Rightarrow> net_error + string" where
  "endpoint_host endpoint =
     (if endpoint \<noteq> [] \<and> hd endpoint = CHR ''[''
      then (case find_char CHR '']'' endpoint of
          None \<Rightarrow> invalid ''invalid bracketed peer endpoint''
        | Some closing \<Rightarrow> Inr (drop 1 (take closing endpoint)))
      else (case rsplit_once CHR '':'' endpoint of
          Some (host, _) \<Rightarrow> if host \<noteq> [] then Inr host else invalid ''peer endpoint must be host:port''
        | None \<Rightarrow> invalid ''peer endpoint must be host:port''))"

section \<open>Lemmas on strings\<close>

lemma of_char_digit [simp]: "d < 10 \<Longrightarrow> of_char (digit_char d) = 48 + d"
  by (simp add: digit_char_def)

lemma show_radix_step: "10 \<le> n \<Longrightarrow> show_nat n = show_nat (n div 10) @ [digit_char (n mod 10)]"
  "n < 10 \<Longrightarrow> show_nat n = [digit_char n]"
  by (simp_all add: show_nat_def show_radix.simps [of 10 n])

lemma digits_value_snoc: "digits_value (s @ [c]) = 10 * digits_value s + (of_char c - 48)"
  by (simp add: digits_value_def)

lemma show_nat_digits: "list_all is_digit (show_nat n) \<and> show_nat n \<noteq> [] \<and> digits_value (show_nat n) = n"
proof (induction n rule: less_induct)
  case (less n)
  show ?case
  proof (cases "n < 10")
    case True
    then show ?thesis by (simp add: show_radix_step(2) is_digit_def digits_value_def)
  next
    case False
    with less [of "n div 10"] show ?thesis
      by (simp add: show_radix_step(1) is_digit_def digits_value_snoc)
  qed
qed

lemma length_show_nat: "n < 10 ^ k \<Longrightarrow> 0 < k \<Longrightarrow> length (show_nat n) \<le> k"
proof (induction k arbitrary: n)
  case (Suc k)
  show ?case
  proof (cases "n < 10")
    case False
    then have "0 < k" using Suc.prems(1) by (cases k) auto
    moreover have "n div 10 < 10 ^ k" using Suc.prems(1) by (simp add: less_mult_imp_div_less mult.commute)
    ultimately show ?thesis using Suc.IH False by (simp add: show_radix_step(1))
  qed (simp add: show_radix_step(2))
qed simp

lemma digit_not: "is_digit c \<Longrightarrow> c \<noteq> CHR '':''" "is_digit c \<Longrightarrow> c \<noteq> CHR ''+''" "is_digit c \<Longrightarrow> is_alphanumeric c"
  by (auto simp: is_digit_def is_alphanumeric_def)

lemma alphanumeric_not: "is_alphanumeric c \<Longrightarrow> c \<noteq> CHR '':''" "is_alphanumeric c \<Longrightarrow> c \<noteq> CHR ''[''"
  by (auto simp: is_alphanumeric_def is_digit_def is_upper_def is_lower_def)

lemma parse_show_u16: "n < 2 ^ 16 \<Longrightarrow> parse_u16 (show_nat n) = Some n"
  using show_nat_digits [of n] by (cases "show_nat n") (auto simp: parse_u16_def Let_def digit_not(2))

lemma rsplit_once_last: "c \<notin> set t \<Longrightarrow> rsplit_once c (h @ c # t) = Some (h, t)"
proof -
  assume c: "c \<notin> set t"
  have "takeWhile (\<lambda>x. x \<noteq> c) (rev t @ c # rev h) = rev t" using c by (subst takeWhile_append2) auto
  then show ?thesis by (simp add: rsplit_once_def Let_def)
qed

lemma split_at_nonempty [simp]: "split_at c s \<noteq> []"
  by (induction c s rule: split_at.induct) (auto split: list.splits)

lemma split_at_several: "c \<in> set s \<Longrightarrow> tl (split_at c s) \<noteq> []"
  by (induction c s rule: split_at.induct) (auto split: list.splits)

lemma split_at_final: "s \<noteq> [] \<Longrightarrow> last s = c \<Longrightarrow> last (split_at c s) = []"
proof (induction s)
  case (Cons x s)
  show ?case
  proof (cases "s = []")
    case False
    then have "last (split_at c s) = []" "tl (split_at c s) \<noteq> []"
      using Cons split_at_several [of c s] last_in_set [of s] by auto
    then show ?thesis by (cases "split_at c s") auto
  qed (use Cons.prems in simp)
qed simp

lemma split_at_ends:
  "s \<noteq> [] \<Longrightarrow> hd (split_at c s) \<noteq> [] \<Longrightarrow> hd (hd (split_at c s)) = hd s"
  "concat (split_at c s) = filter (\<lambda>x. x \<noteq> c) s"
proof -
  show "s \<noteq> [] \<Longrightarrow> hd (split_at c s) \<noteq> [] \<Longrightarrow> hd (hd (split_at c s)) = hd s"
    by (cases s) (auto split: list.splits)
  show "concat (split_at c s) = filter (\<lambda>x. x \<noteq> c) s"
    by (induction c s rule: split_at.induct) (auto split: list.splits)
qed

lemma split_at_map:
  assumes "\<And>x. f x = c \<longleftrightarrow> x = c"
  shows "split_at c (map f s) = map (map f) (split_at c s)"
  by (induction s) (auto simp: assms split: list.splits)

lemma upper_cases: "is_upper c \<Longrightarrow> of_char (ascii_lower c) = (of_char c + 32 :: nat) \<and> of_char c + 32 \<le> (122 :: nat)"
  by (auto simp: ascii_lower_def is_upper_def)

lemma ascii_lower_simps [simp]:
  "\<not> is_upper (ascii_lower c)" "ascii_lower (ascii_lower c) = ascii_lower c" "is_alphanumeric (ascii_lower c) = is_alphanumeric c"
  "ascii_lower c = CHR ''.'' \<longleftrightarrow> c = CHR ''.''" "ascii_lower c = CHR ''-'' \<longleftrightarrow> c = CHR ''-''"
proof -
  show nu: "\<not> is_upper (ascii_lower c)"
    using upper_cases [of c] by (cases "is_upper c") (auto simp: is_upper_def, auto simp: ascii_lower_def is_upper_def)
  then show "ascii_lower (ascii_lower c) = ascii_lower c" by (simp add: ascii_lower_def)
  show "is_alphanumeric (ascii_lower c) = is_alphanumeric c"
    using upper_cases [of c]
    by (cases "is_upper c") (auto simp: is_alphanumeric_def is_upper_def is_lower_def is_digit_def ascii_lower_def)
  show "ascii_lower c = CHR ''.'' \<longleftrightarrow> c = CHR ''.''" "ascii_lower c = CHR ''-'' \<longleftrightarrow> c = CHR ''-''"
    using upper_cases [of c] by (cases "is_upper c"; auto simp: ascii_lower_def is_upper_def)+
qed

lemma parse_ip_name:
  assumes "digit_of 16 c = None" "digit_of 10 c = None" "c \<noteq> CHR '':''"
  shows "parse_ip (c # s) = None"
proof -
  have number: "read_number 10 3 256 False (c # s) = None" "read_number 16 4 65536 True (c # s) = None"
    using assms by (simp_all add: read_number_def)
  then have v4: "read_ipv4_addr (c # s) = None"
    by (simp add: read_ipv4_addr_def read_separated_def numeral_eq_Suc)
  have "read_groups (Suc 7) 0 (c # s) = ([], False, c # s)"
    using v4 number by (subst read_groups.simps(2)) (simp add: read_separated_def)
  then have "read_ipv6_addr (c # s) = None"
    using assms(3) by (simp add: read_ipv6_addr_def split: list.splits)
  with v4 show ?thesis by (simp add: parse_ip_def)
qed

section \<open>Canonical names\<close>

lemma valid_dns_lower:
  assumes "valid_dns_name host"
  defines "h \<equiv> to_ascii_lowercase (strip_final_dot host)"
  shows "valid_dns_name h" "strip_final_dot h = h" "to_ascii_lowercase h = h" "h \<noteq> []" "length h \<le> 253"
    "is_alphanumeric (hd h)" "CHR '':'' \<notin> set h"
proof -
  let ?s = "strip_final_dot host"
  have s: "?s \<noteq> []" "length ?s \<le> 253" "list_all valid_label (split_at CHR ''.'' ?s)"
    using assms(1) by (simp_all add: valid_dns_name_def Let_def)
  have labels: "split_at CHR ''.'' h = map (map ascii_lower) (split_at CHR ''.'' ?s)"
    unfolding h_def to_ascii_lowercase_def by (rule split_at_map) simp
  have label: "valid_label (map ascii_lower l) = valid_label l" for l
    by (cases "l = []") (auto simp: valid_label_def list_all_iff hd_map last_map)
  have valid: "list_all valid_label (split_at CHR ''.'' h)"
    using s(3) by (simp add: labels list_all_iff label)
  show h: "h \<noteq> []" "length h \<le> 253" using s(1,2) by (simp_all add: h_def to_ascii_lowercase_def)
  have "last (split_at CHR ''.'' h) \<noteq> []"
    using valid by (auto simp: list_all_iff valid_label_def)
  then show strip: "strip_final_dot h = h" using split_at_final [of h "CHR ''.''"] by (auto simp: strip_final_dot_def)
  show "valid_dns_name h" using h valid by (simp add: valid_dns_name_def strip)
  show "to_ascii_lowercase h = h" by (simp add: h_def to_ascii_lowercase_def)
  have "valid_label (hd (split_at CHR ''.'' h))" using valid by (simp add: list_all_iff)
  then show "is_alphanumeric (hd h)" using split_at_ends(1) [of h "CHR ''.''"] h(1) by (auto simp: valid_label_def)
  have "CHR '':'' \<notin> set l" if "l \<in> set (split_at CHR ''.'' h)" for l
  proof
    assume "CHR '':'' \<in> set l"
    with valid that have "is_alphanumeric CHR '':''" by (force simp: list_all_iff valid_label_def)
    then show False using alphanumeric_not(1) by blast
  qed
  then have "CHR '':'' \<notin> set (concat (split_at CHR ''.'' h))" by simp
  then show "CHR '':'' \<notin> set h" by (simp add: split_at_ends(2))
qed

lemma trimmed_ends:
  assumes "is_alphanumeric a" "is_digit z"
  shows "trimmed (a # s @ [z])"
proof -
  have heads: "list_all (\<lambda>w. w \<noteq> [] \<and> hd w \<notin> {48..57} \<union> {65..90} \<union> {97..122} \<and> last w \<notin> {48..57}) WHITE_SPACE"
    by (simp add: WHITE_SPACE_def)
  have "\<not> prefix w (map of_char (a # s @ [z])) \<and> \<not> suffix w (map of_char (a # s @ [z]))" if "w \<in> set WHITE_SPACE" for w
  proof
    have w: "w \<noteq> []" "hd w \<notin> {48..57} \<union> {65..90} \<union> {97..122}" "last w \<notin> {48..57}"
      using heads that by (auto simp: list_all_iff)
    show "\<not> prefix w (map of_char (a # s @ [z]))"
      using w(1,2) assms(1) by (cases w) (auto simp: is_alphanumeric_def is_digit_def is_upper_def is_lower_def)
    show "\<not> suffix w (map of_char (a # s @ [z]))"
    proof
      assume "suffix w (map of_char (a # s @ [z]))"
      then obtain u where u: "map of_char (a # s @ [z]) = u @ w" by (auto simp: suffix_def)
      have "last (map of_char (a # s @ [z])) = (of_char z :: nat)" by simp
      then have "last (u @ w) = of_char z" unfolding u .
      with w(1,3) assms(2) show False by (auto simp: is_digit_def)
    qed
  qed
  then show ?thesis by (simp add: trimmed_def list_all_iff)
qed

lemma canonicalize_named:
  assumes "h \<noteq> []" "length h \<le> 253" "is_alphanumeric (hd h)" "CHR '':'' \<notin> set h" "0 < p" "p < 2 ^ 16"
  shows "canonicalize_advertised_endpoint (h @ '':'' @ show_nat p) =
    res_bind (canonical_host h) (\<lambda>host.
      Inr (if CHR '':'' \<in> set host then ''['' @ host @ '']:'' @ show_nat p else host @ '':'' @ show_nat p))"
proof -
  let ?e = "h @ '':'' @ show_nat p"
  obtain a r where h: "h = a # r" using assms(1) by (cases h) auto
  obtain u z where digits: "show_nat p = u @ [z]" "is_digit z"
    using show_nat_digits [of p] by (cases "show_nat p" rule: rev_cases) (auto simp: list_all_iff)
  have "length (show_nat p) \<le> 5" using assms(6) by (intro length_show_nat) simp_all
  then have len: "length ?e \<le> MAX_ENDPOINT_LEN" using assms(2) by (simp add: MAX_ENDPOINT_LEN_def)
  have "trimmed (a # (r @ '':'' @ u) @ [z])" using assms(3) digits(2) by (intro trimmed_ends) (simp_all add: h)
  then have trim: "trimmed ?e" by (simp add: h digits(1))
  have "CHR '':'' \<notin> set (show_nat p)" using show_nat_digits [of p] digit_not(1) by (auto simp: list_all_iff)
  then have "rsplit_once CHR '':'' ?e = Some (h, show_nat p)" using rsplit_once_last by simp
  moreover have "hd ?e \<noteq> CHR ''[''" using alphanumeric_not(2) [OF assms(3)] by (simp add: h)
  ultimately have "split_endpoint ?e = Inr (h, p)"
    using assms(4) parse_show_u16 [OF assms(6)] by (simp add: split_endpoint_def)
  with len trim assms(1,5) show ?thesis by (simp add: canonicalize_advertised_endpoint_def)
qed

lemma canonicalize_Inr:
  assumes "canonicalize_advertised_endpoint e = Inr c"
  obtains host p h where "split_endpoint e = Inr (host, p)" "0 < p" "p < 2 ^ 16" "canonical_host host = Inr h"
    "c = (if CHR '':'' \<in> set h then ''['' @ h @ '']:'' @ show_nat p else h @ '':'' @ show_nat p)"
proof -
  from assms obtain host p where hp: "split_endpoint e = Inr (host, p)" "p \<noteq> 0" and
    rest: "res_bind (canonical_host host) (\<lambda>host. Inr (if CHR '':'' \<in> set host then ''['' @ host @ '']:'' @ show_nat p
      else host @ '':'' @ show_nat p)) = (Inr c :: net_error + string)"
    by (auto simp: canonicalize_advertised_endpoint_def res_bind_Inr_iff invalid_def split: if_splits)
  have "p < 2 ^ 16"
    using hp(1) by (auto simp: split_endpoint_def res_bind_Inr_iff invalid_def parse_u16_def Let_def split: option.splits if_splits list.splits)
  with that hp rest show ?thesis by (auto simp: res_bind_Inr_iff)
qed

section \<open>Properties of endpoints\<close>

text \<open>
  The canonical form of an endpoint with a DNS name is stable: it has the name in lower case
  without a final dot and the port without sign or leading zeros, and is its own canonical form,
  provided the name does not become an IP address when the dot is removed.
\<close>

lemma canonical_name_stable:
  assumes "canonicalize_advertised_endpoint e = Inr c" "split_endpoint e = Inr (host, p)" "parse_ip host = None"
    and "parse_ip (to_ascii_lowercase (strip_final_dot host)) = None"
  shows "c = to_ascii_lowercase (strip_final_dot host) @ '':'' @ show_nat p \<and> canonicalize_advertised_endpoint c = Inr c"
proof -
  let ?h = "to_ascii_lowercase (strip_final_dot host)"
  obtain h where c: "0 < p" "p < 2 ^ 16" "canonical_host host = Inr h"
    "c = (if CHR '':'' \<in> set h then ''['' @ h @ '']:'' @ show_nat p else h @ '':'' @ show_nat p)"
    using canonicalize_Inr [OF assms(1)] assms(2) by auto
  then have name: "valid_dns_name host" "h = ?h"
    using assms(3) by (auto simp: canonical_host_def invalid_def split: if_splits)
  note V = valid_dns_lower [OF name(1)]
  have "canonical_host ?h = Inr ?h" using V(1-3) assms(4) by (simp add: canonical_host_def)
  with c(4) name(2) canonicalize_named [OF V(4-7) c(1,2)] V(7) show ?thesis by simp
qed

lemma seed_example_canonical:
  "canonicalize_advertised_endpoint ''Seed.Example.:080'' = Inr ''seed.example:80''
   \<and> canonicalize_advertised_endpoint ''seed.example:80'' = Inr ''seed.example:80''"
proof -
  have split: "split_endpoint ''Seed.Example.:080'' = Inr (''Seed.Example.'', 80)"
    by (simp add: split_endpoint_def rsplit_once_def parse_u16_def digits_value_def is_digit_def)
  have ip: "parse_ip ''Seed.Example.'' = None" by (rule parse_ip_name) (simp_all add: digit_of_def is_digit_def)
  have stripped: "strip_final_dot ''Seed.Example.'' = ''Seed.Example''" by (simp add: strip_final_dot_def)
  have lower: "to_ascii_lowercase ''Seed.Example'' = ''seed.example''" by code_simp
  have ip': "parse_ip ''seed.example'' = None" by (rule parse_ip_name) (simp_all add: digit_of_def is_digit_def)
  have dns: "valid_dns_name ''Seed.Example.''" unfolding valid_dns_name_def stripped Let_def by code_simp
  have trim: "trimmed ''Seed.Example.:080''"
    using trimmed_ends [of "CHR ''S''" "CHR ''0''" "''eed.Example.:08''"]
    by (simp add: is_alphanumeric_def is_upper_def is_digit_def)
  have port: "show_nat 80 = ''80''" unfolding show_nat_def by code_simp
  have "canonicalize_advertised_endpoint ''Seed.Example.:080'' = Inr ''seed.example:80''"
    by (simp add: canonicalize_advertised_endpoint_def MAX_ENDPOINT_LEN_def trim split canonical_host_def ip dns stripped lower port)
  moreover from canonical_name_stable [OF this split ip] ip' port
  have "canonicalize_advertised_endpoint ''seed.example:80'' = Inr ''seed.example:80''" by (simp add: stripped lower)
  ultimately show ?thesis ..
qed

text \<open>
  An address that must not be advertised is accepted with a dot behind it: the host then is no
  IP address but passes as a DNS name, the dot is dropped, and what is stored is the
  address itself, which is not its own canonical form but refused.
\<close>

theorem final_dot_hides_address:
  "canonicalize_advertised_endpoint ''0.0.0.0.:80'' = Inr ''0.0.0.0:80''
   \<and> validate_advertised_endpoint ''0.0.0.0:80'' = Inl (InvalidMessage ''advertised endpoint must use a dialable unicast IP address'')"
proof
  have split: "split_endpoint ''0.0.0.0.:80'' = Inr (''0.0.0.0.'', 80)" "split_endpoint ''0.0.0.0:80'' = Inr (''0.0.0.0'', 80)"
    by (simp_all add: split_endpoint_def rsplit_once_def parse_u16_def digits_value_def is_digit_def)
  have stripped: "strip_final_dot ''0.0.0.0.'' = ''0.0.0.0''" by (simp add: strip_final_dot_def)
  have lower: "to_ascii_lowercase ''0.0.0.0'' = ''0.0.0.0''" by code_simp
  have ip: "parse_ip ''0.0.0.0.'' = None" "parse_ip ''0.0.0.0'' = Some (V4 [0, 0, 0, 0])" by code_simp+
  have dns: "valid_dns_name ''0.0.0.0.''" unfolding valid_dns_name_def stripped Let_def by code_simp
  have trim: "trimmed ''0.0.0.0.:80''" "trimmed ''0.0.0.0:80''"
    using trimmed_ends [of "CHR ''0''" "CHR ''0''" "''.0.0.0.:8''"] trimmed_ends [of "CHR ''0''" "CHR ''0''" "''.0.0.0:8''"]
    by (simp_all add: is_alphanumeric_def is_digit_def)
  have port: "show_nat 80 = ''80''" unfolding show_nat_def by code_simp
  show "canonicalize_advertised_endpoint ''0.0.0.0.:80'' = Inr ''0.0.0.0:80''"
    by (simp add: canonicalize_advertised_endpoint_def MAX_ENDPOINT_LEN_def trim split canonical_host_def ip dns stripped lower port)
  show "validate_advertised_endpoint ''0.0.0.0:80'' = Inl (InvalidMessage ''advertised endpoint must use a dialable unicast IP address'')"
    by (simp add: validate_advertised_endpoint_def canonicalize_advertised_endpoint_def MAX_ENDPOINT_LEN_def trim split
        canonical_host_def ip is_unspecified_def invalid_def)
qed

end
