(* ===== verification/Transport.thy ===== *)
theory Transport
  imports Wire_Message Endpoint
begin

text \<open>
  \<open>nx-net/src/tls.rs\<close> and the transport functions of \<open>nx-net/src/node.rs\<close>: when a connection is
  wrapped in TLS and with which settings, the identity derived from a certificate, the check of
  a claimed identity, and dialling. Also the texts of errors (\<open>error.rs\<close>, \<open>message.rs\<close>).

  Sockets, certificate files, \<open>rustls\<close>, \<open>x509_parser\<close>, \<open>sha2\<close> and \<open>hex\<close> are the parameters \<open>net_os\<close>
  and \<open>identity_api\<close>. Texts of errors leave out the values that are formatted with \<open>{:?}\<close>.
\<close>

section \<open>Texts of errors\<close>

fun wire_error_display :: "wire_error \<Rightarrow> string" where
  "wire_error_display (ProtocolMismatch expected got) =
     ''protocol version mismatch: expected '' @ show_nat (unat expected) @ '', got '' @ show_nat (unat got)"
| "wire_error_display (OpRejected reason) = ''op rejected: '' @ reason"
| "wire_error_display (RateLimited (Some ms)) = ''rate limited: retry after '' @ show_nat (unat ms) @ '' milliseconds''"
| "wire_error_display (RateLimited None) = ''rate limited''"
| "wire_error_display (NotAuthorized reason) = ''not authorized: '' @ reason"
| "wire_error_display (InternalWireError reason) = ''internal wire error: '' @ reason"

fun protocol_wire_error_display :: "protocol_wire_error \<Rightarrow> string" where
  "protocol_wire_error_display (BootstrapRejected reason) = ''bootstrap request rejected: '' @ reason"
| "protocol_wire_error_display error = (case wire_error_of error of Inr e \<Rightarrow> wire_error_display e | Inl _ \<Rightarrow> [])"

fun net_error_display :: "net_error \<Rightarrow> string" where
  "net_error_display (NetIo e) = ''io error: '' @ e"
| "net_error_display (Serialization e) = ''serialization error: '' @ e"
| "net_error_display (BinarySerialization e) = ''binary serialization error: '' @ e"
| "net_error_display (BinaryDeserialization e) = ''binary deserialization error: '' @ e"
| "net_error_display (ConnectionFailed e) = ''connection failed: '' @ e"
| "net_error_display (PeerDisconnectedError e) = ''peer disconnected: '' @ e"
| "net_error_display (InvalidMessage e) = ''invalid message: '' @ e"
| "net_error_display (Wire e) = ''wire error: '' @ wire_error_display e"
| "net_error_display (MessageTooLarge len limit) = ''message too large: '' @ show_nat len @ '' > '' @ show_nat limit"
| "net_error_display Timeout = ''timeout''"
| "net_error_display ChannelClosed = ''channel closed''"
| "net_error_display (TlsError e) = ''TLS error: '' @ e"
| "net_error_display (PeerNotAllowed e) = ''peer not allowed: '' @ e"
| "net_error_display (PeerLimitReached n) = ''peer connection limit reached: '' @ show_nat n"
| "net_error_display (NodeIdMismatch expected got) = ''node ID mismatch: expected '' @ expected @ '', got '' @ got"

section \<open>Identities\<close>

type_synonym certificate = bytes

record identity_api =
  spki_of :: "certificate \<Rightarrow> string + bytes"
  sha256 :: "bytes \<Rightarrow> bytes"
  hex_encode :: "bytes \<Rightarrow> string"
  hex_decode :: "string \<Rightarrow> string + bytes"

definition pubkey_spki_sha256 :: "identity_api \<Rightarrow> certificate \<Rightarrow> net_error + bytes" where
  "pubkey_spki_sha256 I cert =
     res_bind (map_err (\<lambda>e. TlsError (''failed to parse x509 cert: '' @ e)) (spki_of I cert)) (\<lambda>spki. Inr (sha256 I spki))"

definition derive_node_id_from_cert :: "identity_api \<Rightarrow> certificate \<Rightarrow> net_error + bytes" where
  "derive_node_id_from_cert I cert = res_bind (pubkey_spki_sha256 I cert) (\<lambda>hash. Inr (take 16 hash))"

definition node_id_to_hex :: "identity_api \<Rightarrow> bytes \<Rightarrow> string" where
  "node_id_to_hex I n = hex_encode I n"

definition node_id_from_hex :: "identity_api \<Rightarrow> string \<Rightarrow> net_error + bytes" where
  "node_id_from_hex I s =
     res_bind (map_err (\<lambda>e. TlsError (''invalid node_id hex: '' @ e)) (hex_decode I s)) (\<lambda>bs.
       if length bs \<noteq> 16 then Inl (TlsError (''node_id must be 16 bytes, got '' @ show_nat (length bs))) else Inr bs)"

definition derive_protocol_node_id_from_cert :: "identity_api \<Rightarrow> certificate \<Rightarrow> net_error + node_id" where
  "derive_protocol_node_id_from_cert I cert =
     res_bind (derive_node_id_from_cert I cert) (\<lambda>n. Inr (NodeId (node_id_to_hex I n)))"

definition cert_fingerprint_hex :: "identity_api \<Rightarrow> certificate \<Rightarrow> net_error + string" where
  "cert_fingerprint_hex I cert = res_bind (pubkey_spki_sha256 I cert) (\<lambda>hash. Inr (hex_encode I hash))"

section \<open>TLS settings\<close>

definition tls_config_new :: "string \<Rightarrow> string \<Rightarrow> string \<Rightarrow> tls_config" where
  "tls_config_new cert key ca =
     \<lparr>cert_path = Some cert, key_path = Some key, ca_path = Some ca, allowed_peers = None, insecure = False\<rparr>"

definition with_allowed_peers :: "string set \<Rightarrow> tls_config \<Rightarrow> tls_config" where
  "with_allowed_peers peers t = t\<lparr>allowed_peers := Some peers\<rparr>"

definition insecure_dev :: tls_config where
  "insecure_dev = \<lparr>cert_path = None, key_path = None, ca_path = None, allowed_peers = None, insecure = True\<rparr>"

definition is_enabled :: "tls_config \<Rightarrow> bool" where
  "is_enabled t = (cert_path t \<noteq> None \<and> key_path t \<noteq> None)"

definition is_mtls_enabled :: "tls_config \<Rightarrow> bool" where
  "is_mtls_enabled t = (is_enabled t \<and> ca_path t \<noteq> None)"

definition is_peer_allowed :: "tls_config \<Rightarrow> string \<Rightarrow> bool" where
  "is_peer_allowed t n = (case allowed_peers t of Some allowed \<Rightarrow> n \<in> allowed | None \<Rightarrow> True)"

text \<open>
  The settings that \<open>rustls\<close> is given. A server asks for client certificates under these roots or
  not at all; a client checks the server against these roots or, for development, not at all.
\<close>

record server_settings =
  srv_certs :: "certificate list"
  srv_key :: bytes
  srv_client_roots :: "certificate list option"

record client_settings =
  cli_roots :: "certificate list option"
  cli_auth :: "(certificate list \<times> bytes) option"

text \<open>
  What is used of the operating system and of \<open>rustls\<close>: files, the items of a PEM text, whether
  roots and settings are accepted, names of servers, connecting, and the TLS handshakes, which
  return the certificates of the peer. A connection is what will arrive on it and how writing to
  it goes. An attempt may also run into the socket timeout.
\<close>

record channel =
  incoming :: stream
  outgoing_write :: write_result
  outgoing_flush :: "net_error + unit"

datatype 'a attempt = AttemptTimedOut | AttemptFailed string | AttemptDone 'a

record net_os =
  read_file :: "string \<Rightarrow> string + bytes"
  pem_certs :: "bytes \<Rightarrow> (string + certificate) list"
  pem_keys :: "bytes \<Rightarrow> (string + bytes) list"
  root_ok :: "certificate \<Rightarrow> string + unit"
  client_verifier_ok :: "certificate list \<Rightarrow> string + unit"
  server_settings_ok :: "server_settings \<Rightarrow> string + unit"
  client_settings_ok :: "client_settings \<Rightarrow> string + unit"
  server_name_ok :: "string \<Rightarrow> string + unit"
  tcp_connect :: "string \<Rightarrow> channel attempt"
  tcp_peer_addr :: "channel \<Rightarrow> string + string"
  tls_accept :: "server_settings \<Rightarrow> channel \<Rightarrow> (channel \<times> certificate list option) attempt"
  tls_connect :: "client_settings \<Rightarrow> string \<Rightarrow> channel \<Rightarrow> (channel \<times> certificate list option) attempt"

abbreviation tls_error :: "string \<Rightarrow> string \<Rightarrow> net_error" where
  "tls_error context e \<equiv> TlsError (context @ e)"

definition load_certs :: "net_os \<Rightarrow> string \<Rightarrow> net_error + certificate list" where
  "load_certs os path =
     res_bind (map_err (tls_error ''failed to read cert file: '') (read_file os path)) (\<lambda>pem.
     res_bind (fold_res (\<lambda>item certs. res_bind (map_err (tls_error ''failed to parse certs: '') item) (\<lambda>c. Inr (certs @ [c])))
       (pem_certs os pem) []) (\<lambda>certs.
     if certs = [] then Inl (TlsError ''no certificates found in file'') else Inr certs))"

definition load_key :: "net_os \<Rightarrow> string \<Rightarrow> net_error + bytes" where
  "load_key os path =
     res_bind (map_err (tls_error ''failed to read key file: '') (read_file os path)) (\<lambda>pem.
     case pem_keys os pem of
       [] \<Rightarrow> Inl (TlsError ''no private key found in file'')
     | item # _ \<Rightarrow> map_err (tls_error ''failed to parse key: '') item)"

definition load_ca_store :: "net_os \<Rightarrow> string \<Rightarrow> net_error + certificate list" where
  "load_ca_store os path =
     res_bind (load_certs os path) (\<lambda>certs.
     fold_res (\<lambda>cert store. res_bind (map_err (tls_error ''failed to add CA cert: '') (root_ok os cert)) (\<lambda>_.
       Inr (store @ [cert]))) certs [])"

definition build_acceptor :: "net_os \<Rightarrow> tls_config \<Rightarrow> net_error + server_settings" where
  "build_acceptor os t =
     (case cert_path t of None \<Rightarrow> Inl (TlsError ''cert_path required for acceptor'') | Some cert \<Rightarrow>
      case key_path t of None \<Rightarrow> Inl (TlsError ''key_path required for acceptor'') | Some key \<Rightarrow>
      res_bind (load_certs os cert) (\<lambda>certs.
      res_bind (load_key os key) (\<lambda>k.
      res_bind (case ca_path t of
          None \<Rightarrow> Inr None
        | Some ca \<Rightarrow>
            res_bind (load_ca_store os ca) (\<lambda>roots.
            res_bind (map_err (tls_error ''failed to build client verifier: '') (client_verifier_ok os roots)) (\<lambda>_.
            Inr (Some roots)))) (\<lambda>roots.
      let settings = \<lparr>srv_certs = certs, srv_key = k, srv_client_roots = roots\<rparr> in
      res_bind (map_err (tls_error ''failed to build server config: '') (server_settings_ok os settings)) (\<lambda>_. Inr settings)))))"

definition build_connector :: "net_os \<Rightarrow> tls_config \<Rightarrow> net_error + client_settings" where
  "build_connector os t =
     (if insecure t then Inr \<lparr>cli_roots = None, cli_auth = None\<rparr>
      else case ca_path t of
        None \<Rightarrow> Inl (TlsError ''ca_path required for secure connections'')
      | Some ca \<Rightarrow>
          res_bind (load_ca_store os ca) (\<lambda>roots.
          case (cert_path t, key_path t) of
            (Some cert, Some key) \<Rightarrow>
              res_bind (load_certs os cert) (\<lambda>certs.
              res_bind (load_key os key) (\<lambda>k.
              let settings = \<lparr>cli_roots = Some roots, cli_auth = Some (certs, k)\<rparr> in
              res_bind (map_err (tls_error ''failed to build client config: '') (client_settings_ok os settings)) (\<lambda>_. Inr settings)))
          | _ \<Rightarrow> Inr \<lparr>cli_roots = Some roots, cli_auth = None\<rparr>))"

section \<open>Streams\<close>

datatype net_stream =
    Plain channel
  | TlsClient channel "certificate list option"
  | TlsServer channel "certificate list option"

fun stream_channel :: "net_stream \<Rightarrow> channel" where
  "stream_channel (Plain c) = c"
| "stream_channel (TlsClient c _) = c"
| "stream_channel (TlsServer c _) = c"

definition first_cert :: "certificate list option \<Rightarrow> certificate option" where
  "first_cert certs = (case certs of Some (c # _) \<Rightarrow> Some c | _ \<Rightarrow> None)"

fun peer_cert_der :: "net_stream \<Rightarrow> certificate option" where
  "peer_cert_der (Plain _) = None"
| "peer_cert_der (TlsClient _ certs) = first_cert certs"
| "peer_cert_der (TlsServer _ certs) = first_cert certs"

definition attempted :: "(string \<Rightarrow> net_error) \<Rightarrow> 'a attempt \<Rightarrow> net_error + 'a" where
  "attempted err a =
     (case a of AttemptTimedOut \<Rightarrow> Inl Timeout | AttemptFailed e \<Rightarrow> Inl (err e) | AttemptDone x \<Rightarrow> Inr x)"

definition accept_stream :: "net_os \<Rightarrow> tls_config \<Rightarrow> channel \<Rightarrow> net_error + net_stream" where
  "accept_stream os t tcp =
     (if \<not> is_enabled t then Inr (Plain tcp)
      else res_bind (build_acceptor os t) (\<lambda>settings.
        res_bind (attempted (tls_error ''tls accept failed: '') (tls_accept os settings tcp)) (\<lambda>(c, certs).
        Inr (TlsServer c certs))))"

definition connect_stream :: "net_os \<Rightarrow> tls_config \<Rightarrow> channel \<Rightarrow> string \<Rightarrow> net_error + net_stream" where
  "connect_stream os t tcp server_name =
     (if \<not> is_enabled t \<and> \<not> insecure t then Inr (Plain tcp)
      else res_bind (build_connector os t) (\<lambda>settings.
        res_bind (attempted (tls_error ''tls connect failed: '') (tls_connect os settings server_name tcp)) (\<lambda>(c, certs).
        Inr (TlsClient c certs))))"

definition connect_transport :: "net_os \<Rightarrow> string \<Rightarrow> tls_config option \<Rightarrow> net_error + net_stream \<times> string" where
  "connect_transport os addr tls =
     res_bind (attempted (\<lambda>e. ConnectionFailed (addr @ '': '' @ e)) (tcp_connect os addr)) (\<lambda>tcp.
     res_bind (map_err NetIo (tcp_peer_addr os tcp)) (\<lambda>transport.
     res_bind (case tls of
         None \<Rightarrow> Inr (Plain tcp)
       | Some t \<Rightarrow>
           res_bind (endpoint_host addr) (\<lambda>host.
           res_bind (map_err (\<lambda>e. TlsError (''invalid server name '' @ host @ '': '' @ e)) (server_name_ok os host)) (\<lambda>_.
           connect_stream os t tcp host))) (\<lambda>s.
     Inr (s, transport))))"

section \<open>Peer identity\<close>

abbreviation secure :: "tls_config option \<Rightarrow> bool" where
  "secure tls \<equiv> (case tls of Some t \<Rightarrow> \<not> insecure t | None \<Rightarrow> False)"

definition verify_peer_identity ::
    "identity_api \<Rightarrow> node_id \<Rightarrow> node_id \<Rightarrow> certificate option \<Rightarrow> tls_config option \<Rightarrow> net_error + unit" where
  "verify_peer_identity I our_node_id peer_node_id peer_cert tls =
     (if peer_node_id = our_node_id
      then Inl (ConnectionFailed (''refusing connection to local node ID: '' @ node_id_as_str peer_node_id))
      else case tls of
        None \<Rightarrow> Inr ()
      | Some t \<Rightarrow>
          if insecure t then Inr ()
          else case peer_cert of
            None \<Rightarrow> Inl (TlsError ''missing peer certificate in TLS session'')
          | Some cert \<Rightarrow>
              res_bind (derive_protocol_node_id_from_cert I cert) (\<lambda>expected.
              if peer_node_id \<noteq> expected then Inl (TlsError ''node_id mismatch'')
              else if \<not> is_peer_allowed t (node_id_as_str peer_node_id) then Inl (TlsError ''peer node_id not in allowlist'')
              else Inr ()))"

definition identity_verification :: "tls_config option \<Rightarrow> peer_identity_verification" where
  "identity_verification tls = (if secure tls then CertificateBound else Unverified)"

section \<open>Formats and versions\<close>

fun supported_formats_for :: "serialization_format \<Rightarrow> serialization_format list" where
  "supported_formats_for Json_Format = [Json_Format]"
| "supported_formats_for Bincode_Format = DEFAULT_SUPPORTED_FORMATS"

definition negotiate_serialization_format ::
    "serialization_format \<Rightarrow> serialization_format list \<Rightarrow> serialization_format option" where
  "negotiate_serialization_format preferred peer_supported =
     (let local_supported = supported_formats_for preferred
      in if preferred \<in> set peer_supported \<and> preferred \<in> set local_supported then Some preferred
         else find (\<lambda>fmt. fmt \<in> set peer_supported) local_supported)"

definition is_protocol_version_compatible :: "u32 \<Rightarrow> bool" where
  "is_protocol_version_compatible v = (v = PROTOCOL_VERSION)"

definition protocol_version_mismatch :: "u32 \<Rightarrow> net_error" where
  "protocol_version_mismatch v = Wire (protocol_mismatch v)"

section \<open>Lemmas\<close>

lemma verified_identity:
  "verify_peer_identity I us n cert tls = Inr () \<longleftrightarrow>
     n \<noteq> us \<and> (\<forall>t. tls = Some t \<and> \<not> insecure t \<longrightarrow>
       (\<exists>c. cert = Some c \<and> derive_protocol_node_id_from_cert I c = Inr n \<and> is_peer_allowed t (node_id_as_str n)))"
  by (cases tls; cases cert) (auto simp: verify_peer_identity_def res_bind_Inr_iff)

lemma supported_formats_mem [simp]: "p \<in> set (supported_formats_for p)"
  by (cases p) (simp_all add: DEFAULT_SUPPORTED_FORMATS_def)

lemma negotiated_format:
  "negotiate_serialization_format p fs = Some f \<Longrightarrow> f \<in> set fs \<and> f \<in> set (supported_formats_for p)"
  by (auto simp: negotiate_serialization_format_def Let_def find_Some_iff split: if_splits)

lemma negotiate_None:
  "negotiate_serialization_format p fs = None \<longleftrightarrow> set fs \<inter> set (supported_formats_for p) = {}"
  by (auto simp: negotiate_serialization_format_def Let_def find_None_iff)

text \<open>Two nodes always find a common format, because both support JSON.\<close>

lemma negotiate_nodes: "\<exists>f. negotiate_serialization_format p (supported_formats_for q) = Some f"
  using negotiate_None [of p "supported_formats_for q"]
  by (cases p; cases q) (auto simp: DEFAULT_SUPPORTED_FORMATS_def)

end
