(* ===== verification/Bootstrap.thy ===== *)
theory Bootstrap
  imports Transport
begin

text \<open>
  The bootstrap exchange (\<open>nx-net/src/bootstrap.rs\<close>, and the part of \<open>handle_incoming\<close> in
  \<open>nx-net/src/node.rs\<close> that answers it): settings of both sides, the cache of a seed, the answer to
  a request, and the client that asks one seed and checks what it says.

  The largest semaphore of \<open>tokio\<close> (\<open>max_permits\<close>) and the current instant are arguments.
\<close>

section \<open>Settings\<close>

definition DEFAULT_BOOTSTRAP_CACHE_CAPACITY :: nat where "DEFAULT_BOOTSTRAP_CACHE_CAPACITY = 1024"
definition DEFAULT_BOOTSTRAP_RESPONSE_CAPACITY :: nat where "DEFAULT_BOOTSTRAP_RESPONSE_CAPACITY = 128"
definition MAX_BOOTSTRAP_RESPONSE_CAPACITY :: nat where "MAX_BOOTSTRAP_RESPONSE_CAPACITY = 4096"
definition DEFAULT_BOOTSTRAP_CANDIDATE_TTL :: duration where "DEFAULT_BOOTSTRAP_CANDIDATE_TTL = secs 60"
definition MAX_BOOTSTRAP_CANDIDATE_TTL :: duration where "MAX_BOOTSTRAP_CANDIDATE_TTL = secs 300"
definition DEFAULT_MAX_CONCURRENT_BOOTSTRAP_QUERIES :: nat where "DEFAULT_MAX_CONCURRENT_BOOTSTRAP_QUERIES = 1"
definition MAX_CLUSTER_ID_LEN :: nat where "MAX_CLUSTER_ID_LEN = 255"

datatype node_config_error = MaxPeersTooLarge nat | InvalidEventChannelCapacity nat | InvalidSocketTimeout

datatype bootstrap_error =
    InvalidConfig string
  | ConcurrencyLimitReached nat
  | Rejected string
  | InvalidResponse string
  | BootstrapTransport net_error
  | BootstrapNodeConfig node_config_error

definition bootstrap_config_error :: "net_error \<Rightarrow> bootstrap_error" where
  "bootstrap_config_error error = InvalidConfig (net_error_display error)"

text \<open>\<open>char::is_control\<close> on UTF-8: U+0000 to U+001F, U+007F, and U+0080 to U+009F in two bytes.\<close>

fun has_control :: "string \<Rightarrow> bool" where
  "has_control [] = False"
| "has_control (c # s) =
     ((of_char c :: nat) < 32 \<or> (of_char c :: nat) = 127
      \<or> ((of_char c :: nat) = 0xC2 \<and> s \<noteq> [] \<and> (of_char (hd s) :: nat) < 0xA0) \<or> has_control s)"

definition validate_cluster_id :: "string \<Rightarrow> net_error + unit" where
  "validate_cluster_id cluster =
     (if cluster = [] \<or> length cluster > MAX_CLUSTER_ID_LEN
      then Inl (InvalidMessage (''bootstrap cluster ID length must be in 1..='' @ show_nat MAX_CLUSTER_ID_LEN))
      else if has_control cluster then Inl (InvalidMessage ''bootstrap cluster ID must not contain control characters'')
      else Inr ())"

definition validate_response_capacity :: "nat \<Rightarrow> net_error + unit" where
  "validate_response_capacity limit =
     (if \<not> (1 \<le> limit \<and> limit \<le> MAX_BOOTSTRAP_RESPONSE_CAPACITY)
      then Inl (InvalidMessage (''bootstrap response capacity must be in 1..='' @ show_nat MAX_BOOTSTRAP_RESPONSE_CAPACITY))
      else Inr ())"

definition validate_candidate_ttl :: "duration \<Rightarrow> net_error + unit" where
  "validate_candidate_ttl ttl =
     (if ttl = 0 \<or> ttl > MAX_BOOTSTRAP_CANDIDATE_TTL
      then Inl (InvalidMessage ''bootstrap candidate TTL must be in 1ms..=300s'') else Inr ())"

record bootstrap_server_config =
  bsc_cluster_id :: string
  bsc_advertised_endpoint :: "string option"
  bsc_max_cached_candidates :: nat
  bsc_max_response_candidates :: nat
  bsc_candidate_ttl :: duration

definition check_cache_capacity :: "nat \<Rightarrow> bootstrap_error + unit" where
  "check_cache_capacity limit =
     (if limit = 0 then Inl (InvalidConfig ''bootstrap cache capacity must be greater than zero'') else Inr ())"

definition server_config_validate :: "bootstrap_server_config \<Rightarrow> bootstrap_error + unit" where
  "server_config_validate c =
     res_bind (map_err bootstrap_config_error (validate_cluster_id (bsc_cluster_id c))) (\<lambda>_.
     res_bind (case bsc_advertised_endpoint c of
         None \<Rightarrow> Inr ()
       | Some endpoint \<Rightarrow> map_err bootstrap_config_error (validate_advertised_endpoint endpoint)) (\<lambda>_.
     res_bind (check_cache_capacity (bsc_max_cached_candidates c)) (\<lambda>_.
     res_bind (map_err bootstrap_config_error (validate_response_capacity (bsc_max_response_candidates c))) (\<lambda>_.
     map_err bootstrap_config_error (validate_candidate_ttl (bsc_candidate_ttl c))))))"

definition server_config_new :: "string \<Rightarrow> bootstrap_error + bootstrap_server_config" where
  "server_config_new cluster =
     (let c = \<lparr>bsc_cluster_id = cluster, bsc_advertised_endpoint = None,
         bsc_max_cached_candidates = DEFAULT_BOOTSTRAP_CACHE_CAPACITY,
         bsc_max_response_candidates = DEFAULT_BOOTSTRAP_RESPONSE_CAPACITY,
         bsc_candidate_ttl = DEFAULT_BOOTSTRAP_CANDIDATE_TTL\<rparr>
      in res_bind (server_config_validate c) (\<lambda>_. Inr c))"

definition with_advertised_endpoint :: "string \<Rightarrow> bootstrap_server_config \<Rightarrow> bootstrap_error + bootstrap_server_config" where
  "with_advertised_endpoint endpoint c =
     res_bind (map_err bootstrap_config_error (canonicalize_advertised_endpoint endpoint)) (\<lambda>e.
       Inr (c\<lparr>bsc_advertised_endpoint := Some e\<rparr>))"

definition with_max_cached_candidates :: "nat \<Rightarrow> bootstrap_server_config \<Rightarrow> bootstrap_error + bootstrap_server_config" where
  "with_max_cached_candidates limit c =
     res_bind (check_cache_capacity limit) (\<lambda>_. Inr (c\<lparr>bsc_max_cached_candidates := limit\<rparr>))"

definition with_max_response_candidates :: "nat \<Rightarrow> bootstrap_server_config \<Rightarrow> bootstrap_error + bootstrap_server_config" where
  "with_max_response_candidates limit c =
     res_bind (map_err bootstrap_config_error (validate_response_capacity limit)) (\<lambda>_.
       Inr (c\<lparr>bsc_max_response_candidates := limit\<rparr>))"

definition with_candidate_ttl :: "duration \<Rightarrow> bootstrap_server_config \<Rightarrow> bootstrap_error + bootstrap_server_config" where
  "with_candidate_ttl ttl c =
     res_bind (map_err bootstrap_config_error (validate_candidate_ttl ttl)) (\<lambda>_. Inr (c\<lparr>bsc_candidate_ttl := ttl\<rparr>))"

record bootstrap_client_config =
  bcc_node_id :: node_id
  bcc_tls :: "tls_config option"
  bcc_max_message_size :: nat
  bcc_socket_timeout :: duration
  bcc_serialization_format :: serialization_format
  bcc_max_response_candidates :: nat
  bcc_max_candidate_ttl :: duration
  bcc_max_concurrent_queries :: nat

definition client_config_new :: "node_id \<Rightarrow> bootstrap_client_config" where
  "client_config_new n =
     \<lparr>bcc_node_id = n, bcc_tls = None, bcc_max_message_size = DEFAULT_MAX_MESSAGE_SIZE,
      bcc_socket_timeout = DEFAULT_SOCKET_TIMEOUT, bcc_serialization_format = Bincode_Format,
      bcc_max_response_candidates = DEFAULT_BOOTSTRAP_RESPONSE_CAPACITY, bcc_max_candidate_ttl = MAX_BOOTSTRAP_CANDIDATE_TTL,
      bcc_max_concurrent_queries = DEFAULT_MAX_CONCURRENT_BOOTSTRAP_QUERIES\<rparr>"

definition client_config_validate :: "nat \<Rightarrow> instant \<Rightarrow> bootstrap_client_config \<Rightarrow> bootstrap_error + unit" where
  "client_config_validate max_permits now c =
     (if bcc_max_message_size c = 0 then Inl (InvalidConfig ''bootstrap maximum message size must be greater than zero'')
      else if bcc_socket_timeout c = 0 then Inl (InvalidConfig ''bootstrap socket timeout must be greater than zero'')
      else if instant_checked_add now (bcc_socket_timeout c) = None
      then Inl (InvalidConfig ''bootstrap socket timeout exceeds the supported deadline range'')
      else
        res_bind (map_err bootstrap_config_error (validate_response_capacity (bcc_max_response_candidates c))) (\<lambda>_.
        res_bind (map_err bootstrap_config_error (validate_candidate_ttl (bcc_max_candidate_ttl c))) (\<lambda>_.
        if \<not> (1 \<le> bcc_max_concurrent_queries c \<and> bcc_max_concurrent_queries c \<le> max_permits)
        then Inl (InvalidConfig (''bootstrap concurrent query limit must be in 1..='' @ show_nat max_permits))
        else Inr ())))"

section \<open>The cache of a seed\<close>

record cached_candidate =
  cached_endpoint :: string
  expires_at :: instant

record bootstrap_cache =
  by_node :: "(node_id, cached_candidate) omap"
  cache_order :: "node_id list"

record bootstrap_server =
  server_config :: bootstrap_server_config
  server_advertised :: "string option"
  server_cache :: bootstrap_cache

definition bootstrap_server_new :: "bootstrap_server_config \<Rightarrow> bootstrap_server" where
  "bootstrap_server_new c =
     \<lparr>server_config = c, server_advertised = bsc_advertised_endpoint c,
      server_cache = \<lparr>by_node = om_empty, cache_order = []\<rparr>\<rparr>"

definition announce :: "string \<Rightarrow> bootstrap_server \<Rightarrow> bootstrap_server \<times> (net_error + unit)" where
  "announce endpoint s =
     (case canonicalize_advertised_endpoint endpoint of
        Inl e \<Rightarrow> (s, Inl e)
      | Inr endpoint \<Rightarrow> (s\<lparr>server_advertised := Some endpoint\<rparr>, Inr ()))"

definition withdraw :: "bootstrap_server \<Rightarrow> bootstrap_server" where
  "withdraw s = s\<lparr>server_advertised := None\<rparr>"

definition clear :: "bootstrap_server \<Rightarrow> bootstrap_server" where
  "clear s = s\<lparr>server_advertised := None, server_cache := \<lparr>by_node = om_empty, cache_order = []\<rparr>\<rparr>"

definition prune_expired :: "instant \<Rightarrow> bootstrap_cache \<Rightarrow> bootstrap_cache" where
  "prune_expired now cache =
     (let live = om_filter (\<lambda>n. case om_get (by_node cache) n of Some c \<Rightarrow> expires_at c > now | None \<Rightarrow> False) (by_node cache)
      in \<lparr>by_node = live, cache_order = filter (om_contains_key live) (cache_order cache)\<rparr>)"

definition refresh_candidate ::
    "bootstrap_server_config \<Rightarrow> instant \<Rightarrow> node_id \<Rightarrow> string option \<Rightarrow> bootstrap_cache \<Rightarrow> net_error + bootstrap_cache" where
  "refresh_candidate config now requester requester_endpoint cache =
     (case requester_endpoint of
        Some endpoint \<Rightarrow>
          res_bind (canonicalize_advertised_endpoint endpoint) (\<lambda>endpoint.
          case instant_checked_add now (bsc_candidate_ttl config) of
            None \<Rightarrow> Inl (InvalidMessage ''bootstrap candidate TTL exceeds the supported deadline range'')
          | Some deadline \<Rightarrow>
              let entry = \<lparr>cached_endpoint = endpoint, expires_at = deadline\<rparr> in
              Inr (if om_contains_key (by_node cache) requester
                   then cache\<lparr>by_node := om_insert requester entry (by_node cache)\<rparr>
                   else if om_len (by_node cache) < bsc_max_cached_candidates config
                   then cache\<lparr>cache_order := cache_order cache @ [requester], by_node := om_insert requester entry (by_node cache)\<rparr>
                   else cache))
      | None \<Rightarrow>
          Inr (cache\<lparr>by_node := om_remove requester (by_node cache),
                 cache_order := filter (\<lambda>n. n \<noteq> requester) (cache_order cache)\<rparr>))"

fun collect_candidates ::
    "nat \<Rightarrow> node_id \<Rightarrow> (node_id, cached_candidate) omap \<Rightarrow> node_id list \<Rightarrow> string set \<Rightarrow> string list \<Rightarrow> string list" where
  "collect_candidates limit requester entries [] seen endpoints = endpoints"
| "collect_candidates limit requester entries (n # ns) seen endpoints =
     (if length endpoints \<ge> limit then endpoints
      else if n = requester then collect_candidates limit requester entries ns seen endpoints
      else case om_get entries n of
        None \<Rightarrow> collect_candidates limit requester entries ns seen endpoints
      | Some candidate \<Rightarrow>
          if cached_endpoint candidate \<in> seen then collect_candidates limit requester entries ns seen endpoints
          else collect_candidates limit requester entries ns (insert (cached_endpoint candidate) seen)
            (endpoints @ [cached_endpoint candidate]))"

definition suggestions :: "nat \<Rightarrow> node_id \<Rightarrow> string option \<Rightarrow> bootstrap_cache \<Rightarrow> string list" where
  "suggestions limit requester advertised cache =
     (let first = (case advertised of Some e \<Rightarrow> if limit > 0 then [e] else [] | None \<Rightarrow> [])
      in take limit (collect_candidates limit requester (by_node cache) (cache_order cache) (set first) first))"

definition exchange ::
    "instant \<Rightarrow> node_id \<Rightarrow> string option \<Rightarrow> nat \<Rightarrow> bootstrap_server \<Rightarrow> bootstrap_server \<times> (net_error + string list)" where
  "exchange now requester requester_endpoint requested_results s =
     (let cache = prune_expired now (server_cache s);
          limit = min (min requested_results (bsc_max_response_candidates (server_config s))) MAX_BOOTSTRAP_RESPONSE_CAPACITY
      in case refresh_candidate (server_config s) now requester requester_endpoint cache of
           Inl e \<Rightarrow> (s\<lparr>server_cache := cache\<rparr>, Inl e)
         | Inr cache \<Rightarrow> (s\<lparr>server_cache := cache\<rparr>, Inr (suggestions limit requester (server_advertised s) cache)))"

section \<open>The answer of a seed\<close>

text \<open>
  What \<open>handle_incoming\<close> does after it has verified who asks: the server afterwards, the
  message it writes, and whether it reports an error besides one of writing.
\<close>

definition serve_bootstrap ::
    "instant \<Rightarrow> node_id \<Rightarrow> bootstrap_server option \<Rightarrow> node_id \<Rightarrow> serialization_format \<Rightarrow> string \<Rightarrow> string option \<Rightarrow> nat
     \<Rightarrow> bootstrap_server option \<times> wire_message \<times> (net_error + unit)" where
  "serve_bootstrap now our_node_id server n fmt cluster advertised max_results =
     (let reject = (\<lambda>srv reason. let error = BootstrapRejected reason
            in (srv, wire_message_error error, Inl (InvalidMessage (protocol_wire_error_display error))))
      in case server of
           None \<Rightarrow> reject None ''bootstrap service is disabled''
         | Some s \<Rightarrow>
             if cluster \<noteq> bsc_cluster_id (server_config s)
             then reject server ''cluster ID does not match this bootstrap seed''
             else if max_results = 0 then reject server ''max_results must be greater than zero''
             else case exchange now n advertised max_results s of
               (s', Inl e) \<Rightarrow> reject (Some s') (net_error_display e)
             | (s', Inr candidates) \<Rightarrow>
                 (Some s', bootstrap_ack our_node_id fmt cluster candidates
                    (of_nat (min (bsc_candidate_ttl (server_config s') div millis 1) u64_max)), Inr ()))"

section \<open>The client\<close>

record bootstrap_request =
  req_cluster_id :: string
  req_advertised_endpoint :: "string option"
  req_max_results :: nat

record bootstrap_response =
  seed_node_id :: node_id
  endpoints :: "string list"
  response_ttl :: duration

record bootstrap_client =
  client_config :: bootstrap_client_config
  query_slots :: nat

definition bootstrap_request_new :: "string \<Rightarrow> nat \<Rightarrow> bootstrap_request" where
  "bootstrap_request_new cluster n = \<lparr>req_cluster_id = cluster, req_advertised_endpoint = None, req_max_results = n\<rparr>"

definition request_with_advertised_endpoint :: "string \<Rightarrow> bootstrap_request \<Rightarrow> bootstrap_request" where
  "request_with_advertised_endpoint e r = r\<lparr>req_advertised_endpoint := Some e\<rparr>"

definition bootstrap_client_new :: "nat \<Rightarrow> instant \<Rightarrow> bootstrap_client_config \<Rightarrow> bootstrap_error + bootstrap_client" where
  "bootstrap_client_new max_permits now c =
     res_bind (client_config_validate max_permits now c) (\<lambda>_.
       Inr \<lparr>client_config = c, query_slots = bcc_max_concurrent_queries c\<rparr>)"

definition acquire_query_slot :: "bootstrap_client \<Rightarrow> bootstrap_error + bootstrap_client" where
  "acquire_query_slot c =
     (if query_slots c = 0 then Inl (ConcurrencyLimitReached (bcc_max_concurrent_queries (client_config c)))
      else Inr (c\<lparr>query_slots := query_slots c - 1\<rparr>))"

definition release_query_slot :: "bootstrap_client \<Rightarrow> bootstrap_client" where
  "release_query_slot c = c\<lparr>query_slots := query_slots c + 1\<rparr>"

definition check_request :: "bootstrap_client_config \<Rightarrow> bootstrap_request \<Rightarrow> bootstrap_error + unit" where
  "check_request cfg request =
     res_bind (map_err bootstrap_config_error (validate_cluster_id (req_cluster_id request))) (\<lambda>_.
     if req_max_results request = 0 \<or> req_max_results request > bcc_max_response_candidates cfg
        \<or> req_max_results request \<ge> 2 ^ 32
     then Inl (InvalidConfig (''bootstrap max_results must be in 1..='' @ show_nat (bcc_max_response_candidates cfg)))
     else case req_advertised_endpoint request of
       None \<Rightarrow> Inr ()
     | Some endpoint \<Rightarrow> map_err bootstrap_config_error (validate_advertised_endpoint endpoint))"

definition check_seed_certificate ::
    "identity_api \<Rightarrow> bootstrap_client_config \<Rightarrow> certificate option \<Rightarrow> net_error + unit" where
  "check_seed_certificate I cfg peer_cert =
     (if secure (bcc_tls cfg)
      then (case peer_cert of
          None \<Rightarrow> Inl (TlsError ''missing peer certificate in TLS session'')
        | Some cert \<Rightarrow>
            res_bind (derive_protocol_node_id_from_cert I cert) (\<lambda>expected.
            verify_peer_identity I (bcc_node_id cfg) expected (Some cert) (bcc_tls cfg)))
      else Inr ())"

definition normalize_candidate :: "string \<Rightarrow> string list \<Rightarrow> bootstrap_error + string list" where
  "normalize_candidate endpoint normalized =
     (case canonicalize_advertised_endpoint endpoint of
        Inl e \<Rightarrow> Inl (InvalidResponse (net_error_display e))
      | Inr endpoint \<Rightarrow>
          if endpoint \<in> set normalized then Inl (InvalidResponse ''bootstrap response contains duplicate endpoints'')
          else Inr (normalized @ [endpoint]))"

definition read_ack ::
    "bootstrap_request \<Rightarrow> wire_message \<Rightarrow> bootstrap_error + node_id \<times> serialization_format \<times> string list \<times> u64" where
  "read_ack request response =
     (case wire_kind response of
        BootstrapAck n version selected_format cluster candidates ttl_ms \<Rightarrow>
          if version \<noteq> PROTOCOL_VERSION then Inl (BootstrapTransport (Wire (protocol_mismatch version)))
          else if cluster \<noteq> req_cluster_id request
          then Inl (InvalidResponse ''bootstrap response cluster ID does not match the request'')
          else Inr (n, selected_format, candidates, ttl_ms)
      | WireErrorMessage (BootstrapRejected reason) \<Rightarrow> Inl (Rejected reason)
      | WireErrorMessage error \<Rightarrow>
          res_bind (map_err BootstrapTransport (wire_error_of error)) (\<lambda>e. Inl (BootstrapTransport (Wire e)))
      | _ \<Rightarrow> Inl (InvalidResponse ''expected BootstrapAck from bootstrap seed''))"

definition accept_response ::
    "identity_api \<Rightarrow> bootstrap_client_config \<Rightarrow> bootstrap_request \<Rightarrow> certificate option
     \<Rightarrow> serialization_format \<times> wire_message \<Rightarrow> bootstrap_error + bootstrap_response" where
  "accept_response I cfg request peer_cert answer =
     (case answer of (response_format, response) \<Rightarrow>
      res_bind (read_ack request response) (\<lambda>(n, selected_format, candidates, ttl_ms).
      if selected_format \<notin> set (supported_formats_for (bcc_serialization_format cfg))
      then Inl (InvalidResponse ''bootstrap seed selected unsupported serialization format'')
      else if response_format \<noteq> selected_format
      then Inl (InvalidResponse ''bootstrap ACK frame format does not match the selected serialization format'')
      else
        res_bind (map_err BootstrapTransport (verify_peer_identity I (bcc_node_id cfg) n peer_cert (bcc_tls cfg))) (\<lambda>_.
        if length candidates > req_max_results request \<or> length candidates > bcc_max_response_candidates cfg
        then Inl (InvalidResponse ''bootstrap response exceeds the negotiated candidate limit'')
        else if millis (unat ttl_ms) = 0 \<or> millis (unat ttl_ms) > bcc_max_candidate_ttl cfg
        then Inl (InvalidResponse ''bootstrap response contains an invalid candidate TTL'')
        else res_bind (fold_res normalize_candidate candidates []) (\<lambda>normalized.
          Inr \<lparr>seed_node_id = n, endpoints = normalized, response_ttl = millis (unat ttl_ms)\<rparr>))))"

text \<open>One query: what it writes, and its result. The slot is given back when it returns.\<close>

definition query ::
    "wire_codec \<Rightarrow> identity_api \<Rightarrow> net_os \<Rightarrow> string \<Rightarrow> bootstrap_request \<Rightarrow> bootstrap_client
     \<Rightarrow> (bytes, bootstrap_error, bootstrap_response) stm" where
  "query C I os seed request client =
     (let cfg = client_config client; fmt = bcc_serialization_format cfg in
      st_bind (st_lift (check_request cfg request)) (\<lambda>_.
      st_bind (st_lift (acquire_query_slot client)) (\<lambda>_.
      st_bind (st_lift (map_err BootstrapTransport (connect_transport os seed (bcc_tls cfg)))) (\<lambda>(s, _).
      let peer_cert = peer_cert_der s; chan = stream_channel s in
      st_bind (st_lift (map_err BootstrapTransport (check_seed_certificate I cfg peer_cert))) (\<lambda>_.
      st_bind (st_map_err BootstrapTransport (write_message (wire_message_codec C) fmt (outgoing_write chan) (outgoing_flush chan)
        (bootstrap_hello (bcc_node_id cfg) (supported_formats_for fmt) fmt (req_cluster_id request)
           (req_advertised_endpoint request) (of_nat (req_max_results request))))) (\<lambda>_.
      st_lift (res_bind
        (map_err BootstrapTransport (snd (read_wire_message_with_format C (bcc_max_message_size cfg) (incoming chan))))
        (accept_response I cfg request peer_cert))))))))"

section \<open>What a seed is meant to answer\<close>

text \<open>The entry of a node that has not expired, and the endpoints of all nodes but one in order.\<close>

definition live :: "instant \<Rightarrow> bootstrap_cache \<Rightarrow> node_id \<Rightarrow> cached_candidate option" where
  "live now cache n = (case om_get (by_node cache) n of Some c \<Rightarrow> if expires_at c > now then Some c else None | None \<Rightarrow> None)"

definition endpoints_but :: "node_id \<Rightarrow> bootstrap_cache \<Rightarrow> string list" where
  "endpoints_but requester cache =
     List.map_filter (\<lambda>n. if n = requester then None else map_option cached_endpoint (om_get (by_node cache) n)) (cache_order cache)"

definition canonical_form :: "string \<Rightarrow> bool" where
  "canonical_form c \<longleftrightarrow> (\<exists>e. canonicalize_advertised_endpoint e = Inr c)"

definition cache_ok :: "bootstrap_server_config \<Rightarrow> bootstrap_cache \<Rightarrow> bool" where
  "cache_ok config cache \<longleftrightarrow>
     distinct (cache_order cache) \<and> set (cache_order cache) = dom (om_get (by_node cache))
     \<and> om_len (by_node cache) \<le> bsc_max_cached_candidates config
     \<and> (\<forall>n c. om_get (by_node cache) n = Some c \<longrightarrow> canonical_form (cached_endpoint c))"

text \<open>The operations of a server in any order.\<close>

datatype bootstrap_command = Announce string | Withdraw | Clear | Exchange instant node_id "string option" nat

fun bootstrap_step :: "bootstrap_command \<Rightarrow> bootstrap_server \<Rightarrow> bootstrap_server" where
  "bootstrap_step (Announce endpoint) s = fst (announce endpoint s)"
| "bootstrap_step Withdraw s = withdraw s"
| "bootstrap_step Clear s = clear s"
| "bootstrap_step (Exchange now requester endpoint n) s = fst (exchange now requester endpoint n s)"

section \<open>Lemmas on the cache\<close>

lemma prune_get [simp]: "om_get (by_node (prune_expired now cache)) n = live now cache n"
  by (auto simp: prune_expired_def Let_def om_get_filter live_def split: option.splits)

lemma prune_order: "cache_order (prune_expired now cache) = filter (\<lambda>n. live now cache n \<noteq> None) (cache_order cache)"
proof -
  have "om_contains_key (by_node (prune_expired now cache)) = (\<lambda>n. live now cache n \<noteq> None)"
    by (rule ext) (simp add: om_contains_key_def)
  then show ?thesis by (simp add: prune_expired_def Let_def)
qed

lemma live_old: "live now cache n = Some c \<Longrightarrow> om_get (by_node cache) n = Some c \<and> expires_at c > now"
  by (auto simp: live_def split: option.splits if_splits)

lemma prune_ok: "cache_ok config cache \<Longrightarrow> cache_ok config (prune_expired now cache)"
proof -
  assume ok: "cache_ok config cache"
  have sub: "dom (live now cache) \<subseteq> dom (om_get (by_node cache))" using live_old by blast
  have "om_len (by_node (prune_expired now cache)) = card (dom (live now cache))"
    unfolding om_len_card by (rule arg_cong [of _ _ card]) auto
  also have "\<dots> \<le> om_len (by_node cache)" unfolding om_len_card using sub by (intro card_mono) simp_all
  finally have "om_len (by_node (prune_expired now cache)) \<le> bsc_max_cached_candidates config"
    using ok by (simp add: cache_ok_def)
  moreover have "set (cache_order (prune_expired now cache)) = dom (om_get (by_node (prune_expired now cache)))"
    using ok by (auto simp: prune_order cache_ok_def) (metis live_old)
  ultimately show ?thesis
    using ok by (auto simp: cache_ok_def prune_order dest!: live_old)
qed

lemma refresh_ok:
  assumes "cache_ok config cache" "refresh_candidate config now requester ep cache = Inr cache'"
  shows "cache_ok config cache'"
proof (cases ep)
  case None
  have "om_len (om_remove requester (by_node cache)) \<le> om_len (by_node cache)"
    unfolding om_len_card by (rule card_mono) auto
  with assms None show ?thesis by (auto simp: refresh_candidate_def cache_ok_def split: if_splits)
next
  case (Some e)
  with assms(2) obtain c t where c: "canonicalize_advertised_endpoint e = Inr c" "instant_checked_add now (bsc_candidate_ttl config) = Some t"
    by (auto simp: refresh_candidate_def res_bind_Inr_iff split: option.splits)
  have len: "om_len (om_insert requester v (by_node cache)) =
      (if om_contains_key (by_node cache) requester then om_len (by_node cache) else Suc (om_len (by_node cache)))" for v
    by (auto simp: om_len_card om_contains_key_def insert_absorb domIff)
  have "canonical_form c" using c(1) by (auto simp: canonical_form_def)
  with assms Some c show ?thesis
    by (auto simp: refresh_candidate_def cache_ok_def Let_def len om_contains_key_def domIff split: if_splits)
qed

lemma exchange_cases:
  obtains e where "refresh_candidate (server_config s) now r ep (prune_expired now (server_cache s)) = Inl e"
      "exchange now r ep n s = (s\<lparr>server_cache := prune_expired now (server_cache s)\<rparr>, Inl e)"
  | cache where "refresh_candidate (server_config s) now r ep (prune_expired now (server_cache s)) = Inr cache"
      "exchange now r ep n s = (s\<lparr>server_cache := cache\<rparr>, Inr (suggestions
         (min (min n (bsc_max_response_candidates (server_config s))) MAX_BOOTSTRAP_RESPONSE_CAPACITY) r (server_advertised s) cache))"
  by (cases "refresh_candidate (server_config s) now r ep (prune_expired now (server_cache s))") (auto simp: exchange_def Let_def)

lemma step_ok:
  assumes "cache_ok (server_config s) (server_cache s)"
  shows "server_config (bootstrap_step c s) = server_config s \<and> cache_ok (server_config s) (server_cache (bootstrap_step c s))"
proof (cases c)
  case (Announce e)
  with assms show ?thesis by (auto simp: announce_def split: sum.splits)
next
  case (Exchange now r ep n)
  show ?thesis
  proof (cases rule: exchange_cases [of s now r ep n])
    case (1 e)
    with Exchange assms prune_ok show ?thesis by simp
  next
    case (2 cache)
    with Exchange refresh_ok [OF prune_ok [OF assms] 2(1)] show ?thesis by simp
  qed
qed (use assms in \<open>auto simp: withdraw_def clear_def cache_ok_def om_len_card\<close>)

lemma run_ok:
  "cache_ok (server_config s) (server_cache s) \<Longrightarrow> server_config (fold bootstrap_step cs s) = server_config s
     \<and> cache_ok (server_config s) (server_cache (fold bootstrap_step cs s))"
proof (induction cs arbitrary: s)
  case (Cons c cs)
  from step_ok [OF Cons.prems, of c] Cons.IH [of "bootstrap_step c s"] show ?case by simp
qed simp

lemma collect_dedup:
  "take limit (collect_candidates limit r (by_node cache) ns (set acc) acc) =
   take limit (dedup_onto acc (List.map_filter (\<lambda>n. if n = r then None else map_option cached_endpoint (om_get (by_node cache) n)) ns))"
proof (induction ns arbitrary: acc)
  case (Cons n ns)
  let ?f = "\<lambda>n. if n = r then None else map_option cached_endpoint (om_get (by_node cache) n)"
  show ?case
  proof (cases "limit \<le> length acc")
    case True
    then have "take limit (dedup_onto acc xs) = take limit (take (length acc) (dedup_onto acc xs))" for xs by simp
    with True show ?thesis by (simp add: dedup_onto_props(3))
  next
    case False
    have step: "dedup_onto acc (x # xs) = dedup_onto (if x \<in> set acc then acc else acc @ [x]) xs" for x xs
      by (simp add: dedup_onto_def)
    show ?thesis
    proof (cases "?f n")
      case None
      with False Cons.IH [of acc] show ?thesis by (auto simp: List.map_filter_simps split: if_splits)
    next
      case (Some x)
      then obtain c where c: "n \<noteq> r" "om_get (by_node cache) n = Some c" "x = cached_endpoint c" by (auto split: if_splits)
      from False c Cons.IH [of acc] Cons.IH [of "acc @ [x]"] show ?thesis
        by (simp add: List.map_filter_simps step)
    qed
  qed
qed (simp add: dedup_onto_def List.map_filter_simps)

lemma suggestions_dedup:
  "suggestions limit r adv cache = take limit (dedup_onto [] ((case adv of Some e \<Rightarrow> [e] | None \<Rightarrow> []) @ endpoints_but r cache))"
proof -
  have one: "dedup_onto [] (e # xs) = dedup_onto [e] xs" for e :: string and xs by (simp add: dedup_onto_def)
  show ?thesis
    using collect_dedup [of limit r cache _ "[]"] collect_dedup [of limit r cache]
    by (cases adv; cases "limit = 0") (auto simp: suggestions_def endpoints_but_def Let_def one)
qed

lemma normalize_fold:
  "fold_res normalize_candidate xs acc = Inr ys \<Longrightarrow> distinct acc \<Longrightarrow>
     distinct ys \<and> length ys = length acc + length xs \<and> set acc \<subseteq> set ys
     \<and> (\<forall>y \<in> set ys - set acc. \<exists>x \<in> set xs. canonicalize_advertised_endpoint x = Inr y)"
proof (induction xs arbitrary: acc)
  case (Cons x xs)
  then obtain c where c: "canonicalize_advertised_endpoint x = Inr c" "c \<notin> set acc" "fold_res normalize_candidate xs (acc @ [c]) = Inr ys"
    by (auto simp: normalize_candidate_def [of x] split: sum.splits if_splits)
  from Cons.IH [OF c(3)] Cons.prems(2) c(1,2) show ?case by auto
qed auto

lemma normalize_stable:
  "distinct (acc @ xs) \<Longrightarrow> list_all (\<lambda>e. canonicalize_advertised_endpoint e = Inr e) xs \<Longrightarrow>
     fold_res normalize_candidate xs acc = Inr (acc @ xs)"
  by (induction xs arbitrary: acc) (auto simp: normalize_candidate_def)

section \<open>Properties of the bootstrap exchange\<close>

text \<open>
  After any sequence of requests, announcements, withdrawals and clearings the cache of a seed
  has at most as many entries as configured, one per node and all in the order list, and every
  stored endpoint is one that canonicalisation produced.
\<close>

theorem bootstrap_cache_bounded:
  "cache_ok config (server_cache (fold bootstrap_step commands (bootstrap_server_new config)))
   \<and> length (cache_order (server_cache (fold bootstrap_step commands (bootstrap_server_new config)))) \<le> bsc_max_cached_candidates config"
proof -
  have "cache_ok config (server_cache (bootstrap_server_new config))" "server_config (bootstrap_server_new config) = config"
    by (simp_all add: bootstrap_server_new_def cache_ok_def om_len_card)
  with run_ok [of "bootstrap_server_new config" commands]
  have ok: "cache_ok config (server_cache (fold bootstrap_step commands (bootstrap_server_new config)))" by simp
  then show ?thesis
    unfolding cache_ok_def om_len_card by (metis distinct_card)
qed


text \<open>A query that has got as far as its certificate check, and what it then does.\<close>

definition query_sends :: "wire_codec \<Rightarrow> bootstrap_request \<Rightarrow> bootstrap_client_config \<Rightarrow> channel \<Rightarrow> (bytes, net_error, unit) stm" where
  "query_sends C request cfg chan =
     (let fmt = bcc_serialization_format cfg
      in write_message (wire_message_codec C) fmt (outgoing_write chan) (outgoing_flush chan)
           (bootstrap_hello (bcc_node_id cfg) (supported_formats_for fmt) fmt (req_cluster_id request)
              (req_advertised_endpoint request) (of_nat (req_max_results request))))"

lemma query_stages:
  assumes "query C I os seed request client out = (out', r)"
  obtains e where "out' = out" "r = Inl e"
  | s a where "check_request (client_config client) request = Inr ()" "0 < query_slots client"
      "connect_transport os seed (bcc_tls (client_config client)) = Inr (s, a)"
      "check_seed_certificate I (client_config client) (peer_cert_der s) = Inr ()"
      "out' = fst (query_sends C request (client_config client) (stream_channel s) out)"
      "r = res_bind (map_err BootstrapTransport (snd (query_sends C request (client_config client) (stream_channel s) out))) (\<lambda>_.
         res_bind (map_err BootstrapTransport (snd (read_wire_message_with_format C (bcc_max_message_size (client_config client))
           (incoming (stream_channel s)))))
         (accept_response I (client_config client) request (peer_cert_der s)))"
proof -
  let ?cfg = "client_config client"
  show ?thesis
  proof (cases "check_request ?cfg request")
    case (Inl e)
    with assms that(1) show ?thesis by (auto simp: query_def Let_def st_bind_def st_lift_def)
  next
    case (Inr u)
    then have ok: "check_request ?cfg request = Inr ()" by simp
    show ?thesis
    proof (cases "query_slots client = 0 \<or> (\<exists>e. connect_transport os seed (bcc_tls ?cfg) = Inl e)")
      case True
      with assms ok that(1) show ?thesis
        by (cases "query_slots client = 0") (auto simp: query_def Let_def st_bind_def st_lift_def acquire_query_slot_def)
    next
      case False
      then obtain s a where conn: "0 < query_slots client" "connect_transport os seed (bcc_tls ?cfg) = Inr (s, a)"
        by (cases "connect_transport os seed (bcc_tls ?cfg)") auto
      obtain w q where w: "query_sends C request ?cfg (stream_channel s) out = (w, q)" by fastforce
      have run: "query C I os seed request client out =
          st_bind (st_lift (map_err BootstrapTransport (check_seed_certificate I ?cfg (peer_cert_der s)))) (\<lambda>_.
          st_bind (st_map_err BootstrapTransport (query_sends C request ?cfg (stream_channel s))) (\<lambda>_.
          st_lift (res_bind (map_err BootstrapTransport (snd (read_wire_message_with_format C (bcc_max_message_size ?cfg)
            (incoming (stream_channel s))))) (accept_response I ?cfg request (peer_cert_der s))))) out"
        using ok conn by (simp add: query_def query_sends_def Let_def st_bind_def st_lift_def acquire_query_slot_def)
      show ?thesis
      proof (cases "check_seed_certificate I ?cfg (peer_cert_der s)")
        case (Inl e)
        with assms run that(1) show ?thesis by (auto simp: st_bind_def st_lift_def)
      next
        case (Inr u)
        with assms run w that(2) [OF ok conn] show ?thesis
          by (cases q) (simp_all add: st_bind_def st_lift_def st_map_err_def)
      qed
    qed
  qed
qed

lemma accepted_response:
  assumes "accept_response I cfg request cert (fmt, w) = Inr resp"
  shows "distinct (endpoints resp) \<and> length (endpoints resp) \<le> req_max_results request
    \<and> length (endpoints resp) \<le> bcc_max_response_candidates cfg \<and> (\<forall>e \<in> set (endpoints resp). canonical_form e)
    \<and> 0 < response_ttl resp \<and> response_ttl resp \<le> bcc_max_candidate_ttl cfg
    \<and> verify_peer_identity I (bcc_node_id cfg) (seed_node_id resp) cert (bcc_tls cfg) = Inr ()
    \<and> fmt \<in> set (supported_formats_for (bcc_serialization_format cfg))"
proof -
  from assms obtain n cs ms ys where
    ack: "read_ack request w = Inr (n, fmt, cs, ms)" "fmt \<in> set (supported_formats_for (bcc_serialization_format cfg))"
      "verify_peer_identity I (bcc_node_id cfg) n cert (bcc_tls cfg) = Inr ()" "length cs \<le> req_max_results request"
      "length cs \<le> bcc_max_response_candidates cfg" "0 < millis (unat ms)" "millis (unat ms) \<le> bcc_max_candidate_ttl cfg" and
    ys: "fold_res normalize_candidate cs [] = Inr ys" "resp = \<lparr>seed_node_id = n, endpoints = ys, response_ttl = millis (unat ms)\<rparr>"
    by (auto simp: accept_response_def res_bind_Inr_iff split: if_splits)
  from normalize_fold [OF ys(1)] have "distinct ys \<and> length ys = length cs \<and> (\<forall>y \<in> set ys. canonical_form y)"
    by (auto simp: canonical_form_def)
  with ack ys(2) show ?thesis by simp
qed

text \<open>
  C34. A client takes from a seed only what it has checked, whatever the seed sends: at most as many
  endpoints as it asked for and is configured for, all different and in canonical form, with a
  lifetime within its bound, from a node other than itself whose identity, under secure TLS, is that of
  the certificate and is allowed. And under secure TLS it sends nothing, in particular not its own
  endpoint, before the certificate of the seed has been accepted.
\<close>

theorem bootstrap_query_safe:
  assumes "query C I os seed request client out = (out', r)"
  defines "cfg \<equiv> client_config client"
  shows "(\<forall>resp. r = Inr resp \<longrightarrow>
        distinct (endpoints resp) \<and> length (endpoints resp) \<le> min (req_max_results request) (bcc_max_response_candidates cfg)
        \<and> (\<forall>e \<in> set (endpoints resp). canonical_form e) \<and> 0 < response_ttl resp \<and> response_ttl resp \<le> bcc_max_candidate_ttl cfg
        \<and> seed_node_id resp \<noteq> bcc_node_id cfg)
    \<and> (\<forall>t. bcc_tls cfg = Some t \<and> \<not> insecure t \<and> (out' \<noteq> out \<or> is_ok r) \<longrightarrow>
        (\<exists>s a c n. connect_transport os seed (bcc_tls cfg) = Inr (s, a) \<and> peer_cert_der s = Some c
          \<and> derive_protocol_node_id_from_cert I c = Inr n \<and> is_peer_allowed t (node_id_as_str n)
          \<and> (\<forall>resp. r = Inr resp \<longrightarrow> seed_node_id resp = n)))"
proof (cases rule: query_stages [OF assms(1)])
  case (2 s a)
  have accepted: "\<exists>fmt w. accept_response I cfg request (peer_cert_der s) (fmt, w) = Inr resp" if "r = Inr resp" for resp
  proof -
    from that 2(6) have "res_bind (map_err BootstrapTransport (snd (query_sends C request cfg (stream_channel s) out))) (\<lambda>_.
         res_bind (map_err BootstrapTransport (snd (read_wire_message_with_format C (bcc_max_message_size cfg)
           (incoming (stream_channel s))))) (accept_response I cfg request (peer_cert_der s))) = Inr resp" by (simp add: cfg_def)
    then show ?thesis unfolding res_bind_Inr_iff by auto
  qed
  show ?thesis
  proof (intro conjI allI impI)
    fix resp assume "r = Inr resp"
    from accepted [OF this] obtain fmt w where A: "accept_response I cfg request (peer_cert_der s) (fmt, w) = Inr resp" by blast
    from accepted_response [OF A]
    show "distinct (endpoints resp)" "length (endpoints resp) \<le> min (req_max_results request) (bcc_max_response_candidates cfg)"
      "\<forall>e \<in> set (endpoints resp). canonical_form e" "0 < response_ttl resp" "response_ttl resp \<le> bcc_max_candidate_ttl cfg"
      "seed_node_id resp \<noteq> bcc_node_id cfg" by (simp_all add: verified_identity)
  next
    fix t assume t: "bcc_tls cfg = Some t \<and> \<not> insecure t \<and> (out' \<noteq> out \<or> is_ok r)"
    with 2(4) obtain c n where c: "peer_cert_der s = Some c" "derive_protocol_node_id_from_cert I c = Inr n"
      "verify_peer_identity I (bcc_node_id cfg) n (Some c) (Some t) = Inr ()"
      by (auto simp: check_seed_certificate_def cfg_def res_bind_Inr_iff split: option.splits)
    have "seed_node_id resp = n" if "r = Inr resp" for resp
    proof -
      from accepted [OF that] obtain fmt w where A: "accept_response I cfg request (peer_cert_der s) (fmt, w) = Inr resp" by blast
      from accepted_response [OF A] c t show ?thesis by (auto simp: verified_identity)
    qed
    with c t 2(3) show "\<exists>s a c n. connect_transport os seed (bcc_tls cfg) = Inr (s, a) \<and> peer_cert_der s = Some c
        \<and> derive_protocol_node_id_from_cert I c = Inr n \<and> is_peer_allowed t (node_id_as_str n)
        \<and> (\<forall>resp. r = Inr resp \<longrightarrow> seed_node_id resp = n)"
      by (intro exI [of _ s] exI [of _ a] exI [of _ c] exI [of _ n]) (auto simp: verified_identity cfg_def)
  qed
qed (auto simp: is_ok_def)

lemma normalize_error: "fold_res normalize_candidate xs acc = Inl e \<Longrightarrow> \<exists>reason. e = InvalidResponse reason"
  by (induction xs arbitrary: acc) (auto simp: normalize_candidate_def [of _ "_ :: string list"] split: sum.splits if_splits)

lemma normalize_refused:
  assumes "x \<in> set xs" "canonicalize_advertised_endpoint x = Inl e"
  shows "\<exists>reason. fold_res normalize_candidate xs acc = Inl (InvalidResponse reason)"
  using assms(1)
proof (induction xs arbitrary: acc)
  case (Cons y ys)
  then show ?case using assms(2) by (cases "x = y") (auto simp: normalize_candidate_def [of y] split: sum.splits)
qed simp

text \<open>The lifetime that an answer carries: whole milliseconds.\<close>

definition answered_ttl :: "bootstrap_server_config \<Rightarrow> duration" where
  "answered_ttl config = millis (min (bsc_candidate_ttl config div millis 1) u64_max)"

lemma read_frame:
  assumes "format_codec_ok need (wire_message_codec C)" "to_bytes_with_format (wire_message_codec C) fmt w = Inr bs"
    and "length bs - 4 \<le> limit" "allocatable need fmt (length bs - 5) w"
  shows "snd (read_wire_message_with_format C limit (stream_of e bs)) = Inr (fmt, w)"
  using decode_encoded_frame [OF assms(1,2,4)] assms(3)
  by (simp add: read_wire_message_with_format_def read_exact_def st_bind_def st_lift_def Let_def validate_payload_len_def)

lemma served_answer:
  assumes "serve_bootstrap now us (Some s) n fmt cluster ep max_results = (srv, reply, Inr ())"
  obtains s' cs where "exchange now n ep max_results s = (s', Inr cs)" "srv = Some s'" "cluster = bsc_cluster_id (server_config s)"
    "reply = bootstrap_ack us fmt cluster cs (of_nat (min (bsc_candidate_ttl (server_config s) div millis 1) u64_max))"
    "length cs \<le> max_results" "distinct cs"
proof -
  from assms obtain s' cs where ex: "exchange now n ep max_results s = (s', Inr cs)" "srv = Some s'"
    "cluster = bsc_cluster_id (server_config s)"
    "reply = bootstrap_ack us fmt cluster cs (of_nat (min (bsc_candidate_ttl (server_config s') div millis 1) u64_max))"
    by (auto simp: serve_bootstrap_def Let_def split: if_splits sum.splits prod.splits)
  have "server_config s' = server_config s" "length cs \<le> max_results" "distinct cs"
    by (cases rule: exchange_cases [of s now n ep max_results]; use ex(1) in \<open>auto simp: suggestions_dedup dedup_onto_props(1)\<close>)+
  with ex that show ?thesis by simp
qed

text \<open>
  C35. A client that asks a seed gets what the seed has: when the answer arrives and the seed is
  accepted as who it is, the result is exactly the seed's answer, provided every endpoint of it is its own
  canonical form and the lifetime, cut to whole milliseconds, is positive and within the
  client's bound. One endpoint that canonicalisation refuses, or a lifetime below a
  millisecond, makes the client refuse the whole answer.
\<close>

theorem bootstrap_query_outcome:
  assumes "format_codec_ok need (wire_message_codec C)" "check_request cfg request = Inr ()" "0 < slots"
    and "serve_bootstrap now us (Some s) (bcc_node_id cfg) fmt (req_cluster_id request) (req_advertised_endpoint request)
      (req_max_results request) = (srv, reply, Inr ())"
    and "negotiate_serialization_format preferred (supported_formats_for (bcc_serialization_format cfg)) = Some fmt"
    and "to_bytes_with_format (wire_message_codec C) fmt reply = Inr bs" "length bs - 4 \<le> bcc_max_message_size cfg"
      "allocatable need fmt (length bs - 5) reply"
    and "connect_transport os seed (bcc_tls cfg) = Inr (t, a)" "incoming (stream_channel t) = stream_of e bs"
      "check_seed_certificate I cfg (peer_cert_der t) = Inr ()"
      "verify_peer_identity I (bcc_node_id cfg) us (peer_cert_der t) (bcc_tls cfg) = Inr ()"
      "query_sends C request cfg (stream_channel t) [] = (sent, Inr ())"
  defines "candidates \<equiv> projr (snd (exchange now (bcc_node_id cfg) (req_advertised_endpoint request) (req_max_results request) s))"
  shows "(list_all (\<lambda>x. canonicalize_advertised_endpoint x = Inr x) candidates
      \<and> 0 < answered_ttl (server_config s) \<and> answered_ttl (server_config s) \<le> bcc_max_candidate_ttl cfg \<longrightarrow>
        query C I os seed request \<lparr>client_config = cfg, query_slots = slots\<rparr> [] =
          (sent, Inr \<lparr>seed_node_id = us, endpoints = candidates, response_ttl = answered_ttl (server_config s)\<rparr>))
    \<and> ((\<exists>x \<in> set candidates. \<exists>e. canonicalize_advertised_endpoint x = Inl e) \<or> bsc_candidate_ttl (server_config s) < millis 1 \<longrightarrow>
        (\<exists>reason. query C I os seed request \<lparr>client_config = cfg, query_slots = slots\<rparr> [] = (sent, Inl (InvalidResponse reason))))"
proof -
  let ?client = "\<lparr>client_config = cfg, query_slots = slots\<rparr>"
  obtain s' cs where served: "exchange now (bcc_node_id cfg) (req_advertised_endpoint request) (req_max_results request) s = (s', Inr cs)"
    "req_cluster_id request = bsc_cluster_id (server_config s)"
    "reply = bootstrap_ack us fmt (req_cluster_id request) cs (of_nat (min (bsc_candidate_ttl (server_config s) div millis 1) u64_max))"
    "length cs \<le> req_max_results request" "distinct cs"
    using served_answer [OF assms(4)] by metis
  have cs: "candidates = cs" by (simp add: candidates_def served(1))
  define ms :: u64 where "ms = of_nat (min (bsc_candidate_ttl (server_config s) div millis 1) u64_max)"
  have ms: "millis (unat ms) = answered_ttl (server_config s)"
    by (simp add: ms_def answered_ttl_def unat_of_nat u64_max_def)
  have ack: "read_ack request reply = Inr (us, fmt, cs, ms)" by (simp add: served(3) [folded ms_def] bootstrap_ack_def read_ack_def)
  have fmt: "fmt \<in> set (supported_formats_for (bcc_serialization_format cfg))" using negotiated_format [OF assms(5)] by simp
  have len: "length cs \<le> bcc_max_response_candidates cfg"
    using assms(2) served(4) by (auto simp: check_request_def res_bind_Inr_iff split: if_splits)
  have accept: "accept_response I cfg request (peer_cert_der t) (fmt, reply) =
      (if answered_ttl (server_config s) = 0 \<or> answered_ttl (server_config s) > bcc_max_candidate_ttl cfg
       then Inl (InvalidResponse ''bootstrap response contains an invalid candidate TTL'')
       else res_bind (fold_res normalize_candidate cs []) (\<lambda>normalized.
         Inr \<lparr>seed_node_id = us, endpoints = normalized, response_ttl = answered_ttl (server_config s)\<rparr>))"
    using fmt assms(12) served(4) len by (simp add: accept_response_def ack ms)
  have read: "snd (read_wire_message_with_format C (bcc_max_message_size cfg) (incoming (stream_channel t))) = Inr (fmt, reply)"
    unfolding assms(10) by (rule read_frame [OF assms(1,6,7,8)])
  obtain out r where run: "query C I os seed request ?client [] = (out, r)" by fastforce
  have result: "out = sent \<and> r = accept_response I cfg request (peer_cert_der t) (fmt, reply)"
    using run assms(2,3,9,11,13) read
    by (simp add: query_def Let_def st_bind_def st_lift_def acquire_query_slot_def st_map_err_def query_sends_def)
  have zero: "answered_ttl (server_config s) = 0" if "bsc_candidate_ttl (server_config s) < millis 1"
    using that by (simp add: answered_ttl_def millis_def)
  show ?thesis
    using run result accept cs served(5) normalize_stable [of "[]" cs] normalize_refused [of _ cs _ "[]"] zero
    by fastforce
qed

text \<open>A seed, a client, and a network on which the seed's answer arrives.\<close>

definition example_server :: bootstrap_server where
  "example_server = bootstrap_server_new \<lparr>bsc_cluster_id = ''x'', bsc_advertised_endpoint = Some ''seed.example:80'',
     bsc_max_cached_candidates = 4, bsc_max_response_candidates = 4, bsc_candidate_ttl = secs 60\<rparr>"

definition example_reply :: wire_message where
  "example_reply = bootstrap_ack (NodeId ''s'') Bincode_Format ''x'' [''seed.example:80''] 60000"

definition example_hello :: wire_message where
  "example_hello = bootstrap_hello (NodeId ''c'') DEFAULT_SUPPORTED_FORMATS Bincode_Format ''x'' None 2"

definition example_codec :: wire_codec where
  "example_codec = \<lparr>message_codec = tiny_codec ping pong, wire_message_codec = tiny_codec example_hello example_reply\<rparr>"

definition example_os :: "bytes \<Rightarrow> net_os" where
  "example_os bs = \<lparr>read_file = (\<lambda>_. Inl []), pem_certs = (\<lambda>_. []), pem_keys = (\<lambda>_. []), root_ok = (\<lambda>_. Inr ()),
     client_verifier_ok = (\<lambda>_. Inr ()), server_settings_ok = (\<lambda>_. Inr ()), client_settings_ok = (\<lambda>_. Inr ()),
     server_name_ok = (\<lambda>_. Inr ()),
     tcp_connect = (\<lambda>_. AttemptDone \<lparr>incoming = stream_of StreamClosed bs, outgoing_write = WriteAll, outgoing_flush = Inr ()\<rparr>),
     tcp_peer_addr = (\<lambda>_. Inr ''10.0.0.1:80''), tls_accept = (\<lambda>_ _. AttemptTimedOut), tls_connect = (\<lambda>_ _ _. AttemptTimedOut)\<rparr>"

definition example_identity :: identity_api where
  "example_identity = \<lparr>spki_of = Inr, sha256 = id, hex_encode = string_of_bytes, hex_decode = (\<lambda>s. Inr (as_bytes s))\<rparr>"

lemma example_serves:
  "snd (exchange 0 (NodeId ''c'') None 2 example_server) = Inr [''seed.example:80'']"
  "\<exists>srv. serve_bootstrap 0 (NodeId ''s'') (Some example_server) (NodeId ''c'') Bincode_Format ''x'' None 2 = (srv, example_reply, Inr ())"
proof -
  show ex: "snd (exchange 0 (NodeId ''c'') None 2 example_server) = Inr [''seed.example:80'']"
    by (simp add: exchange_def Let_def refresh_candidate_def suggestions_def prune_expired_def example_server_def bootstrap_server_new_def
        MAX_BOOTSTRAP_RESPONSE_CAPACITY_def)
  have ttl: "(60000 :: u64) = of_nat (min (secs 60 div millis 1) u64_max)" by (simp add: secs_def millis_def u64_max_def)
  obtain s' where s': "exchange 0 (NodeId ''c'') None 2 example_server = (s', Inr [''seed.example:80''])" using ex by (metis prod.collapse)
  have "server_config s' = server_config example_server"
    using s' by (cases rule: exchange_cases [of example_server 0 "NodeId ''c''" None 2]) auto
  with s' show "\<exists>srv. serve_bootstrap 0 (NodeId ''s'') (Some example_server) (NodeId ''c'') Bincode_Format ''x'' None 2 = (srv, example_reply, Inr ())"
    unfolding example_reply_def ttl by (simp add: serve_bootstrap_def Let_def example_server_def bootstrap_server_new_def)
qed

theorem bootstrap_query_outcome_witness:
  "snd (query example_codec example_identity (example_os [0, 0, 0, 2, 2, 1]) ''seed:80'' (bootstrap_request_new ''x'' 2)
     \<lparr>client_config = client_config_new (NodeId ''c''), query_slots = 1\<rparr> []) =
   Inr \<lparr>seed_node_id = NodeId ''s'', endpoints = [''seed.example:80''], response_ttl = secs 60\<rparr>"
proof -
  let ?cfg = "client_config_new (NodeId ''c'')" and ?req = "bootstrap_request_new ''x'' 2" and ?bs = "[0, 0, 0, 2, 2, 1] :: bytes"
  obtain srv where served: "serve_bootstrap 0 (NodeId ''s'') (Some example_server) (NodeId ''c'') Bincode_Format ''x'' None 2 = (srv, example_reply, Inr ())"
    using example_serves(2) by blast
  have differ: "example_reply \<noteq> example_hello" by (simp add: example_reply_def example_hello_def bootstrap_ack_def bootstrap_hello_def)
  have two: "u32_to_be_bytes 2 = [0, 0, 0, 2]" by code_simp
  have frame: "to_bytes_with_format (wire_message_codec example_codec) Bincode_Format example_reply = Inr ?bs"
    using differ by (simp add: example_codec_def tiny_codec_def Let_def to_bytes_with_format_def encode_frame_def FORMAT_BINCODE_def two)
  have codec: "format_codec_ok (\<lambda>_. 0) (wire_message_codec example_codec)" by (simp add: example_codec_def tiny_codec_ok)
  have conn: "connect_transport (example_os ?bs) ''seed:80'' (bcc_tls ?cfg) =
      Inr (Plain \<lparr>incoming = stream_of StreamClosed ?bs, outgoing_write = WriteAll, outgoing_flush = Inr ()\<rparr>, ''10.0.0.1:80'')"
    by (simp add: connect_transport_def example_os_def attempted_def client_config_new_def)
  have hello: "\<exists>bs. query_sends example_codec ?req ?cfg \<lparr>incoming = stream_of StreamClosed ?bs, outgoing_write = WriteAll, outgoing_flush = Inr ()\<rparr> [] = (bs, Inr ())"
    by (simp add: query_sends_def Let_def client_config_new_def bootstrap_request_new_def write_message_def write_bytes_def st_bind_def
        st_lift_def example_codec_def tiny_codec_def to_bytes_with_format_def encode_frame_def example_hello_def)
  then obtain sent where sent: "query_sends example_codec ?req ?cfg \<lparr>incoming = stream_of StreamClosed ?bs, outgoing_write = WriteAll, outgoing_flush = Inr ()\<rparr> [] = (sent, Inr ())"
    by blast
  have request: "check_request ?cfg ?req = Inr ()"
    by (simp add: check_request_def validate_cluster_id_def MAX_CLUSTER_ID_LEN_def client_config_new_def bootstrap_request_new_def
        DEFAULT_BOOTSTRAP_RESPONSE_CAPACITY_def)
  have ttl: "answered_ttl (server_config example_server) = secs 60"
    by (simp add: answered_ttl_def example_server_def bootstrap_server_new_def secs_def millis_def u64_max_def)
  show ?thesis
    using bootstrap_query_outcome [OF codec request, of 1 0 "NodeId ''s''" example_server Bincode_Format srv example_reply Bincode_Format
        ?bs "example_os ?bs" "''seed:80''" _ _ StreamClosed example_identity sent] served frame conn sent example_serves(1) seed_example_canonical ttl
    by (simp add: client_config_new_def bootstrap_request_new_def negotiate_serialization_format_def DEFAULT_SUPPORTED_FORMATS_def
        allocatable_def select_binary_preallocation_limit_def MIB_def DEFAULT_MAX_MESSAGE_SIZE_def check_seed_certificate_def
        verify_peer_identity_def secs_def MAX_BOOTSTRAP_CANDIDATE_TTL_def)
qed


text \<open>A client whose list of allowed peers is empty sends nothing.\<close>

theorem bootstrap_query_safe_witness:
  "fst (query example_codec example_identity (example_os []) ''seed:80'' (bootstrap_request_new ''x'' 2)
     \<lparr>client_config = (client_config_new (NodeId ''c''))\<lparr>bcc_tls := Some (with_allowed_peers {} (tls_config_new ''a'' ''b'' ''c''))\<rparr>,
      query_slots = 1\<rparr> []) = []"
proof -
  let ?t = "with_allowed_peers {} (tls_config_new ''a'' ''b'' ''c'')"
  let ?client = "\<lparr>client_config = (client_config_new (NodeId ''c''))\<lparr>bcc_tls := Some ?t\<rparr>, query_slots = 1\<rparr>"
  obtain out r where run: "query example_codec example_identity (example_os []) ''seed:80'' (bootstrap_request_new ''x'' 2) ?client [] = (out, r)"
    by fastforce
  have t: "\<not> insecure ?t" "\<not> is_peer_allowed ?t n" for n
    by (simp_all add: with_allowed_peers_def tls_config_new_def is_peer_allowed_def)
  from bootstrap_query_safe [OF run] t have "out = []" by auto
  then show ?thesis unfolding run by simp
qed

end
