(* ===== verification/Node_Handshake.thy ===== *)
theory Node_Handshake
  imports Bootstrap Sync_Manager Replication
begin

text \<open>
  The two sides of a connection in \<open>nx-net/src/node.rs\<close> up to its registration, and the loop that
  reads messages afterwards: settings of a node, the handshake of an incoming connection
  (\<open>handle_incoming\<close>) with the bootstrap requests it answers, the handshake of an outgoing one
  (\<open>connect_to_peer\<close>), and \<open>read_messages\<close>. What a connection writes is the list of its bytes.
\<close>

section \<open>Settings\<close>

definition node_config_validate :: "nat \<Rightarrow> instant \<Rightarrow> node_config \<Rightarrow> node_config_error + unit" where
  "node_config_validate max_permits now c =
     (if node_max_peers c > max_permits then Inl (MaxPeersTooLarge max_permits)
      else if node_event_channel_capacity c = 0 \<or> node_event_channel_capacity c > max_permits
      then Inl (InvalidEventChannelCapacity max_permits)
      else if node_socket_timeout c = 0 \<or> instant_checked_add now (node_socket_timeout c) = None
      then Inl InvalidSocketTimeout
      else Inr ())"

definition node_with_peers :: "string list \<Rightarrow> node_config \<Rightarrow> node_config" where
  "node_with_peers peers c = c\<lparr>node_initial_peers := peers\<rparr>"

definition node_with_tls :: "tls_config \<Rightarrow> node_config \<Rightarrow> node_config" where
  "node_with_tls tls c = c\<lparr>node_tls := Some tls\<rparr>"

definition node_with_max_peers :: "nat \<Rightarrow> node_config \<Rightarrow> node_config" where
  "node_with_max_peers n c = c\<lparr>node_max_peers := n\<rparr>"

definition node_with_max_message_size :: "nat \<Rightarrow> node_config \<Rightarrow> node_config" where
  "node_with_max_message_size n c = c\<lparr>node_max_message_size := n\<rparr>"

definition node_with_socket_timeout :: "duration \<Rightarrow> node_config \<Rightarrow> node_config" where
  "node_with_socket_timeout d c = c\<lparr>node_socket_timeout := d\<rparr>"

definition node_with_serialization_format :: "serialization_format \<Rightarrow> node_config \<Rightarrow> node_config" where
  "node_with_serialization_format fmt c = c\<lparr>node_serialization_format := fmt\<rparr>"

definition node_with_event_channel_capacity :: "nat \<Rightarrow> node_config \<Rightarrow> node_config" where
  "node_with_event_channel_capacity n c = c\<lparr>node_event_channel_capacity := n\<rparr>"

section \<open>Incoming connections\<close>

datatype incoming_handshake =
    PeerHandshake node_id serialization_format
  | BootstrapHandshake node_id serialization_format string "string option" nat

fun handshake_node :: "incoming_handshake \<Rightarrow> node_id" where
  "handshake_node (PeerHandshake n _) = n"
| "handshake_node (BootstrapHandshake n _ _ _ _) = n"

text \<open>The format for a greeting, or why there is none and what is written about it.\<close>

definition greet ::
    "serialization_format \<Rightarrow> u32 \<Rightarrow> serialization_format list \<Rightarrow> wire_message option \<times> (net_error + serialization_format)" where
  "greet preferred version supported =
     (if \<not> is_protocol_version_compatible version
      then (Some (wire_message_error (protocol_error_of (protocol_mismatch version))), Inl (protocol_version_mismatch version))
      else case negotiate_serialization_format preferred supported of
        None \<Rightarrow> (None, Inl (InvalidMessage ''no mutually supported serialization format''))
      | Some fmt \<Rightarrow> (None, Inr fmt))"

definition read_hello :: "serialization_format \<Rightarrow> wire_message \<Rightarrow> wire_message option \<times> (net_error + incoming_handshake)" where
  "read_hello preferred msg =
     (case wire_kind msg of
        WireHello n version supported _ \<Rightarrow>
          apsnd (\<lambda>r. res_bind r (\<lambda>fmt. Inr (PeerHandshake n fmt))) (greet preferred version supported)
      | BootstrapHello n version supported _ cluster advertised max_results \<Rightarrow>
          apsnd (\<lambda>r. res_bind r (\<lambda>fmt. Inr (BootstrapHandshake n fmt cluster advertised (unat max_results))))
            (greet preferred version supported)
      | WireErrorMessage error \<Rightarrow> (None, res_bind (wire_error_of error) (\<lambda>e. Inl (Wire e)))
      | _ \<Rightarrow> (None, Inl (InvalidMessage ''expected Hello or BootstrapHello'')))"

text \<open>Writing to a connection before it is registered.\<close>

abbreviation reply_to :: "'m format_codec \<Rightarrow> channel \<Rightarrow> serialization_format \<Rightarrow> 'm \<Rightarrow> bytes \<times> (net_error + unit)" where
  "reply_to c chan fmt m \<equiv> write_message c fmt (outgoing_write chan) (outgoing_flush chan) m []"

text \<open>
  \<open>handle_incoming\<close> until the peer would be registered: the bootstrap server afterwards, what was
  written, and the peer with its format, nothing after a bootstrap exchange, or an error. \<open>has_slot\<close> is
  the check that another peer may be connected.
\<close>

definition incoming_stream :: "net_os \<Rightarrow> tls_config option \<Rightarrow> channel \<Rightarrow> net_error + net_stream" where
  "incoming_stream os tls tcp = (case tls of Some t \<Rightarrow> accept_stream os t tcp | None \<Rightarrow> Inr (Plain tcp))"

definition answer_incoming ::
    "wire_codec \<Rightarrow> instant \<Rightarrow> node_config \<Rightarrow> net_error + unit \<Rightarrow> bootstrap_server option \<Rightarrow> channel \<Rightarrow> incoming_handshake
     \<Rightarrow> bootstrap_server option \<times> bytes \<times> (net_error + (node_id \<times> serialization_format) option)" where
  "answer_incoming C now cfg has_slot server chan hs =
     (case hs of
        BootstrapHandshake n fmt cluster advertised max_results \<Rightarrow>
          (case serve_bootstrap now (node_cfg_id cfg) server n fmt cluster advertised max_results of
             (server', reply, verdict) \<Rightarrow>
               (case reply_to (wire_message_codec C) chan fmt reply of (sent, written) \<Rightarrow>
                  (server', sent, res_bind verdict (\<lambda>_. res_bind written (\<lambda>_. Inr None)))))
      | PeerHandshake n fmt \<Rightarrow>
          (case has_slot of
             Inl e \<Rightarrow> (server, [], Inl e)
           | Inr _ \<Rightarrow>
               (case reply_to (message_codec C) chan fmt (hello_ack_with_format (node_cfg_id cfg) fmt) of (sent, written) \<Rightarrow>
                  (server, sent, res_bind written (\<lambda>_. Inr (Some (n, fmt)))))))"

definition accept_handshake ::
    "wire_codec \<Rightarrow> identity_api \<Rightarrow> net_os \<Rightarrow> instant \<Rightarrow> node_config \<Rightarrow> net_error + unit \<Rightarrow> bootstrap_server option \<Rightarrow> channel
     \<Rightarrow> bootstrap_server option \<times> bytes \<times> (net_error + (node_id \<times> serialization_format) option)" where
  "accept_handshake C I os now cfg has_slot server tcp =
     (case incoming_stream os (node_tls cfg) tcp of
        Inl e \<Rightarrow> (server, [], Inl e)
      | Inr s \<Rightarrow>
          let chan = stream_channel s in
          (case snd (read_wire_message_with_format C (node_max_message_size cfg) (incoming chan)) of
             Inl e \<Rightarrow> (server, [], Inl e)
           | Inr (hello_format, msg) \<Rightarrow>
               (case read_hello (node_serialization_format cfg) msg of
                  (note, Inl e) \<Rightarrow>
                    (server, (case note of None \<Rightarrow> [] | Some m \<Rightarrow> fst (reply_to (wire_message_codec C) chan hello_format m)), Inl e)
                | (_, Inr hs) \<Rightarrow>
                    (case verify_peer_identity I (node_cfg_id cfg) (handshake_node hs) (peer_cert_der s) (node_tls cfg) of
                       Inl e \<Rightarrow> (server, [], Inl e)
                     | Inr _ \<Rightarrow> answer_incoming C now cfg has_slot server chan hs))))"

section \<open>Outgoing connections\<close>

definition read_hello_ack :: "serialization_format \<Rightarrow> message \<Rightarrow> net_error + node_id \<times> serialization_format" where
  "read_hello_ack preferred response =
     (case kind response of
        HelloAck n version selected_format \<Rightarrow>
          if \<not> is_protocol_version_compatible version then Inl (protocol_version_mismatch version)
          else if selected_format \<notin> set (supported_formats_for preferred)
          then Inl (InvalidMessage ''peer selected unsupported serialization format'')
          else Inr (n, selected_format)
      | ErrorMessage error \<Rightarrow> Inl (Wire error)
      | _ \<Rightarrow> Inl (InvalidMessage ''expected HelloAck''))"

text \<open>\<open>connect_to_peer\<close> from dialling until the peer would be registered: what was written, and the
  peer, its format and the transport address.\<close>

definition outgoing_handshake ::
    "wire_codec \<Rightarrow> identity_api \<Rightarrow> net_os \<Rightarrow> node_config \<Rightarrow> string
     \<Rightarrow> bytes \<times> (net_error + node_id \<times> serialization_format \<times> string)" where
  "outgoing_handshake C I os cfg addr =
     (case connect_transport os addr (node_tls cfg) of
        Inl e \<Rightarrow> ([], Inl e)
      | Inr (s, transport) \<Rightarrow>
          let chan = stream_channel s; preferred = node_serialization_format cfg in
          (case reply_to (message_codec C) chan preferred
              (hello_with_formats (node_cfg_id cfg) (supported_formats_for preferred) preferred) of
             (sent, written) \<Rightarrow>
               (sent,
                res_bind written (\<lambda>_.
                res_bind (snd (read_message C (node_max_message_size cfg) (incoming chan))) (\<lambda>response.
                res_bind (read_hello_ack preferred response) (\<lambda>(n, fmt).
                res_bind (verify_peer_identity I (node_cfg_id cfg) n (peer_cert_der s) (node_tls cfg)) (\<lambda>_.
                Inr (n, fmt, transport))))))))"

section \<open>Reading messages\<close>

lemma read_message_uses:
  "read_message C limit s = (s', Inr m) \<Longrightarrow> length (stream_bytes s') < length (stream_bytes s)"
proof -
  assume "read_message C limit s = (s', Inr m)"
  then obtain t b q where "read_exact 4 s = (t, Inr b)" and rest: "read_exact (unat (u32_from_be_bytes b)) t = (s', q)"
    by (auto simp: read_message_def read_message_with_format_def read_wire_message_with_format_def st_bind_Inr Let_def split: prod.splits)
  then have "length (stream_bytes t) < length (stream_bytes s)"
    by (auto simp: read_exact_def split: if_splits)
  with rest show ?thesis by (auto simp: read_exact_def split: if_splits)
qed

record read_context =
  rc_peer :: node_id
  rc_addr :: string
  rc_format :: serialization_format
  rc_max_message_size :: nat

abbreviation unexpected_eof :: net_error where
  "unexpected_eof \<equiv> end_error StreamClosed"

text \<open>
  \<open>read_messages\<close> while the node is not stopped: the events it sends, what it writes, and how it
  ends. \<open>pong_written\<close> says how the answer to a ping at some point of the stream is written.
\<close>

function read_messages ::
    "wire_codec \<Rightarrow> read_context \<Rightarrow> (nat \<Rightarrow> write_result) \<Rightarrow> stream \<Rightarrow> node_event list \<times> bytes \<times> (net_error + unit)" where
  "read_messages C ctx pong_written s =
     (case read_message C (rc_max_message_size ctx) s of
        (s', Inl e) \<Rightarrow> ([], [], if e = unexpected_eof then Inr () else Inl e)
      | (s', Inr m) \<Rightarrow>
          (case kind m of
             PushOps ops \<Rightarrow> apfst ((#) (OpsReceived (rc_peer ctx) ops)) (read_messages C ctx pong_written s')
           | PullSince since \<Rightarrow> apfst ((#) (PullRequested (rc_peer ctx) (rc_addr ctx) since)) (read_messages C ctx pong_written s')
           | Ping \<Rightarrow>
               (case write_message (message_codec C) (rc_format ctx) (pong_written (length (stream_bytes s'))) (Inr ()) pong [] of
                  (sent, Inl e) \<Rightarrow> ([], sent, Inl e)
                | (sent, Inr _) \<Rightarrow> apsnd (apfst ((@) sent)) (read_messages C ctx pong_written s'))
           | ErrorMessage error \<Rightarrow> ([], [], Inl (Wire error))
           | _ \<Rightarrow> read_messages C ctx pong_written s'))"
  by pat_completeness auto

termination
  by (relation "measure (\<lambda>(_, _, _, s). length (stream_bytes s))") (auto dest: read_message_uses [OF sym])

declare read_messages.simps [simp del]

section \<open>Lemmas on handshakes\<close>

abbreviation writable :: "channel \<Rightarrow> bool" where
  "writable chan \<equiv> outgoing_write chan = WriteAll \<and> outgoing_flush chan = Inr ()"

lemma reply_to_writable:
  "writable chan \<Longrightarrow> reply_to c chan fmt m = (case to_bytes_with_format c fmt m of Inl e \<Rightarrow> ([], Inl e) | Inr bs \<Rightarrow> (bs, Inr ()))"
  by (auto simp: write_message_def write_bytes_def st_bind_def st_lift_def split: sum.splits)

lemma readable_wire:
  assumes "wire_codec_ok need C" "readable need C limit (fmt, m)" "to_bytes_with_format (message_codec C) fmt m = Inr bs"
  shows "snd (read_wire_message_with_format C limit (stream_of e bs)) = Inr (fmt, wire_of_message m)"
proof (rule read_frame)
  show "format_codec_ok need (wire_message_codec C)" using assms(1) by (simp add: wire_codec_ok_def)
  show "to_bytes_with_format (wire_message_codec C) fmt (wire_of_message m) = Inr bs" using assms(3) message_bytes [OF assms(1)] by simp
qed (use assms(2,3) in \<open>simp_all add: readable_def\<close>)

lemma readable_message:
  assumes "wire_codec_ok need C" "readable need C limit (fmt, m)" "to_bytes_with_format (message_codec C) fmt m = Inr bs"
  shows "read_message C limit (stream_of e (bs @ rest)) = (stream_of e rest, Inr m)"
    and "k < length bs \<Longrightarrow> read_message C limit (stream_of e (take k bs)) = (stream_of e [], Inl (end_error e))"
  using read_one [OF assms] by (simp_all add: read_message_def st_bind_def st_lift_def)

text \<open>What a registered peer has gone through, on either side.\<close>

lemma incoming_verified:
  assumes "accept_handshake C I os now cfg has_slot server tcp = (server', sent, Inr (Some (n, fmt)))"
  obtains s where "incoming_stream os (node_tls cfg) tcp = Inr s"
    "verify_peer_identity I (node_cfg_id cfg) n (peer_cert_der s) (node_tls cfg) = Inr ()"
    "fmt \<in> set (supported_formats_for (node_serialization_format cfg))" "is_ok has_slot"
proof -
  have greet: "snd (greet p v fs) = Inr f \<Longrightarrow> f \<in> set (supported_formats_for p)" for p v fs f
    using negotiated_format by (auto simp: greet_def split: if_splits option.splits)
  from assms obtain s hello_format msg hs note_msg where
    s: "incoming_stream os (node_tls cfg) tcp = Inr s"
    and hs: "read_hello (node_serialization_format cfg) msg = (note_msg, Inr hs)"
    and ok: "verify_peer_identity I (node_cfg_id cfg) (handshake_node hs) (peer_cert_der s) (node_tls cfg) = Inr ()"
    and ans: "answer_incoming C now cfg has_slot server (stream_channel s) hs = (server', sent, Inr (Some (n, fmt)))"
    by (auto simp: accept_handshake_def Let_def split: sum.splits prod.splits)
  from ans have "hs = PeerHandshake n fmt" and slot: "is_ok has_slot"
    by (auto simp: answer_incoming_def res_bind_Inr_iff split: incoming_handshake.splits sum.splits prod.splits)
  with hs have "snd (greet (node_serialization_format cfg) v fs) = Inr fmt"
    if "wire_kind msg = WireHello n' v fs p" for n' v fs p
    using that by (auto simp: read_hello_def res_bind_Inr_iff apsnd_def map_prod_def split: prod.splits)
  moreover obtain n' v fs p where "wire_kind msg = WireHello n' v fs p"
    using hs \<open>hs = PeerHandshake n fmt\<close>
    by (auto simp: read_hello_def res_bind_Inr_iff apsnd_def map_prod_def split: wire_message_kind.splits prod.splits)
  ultimately have "fmt \<in> set (supported_formats_for (node_serialization_format cfg))" using greet by blast
  with that s ok slot \<open>hs = PeerHandshake n fmt\<close> show ?thesis by simp
qed

lemma outgoing_verified:
  assumes "outgoing_handshake C I os cfg addr = (sent, Inr (n, fmt, transport))"
  obtains s where "connect_transport os addr (node_tls cfg) = Inr (s, transport)"
    "verify_peer_identity I (node_cfg_id cfg) n (peer_cert_der s) (node_tls cfg) = Inr ()"
    "fmt \<in> set (supported_formats_for (node_serialization_format cfg))"
proof -
  have ack: "read_hello_ack p m = Inr (n, f) \<Longrightarrow> f \<in> set (supported_formats_for p)" for p m f
    by (auto simp: read_hello_ack_def split: message_kind.splits if_splits)
  show ?thesis
    using assms that ack by (auto simp: outgoing_handshake_def Let_def res_bind_Inr_iff split: sum.splits prod.splits)
qed

section \<open>Properties of handshakes\<close>

text \<open>
  C21. Two nodes that reach each other come to the same agreement: when what either writes is what
  the other reads, each accepts the other's identity, and the messages fit the limits, then both sides
  of the handshake succeed, each knows the other's identifier, and both use the same format, which
  both support.
\<close>

theorem handshake_agrees:
  assumes "wire_codec_ok need C"
    and "connect_transport os addr (node_tls a) = Inr (sa, transport)" "writable (stream_channel sa)"
    and "incoming_stream os' (node_tls b) tcp = Inr sb" "writable (stream_channel sb)"
    and "incoming (stream_channel sb) = stream_of e (fst (outgoing_handshake C I os a addr))"
    and "incoming (stream_channel sa) = stream_of e' (fst (snd (accept_handshake C I os' now b (Inr ()) server tcp)))"
    and "verify_peer_identity I (node_cfg_id b) (node_cfg_id a) (peer_cert_der sb) (node_tls b) = Inr ()"
    and "verify_peer_identity I (node_cfg_id a) (node_cfg_id b) (peer_cert_der sa) (node_tls a) = Inr ()"
    and "readable need C (node_max_message_size b) (node_serialization_format a,
      hello_with_formats (node_cfg_id a) (supported_formats_for (node_serialization_format a)) (node_serialization_format a))"
    and "\<forall>fmt. negotiate_serialization_format (node_serialization_format b) (supported_formats_for (node_serialization_format a)) = Some fmt \<longrightarrow>
      readable need C (node_max_message_size a) (fmt, hello_ack_with_format (node_cfg_id b) fmt)"
  shows "\<exists>fmt sent sent'.
      negotiate_serialization_format (node_serialization_format b) (supported_formats_for (node_serialization_format a)) = Some fmt
    \<and> fmt \<in> set (supported_formats_for (node_serialization_format a))
    \<and> fmt \<in> set (supported_formats_for (node_serialization_format b))
    \<and> accept_handshake C I os' now b (Inr ()) server tcp = (server, sent, Inr (Some (node_cfg_id a, fmt)))
    \<and> outgoing_handshake C I os a addr = (sent', Inr (node_cfg_id b, fmt, transport))"
proof -
  let ?pa = "node_serialization_format a" and ?pb = "node_serialization_format b"
  let ?hello = "hello_with_formats (node_cfg_id a) (supported_formats_for ?pa) ?pa"
  obtain fmt where fmt: "negotiate_serialization_format ?pb (supported_formats_for ?pa) = Some fmt" using negotiate_nodes by blast
  let ?ack = "hello_ack_with_format (node_cfg_id b) fmt"
  obtain hs where hs: "to_bytes_with_format (message_codec C) ?pa ?hello = Inr hs"
    using assms(10) by (auto simp: readable_def split: sum.splits)
  obtain bs where bs: "to_bytes_with_format (message_codec C) fmt ?ack = Inr bs"
    using assms(11) fmt by (auto simp: readable_def split: sum.splits)
  have sent: "fst (outgoing_handshake C I os a addr) = hs"
    by (simp add: outgoing_handshake_def assms(2) Let_def reply_to_writable [OF assms(3)] hs)
  have wire: "snd (read_wire_message_with_format C (node_max_message_size b) (incoming (stream_channel sb))) = Inr (?pa, wire_of_message ?hello)"
    unfolding assms(6) sent by (rule readable_wire [OF assms(1,10) hs])
  have hello: "read_hello ?pb (wire_of_message ?hello) = (None, Inr (PeerHandshake (node_cfg_id a) fmt))"
    by (simp add: read_hello_def wire_of_message_def hello_with_formats_def greet_def is_protocol_version_compatible_def fmt)
  have inc: "accept_handshake C I os' now b (Inr ()) server tcp = (server, bs, Inr (Some (node_cfg_id a, fmt)))"
    by (simp add: accept_handshake_def assms(4,8) Let_def wire hello answer_incoming_def reply_to_writable [OF assms(5)] bs)
  have "read_message C (node_max_message_size a) (incoming (stream_channel sa)) = (stream_of e' [], Inr ?ack)"
    unfolding assms(7) inc using readable_message(1) [OF assms(1) assms(11) [rule_format, OF fmt] bs, where rest = "[]"] by simp
  moreover have "read_hello_ack ?pa ?ack = Inr (node_cfg_id b, fmt)"
    using negotiated_format [OF fmt] by (simp add: read_hello_ack_def hello_ack_with_format_def is_protocol_version_compatible_def)
  ultimately have "outgoing_handshake C I os a addr = (hs, Inr (node_cfg_id b, fmt, transport))"
    by (simp add: outgoing_handshake_def assms(2,9) Let_def reply_to_writable [OF assms(3)] hs)
  with inc fmt negotiated_format [OF fmt] show ?thesis by blast
qed

text \<open>A codec that knows two messages, and two nodes without TLS.\<close>

definition duo_codec :: "message \<Rightarrow> message \<Rightarrow> wire_codec" where
  "duo_codec a b = \<lparr>message_codec = tiny_codec a b, wire_message_codec = tiny_codec (wire_of_message a) (wire_of_message b)\<rparr>"

lemma duo_codec_ok: "wire_codec_ok need (duo_codec a b)"
proof -
  have inj: "wire_of_message m = wire_of_message n \<longleftrightarrow> m = n" for m n
    using message_of_wire_iff [of "wire_of_message m" m] message_of_wire_iff [of "wire_of_message m" n] by auto
  show ?thesis
    by (simp add: wire_codec_ok_def duo_codec_def tiny_codec_ok) (simp add: tiny_codec_def Let_def inj)
qed

lemma duo_bytes:
  "a \<noteq> b \<Longrightarrow> to_bytes_with_format (message_codec (duo_codec a b)) Bincode_Format a = Inr [0, 0, 0, 2, 2, 0]"
  "a \<noteq> b \<Longrightarrow> to_bytes_with_format (message_codec (duo_codec a b)) Bincode_Format b = Inr [0, 0, 0, 2, 2, 1]"
proof -
  have two: "u32_to_be_bytes 2 = [0, 0, 0, 2]" by code_simp
  show "a \<noteq> b \<Longrightarrow> to_bytes_with_format (message_codec (duo_codec a b)) Bincode_Format a = Inr [0, 0, 0, 2, 2, 0]"
    "a \<noteq> b \<Longrightarrow> to_bytes_with_format (message_codec (duo_codec a b)) Bincode_Format b = Inr [0, 0, 0, 2, 2, 1]"
    by (simp_all add: to_bytes_with_format_def encode_frame_def duo_codec_def tiny_codec_def Let_def two FORMAT_BINCODE_def)
qed

definition node_a :: node_config where "node_a = node_config_new (NodeId ''a'') ''0.0.0.0:1''"
definition node_b :: node_config where "node_b = node_config_new (NodeId ''b'') ''0.0.0.0:2''"

definition ab_codec :: wire_codec where
  "ab_codec = duo_codec (hello_with_formats (NodeId ''a'') DEFAULT_SUPPORTED_FORMATS Bincode_Format)
     (hello_ack_with_format (NodeId ''b'') Bincode_Format)"

definition channel_with :: "bytes \<Rightarrow> channel" where
  "channel_with bs = \<lparr>incoming = stream_of StreamClosed bs, outgoing_write = WriteAll, outgoing_flush = Inr ()\<rparr>"

lemma ab_messages:
  defines "h \<equiv> hello_with_formats (NodeId ''a'') DEFAULT_SUPPORTED_FORMATS Bincode_Format"
    and "k \<equiv> hello_ack_with_format (NodeId ''b'') Bincode_Format"
  shows "wire_codec_ok need ab_codec"
    "to_bytes_with_format (message_codec ab_codec) Bincode_Format h = Inr [0, 0, 0, 2, 2, 0]"
    "to_bytes_with_format (message_codec ab_codec) Bincode_Format k = Inr [0, 0, 0, 2, 2, 1]"
    "readable (\<lambda>_. 0) ab_codec 16777216 (Bincode_Format, h)" "readable (\<lambda>_. 0) ab_codec 16777216 (Bincode_Format, k)"
proof -
  have ne: "h \<noteq> k" by (simp add: h_def k_def hello_with_formats_def hello_ack_with_format_def)
  note bytes = duo_bytes [OF ne, unfolded h_def k_def, folded ab_codec_def]
  show "wire_codec_ok need ab_codec" by (simp add: ab_codec_def duo_codec_ok)
  show "to_bytes_with_format (message_codec ab_codec) Bincode_Format h = Inr [0, 0, 0, 2, 2, 0]"
    "to_bytes_with_format (message_codec ab_codec) Bincode_Format k = Inr [0, 0, 0, 2, 2, 1]"
    by (simp_all add: bytes h_def k_def)
  show "readable (\<lambda>_. 0) ab_codec 16777216 (Bincode_Format, h)" "readable (\<lambda>_. 0) ab_codec 16777216 (Bincode_Format, k)"
    by (simp_all add: readable_def bytes allocatable_def h_def k_def split: option.splits)
qed

lemma ab_configs:
  "node_cfg_id node_a = NodeId ''a''" "node_cfg_id node_b = NodeId ''b''" "node_tls node_a = None" "node_tls node_b = None"
  "node_serialization_format node_a = Bincode_Format" "node_serialization_format node_b = Bincode_Format"
  "node_max_message_size node_a = 16777216" "node_max_message_size node_b = 16777216" "node_max_peers node_b = 64"
  by (simp_all add: node_a_def node_b_def node_config_new_def DEFAULT_MAX_MESSAGE_SIZE_def DEFAULT_MAX_PEERS_def)

lemma channel_with_simps [simp]:
  "outgoing_write (channel_with bs) = WriteAll" "outgoing_flush (channel_with bs) = Inr ()"
  "incoming (channel_with bs) = stream_of StreamClosed bs"
  by (simp_all add: channel_with_def)

lemma ab_incoming:
  "accept_handshake ab_codec example_identity (example_os []) 0 node_b (Inr ()) None (channel_with [0, 0, 0, 2, 2, 0]) =
     (None, [0, 0, 0, 2, 2, 1], Inr (Some (NodeId ''a'', Bincode_Format)))"
proof -
  have fmt: "negotiate_serialization_format Bincode_Format DEFAULT_SUPPORTED_FORMATS = Some Bincode_Format"
    by (simp add: negotiate_serialization_format_def DEFAULT_SUPPORTED_FORMATS_def)
  from readable_wire [OF ab_messages(1,4,2), where e = StreamClosed] show ?thesis
    by (simp add: accept_handshake_def incoming_stream_def Let_def ab_configs read_hello_def wire_of_message_def hello_with_formats_def
        greet_def is_protocol_version_compatible_def fmt verify_peer_identity_def answer_incoming_def write_message_def write_bytes_def
        st_bind_def st_lift_def ab_messages(3))
qed

theorem handshake_agrees_witness:
  "snd (snd (accept_handshake ab_codec example_identity (example_os []) 0 node_b (Inr ()) None (channel_with [0, 0, 0, 2, 2, 0]))) =
     Inr (Some (NodeId ''a'', Bincode_Format))
   \<and> snd (outgoing_handshake ab_codec example_identity (example_os [0, 0, 0, 2, 2, 1]) node_a ''b:2'') =
     Inr (NodeId ''b'', Bincode_Format, ''10.0.0.1:80'')"
proof -
  let ?hs = "[0, 0, 0, 2, 2, 0] :: bytes" and ?ks = "[0, 0, 0, 2, 2, 1] :: bytes"
  have conn: "connect_transport (example_os ?ks) ''b:2'' (node_tls node_a) = Inr (Plain (channel_with ?ks), ''10.0.0.1:80'')"
    by (simp add: connect_transport_def example_os_def attempted_def ab_configs channel_with_def)
  have inc: "incoming_stream (example_os []) (node_tls node_b) (channel_with ?hs) = Inr (Plain (channel_with ?hs))"
    by (simp add: incoming_stream_def ab_configs)
  have fmt: "negotiate_serialization_format Bincode_Format (supported_formats_for Bincode_Format) = Some Bincode_Format"
    by (simp add: negotiate_serialization_format_def DEFAULT_SUPPORTED_FORMATS_def)
  have sent: "fst (outgoing_handshake ab_codec example_identity (example_os ?ks) node_a ''b:2'') = ?hs"
    using conn by (simp add: outgoing_handshake_def Let_def ab_configs write_message_def write_bytes_def st_bind_def st_lift_def ab_messages(2))
  have ids: "verify_peer_identity I (NodeId ''a'') (NodeId ''b'') c None = Inr ()" "verify_peer_identity I (NodeId ''b'') (NodeId ''a'') c None = Inr ()" for I c
    by (simp_all add: verify_peer_identity_def)
  from handshake_agrees [OF ab_messages(1) conn, where os' = "example_os []" and b = node_b and tcp = "channel_with ?hs"
      and sb = "Plain (channel_with ?hs)" and e = StreamClosed and I = example_identity and e' = StreamClosed and now = 0 and server = None
      and need = "\<lambda>_. 0"]
    inc sent ab_incoming ab_messages(4,5) fmt ids show ?thesis
    by (auto simp: ab_configs)
qed

section \<open>Conversations\<close>

text \<open>The event of a message, and the answers to the pings among messages.\<close>

definition event_of :: "read_context \<Rightarrow> serialization_format \<times> message \<Rightarrow> node_event option" where
  "event_of ctx item =
     (case kind (snd item) of
        PushOps ops \<Rightarrow> Some (OpsReceived (rc_peer ctx) ops)
      | PullSince since \<Rightarrow> Some (PullRequested (rc_peer ctx) (rc_addr ctx) since)
      | _ \<Rightarrow> None)"

definition pongs :: "bytes \<Rightarrow> (serialization_format \<times> message) list \<Rightarrow> bytes" where
  "pongs answer items = concat (map (\<lambda>item. if kind (snd item) = Ping then answer else []) items)"

lemma read_messages_end [simp]:
  "read_messages C ctx w (stream_of StreamClosed []) = ([], [], Inr ())"
  by (subst read_messages.simps) (simp add: read_message_def read_message_with_format_def read_wire_message_with_format_def
      read_exact_def st_bind_def)

lemma read_messages_step:
  assumes "read_message C (rc_max_message_size ctx) s = (s', Inr m)" "\<forall>e. kind m \<noteq> ErrorMessage e"
    and "to_bytes_with_format (message_codec C) (rc_format ctx) pong = Inr answer"
    and "read_messages C ctx (\<lambda>_. WriteAll) s' = (List.map_filter (event_of ctx) items, pongs answer items, r)"
  shows "read_messages C ctx (\<lambda>_. WriteAll) s =
    (List.map_filter (event_of ctx) ((fmt, m) # items), pongs answer ((fmt, m) # items), r)"
  using assms
  by (subst read_messages.simps, cases "kind m")
    (simp_all add: List.map_filter_simps event_of_def pongs_def write_message_def write_bytes_def st_bind_def st_lift_def)

lemma read_conversation:
  assumes "wire_codec_ok need C" "to_bytes_with_format (message_codec C) (rc_format ctx) pong = Inr answer"
  shows "list_all (readable need C (rc_max_message_size ctx)) items \<Longrightarrow> list_all (\<lambda>(_, m). \<forall>e. kind m \<noteq> ErrorMessage e) items \<Longrightarrow>
    send_all C items out = (out @ bs, Inr ()) \<Longrightarrow>
    \<exists>j \<le> length items. (length bs \<le> k \<longrightarrow> j = length items)
      \<and> read_messages C ctx (\<lambda>_. WriteAll) (stream_of StreamClosed (take k bs)) =
          (List.map_filter (event_of ctx) (take j items), pongs answer (take j items), Inr ())"
proof (induction items arbitrary: out bs k)
  case Nil
  then show ?case by (simp add: send_all_def st_lift_def List.map_filter_simps pongs_def)
next
  case (Cons item items)
  obtain fmt m where item: "item = (fmt, m)" by (cases item)
  from Cons.prems(3) obtain b where b: "to_bytes_with_format (message_codec C) fmt m = Inr b" "send_all C items (out @ b) = (out @ bs, Inr ())"
    unfolding item send_all_Cons by blast
  from send_all_grows [OF b(2)] obtain cs where bs: "bs = b @ cs" by auto
  have r: "readable need C (rc_max_message_size ctx) (fmt, m)" using Cons.prems(1) by (simp add: item)
  note R = readable_message [OF assms(1) r b(1)]
  show ?case
  proof (cases "k < length b")
    case True
    then have "read_messages C ctx (\<lambda>_. WriteAll) (stream_of StreamClosed (take k bs)) = ([], [], Inr ())"
      by (subst read_messages.simps) (simp add: bs R(2))
    with True show ?thesis by (intro exI [of _ 0]) (simp add: bs List.map_filter_simps pongs_def)
  next
    case False
    then have k: "take k bs = b @ take (k - length b) cs" by (simp add: bs)
    obtain j where j: "j \<le> length items" "length cs \<le> k - length b \<longrightarrow> j = length items"
      "read_messages C ctx (\<lambda>_. WriteAll) (stream_of StreamClosed (take (k - length b) cs)) =
        (List.map_filter (event_of ctx) (take j items), pongs answer (take j items), Inr ())"
      using Cons.IH [of "out @ b" cs "k - length b"] Cons.prems(1,2) b(2) by (auto simp: bs)
    have "\<forall>e. kind m \<noteq> ErrorMessage e" using Cons.prems(2) by (simp add: item)
    from read_messages_step [OF R(1) this assms(2) j(3), of fmt]
    have "read_messages C ctx (\<lambda>_. WriteAll) (stream_of StreamClosed (take k bs)) =
        (List.map_filter (event_of ctx) (take (Suc j) (item # items)), pongs answer (take (Suc j) (item # items)), Inr ())"
      unfolding k item take_Suc_Cons .
    moreover have "Suc j \<le> length (item # items) \<and> (length bs \<le> k \<longrightarrow> Suc j = length (item # items))"
      using j(1,2) False by (auto simp: bs)
    ultimately show ?thesis by blast
  qed
qed



end
