(* ===== verification/Node_Peers.thy ===== *)
theory Node_Peers
  imports Node_Handshake
begin

text \<open>
  The table of peers of \<open>nx-net/src/node.rs\<close> and what changes it: admission of incoming and outgoing
  connections against the connection slots, registration, sending with removal of peers that
  fail, the end of connections, and shutdown.

  A step is what happens under one lock, so the interleavings of the tasks of a node are
  sequences of steps. The permits of the semaphores that connections and attempts hold are
  counted: an attempt is a task or a call that holds a slot, and dropping it gives back what it
  holds. The number of a connection stands for its \<open>ConnectionInstance\<close>, which is closed as soon
  as it is not in the table. \<open>node_sent\<close> is what was written to it, and \<open>node_events\<close> are the events sent
  to the runtime, including those that wait for room in its queue.
\<close>

section \<open>State\<close>

definition MAX_CONCURRENT_OUTBOUND_ATTEMPTS :: nat where
  "MAX_CONCURRENT_OUTBOUND_ATTEMPTS = 1"

datatype peer_state = Disconnected | Connecting | Handshaking | Connected | FailedPeer

record peer_info =
  peer_info_addr :: string
  peer_info_node_id :: "node_id option"

definition peer_info_new :: "string \<Rightarrow> peer_info" where
  "peer_info_new addr = \<lparr>peer_info_addr = addr, peer_info_node_id = None\<rparr>"

definition with_node_id :: "node_id \<Rightarrow> peer_info \<Rightarrow> peer_info" where
  "with_node_id n p = p\<lparr>peer_info_node_id := Some n\<rparr>"

record peer_connection =
  pc_info :: peer_info
  pc_connection_info :: "peer_connection_info option"
  pc_instance :: nat
  pc_state :: peer_state
  pc_format :: serialization_format
  pc_writer :: bool

text \<open>An attempt: where to or from, whether it still holds a connection slot, and what its handshake gave.\<close>

record attempt_state =
  at_addr :: string
  at_direction :: connection_direction
  at_slot :: bool
  at_ready :: "(node_id \<times> serialization_format \<times> string) option"

record net_node =
  node_cfg :: node_config
  node_peers :: "(string, peer_connection) omap"
  node_events :: "node_event list"
  node_shutdown :: bool
  connection_slots :: nat
  outbound_attempt_slots :: nat
  slots_closed :: bool
  outbound_attempts :: "string oset"
  tasks_closed :: bool
  node_bootstrap :: "bootstrap_server option"
  node_attempts :: "(nat, attempt_state) omap"
  node_sent :: "nat \<Rightarrow> bytes"
  next_instance :: nat

definition node_new :: "node_config \<Rightarrow> net_node" where
  "node_new cfg =
     \<lparr>node_cfg = cfg, node_peers = om_empty, node_events = [], node_shutdown = False, connection_slots = node_max_peers cfg,
      outbound_attempt_slots = MAX_CONCURRENT_OUTBOUND_ATTEMPTS, slots_closed = False, outbound_attempts = om_empty,
      tasks_closed = False, node_bootstrap = None, node_attempts = om_empty, node_sent = (\<lambda>_. []), next_instance = 0\<rparr>"

definition node_try_new :: "nat \<Rightarrow> instant \<Rightarrow> node_config \<Rightarrow> node_config_error + net_node" where
  "node_try_new max_permits now cfg = res_bind (node_config_validate max_permits now cfg) (\<lambda>_. Inr (node_new cfg))"

definition try_new_with_bootstrap_server ::
    "nat \<Rightarrow> instant \<Rightarrow> node_config \<Rightarrow> bootstrap_server_config \<Rightarrow> bootstrap_error + net_node" where
  "try_new_with_bootstrap_server max_permits now cfg server =
     res_bind (map_err BootstrapNodeConfig (node_config_validate max_permits now cfg)) (\<lambda>_.
     res_bind (server_config_validate server) (\<lambda>_.
     Inr ((node_new cfg)\<lparr>node_bootstrap := Some (bootstrap_server_new server)\<rparr>)))"

section \<open>Queries\<close>

definition node_connected_count :: "(string, peer_connection) omap \<Rightarrow> nat" where
  "node_connected_count peers = length (filter (\<lambda>c. pc_state c = Connected) (om_values peers))"

definition is_connected_addr :: "string \<Rightarrow> net_node \<Rightarrow> bool" where
  "is_connected_addr addr n = (case om_get (node_peers n) addr of Some c \<Rightarrow> pc_state c = Connected | None \<Rightarrow> False)"

definition node_connected_peers :: "net_node \<Rightarrow> (string \<times> node_id) list" where
  "node_connected_peers n =
     List.map_filter (\<lambda>(addr, c). map_option (Pair addr) (peer_info_node_id (pc_info c)))
       (filter (\<lambda>(_, c). pc_state c = Connected) (om_entries (node_peers n)))"

definition connection_info_of :: "string \<Rightarrow> net_node \<Rightarrow> peer_connection_info option" where
  "connection_info_of addr n =
     (case om_get (node_peers n) addr of Some c \<Rightarrow> if pc_state c = Connected then pc_connection_info c else None | None \<Rightarrow> None)"

definition ensure_peer_slot_available :: "(string, peer_connection) omap \<Rightarrow> nat \<Rightarrow> string option \<Rightarrow> net_error + unit" where
  "ensure_peer_slot_available peers limit replacing =
     (if (case replacing of Some addr \<Rightarrow> om_contains_key peers addr | None \<Rightarrow> False) then Inr ()
      else if node_connected_count peers \<ge> limit then Inl (PeerLimitReached limit) else Inr ())"

section \<open>Admission\<close>

definition spawn_task :: "net_node \<Rightarrow> net_error + unit" where
  "spawn_task n = (if tasks_closed n then Inl (ConnectionFailed ''node is shut down'') else Inr ())"

definition try_acquire_slot :: "net_node \<Rightarrow> net_node option" where
  "try_acquire_slot n =
     (if slots_closed n \<or> connection_slots n = 0 then None else Some (n\<lparr>connection_slots := connection_slots n - 1\<rparr>))"

definition start_attempt :: "string \<Rightarrow> connection_direction \<Rightarrow> net_node \<Rightarrow> net_node" where
  "start_attempt addr dir n =
     n\<lparr>node_attempts := om_insert (next_instance n) \<lparr>at_addr = addr, at_direction = dir, at_slot = True, at_ready = None\<rparr> (node_attempts n),
       next_instance := Suc (next_instance n)\<rparr>"

text \<open>The listener on an accepted connection.\<close>

definition accept_connection :: "string \<Rightarrow> net_node \<Rightarrow> net_node" where
  "accept_connection addr n =
     (if node_shutdown n then n
      else case try_acquire_slot n of
        None \<Rightarrow> n
      | Some n' \<Rightarrow> (case spawn_task n' of Inl _ \<Rightarrow> n | Inr _ \<Rightarrow> start_attempt addr Inbound n'))"

text \<open>\<open>connect_to_peer\<close> until it dials: \<open>None\<close> when the peer is connected already.\<close>

definition begin_connect :: "string \<Rightarrow> net_node \<Rightarrow> net_node \<times> (net_error + nat option)" where
  "begin_connect addr n =
     (if node_shutdown n then (n, Inl (ConnectionFailed ''node is shut down''))
      else if is_connected_addr addr n then (n, Inr None)
      else if os_member (outbound_attempts n) addr
      then (n, Inl (ConnectionFailed (''connection attempt already in progress for peer: '' @ addr)))
      else if slots_closed n \<or> outbound_attempt_slots n = 0
      then (n, Inl (ConnectionFailed (''outbound connection attempt limit reached: '' @ show_nat MAX_CONCURRENT_OUTBOUND_ATTEMPTS)))
      else case try_acquire_slot n of
        None \<Rightarrow> (n, Inl (PeerLimitReached (node_max_peers (node_cfg n))))
      | Some n' \<Rightarrow>
          (start_attempt addr Outbound
             (n'\<lparr>outbound_attempts := fst (os_insert addr (outbound_attempts n')),
                outbound_attempt_slots := outbound_attempt_slots n' - 1\<rparr>),
           Inr (Some (next_instance n))))"

text \<open>What happens when an attempt is dropped: it returned, failed, or was cancelled.\<close>

definition drop_attempt :: "nat \<Rightarrow> net_node \<Rightarrow> net_node" where
  "drop_attempt k n =
     (case om_get (node_attempts n) k of
        None \<Rightarrow> n
      | Some a \<Rightarrow>
          let n' = n\<lparr>node_attempts := om_remove k (node_attempts n),
                     connection_slots := connection_slots n + (if at_slot a then 1 else 0)\<rparr>
          in case at_direction a of
               Inbound \<Rightarrow> n'
             | Outbound \<Rightarrow>
                 n'\<lparr>outbound_attempts := om_remove (at_addr a) (outbound_attempts n'),
                   outbound_attempt_slots := outbound_attempt_slots n' + 1\<rparr>)"

section \<open>Handshakes\<close>

definition attempt_ready :: "nat \<Rightarrow> attempt_state \<Rightarrow> node_id \<times> serialization_format \<times> string \<Rightarrow> net_node \<Rightarrow> net_node" where
  "attempt_ready k a ready n = n\<lparr>node_attempts := om_insert k (a\<lparr>at_ready := Some ready\<rparr>) (node_attempts n)\<rparr>"

definition answer_attempt ::
    "wire_codec \<Rightarrow> identity_api \<Rightarrow> net_os \<Rightarrow> instant \<Rightarrow> channel \<Rightarrow> nat \<Rightarrow> attempt_state \<Rightarrow> net_node \<Rightarrow> net_node" where
  "answer_attempt C I os now tcp k a n =
     (case accept_handshake C I os now (node_cfg n)
         (ensure_peer_slot_available (node_peers n) (node_max_peers (node_cfg n)) (Some (at_addr a))) (node_bootstrap n) tcp of
        (server, _, Inr (Some (p, fmt))) \<Rightarrow> attempt_ready k a (p, fmt, at_addr a) (n\<lparr>node_bootstrap := server\<rparr>)
      | (server, _, _) \<Rightarrow> drop_attempt k (n\<lparr>node_bootstrap := server\<rparr>))"

definition dial_attempt :: "wire_codec \<Rightarrow> identity_api \<Rightarrow> net_os \<Rightarrow> nat \<Rightarrow> attempt_state \<Rightarrow> net_node \<Rightarrow> net_node" where
  "dial_attempt C I os k a n =
     (case snd (outgoing_handshake C I os (node_cfg n) (at_addr a)) of
        Inl _ \<Rightarrow> drop_attempt k n
      | Inr ready \<Rightarrow> attempt_ready k a ready n)"

section \<open>Registration\<close>

text \<open>Dropping connections gives their slots back.\<close>

definition remove_connection_if_current ::
    "string \<Rightarrow> nat \<Rightarrow> net_node \<Rightarrow> net_node \<times> peer_connection option" where
  "remove_connection_if_current addr inst n =
     (case om_get (node_peers n) addr of
        Some c \<Rightarrow>
          if pc_instance c = inst
          then (n\<lparr>node_peers := om_remove addr (node_peers n), connection_slots := connection_slots n + 1\<rparr>, Some c)
          else (n, None)
      | None \<Rightarrow> (n, None))"

text \<open>The entry takes over the slot of the attempt; an entry it replaces is dropped.\<close>

definition insert_connection ::
    "nat \<Rightarrow> attempt_state \<Rightarrow> node_id \<times> serialization_format \<times> string \<Rightarrow> net_node \<Rightarrow> net_node" where
  "insert_connection k a ready n =
     (case ready of (p, fmt, transport) \<Rightarrow>
      let c = \<lparr>pc_info = with_node_id p (peer_info_new (at_addr a)),
               pc_connection_info = Some \<lparr>transport_addr = transport,
                 dialed_endpoint = (case at_direction a of Outbound \<Rightarrow> Some (at_addr a) | Inbound \<Rightarrow> None),
                 direction = at_direction a,
                 identity = \<lparr>identity_node_id = p, verification = identity_verification (node_tls (node_cfg n))\<rparr>\<rparr>,
               pc_instance = next_instance n, pc_state = Connected, pc_format = fmt, pc_writer = True\<rparr>
      in n\<lparr>node_peers := om_insert (at_addr a) c (node_peers n),
           connection_slots := connection_slots n + (if om_contains_key (node_peers n) (at_addr a) then 1 else 0),
           node_attempts := om_insert k (a\<lparr>at_slot := False, at_ready := None\<rparr>) (node_attempts n),
           next_instance := Suc (next_instance n)\<rparr>)"

definition send_node_event :: "node_event \<Rightarrow> net_node \<Rightarrow> net_node" where
  "send_node_event e n = n\<lparr>node_events := node_events n @ [e]\<rparr>"

definition register_incoming :: "nat \<Rightarrow> attempt_state \<Rightarrow> node_id \<times> serialization_format \<times> string \<Rightarrow> net_node \<Rightarrow> net_node \<times> (net_error + unit)" where
  "register_incoming k a ready n =
     (case ensure_peer_slot_available (node_peers n) (node_max_peers (node_cfg n)) (Some (at_addr a)) of
        Inl e \<Rightarrow> (drop_attempt k n, Inl e)
      | Inr _ \<Rightarrow>
          let n' = insert_connection k a ready n
          in (send_node_event (PeerConnected (fst ready) (at_addr a) (node_connected_count (node_peers n'))) (drop_attempt k n'), Inr ()))"

definition register_outgoing :: "nat \<Rightarrow> attempt_state \<Rightarrow> node_id \<times> serialization_format \<times> string \<Rightarrow> net_node \<Rightarrow> net_node \<times> (net_error + unit)" where
  "register_outgoing k a ready n =
     (if is_connected_addr (at_addr a) n then (drop_attempt k n, Inr ())
      else case ensure_peer_slot_available (node_peers n) (node_max_peers (node_cfg n)) (Some (at_addr a)) of
        Inl e \<Rightarrow> (drop_attempt k n, Inl e)
      | Inr _ \<Rightarrow>
          let n' = insert_connection k a ready n
          in case spawn_task n' of
               Inl e \<Rightarrow> (drop_attempt k (fst (remove_connection_if_current (at_addr a) (next_instance n) n')), Inl e)
             | Inr _ \<Rightarrow> (send_node_event (PeerConnected (fst ready) (at_addr a) (node_connected_count (node_peers n'))) n', Inr ()))"

section \<open>Sending\<close>

definition connection_open :: "nat \<Rightarrow> net_node \<Rightarrow> bool" where
  "connection_open inst n = (\<exists>c \<in> set (om_values (node_peers n)). pc_instance c = inst)"

text \<open>How writing to each connection goes is given.\<close>

type_synonym writes = "nat \<Rightarrow> write_result \<times> (net_error + unit)"

definition write_to_connection :: "writes \<Rightarrow> string \<Rightarrow> nat \<Rightarrow> bytes \<Rightarrow> net_node \<Rightarrow> net_node \<times> (net_error + unit)" where
  "write_to_connection w addr inst bs n =
     (if \<not> connection_open inst n \<or> node_shutdown n then (n, Inl (PeerDisconnectedError addr))
      else case write_bytes (fst (w inst)) (snd (w inst)) bs (node_sent n inst) of
        (sent, r) \<Rightarrow> (n\<lparr>node_sent := (node_sent n)(inst := sent)\<rparr>, r))"

definition mark_peer_failed :: "string \<Rightarrow> nat \<Rightarrow> net_node \<Rightarrow> net_node \<times> (node_id \<times> nat) option" where
  "mark_peer_failed addr inst n =
     (case remove_connection_if_current addr inst n of
        (n', None) \<Rightarrow> (n', None)
      | (n', Some c) \<Rightarrow>
          (n', if pc_state c = Connected
               then map_option (\<lambda>p. (p, node_connected_count (node_peers n'))) (peer_info_node_id (pc_info c)) else None))"

definition write_failed :: "string \<Rightarrow> nat \<Rightarrow> net_node \<Rightarrow> net_node" where
  "write_failed addr inst n =
     (case mark_peer_failed addr inst n of
        (n', Some (p, connected)) \<Rightarrow> send_node_event (PeerDisconnected p addr connected) n'
      | (n', None) \<Rightarrow> n')"

definition active_writer :: "string \<Rightarrow> net_node \<Rightarrow> (nat \<times> serialization_format) option" where
  "active_writer addr n =
     (case om_get (node_peers n) addr of
        Some c \<Rightarrow> if pc_state c = Connected \<and> pc_writer c then Some (pc_instance c, pc_format c) else None
      | None \<Rightarrow> None)"

definition send_message_to_addr :: "wire_codec \<Rightarrow> writes \<Rightarrow> string \<Rightarrow> message \<Rightarrow> net_node \<Rightarrow> net_node \<times> (net_error + unit)" where
  "send_message_to_addr C w addr msg n =
     (case active_writer addr n of
        None \<Rightarrow> (n, Inl (PeerDisconnectedError addr))
      | Some (inst, fmt) \<Rightarrow>
          (case to_bytes_with_format (message_codec C) fmt msg of
             Inl e \<Rightarrow> (n, Inl e)
           | Inr bs \<Rightarrow>
               (case write_to_connection w addr inst bs n of
                  (n', Inl e) \<Rightarrow> (write_failed addr inst n', Inl e)
                | (n', Inr _) \<Rightarrow> (n', Inr ()))))"

definition send_ops_to_addr :: "wire_codec \<Rightarrow> writes \<Rightarrow> string \<Rightarrow> Op list \<Rightarrow> net_node \<Rightarrow> net_node \<times> (net_error + unit)" where
  "send_ops_to_addr C w addr ops = send_message_to_addr C w addr (push_ops ops)"

definition send_pull_since_to_addr :: "wire_codec \<Rightarrow> writes \<Rightarrow> string \<Rightarrow> string option \<Rightarrow> net_node \<Rightarrow> net_node \<times> (net_error + unit)" where
  "send_pull_since_to_addr C w addr since = send_message_to_addr C w addr (pull_since since)"

text \<open>A broadcast takes its snapshot in the order in which the table iterates, \<open>order\<close>.\<close>

definition broadcast_one ::
    "wire_codec \<Rightarrow> writes \<Rightarrow> message \<Rightarrow> string \<times> nat \<times> serialization_format \<Rightarrow> string list \<Rightarrow> (net_node, net_error, string list) stm" where
  "broadcast_one C w msg target failed n =
     (case target of (addr, inst, fmt) \<Rightarrow>
        case to_bytes_with_format (message_codec C) fmt msg of
          Inl e \<Rightarrow> (n, Inl e)
        | Inr bs \<Rightarrow>
            (case write_to_connection w addr inst bs n of
               (n', Inl _) \<Rightarrow> (write_failed addr inst n', Inr (failed @ [addr]))
             | (n', Inr _) \<Rightarrow> (n', Inr failed)))"

definition broadcast_message :: "wire_codec \<Rightarrow> writes \<Rightarrow> string list \<Rightarrow> message \<Rightarrow> net_node \<Rightarrow> net_node \<times> (net_error + unit)" where
  "broadcast_message C w order msg n =
     st_bind (st_fold (broadcast_one C w msg) (List.map_filter (\<lambda>addr. map_option (Pair addr) (active_writer addr n)) order) [])
       (\<lambda>failed. st_lift (if failed \<noteq> [] then Inl (PeerDisconnectedError (join '','' failed)) else Inr ())) n"

definition broadcast_ops :: "wire_codec \<Rightarrow> writes \<Rightarrow> string list \<Rightarrow> Op list \<Rightarrow> net_node \<Rightarrow> net_node \<times> (net_error + unit)" where
  "broadcast_ops C w order ops = broadcast_message C w order (push_ops ops)"

section \<open>The end of connections and of the node\<close>

text \<open>After the read loop of connection \<open>inst\<close> to \<open>peer\<close>.\<close>

definition connection_ended :: "string \<Rightarrow> nat \<Rightarrow> node_id \<Rightarrow> net_node \<Rightarrow> net_node" where
  "connection_ended addr inst peer n =
     (case remove_connection_if_current addr inst n of
        (n', Some c) \<Rightarrow>
          if pc_state c = Connected
          then send_node_event (PeerDisconnected peer addr (node_connected_count (node_peers n'))) n' else n'
      | (n', None) \<Rightarrow> n')"

definition announce_bootstrap_endpoint :: "string \<Rightarrow> net_node \<Rightarrow> net_node \<times> (net_error + unit)" where
  "announce_bootstrap_endpoint endpoint n =
     (case node_bootstrap n of
        None \<Rightarrow> (n, Inl (InvalidMessage ''bootstrap server is not configured''))
      | Some s \<Rightarrow> (case announce endpoint s of (s', r) \<Rightarrow> (n\<lparr>node_bootstrap := Some s'\<rparr>, r)))"

definition withdraw_bootstrap_endpoint :: "net_node \<Rightarrow> net_node \<times> (net_error + unit)" where
  "withdraw_bootstrap_endpoint n =
     (case node_bootstrap n of
        None \<Rightarrow> (n, Inl (InvalidMessage ''bootstrap server is not configured''))
      | Some s \<Rightarrow> (n\<lparr>node_bootstrap := Some (withdraw s)\<rparr>, Inr ()))"

text \<open>\<open>shutdown\<close> before and after it waits for the tasks.\<close>

definition begin_shutdown :: "net_node \<Rightarrow> net_node" where
  "begin_shutdown n =
     n\<lparr>tasks_closed := True, node_shutdown := True, slots_closed := True, node_bootstrap := map_option clear (node_bootstrap n)\<rparr>"

definition finish_shutdown :: "net_node \<Rightarrow> net_node" where
  "finish_shutdown n = n\<lparr>node_peers := om_empty, connection_slots := connection_slots n + om_len (node_peers n)\<rparr>"

section \<open>Steps\<close>

inductive node_step :: "wire_codec \<Rightarrow> identity_api \<Rightarrow> net_node \<Rightarrow> net_node \<Rightarrow> bool" for C I where
  Accepted: "node_step C I n (accept_connection addr n)"
| Begun: "node_step C I n (fst (begin_connect addr n))"
| Answered: "om_get (node_attempts n) k = Some a \<Longrightarrow> at_direction a = Inbound \<Longrightarrow> at_slot a \<Longrightarrow> at_ready a = None \<Longrightarrow>
    node_step C I n (answer_attempt C I os now tcp k a n)"
| Dialled: "om_get (node_attempts n) k = Some a \<Longrightarrow> at_direction a = Outbound \<Longrightarrow> at_slot a \<Longrightarrow> at_ready a = None \<Longrightarrow>
    node_step C I n (dial_attempt C I os k a n)"
| Registered_In: "om_get (node_attempts n) k = Some a \<Longrightarrow> at_direction a = Inbound \<Longrightarrow> at_ready a = Some ready \<Longrightarrow>
    node_step C I n (fst (register_incoming k a ready n))"
| Registered_Out: "om_get (node_attempts n) k = Some a \<Longrightarrow> at_direction a = Outbound \<Longrightarrow> at_ready a = Some ready \<Longrightarrow>
    node_step C I n (fst (register_outgoing k a ready n))"
| Dropped: "node_step C I n (drop_attempt k n)"
| Sent: "node_step C I n (fst (send_message_to_addr C w addr msg n))"
| Broadcast: "node_step C I n (fst (broadcast_message C w order msg n))"
| Ended: "node_step C I n (connection_ended addr inst peer n)"
| Announced: "node_step C I n (fst (announce_bootstrap_endpoint endpoint n))"
| Withdrawn: "node_step C I n (fst (withdraw_bootstrap_endpoint n))"
| Stopping: "node_step C I n (begin_shutdown n)"
| Stopped: "tasks_closed n \<Longrightarrow> (\<forall>k a. om_get (node_attempts n) k = Some a \<longrightarrow> at_direction a = Outbound) \<Longrightarrow>
    node_step C I n (finish_shutdown n)"

section \<open>Counting entries\<close>

definition om_count :: "('v \<Rightarrow> bool) \<Rightarrow> ('k::linorder, 'v) omap \<Rightarrow> nat" where
  "om_count P m = card {k. \<exists>v. om_get m k = Some v \<and> P v}"

lemma om_count_finite [simp]: "finite {k. \<exists>v. om_get m k = Some v \<and> P v}"
  by (rule finite_subset [OF _ om_finite_dom [of m]]) auto

lemma om_count_split:
  "om_get m k = Some u \<Longrightarrow> om_count P m = om_count P (om_remove k m) + of_bool (P u)"
proof -
  assume u: "om_get m k = Some u"
  define S where "S = {k'. \<exists>v. om_get (om_remove k m) k' = Some v \<and> P v}"
  have S: "finite S" "k \<notin> S" "om_count P (om_remove k m) = card S"
    unfolding S_def om_count_def by (simp_all only: om_count_finite) simp
  have "{k'. \<exists>v. om_get m k' = Some v \<and> P v} = (if P u then insert k S else S)"
    using u by (auto simp: S_def)
  then show ?thesis using S by (simp add: om_count_def)
qed

lemma om_count_remove_none [simp]: "om_get m k = None \<Longrightarrow> om_count P (om_remove k m) = om_count P m"
  unfolding om_count_def by (rule arg_cong [of _ _ card]) auto

lemma om_count_insert: "om_count P (om_insert k v m) = om_count P (om_remove k m) + of_bool (P v)"
proof -
  have "om_count P (om_remove k (om_insert k v m)) = om_count P (om_remove k m)"
    unfolding om_count_def by (rule arg_cong [of _ _ card]) auto
  then show ?thesis using om_count_split [of "om_insert k v m" k v P] by simp
qed

lemma om_count_empty [simp]: "om_count P om_empty = 0"
  by (simp add: om_count_def)

lemma om_len_count: "om_len m = om_count (\<lambda>_. True) m"
  by (simp add: om_len_card om_count_def dom_def)

lemma om_count_mono: "(\<And>v. P v \<Longrightarrow> Q v) \<Longrightarrow> om_count P m \<le> om_count Q m"
  unfolding om_count_def by (rule card_mono) auto

lemma node_connected_count_eq: "node_connected_count peers = om_count (\<lambda>c. pc_state c = Connected) peers"
proof -
  let ?f = "filter (\<lambda>(k, c). pc_state c = Connected) (om_entries peers)"
  have "distinct (map fst ?f)" by (rule distinct_map_filter) simp
  then have "length ?f = card (fst ` set ?f)" using distinct_card by force
  also have "fst ` set ?f = {k. \<exists>c. om_get peers k = Some c \<and> pc_state c = Connected}"
    by (force simp: om_in_entries image_iff)
  finally show ?thesis
    by (simp add: node_connected_count_def om_values_def om_count_def filter_map comp_def case_prod_unfold)
qed

section \<open>The invariant of a node\<close>

abbreviation outbound :: "attempt_state \<Rightarrow> bool" where
  "outbound a \<equiv> at_direction a = Outbound"

definition slots_ok :: "net_node \<Rightarrow> bool" where
  "slots_ok n \<longleftrightarrow> connection_slots n + om_count at_slot (node_attempts n) + om_len (node_peers n) = node_max_peers (node_cfg n)"

text \<open>The address that an outgoing attempt dials.\<close>

definition dials :: "(nat, attempt_state) omap \<Rightarrow> nat \<Rightarrow> string option" where
  "dials attempts k = (case om_get attempts k of Some a \<Rightarrow> if outbound a then Some (at_addr a) else None | None \<Rightarrow> None)"

definition outbound_ok :: "net_node \<Rightarrow> bool" where
  "outbound_ok n \<longleftrightarrow>
     outbound_attempt_slots n + om_count outbound (node_attempts n) = MAX_CONCURRENT_OUTBOUND_ATTEMPTS
     \<and> os_set (outbound_attempts n) = ran (dials (node_attempts n))
     \<and> inj_on (dials (node_attempts n)) (dom (dials (node_attempts n)))"

text \<open>What a node has checked of a peer before it becomes one.\<close>

definition admitted :: "identity_api \<Rightarrow> node_config \<Rightarrow> node_id \<Rightarrow> serialization_format \<Rightarrow> bool" where
  "admitted I cfg p fmt \<longleftrightarrow>
     p \<noteq> node_cfg_id cfg \<and> fmt \<in> set (supported_formats_for (node_serialization_format cfg))
     \<and> (\<forall>t. node_tls cfg = Some t \<and> \<not> insecure t \<longrightarrow>
          (\<exists>c. derive_protocol_node_id_from_cert I c = Inr p) \<and> is_peer_allowed t (node_id_as_str p))"

definition entry_ok :: "identity_api \<Rightarrow> node_config \<Rightarrow> string \<Rightarrow> peer_connection \<Rightarrow> bool" where
  "entry_ok I cfg addr c \<longleftrightarrow>
     pc_state c = Connected \<and> pc_writer c \<and> peer_info_addr (pc_info c) = addr
     \<and> (\<exists>p ci. peer_info_node_id (pc_info c) = Some p \<and> admitted I cfg p (pc_format c) \<and> pc_connection_info c = Some ci
          \<and> identity ci = \<lparr>identity_node_id = p, verification = identity_verification (node_tls cfg)\<rparr>)"

definition peers_ok :: "identity_api \<Rightarrow> net_node \<Rightarrow> bool" where
  "peers_ok I n \<longleftrightarrow>
     (\<forall>addr c. om_get (node_peers n) addr = Some c \<longrightarrow> entry_ok I (node_cfg n) addr c \<and> pc_instance c < next_instance n)
     \<and> (\<forall>addr addr' c c'. om_get (node_peers n) addr = Some c \<and> om_get (node_peers n) addr' = Some c'
          \<and> pc_instance c = pc_instance c' \<longrightarrow> addr = addr')"

definition attempts_ok :: "identity_api \<Rightarrow> net_node \<Rightarrow> bool" where
  "attempts_ok I n \<longleftrightarrow>
     (\<forall>k a. om_get (node_attempts n) k = Some a \<longrightarrow> k < next_instance n
        \<and> (\<forall>p fmt transport. at_ready a = Some (p, fmt, transport) \<longrightarrow> at_slot a \<and> admitted I (node_cfg n) p fmt))"

definition flags_ok :: "net_node \<Rightarrow> bool" where
  "flags_ok n \<longleftrightarrow> node_shutdown n = tasks_closed n \<and> slots_closed n = tasks_closed n"

definition node_ok :: "identity_api \<Rightarrow> net_node \<Rightarrow> bool" where
  "node_ok I n \<longleftrightarrow> slots_ok n \<and> outbound_ok n \<and> peers_ok I n \<and> attempts_ok I n \<and> flags_ok n"

lemmas node_ok_defs = node_ok_def slots_ok_def outbound_ok_def peers_ok_def attempts_ok_def flags_ok_def

text \<open>Fields that the invariant does not look at.\<close>

lemma node_ok_update [simp]:
  "node_ok I (n\<lparr>node_events := es\<rparr>) = node_ok I n" "node_ok I (n\<lparr>node_sent := f\<rparr>) = node_ok I n"
  "node_ok I (n\<lparr>node_bootstrap := s\<rparr>) = node_ok I n"
  by (simp_all add: node_ok_defs)

lemma event_ok [simp]: "node_ok I (send_node_event e n) = node_ok I n"
  by (simp add: send_node_event_def)

lemma node_okI: "slots_ok n \<Longrightarrow> outbound_ok n \<Longrightarrow> peers_ok I n \<Longrightarrow> attempts_ok I n \<Longrightarrow> flags_ok n \<Longrightarrow> node_ok I n"
  by (simp add: node_ok_def)

lemma node_okD: "node_ok I n \<Longrightarrow> slots_ok n" "node_ok I n \<Longrightarrow> outbound_ok n" "node_ok I n \<Longrightarrow> peers_ok I n"
  "node_ok I n \<Longrightarrow> attempts_ok I n" "node_ok I n \<Longrightarrow> flags_ok n"
  by (simp_all add: node_ok_def)

lemma os_set_remove [simp]: "os_set (om_remove x s) = os_set s - {x}"
  unfolding os_set_def by (auto simp del: os_dom)

lemma dials_update:
  "dials (om_remove k m) = (dials m)(k := None)"
  "dials (om_insert k a m) = (dials m)(k := (if outbound a then Some (at_addr a) else None))"
  by (auto simp: dials_def fun_eq_iff)

lemma map_del:
  assumes "inj_on m (dom m)"
  shows "ran (m(k := None)) = ran m - set_option (m k)" "inj_on (m(k := None)) (dom m - {k})"
    "m k = None \<Longrightarrow> m(k := None) = m"
proof -
  show "ran (m(k := None)) = ran m - set_option (m k)"
  proof (intro equalityI subsetI)
    fix x assume "x \<in> ran (m(k := None))"
    then obtain l where l: "l \<noteq> k" "m l = Some x" by (auto simp: ran_def split: if_splits)
    have "m k \<noteq> Some x" using l assms by (auto simp: inj_on_def domIff)
    with l show "x \<in> ran m - set_option (m k)" by (auto simp: ran_def)
  next
    fix x assume "x \<in> ran m - set_option (m k)"
    then obtain l where "m l = Some x" "l \<noteq> k" by (auto simp: ran_def)
    then show "x \<in> ran (m(k := None))" by (auto simp: ran_def)
  qed
  show "inj_on (m(k := None)) (dom m - {k})" using assms by (auto simp: inj_on_def)
qed auto

lemma drop_ok: "node_ok I n \<Longrightarrow> node_ok I (drop_attempt k n)"
proof (cases "om_get (node_attempts n) k")
  case (Some a)
  assume ok: "node_ok I n"
  note split = om_count_split [OF Some]
  show ?thesis
  proof (rule node_okI)
    show "slots_ok (drop_attempt k n)"
      using node_okD(1) [OF ok] split [of at_slot]
      by (cases "at_direction a"; cases "at_slot a") (simp_all add: slots_ok_def drop_attempt_def Some Let_def)
    have "dials (om_remove k (node_attempts n)) = (dials (node_attempts n))(k := None)"
      "dials (node_attempts n) k = (if outbound a then Some (at_addr a) else None)" by (simp_all add: dials_update Some dials_def)
    then show "outbound_ok (drop_attempt k n)"
      using node_okD(2) [OF ok] split [of outbound]
      by (cases "at_direction a") (simp_all add: outbound_ok_def drop_attempt_def Some Let_def map_del)
    show "peers_ok I (drop_attempt k n)"
      using node_okD(3) [OF ok] by (cases "at_direction a") (simp_all add: peers_ok_def drop_attempt_def Some Let_def)
    show "attempts_ok I (drop_attempt k n)"
      using node_okD(4) [OF ok] by (cases "at_direction a") (auto simp: attempts_ok_def drop_attempt_def Some Let_def)
    show "flags_ok (drop_attempt k n)"
      using node_okD(5) [OF ok] by (cases "at_direction a") (simp_all add: flags_ok_def drop_attempt_def Some Let_def)
  qed
qed (simp add: drop_attempt_def)

text \<open>A new attempt, with a fresh number and a slot taken for it.\<close>

lemma fresh_attempt: "node_ok I n \<Longrightarrow> om_get (node_attempts n) (next_instance n) = None"
  using node_okD(4) [of I n] by (cases "om_get (node_attempts n) (next_instance n)") (auto simp: attempts_ok_def)

lemma dials_None [simp]: "om_get m k = None \<Longrightarrow> (dials m)(k := None) = dials m"
  by (auto simp: dials_def fun_eq_iff)

lemma start_inbound_ok:
  assumes "node_ok I n" "try_acquire_slot n = Some n'"
  shows "node_ok I (start_attempt addr Inbound n')"
proof -
  have n': "n' = n\<lparr>connection_slots := connection_slots n - 1\<rparr>" "0 < connection_slots n"
    using assms(2) by (auto simp: try_acquire_slot_def split: if_splits)
  note fresh = fresh_attempt [OF assms(1)]
  show ?thesis
  proof (rule node_okI)
    show "slots_ok (start_attempt addr Inbound n')"
      using node_okD(1) [OF assms(1)] n'(2) fresh by (simp add: slots_ok_def start_attempt_def n'(1) om_count_insert)
    show "outbound_ok (start_attempt addr Inbound n')"
      using node_okD(2) [OF assms(1)] fresh
      by (simp add: outbound_ok_def start_attempt_def n'(1) om_count_insert dials_update)
    show "peers_ok I (start_attempt addr Inbound n')"
      using node_okD(3) [OF assms(1)] by (fastforce simp: peers_ok_def start_attempt_def n'(1))
    show "attempts_ok I (start_attempt addr Inbound n')"
      using node_okD(4) [OF assms(1)] by (auto simp: attempts_ok_def start_attempt_def n'(1) less_Suc_eq split: if_splits)
    show "flags_ok (start_attempt addr Inbound n')"
      using node_okD(5) [OF assms(1)] by (simp add: flags_ok_def start_attempt_def n'(1))
  qed
qed

lemma begin_connect_ok: "node_ok I n \<Longrightarrow> node_ok I (fst (begin_connect addr n))"
proof (cases "node_shutdown n \<or> is_connected_addr addr n \<or> os_member (outbound_attempts n) addr \<or> slots_closed n
    \<or> outbound_attempt_slots n = 0 \<or> try_acquire_slot n = None")
  case False
  assume ok: "node_ok I n"
  note fresh = fresh_attempt [OF ok]
  from False have slot: "0 < connection_slots n" "0 < outbound_attempt_slots n" "addr \<notin> os_set (outbound_attempts n)"
    by (auto simp: try_acquire_slot_def split: if_splits)
  let ?n = "n\<lparr>connection_slots := connection_slots n - 1, outbound_attempts := om_insert addr () (outbound_attempts n),
    outbound_attempt_slots := outbound_attempt_slots n - 1\<rparr>"
  have eq: "fst (begin_connect addr n) = start_attempt addr Outbound ?n"
    using False by (auto simp: begin_connect_def try_acquire_slot_def os_insert_def split: if_splits)
  show ?thesis
    unfolding eq
  proof (rule node_okI)
    show "slots_ok (start_attempt addr Outbound ?n)"
      using node_okD(1) [OF ok] slot(1) fresh by (simp add: slots_ok_def start_attempt_def om_count_insert)
    show "outbound_ok (start_attempt addr Outbound ?n)"
    proof -
      have none: "dials (node_attempts n) (next_instance n) = None" using fresh by (simp add: dials_def)
      have "inj_on ((dials (node_attempts n))(next_instance n \<mapsto> addr)) (insert (next_instance n) (dom (dials (node_attempts n))))"
        using node_okD(2) [OF ok] slot(3) none by (auto simp: outbound_ok_def inj_on_def ran_def domIff)
      then show ?thesis
        using node_okD(2) [OF ok] slot(2) fresh none
        by (simp add: outbound_ok_def start_attempt_def om_count_insert dials_update ran_map_upd)
    qed
    show "peers_ok I (start_attempt addr Outbound ?n)"
      using node_okD(3) [OF ok] by (fastforce simp: peers_ok_def start_attempt_def)
    show "attempts_ok I (start_attempt addr Outbound ?n)"
      using node_okD(4) [OF ok] by (auto simp: attempts_ok_def start_attempt_def less_Suc_eq split: if_splits)
    show "flags_ok (start_attempt addr Outbound ?n)"
      using node_okD(5) [OF ok] by (simp add: flags_ok_def start_attempt_def)
  qed
qed (auto simp: begin_connect_def)

text \<open>An attempt whose handshake is done.\<close>

lemma dials_same:
  "om_get m k = Some a \<Longrightarrow> at_addr b = at_addr a \<Longrightarrow> at_direction b = at_direction a \<Longrightarrow> dials (om_insert k b m) = dials m"
  by (auto simp: dials_def fun_eq_iff)

lemma set_ready_ok:
  assumes "node_ok I n" "om_get (node_attempts n) k = Some a" "at_slot a" "admitted I (node_cfg n) p fmt"
  shows "node_ok I (attempt_ready k a (p, fmt, transport) n)"
proof (rule node_okI)
  note split = om_count_split [OF assms(2)]
  show "slots_ok (attempt_ready k a (p, fmt, transport) n)"
    using node_okD(1) [OF assms(1)] split [of at_slot] by (simp add: slots_ok_def attempt_ready_def om_count_insert)
  show "outbound_ok (attempt_ready k a (p, fmt, transport) n)"
    using node_okD(2) [OF assms(1)] split [of outbound] assms(2)
    by (simp add: outbound_ok_def attempt_ready_def om_count_insert dials_same)
  show "peers_ok I (attempt_ready k a (p, fmt, transport) n)"
    using node_okD(3) [OF assms(1)] by (simp add: peers_ok_def attempt_ready_def)
  show "attempts_ok I (attempt_ready k a (p, fmt, transport) n)"
    using node_okD(4) [OF assms(1)] assms(2-4) by (auto simp: attempts_ok_def attempt_ready_def)
  show "flags_ok (attempt_ready k a (p, fmt, transport) n)"
    using node_okD(5) [OF assms(1)] by (simp add: flags_ok_def attempt_ready_def)
qed

lemma insert_ok:
  assumes "node_ok I n" "om_get (node_attempts n) k = Some a" "at_slot a" "admitted I (node_cfg n) p fmt"
  shows "node_ok I (insert_connection k a (p, fmt, transport) n)"
proof (rule node_okI)
  let ?n = "insert_connection k a (p, fmt, transport) n"
  note split = om_count_split [OF assms(2)]
  have len: "om_len (om_insert (at_addr a) v (node_peers n)) =
      (if om_contains_key (node_peers n) (at_addr a) then om_len (node_peers n) else Suc (om_len (node_peers n)))" for v
    by (rule om_len_insert)
  show "slots_ok ?n"
    using node_okD(1) [OF assms(1)] split [of at_slot] assms(3)
    by (auto simp: slots_ok_def insert_connection_def Let_def om_count_insert len)
  show "outbound_ok ?n"
    using node_okD(2) [OF assms(1)] split [of outbound] assms(2)
    by (simp add: outbound_ok_def insert_connection_def Let_def om_count_insert dials_same)
  have "pc_instance c < next_instance n" if "om_get (node_peers n) addr = Some c" for addr c
    using node_okD(3) [OF assms(1)] that by (auto simp: peers_ok_def)
  then show "peers_ok I ?n"
    using node_okD(3) [OF assms(1)] assms(4)
    by (fastforce simp: peers_ok_def insert_connection_def Let_def entry_ok_def with_node_id_def peer_info_new_def less_Suc_eq split: if_splits)
  show "attempts_ok I ?n"
    using node_okD(4) [OF assms(1)] assms(2) by (auto simp: attempts_ok_def insert_connection_def Let_def less_Suc_eq)
  show "flags_ok ?n"
    using node_okD(5) [OF assms(1)] by (simp add: flags_ok_def insert_connection_def Let_def)
qed

lemma remove_ok: "node_ok I n \<Longrightarrow> node_ok I (fst (remove_connection_if_current addr inst n))"
proof (cases "om_get (node_peers n) addr")
  case (Some c)
  assume ok: "node_ok I n"
  show ?thesis
  proof (cases "pc_instance c = inst")
    case True
    with Some have eq: "fst (remove_connection_if_current addr inst n) =
        n\<lparr>node_peers := om_remove addr (node_peers n), connection_slots := connection_slots n + 1\<rparr>"
      by (simp add: remove_connection_if_current_def)
    show ?thesis
      unfolding eq
    proof (rule node_okI)
      show "slots_ok (n\<lparr>node_peers := om_remove addr (node_peers n), connection_slots := connection_slots n + 1\<rparr>)"
        using node_okD(1) [OF ok] om_count_split [OF Some, of "\<lambda>_. True"] by (simp add: slots_ok_def om_len_count)
      show "peers_ok I (n\<lparr>node_peers := om_remove addr (node_peers n), connection_slots := connection_slots n + 1\<rparr>)"
        using node_okD(3) [OF ok] by (auto simp: peers_ok_def split: if_splits)
    qed (use ok in \<open>simp_all add: node_ok_defs\<close>)
  qed (use ok Some in \<open>simp add: remove_connection_if_current_def\<close>)
qed (simp add: remove_connection_if_current_def)

lemma finish_ok: "node_ok I n \<Longrightarrow> node_ok I (finish_shutdown n)"
  by (simp add: node_ok_defs finish_shutdown_def om_len_count)

section \<open>Every step keeps the invariant\<close>

lemma admittedI:
  "verify_peer_identity I (node_cfg_id cfg) p cert (node_tls cfg) = Inr () \<Longrightarrow>
     fmt \<in> set (supported_formats_for (node_serialization_format cfg)) \<Longrightarrow> admitted I cfg p fmt"
  by (auto simp: admitted_def verified_identity)

lemma answer_ok:
  assumes "node_ok I n" "om_get (node_attempts n) k = Some a" "at_slot a"
  shows "node_ok I (answer_attempt C I os now tcp k a n)"
proof -
  obtain server sent r where h: "accept_handshake C I os now (node_cfg n)
      (ensure_peer_slot_available (node_peers n) (node_max_peers (node_cfg n)) (Some (at_addr a))) (node_bootstrap n) tcp = (server, sent, r)"
    by (metis surj_pair)
  have ok: "node_ok I (n\<lparr>node_bootstrap := server\<rparr>)" using assms(1) by simp
  show ?thesis
  proof (cases "\<exists>p fmt. r = Inr (Some (p, fmt))")
    case True
    then obtain p fmt where r: "r = Inr (Some (p, fmt))" by blast
    have "admitted I (node_cfg n) p fmt"
      using incoming_verified [OF h [unfolded r]] admittedI by metis
    then show ?thesis
      using set_ready_ok [OF ok, of k a p fmt "at_addr a"] assms(2,3) by (simp add: answer_attempt_def h r)
  next
    case False
    then have "answer_attempt C I os now tcp k a n = drop_attempt k (n\<lparr>node_bootstrap := server\<rparr>)"
      by (auto simp: answer_attempt_def h split: sum.splits option.splits)
    with drop_ok [OF ok] show ?thesis by simp
  qed
qed

lemma dial_ok:
  assumes "node_ok I n" "om_get (node_attempts n) k = Some a" "at_slot a"
  shows "node_ok I (dial_attempt C I os k a n)"
proof (cases "snd (outgoing_handshake C I os (node_cfg n) (at_addr a))")
  case (Inr ready)
  obtain p fmt transport sent where ready: "ready = (p, fmt, transport)" "outgoing_handshake C I os (node_cfg n) (at_addr a) = (sent, Inr (p, fmt, transport))"
    using Inr by (metis prod.collapse)
  have "admitted I (node_cfg n) p fmt" using outgoing_verified [OF ready(2)] admittedI by metis
  with set_ready_ok [OF assms] show ?thesis by (simp add: dial_attempt_def Inr ready(1))
qed (simp add: dial_attempt_def drop_ok assms(1))

lemma ready_admitted:
  assumes "node_ok I n" "om_get (node_attempts n) k = Some a" "at_ready a = Some (p, fmt, transport)"
  shows "at_slot a" "admitted I (node_cfg n) p fmt"
  using node_okD(4) [OF assms(1)] assms(2,3) by (auto simp: attempts_ok_def)

lemma register_ok:
  assumes "node_ok I n" "om_get (node_attempts n) k = Some a" "at_ready a = Some ready"
  shows "node_ok I (fst (register_incoming k a ready n))" "node_ok I (fst (register_outgoing k a ready n))"
proof -
  obtain p fmt transport where r: "ready = (p, fmt, transport)" by (cases ready)
  have ins: "node_ok I (insert_connection k a ready n)"
    unfolding r using insert_ok [OF assms(1,2)] ready_admitted [OF assms(1,2)] assms(3) by (simp add: r)
  show "node_ok I (fst (register_incoming k a ready n))"
    using ins drop_ok assms(1) by (auto simp: register_incoming_def Let_def split: sum.splits)
  show "node_ok I (fst (register_outgoing k a ready n))"
    using ins drop_ok remove_ok assms(1) by (auto simp: register_outgoing_def Let_def split: sum.splits)
qed

lemma write_failed_ok: "node_ok I n \<Longrightarrow> node_ok I (write_failed addr inst n)"
  using remove_ok [of I n addr inst]
  by (auto simp: write_failed_def mark_peer_failed_def split: prod.splits option.splits)

lemma write_ok: "node_ok I n \<Longrightarrow> node_ok I (fst (write_to_connection w addr inst bs n))"
  by (auto simp: write_to_connection_def split: prod.splits)

lemma send_ok: "node_ok I n \<Longrightarrow> node_ok I (fst (send_message_to_addr C w addr msg n))"
  using write_ok [of I n w addr] write_failed_ok
  by (auto simp: send_message_to_addr_def split: option.splits prod.splits sum.splits) (metis fst_conv)+

lemma broadcast_one_ok: "node_ok I n \<Longrightarrow> node_ok I (fst (broadcast_one C w msg target failed n))"
  using write_ok [of I n w] write_failed_ok
  by (auto simp: broadcast_one_def split: prod.splits sum.splits) (metis fst_conv)+

lemma st_fold_state:
  assumes "\<And>x a s. P s \<Longrightarrow> P (fst (f x a s))"
  shows "P s \<Longrightarrow> P (fst (st_fold f xs a s))"
proof (induction xs arbitrary: a s)
  case (Cons x xs)
  from assms [OF Cons.prems, of x a] Cons.IH show ?case by (auto simp: st_bind_def split: prod.splits sum.splits)
qed (simp add: st_lift_def)

lemma broadcast_ok: "node_ok I n \<Longrightarrow> node_ok I (fst (broadcast_message C w order msg n))"
proof -
  assume ok: "node_ok I n"
  have "node_ok I (fst (st_fold (broadcast_one C w msg) ts [] n))" for ts
    by (rule st_fold_state [where P = "node_ok I"]) (simp_all add: broadcast_one_ok ok)
  then show ?thesis by (auto simp: broadcast_message_def st_bind_def st_lift_def split: prod.splits sum.splits) (metis fst_conv)+
qed

lemma ended_ok: "node_ok I n \<Longrightarrow> node_ok I (connection_ended addr inst peer n)"
  using remove_ok [of I n addr inst] by (auto simp: connection_ended_def split: prod.splits option.splits)

lemma node_step_ok: "node_step C I n n' \<Longrightarrow> node_ok I n \<Longrightarrow> node_ok I n'"
proof (induction rule: node_step.induct)
  case (Accepted n addr)
  then show ?case using start_inbound_ok by (auto simp: accept_connection_def split: option.splits sum.splits)
next
  case (Announced n endpoint)
  then show ?case by (auto simp: announce_bootstrap_endpoint_def split: option.splits prod.splits)
next
  case (Withdrawn n)
  then show ?case by (auto simp: withdraw_bootstrap_endpoint_def split: option.splits)
next
  case (Stopping n)
  then show ?case by (simp add: begin_shutdown_def node_ok_defs)
qed (simp_all add: begin_connect_ok answer_ok dial_ok register_ok drop_ok send_ok broadcast_ok ended_ok finish_ok)

lemma new_ok: "node_ok I ((node_new cfg)\<lparr>node_bootstrap := server\<rparr>)"
proof -
  have "dials om_empty = Map.empty" by (simp add: dials_def fun_eq_iff)
  then show ?thesis by (simp add: node_new_def node_ok_defs om_len_count MAX_CONCURRENT_OUTBOUND_ATTEMPTS_def)
qed

lemma cfg_simps [simp]:
  "node_cfg (drop_attempt k n) = node_cfg n" "node_cfg (attempt_ready k a ready n) = node_cfg n"
  "node_cfg (insert_connection k a ready n) = node_cfg n" "node_cfg (fst (remove_connection_if_current addr inst n)) = node_cfg n"
  "node_cfg (send_node_event e n) = node_cfg n" "node_cfg (start_attempt addr dir n) = node_cfg n"
  "node_cfg (fst (write_to_connection w addr inst bs n)) = node_cfg n"
  by (auto simp: drop_attempt_def attempt_ready_def insert_connection_def remove_connection_if_current_def send_node_event_def
      start_attempt_def write_to_connection_def Let_def split: option.splits connection_direction.splits prod.splits)

lemma removed_cfg: "remove_connection_if_current addr inst n = (n', r) \<Longrightarrow> node_cfg n' = node_cfg n"
  by (metis cfg_simps(4) fst_conv)

lemma written_cfg: "write_to_connection w addr inst bs n = (n', r) \<Longrightarrow> node_cfg n' = node_cfg n"
  by (metis cfg_simps(7) fst_conv)

lemma write_failed_cfg [simp]: "node_cfg (write_failed addr inst n) = node_cfg n"
  by (auto simp: write_failed_def mark_peer_failed_def dest: removed_cfg split: prod.splits option.splits)

lemma broadcast_one_cfg [simp]: "node_cfg (fst (broadcast_one C w msg target failed n)) = node_cfg n"
  by (auto simp: broadcast_one_def dest: written_cfg split: prod.splits sum.splits)

lemma broadcast_cfg [simp]: "node_cfg (fst (broadcast_message C w order msg n)) = node_cfg n"
proof -
  have "node_cfg (fst (st_fold (broadcast_one C w msg) ts [] n)) = node_cfg n" for ts
    by (rule st_fold_state [where P = "\<lambda>m. node_cfg m = node_cfg n"]) simp_all
  then show ?thesis by (auto simp: broadcast_message_def st_bind_def st_lift_def split: prod.splits sum.splits) (metis fst_conv)+
qed

lemma send_cfg [simp]: "node_cfg (fst (send_message_to_addr C w addr msg n)) = node_cfg n"
  by (auto simp: send_message_to_addr_def dest: written_cfg split: option.splits prod.splits sum.splits)

lemma step_cfg: "node_step C I n n' \<Longrightarrow> node_cfg n' = node_cfg n"
proof (induction rule: node_step.induct)
  case (Ended n addr inst peer)
  show ?case by (auto simp: connection_ended_def dest: removed_cfg split: prod.splits option.splits)
qed (auto simp: accept_connection_def begin_connect_def try_acquire_slot_def answer_attempt_def dial_attempt_def register_incoming_def
    register_outgoing_def announce_bootstrap_endpoint_def withdraw_bootstrap_endpoint_def begin_shutdown_def finish_shutdown_def Let_def
    split: option.splits sum.splits prod.splits)

lemma reachable_ok:
  "(node_step C I)\<^sup>*\<^sup>* ((node_new cfg)\<lparr>node_bootstrap := server\<rparr>) n \<Longrightarrow> node_ok I n \<and> node_cfg n = cfg"
proof (induction rule: rtranclp_induct)
  case base
  show ?case using new_ok by (simp add: node_new_def)
next
  case (step m n)
  then show ?case using node_step_ok step_cfg by metis
qed

section \<open>Properties of a node\<close>

text \<open>
  C19. In every state a node can reach, the connected peers, the attempts that hold a slot and the
  free slots add up to \<open>max_peers\<close>, so the limit is never exceeded and no slot is lost; at most one
  connection is being dialled, never two to one address; and an attempt that holds a slot is never turned
  away at registration because of the limit.
\<close>

theorem peer_limit_kept:
  assumes "(node_step C I)\<^sup>*\<^sup>* ((node_new cfg)\<lparr>node_bootstrap := server\<rparr>) n"
  shows "connection_slots n + om_count at_slot (node_attempts n) + node_connected_count (node_peers n) = node_max_peers cfg
    \<and> om_count outbound (node_attempts n) \<le> MAX_CONCURRENT_OUTBOUND_ATTEMPTS
    \<and> inj_on (dials (node_attempts n)) (dom (dials (node_attempts n)))
    \<and> (\<forall>k a addr. om_get (node_attempts n) k = Some a \<and> at_slot a \<longrightarrow>
         ensure_peer_slot_available (node_peers n) (node_max_peers cfg) (Some addr) = Inr ())"
proof -
  have ok: "node_ok I n" "node_cfg n = cfg" using reachable_ok [OF assms] by simp_all
  have "om_count (\<lambda>c. pc_state c = Connected) (node_peers n) = om_len (node_peers n)"
    using node_okD(3) [OF ok(1)] unfolding om_len_count om_count_def peers_ok_def entry_ok_def
    by (intro arg_cong [of _ _ card]) auto
  then have sum: "connection_slots n + om_count at_slot (node_attempts n) + node_connected_count (node_peers n) = node_max_peers cfg"
    using node_okD(1) [OF ok(1)] ok(2) by (simp add: slots_ok_def node_connected_count_eq)
  have "0 < om_count at_slot (node_attempts n)" if "om_get (node_attempts n) k = Some a" "at_slot a" for k a
    using om_count_split [OF that(1), of at_slot] that(2) by simp
  with sum node_okD(2) [OF ok(1)] show ?thesis
    by (fastforce simp: outbound_ok_def ensure_peer_slot_available_def)
qed

text \<open>
  C20. Nobody becomes a peer unverified: every connection of a reachable node belongs to a node other than
  itself, in a format it supports, and with secure TLS to one whose identifier was derived from a
  certificate and is on the list of allowed peers if there is one; what the node reports about
  the connection says so, and no two connections share their instance.
\<close>

theorem peers_verified:
  assumes "(node_step C I)\<^sup>*\<^sup>* ((node_new cfg)\<lparr>node_bootstrap := server\<rparr>) n" "om_get (node_peers n) addr = Some c"
  shows "\<exists>p ci. peer_info_node_id (pc_info c) = Some p \<and> p \<noteq> node_cfg_id cfg
    \<and> pc_format c \<in> set (supported_formats_for (node_serialization_format cfg))
    \<and> connection_info_of addr n = Some ci \<and> identity_node_id (identity ci) = p
    \<and> verification (identity ci) = (if secure (node_tls cfg) then CertificateBound else Unverified)
    \<and> (\<forall>t. node_tls cfg = Some t \<and> \<not> insecure t \<longrightarrow>
        (\<exists>cert. derive_protocol_node_id_from_cert I cert = Inr p) \<and> is_peer_allowed t (node_id_as_str p))
    \<and> (\<forall>addr' c'. om_get (node_peers n) addr' = Some c' \<and> pc_instance c' = pc_instance c \<longrightarrow> addr' = addr)"
proof -
  have ok: "node_ok I n" "node_cfg n = cfg" using reachable_ok [OF assms(1)] by simp_all
  from node_okD(3) [OF ok(1)] assms(2) have entry: "entry_ok I cfg addr c"
    "\<forall>addr' c'. om_get (node_peers n) addr' = Some c' \<and> pc_instance c' = pc_instance c \<longrightarrow> addr' = addr"
    by (auto simp: peers_ok_def ok(2))
  from entry(1) obtain p ci where p: "peer_info_node_id (pc_info c) = Some p" "admitted I cfg p (pc_format c)"
    "pc_connection_info c = Some ci" "identity ci = \<lparr>identity_node_id = p, verification = identity_verification (node_tls cfg)\<rparr>"
    by (auto simp: entry_ok_def)
  have "connection_info_of addr n = Some ci" using entry(1) assms(2) p(3) by (simp add: connection_info_of_def entry_ok_def)
  with p entry(2) show ?thesis
    unfolding admitted_def identity_verification_def by - (intro exI [of _ p] exI [of _ ci], simp, blast)
qed

text \<open>A node whose shutdown is complete.\<close>

definition quiet :: "net_node \<Rightarrow> bool" where
  "quiet n \<longleftrightarrow> tasks_closed n \<and> node_shutdown n \<and> slots_closed n \<and> node_peers n = om_empty
     \<and> (\<forall>k a. om_get (node_attempts n) k = Some a \<longrightarrow> outbound a)"

lemma quiet_drop: "quiet n \<Longrightarrow> quiet (drop_attempt k n)"
  by (auto simp: quiet_def drop_attempt_def Let_def split: option.splits connection_direction.splits if_splits)

lemma quiet_ready: "quiet n \<Longrightarrow> om_get (node_attempts n) k = Some a \<Longrightarrow> quiet (attempt_ready k a ready n)"
  by (auto simp: quiet_def attempt_ready_def)

lemma quiet_register_out:
  assumes "quiet n" "om_get (node_attempts n) k = Some a"
  shows "quiet (fst (register_outgoing k a ready n))"
proof -
  obtain p fmt transport where r: "ready = (p, fmt, transport)" by (cases ready)
  have "om_remove addr (om_insert addr c om_empty) = om_empty" for addr and c :: peer_connection by (rule om_ext) auto
  with assms have "quiet (fst (remove_connection_if_current (at_addr a) (next_instance n) (insert_connection k a ready n)))"
    by (auto simp: quiet_def remove_connection_if_current_def insert_connection_def Let_def r)
  moreover have "tasks_closed (insert_connection k a ready n)" using assms(1) by (simp add: quiet_def insert_connection_def Let_def r)
  ultimately show ?thesis
    using quiet_drop quiet_drop [OF assms(1)]
    by (auto simp: register_outgoing_def Let_def spawn_task_def split: sum.splits)
qed

lemma quiet_step: "node_step C I n n' \<Longrightarrow> quiet n \<Longrightarrow> quiet n'"
proof (induction rule: node_step.induct)
  case (Answered n k a os now tcp)
  then show ?case by (auto simp: quiet_def)
next
  case (Registered_In n k a ready)
  then show ?case by (auto simp: quiet_def)
next
  case (Dialled n k a os)
  then show ?case using quiet_ready quiet_drop by (auto simp: dial_attempt_def split: sum.splits)
next
  case (Broadcast n w order msg)
  then have "List.map_filter (\<lambda>addr. map_option (Pair addr) (active_writer addr n)) order = []"
    by (auto simp: quiet_def active_writer_def List.map_filter_def)
  with Broadcast show ?case by (simp add: broadcast_message_def st_bind_def st_lift_def)
next
  case (Dropped n k)
  then show ?case by (rule quiet_drop)
next
  case (Registered_Out n k a ready)
  then show ?case using quiet_register_out by blast
qed (auto simp: quiet_def accept_connection_def begin_connect_def send_message_to_addr_def active_writer_def
    connection_ended_def remove_connection_if_current_def announce_bootstrap_endpoint_def withdraw_bootstrap_endpoint_def
    begin_shutdown_def finish_shutdown_def split: option.splits prod.splits)

text \<open>
  Shutdown is final: once it has joined the tasks that serve connections and cleared the
  table, no later step, not even of a call to \<open>connect_to_peer\<close> that was already dialling, makes a
  peer appear again, and new connections are refused in both directions.
\<close>

theorem shutdown_final:
  assumes "(node_step C I)\<^sup>*\<^sup>* ((node_new cfg)\<lparr>node_bootstrap := server\<rparr>) n" "tasks_closed n"
    and "\<forall>k a. om_get (node_attempts n) k = Some a \<longrightarrow> at_direction a = Outbound"
    and "(node_step C I)\<^sup>*\<^sup>* (finish_shutdown n) n'"
  shows "node_peers n' = om_empty \<and> node_connected_peers n' = [] \<and> accept_connection addr n' = n'
    \<and> begin_connect addr n' = (n', Inl (ConnectionFailed ''node is shut down''))"
proof -
  have "quiet (finish_shutdown n)"
    using node_okD(5) [of I n] reachable_ok [OF assms(1)] assms(2,3) by (simp add: quiet_def finish_shutdown_def flags_ok_def)
  with assms(4) have "quiet n'"
    by (induction rule: rtranclp_induct) (auto dest: quiet_step)
  then show ?thesis
    by (simp add: quiet_def node_connected_peers_def accept_connection_def begin_connect_def List.map_filter_simps)
qed

section \<open>Broadcasts\<close>

definition delivers :: "writes \<Rightarrow> nat \<Rightarrow> bool" where
  "delivers w inst \<longleftrightarrow> fst (w inst) = WriteAll \<and> snd (w inst) = Inr ()"

lemma write_open:
  assumes "om_get (node_peers n) addr = Some c" "pc_instance c = inst" "\<not> node_shutdown n"
  shows "\<exists>sent r. write_to_connection w addr inst bs n = (n\<lparr>node_sent := (node_sent n)(inst := sent)\<rparr>, r)
    \<and> (delivers w inst \<longleftrightarrow> r = Inr ()) \<and> (delivers w inst \<longrightarrow> sent = node_sent n inst @ bs)"
proof -
  have "(addr, c) \<in> set (om_entries (node_peers n))" using assms(1) by (simp add: om_in_entries)
  then have "c \<in> set (om_values (node_peers n))" unfolding om_values_def by force
  then have "connection_open inst n" using assms(2) by (auto simp: connection_open_def)
  with assms(3) show ?thesis
    by (cases "fst (w inst)") (auto simp: write_to_connection_def write_bytes_def delivers_def)
qed

lemma write_failed_removes:
  assumes "om_get (node_peers n) addr = Some c" "pc_instance c = inst"
  shows "node_peers (write_failed addr inst n) = om_remove addr (node_peers n)" "node_sent (write_failed addr inst n) = node_sent n"
    "node_shutdown (write_failed addr inst n) = node_shutdown n"
  using assms
  by (auto simp: write_failed_def mark_peer_failed_def remove_connection_if_current_def send_node_event_def split: option.splits)

definition current :: "net_node \<Rightarrow> string \<times> nat \<times> serialization_format \<Rightarrow> bool" where
  "current n target \<longleftrightarrow> (case target of (addr, inst, fmt) \<Rightarrow> \<exists>c. om_get (node_peers n) addr = Some c \<and> pc_instance c = inst)"

lemma broadcast_fold:
  assumes "\<forall>fmt. to_bytes_with_format (message_codec C) fmt msg = Inr (enc fmt)"
  shows "\<not> node_shutdown n \<Longrightarrow> list_all (current n) ts \<Longrightarrow> distinct (map fst ts) \<Longrightarrow> distinct (map (fst \<circ> snd) ts) \<Longrightarrow>
    \<exists>n'. st_fold (broadcast_one C w msg) ts failed n = (n', Inr (failed @ map fst (filter (\<lambda>(_, inst, _). \<not> delivers w inst) ts)))
      \<and> (\<forall>addr. om_get (node_peers n') addr =
           (if \<exists>inst fmt. (addr, inst, fmt) \<in> set ts \<and> \<not> delivers w inst then None else om_get (node_peers n) addr))
      \<and> (\<forall>addr inst fmt. (addr, inst, fmt) \<in> set ts \<and> delivers w inst \<longrightarrow> node_sent n' inst = node_sent n inst @ enc fmt)
      \<and> (\<forall>inst. inst \<notin> (fst \<circ> snd) ` set ts \<longrightarrow> node_sent n' inst = node_sent n inst)"
proof (induction ts arbitrary: n failed)
  case (Cons t ts)
  obtain addr inst fmt where t: "t = (addr, inst, fmt)" by (cases t)
  from Cons.prems(2) obtain c where c: "om_get (node_peers n) addr = Some c" "pc_instance c = inst" by (auto simp: t current_def)
  obtain sent r where wr: "write_to_connection w addr inst (enc fmt) n = (n\<lparr>node_sent := (node_sent n)(inst := sent)\<rparr>, r)"
    "delivers w inst \<longleftrightarrow> r = Inr ()" "delivers w inst \<longrightarrow> sent = node_sent n inst @ enc fmt"
    using write_open [OF c Cons.prems(1)] by blast
  let ?n = "n\<lparr>node_sent := (node_sent n)(inst := sent)\<rparr>"
  define m where "m = (if delivers w inst then ?n else write_failed addr inst ?n)"
  have m: "node_peers m = (if delivers w inst then node_peers n else om_remove addr (node_peers n))"
    "node_sent m = (node_sent n)(inst := sent)" "node_shutdown m = node_shutdown n"
    using c write_failed_removes [of ?n addr c inst] by (simp_all add: m_def)
  have one: "broadcast_one C w msg t failed n = (m, Inr (if delivers w inst then failed else failed @ [addr]))"
    using wr assms by (cases r) (simp_all add: broadcast_one_def t m_def)
  have cur: "list_all (current m) ts"
    using Cons.prems(2,3) by (auto simp: list_all_iff current_def m(1) t) force+
  from Cons.IH [of m "if delivers w inst then failed else failed @ [addr]"] Cons.prems cur m(3)
  obtain n' where n': "st_fold (broadcast_one C w msg) ts (if delivers w inst then failed else failed @ [addr]) m =
      (n', Inr ((if delivers w inst then failed else failed @ [addr]) @ map fst (filter (\<lambda>(_, inst, _). \<not> delivers w inst) ts)))"
    "\<forall>addr. om_get (node_peers n') addr =
      (if \<exists>inst fmt. (addr, inst, fmt) \<in> set ts \<and> \<not> delivers w inst then None else om_get (node_peers m) addr)"
    "\<forall>addr inst fmt. (addr, inst, fmt) \<in> set ts \<and> delivers w inst \<longrightarrow> node_sent n' inst = node_sent m inst @ enc fmt"
    "\<forall>inst. inst \<notin> (fst \<circ> snd) ` set ts \<longrightarrow> node_sent n' inst = node_sent m inst"
    by auto
  have fresh: "inst \<notin> (fst \<circ> snd) ` set ts" "addr \<notin> fst ` set ts" using Cons.prems(3,4) by (auto simp: t)
  show ?case
  proof (intro exI [of _ n'] conjI allI impI)
    show "st_fold (broadcast_one C w msg) (t # ts) failed n =
        (n', Inr (failed @ map fst (filter (\<lambda>(_, inst, _). \<not> delivers w inst) (t # ts))))"
      using one n'(1) by (simp add: st_bind_def t)
    show "om_get (node_peers n') a = (if \<exists>i f. (a, i, f) \<in> set (t # ts) \<and> \<not> delivers w i then None else om_get (node_peers n) a)" for a
      using n'(2) fresh(2) by (cases "a = addr") (auto simp: m(1) t)
    show "node_sent n' i = node_sent n i @ enc f" if "(a, i, f) \<in> set (t # ts) \<and> delivers w i" for a i f
    proof (cases "(a, i, f) = t")
      case True
      with that n'(4) fresh(1) wr(3) show ?thesis by (auto simp: t m(2))
    next
      case False
      then have "(a, i, f) \<in> set ts" using that by simp
      moreover from this fresh(1) have "i \<noteq> inst" by force
      ultimately show ?thesis using n'(3) that by (auto simp: m(2))
    qed
    show "node_sent n' i = node_sent n i" if "i \<notin> (fst \<circ> snd) ` set (t # ts)" for i
      using that n'(4) by (auto simp: m(2) t)
  qed
qed (simp add: st_lift_def)

text \<open>
  A broadcast reaches every connected peer: each gets the message in the format agreed with it, after
  all that was sent to it before, and stays connected; those to which writing fails, and only those, are
  removed and named in the error.
\<close>

theorem broadcast_exact:
  assumes "(node_step C I)\<^sup>*\<^sup>* ((node_new cfg)\<lparr>node_bootstrap := server\<rparr>) n" "\<not> node_shutdown n"
    and "distinct order" "set order = dom (om_get (node_peers n))"
    and "\<forall>fmt. to_bytes_with_format (message_codec C) fmt msg = Inr (enc fmt)"
  shows "\<exists>n' failed. broadcast_message C w order msg n =
        (n', if failed = [] then Inr () else Inl (PeerDisconnectedError (join '','' failed)))
    \<and> failed = filter (\<lambda>addr. om_get (node_peers n') addr = None) order
    \<and> dom (om_get (node_peers n')) \<subseteq> dom (om_get (node_peers n))
    \<and> (\<forall>addr c. om_get (node_peers n) addr = Some c \<longrightarrow>
         (if delivers w (pc_instance c)
          then om_get (node_peers n') addr = Some c \<and> node_sent n' (pc_instance c) = node_sent n (pc_instance c) @ enc (pc_format c)
          else om_get (node_peers n') addr = None))"
proof -
  have ok: "peers_ok I n" using reachable_ok [OF assms(1)] node_okD(3) by blast
  let ?inst = "\<lambda>addr. pc_instance (the (om_get (node_peers n) addr))" and ?fmt = "\<lambda>addr. pc_format (the (om_get (node_peers n) addr))"
  let ?ts = "map (\<lambda>addr. (addr, ?inst addr, ?fmt addr)) order"
  have act: "active_writer addr n = Some (?inst addr, ?fmt addr)" if "addr \<in> set order" for addr
    using that assms(4) ok by (auto simp: active_writer_def peers_ok_def entry_ok_def)
  have ts: "List.map_filter (\<lambda>addr. map_option (Pair addr) (active_writer addr n)) order = ?ts"
    using act by (auto simp: List.map_filter_def intro!: filter_True [THEN arg_cong [of _ _ "map _"], THEN trans])
  have cur: "list_all (current n) ?ts" using assms(4) by (auto simp: list_all_iff current_def)
  have inj: "inj_on ?inst (set order)" using ok assms(4) by (auto simp: inj_on_def peers_ok_def)
  have dist: "distinct (map fst ?ts)" "distinct (map (fst \<circ> snd) ?ts)"
    using assms(3) inj by (simp_all add: comp_def distinct_map)
  from broadcast_fold [OF assms(5) assms(2) cur dist, of w "[]"] obtain n' where
    n': "st_fold (broadcast_one C w msg) ?ts [] n = (n', Inr (map fst (filter (\<lambda>(_, inst, _). \<not> delivers w inst) ?ts)))"
    "\<forall>addr. om_get (node_peers n') addr =
      (if \<exists>inst fmt. (addr, inst, fmt) \<in> set ?ts \<and> \<not> delivers w inst then None else om_get (node_peers n) addr)"
    "\<forall>addr inst fmt. (addr, inst, fmt) \<in> set ?ts \<and> delivers w inst \<longrightarrow> node_sent n' inst = node_sent n inst @ enc fmt"
    by auto
  have peers': "om_get (node_peers n') addr = (if delivers w (?inst addr) then om_get (node_peers n) addr else None)"
    if "addr \<in> set order" for addr using that n'(2) by auto
  have failed: "map fst (filter (\<lambda>(_, inst, _). \<not> delivers w inst) ?ts) = filter (\<lambda>addr. om_get (node_peers n') addr = None) order"
    using assms(4) by (auto simp: filter_map comp_def peers' intro!: filter_cong)
  show ?thesis
  proof (intro exI [of _ n'] exI [of _ "filter (\<lambda>addr. om_get (node_peers n') addr = None) order"] conjI refl)
    show "broadcast_message C w order msg n = (n', if filter (\<lambda>addr. om_get (node_peers n') addr = None) order = [] then Inr ()
        else Inl (PeerDisconnectedError (join '','' (filter (\<lambda>addr. om_get (node_peers n') addr = None) order))))"
      using n'(1) unfolding broadcast_message_def ts failed by (simp add: st_bind_def st_lift_def)
    show "dom (om_get (node_peers n')) \<subseteq> dom (om_get (node_peers n))"
    proof
      fix x assume "x \<in> dom (om_get (node_peers n'))"
      then have "om_get (node_peers n') x \<noteq> None" by (simp add: domIff)
      with n'(2) [rule_format, of x] show "x \<in> dom (om_get (node_peers n))" by (simp add: domIff split: if_splits)
    qed
    show "\<forall>addr c. om_get (node_peers n) addr = Some c \<longrightarrow>
         (if delivers w (pc_instance c)
          then om_get (node_peers n') addr = Some c \<and> node_sent n' (pc_instance c) = node_sent n (pc_instance c) @ enc (pc_format c)
          else om_get (node_peers n') addr = None)"
    proof (intro allI impI)
      fix addr c assume c: "om_get (node_peers n) addr = Some c"
      then have "addr \<in> set order" "(addr, pc_instance c, pc_format c) \<in> set ?ts" using assms(4) by force+
      with c peers' [of addr] n'(3) show "if delivers w (pc_instance c)
          then om_get (node_peers n') addr = Some c \<and> node_sent n' (pc_instance c) = node_sent n (pc_instance c) @ enc (pc_format c)
          else om_get (node_peers n') addr = None" by auto
    qed
  qed
qed

section \<open>A node with one peer\<close>

abbreviation example_step :: "net_node \<Rightarrow> net_node \<Rightarrow> bool" where
  "example_step \<equiv> node_step ab_codec example_identity"

definition listening :: net_node where
  "listening = (node_new node_b)\<lparr>node_bootstrap := None\<rparr>"

definition handshaking :: net_node where
  "handshaking = accept_connection ''x'' listening"

definition example_connection :: peer_connection where
  "example_connection =
     \<lparr>pc_info = \<lparr>peer_info_addr = ''x'', peer_info_node_id = Some (NodeId ''a'')\<rparr>,
      pc_connection_info = Some \<lparr>transport_addr = ''x'', dialed_endpoint = None, direction = Inbound,
        identity = \<lparr>identity_node_id = NodeId ''a'', verification = Unverified\<rparr>\<rparr>,
      pc_instance = 1, pc_state = Connected, pc_format = Bincode_Format, pc_writer = True\<rparr>"

lemma node_b_slots: "node_max_peers node_b = 64"
  by (simp add: ab_configs)

lemma handshaking_attempt:
  "om_get (node_attempts handshaking) 0 = Some \<lparr>at_addr = ''x'', at_direction = Inbound, at_slot = True, at_ready = None\<rparr>"
  "node_cfg handshaking = node_b" "node_peers handshaking = om_empty" "node_bootstrap handshaking = None" "next_instance handshaking = 1"
  "\<not> node_shutdown handshaking" "\<And>k. k \<noteq> 0 \<Longrightarrow> om_get (node_attempts handshaking) k = None"
  by (simp_all add: handshaking_def listening_def accept_connection_def node_new_def try_acquire_slot_def node_b_slots spawn_task_def
      start_attempt_def)

lemma one_peer:
  obtains n where "example_step\<^sup>*\<^sup>* listening n" "node_peers n = om_insert ''x'' example_connection om_empty" "\<not> node_shutdown n"
    "\<And>k. om_get (node_attempts n) k = None"
proof -
  let ?a = "\<lparr>at_addr = ''x'', at_direction = Inbound, at_slot = True, at_ready = None\<rparr>"
  let ?ready = "(NodeId ''a'', Bincode_Format, ''x'')"
  let ?n = "attempt_ready 0 ?a ?ready handshaking"
  let ?b = "?a\<lparr>at_ready := Some ?ready\<rparr>"
  note H = handshaking_attempt
  have free: "ensure_peer_slot_available (node_peers handshaking) (node_max_peers (node_cfg handshaking)) (Some ''x'') = Inr ()"
    by (simp add: H ensure_peer_slot_available_def om_contains_key_def node_connected_count_eq node_b_slots)
  have same: "handshaking\<lparr>node_bootstrap := None\<rparr> = handshaking" using H(4) by (cases handshaking) simp
  have "answer_attempt ab_codec example_identity (example_os []) 0 (channel_with [0, 0, 0, 2, 2, 0]) 0 ?a handshaking = ?n"
    using ab_incoming free by (simp add: answer_attempt_def H same)
  then have two: "example_step handshaking ?n"
    using node_step.Answered [OF H(1), of ab_codec example_identity "example_os []" 0 "channel_with [0, 0, 0, 2, 2, 0]"] by simp
  have one: "example_step listening handshaking" unfolding handshaking_def by (rule node_step.Accepted)
  have att: "om_get (node_attempts ?n) 0 = Some ?b" "node_peers ?n = om_empty" "node_cfg ?n = node_b" "next_instance ?n = 1"
    "\<not> node_shutdown ?n" "\<And>k. k \<noteq> 0 \<Longrightarrow> om_get (node_attempts ?n) k = None"
    by (simp_all add: attempt_ready_def H)
  let ?m = "fst (register_incoming 0 ?b ?ready ?n)"
  have three: "example_step ?n ?m" using node_step.Registered_In [OF att(1)] by simp
  have "example_step\<^sup>*\<^sup>* listening ?m" using one two three by (meson rtranclp.rtrancl_into_rtrancl rtranclp.rtrancl_refl)
  moreover have "node_peers ?m = om_insert ''x'' example_connection om_empty" "\<not> node_shutdown ?m" "om_get (node_attempts ?m) k = None" for k
    using att(6) [of k]
    by (simp_all add: register_incoming_def ensure_peer_slot_available_def om_contains_key_def node_connected_count_eq att H node_b_slots
        Let_def insert_connection_def drop_attempt_def send_node_event_def example_connection_def with_node_id_def peer_info_new_def
        identity_verification_def ab_configs)
  ultimately show ?thesis using that by blast
qed

theorem peer_limit_kept_witness:
  "ensure_peer_slot_available (node_peers handshaking) 64 (Some ''y'') = Inr () \<and> connection_slots handshaking = 63"
proof -
  have reach: "example_step\<^sup>*\<^sup>* ((node_new node_b)\<lparr>node_bootstrap := None\<rparr>) handshaking"
    unfolding listening_def [symmetric] handshaking_def by (intro r_into_rtranclp node_step.Accepted)
  from peer_limit_kept [OF reach] handshaking_attempt(1) show ?thesis
    by (auto simp: node_b_slots handshaking_def listening_def accept_connection_def node_new_def try_acquire_slot_def spawn_task_def
        start_attempt_def)
qed

theorem peers_verified_witness:
  "\<exists>n. example_step\<^sup>*\<^sup>* listening n \<and> om_get (node_peers n) ''x'' = Some example_connection
     \<and> (\<exists>ci. connection_info_of ''x'' n = Some ci \<and> verification (identity ci) = Unverified)"
proof -
  obtain n where n: "example_step\<^sup>*\<^sup>* listening n" "node_peers n = om_insert ''x'' example_connection om_empty"
    using one_peer by metis
  then have c: "om_get (node_peers n) ''x'' = Some example_connection" by simp
  from peers_verified [OF n(1) [unfolded listening_def] c] n(1) c show ?thesis by (auto simp: ab_configs)
qed

theorem shutdown_final_witness:
  "\<exists>n. example_step\<^sup>*\<^sup>* listening n \<and> node_peers n \<noteq> om_empty \<and> node_peers (finish_shutdown (begin_shutdown n)) = om_empty
     \<and> begin_connect ''y'' (finish_shutdown (begin_shutdown n)) =
         (finish_shutdown (begin_shutdown n), Inl (ConnectionFailed ''node is shut down''))"
proof -
  obtain n where n: "example_step\<^sup>*\<^sup>* listening n" "node_peers n = om_insert ''x'' example_connection om_empty"
    "\<And>k. om_get (node_attempts n) k = None"
    using one_peer by metis
  have "om_get (node_peers n) ''x'' \<noteq> None" by (simp add: n(2))
  then have ne: "node_peers n \<noteq> om_empty" by auto
  have reach: "example_step\<^sup>*\<^sup>* ((node_new node_b)\<lparr>node_bootstrap := None\<rparr>) (begin_shutdown n)"
    using n(1) node_step.Stopping unfolding listening_def by (rule rtranclp.rtrancl_into_rtrancl)
  from shutdown_final [OF reach _ _ rtranclp.rtrancl_refl, where addr = "''y''"] n ne show ?thesis
    by (auto simp: begin_shutdown_def)
qed

theorem broadcast_exact_witness:
  "\<exists>n n'. example_step\<^sup>*\<^sup>* listening n
     \<and> broadcast_message ab_codec (\<lambda>_. (WriteStops 3 Timeout, Inr ())) [''x''] (hello_ack_with_format (NodeId ''b'') Bincode_Format) n =
         (n', Inl (PeerDisconnectedError ''x''))
     \<and> om_get (node_peers n') ''x'' = None"
proof -
  obtain n where n: "example_step\<^sup>*\<^sup>* listening n" "node_peers n = om_insert ''x'' example_connection om_empty" "\<not> node_shutdown n"
    using one_peer by metis
  let ?w = "\<lambda>_ :: nat. (WriteStops 3 Timeout, Inr ())" and ?msg = "hello_ack_with_format (NodeId ''b'') Bincode_Format"
  have "\<exists>bs. to_bytes_with_format (message_codec ab_codec) fmt ?msg = Inr bs" for fmt
    by (cases fmt) (simp_all add: ab_codec_def duo_codec_def tiny_codec_def Let_def to_bytes_with_format_def encode_frame_def)
  then obtain enc where enc: "\<forall>fmt. to_bytes_with_format (message_codec ab_codec) fmt ?msg = Inr (enc fmt)" by metis
  have dom: "set [''x''] = dom (om_get (node_peers n))" by (simp add: n(2))
  have c: "om_get (node_peers n) ''x'' = Some example_connection" by (simp add: n(2))
  from broadcast_exact [OF n(1) [unfolded listening_def] n(3) _ dom enc, of ?w] obtain n' failed where
    "broadcast_message ab_codec ?w [''x''] ?msg n = (n', if failed = [] then Inr () else Inl (PeerDisconnectedError (join '','' failed)))"
    "failed = filter (\<lambda>addr. om_get (node_peers n') addr = None) [''x'']"
    "\<forall>addr c. om_get (node_peers n) addr = Some c \<longrightarrow> \<not> delivers ?w (pc_instance c) \<longrightarrow> om_get (node_peers n') addr = None"
    by auto
  moreover have "\<not> delivers ?w i" for i by (simp add: delivers_def)
  ultimately show ?thesis using n(1) c by (intro exI [of _ n] exI [of _ n']) auto
qed

end
