(* ===== verification/Discovery.thy ===== *)
theory Discovery
  imports Endpoint
begin

text \<open>
  What all discovery providers share (\<open>nx-core/src/discovery.rs\<close>): settings, snapshots, changes,
  watches and static discovery; and the state of providers whose view changes over time
  (\<open>discovery/dynamic.rs\<close>) with the end of one generation of their task.

  A broadcast channel of \<open>tokio\<close> is the list of what was sent on it; what a receiver gets next is an
  input, and \<open>broadcast_delivers\<close> states what the channel documents about it: events in order, or
  the number of those that were skipped. Revisions are \<open>u64\<close> values.
\<close>

section \<open>Settings and errors\<close>

definition DEFAULT_DISCOVERY_EVENT_CAPACITY :: nat where "DEFAULT_DISCOVERY_EVENT_CAPACITY = 128"
definition MAX_DISCOVERY_EVENT_CAPACITY :: nat where "MAX_DISCOVERY_EVENT_CAPACITY = 4096"
definition DEFAULT_MAX_PEER_CANDIDATES :: nat where "DEFAULT_MAX_PEER_CANDIDATES = 1024"
definition DEFAULT_DISCOVERY_CLUSTER :: string where "DEFAULT_DISCOVERY_CLUSTER = ''default''"

datatype discovery_error =
    InvalidConfiguration string string
  | ProviderError string string bool
  | UnsupportedOperation string string
  | WatchOverflow nat
  | WatchRevision nat nat
  | WatchInvalidated
  | WatchClosed

definition show_bool :: "bool \<Rightarrow> string" where
  "show_bool b = (if b then ''true'' else ''false'')"

fun discovery_error_display :: "discovery_error \<Rightarrow> string" where
  "discovery_error_display (InvalidConfiguration provider message) =
     provider @ '' discovery configuration is invalid: '' @ message"
| "discovery_error_display (ProviderError provider message retryable) =
     provider @ '' discovery provider failed (retryable: '' @ show_bool retryable @ ''): '' @ message"
| "discovery_error_display (UnsupportedOperation provider operation) =
     provider @ '' discovery provider does not support '' @ operation"
| "discovery_error_display (WatchOverflow missed) = ''discovery watch missed '' @ show_nat missed @ '' event(s)''"
| "discovery_error_display (WatchRevision previous received) =
     ''discovery watch received revision '' @ show_nat received @ '' after revision '' @ show_nat previous"
| "discovery_error_display WatchInvalidated = ''discovery watch is invalidated; create a fresh watch''"
| "discovery_error_display WatchClosed = ''discovery watch closed''"

definition validate_event_capacity :: "string \<Rightarrow> nat \<Rightarrow> discovery_error + unit" where
  "validate_event_capacity provider capacity =
     (if \<not> (1 \<le> capacity \<and> capacity \<le> MAX_DISCOVERY_EVENT_CAPACITY)
      then Inl (InvalidConfiguration provider (''event_capacity must be in 1..='' @ show_nat MAX_DISCOVERY_EVENT_CAPACITY))
      else Inr ())"

datatype announcement_support = AnnouncementUnsupported | AnnouncementOptional | AnnouncementRequired

record discovery_runtime_config =
  drc_cluster_id :: string
  drc_advertised_endpoint :: "string option"
  drc_max_candidates :: nat

definition discovery_runtime_config_default :: discovery_runtime_config where
  "discovery_runtime_config_default =
     \<lparr>drc_cluster_id = DEFAULT_DISCOVERY_CLUSTER, drc_advertised_endpoint = None, drc_max_candidates = DEFAULT_MAX_PEER_CANDIDATES\<rparr>"

definition drc_with_cluster_id :: "string \<Rightarrow> discovery_runtime_config \<Rightarrow> discovery_runtime_config" where
  "drc_with_cluster_id cluster c = c\<lparr>drc_cluster_id := cluster\<rparr>"

definition drc_with_advertised_endpoint :: "string \<Rightarrow> discovery_runtime_config \<Rightarrow> discovery_runtime_config" where
  "drc_with_advertised_endpoint endpoint c = c\<lparr>drc_advertised_endpoint := Some endpoint\<rparr>"

definition drc_with_max_candidates :: "nat \<Rightarrow> discovery_runtime_config \<Rightarrow> discovery_runtime_config" where
  "drc_with_max_candidates n c = c\<lparr>drc_max_candidates := n\<rparr>"

section \<open>Snapshots and watches\<close>

record discovery_snapshot =
  snap_revision :: nat
  snap_peers :: "string list"
  snap_observations :: "instant list option"

definition snapshot_new :: "nat \<Rightarrow> string list \<Rightarrow> discovery_snapshot" where
  "snapshot_new revision peers = \<lparr>snap_revision = revision, snap_peers = peers, snap_observations = None\<rparr>"

definition snapshot_observed :: "nat \<Rightarrow> (string \<times> instant) list \<Rightarrow> discovery_snapshot" where
  "snapshot_observed revision peers =
     \<lparr>snap_revision = revision, snap_peers = map fst peers, snap_observations = Some (map snd peers)\<rparr>"

datatype discovery_change = Added string | Removed string | Replaced "string list" | Observed discovery_snapshot

record discovery_event =
  event_revision :: nat
  event_change :: discovery_change

text \<open>What the receiver of a broadcast channel returns.\<close>

datatype 'e recv_outcome = Received 'e | Lagged nat | ChannelEnded

record discovery_watch =
  watch_snapshot :: discovery_snapshot
  last_revision :: nat
  invalidated :: bool

definition watch_new :: "discovery_snapshot \<Rightarrow> discovery_watch" where
  "watch_new s = \<lparr>watch_snapshot = s, last_revision = snap_revision s, invalidated = False\<rparr>"

definition u64_checked_succ :: "nat \<Rightarrow> nat option" where
  "u64_checked_succ n = (if n < u64_max then Some (Suc n) else None)"

definition watch_recv ::
    "discovery_event recv_outcome \<Rightarrow> discovery_watch \<Rightarrow> discovery_watch \<times> (discovery_error + discovery_event)" where
  "watch_recv outcome w =
     (if invalidated w then (w, Inl WatchInvalidated)
      else case outcome of
        Received event \<Rightarrow>
          (case event_change event of
             Observed snapshot \<Rightarrow>
               if snap_revision snapshot \<noteq> event_revision event
               then (w\<lparr>invalidated := True\<rparr>, Inl (WatchRevision (last_revision w) (snap_revision snapshot)))
               else if u64_checked_succ (last_revision w) \<noteq> Some (event_revision event)
               then (w\<lparr>invalidated := True\<rparr>, Inl (WatchRevision (last_revision w) (event_revision event)))
               else (w\<lparr>last_revision := event_revision event\<rparr>, Inr event)
           | _ \<Rightarrow>
               if u64_checked_succ (last_revision w) \<noteq> Some (event_revision event)
               then (w\<lparr>invalidated := True\<rparr>, Inl (WatchRevision (last_revision w) (event_revision event)))
               else (w\<lparr>last_revision := event_revision event\<rparr>, Inr event))
      | Lagged missed \<Rightarrow> (w\<lparr>invalidated := True\<rparr>, Inl (WatchOverflow missed))
      | ChannelEnded \<Rightarrow> (w, Inl WatchClosed))"

section \<open>Static discovery\<close>

record static_discovery =
  static_peers :: "string list"
  static_event_capacity :: nat

definition clamp :: "nat \<Rightarrow> nat \<Rightarrow> nat \<Rightarrow> nat" where
  "clamp low high n = min high (max low n)"

definition static_with_event_capacity :: "string list \<Rightarrow> nat \<Rightarrow> static_discovery" where
  "static_with_event_capacity peers capacity =
     \<lparr>static_peers = peers, static_event_capacity = clamp 1 MAX_DISCOVERY_EVENT_CAPACITY capacity\<rparr>"

definition static_new :: "string list \<Rightarrow> static_discovery" where
  "static_new peers = static_with_event_capacity peers DEFAULT_DISCOVERY_EVENT_CAPACITY"

definition static_try_with_event_capacity :: "string list \<Rightarrow> nat \<Rightarrow> discovery_error + static_discovery" where
  "static_try_with_event_capacity peers capacity =
     res_bind (validate_event_capacity ''static'' capacity) (\<lambda>_. Inr (static_with_event_capacity peers capacity))"

definition static_discover :: "static_discovery \<Rightarrow> discovery_snapshot" where
  "static_discover d = snapshot_new 0 (static_peers d)"

definition static_announce :: "string \<Rightarrow> static_discovery \<Rightarrow> discovery_error + unit" where
  "static_announce endpoint d = Inl (UnsupportedOperation ''static'' ''announcement'')"

definition static_watch :: "static_discovery \<Rightarrow> discovery_watch" where
  "static_watch d = watch_new (static_discover d)"

section \<open>Views that change over time\<close>

text \<open>\<open>dyn_sent c\<close> is what was sent on the \<open>c\<close>-th channel; \<open>dyn_channel\<close> is the current one.\<close>

record dynamic_state =
  dyn_available :: bool
  dyn_revision :: nat
  dyn_peers :: "string list"
  dyn_observations :: "instant list"
  dyn_channel :: nat
  dyn_sent :: "nat \<Rightarrow> discovery_event list"
  dyn_event_capacity :: nat

definition dynamic_new :: "nat \<Rightarrow> dynamic_state" where
  "dynamic_new capacity =
     \<lparr>dyn_available = True, dyn_revision = 0, dyn_peers = [], dyn_observations = [], dyn_channel = 0, dyn_sent = (\<lambda>_. []),
      dyn_event_capacity = clamp 1 MAX_DISCOVERY_EVENT_CAPACITY capacity\<rparr>"

definition dynamic_snapshot :: "dynamic_state \<Rightarrow> discovery_snapshot" where
  "dynamic_snapshot s = snapshot_observed (dyn_revision s) (zip (dyn_peers s) (dyn_observations s))"

text \<open>A new watch, the channel it listens on and what had been sent there.\<close>

definition live_watch :: "dynamic_state \<Rightarrow> discovery_error + discovery_watch \<times> nat \<times> nat" where
  "live_watch s =
     (if \<not> dyn_available s then Inl WatchClosed
      else Inr (watch_new (dynamic_snapshot s), dyn_channel s, length (dyn_sent s (dyn_channel s))))"

definition check_available :: "dynamic_state \<Rightarrow> discovery_error + unit" where
  "check_available s = (if dyn_available s then Inr () else Inl WatchClosed)"

definition activate :: "dynamic_state \<Rightarrow> dynamic_state" where
  "activate s = s\<lparr>dyn_available := True\<rparr>"

definition dyn_publish :: "string list \<Rightarrow> instant list \<Rightarrow> dynamic_state \<Rightarrow> dynamic_state" where
  "dyn_publish peers observations s =
     (case u64_checked_succ (dyn_revision s) of
        None \<Rightarrow> s
      | Some revision \<Rightarrow>
          let s' = s\<lparr>dyn_peers := peers, dyn_observations := observations, dyn_revision := revision\<rparr>;
              event = \<lparr>event_revision = revision, event_change = Observed (dynamic_snapshot s')\<rparr>
          in s'\<lparr>dyn_sent := (dyn_sent s')(dyn_channel s' := dyn_sent s' (dyn_channel s') @ [event])\<rparr>)"

definition dyn_finish :: "bool \<Rightarrow> dynamic_state \<Rightarrow> dynamic_state" where
  "dyn_finish unexpected s =
     (let s1 = s\<lparr>dyn_available := False\<rparr>;
          s2 = (if dyn_peers s1 \<noteq> [] then dyn_publish [] [] s1 else s1)
      in if unexpected then s2\<lparr>dyn_channel := Suc (dyn_channel s2)\<rparr> else s2)"

fun observation_of :: "string \<Rightarrow> string list \<Rightarrow> instant list \<Rightarrow> instant option" where
  "observation_of peer (p # ps) (t # ts) = (if p = peer then Some t else observation_of peer ps ts)"
| "observation_of peer _ _ = None"

definition dyn_replace :: "instant \<Rightarrow> string list \<Rightarrow> dynamic_state \<Rightarrow> dynamic_state" where
  "dyn_replace now peers s =
     (if dyn_peers s = peers then s
      else dyn_publish peers
        (map (\<lambda>peer. case observation_of peer (dyn_peers s) (dyn_observations s) of Some t \<Rightarrow> t | None \<Rightarrow> now) peers) s)"

definition dyn_observe_at :: "(string \<times> instant) list \<Rightarrow> dynamic_state \<Rightarrow> dynamic_state" where
  "dyn_observe_at peers s =
     (if dyn_peers s = map fst peers \<and> dyn_observations s = map snd peers then s
      else dyn_publish (map fst peers) (map snd peers) s)"

definition dyn_observe :: "instant \<Rightarrow> string list \<Rightarrow> dynamic_state \<Rightarrow> dynamic_state" where
  "dyn_observe now peers = dyn_observe_at (map (\<lambda>peer. (peer, now)) peers)"

section \<open>Deadlines\<close>

definition checked_deadline :: "instant \<Rightarrow> duration \<Rightarrow> string \<Rightarrow> string \<Rightarrow> discovery_error + instant" where
  "checked_deadline now d provider field =
     (case instant_checked_add now d of
        Some t \<Rightarrow> Inr t
      | None \<Rightarrow> Inl (ProviderError provider (field @ '' deadline is not representable'') False))"

fun validate_durations :: "instant \<Rightarrow> string \<Rightarrow> (string \<times> duration) list \<Rightarrow> discovery_error + unit" where
  "validate_durations now provider [] = Inr ()"
| "validate_durations now provider ((field, d) # rest) =
     (if instant_checked_add now d = None
      then Inl (InvalidConfiguration provider (field @ '' deadline is not representable''))
      else validate_durations now provider rest)"

section \<open>The end of a generation\<close>

text \<open>How the task of a provider ended: as it returned, or by a panic or a cancellation.\<close>

datatype 'a joined = Joined 'a | JoinFailed string

record task_completion =
  tc_result :: "discovery_error + unit"
  tc_restart :: "discovery_error + unit"

definition res_and :: "'e + 'a \<Rightarrow> 'e + 'b \<Rightarrow> 'e + 'b" where
  "res_and r q = res_bind r (\<lambda>_. q)"

definition supervise ::
    "string \<Rightarrow> bool \<Rightarrow> (discovery_error + unit) joined \<Rightarrow> (discovery_error + unit) joined \<Rightarrow> dynamic_state
     \<Rightarrow> dynamic_state \<times> task_completion" where
  "supervise provider requested worker cleanup s =
     (let (result, restart) =
            (case worker of
               Joined (Inr _) \<Rightarrow> (Inr (), Inr ())
             | Joined (Inl e) \<Rightarrow> (Inl e, Inl e)
             | JoinFailed e \<Rightarrow> (Inl (ProviderError provider (''provider task failed: '' @ e) False), Inr ()));
          s1 = dyn_finish (\<not> requested \<or> \<not> is_ok result) s;
          cleaned =
            (case cleanup of
               Joined r \<Rightarrow> r
             | JoinFailed e \<Rightarrow> Inl (ProviderError provider (''provider cleanup task failed: '' @ e) False));
          s2 = (if is_ok cleaned then s1 else dyn_finish True s1);
          restart' = res_and (map_err (\<lambda>e. ProviderError provider
            (''provider cleanup was not confirmed; restart blocked: '' @ discovery_error_display e) False) cleaned) restart
      in (s2, \<lparr>tc_result = res_and result cleaned, tc_restart = restart'\<rparr>))"

fun retryable_provider_error :: "discovery_error \<Rightarrow> bool" where
  "retryable_provider_error (ProviderError _ _ retryable) = retryable"
| "retryable_provider_error _ = False"

text \<open>Whether the generation of a task is live; \<open>supervisor_alive\<close> is false when its channel was dropped.\<close>

definition generation_running ::
    "string \<Rightarrow> task_completion option \<Rightarrow> bool \<Rightarrow> dynamic_state \<Rightarrow> discovery_error + bool" where
  "generation_running provider completion supervisor_alive s =
     (case completion of
        Some done_ \<Rightarrow>
          (case tc_restart done_ of
             Inl e \<Rightarrow> if retryable_provider_error e then Inr False else Inl e
           | Inr _ \<Rightarrow> Inr False)
      | None \<Rightarrow>
          if \<not> supervisor_alive then Inl (ProviderError provider ''generation supervisor failed'' False)
          else res_bind (check_available s) (\<lambda>_. Inr True))"

section \<open>Following a provider\<close>

text \<open>
  What a broadcast channel promises one of its receivers about the events that were sent after it
  subscribed: it returns them in order; when it fell behind it says how many it skipped; and it ends
  only after the last one.
\<close>

fun broadcast_delivers :: "'e list \<Rightarrow> 'e recv_outcome list \<Rightarrow> bool" where
  "broadcast_delivers es [] = True"
| "broadcast_delivers es (Received e # os) = (es \<noteq> [] \<and> hd es = e \<and> broadcast_delivers (tl es) os)"
| "broadcast_delivers es (Lagged n # os) = (0 < n \<and> n \<le> length es \<and> broadcast_delivers (drop n es) os)"
| "broadcast_delivers es (ChannelEnded # os) = (es = [] \<and> broadcast_delivers [] os)"

fun watch_run ::
    "discovery_event recv_outcome list \<Rightarrow> discovery_watch \<Rightarrow> discovery_watch \<times> (discovery_error + discovery_event) list" where
  "watch_run [] w = (w, [])"
| "watch_run (out # outs) w =
     (case watch_recv out w of (w1, r) \<Rightarrow> case watch_run outs w1 of (w2, rs) \<Rightarrow> (w2, r # rs))"

text \<open>The view of a consumer that starts from a snapshot and takes over every observed one.\<close>

definition seen_view :: "discovery_snapshot \<Rightarrow> (discovery_error + discovery_event) list \<Rightarrow> discovery_snapshot" where
  "seen_view start results =
     fold (\<lambda>r view. case r of Inr e \<Rightarrow> (case event_change e of Observed sn \<Rightarrow> sn | _ \<Rightarrow> view) | Inl _ \<Rightarrow> view) results start"

datatype dyn_op = Activate | Finish bool | Replace instant "string list" | ObserveAt "(string \<times> instant) list"

fun dyn_step :: "dyn_op \<Rightarrow> dynamic_state \<Rightarrow> dynamic_state" where
  "dyn_step Activate s = activate s"
| "dyn_step (Finish unexpected) s = dyn_finish unexpected s"
| "dyn_step (Replace now peers) s = dyn_replace now peers s"
| "dyn_step (ObserveAt peers) s = dyn_observe_at peers s"

text \<open>
  What a step does to the state: the view stays and the channel may be replaced, or there is a new
  view under the next revision, sent on the current channel, which may then be replaced.
\<close>

lemma publish_cases:
  obtains "dyn_publish peers obs s = s" "\<not> dyn_revision s < u64_max"
  | e where "dyn_revision s < u64_max" "dyn_revision (dyn_publish peers obs s) = Suc (dyn_revision s)"
    "event_revision e = Suc (dyn_revision s)" "event_change e = Observed (dynamic_snapshot (dyn_publish peers obs s))"
    "dyn_sent (dyn_publish peers obs s) = (dyn_sent s)(dyn_channel s := dyn_sent s (dyn_channel s) @ [e])"
    "dyn_channel (dyn_publish peers obs s) = dyn_channel s"
proof (cases "dyn_revision s < u64_max")
  case True
  let ?e = "\<lparr>event_revision = Suc (dyn_revision s), event_change = Observed (dynamic_snapshot (dyn_publish peers obs s))\<rparr>"
  show ?thesis
    by (rule that(2) [of ?e]) (simp_all add: True dyn_publish_def u64_checked_succ_def Let_def dynamic_snapshot_def)
qed (auto simp: dyn_publish_def u64_checked_succ_def intro: that(1))

definition unchanged_view :: "dynamic_state \<Rightarrow> dynamic_state \<Rightarrow> bool" where
  "unchanged_view s t \<longleftrightarrow> dynamic_snapshot t = dynamic_snapshot s \<and> dyn_sent t = dyn_sent s \<and> dyn_channel s \<le> dyn_channel t"

definition published_view :: "dynamic_state \<Rightarrow> dynamic_state \<Rightarrow> bool" where
  "published_view s t \<longleftrightarrow> dyn_revision s < u64_max \<and> dyn_channel s \<le> dyn_channel t
     \<and> (\<exists>e. event_revision e = Suc (dyn_revision s) \<and> event_change e = Observed (dynamic_snapshot t)
        \<and> snap_revision (dynamic_snapshot t) = Suc (dyn_revision s)
        \<and> dyn_sent t = (dyn_sent s)(dyn_channel s := dyn_sent s (dyn_channel s) @ [e]))"

lemma snap_revision_dynamic [simp]: "snap_revision (dynamic_snapshot s) = dyn_revision s"
  by (simp add: dynamic_snapshot_def snapshot_observed_def)

lemma dynamic_snapshot_flags [simp]:
  "dynamic_snapshot (s\<lparr>dyn_available := a\<rparr>) = dynamic_snapshot s" "dynamic_snapshot (s\<lparr>dyn_channel := c\<rparr>) = dynamic_snapshot s"
  by (simp_all add: dynamic_snapshot_def)

lemma publish_view: "unchanged_view s (dyn_publish peers obs s) \<or> published_view s (dyn_publish peers obs s)"
  by (rule publish_cases [of peers obs s]) (auto simp: unchanged_view_def published_view_def)

lemma finish_view: "unchanged_view s (dyn_finish unexpected s) \<or> published_view s (dyn_finish unexpected s)"
  using publish_view [of "s\<lparr>dyn_available := False\<rparr>" "[]" "[]"]
  by (auto simp: dyn_finish_def Let_def unchanged_view_def published_view_def)

lemma dyn_step_view: "unchanged_view s (dyn_step op s) \<or> published_view s (dyn_step op s)"
  by (cases op)
    (use publish_view finish_view in \<open>auto simp: dyn_replace_def dyn_observe_at_def activate_def unchanged_view_def\<close>)

text \<open>
  The events that a receiver gets which subscribed in state \<open>s0\<close>: numbered from the revision of \<open>s0\<close> on,
  each with a view the provider had.
\<close>

definition passed :: "dynamic_state \<Rightarrow> dyn_op list \<Rightarrow> dynamic_state \<Rightarrow> bool" where
  "passed s0 ops s \<longleftrightarrow> (\<exists>n \<le> length ops. s = fold dyn_step (take n ops) s0)"

lemma passed_snoc: "passed s0 ops s \<Longrightarrow> passed s0 (ops @ [op]) s"
proof -
  assume "passed s0 ops s"
  then obtain n where "n \<le> length ops" "s = fold dyn_step (take n ops) s0" by (auto simp: passed_def)
  then have "n \<le> length (ops @ [op])" "s = fold dyn_step (take n (ops @ [op])) s0" by simp_all
  then show ?thesis unfolding passed_def by blast
qed

lemma passed_end [simp, intro]: "passed s0 ops (fold dyn_step ops s0)" "passed s0 ops s0"
  unfolding passed_def by (rule exI [of _ "length ops"], simp, rule exI [of _ 0], simp)

definition follows :: "dynamic_state \<Rightarrow> dyn_op list \<Rightarrow> discovery_event list \<Rightarrow> bool" where
  "follows s0 ops es \<longleftrightarrow>
     dyn_sent (fold dyn_step ops s0) (dyn_channel s0) = dyn_sent s0 (dyn_channel s0) @ es
     \<and> (\<forall>i < length es. event_revision (es ! i) = dyn_revision s0 + Suc i \<and> event_revision (es ! i) \<le> u64_max
         \<and> (\<exists>s. passed s0 ops s \<and> event_change (es ! i) = Observed (dynamic_snapshot s) \<and> dyn_revision s = dyn_revision s0 + Suc i))
     \<and> dyn_channel s0 \<le> dyn_channel (fold dyn_step ops s0)
     \<and> dyn_revision s0 + length es \<le> dyn_revision (fold dyn_step ops s0)
     \<and> (dyn_channel (fold dyn_step ops s0) = dyn_channel s0 \<longrightarrow> dyn_revision (fold dyn_step ops s0) = dyn_revision s0 + length es)"

lemma follows_step:
  assumes "follows s0 ops es" "unchanged_view (fold dyn_step ops s0) (dyn_step op (fold dyn_step ops s0))
    \<or> published_view (fold dyn_step ops s0) (dyn_step op (fold dyn_step ops s0))"
  shows "\<exists>es'. follows s0 (ops @ [op]) es'"
proof -
  let ?s = "fold dyn_step ops s0" and ?t = "dyn_step op (fold dyn_step ops s0)"
  note F = assms(1) [unfolded follows_def]
  show ?thesis
    using assms(2)
  proof
    assume u: "unchanged_view ?s ?t"
    then have "dyn_revision ?t = dyn_revision ?s" unfolding unchanged_view_def by (metis snap_revision_dynamic)
    with u F have "follows s0 (ops @ [op]) es"
      unfolding follows_def unchanged_view_def by (auto dest: passed_snoc)
    then show ?thesis ..
  next
    assume "published_view ?s ?t"
    then obtain e where e: "dyn_revision ?s < u64_max" "dyn_channel ?s \<le> dyn_channel ?t" "event_revision e = Suc (dyn_revision ?s)"
      "event_change e = Observed (dynamic_snapshot ?t)" "dyn_revision ?t = Suc (dyn_revision ?s)"
      "dyn_sent ?t = (dyn_sent ?s)(dyn_channel ?s := dyn_sent ?s (dyn_channel ?s) @ [e])"
      by (auto simp: published_view_def)
    show ?thesis
    proof (cases "dyn_channel ?s = dyn_channel s0")
      case True
      with F have rev: "dyn_revision ?s = dyn_revision s0 + length es" by simp
      have "follows s0 (ops @ [op]) (es @ [e])"
        unfolding follows_def
      proof (intro conjI allI impI)
        fix i assume i: "i < length (es @ [e])"
        show "event_revision ((es @ [e]) ! i) = dyn_revision s0 + Suc i" "event_revision ((es @ [e]) ! i) \<le> u64_max"
          using i F e rev by (auto simp: nth_append less_Suc_eq)
        show "\<exists>s. passed s0 (ops @ [op]) s \<and> event_change ((es @ [e]) ! i) = Observed (dynamic_snapshot s)
            \<and> dyn_revision s = dyn_revision s0 + Suc i"
        proof (cases "i < length es")
          case True
          with F show ?thesis by (simp add: nth_append) (metis passed_snoc)
        next
          case False
          with i e rev passed_end(1) [of s0 "ops @ [op]"] show ?thesis by (intro exI [of _ ?t]) (simp add: nth_append)
        qed
      qed (use F e rev True in auto)
      then show ?thesis ..
    next
      case False
      with F e have "follows s0 (ops @ [op]) es"
        unfolding follows_def by (auto dest: passed_snoc)
      then show ?thesis ..
    qed
  qed
qed

lemma follows_run: "\<exists>es. follows s0 ops es"
proof (induction ops rule: rev_induct)
  case Nil
  have "follows s0 [] []" by (simp add: follows_def)
  then show ?case ..
next
  case (snoc op ops)
  then show ?case using follows_step dyn_step_view by blast
qed

section \<open>What a watch shows\<close>

lemma watch_run_invalid: "invalidated w \<Longrightarrow> watch_run outs w = (w, map Inl (replicate (length outs) WatchInvalidated))"
  by (induction outs) (simp_all add: watch_recv_def)

definition numbered :: "nat \<Rightarrow> discovery_event list \<Rightarrow> bool" where
  "numbered r es \<longleftrightarrow> (\<forall>i < length es. event_revision (es ! i) = r + Suc i \<and> event_revision (es ! i) \<le> u64_max
     \<and> (\<exists>sn. event_change (es ! i) = Observed sn \<and> snap_revision sn = r + Suc i))"

lemma numbered_Cons:
  "numbered r (e # es) \<Longrightarrow> event_revision e = Suc r \<and> Suc r \<le> u64_max \<and> (\<exists>sn. event_change e = Observed sn \<and> snap_revision sn = Suc r)
     \<and> numbered (Suc r) es"
  unfolding numbered_def by (metis (no_types, opaque_lifting) add_Suc add_Suc_right add_0_right length_Cons nth_Cons_0 nth_Cons_Suc not_less_eq zero_less_Suc)

lemma followsE:
  assumes "follows s0 ops es" "i < length es"
  obtains s where "event_revision (es ! i) = dyn_revision s0 + Suc i" "event_revision (es ! i) \<le> u64_max" "passed s0 ops s"
    "event_change (es ! i) = Observed (dynamic_snapshot s)" "dyn_revision s = dyn_revision s0 + Suc i"
  using assms unfolding follows_def by blast

lemma follows_numbered: "follows s0 ops es \<Longrightarrow> numbered (dyn_revision s0) es"
  unfolding numbered_def by (auto elim!: followsE)

lemma recv_next:
  "numbered (last_revision w) (e # es) \<Longrightarrow> \<not> invalidated w \<Longrightarrow>
     watch_recv (Received e) w = (w\<lparr>last_revision := Suc (last_revision w)\<rparr>, Inr e)"
  by (drule numbered_Cons) (auto simp: watch_recv_def u64_checked_succ_def)

lemma watch_run_in_order:
  "numbered (last_revision w) es \<Longrightarrow> \<not> invalidated w \<Longrightarrow> broadcast_delivers es outs \<Longrightarrow> watch_run outs w = (w', rs) \<Longrightarrow>
     \<exists>k \<le> length es. \<exists>errs. rs = map Inr (take k es) @ map Inl errs \<and> last_revision w' = last_revision w + k"
proof (induction es outs arbitrary: w w' rs rule: broadcast_delivers.induct)
  case (2 es e outs)
  then obtain es' where es: "es = e # es'" "broadcast_delivers es' outs" by (cases es) auto
  let ?w = "w\<lparr>last_revision := Suc (last_revision w)\<rparr>"
  note step = recv_next [OF 2(2) [unfolded es(1)] 2(3)]
  obtain rs' where rest: "watch_run outs ?w = (w', rs')" "rs = Inr e # rs'"
    using 2(5) step by (auto split: prod.splits)
  have "numbered (last_revision ?w) es'" using numbered_Cons [OF 2(2) [unfolded es(1)]] by simp
  from 2(1) [of ?w w' rs'] this 2(3) es rest(1) obtain k errs where
    "k \<le> length es'" "rs' = map Inr (take k es') @ map Inl errs" "last_revision w' = last_revision ?w + k" by auto
  then show ?case using es rest(2) by (intro exI [of _ "Suc k"]) auto
next
  case (3 es n outs)
  let ?w = "w\<lparr>invalidated := True\<rparr>"
  have "watch_run outs ?w = (?w, map Inl (replicate (length outs) WatchInvalidated))" by (rule watch_run_invalid) simp
  then have "rs = map Inr (take 0 es) @ map Inl (WatchOverflow n # replicate (length outs) WatchInvalidated)" "w' = ?w"
    using 3(3,5) by (auto simp: watch_recv_def)
  then show ?case by (intro exI [of _ 0] conjI exI [of _ "WatchOverflow n # replicate (length outs) WatchInvalidated"]) simp_all
next
  case (4 es outs)
  obtain rs' where rest: "watch_run outs w = (w', rs')" "rs = Inl WatchClosed # rs'"
    using 4(3,5) by (auto simp: watch_recv_def split: prod.splits)
  from 4(1) [of w w' rs'] 4(2,3,4) rest obtain errs where "rs' = map Inl errs" "last_revision w' = last_revision w" by auto
  then show ?case using rest(2) by (intro exI [of _ 0] conjI exI [of _ "WatchClosed # errs"]) auto
qed auto

lemma seen_view_errors [simp]: "seen_view v (rs @ map Inl errs) = seen_view v rs"
proof -
  have "fold (\<lambda>r view. case r of Inr e \<Rightarrow> (case event_change e of Observed sn \<Rightarrow> sn | _ \<Rightarrow> view) | Inl _ \<Rightarrow> view)
      (map Inl errs) v = v" for v by (induction errs) simp_all
  then show ?thesis by (simp add: seen_view_def)
qed

lemma seen_view_last:
  "k < length es \<Longrightarrow> event_change (es ! k) = Observed sn \<Longrightarrow> seen_view v (map Inr (take (Suc k) es)) = sn"
  by (simp add: seen_view_def take_Suc_conv_app_nth)

lemma revision_mono: "dyn_revision s \<le> dyn_revision (fold dyn_step ops s)"
  using follows_run [of s ops] by (auto simp: follows_def)

lemma same_revision_step: "dyn_revision (dyn_step op s) = dyn_revision s \<Longrightarrow> dynamic_snapshot (dyn_step op s) = dynamic_snapshot s"
  using dyn_step_view [of s op] unfolding unchanged_view_def published_view_def by auto

lemma same_revision: "dyn_revision (fold dyn_step ops s) = dyn_revision s \<Longrightarrow> dynamic_snapshot (fold dyn_step ops s) = dynamic_snapshot s"
proof (induction ops arbitrary: s)
  case (Cons op ops)
  have "dyn_revision s \<le> dyn_revision (dyn_step op s)" using revision_mono [of s "[op]"] by simp
  moreover have "dyn_revision (dyn_step op s) \<le> dyn_revision (fold dyn_step (op # ops) s)"
    using revision_mono [of "dyn_step op s" ops] by simp
  ultimately have "dyn_revision (dyn_step op s) = dyn_revision s" using Cons.prems by simp
  with Cons.prems Cons.IH [of "dyn_step op s"] same_revision_step show ?case by simp
qed simp

lemma passed_same:
  assumes "passed s0 ops s" "dyn_revision s = dyn_revision (fold dyn_step ops s0)"
  shows "dynamic_snapshot s = dynamic_snapshot (fold dyn_step ops s0)"
proof -
  from assms(1) obtain n where s: "s = fold dyn_step (take n ops) s0" by (auto simp: passed_def)
  have "fold dyn_step ops s0 = fold dyn_step (drop n ops) s"
    unfolding s by (metis append_take_drop_id fold_append o_apply)
  with same_revision [of "drop n ops" s] assms(2) show ?thesis by simp
qed

text \<open>
  C26. A watch never shows a consumer anything but views of the provider, without a gap: whatever the provider does
  after the subscription, and whatever the bounded channel drops, the events it passes on are the next ones
  in order, after the first error there are no more, the view of the consumer is at
  every point one the provider had, and once the revisions agree it is the provider's view.
\<close>

theorem watch_follows_provider:
  assumes "live_watch s0 = Inr (w, c, p)" "broadcast_delivers (drop p (dyn_sent (fold dyn_step ops s0) c)) outs"
    and "watch_run outs w = (w', results)"
  shows "\<exists>k errs. k \<le> length (drop p (dyn_sent (fold dyn_step ops s0) c))
    \<and> results = map Inr (take k (drop p (dyn_sent (fold dyn_step ops s0) c))) @ map Inl errs
    \<and> last_revision w' = dyn_revision s0 + k
    \<and> (\<exists>n \<le> length ops. seen_view (watch_snapshot w) results = dynamic_snapshot (fold dyn_step (take n ops) s0))
    \<and> (last_revision w' = dyn_revision (fold dyn_step ops s0) \<longrightarrow>
        seen_view (watch_snapshot w) results = dynamic_snapshot (fold dyn_step ops s0))"
proof -
  have w: "w = watch_new (dynamic_snapshot s0)" "c = dyn_channel s0" "p = length (dyn_sent s0 c)"
    using assms(1) by (auto simp: live_watch_def split: if_splits)
  obtain es where es: "follows s0 ops es" using follows_run by blast
  then have sent: "drop p (dyn_sent (fold dyn_step ops s0) c) = es" by (simp add: follows_def w)
  have "numbered (last_revision w) es" "\<not> invalidated w"
    using follows_numbered [OF es] by (simp_all add: w watch_new_def)
  from watch_run_in_order [OF this assms(2) [unfolded sent] assms(3)] obtain k errs where
    k: "k \<le> length es" "results = map Inr (take k es) @ map Inl errs" "last_revision w' = dyn_revision s0 + k"
    by (auto simp: w watch_new_def)
  obtain s where s: "passed s0 ops s" "seen_view (watch_snapshot w) results = dynamic_snapshot s" "dyn_revision s = dyn_revision s0 + k"
  proof (cases k)
    case 0
    then have "seen_view (watch_snapshot w) results = seen_view (watch_snapshot w) []" unfolding k(2) seen_view_errors by simp
    then show thesis using that [of s0] 0 by (simp add: seen_view_def w watch_new_def)
  next
    case (Suc i)
    with k(1) have "i < length es" by simp
    from followsE [OF es this] obtain s where s: "passed s0 ops s" "event_change (es ! i) = Observed (dynamic_snapshot s)"
      "dyn_revision s = dyn_revision s0 + Suc i" .
    then show thesis using that [of s] Suc k(1,2) seen_view_last [OF _ s(2)] by simp
  qed
  have "last_revision w' = dyn_revision (fold dyn_step ops s0) \<longrightarrow>
      seen_view (watch_snapshot w) results = dynamic_snapshot (fold dyn_step ops s0)"
    using passed_same [OF s(1)] s(2,3) k(3) by simp
  moreover have "\<exists>n \<le> length ops. seen_view (watch_snapshot w) results = dynamic_snapshot (fold dyn_step (take n ops) s0)"
    using s(1,2) by (auto simp: passed_def)
  ultimately show ?thesis unfolding sent using k by blast
qed

theorem watch_follows_provider_witness:
  "let s0 = dyn_observe 5 [''a:1''] (dynamic_new 4); s = dyn_observe 7 [''c:1''] (dyn_observe 6 [''b:1''] s0);
       r = watch_run (map Received (drop 1 (dyn_sent s 0))) (watch_new (dynamic_snapshot s0))
   in last_revision (fst r) = 3 \<and> seen_view (dynamic_snapshot s0) (snd r) = dynamic_snapshot s"
proof -
  define s0 s1 s2 where "s0 = dyn_observe 5 [''a:1''] (dynamic_new 4)" "s1 = dyn_observe 6 [''b:1''] s0" "s2 = dyn_observe 7 [''c:1''] s1"
  note eval = dyn_observe_def dyn_observe_at_def dynamic_new_def dyn_publish_def u64_checked_succ_def u64_max_def Let_def
  let ?ops = "[ObserveAt [(''b:1'', 6)], ObserveAt [(''c:1'', 7)]]"
  have s2: "s2 = fold dyn_step ?ops s0" by (simp add: s0_s1_s2_def dyn_observe_def)
  have live: "live_watch s0 = Inr (watch_new (dynamic_snapshot s0), 0, 1)" by (simp add: live_watch_def s0_s1_s2_def(1) eval)
  have rev: "dyn_revision s0 = 1" "dyn_revision s2 = 3" "length (dyn_sent s2 0) = 3" by (simp_all add: s0_s1_s2_def eval)
  have del: "broadcast_delivers es (map Received es)" for es :: "discovery_event list" by (induction es) simp_all
  obtain w' rs where run: "watch_run (map Received (drop 1 (dyn_sent s2 0))) (watch_new (dynamic_snapshot s0)) = (w', rs)" by fastforce
  have last: "last_revision w' = 3"
    using run by (auto simp: s0_s1_s2_def eval watch_recv_def watch_new_def dynamic_snapshot_def snapshot_observed_def)
  from watch_follows_provider [OF live del [of "drop 1 (dyn_sent (fold dyn_step ?ops s0) 0)"] run [unfolded s2]] last rev
  have "seen_view (dynamic_snapshot s0) rs = dynamic_snapshot s2" by (auto simp: s2 watch_new_def)
  with run last show ?thesis by (simp add: s0_s1_s2_def Let_def)
qed

end
