(* ===== verification/Candidates.thy ===== *)
theory Candidates
  imports Discovery Sync_Config
begin

text \<open>
  The coordinator of peer candidates (\<open>nx-core/src/sync_manager/candidates.rs\<close>): the registry of what
  every discovery source contributes, with leases, capacity and local endpoints; the
  canonical form of endpoints; the loop that applies commands and publishes the candidates; and
  the task that follows one provider and turns what it says into commands.

  Time is an argument of every operation that reads the clock. Values that are formatted with
  \<open>{:?}\<close> are left out of the texts of errors.
\<close>

section \<open>Endpoints of peers\<close>

definition configuration_error :: "string \<Rightarrow> string \<Rightarrow> discovery_error" where
  "configuration_error provider message = InvalidConfiguration provider message"

text \<open>\<open>SocketAddr\<close> of the standard library; the scope of an IPv6 address is read and not used.\<close>

definition read_port :: "string \<Rightarrow> nat option" where
  "read_port s =
     (case s of
        c # cs \<Rightarrow>
          if c = CHR '':''
          then (case read_number 10 (length cs) 65536 True cs of Some (p, []) \<Rightarrow> Some p | _ \<Rightarrow> None)
          else None
      | [] \<Rightarrow> None)"

definition skip_scope :: "string \<Rightarrow> string" where
  "skip_scope s =
     (case s of
        c # cs \<Rightarrow>
          if c = CHR ''%''
          then (case read_number 10 (length cs) 4294967296 True cs of Some (_, rest) \<Rightarrow> rest | None \<Rightarrow> s)
          else s
      | [] \<Rightarrow> s)"

definition parse_socket_addr :: "string \<Rightarrow> (ip_addr \<times> nat) option" where
  "parse_socket_addr s =
     (case read_ipv4_addr s of
        Some (os, rest) \<Rightarrow> map_option (Pair (V4 os)) (read_port rest)
      | None \<Rightarrow>
          (case s of
             c # cs \<Rightarrow>
               if c = CHR ''[''
               then (case read_ipv6_addr cs of
                   Some (gs, rest) \<Rightarrow>
                     (case skip_scope rest of
                        d # port \<Rightarrow> if d = CHR '']'' then map_option (Pair (V6 gs)) (read_port port) else None
                      | [] \<Rightarrow> None)
                 | None \<Rightarrow> None)
               else None
           | [] \<Rightarrow> None))"

definition show_socket_addr :: "ip_addr \<Rightarrow> nat \<Rightarrow> string" where
  "show_socket_addr ip port =
     (case ip of V4 _ \<Rightarrow> show_ip ip @ '':'' @ show_nat port | V6 _ \<Rightarrow> ''['' @ show_ip ip @ '']:'' @ show_nat port)"

definition valid_peer_name :: "string \<Rightarrow> bool" where
  "valid_peer_name host =
     (host \<noteq> [] \<and> length host \<le> 253 \<and> CHR '':'' \<notin> set host \<and> list_all valid_label (split_at CHR ''.'' host))"

definition parse_host_port :: "bool \<Rightarrow> string \<Rightarrow> discovery_error + string \<times> nat" where
  "parse_host_port allow_zero_port endpoint =
     (let zero_port = configuration_error ''coordinator'' ''peer endpoint port must be greater than zero''
      in if \<not> trimmed endpoint \<or> endpoint = [] then Inl (configuration_error ''coordinator'' ''invalid peer endpoint'')
         else case parse_socket_addr endpoint of
           Some (ip, port) \<Rightarrow> if \<not> allow_zero_port \<and> port = 0 then Inl zero_port else Inr (show_ip ip, port)
         | None \<Rightarrow>
             (case rsplit_once CHR '':'' endpoint of
                None \<Rightarrow> Inl (configuration_error ''coordinator'' (''peer endpoint must include a port: '' @ endpoint))
              | Some (host, port) \<Rightarrow>
                  let host = strip_final_dot host
                  in if \<not> valid_peer_name host then Inl (configuration_error ''coordinator'' ''invalid peer endpoint host'')
                     else case parse_u16 port of
                       None \<Rightarrow> Inl (configuration_error ''coordinator'' ''invalid peer endpoint port'')
                     | Some p \<Rightarrow>
                         if \<not> allow_zero_port \<and> p = 0 then Inl zero_port else Inr (to_ascii_lowercase host, p)))"

definition canonicalize_host_port :: "string \<Rightarrow> nat \<Rightarrow> discovery_error + string" where
  "canonicalize_host_port host port =
     (if port = 0 then Inl (configuration_error ''coordinator'' ''advertised endpoint resolved to port zero'')
      else case parse_ip host of
        Some ip \<Rightarrow>
          if is_unspecified ip \<or> is_multicast ip \<or> is_broadcast ip \<or> is_unicast_link_local ip
          then Inl (configuration_error ''coordinator'' ''peer endpoint must use a dialable unicast IP address'')
          else Inr (show_socket_addr ip port)
      | None \<Rightarrow> Inr (to_ascii_lowercase host @ '':'' @ show_nat port))"

definition canonicalize_endpoint :: "string \<Rightarrow> discovery_error + string" where
  "canonicalize_endpoint endpoint = res_bind (parse_host_port False endpoint) (\<lambda>(host, port). canonicalize_host_port host port)"

definition resolve_advertised_endpoint :: "ip_addr \<times> nat \<Rightarrow> string option \<Rightarrow> discovery_error + string option" where
  "resolve_advertised_endpoint bound configured =
     (case configured of
        Some c \<Rightarrow>
          res_bind (parse_host_port True c) (\<lambda>(host, port).
          res_bind (canonicalize_host_port host (if port = 0 then snd bound else port)) (\<lambda>e. Inr (Some e)))
      | None \<Rightarrow>
          if is_unspecified (fst bound) then Inr None else Inr (Some (show_socket_addr (fst bound) (snd bound))))"

definition validate_identifier :: "string \<Rightarrow> string \<Rightarrow> discovery_error + unit" where
  "validate_identifier name value =
     (if value \<noteq> [] \<and> length value \<le> 128
         \<and> list_all (\<lambda>c. is_alphanumeric c \<or> c \<in> {CHR ''-'', CHR ''_'', CHR ''.''}) value
      then Inr ()
      else Inl (configuration_error ''coordinator''
        (name @ '' must be 1..=128 ASCII letters, digits, '' @ [CHR 0x27] @ ''.'' @ [CHR 0x27] @ '', '' @ [CHR 0x27] @ ''_''
         @ [CHR 0x27] @ '' or '' @ [CHR 0x27] @ ''-'' @ [CHR 0x27])))"

section \<open>The registry\<close>

record candidate_contribution =
  lease :: "instant option"

record candidate_record =
  record_sources :: "(string, candidate_contribution) omap"

record candidate_registry =
  max_candidates :: nat
  reg_order :: "string list"
  source_order :: "string list"
  source_candidates :: "(string, string list) omap"
  reg_records :: "(string, candidate_record) omap"
  local_endpoints :: "string oset"

definition registry_new :: "nat \<Rightarrow> discovery_error + candidate_registry" where
  "registry_new limit =
     (if limit = 0 then Inl (configuration_error ''coordinator'' ''max_candidates must be greater than zero'')
      else Inr \<lparr>max_candidates = limit, reg_order = [], source_order = [], source_candidates = om_empty, reg_records = om_empty,
        local_endpoints = om_empty\<rparr>)"

definition reg_endpoints :: "candidate_registry \<Rightarrow> string list" where
  "reg_endpoints r = filter (om_contains_key (reg_records r)) (reg_order r)"

definition register_source :: "string \<Rightarrow> candidate_registry \<Rightarrow> candidate_registry" where
  "register_source source r =
     (if source \<in> set (source_order r) then r else r\<lparr>source_order := source_order r @ [source]\<rparr>)"

definition prune_empty :: "candidate_registry \<Rightarrow> candidate_registry" where
  "prune_empty r =
     r\<lparr>reg_records := om_filter (\<lambda>e. case om_get (reg_records r) e of
         Some rec \<Rightarrow> om_len (record_sources rec) \<noteq> 0 | None \<Rightarrow> False) (reg_records r)\<rparr>"

definition contributes :: "candidate_registry \<Rightarrow> string \<Rightarrow> string \<Rightarrow> bool" where
  "contributes r source endpoint =
     (case om_get (reg_records r) endpoint of Some rec \<Rightarrow> om_contains_key (record_sources rec) source | None \<Rightarrow> False)"

definition prune_source_candidates :: "candidate_registry \<Rightarrow> candidate_registry" where
  "prune_source_candidates r =
     (let kept = om_map (\<lambda>source. filter (contributes r source)) (source_candidates r)
      in r\<lparr>source_candidates := om_filter (\<lambda>source. om_get kept source \<noteq> Some []) kept\<rparr>)"

definition rebuild_order :: "candidate_registry \<Rightarrow> candidate_registry" where
  "rebuild_order r =
     r\<lparr>reg_order := fold (\<lambda>source acc.
         case om_get (source_candidates r) source of
           None \<Rightarrow> acc
         | Some candidates \<Rightarrow>
             fold (\<lambda>endpoint acc. if contributes r source endpoint \<and> endpoint \<notin> set acc then acc @ [endpoint] else acc)
               candidates acc) (source_order r) []\<rparr>"

definition drop_source :: "string \<Rightarrow> (string \<Rightarrow> bool) \<Rightarrow> candidate_registry \<Rightarrow> candidate_registry" where
  "drop_source source from r =
     r\<lparr>reg_records := om_map (\<lambda>endpoint rec.
         if from endpoint then rec\<lparr>record_sources := om_remove source (record_sources rec)\<rparr> else rec) (reg_records r)\<rparr>"

definition remove_source_except :: "string \<Rightarrow> string set \<Rightarrow> candidate_registry \<Rightarrow> candidate_registry" where
  "remove_source_except source retained r = prune_empty (drop_source source (\<lambda>endpoint. endpoint \<notin> retained) r)"

definition record_or_default :: "candidate_registry \<Rightarrow> string \<Rightarrow> candidate_record" where
  "record_or_default r endpoint = om_get_or (reg_records r) endpoint \<lparr>record_sources = om_empty\<rparr>"

definition put_contribution :: "string \<Rightarrow> string \<Rightarrow> candidate_contribution \<Rightarrow> candidate_registry \<Rightarrow> candidate_registry" where
  "put_contribution source endpoint c r =
     (let rec = record_or_default r endpoint
      in r\<lparr>reg_records := om_insert endpoint (rec\<lparr>record_sources := om_insert source c (record_sources rec)\<rparr>) (reg_records r)\<rparr>)"

definition limit_reached :: "candidate_registry \<Rightarrow> discovery_error" where
  "limit_reached r = configuration_error ''coordinator'' (''peer candidate limit reached: '' @ show_nat (max_candidates r))"

definition insert_contribution ::
    "string \<Rightarrow> string \<times> candidate_contribution \<Rightarrow> candidate_registry \<Rightarrow> discovery_error + candidate_registry" where
  "insert_contribution source ec r =
     (case ec of (endpoint, c) \<Rightarrow>
        if os_member (local_endpoints r) endpoint then Inr r
        else if \<not> om_contains_key (reg_records r) endpoint \<and> om_len (reg_records r) \<ge> max_candidates r
        then Inl (limit_reached r)
        else Inr (put_contribution source endpoint c r))"

definition replace_contributions ::
    "string \<Rightarrow> (string \<times> candidate_contribution) list \<Rightarrow> candidate_registry \<Rightarrow> candidate_registry \<times> (discovery_error + bool)" where
  "replace_contributions source contributions r =
     (case fold_res (insert_contribution source) contributions
         (remove_source_except source (fst ` set contributions) (register_source source r)) of
        Inl e \<Rightarrow> (r, Inl e)
      | Inr updated \<Rightarrow>
          let updated = rebuild_order (updated\<lparr>source_candidates :=
                om_insert source (map fst contributions) (source_candidates updated)\<rparr>)
          in (updated, Inr (reg_order updated \<noteq> reg_order r)))"

definition ttl_error :: "string \<Rightarrow> discovery_error" where
  "ttl_error source = configuration_error source ''candidate_ttl exceeds the platform time range''"

definition canonical_peers :: "string list \<Rightarrow> string list" where
  "canonical_peers peers =
     fold (\<lambda>peer canonical. case canonicalize_endpoint peer of
         Inl _ \<Rightarrow> canonical
       | Inr endpoint \<Rightarrow> if endpoint \<in> set canonical then canonical else canonical @ [endpoint]) peers []"

definition replace_source ::
    "instant \<Rightarrow> string \<Rightarrow> string list \<Rightarrow> duration option \<Rightarrow> candidate_registry \<Rightarrow> candidate_registry \<times> (discovery_error + bool)" where
  "replace_source now source peers ttl r =
     (if length peers > max_candidates r
      then (r, Inl (configuration_error ''coordinator''
        (''discovery snapshot exceeds the '' @ show_nat (max_candidates r) @ '' candidate limit'')))
      else
        let canonical = canonical_peers peers
        in case (case ttl of
              Some d \<Rightarrow>
                if list_ex (\<lambda>peer. \<not> os_member (local_endpoints r) peer) canonical
                then (case instant_checked_add now d of None \<Rightarrow> Inl (ttl_error source) | Some t \<Rightarrow> Inr (Some t))
                else Inr None
            | None \<Rightarrow> Inr None) of
             Inl e \<Rightarrow> (r, Inl e)
           | Inr expires_at \<Rightarrow> replace_contributions source (map (\<lambda>e. (e, \<lparr>lease = expires_at\<rparr>)) canonical) r)"

fun option_max :: "instant option \<Rightarrow> instant option \<Rightarrow> instant option" where
  "option_max (Some a) (Some b) = Some (max a b)"
| "option_max (Some a) None = Some a"
| "option_max None b = b"

definition renew ::
    "string \<Rightarrow> instant option \<Rightarrow> (string \<times> candidate_contribution) list \<Rightarrow> (string \<times> candidate_contribution) list" where
  "renew peer expires_at contributions =
     (if peer \<in> fst ` set contributions
      then map (\<lambda>(e, c). (e, if e = peer then c\<lparr>lease := option_max (lease c) expires_at\<rparr> else c)) contributions
      else contributions @ [(peer, \<lparr>lease = expires_at\<rparr>)])"

definition observe_candidate ::
    "instant \<Rightarrow> string \<Rightarrow> duration option \<Rightarrow> string \<times> instant \<Rightarrow> (string \<times> candidate_contribution) list
     \<Rightarrow> discovery_error + (string \<times> candidate_contribution) list" where
  "observe_candidate now source ttl observed contributions =
     (case observed of (peer, at) \<Rightarrow>
        case (case ttl of
            Some d \<Rightarrow>
              (case instant_checked_add at d of
                 None \<Rightarrow> Inl (ttl_error source)
               | Some deadline \<Rightarrow> Inr (if deadline \<le> now then None else Some (Some deadline)))
          | None \<Rightarrow> Inr (Some None)) of
          Inl e \<Rightarrow> Inl e
        | Inr None \<Rightarrow> Inr contributions
        | Inr (Some expires_at) \<Rightarrow>
            (case canonicalize_endpoint peer of
               Inl _ \<Rightarrow> Inr contributions
             | Inr peer \<Rightarrow> Inr (renew peer expires_at contributions)))"

definition replace_snapshot ::
    "instant \<Rightarrow> string \<Rightarrow> discovery_snapshot \<Rightarrow> duration option \<Rightarrow> candidate_registry \<Rightarrow> candidate_registry \<times> (discovery_error + bool)" where
  "replace_snapshot now source snapshot ttl r =
     (case snap_observations snapshot of
        None \<Rightarrow> replace_source now source (snap_peers snapshot) ttl r
      | Some observations \<Rightarrow>
          if length (snap_peers snapshot) > max_candidates r
          then (r, Inl (configuration_error source ''discovery snapshot exceeds candidate limit''))
          else case fold_res (observe_candidate now source ttl) (zip (snap_peers snapshot) observations) [] of
            Inl e \<Rightarrow> (r, Inl e)
          | Inr contributions \<Rightarrow> replace_contributions source contributions r)"

definition add_candidate ::
    "instant \<Rightarrow> string \<Rightarrow> string \<Rightarrow> duration option \<Rightarrow> candidate_registry \<Rightarrow> candidate_registry \<times> (discovery_error + bool)" where
  "add_candidate now source endpoint ttl r =
     (if os_member (local_endpoints r) endpoint then (r, Inr False)
      else if \<not> om_contains_key (reg_records r) endpoint \<and> om_len (reg_records r) \<ge> max_candidates r
      then (r, Inl (limit_reached r))
      else case (case ttl of
            Some d \<Rightarrow> (case instant_checked_add now d of None \<Rightarrow> Inl (ttl_error source) | Some t \<Rightarrow> Inr (Some t))
          | None \<Rightarrow> Inr None) of
        Inl e \<Rightarrow> (r, Inl e)
      | Inr expires_at \<Rightarrow>
          let r1 = register_source source r;
              candidates = om_get_or (source_candidates r1) source [];
              r2 = r1\<lparr>source_candidates :=
                om_insert source (if endpoint \<in> set candidates then candidates else candidates @ [endpoint]) (source_candidates r1)\<rparr>;
              r3 = rebuild_order (put_contribution source endpoint \<lparr>lease = expires_at\<rparr> r2)
          in (r3, Inr (reg_order r3 \<noteq> reg_order r)))"

text \<open>The common end of the operations that only remove, which say whether the candidates changed.\<close>

definition pruned :: "candidate_registry \<Rightarrow> candidate_registry" where
  "pruned r = rebuild_order (prune_source_candidates (prune_empty r))"

definition remove_candidate :: "string \<Rightarrow> string \<Rightarrow> candidate_registry \<Rightarrow> candidate_registry \<times> bool" where
  "remove_candidate source endpoint r =
     (let r1 = (case om_get (source_candidates r) source of
            Some candidates \<Rightarrow> r\<lparr>source_candidates := om_insert source (filter (\<lambda>c. c \<noteq> endpoint) candidates) (source_candidates r)\<rparr>
          | None \<Rightarrow> r);
          r2 = pruned (drop_source source (\<lambda>e. e = endpoint) r1)
      in (r2, reg_endpoints r2 \<noteq> reg_endpoints r))"

definition source_unavailable :: "string \<Rightarrow> bool \<Rightarrow> candidate_registry \<Rightarrow> candidate_registry \<times> bool" where
  "source_unavailable source leased r =
     (if leased then (r, False)
      else
        let r1 = pruned (drop_source source (\<lambda>_. True) (r\<lparr>source_candidates := om_remove source (source_candidates r)\<rparr>))
        in (r1, reg_endpoints r1 \<noteq> reg_endpoints r))"

definition set_local_endpoints :: "string list \<Rightarrow> candidate_registry \<Rightarrow> candidate_registry \<times> bool" where
  "set_local_endpoints endpoints r =
     (let own = os_extend endpoints om_empty;
          r1 = r\<lparr>local_endpoints := own, reg_records := om_filter (\<lambda>e. \<not> os_member own e) (reg_records r)\<rparr>;
          r2 = rebuild_order (prune_source_candidates r1)
      in (r2, reg_endpoints r2 \<noteq> reg_endpoints r))"

definition unexpired :: "instant \<Rightarrow> candidate_contribution \<Rightarrow> bool" where
  "unexpired now c = (case lease c of None \<Rightarrow> True | Some deadline \<Rightarrow> deadline > now)"

definition expire :: "instant \<Rightarrow> candidate_registry \<Rightarrow> candidate_registry \<times> bool" where
  "expire now r =
     (let r1 = pruned (r\<lparr>reg_records := om_map (\<lambda>_ rec. rec\<lparr>record_sources :=
            om_filter (\<lambda>source. case om_get (record_sources rec) source of Some c \<Rightarrow> unexpired now c | None \<Rightarrow> False)
              (record_sources rec)\<rparr>) (reg_records r)\<rparr>)
      in (r1, reg_endpoints r1 \<noteq> reg_endpoints r))"

definition deadlines :: "candidate_registry \<Rightarrow> instant list" where
  "deadlines r = List.map_filter lease (concat (map (\<lambda>rec. om_values (record_sources rec)) (om_values (reg_records r))))"

definition next_expiry :: "candidate_registry \<Rightarrow> instant option" where
  "next_expiry r = (if deadlines r = [] then None else Some (Min (set (deadlines r))))"

section \<open>Commands and the published candidates\<close>

datatype candidate_command =
    Snapshot string discovery_snapshot "duration option"
  | ReplaceSource string "string list" "duration option"
  | AddCandidate string string "duration option"
  | RemoveCandidate string string
  | SourceUnavailable string bool
  | SetLocalEndpoints "string list"

definition or_false :: "candidate_registry \<times> (discovery_error + bool) \<Rightarrow> candidate_registry \<times> bool" where
  "or_false rq = (fst rq, case snd rq of Inr changed \<Rightarrow> changed | Inl _ \<Rightarrow> False)"

fun apply_candidate_command :: "instant \<Rightarrow> candidate_command \<Rightarrow> candidate_registry \<Rightarrow> candidate_registry \<times> bool" where
  "apply_candidate_command now (Snapshot source snapshot ttl) r = or_false (replace_snapshot now source snapshot ttl r)"
| "apply_candidate_command now (ReplaceSource source peers ttl) r = or_false (replace_source now source peers ttl r)"
| "apply_candidate_command now (AddCandidate source endpoint ttl) r =
     (case canonicalize_endpoint endpoint of Inl _ \<Rightarrow> (r, False) | Inr e \<Rightarrow> or_false (add_candidate now source e ttl r))"
| "apply_candidate_command now (RemoveCandidate source endpoint) r =
     (case canonicalize_endpoint endpoint of Inl _ \<Rightarrow> (r, False) | Inr e \<Rightarrow> remove_candidate source e r)"
| "apply_candidate_command now (SourceUnavailable source leased) r = source_unavailable source leased r"
| "apply_candidate_command now (SetLocalEndpoints endpoints) r = (r, False)"

text \<open>One turn of \<open>run_candidate_registry\<close>: a command arrives, or the time of the next expiry has come.\<close>

datatype coordinator_input = CommandArrives instant candidate_command | ExpiryDue instant

definition coordinator_turn ::
    "coordinator_input \<Rightarrow> candidate_registry \<times> string list \<Rightarrow> candidate_registry \<times> string list" where
  "coordinator_turn input state =
     (case state of (r, published) \<Rightarrow>
        case (case input of
            CommandArrives now (SetLocalEndpoints endpoints) \<Rightarrow> set_local_endpoints endpoints r
          | CommandArrives now command \<Rightarrow> apply_candidate_command now command r
          | ExpiryDue now \<Rightarrow> expire now r) of
          (r', changed) \<Rightarrow> (r', if changed then reg_endpoints r' else published))"

section \<open>Providers and the coordinator\<close>

definition DISCOVERY_RETRY_INITIAL_DELAY :: duration where "DISCOVERY_RETRY_INITIAL_DELAY = millis 500"
definition DISCOVERY_RETRY_MAX_DELAY :: duration where "DISCOVERY_RETRY_MAX_DELAY = secs 30"

text \<open>A provider under its name; the operations of the provider itself answer as given.\<close>

record discovery_source =
  source_id :: string
  source_cluster :: string
  candidate_ttl :: "duration option"
  source_support :: announcement_support

definition discovery_error_is_retryable :: "discovery_error \<Rightarrow> bool" where
  "discovery_error_is_retryable error =
     (case error of
        ProviderError _ _ retryable \<Rightarrow> retryable
      | WatchOverflow _ \<Rightarrow> True | WatchRevision _ _ \<Rightarrow> True | WatchInvalidated \<Rightarrow> True | WatchClosed \<Rightarrow> True
      | InvalidConfiguration _ _ \<Rightarrow> False | UnsupportedOperation _ _ \<Rightarrow> False)"

definition provider_timeout :: "string \<Rightarrow> string \<Rightarrow> discovery_error" where
  "provider_timeout provider operation = ProviderError provider (operation @ '' timed out'') True"

definition validate_source :: "discovery_runtime_config \<Rightarrow> discovery_source \<Rightarrow> string list \<Rightarrow> discovery_error + string list" where
  "validate_source config source ids =
     res_bind (validate_identifier ''source_id'' (source_id source)) (\<lambda>_.
     if source_id source \<in> set ids
     then Inl (configuration_error ''coordinator'' (''duplicate discovery source: '' @ source_id source))
     else if source_cluster source \<noteq> drc_cluster_id config
     then Inl (configuration_error (source_id source)
       (''provider cluster '' @ [CHR 0x27] @ source_cluster source @ [CHR 0x27] @ '' does not match local cluster '' @ [CHR 0x27]
        @ drc_cluster_id config @ [CHR 0x27]))
     else if candidate_ttl source = Some 0
     then Inl (configuration_error (source_id source) ''candidate_ttl must be greater than zero'')
     else Inr (source_id source # ids))"

definition validate_discovery_config :: "discovery_source list \<Rightarrow> discovery_runtime_config \<Rightarrow> discovery_error + unit" where
  "validate_discovery_config providers config =
     res_bind (validate_identifier ''cluster_id'' (drc_cluster_id config)) (\<lambda>_.
     res_bind (case drc_advertised_endpoint config of
         None \<Rightarrow> Inr ()
       | Some endpoint \<Rightarrow>
           res_bind (parse_host_port True endpoint) (\<lambda>(host, port).
           res_bind (canonicalize_host_port host (max port 1)) (\<lambda>_. Inr ()))) (\<lambda>_.
     res_bind (fold_res (validate_source config) providers []) (\<lambda>_. Inr ())))"

text \<open>
  Starting: every provider is asked for a watch (\<open>None\<close> when it does not answer in time) and its snapshot
  is taken over at the time it is there. On an error all providers are shut down again.
\<close>

definition take_initial ::
    "discovery_source \<times> (discovery_error + discovery_watch) option \<times> instant
     \<Rightarrow> candidate_registry \<times> discovery_watch list \<Rightarrow> discovery_error + candidate_registry \<times> discovery_watch list" where
  "take_initial item state =
     (case item of (source, answer, now) \<Rightarrow> case state of (r, watches) \<Rightarrow>
        case answer of
          None \<Rightarrow> Inl (provider_timeout (source_id source) ''watch'')
        | Some (Inl e) \<Rightarrow> Inl e
        | Some (Inr w) \<Rightarrow>
            (case replace_snapshot now (source_id source) (watch_snapshot w) (candidate_ttl source) r of
               (_, Inl e) \<Rightarrow> Inl e
             | (r', Inr _) \<Rightarrow> Inr (r', watches @ [w])))"

datatype provider_call = ShutDownProviders

definition coordinator_start ::
    "(discovery_source \<times> (discovery_error + discovery_watch) option \<times> instant) list \<Rightarrow> discovery_runtime_config
     \<Rightarrow> provider_call list \<times> (discovery_error + (candidate_registry \<times> string list) \<times> discovery_watch list)" where
  "coordinator_start providers config =
     (case res_bind (validate_discovery_config (map fst providers) config) (\<lambda>_. registry_new (drc_max_candidates config)) of
        Inl e \<Rightarrow> ([], Inl e)
      | Inr r \<Rightarrow>
          (case fold_res take_initial providers (r, []) of
             Inl e \<Rightarrow> ([ShutDownProviders], Inl e)
           | Inr (r', watches) \<Rightarrow> ([], Inr ((r', reg_endpoints r'), watches))))"

text \<open>The endpoint to advertise, and the command that keeps the node from dialling itself.\<close>

definition configure_local_endpoint ::
    "discovery_runtime_config \<Rightarrow> ip_addr \<times> nat \<Rightarrow> discovery_error + candidate_command \<times> string option" where
  "configure_local_endpoint config bound =
     res_bind (resolve_advertised_endpoint bound (drc_advertised_endpoint config)) (\<lambda>advertised.
       let own = (if is_unspecified (fst bound) then [] else [show_socket_addr (fst bound) (snd bound)]);
           own' = (case advertised of Some e \<Rightarrow> if e \<in> set own then own else own @ [e] | None \<Rightarrow> own)
       in Inr (SetLocalEndpoints own', advertised))"

text \<open>Announcing to the providers in order: which are asked, with the answer of each (\<open>None\<close> is a timeout).\<close>

fun announce_all ::
    "string option \<Rightarrow> (discovery_source \<times> (discovery_error + unit) option) list \<Rightarrow> string list \<times> (discovery_error + unit)" where
  "announce_all advertised [] = ([], Inr ())"
| "announce_all advertised ((source, answer) # rest) =
     (case (source_support source, advertised) of
        (AnnouncementUnsupported, _) \<Rightarrow> announce_all advertised rest
      | (AnnouncementOptional, None) \<Rightarrow> announce_all advertised rest
      | (AnnouncementRequired, None) \<Rightarrow>
          ([], Inl (configuration_error (source_id source) ''a wildcard listener requires an explicit advertised endpoint''))
      | (_, Some endpoint) \<Rightarrow>
          (case answer of
             None \<Rightarrow> ([source_id source], Inl (provider_timeout (source_id source) ''announcement''))
           | Some (Inl e) \<Rightarrow> ([source_id source], Inl e)
           | Some (Inr _) \<Rightarrow> apfst ((#) (source_id source)) (announce_all advertised rest)))"

text \<open>\<open>shutdown_providers\<close>: all are shut down; the first error in the order in which they finish is returned.\<close>

fun shutdown_providers :: "(string \<times> (discovery_error + unit) option joined) list \<Rightarrow> discovery_error + unit" where
  "shutdown_providers [] = Inr ()"
| "shutdown_providers ((source, result) # rest) =
     (case result of
        Joined (Some (Inr _)) \<Rightarrow> shutdown_providers rest
      | Joined (Some (Inl e)) \<Rightarrow> Inl e
      | Joined None \<Rightarrow> Inl (provider_timeout source ''shutdown'')
      | JoinFailed e \<Rightarrow> Inl (ProviderError ''coordinator'' (''shutdown task failed: '' @ e) False))"

text \<open>
  One turn of \<open>run_provider_watch\<close>: what the watch returns, and after an error what the provider
  answers to a new subscription (\<open>None\<close> is a timeout). The result is the commands sent, and the
  task unless it ends.
\<close>

record watch_task =
  wt_watch :: discovery_watch
  wt_retry :: duration

definition command_of :: "discovery_source \<Rightarrow> discovery_change \<Rightarrow> candidate_command" where
  "command_of source change =
     (case change of
        Observed snapshot \<Rightarrow> Snapshot (source_id source) snapshot (candidate_ttl source)
      | Added endpoint \<Rightarrow> AddCandidate (source_id source) endpoint (candidate_ttl source)
      | Removed endpoint \<Rightarrow> RemoveCandidate (source_id source) endpoint
      | Replaced peers \<Rightarrow> ReplaceSource (source_id source) peers (candidate_ttl source))"

definition watch_task_turn ::
    "discovery_source \<Rightarrow> discovery_event recv_outcome \<Rightarrow> (discovery_error + discovery_watch) option \<Rightarrow> watch_task
     \<Rightarrow> candidate_command list \<times> watch_task option" where
  "watch_task_turn source outcome answer t =
     (case watch_recv outcome (wt_watch t) of
        (w, Inr event) \<Rightarrow>
          ([command_of source (event_change event)], Some \<lparr>wt_watch = w, wt_retry = DISCOVERY_RETRY_INITIAL_DELAY\<rparr>)
      | (w, Inl e) \<Rightarrow>
          let gone = SourceUnavailable (source_id source) (candidate_ttl source \<noteq> None);
              again = \<lparr>wt_watch = w, wt_retry = min (duration_saturating_mul (wt_retry t) 2) DISCOVERY_RETRY_MAX_DELAY\<rparr>
          in if \<not> discovery_error_is_retryable e then ([gone], None)
             else case answer of
               Some (Inr w') \<Rightarrow>
                 ([gone, Snapshot (source_id source) (watch_snapshot w') (candidate_ttl source)],
                  Some \<lparr>wt_watch = w', wt_retry = DISCOVERY_RETRY_INITIAL_DELAY\<rparr>)
             | Some (Inl e') \<Rightarrow> if \<not> discovery_error_is_retryable e' then ([gone], None) else ([gone], Some again)
             | None \<Rightarrow> ([gone], Some again))"

section \<open>What a registry holds\<close>

text \<open>The contribution of a source for an endpoint, the candidates a source has named, and their order.\<close>

definition contribution :: "candidate_registry \<Rightarrow> string \<Rightarrow> string \<Rightarrow> candidate_contribution option" where
  "contribution r source endpoint =
     (case om_get (reg_records r) endpoint of None \<Rightarrow> None | Some rec \<Rightarrow> om_get (record_sources rec) source)"

definition candidates_of :: "candidate_registry \<Rightarrow> string \<Rightarrow> string list" where
  "candidates_of r source = om_get_or (source_candidates r) source []"

definition listed :: "candidate_registry \<Rightarrow> string list" where
  "listed r = dedup_onto []
     (concat (map (\<lambda>source. filter (\<lambda>e. contribution r source e \<noteq> None) (candidates_of r source)) (source_order r)))"

definition locals_ok :: "candidate_registry \<Rightarrow> bool" where
  "locals_ok r \<longleftrightarrow> dom (om_get (reg_records r)) \<inter> os_set (local_endpoints r) = {}"

definition records_ok :: "candidate_registry \<Rightarrow> bool" where
  "records_ok r \<longleftrightarrow> (\<forall>e \<in> dom (om_get (reg_records r)). \<exists>source. contribution r source e \<noteq> None)"

definition named_ok :: "candidate_registry \<Rightarrow> bool" where
  "named_ok r \<longleftrightarrow> (\<forall>source e. contribution r source e \<noteq> None \<longrightarrow> source \<in> set (source_order r) \<and> e \<in> set (candidates_of r source))"

definition registry_ok :: "candidate_registry \<Rightarrow> bool" where
  "registry_ok r \<longleftrightarrow> locals_ok r \<and> records_ok r \<and> named_ok r \<and> om_len (reg_records r) \<le> max_candidates r \<and> reg_order r = listed r"

lemmas registry_parts = locals_ok_def records_ok_def named_ok_def

lemma contributes_iff: "contributes r source e \<longleftrightarrow> contribution r source e \<noteq> None"
  by (auto simp: contributes_def contribution_def om_contains_key_iff split: option.splits)

section \<open>Lemmas on the parts of operations\<close>

lemma dedup_step: "dedup_onto acc (x # xs) = dedup_onto (if x \<in> set acc then acc else acc @ [x]) xs"
  by (simp add: dedup_onto_def)

lemma dedup_nil [simp]: "dedup_onto acc [] = acc"
  by (simp add: dedup_onto_def)

lemma dedup_append: "dedup_onto acc (xs @ ys) = dedup_onto (dedup_onto acc xs) ys"
  by (simp add: dedup_onto_def)

lemma order_rebuilt [simp]: "reg_order (rebuild_order r) = listed r"
proof -
  have inner: "fold (\<lambda>e acc. if contributes r source e \<and> e \<notin> set acc then acc @ [e] else acc) es acc =
      dedup_onto acc (filter (\<lambda>e. contribution r source e \<noteq> None) es)" for source es acc
    by (induction es arbitrary: acc) (auto simp: contributes_iff dedup_step)
  have "fold (\<lambda>source acc. case om_get (source_candidates r) source of
           None \<Rightarrow> acc
         | Some candidates \<Rightarrow>
             fold (\<lambda>endpoint acc. if contributes r source endpoint \<and> endpoint \<notin> set acc then acc @ [endpoint] else acc) candidates acc)
      sources acc =
    dedup_onto acc (concat (map (\<lambda>source. filter (\<lambda>e. contribution r source e \<noteq> None) (candidates_of r source)) sources))" for sources acc
  proof (induction sources arbitrary: acc)
    case (Cons source sources)
    then show ?case
      by (cases "om_get (source_candidates r) source")
        (simp_all add: inner dedup_append candidates_of_def om_get_or_def)
  qed simp
  then show ?thesis by (simp add: rebuild_order_def listed_def)
qed

lemma rebuild_fields [simp]:
  "max_candidates (rebuild_order r) = max_candidates r" "source_order (rebuild_order r) = source_order r"
  "source_candidates (rebuild_order r) = source_candidates r" "reg_records (rebuild_order r) = reg_records r"
  "local_endpoints (rebuild_order r) = local_endpoints r"
  by (simp_all add: rebuild_order_def)

lemma views_of_fields:
  "reg_records r = reg_records q \<Longrightarrow> contribution r = contribution q"
  "source_candidates r = source_candidates q \<Longrightarrow> candidates_of r = candidates_of q"
  by (simp_all add: contribution_def candidates_of_def fun_eq_iff)

lemma rebuild_views [simp]:
  "contribution (rebuild_order r) = contribution r" "candidates_of (rebuild_order r) = candidates_of r"
  "listed (rebuild_order r) = listed r"
proof -
  show v: "contribution (rebuild_order r) = contribution r" "candidates_of (rebuild_order r) = candidates_of r"
    by (rule views_of_fields; simp)+
  show "listed (rebuild_order r) = listed r" unfolding listed_def v by simp
qed

lemma registry_ok_rebuild:
  "locals_ok r \<Longrightarrow> records_ok r \<Longrightarrow> named_ok r \<Longrightarrow> om_len (reg_records r) \<le> max_candidates r \<Longrightarrow> registry_ok (rebuild_order r)"
  by (simp add: registry_ok_def registry_parts)

lemma register_fields [simp]:
  "max_candidates (register_source s r) = max_candidates r" "reg_order (register_source s r) = reg_order r"
  "source_candidates (register_source s r) = source_candidates r" "reg_records (register_source s r) = reg_records r"
  "local_endpoints (register_source s r) = local_endpoints r" "set (source_order (register_source s r)) = insert s (set (source_order r))"
  by (auto simp: register_source_def)

lemma register_views [simp]:
  "contribution (register_source s r) = contribution r" "candidates_of (register_source s r) = candidates_of r"
  by (rule views_of_fields; simp)+

lemma prune_empty_fields [simp]:
  "max_candidates (prune_empty r) = max_candidates r" "source_order (prune_empty r) = source_order r"
  "source_candidates (prune_empty r) = source_candidates r" "local_endpoints (prune_empty r) = local_endpoints r"
  "candidates_of (prune_empty r) = candidates_of r"
  by (simp_all add: prune_empty_def candidates_of_def fun_eq_iff)

lemma om_len_zero [simp]: "om_len m = 0 \<longleftrightarrow> om_get m = Map.empty"
  by (simp add: om_len_card)

lemma prune_empty_get:
  "om_get (reg_records (prune_empty r)) e =
     (case om_get (reg_records r) e of
        Some rec \<Rightarrow> if om_get (record_sources rec) = Map.empty then None else Some rec | None \<Rightarrow> None)"
  by (auto simp: prune_empty_def om_get_filter split: option.splits)

lemma prune_empty_contribution [simp]: "contribution (prune_empty r) = contribution r"
  by (auto simp: contribution_def prune_empty_get fun_eq_iff split: option.splits)

lemma prune_empty_dom: "dom (om_get (reg_records (prune_empty r))) \<subseteq> dom (om_get (reg_records r))"
  by (auto simp: prune_empty_get split: option.splits)

lemma prune_empty_dom_iff: "e \<in> dom (om_get (reg_records (prune_empty r))) \<longleftrightarrow> (\<exists>source. contribution r source e \<noteq> None)"
  by (cases "om_get (reg_records r) e") (simp_all add: domIff prune_empty_get contribution_def fun_eq_iff)

lemma prune_empty_records_ok [simp]: "records_ok (prune_empty r)"
  unfolding records_ok_def by (intro ballI) (simp only: prune_empty_dom_iff prune_empty_contribution)

lemma contribution_dom: "contribution r source e \<noteq> None \<Longrightarrow> e \<in> dom (om_get (reg_records r))"
  by (auto simp: contribution_def split: option.splits)

lemma om_len_mono: "dom (om_get m) \<subseteq> dom (om_get n) \<Longrightarrow> om_len m \<le> om_len n"
  by (simp add: om_len_card card_mono)

lemma prune_candidates_fields [simp]:
  "max_candidates (prune_source_candidates r) = max_candidates r" "source_order (prune_source_candidates r) = source_order r"
  "reg_records (prune_source_candidates r) = reg_records r" "local_endpoints (prune_source_candidates r) = local_endpoints r"
  by (simp_all add: prune_source_candidates_def Let_def)

lemma prune_candidates_contribution [simp]: "contribution (prune_source_candidates r) = contribution r"
  by (rule views_of_fields) simp

lemma prune_candidates_of [simp]:
  "candidates_of (prune_source_candidates r) s = filter (\<lambda>e. contribution r s e \<noteq> None) (candidates_of r s)"
proof -
  have "contributes r s = (\<lambda>e. contribution r s e \<noteq> None)" by (rule ext) (rule contributes_iff)
  then show ?thesis
    by (auto simp: candidates_of_def prune_source_candidates_def Let_def om_get_or_def om_get_filter split: option.splits)
qed

lemma drop_source_fields [simp]:
  "max_candidates (drop_source s P r) = max_candidates r" "source_order (drop_source s P r) = source_order r"
  "source_candidates (drop_source s P r) = source_candidates r" "local_endpoints (drop_source s P r) = local_endpoints r"
  "candidates_of (drop_source s P r) = candidates_of r" "dom (om_get (reg_records (drop_source s P r))) = dom (om_get (reg_records r))"
  by (auto simp: drop_source_def candidates_of_def fun_eq_iff)

lemma drop_source_contribution [simp]:
  "contribution (drop_source s P r) s' e = (if s' = s \<and> P e then None else contribution r s' e)"
  by (auto simp: drop_source_def contribution_def split: option.splits)

lemma put_fields [simp]:
  "max_candidates (put_contribution s e c r) = max_candidates r" "source_order (put_contribution s e c r) = source_order r"
  "source_candidates (put_contribution s e c r) = source_candidates r" "local_endpoints (put_contribution s e c r) = local_endpoints r"
  "candidates_of (put_contribution s e c r) = candidates_of r"
  "dom (om_get (reg_records (put_contribution s e c r))) = insert e (dom (om_get (reg_records r)))"
  by (auto simp: put_contribution_def candidates_of_def fun_eq_iff Let_def)

lemma put_contribution_view [simp]:
  "contribution (put_contribution s e c r) s' e' = (if s' = s \<and> e' = e then Some c else contribution r s' e')"
  by (auto simp: put_contribution_def contribution_def record_or_default_def om_get_or_def Let_def split: option.splits)

lemma put_records_ok: "records_ok r \<Longrightarrow> records_ok (put_contribution s e c r)"
  unfolding records_ok_def put_fields put_contribution_view by (metis insertE option.distinct(1))

lemma registry_ok_pruned:
  assumes "locals_ok r" "named_ok r" "om_len (reg_records r) \<le> max_candidates r"
  shows "registry_ok (pruned r)" "contribution (pruned r) = contribution r" "max_candidates (pruned r) = max_candidates r"
    "local_endpoints (pruned r) = local_endpoints r"
proof -
  have "om_len (reg_records (prune_empty r)) \<le> max_candidates r"
    using om_len_mono [OF prune_empty_dom] assms(3) by (rule le_trans)
  moreover have "records_ok (prune_source_candidates (prune_empty r))"
    using prune_empty_records_ok [of r] by (simp add: records_ok_def)
  moreover have "locals_ok (prune_source_candidates (prune_empty r))"
    using assms(1) prune_empty_dom [of r] unfolding locals_ok_def prune_candidates_fields prune_empty_fields by blast
  moreover have "named_ok (prune_source_candidates (prune_empty r))" using assms(2) by (simp add: named_ok_def)
  ultimately show "registry_ok (pruned r)" unfolding pruned_def by (intro registry_ok_rebuild) simp_all
qed (simp_all add: pruned_def)

lemma registry_okD:
  "registry_ok r \<Longrightarrow> locals_ok r" "registry_ok r \<Longrightarrow> records_ok r" "registry_ok r \<Longrightarrow> named_ok r"
  "registry_ok r \<Longrightarrow> om_len (reg_records r) \<le> max_candidates r" "registry_ok r \<Longrightarrow> reg_order r = listed r"
  by (simp_all add: registry_ok_def)

lemma listed_set:
  "records_ok r \<Longrightarrow> named_ok r \<Longrightarrow> set (listed r) = dom (om_get (reg_records r))"
proof -
  assume ok: "records_ok r" "named_ok r"
  have "set (listed r) = (\<Union>s \<in> set (source_order r). {e \<in> set (candidates_of r s). contribution r s e \<noteq> None})"
    by (auto simp: listed_def dedup_onto_props(2))
  with ok show ?thesis unfolding records_ok_def named_ok_def using contribution_dom by blast
qed

lemma endpoints_listed: "registry_ok r \<Longrightarrow> reg_endpoints r = listed r"
  unfolding reg_endpoints_def registry_okD(5)
  by (rule filter_True) (simp add: listed_set registry_okD om_contains_key_iff)

section \<open>Effects of the operations\<close>

text \<open>What an operation leaves of a registry besides the contributions.\<close>

abbreviation same_limits :: "candidate_registry \<Rightarrow> candidate_registry \<Rightarrow> bool" where
  "same_limits r r' \<equiv> max_candidates r' = max_candidates r \<and> local_endpoints r' = local_endpoints r"

lemma remove_effect:
  assumes "registry_ok r" "remove_candidate s e r = (r', changed)"
  shows "registry_ok r' \<and> same_limits r r' \<and> contribution r' = (\<lambda>s' e'. if s' = s \<and> e' = e then None else contribution r s' e')
    \<and> changed = (reg_endpoints r' \<noteq> reg_endpoints r)"
proof -
  note ok = registry_okD [OF assms(1)]
  define r1 where "r1 = (case om_get (source_candidates r) s of
      Some candidates \<Rightarrow> r\<lparr>source_candidates := om_insert s (filter (\<lambda>c. c \<noteq> e) candidates) (source_candidates r)\<rparr> | None \<Rightarrow> r)"
  have r1: "reg_records r1 = reg_records r" "local_endpoints r1 = local_endpoints r" "max_candidates r1 = max_candidates r"
    "source_order r1 = source_order r" "candidates_of r1 s' = (if s' = s then filter (\<lambda>c. c \<noteq> e) (candidates_of r s') else candidates_of r s')" for s'
    by (auto simp: r1_def candidates_of_def om_get_or_def split: option.splits)
  have c1: "contribution r1 = contribution r" by (rule views_of_fields) (rule r1)
  let ?r2 = "drop_source s (\<lambda>e'. e' = e) r1"
  have "locals_ok ?r2" using ok(1) by (simp add: locals_ok_def r1)
  moreover have "named_ok ?r2" using ok(3) by (auto simp: named_ok_def c1 r1)
  moreover have "om_len (reg_records ?r2) \<le> max_candidates ?r2" using ok(4) by (simp add: om_len_card r1)
  ultimately show ?thesis
    using registry_ok_pruned [of ?r2] assms(2) by (auto simp: remove_candidate_def r1_def [symmetric] Let_def r1 c1 fun_eq_iff)
qed

lemma unavailable_effect:
  assumes "registry_ok r" "source_unavailable s leased r = (r', changed)"
  shows "registry_ok r' \<and> same_limits r r' \<and> changed = (reg_endpoints r' \<noteq> reg_endpoints r)
    \<and> contribution r' = (\<lambda>s' e'. if s' = s \<and> \<not> leased then None else contribution r s' e')"
proof (cases leased)
  case False
  note ok = registry_okD [OF assms(1)]
  let ?r1 = "r\<lparr>source_candidates := om_remove s (source_candidates r)\<rparr>"
  let ?r2 = "drop_source s (\<lambda>_. True) ?r1"
  have c1: "contribution ?r1 = contribution r" by (rule views_of_fields) simp
  have "locals_ok ?r2" using ok(1) by (simp add: locals_ok_def)
  moreover have "named_ok ?r2"
    using ok(3) by (auto simp: named_ok_def c1 candidates_of_def om_get_or_def)
  moreover have "om_len (reg_records ?r2) \<le> max_candidates ?r2" using ok(4) by (simp add: om_len_card)
  ultimately show ?thesis
    using registry_ok_pruned [of ?r2] assms(2) False by (auto simp: source_unavailable_def Let_def c1 fun_eq_iff)
qed (use assms in \<open>auto simp: source_unavailable_def\<close>)

lemma set_local_effect:
  assumes "registry_ok r" "set_local_endpoints es r = (r', changed)"
  shows "registry_ok r' \<and> max_candidates r' = max_candidates r \<and> os_set (local_endpoints r') = set es
    \<and> changed = (reg_endpoints r' \<noteq> reg_endpoints r)
    \<and> contribution r' = (\<lambda>s e. if e \<in> set es then None else contribution r s e)"
proof -
  note ok = registry_okD [OF assms(1)]
  let ?own = "os_extend es om_empty"
  let ?r1 = "r\<lparr>local_endpoints := ?own, reg_records := om_filter (\<lambda>e. \<not> os_member ?own e) (reg_records r)\<rparr>"
  have get: "om_get (reg_records ?r1) e = (if e \<in> set es then None else om_get (reg_records r) e)" for e by (simp add: om_get_filter)
  have c1: "contribution ?r1 = (\<lambda>s e. if e \<in> set es then None else contribution r s e)"
    by (simp add: contribution_def om_get_filter fun_eq_iff)
  have "locals_ok ?r1" by (auto simp: locals_ok_def om_get_filter)
  moreover have "records_ok ?r1"
    unfolding records_ok_def c1
  proof (intro ballI)
    fix e assume "e \<in> dom (om_get (reg_records ?r1))"
    then have "e \<notin> set es" "e \<in> dom (om_get (reg_records r))" unfolding domIff get by (auto split: if_splits)
    with ok(2) show "\<exists>source. (if e \<in> set es then None else contribution r source e) \<noteq> None" by (simp add: records_ok_def)
  qed
  moreover have "named_ok ?r1"
    using ok(3) unfolding named_ok_def c1 by (auto simp: candidates_of_def)
  moreover have "om_len (reg_records ?r1) \<le> max_candidates r"
    by (rule le_trans [OF om_len_mono ok(4)]) (auto simp: om_get_filter split: if_splits)
  ultimately have "registry_ok (rebuild_order (prune_source_candidates ?r1))"
    by (intro registry_ok_rebuild) (simp_all add: registry_parts)
  moreover have "r' = rebuild_order (prune_source_candidates ?r1)" "changed = (reg_endpoints r' \<noteq> reg_endpoints r)"
    using assms(2) by (auto simp: set_local_endpoints_def Let_def)
  ultimately show ?thesis by (simp add: c1 del: os_member_iff)
qed

lemma expire_effect:
  assumes "registry_ok r" "expire now r = (r', changed)"
  shows "registry_ok r' \<and> same_limits r r' \<and> changed = (reg_endpoints r' \<noteq> reg_endpoints r)
    \<and> contribution r' = (\<lambda>s e. case contribution r s e of Some c \<Rightarrow> if unexpired now c then Some c else None | None \<Rightarrow> None)"
proof -
  note ok = registry_okD [OF assms(1)]
  let ?r1 = "r\<lparr>reg_records := om_map (\<lambda>_ rec. rec\<lparr>record_sources :=
      om_filter (\<lambda>source. case om_get (record_sources rec) source of Some c \<Rightarrow> unexpired now c | None \<Rightarrow> False)
        (record_sources rec)\<rparr>) (reg_records r)\<rparr>"
  have c1: "contribution ?r1 = (\<lambda>s e. case contribution r s e of Some c \<Rightarrow> if unexpired now c then Some c else None | None \<Rightarrow> None)"
    by (auto simp: contribution_def om_get_filter fun_eq_iff split: option.splits)
  have dom: "dom (om_get (reg_records ?r1)) = dom (om_get (reg_records r))" by auto
  have "locals_ok ?r1" using ok(1) dom by (auto simp: locals_ok_def)
  moreover have "named_ok ?r1"
    using ok(3) unfolding named_ok_def c1 by (auto simp: candidates_of_def split: option.splits)
  moreover have "om_len (reg_records ?r1) \<le> max_candidates ?r1" using ok(4) om_len_mono [of "reg_records ?r1" "reg_records r"] dom by simp
  ultimately show ?thesis
    using registry_ok_pruned [of ?r1] assms(2) by (auto simp: expire_def Let_def c1)
qed

text \<open>Replacing what a source contributes.\<close>

lemma insertion:
  "insert_contribution s (e, c) r =
     (if e \<in> os_set (local_endpoints r) then Inr r
      else if e \<notin> dom (om_get (reg_records r)) \<and> max_candidates r \<le> om_len (reg_records r) then Inl (limit_reached r)
      else Inr (put_contribution s e c r))"
  by (simp add: insert_contribution_def om_contains_key_iff)

lemma inserted:
  "fold_res (insert_contribution s) cs r = Inr r' \<Longrightarrow> distinct (map fst cs) \<Longrightarrow> om_len (reg_records r) \<le> max_candidates r \<Longrightarrow>
     same_limits r r' \<and> source_order r' = source_order r \<and> source_candidates r' = source_candidates r
     \<and> dom (om_get (reg_records r')) = dom (om_get (reg_records r)) \<union> (fst ` set cs - os_set (local_endpoints r))
     \<and> om_len (reg_records r') \<le> max_candidates r
     \<and> contribution r' = (\<lambda>s' e. if s' = s \<and> e \<in> fst ` set cs - os_set (local_endpoints r) then map_of cs e else contribution r s' e)"
proof (induction cs arbitrary: r)
  case (Cons ec cs)
  obtain e c where ec: "ec = (e, c)" by fastforce
  let ?L = "os_set (local_endpoints r)"
  show ?case
  proof (cases "e \<in> ?L")
    case True
    then have "insert_contribution s ec r = Inr r" by (simp add: ec insert_contribution_def)
    with Cons.prems(1) have "fold_res (insert_contribution s) cs r = Inr r'" by simp
    from Cons.IH [OF this _ Cons.prems(3)] Cons.prems(2) True show ?thesis by (auto simp: ec fun_eq_iff)
  next
    case False
    let ?p = "put_contribution s e c r"
    obtain p where p: "insert_contribution s ec r = Inr p" "fold_res (insert_contribution s) cs p = Inr r'"
      using Cons.prems(1) by (auto split: sum.splits)
    then have rest: "fold_res (insert_contribution s) cs ?p = Inr r'"
      and room: "e \<in> dom (om_get (reg_records r)) \<or> om_len (reg_records r) < max_candidates r"
      using False by (auto simp: ec insertion split: if_splits)
    have "om_len (reg_records ?p) \<le> max_candidates r"
      using room Cons.prems(3) by (auto simp: om_len_card card_insert_if)
    with Cons.IH [OF rest] Cons.prems(2) have IH: "same_limits r r'" "source_order r' = source_order r" "source_candidates r' = source_candidates r"
      "dom (om_get (reg_records r')) = dom (om_get (reg_records ?p)) \<union> (fst ` set cs - ?L)" "om_len (reg_records r') \<le> max_candidates r"
      "contribution r' = (\<lambda>s' e. if s' = s \<and> e \<in> fst ` set cs - ?L then map_of cs e else contribution ?p s' e)"
      by (simp_all add: ec)
    have "e \<notin> fst ` set cs" using Cons.prems(2) by (simp add: ec)
    with IH False show ?thesis by (auto simp: ec fun_eq_iff)
  qed
qed auto

lemma insertion_fails:
  "fold_res (insert_contribution s) cs r = Inl x \<Longrightarrow>
     max_candidates r < card (dom (om_get (reg_records r)) \<union> (fst ` set cs - os_set (local_endpoints r)))"
proof (induction cs arbitrary: r)
  case (Cons ec cs)
  obtain e c where ec: "ec = (e, c)" by fastforce
  let ?L = "os_set (local_endpoints r)" and ?D = "dom (om_get (reg_records r))"
  consider (local) "e \<in> ?L" | (full) "e \<notin> ?L" "e \<notin> ?D" "max_candidates r \<le> om_len (reg_records r)"
    | (room) "e \<notin> ?L" "insert_contribution s ec r = Inr (put_contribution s e c r)"
    unfolding ec insertion by argo
  then show ?case
  proof cases
    case local
    then have "insert_contribution s ec r = Inr r" by (simp add: ec insert_contribution_def)
    with Cons local show ?thesis by (simp add: ec insert_Diff_if)
  next
    case full
    then have "max_candidates r < card (insert e ?D)" by (simp add: om_len_card)
    also have "\<dots> \<le> card (?D \<union> (fst ` set (ec # cs) - ?L))" using full by (intro card_mono) (auto simp: ec)
    finally show ?thesis .
  next
    case room
    with Cons.prems have "fold_res (insert_contribution s) cs (put_contribution s e c r) = Inl x" by simp
    from Cons.IH [OF this] room(1) show ?thesis by (simp add: ec insert_Diff_if)
  qed
qed simp

text \<open>The endpoints that other sources contribute.\<close>

definition others :: "string \<Rightarrow> candidate_registry \<Rightarrow> string set" where
  "others s r = {e. \<exists>s'. s' \<noteq> s \<and> contribution r s' e \<noteq> None}"

lemma remove_except_dom:
  assumes "registry_ok r"
  shows "dom (om_get (reg_records (remove_source_except s keep (register_source s r)))) \<union> (keep - os_set (local_endpoints r))
    = others s r \<union> (keep - os_set (local_endpoints r))"
proof -
  let ?q = "drop_source s (\<lambda>e. e \<notin> keep) (register_source s r)"
  have "dom (om_get (reg_records (prune_empty ?q))) = others s r \<union> {e \<in> keep. contribution r s e \<noteq> None}"
    unfolding set_eq_iff prune_empty_dom_iff by (auto simp: others_def split: if_splits)
  moreover have "{e \<in> keep. contribution r s e \<noteq> None} \<subseteq> keep - os_set (local_endpoints r)"
    using registry_okD(1) [OF assms] contribution_dom unfolding locals_ok_def by blast
  ultimately show ?thesis unfolding remove_source_except_def by blast
qed

lemma replace_effect:
  assumes "registry_ok r" "distinct (map fst cs)" "replace_contributions s cs r = (r', q)"
  shows "registry_ok r' \<and> same_limits r r'
    \<and> (case q of
        Inl _ \<Rightarrow> r' = r \<and> max_candidates r < card (others s r \<union> (fst ` set cs - os_set (local_endpoints r)))
      | Inr changed \<Rightarrow> changed = (reg_order r' \<noteq> reg_order r) \<and> candidates_of r' s = map fst cs
          \<and> contribution r' = (\<lambda>s' e. if s' \<noteq> s then contribution r s' e
              else if e \<in> os_set (local_endpoints r) then None else map_of cs e))"
proof -
  note ok = registry_okD [OF assms(1)]
  let ?L = "os_set (local_endpoints r)"
  let ?r1 = "remove_source_except s (fst ` set cs) (register_source s r)"
  have base: "max_candidates ?r1 = max_candidates r" "local_endpoints ?r1 = local_endpoints r" "candidates_of ?r1 = candidates_of r"
    "source_candidates ?r1 = source_candidates r" "set (source_order ?r1) = insert s (set (source_order r))"
    "contribution ?r1 = (\<lambda>s' e. if s' = s \<and> e \<notin> fst ` set cs then None else contribution r s' e)"
    by (simp_all add: remove_source_except_def fun_eq_iff)
  have dom1: "dom (om_get (reg_records ?r1)) \<subseteq> dom (om_get (reg_records r))"
    using prune_empty_dom [of "drop_source s (\<lambda>e. e \<notin> fst ` set cs) (register_source s r)"] by (simp add: remove_source_except_def)
  have size: "om_len (reg_records ?r1) \<le> max_candidates ?r1" using om_len_mono [OF dom1] ok(4) base(1) by simp
  show ?thesis
  proof (cases "fold_res (insert_contribution s) cs ?r1")
    case (Inl x)
    from insertion_fails [OF Inl] remove_except_dom [OF assms(1), of s "fst ` set cs"] assms(1,3) Inl show ?thesis
      by (auto simp: replace_contributions_def base)
  next
    case (Inr r2)
    note I = inserted [OF Inr assms(2) size, unfolded base]
    let ?r3 = "r2\<lparr>source_candidates := om_insert s (map fst cs) (source_candidates r2)\<rparr>"
    have c3: "contribution ?r3 = contribution r2" by (rule views_of_fields) simp
    have cand: "candidates_of ?r3 s' = (if s' = s then map fst cs else candidates_of r s')" for s'
      using I by (simp add: candidates_of_def om_get_or_def)
    have con: "contribution r2 = (\<lambda>s' e. if s' \<noteq> s then contribution r s' e else if e \<in> ?L then None else map_of cs e)"
    proof (intro ext)
      fix s' e
      have "contribution r s e = None" if "e \<in> ?L" using ok(1) that contribution_dom unfolding locals_ok_def by blast
      moreover have "map_of cs e = None" if "e \<notin> fst ` set cs" using that by (metis map_of_eq_None_iff)
      ultimately show "contribution r2 s' e = (if s' \<noteq> s then contribution r s' e else if e \<in> ?L then None else map_of cs e)"
        using I by (auto simp: fun_eq_iff)
    qed
    have "dom (om_get (reg_records r2)) \<inter> ?L = {}" using ok(1) dom1 I unfolding locals_ok_def by blast
    then have "locals_ok ?r3" using I by (simp add: locals_ok_def)
    moreover have "records_ok ?r3"
    proof -
      have old: "\<exists>s'. contribution ?r1 s' e \<noteq> None" if "e \<in> dom (om_get (reg_records ?r1))" for e
        using that unfolding remove_source_except_def prune_empty_dom_iff prune_empty_contribution .
      have "\<exists>s'. contribution r2 s' e \<noteq> None" if e: "e \<in> dom (om_get (reg_records r2))" for e
      proof (cases "e \<in> fst ` set cs - ?L")
        case True
        then have "map_of cs e \<noteq> None" by (simp add: map_of_eq_None_iff)
        with True con show ?thesis by (intro exI [of _ s]) simp
      next
        case False
        then have "e \<in> dom (om_get (reg_records ?r1))" using e I by blast
        from old [OF this] obtain s' where "contribution ?r1 s' e \<noteq> None" ..
        moreover have "contribution r2 s' e = contribution ?r1 s' e" using False I by (auto simp: base(6))
        ultimately show ?thesis by metis
      qed
      then show ?thesis unfolding records_ok_def c3 by simp
    qed
    moreover have "named_ok ?r3"
      using ok(3) I unfolding named_ok_def c3 con cand
      by (auto simp: base split: if_splits) (metis fst_conv imageI map_of_SomeD)
    moreover have "om_len (reg_records ?r3) \<le> max_candidates ?r3" using I by simp
    ultimately have "registry_ok (rebuild_order ?r3)" by (rule registry_ok_rebuild)
    moreover have r': "r' = rebuild_order ?r3" "q = Inr (reg_order r' \<noteq> reg_order r)"
      using assms(3) Inr by (auto simp: replace_contributions_def Let_def)
    moreover have "contribution r' = contribution r2" "candidates_of r' s = map fst cs" "same_limits r r'"
      unfolding r'(1) rebuild_views using c3 cand I by simp_all
    ultimately show ?thesis unfolding con by simp
  qed
qed

lemma add_effect:
  assumes "registry_ok r" "add_candidate now s e ttl r = (r', q)"
  shows "registry_ok r' \<and> same_limits r r'
    \<and> (case q of
        Inl _ \<Rightarrow> r' = r
      | Inr changed \<Rightarrow> changed = (reg_order r' \<noteq> reg_order r)
          \<and> contribution r' = (\<lambda>s' e'. if s' = s \<and> e' = e \<and> e \<notin> os_set (local_endpoints r)
              then Some \<lparr>lease = map_option (\<lambda>d. now + d) ttl\<rparr> else contribution r s' e'))"
proof -
  note ok = registry_okD [OF assms(1)]
  let ?L = "os_set (local_endpoints r)"
  show ?thesis
  proof (cases "e \<in> ?L")
    case True
    then show ?thesis using assms by (auto simp: add_candidate_def fun_eq_iff)
  next
    case False
    show ?thesis
    proof (cases q)
      case (Inl x)
      then have "r' = r" using assms(2) False by (auto simp: add_candidate_def Let_def split: if_splits sum.splits)
      with Inl assms(1) show ?thesis by simp
    next
      case (Inr changed)
      let ?cs = "om_get_or (source_candidates r) s []"
      define named where "named = (if e \<in> set ?cs then ?cs else ?cs @ [e])"
      let ?r2 = "(register_source s r)\<lparr>source_candidates := om_insert s named (source_candidates r)\<rparr>"
      let ?r3 = "put_contribution s e \<lparr>lease = map_option (\<lambda>d. now + d) ttl\<rparr> ?r2"
      have r': "r' = rebuild_order ?r3" "changed = (reg_order r' \<noteq> reg_order r)"
        and room: "e \<in> dom (om_get (reg_records r)) \<or> om_len (reg_records r) < max_candidates r"
        using assms(2) Inr False
        by (auto simp: add_candidate_def Let_def om_contains_key_iff instant_checked_add_def named_def split: if_splits option.splits)
      have c2: "contribution ?r2 = contribution r" by (rule views_of_fields) simp
      have cand: "candidates_of ?r3 s' = (if s' = s then named else candidates_of r s')" for s'
        by (simp add: candidates_of_def om_get_or_def)
      have "insert e (set ?cs) = set named" by (auto simp: named_def)
      then have "named_ok ?r3"
        using ok(3) unfolding named_ok_def put_fields put_contribution_view c2 cand by (auto simp: candidates_of_def)
      moreover have "locals_ok ?r3" using ok(1) False by (simp add: locals_ok_def)
      moreover have "records_ok ?r3"
        using ok(2) c2 by (intro put_records_ok) (simp add: records_ok_def)
      moreover have "om_len (reg_records ?r3) \<le> max_candidates ?r3"
        using room ok(4) by (auto simp: om_len_card card_insert_if)
      ultimately have "registry_ok (rebuild_order ?r3)" by (intro registry_ok_rebuild)
      with r' Inr False show ?thesis by (simp add: c2 fun_eq_iff)
    qed
  qed
qed

text \<open>What all operations that can fail have in common.\<close>

definition ok_outcome :: "candidate_registry \<Rightarrow> candidate_registry \<Rightarrow> discovery_error + bool \<Rightarrow> bool" where
  "ok_outcome r r' q \<longleftrightarrow> registry_ok r' \<and> same_limits r r'
     \<and> (case q of Inl _ \<Rightarrow> r' = r | Inr changed \<Rightarrow> changed = (reg_order r' \<noteq> reg_order r))"

lemma ok_refused: "registry_ok r \<Longrightarrow> ok_outcome r r (Inl e)"
  by (simp add: ok_outcome_def)

lemma replace_ok: "registry_ok r \<Longrightarrow> distinct (map fst cs) \<Longrightarrow> replace_contributions s cs r = (r', q) \<Longrightarrow> ok_outcome r r' q"
  by (drule (2) replace_effect) (cases q; auto simp: ok_outcome_def)

lemma add_ok: "registry_ok r \<Longrightarrow> add_candidate now s e ttl r = (r', q) \<Longrightarrow> ok_outcome r r' q"
  by (drule (1) add_effect) (cases q; auto simp: ok_outcome_def)

lemma canonical_distinct: "distinct (canonical_peers peers)"
proof -
  have "distinct acc \<Longrightarrow> distinct (fold (\<lambda>peer canonical. case canonicalize_endpoint peer of
       Inl _ \<Rightarrow> canonical
     | Inr endpoint \<Rightarrow> if endpoint \<in> set canonical then canonical else canonical @ [endpoint]) peers acc)" for acc
    by (induction peers arbitrary: acc) (auto split: sum.splits)
  then show ?thesis by (simp add: canonical_peers_def)
qed

lemma replace_source_ok: "registry_ok r \<Longrightarrow> replace_source now s peers ttl r = (r', q) \<Longrightarrow> ok_outcome r r' q"
  using replace_ok [of r "map (\<lambda>e. (e, \<lparr>lease = l\<rparr>)) (canonical_peers peers)" for l] ok_refused canonical_distinct [of peers]
  unfolding replace_source_def Let_def by (fastforce simp: comp_def split: if_splits sum.splits)

section \<open>Observed snapshots\<close>

text \<open>The observations in a snapshot that count: of valid endpoints, and not expired.\<close>

definition live_observations :: "instant \<Rightarrow> duration option \<Rightarrow> (string \<times> instant) list \<Rightarrow> (string \<times> instant) list" where
  "live_observations now ttl zs =
     List.map_filter (\<lambda>(peer, t). case canonicalize_endpoint peer of
         Inl _ \<Rightarrow> None
       | Inr e \<Rightarrow> if (case ttl of Some d \<Rightarrow> t + d > now | None \<Rightarrow> True) then Some (e, t) else None) zs"

definition newest_lease :: "duration option \<Rightarrow> (string \<times> instant) list \<Rightarrow> string \<Rightarrow> candidate_contribution option" where
  "newest_lease ttl observations e =
     (let ts = {t. (e, t) \<in> set observations}
      in if ts = {} then None else Some \<lparr>lease = map_option (\<lambda>d. Max ts + d) ttl\<rparr>)"

lemma renew_fst: "map fst (renew e l cs) = dedup_onto (map fst cs) [e]"
  by (auto simp: renew_def dedup_step comp_def case_prod_unfold)

lemma renew_get:
  "map_of (renew e l cs) e' =
     (if e' = e then Some \<lparr>lease = (case map_of cs e of None \<Rightarrow> l | Some c \<Rightarrow> option_max (lease c) l)\<rparr> else map_of cs e')"
proof -
  have upd: "map_of (map (\<lambda>(k, c). (k, if k = e then c\<lparr>lease := option_max (lease c) l\<rparr> else c)) cs) e' =
      map_option (\<lambda>c. if e' = e then c\<lparr>lease := option_max (lease c) l\<rparr> else c) (map_of cs e')"
    by (induction cs) auto
  show ?thesis
  proof (cases "e \<in> fst ` set cs")
    case True
    then obtain c where c: "map_of cs e = Some c" by (metis map_of_eq_None_iff not_None_eq)
    have "c\<lparr>lease := x\<rparr> = \<lparr>lease = x\<rparr>" for x by (cases c) simp
    with c True upd show ?thesis by (cases "map_of cs e'") (auto simp: renew_def)
  next
    case False
    then have "map_of cs e = None" by (simp add: map_of_eq_None_iff)
    with False show ?thesis by (auto simp: renew_def map_add_def split: option.splits)
  qed
qed

lemma newest_snoc:
  "newest_lease ttl (os @ [(e, t)]) e' =
     (if e' = e then Some \<lparr>lease = (case newest_lease ttl os e of
          None \<Rightarrow> map_option (\<lambda>d. t + d) ttl | Some c \<Rightarrow> option_max (lease c) (map_option (\<lambda>d. t + d) ttl))\<rparr>
      else newest_lease ttl os e')"
proof (cases "e' = e")
  case True
  let ?ts = "{u. (e, u) \<in> set os}"
  have fin: "finite ?ts" by (rule finite_subset [of _ "snd ` set os"]) force+
  have ins: "{u. (e, u) \<in> set (os @ [(e, t)])} = insert t ?ts" by auto
  show ?thesis
  proof (cases "?ts = {}")
    case False
    then have "Max (insert t ?ts) + d = max (Max ?ts + d) (t + d)" for d using fin by (simp add: max.commute nat_add_max_left)
    with True False ins show ?thesis by (cases ttl) (auto simp: newest_lease_def Let_def)
  qed (use True ins in \<open>cases ttl; auto simp: newest_lease_def Let_def\<close>)
qed (simp add: newest_lease_def)

lemma observed_contributions:
  "fold_res (observe_candidate now s ttl) zs [] = Inr cs \<Longrightarrow>
     map fst cs = dedup_onto [] (map fst (live_observations now ttl zs)) \<and> map_of cs = newest_lease ttl (live_observations now ttl zs)"
proof (induction zs arbitrary: cs rule: rev_induct)
  case Nil
  then show ?case by (simp add: live_observations_def List.map_filter_simps newest_lease_def fun_eq_iff)
next
  case (snoc z zs)
  obtain p t where z: "z = (p, t)" by fastforce
  from snoc.prems obtain ds where run: "fold_res (observe_candidate now s ttl) zs [] = Inr ds" "fold_res (observe_candidate now s ttl) [z] ds = Inr cs"
    unfolding fold_res_append res_bind_Inr_iff by blast
  then have ds: "fold_res (observe_candidate now s ttl) zs [] = Inr ds" "observe_candidate now s ttl z ds = Inr cs"
    by (cases "observe_candidate now s ttl z ds"; simp)+
  note IH = snoc.IH [OF ds(1)]
  have app: "live_observations now ttl (zs @ [z]) = live_observations now ttl zs @ live_observations now ttl [z]"
    by (simp add: live_observations_def List.map_filter_def)
  show ?case
  proof (cases "live_observations now ttl [z]")
    case Nil
    then have "cs = ds"
      using ds(2) by (auto simp: z observe_candidate_def live_observations_def List.map_filter_simps instant_checked_add_def
        split: option.splits sum.splits if_splits)
    with Nil app IH show ?thesis by simp
  next
    case (Cons et rest)
    then obtain e where e: "canonicalize_endpoint p = Inr e" "et = (e, t)" "rest = []" "\<forall>d. ttl = Some d \<longrightarrow> t + d > now"
      by (auto simp: z live_observations_def List.map_filter_simps split: option.splits sum.splits if_splits)
    then have cs: "cs = renew e (map_option (\<lambda>d. t + d) ttl) ds"
      using ds(2) by (auto simp: z observe_candidate_def instant_checked_add_def split: option.splits if_splits)
    have "map fst cs = dedup_onto [] (map fst (live_observations now ttl (zs @ [z])))"
      unfolding cs app Cons e renew_fst using IH by (simp add: dedup_append)
    moreover have "map_of cs = newest_lease ttl (live_observations now ttl (zs @ [z]))"
      unfolding cs app Cons e by (rule ext) (simp add: renew_get newest_snoc IH)
    ultimately show ?thesis ..
  qed
qed

lemma observations_accepted:
  "\<forall>(p, t) \<in> set zs. \<forall>d. ttl = Some d \<longrightarrow> t + d \<le> INSTANT_MAX \<Longrightarrow> \<exists>cs. fold_res (observe_candidate now s ttl) zs acc = Inr cs"
proof (induction zs arbitrary: acc)
  case (Cons z zs)
  obtain p t where z: "z = (p, t)" by fastforce
  have "\<exists>acc'. observe_candidate now s ttl z acc = Inr acc'"
    using Cons.prems by (auto simp: z observe_candidate_def instant_checked_add_def split: option.splits sum.splits)
  with Cons show ?case by auto
qed simp

lemma replace_snapshot_ok:
  assumes "registry_ok r" "replace_snapshot now s sn ttl r = (r', q)"
  shows "ok_outcome r r' q"
proof (cases "snap_observations sn")
  case None
  with assms replace_source_ok show ?thesis by (auto simp: replace_snapshot_def)
next
  case (Some obs)
  have "distinct (map fst cs)" if "fold_res (observe_candidate now s ttl) (zip (snap_peers sn) obs) [] = Inr cs" for cs
    using observed_contributions [OF that] by (simp add: dedup_onto_props(1))
  with assms Some replace_ok [OF assms(1)] ok_refused [OF assms(1)] show ?thesis
    by (auto simp: replace_snapshot_def split: if_splits sum.splits)
qed

section \<open>Runs of the coordinator\<close>

lemma registry_new_ok: "registry_new n = Inr r \<Longrightarrow> registry_ok r \<and> max_candidates r = n \<and> local_endpoints r = om_empty"
  by (auto simp: registry_new_def registry_ok_def registry_parts contribution_def listed_def om_len_card split: if_splits)

lemma take_initial_ok:
  "registry_ok r \<Longrightarrow> take_initial item (r, ws) = Inr (r', ws') \<Longrightarrow> registry_ok r' \<and> same_limits r r'"
  by (auto simp: take_initial_def ok_outcome_def dest!: replace_snapshot_ok split: prod.splits option.splits sum.splits)

lemma take_all_ok:
  "registry_ok r \<Longrightarrow> fold_res take_initial items (r, ws) = Inr (r', ws') \<Longrightarrow> registry_ok r' \<and> same_limits r r'"
proof (induction items arbitrary: r ws)
  case (Cons item items)
  then obtain r1 ws1 where one: "take_initial item (r, ws) = Inr (r1, ws1)" "fold_res take_initial items (r1, ws1) = Inr (r', ws')"
    by (auto split: sum.splits)
  from take_initial_ok [OF Cons.prems(1) one(1)] Cons.IH [OF _ one(2)] show ?case by auto
qed simp

lemma start_ok:
  assumes "coordinator_start providers config = (calls, Inr ((r, published), watches))"
  shows "registry_ok r \<and> published = reg_endpoints r \<and> max_candidates r = drc_max_candidates config"
proof -
  from assms obtain r0 where new: "registry_new (drc_max_candidates config) = Inr r0"
    and run: "fold_res take_initial providers (r0, []) = Inr (r, watches)" and pub: "published = reg_endpoints r"
    by (auto simp: coordinator_start_def res_bind_def split: sum.splits)
  from registry_new_ok [OF new] take_all_ok [OF _ run] pub show ?thesis by simp
qed

text \<open>An operation that keeps a registry well-formed and says rightly whether the candidates changed.\<close>

definition told :: "candidate_registry \<Rightarrow> candidate_registry \<times> bool \<Rightarrow> bool" where
  "told r rc \<longleftrightarrow> registry_ok (fst rc) \<and> max_candidates (fst rc) = max_candidates r \<and> snd rc = (reg_endpoints (fst rc) \<noteq> reg_endpoints r)"

lemma told_or_false: "ok_outcome r (fst rq) (snd rq) \<Longrightarrow> registry_ok r \<Longrightarrow> told r (or_false rq)"
  by (auto simp: ok_outcome_def or_false_def told_def endpoints_listed registry_okD(5) split: sum.splits)

lemma told_ops:
  assumes "registry_ok r"
  shows "told r (r, False)" "told r (remove_candidate s e r)" "told r (source_unavailable s leased r)" "told r (set_local_endpoints es r)"
    "told r (expire now r)" "told r (or_false (replace_snapshot now s sn ttl r))" "told r (or_false (replace_source now s peers ttl r))"
    "told r (or_false (add_candidate now s e ttl r))"
proof -
  note pair = prod.collapse [symmetric]
  show "told r (r, False)" using assms by (simp add: told_def)
  show "told r (remove_candidate s e r)" using remove_effect [OF assms pair, of s e] by (simp add: told_def)
  show "told r (source_unavailable s leased r)" using unavailable_effect [OF assms pair, of s leased] by (simp add: told_def)
  show "told r (set_local_endpoints es r)" using set_local_effect [OF assms pair, of es] by (simp add: told_def)
  show "told r (expire now r)" using expire_effect [OF assms pair, of now] by (simp add: told_def)
  show "told r (or_false (replace_snapshot now s sn ttl r))" using replace_snapshot_ok [OF assms pair] told_or_false assms by blast
  show "told r (or_false (replace_source now s peers ttl r))" using replace_source_ok [OF assms pair] told_or_false assms by blast
  show "told r (or_false (add_candidate now s e ttl r))" using add_ok [OF assms pair] told_or_false assms by blast
qed

lemma turn_ok:
  assumes "registry_ok r" "coordinator_turn input (r, reg_endpoints r) = (r', published)"
  shows "registry_ok r' \<and> published = reg_endpoints r' \<and> max_candidates r' = max_candidates r"
proof -
  have "told r (apply_candidate_command now command r)" for now command
    using told_ops [OF assms(1)] by (cases command) (auto split: sum.splits)
  then have "told r (case input of
        CommandArrives now (SetLocalEndpoints endpoints) \<Rightarrow> set_local_endpoints endpoints r
      | CommandArrives now command \<Rightarrow> apply_candidate_command now command r
      | ExpiryDue now \<Rightarrow> expire now r)"
    using told_ops [OF assms(1)] by (auto split: coordinator_input.splits candidate_command.splits sum.splits)
  with assms(2) show ?thesis by (auto simp: coordinator_turn_def told_def split: prod.splits if_splits)
qed

lemma coordinator_run_ok:
  assumes "registry_ok r" "fold coordinator_turn inputs (r, reg_endpoints r) = (r', published)"
  shows "registry_ok r' \<and> published = reg_endpoints r' \<and> max_candidates r' = max_candidates r"
  using assms
proof (induction inputs arbitrary: r)
  case (Cons input inputs)
  obtain r1 p1 where one: "coordinator_turn input (r, reg_endpoints r) = (r1, p1)" by fastforce
  with turn_ok [OF Cons.prems(1) one] Cons.prems(2) Cons.IH [of r1] show ?case by auto
qed auto

section \<open>Properties of the coordinator\<close>

text \<open>
  C23. The published candidates are exact: after a start with any providers and after any commands and expiries,
  they are the endpoints with a contribution, ordered by source in the order the sources came and
  within a source as it named them, each once, never one of the node's own endpoints and never more than
  configured.
\<close>

theorem published_candidates_exact:
  assumes "coordinator_start providers config = (calls, Inr (state, watches))" "fold coordinator_turn inputs state = (r, published)"
  shows "published = dedup_onto []
      (concat (map (\<lambda>source. filter (\<lambda>e. contribution r source e \<noteq> None) (candidates_of r source)) (source_order r)))
    \<and> set published = {e. \<exists>source. contribution r source e \<noteq> None} \<and> distinct published
    \<and> set published \<inter> os_set (local_endpoints r) = {} \<and> length published \<le> drc_max_candidates config"
proof -
  obtain r0 p0 where state: "state = (r0, p0)" by fastforce
  note start = start_ok [OF assms(1) [unfolded state]]
  have ok: "registry_ok r" "published = reg_endpoints r" "max_candidates r = drc_max_candidates config"
    using coordinator_run_ok [of r0 inputs r published] start assms(2) state by auto
  have listed: "published = listed r" using ok endpoints_listed by simp
  have set: "set published = dom (om_get (reg_records r))" using listed listed_set registry_okD [OF ok(1)] by simp
  have dist: "distinct published" unfolding listed listed_def by (simp add: dedup_onto_props(1))
  have "length published = om_len (reg_records r)" using distinct_card [OF dist] set by (simp add: om_len_card)
  then have "length published \<le> drc_max_candidates config" using registry_okD(4) [OF ok(1)] ok(3) by simp
  moreover have "dom (om_get (reg_records r)) = {e. \<exists>source. contribution r source e \<noteq> None}"
    using registry_okD(2) [OF ok(1)] contribution_dom unfolding records_ok_def by blast
  ultimately show ?thesis using set dist listed registry_okD(1) [OF ok(1)] by (simp add: listed_def locals_ok_def)
qed

text \<open>
  C24. An observed snapshot replaces exactly what its source contributes: afterwards the source contributes
  the valid endpoints that are observed and not expired, each with the lease of its newest observation,
  the node's own endpoints excepted, and what other sources contribute is as before. A snapshot is refused
  only when it is longer than the limit, when a lease cannot be represented, or when the
  endpoints of all sources together would exceed the limit, and then nothing changes.
\<close>

theorem candidate_snapshot_exact:
  assumes "coordinator_start providers config = (calls, Inr (state, watches))" "fold coordinator_turn inputs state = (r, published)"
    and "snap_observations sn = Some obs" "replace_snapshot now s sn ttl r = (r', q)"
  defines "live \<equiv> live_observations now ttl (zip (snap_peers sn) obs)"
  shows "case q of
      Inl _ \<Rightarrow> r' = r \<and> (length (snap_peers sn) > drc_max_candidates config
        \<or> (\<exists>t \<in> set obs. \<exists>d. ttl = Some d \<and> INSTANT_MAX < t + d)
        \<or> card (others s r \<union> (fst ` set live - os_set (local_endpoints r))) > drc_max_candidates config)
    | Inr _ \<Rightarrow> candidates_of r' s = dedup_onto [] (map fst live) \<and> local_endpoints r' = local_endpoints r
        \<and> (\<forall>s' e. contribution r' s' e =
            (if s' \<noteq> s then contribution r s' e else if e \<in> os_set (local_endpoints r) then None else newest_lease ttl live e))"
proof -
  obtain r0 p0 where state: "state = (r0, p0)" by fastforce
  have ok: "registry_ok r" "max_candidates r = drc_max_candidates config"
    using coordinator_run_ok [of r0 inputs r published] start_ok [OF assms(1) [unfolded state]] assms(2) state by auto
  consider (long) "length (snap_peers sn) > drc_max_candidates config"
    | (time) e where "fold_res (observe_candidate now s ttl) (zip (snap_peers sn) obs) [] = Inl e"
    | (accepted) cs where "\<not> length (snap_peers sn) > drc_max_candidates config"
        "fold_res (observe_candidate now s ttl) (zip (snap_peers sn) obs) [] = Inr cs" by (metis sum.exhaust)
  then show ?thesis
  proof cases
    case long
    then show ?thesis using assms(3,4) ok by (auto simp: replace_snapshot_def)
  next
    case (time e)
    have "\<not> (\<forall>(p, t) \<in> set (zip (snap_peers sn) obs). \<forall>d. ttl = Some d \<longrightarrow> t + d \<le> INSTANT_MAX)"
    proof
      assume "\<forall>(p, t) \<in> set (zip (snap_peers sn) obs). \<forall>d. ttl = Some d \<longrightarrow> t + d \<le> INSTANT_MAX"
      from observations_accepted [OF this, of now s "[]"] time show False by simp
    qed
    then have "\<exists>t \<in> set obs. \<exists>d. ttl = Some d \<and> INSTANT_MAX < t + d" by (force dest: set_zip_rightD)
    then show ?thesis using assms(3,4) time by (auto simp: replace_snapshot_def split: if_splits)
  next
    case (accepted cs)
    note O = observed_contributions [OF accepted(2), folded live_def]
    have "set (map fst cs) = set (map fst live)" using O dedup_onto_props(2) [of "[]" "map fst live"] by simp
    then have "fst ` set cs = fst ` set live" by simp
    moreover have "replace_contributions s cs r = (r', q)" using assms(3,4) accepted ok(2) by (simp add: replace_snapshot_def)
    from replace_effect [OF ok(1) _ this] O have
      "same_limits r r' \<and> (case q of
        Inl _ \<Rightarrow> r' = r \<and> max_candidates r < card (others s r \<union> (fst ` set cs - os_set (local_endpoints r)))
      | Inr changed \<Rightarrow> changed = (reg_order r' \<noteq> reg_order r) \<and> candidates_of r' s = map fst cs
          \<and> contribution r' = (\<lambda>s' e. if s' \<noteq> s then contribution r s' e
              else if e \<in> os_set (local_endpoints r) then None else map_of cs e))" by (simp add: dedup_onto_props(1))
    ultimately show ?thesis using O ok(2) by (cases q) simp_all
  qed
qed

lemma deadlines_set: "set (deadlines r) = {t. \<exists>s e c. contribution r s e = Some c \<and> lease c = Some t}"
proof -
  have "t \<in> set (deadlines r) \<longleftrightarrow> (\<exists>s e c. contribution r s e = Some c \<and> lease c = Some t)" for t
  proof -
    have "t \<in> set (deadlines r) \<longleftrightarrow>
        (\<exists>e rec s c. (e, rec) \<in> set (om_entries (reg_records r)) \<and> (s, c) \<in> set (om_entries (record_sources rec)) \<and> lease c = Some t)"
      unfolding deadlines_def in_set_map_filter om_values_def by force
    also have "\<dots> \<longleftrightarrow> (\<exists>s e c. contribution r s e = Some c \<and> lease c = Some t)"
      unfolding om_in_entries contribution_def by (auto split: option.splits) (metis option.inject)+
    finally show ?thesis .
  qed
  then show ?thesis by blast
qed

lemma next_expiry_least:
  "next_expiry r = Some t \<Longrightarrow> (\<exists>s e c. contribution r s e = Some c \<and> lease c = Some t)
     \<and> (\<forall>s e c u. contribution r s e = Some c \<and> lease c = Some u \<longrightarrow> t \<le> u)"
proof -
  assume "next_expiry r = Some t"
  then have ne: "set (deadlines r) \<noteq> {}" and t: "t = Min (set (deadlines r))" by (auto simp: next_expiry_def split: if_splits)
  have "t \<in> set (deadlines r)" unfolding t using ne by (intro Min_in) auto
  moreover have "\<forall>u \<in> set (deadlines r). t \<le> u" unfolding t by simp
  ultimately show ?thesis unfolding deadlines_set by blast
qed

lemma next_expiry_none: "next_expiry r = None \<longleftrightarrow> (\<forall>s e c. contribution r s e = Some c \<longrightarrow> lease c = None)"
proof -
  have "next_expiry r = None \<longleftrightarrow> set (deadlines r) = {}" by (simp add: next_expiry_def)
  then show ?thesis unfolding deadlines_set by (auto, metis option.exhaust)
qed

lemma listed_pruned: "listed (pruned r) = listed r"
  by (simp add: listed_def pruned_def)

lemma expire_listed: "contribution (fst (expire now r)) = contribution r \<Longrightarrow> listed (fst (expire now r)) = listed r"
  unfolding expire_def Let_def fst_conv listed_pruned
  by (simp add: listed_def candidates_of_def pruned_def)

text \<open>
  C25. Leases are kept exactly: an expiry at some time ends the contributions whose deadline has passed and no
  others, and no deadline that has passed is left. The coordinator wakes up at the least deadline, so
  nothing is due earlier: before it an expiry changes nothing, and at it at least one contribution ends.
\<close>

theorem candidate_leases_exact:
  assumes "coordinator_start providers config = (calls, Inr (state, watches))" "fold coordinator_turn inputs state = (r, published)"
    and "expire now r = (r', changed)"
  shows "(\<forall>s e c. contribution r' s e = Some c \<longleftrightarrow> contribution r s e = Some c \<and> (\<forall>t. lease c = Some t \<longrightarrow> now < t))
    \<and> (\<forall>t. next_expiry r' = Some t \<longrightarrow> now < t)
    \<and> ((\<forall>t. next_expiry r = Some t \<longrightarrow> now < t) \<longrightarrow> contribution r' = contribution r \<and> \<not> changed)
    \<and> (\<forall>t. next_expiry r = Some t \<and> t \<le> now \<longrightarrow> (\<exists>s e. contribution r s e \<noteq> None \<and> contribution r' s e = None))"
proof -
  obtain r0 p0 where state: "state = (r0, p0)" by fastforce
  have ok: "registry_ok r" using coordinator_run_ok [of r0 inputs r published] start_ok [OF assms(1) [unfolded state]] assms(2) state by auto
  note E = expire_effect [OF ok assms(3)]
  have con: "contribution r' s e = Some c \<longleftrightarrow> contribution r s e = Some c \<and> (\<forall>t. lease c = Some t \<longrightarrow> now < t)" for s e c
    using E by (auto simp: unexpired_def split: option.splits if_splits)
  have kept: "now < t" if "next_expiry r' = Some t" for t using next_expiry_least [OF that] con by blast
  have "contribution r' = contribution r \<and> \<not> changed" if before: "\<forall>t. next_expiry r = Some t \<longrightarrow> now < t"
  proof -
    have "now < u" if "contribution r s e = Some c" "lease c = Some u" for s e c u
    proof (cases "next_expiry r")
      case None
      with that show ?thesis unfolding next_expiry_none by auto
    next
      case (Some t)
      with next_expiry_least [OF Some] before that show ?thesis by fastforce
    qed
    then have "contribution r' s e = contribution r s e" for s e
      using con [of s e] by (cases "contribution r s e"; cases "contribution r' s e") (auto, metis)
    then have same: "contribution r' = contribution r" by blast
    with expire_listed [of now r] assms(3) have "listed r' = listed r" by simp
    with same E ok show ?thesis by (simp add: endpoints_listed)
  qed
  moreover have "\<exists>s e. contribution r s e \<noteq> None \<and> contribution r' s e = None" if "next_expiry r = Some t" "t \<le> now" for t
  proof -
    from next_expiry_least [OF that(1)] obtain s e c where c: "contribution r s e = Some c" "lease c = Some t" by blast
    then have "contribution r' s e \<noteq> Some d" for d using con [of s e d] that(2) by auto
    with c show ?thesis by (metis not_None_eq)
  qed
  ultimately show ?thesis using con kept by blast
qed

text \<open>The source a command comes from.\<close>

fun command_source :: "candidate_command \<Rightarrow> string option" where
  "command_source (Snapshot s _ _) = Some s"
| "command_source (ReplaceSource s _ _) = Some s"
| "command_source (AddCandidate s _ _) = Some s"
| "command_source (RemoveCandidate s _) = Some s"
| "command_source (SourceUnavailable s _) = Some s"
| "command_source (SetLocalEndpoints _) = None"

lemma replace_isolated:
  assumes "registry_ok r" "distinct (map fst cs)" "s' \<noteq> s"
  shows "contribution (fst (replace_contributions s cs r)) s' = contribution r s'"
  using replace_effect [OF assms(1,2) prod.collapse [symmetric], of s] assms(3)
  by (cases "snd (replace_contributions s cs r)") (simp_all add: fun_eq_iff)

lemma replacements_isolated:
  assumes "registry_ok r" "s' \<noteq> s"
  shows "contribution (fst (replace_source now s peers ttl r)) s' = contribution r s'"
    "contribution (fst (replace_snapshot now s sn ttl r)) s' = contribution r s'"
    "contribution (fst (add_candidate now s e ttl r)) s' = contribution r s'"
proof -
  have canonical: "distinct (map fst (map (\<lambda>e. (e, \<lparr>lease = l\<rparr>)) (canonical_peers peers)))" for l peers
    using canonical_distinct [of peers] by (simp add: comp_def)
  show source: "contribution (fst (replace_source now s peers ttl r)) s' = contribution r s'" for peers
    using replace_isolated [OF assms(1) canonical assms(2)] by (auto simp: replace_source_def Let_def split: sum.splits)
  have "distinct (map fst cs)" if "fold_res (observe_candidate now s ttl) zs [] = Inr cs" for cs zs
    using observed_contributions [OF that] by (simp add: dedup_onto_props(1))
  then show "contribution (fst (replace_snapshot now s sn ttl r)) s' = contribution r s'"
    using replace_isolated [OF assms(1) _ assms(2)] source by (auto simp: replace_snapshot_def split: option.splits sum.splits)
  show "contribution (fst (add_candidate now s e ttl r)) s' = contribution r s'"
    using add_effect [OF assms(1) prod.collapse [symmetric], of now s e ttl] assms(2)
    by (cases "snd (add_candidate now s e ttl r)") (simp_all add: fun_eq_iff)
qed

text \<open>
  Sources are isolated: a command of one source leaves what every other source contributes as it
  was. When a source without leases becomes unavailable all it contributed ends; one with leases keeps its contributions
  until they expire; a removed candidate is no longer contributed by that source.
\<close>

theorem candidate_sources_isolated:
  assumes "coordinator_start providers config = (calls, Inr (state, watches))" "fold coordinator_turn inputs state = (r, published)"
    and "apply_candidate_command now command r = (r', changed)"
  shows "(\<forall>s. command_source command \<noteq> Some s \<longrightarrow> contribution r' s = contribution r s)
    \<and> (\<forall>s. command = SourceUnavailable s True \<longrightarrow> r' = r)
    \<and> (\<forall>s e. command = SourceUnavailable s False \<longrightarrow> contribution r' s e = None)
    \<and> (\<forall>s p e. command = RemoveCandidate s p \<and> canonicalize_endpoint p = Inr e \<longrightarrow> contribution r' s e = None)"
proof -
  obtain r0 p0 where state: "state = (r0, p0)" by fastforce
  have ok: "registry_ok r" using coordinator_run_ok [of r0 inputs r published] start_ok [OF assms(1) [unfolded state]] assms(2) state by auto
  note pair = prod.collapse [symmetric]
  have r': "r' = fst (apply_candidate_command now command r)" using assms(3) by simp
  have remove: "contribution (fst (remove_candidate s e r)) = (\<lambda>s' e'. if s' = s \<and> e' = e then None else contribution r s' e')" for s e
    using remove_effect [OF ok pair] by blast
  have unavailable: "contribution (fst (source_unavailable s leased r)) = (\<lambda>s' e'. if s' = s \<and> \<not> leased then None else contribution r s' e')"
    for s leased using unavailable_effect [OF ok pair] by blast
  have leased: "fst (source_unavailable s True r) = r" for s by (simp add: source_unavailable_def)
  show ?thesis
    unfolding r' using replacements_isolated [OF ok]
    by (cases command) (auto simp: or_false_def remove unavailable leased fun_eq_iff split: sum.splits)
qed

section \<open>A coordinator with one provider\<close>

definition example_source :: discovery_source where
  "example_source = \<lparr>source_id = ''s'', source_cluster = ''default'', candidate_ttl = Some 10, source_support = AnnouncementUnsupported\<rparr>"

definition example_watch :: discovery_watch where
  "example_watch = watch_new (snapshot_observed 0 [(''Seed:1'', 5)])"

definition example_empty :: candidate_registry where
  "example_empty = \<lparr>max_candidates = DEFAULT_MAX_PEER_CANDIDATES, reg_order = [], source_order = [], source_candidates = om_empty,
     reg_records = om_empty, local_endpoints = om_empty\<rparr>"

definition example_registry :: candidate_registry where
  "example_registry = \<lparr>max_candidates = DEFAULT_MAX_PEER_CANDIDATES, reg_order = [''seed:1''], source_order = [''s''],
     source_candidates = om_insert ''s'' [''seed:1''] om_empty,
     reg_records = om_insert ''seed:1'' \<lparr>record_sources = om_insert ''s'' \<lparr>lease = Some 15\<rparr> om_empty\<rparr> om_empty,
     local_endpoints = om_empty\<rparr>"

lemma example_canonical: "canonicalize_endpoint ''Seed:1'' = Inr ''seed:1''"
proof -
  have v4: "read_ipv4_addr ''Seed:1'' = None"
    by (simp add: read_ipv4_addr_def read_separated_def read_number_def digit_of_def is_digit_def numeral_eq_Suc)
  have addr: "parse_socket_addr ''Seed:1'' = None" by (simp add: parse_socket_addr_def v4)
  have split: "rsplit_once CHR '':'' ''Seed:1'' = Some (''Seed'', ''1'')" by (simp add: rsplit_once_def)
  have dot: "strip_final_dot ''Seed'' = ''Seed''" by (simp add: strip_final_dot_def)
  have name: "valid_peer_name ''Seed''" by code_simp
  have lower: "to_ascii_lowercase ''Seed'' = ''seed''" "to_ascii_lowercase ''seed'' = ''seed''" by code_simp+
  have port: "parse_u16 ''1'' = Some 1" by (simp add: parse_u16_def digits_value_def is_digit_def)
  have trim: "trimmed ''Seed:1''"
    using trimmed_ends [of "CHR ''S''" "CHR ''1''" "''eed:''"] by (simp add: is_alphanumeric_def is_upper_def is_digit_def)
  have ip: "parse_ip ''seed'' = None" by (rule parse_ip_name) (simp_all add: digit_of_def is_digit_def)
  have shown: "show_nat 1 = ''1''" unfolding show_nat_def by code_simp
  have "parse_host_port False ''Seed:1'' = Inr (''seed'', 1)"
    unfolding parse_host_port_def Let_def addr split by (simp add: dot name lower port trim)
  then show ?thesis by (simp add: canonicalize_endpoint_def canonicalize_host_port_def ip lower shown [simplified])
qed

lemma example_valid: "validate_discovery_config [example_source] discovery_runtime_config_default = Inr ()"
  by code_simp

lemma example_views:
  "contribution example_registry s e = (if s = ''s'' \<and> e = ''seed:1'' then Some \<lparr>lease = Some 15\<rparr> else None)"
  "next_expiry example_registry = Some 15" "reg_endpoints example_registry = [''seed:1'']"
  by (simp_all add: example_registry_def contribution_def next_expiry_def deadlines_def om_values_def map_filter_def
      reg_endpoints_def om_contains_key_iff)

lemma example_taken:
  "replace_snapshot 6 ''s'' (snapshot_observed 0 [(''Seed:1'', 5)]) (Some 10) example_empty = (example_registry, Inr True)"
proof -
  have none: "om_filter p om_empty = om_empty" "om_map f om_empty = om_empty" for p :: "string \<Rightarrow> bool" and f :: "string \<Rightarrow> candidate_record \<Rightarrow> candidate_record"
    by (rule om_ext; simp add: om_get_filter fun_eq_iff)+
  have removed: "remove_source_except ''s'' es (register_source ''s'' example_empty) = example_empty\<lparr>source_order := [''s'']\<rparr>" for es
    by (simp add: remove_source_except_def register_source_def drop_source_def prune_empty_def example_empty_def none)
  have observed: "fold_res (observe_candidate 6 ''s'' (Some 10)) [(''Seed:1'', 5)] [] = Inr [(''seed:1'', \<lparr>lease = Some 15\<rparr>)]"
    by (simp add: observe_candidate_def example_canonical renew_def instant_checked_add_def INSTANT_MAX_def)
  have inserted: "insert_contribution ''s'' (''seed:1'', \<lparr>lease = Some 15\<rparr>) (example_empty\<lparr>source_order := [''s'']\<rparr>)
      = Inr (put_contribution ''s'' ''seed:1'' \<lparr>lease = Some 15\<rparr> (example_empty\<lparr>source_order := [''s'']\<rparr>))"
    by (simp add: insert_contribution_def example_empty_def DEFAULT_MAX_PEER_CANDIDATES_def om_len_def)
  have rebuilt: "rebuild_order (put_contribution ''s'' ''seed:1'' \<lparr>lease = Some 15\<rparr> (example_empty\<lparr>source_order := [''s'']\<rparr>)
      \<lparr>source_candidates := om_insert ''s'' [''seed:1''] om_empty\<rparr>) = example_registry"
    by (simp add: rebuild_order_def put_contribution_def record_or_default_def contributes_def om_contains_key_iff
        example_empty_def example_registry_def)
  have fields: "source_candidates example_empty = om_empty" "reg_order example_empty = []" "reg_order example_registry = [''seed:1'']"
    "1 \<le> max_candidates example_empty"
    by (simp_all add: example_empty_def example_registry_def DEFAULT_MAX_PEER_CANDIDATES_def)
  show ?thesis
    unfolding replace_snapshot_def snapshot_observed_def using fields(4)
    by (simp add: observed [simplified] replace_contributions_def removed inserted fields(1,2) rebuilt fields(3) Let_def
        del: order_rebuilt)
qed

lemma example_config: "registry_new (drc_max_candidates discovery_runtime_config_default) = Inr example_empty"
  by (simp add: registry_new_def discovery_runtime_config_default_def example_empty_def DEFAULT_MAX_PEER_CANDIDATES_def)

lemma example_started:
  "coordinator_start [(example_source, Some (Inr example_watch), 6)] discovery_runtime_config_default
     = ([], Inr ((example_registry, [''seed:1'']), [example_watch]))"
proof -
  have source: "source_id example_source = ''s''" "candidate_ttl example_source = Some 10"
    "watch_snapshot example_watch = snapshot_observed 0 [(''Seed:1'', 5)]"
    by (simp_all add: example_source_def example_watch_def watch_new_def)
  show ?thesis
    by (simp add: coordinator_start_def example_valid example_config take_initial_def source example_taken example_views)
qed

lemma example_started_empty:
  "coordinator_start [] discovery_runtime_config_default = ([], Inr ((example_empty, []), []))"
proof -
  have "validate_discovery_config [] discovery_runtime_config_default = Inr ()" by code_simp
  moreover have "reg_endpoints example_empty = []" by (simp add: reg_endpoints_def example_empty_def)
  ultimately show ?thesis by (simp add: coordinator_start_def example_config)
qed

theorem published_candidates_exact_witness:
  "fold coordinator_turn [] (example_registry, [''seed:1'']) = (example_registry, [''seed:1''])
   \<and> set [''seed:1''] = {e. \<exists>source. contribution example_registry source e \<noteq> None}
   \<and> length [''seed:1''] \<le> drc_max_candidates discovery_runtime_config_default"
proof -
  have run: "fold coordinator_turn [] (example_registry, [''seed:1'']) = (example_registry, [''seed:1''])" by simp
  with published_candidates_exact [OF example_started run] show ?thesis by blast
qed

theorem candidate_snapshot_exact_witness:
  "candidates_of example_registry ''s'' = [''seed:1''] \<and> contribution example_registry ''s'' ''seed:1'' = Some \<lparr>lease = Some 15\<rparr>"
proof -
  have run: "fold coordinator_turn [] (example_empty, []) = (example_empty, [])" by simp
  have obs: "snap_observations (snapshot_observed 0 [(''Seed:1'', 5)]) = Some [5]"
    and peers: "snap_peers (snapshot_observed 0 [(''Seed:1'', 5)]) = [''Seed:1'']" by (simp_all add: snapshot_observed_def)
  have live: "live_observations 6 (Some 10) (zip (snap_peers (snapshot_observed 0 [(''Seed:1'', 5)])) [5]) = [(''seed:1'', 5)]"
    by (simp add: live_observations_def example_canonical peers map_filter_def)
  have lease: "newest_lease (Some 10) [(''seed:1'', 5)] ''seed:1'' = Some \<lparr>lease = Some 15\<rparr>" by (simp add: newest_lease_def)
  have "local_endpoints example_empty = om_empty" by (simp add: example_empty_def)
  with candidate_snapshot_exact [OF example_started_empty run obs example_taken] lease live show ?thesis
    by (simp add: dedup_onto_def)
qed

theorem candidate_leases_exact_witness:
  "\<exists>s e. contribution example_registry s e \<noteq> None \<and> contribution (fst (expire 15 example_registry)) s e = None"
proof -
  have run: "fold coordinator_turn [] (example_registry, [''seed:1'']) = (example_registry, [''seed:1''])" by simp
  have "expire 15 example_registry = (fst (expire 15 example_registry), snd (expire 15 example_registry))" by simp
  from candidate_leases_exact [OF example_started run this] example_views(2) show ?thesis by blast
qed

theorem candidate_sources_isolated_witness:
  "contribution (fst (apply_candidate_command 7 (RemoveCandidate ''s'' ''Seed:1'') example_registry)) ''s'' ''seed:1'' = None"
proof -
  have run: "fold coordinator_turn [] (example_registry, [''seed:1'']) = (example_registry, [''seed:1''])" by simp
  let ?out = "apply_candidate_command 7 (RemoveCandidate ''s'' ''Seed:1'') example_registry"
  have "?out = (fst ?out, snd ?out)" by simp
  from candidate_sources_isolated [OF example_started run this] example_canonical show ?thesis by blast
qed

end
