(* ===== verification/Polled_Discovery.thy ===== *)
theory Polled_Discovery
  imports Candidates Store_Keys "HOL-Library.Product_Lexorder"
begin

text \<open>
  The discovery providers that ask for peers again and again: a peer file
  (\<open>nx-core/src/discovery/file_watch.rs\<close>) and DNS-SRV records (\<open>dns_srv.rs\<close>), with the lifecycle that
  all dynamic providers have. Reading the file and the answers of the resolver are inputs; names of
  \<open>hickory\<close> are their text, with the test for the root as a parameter. Every operation gets the times it
  reads from the clock.
\<close>

section \<open>Text\<close>

text \<open>\<open>str::trim\<close> and \<open>str::lines\<close> of the standard library on UTF-8.\<close>

definition leading_space :: "string \<Rightarrow> nat" where
  "leading_space s = (case find (\<lambda>w. prefix w (map of_char s)) WHITE_SPACE of Some w \<Rightarrow> length w | None \<Rightarrow> 0)"

definition trailing_space :: "string \<Rightarrow> nat" where
  "trailing_space s = (case find (\<lambda>w. suffix w (map of_char s)) WHITE_SPACE of Some w \<Rightarrow> length w | None \<Rightarrow> 0)"

function trim_start :: "string \<Rightarrow> string" where
  "trim_start s = (if s = [] \<or> leading_space s = 0 then s else trim_start (drop (leading_space s) s))"
  by auto
termination by (relation "measure length") auto

function trim_end :: "string \<Rightarrow> string" where
  "trim_end s = (if s = [] \<or> trailing_space s = 0 then s else trim_end (take (length s - trailing_space s) s))"
  by auto
termination by (relation "measure length") auto

declare trim_start.simps [simp del] trim_end.simps [simp del]

definition trim :: "string \<Rightarrow> string" where
  "trim s = trim_end (trim_start s)"

definition newline :: char where "newline = CHR 0x0A"
definition carriage_return :: char where "carriage_return = CHR 0x0D"

definition strip_cr :: "string \<Rightarrow> string" where
  "strip_cr s = (if s \<noteq> [] \<and> last s = carriage_return then butlast s else s)"

definition str_lines :: "string \<Rightarrow> string list" where
  "str_lines s =
     (let parts = split_at newline s
      in map strip_cr (butlast parts) @ (if last parts = [] then [] else [last parts]))"

section \<open>The lifecycle of a provider\<close>

text \<open>The task of a generation is the completion it has published, if any, and whether its supervisor is there.\<close>

record provider_lifecycle =
  lc_stopped :: bool
  lc_task :: "(task_completion option \<times> bool) option"

definition lifecycle_new :: provider_lifecycle where
  "lifecycle_new = \<lparr>lc_stopped = False, lc_task = None\<rparr>"

definition generation_live :: "string \<Rightarrow> provider_lifecycle \<Rightarrow> dynamic_state \<Rightarrow> discovery_error + bool" where
  "generation_live provider lc s =
     (if lc_stopped lc then Inl (ProviderError provider ''provider is shut down'' False)
      else case lc_task lc of
        None \<Rightarrow> Inr False
      | Some (completion, alive) \<Rightarrow> generation_running provider completion alive s)"

definition spawn_generation :: "provider_lifecycle \<Rightarrow> dynamic_state \<Rightarrow> provider_lifecycle \<times> dynamic_state" where
  "spawn_generation lc s = (lc\<lparr>lc_task := Some (None, True)\<rparr>, activate s)"

definition ensure_started ::
    "string \<Rightarrow> provider_lifecycle \<Rightarrow> dynamic_state \<Rightarrow> discovery_error + provider_lifecycle \<times> dynamic_state" where
  "ensure_started provider lc s =
     res_bind (generation_live provider lc s) (\<lambda>live. Inr (if live then (lc, s) else spawn_generation lc s))"

definition request_shutdown :: "provider_lifecycle \<Rightarrow> provider_lifecycle" where
  "request_shutdown lc = lc\<lparr>lc_stopped := True\<rparr>"

definition task_join :: "string \<Rightarrow> task_completion option \<Rightarrow> discovery_error + unit" where
  "task_join provider completion =
     (case completion of
        Some c \<Rightarrow> tc_result c
      | None \<Rightarrow> Inl (ProviderError provider ''generation supervisor failed'' False))"

text \<open>Shutting down waits for the task; what it publishes at the end, if anything, is an argument.\<close>

definition join_generation :: "string \<Rightarrow> task_completion option \<Rightarrow> provider_lifecycle \<Rightarrow> discovery_error + unit" where
  "join_generation provider completion lc = (case lc_task lc of None \<Rightarrow> Inr () | Some _ \<Rightarrow> task_join provider completion)"

section \<open>The peer file\<close>

definition DEFAULT_POLL_INTERVAL :: duration where "DEFAULT_POLL_INTERVAL = secs 2"
definition DEFAULT_MAX_FILE_BYTES :: nat where "DEFAULT_MAX_FILE_BYTES = 1024 * 1024"

record file_watch_config =
  fw_path :: string
  fw_cluster_id :: string
  fw_poll_interval :: duration
  fw_max_file_bytes :: nat
  fw_max_candidates :: nat
  fw_event_capacity :: nat

definition file_watch_config_new :: "string \<Rightarrow> file_watch_config" where
  "file_watch_config_new path =
     \<lparr>fw_path = path, fw_cluster_id = DEFAULT_DISCOVERY_CLUSTER, fw_poll_interval = DEFAULT_POLL_INTERVAL,
      fw_max_file_bytes = DEFAULT_MAX_FILE_BYTES, fw_max_candidates = DEFAULT_MAX_PEER_CANDIDATES,
      fw_event_capacity = DEFAULT_DISCOVERY_EVENT_CAPACITY\<rparr>"

definition file_invalid :: "string \<Rightarrow> discovery_error" where
  "file_invalid message = InvalidConfiguration ''file'' message"

definition file_error :: "string \<Rightarrow> bool \<Rightarrow> discovery_error" where
  "file_error message retryable = ProviderError ''file'' message retryable"

definition file_io_error :: "string \<Rightarrow> string \<Rightarrow> discovery_error" where
  "file_io_error path error = file_error (''cannot read '' @ path @ '': '' @ error) True"

definition file_validate_config :: "instant \<Rightarrow> file_watch_config \<Rightarrow> discovery_error + unit" where
  "file_validate_config now c =
     res_bind (validate_event_capacity ''file'' (fw_event_capacity c)) (\<lambda>_.
     if fw_path c = [] then Inl (file_invalid ''path must not be empty'')
     else if trim (fw_cluster_id c) = [] then Inl (file_invalid ''cluster_id must not be empty'')
     else if fw_poll_interval c = 0 then Inl (file_invalid ''poll_interval must be greater than zero'')
     else if fw_max_file_bytes c = 0 \<or> fw_max_candidates c = 0 then Inl (file_invalid ''limits must be greater than zero'')
     else validate_durations now ''file'' [(''poll_interval'', fw_poll_interval c)])"

record file_provider =
  fp_config :: file_watch_config
  fp_state :: dynamic_state
  fp_lifecycle :: provider_lifecycle

definition file_provider_new :: "instant \<Rightarrow> file_watch_config \<Rightarrow> discovery_error + file_provider" where
  "file_provider_new now c =
     res_bind (file_validate_config now c) (\<lambda>_.
       Inr \<lparr>fp_config = c, fp_state = dynamic_new (fw_event_capacity c), fp_lifecycle = lifecycle_new\<rparr>)"

definition parse_peer_line :: "nat \<Rightarrow> nat \<times> string \<Rightarrow> string list \<Rightarrow> discovery_error + string list" where
  "parse_peer_line limit item peers =
     (case item of (index, line) \<Rightarrow>
        let endpoint = trim line
        in if endpoint = [] \<or> hd endpoint = CHR ''#'' then Inr peers
           else case canonicalize_endpoint endpoint of
             Inl e \<Rightarrow> Inl (file_error (''line '' @ show_nat (index + 1) @ '' is invalid: '' @ discovery_error_display e) True)
           | Inr endpoint \<Rightarrow>
               if endpoint \<in> set peers then Inr peers
               else if length peers = limit
               then Inl (file_error (''peer file exceeds the '' @ show_nat limit @ '' candidate limit'') True)
               else Inr (peers @ [endpoint]))"

definition parse_peer_file :: "string \<Rightarrow> nat \<Rightarrow> discovery_error + string list" where
  "parse_peer_file contents limit = fold_res (parse_peer_line limit) (enumerate 0 (str_lines contents)) []"

text \<open>What the file system answers: there is no file, an error, or the bytes of the file.\<close>

datatype file_read = FileMissing | OpenFailed string | ReadFailed string | FileBytes bytes

definition read_peer_file :: "file_watch_config \<Rightarrow> file_read \<Rightarrow> discovery_error + string list" where
  "read_peer_file c file =
     (case file of
        FileMissing \<Rightarrow> Inr []
      | OpenFailed e \<Rightarrow> Inl (file_io_error (fw_path c) e)
      | ReadFailed e \<Rightarrow> Inl (file_io_error (fw_path c) e)
      | FileBytes contents \<Rightarrow>
          let limit = min (fw_max_file_bytes c + 1) u64_max; bs = take limit contents
          in if length bs > fw_max_file_bytes c
             then Inl (file_error (fw_path c @ '' exceeds the '' @ show_nat (fw_max_file_bytes c) @ '' byte limit'') True)
             else if \<not> utf8_valid bs then Inl (file_error (fw_path c @ '' is not valid UTF-8'') True)
             else parse_peer_file (string_of_bytes bs) (fw_max_candidates c))"

text \<open>
  Starting reads the file between two looks at the lifecycle; the provider is \<open>p\<close> at the first and
  \<open>q\<close> at the second one.
\<close>

definition file_ensure_started :: "instant \<Rightarrow> file_read \<Rightarrow> file_provider \<Rightarrow> file_provider \<Rightarrow> discovery_error + file_provider" where
  "file_ensure_started now file p q =
     res_bind (generation_live ''file'' (fp_lifecycle p) (fp_state p)) (\<lambda>live.
       if live then Inr q
       else
         res_bind (read_peer_file (fp_config p) file) (\<lambda>initial.
         res_bind (generation_live ''file'' (fp_lifecycle q) (fp_state q)) (\<lambda>live.
           if live then Inr q
           else
             let (lc, s) = spawn_generation (fp_lifecycle q) (dyn_observe now initial (fp_state q))
             in Inr (q\<lparr>fp_lifecycle := lc, fp_state := s\<rparr>))))"

definition file_discover ::
    "instant \<Rightarrow> file_read \<Rightarrow> file_provider \<Rightarrow> file_provider \<Rightarrow> file_provider \<times> (discovery_error + discovery_snapshot)" where
  "file_discover now file p q =
     (case file_ensure_started now file p q of Inl e \<Rightarrow> (q, Inl e) | Inr r \<Rightarrow> (r, Inr (dynamic_snapshot (fp_state r))))"

definition file_watch ::
    "instant \<Rightarrow> file_read \<Rightarrow> file_provider \<Rightarrow> file_provider \<Rightarrow> file_provider \<times> (discovery_error + discovery_watch \<times> nat \<times> nat)" where
  "file_watch now file p q =
     (case file_ensure_started now file p q of Inl e \<Rightarrow> (q, Inl e) | Inr r \<Rightarrow> (r, live_watch (fp_state r)))"

definition file_request_shutdown :: "file_provider \<Rightarrow> file_provider" where
  "file_request_shutdown p = p\<lparr>fp_lifecycle := request_shutdown (fp_lifecycle p)\<rparr>"

definition file_shutdown :: "task_completion option \<Rightarrow> file_provider \<Rightarrow> file_provider \<times> (discovery_error + unit)" where
  "file_shutdown completion p =
     (let p' = file_request_shutdown p in (p', join_generation ''file'' completion (fp_lifecycle p')))"

definition file_announce :: "string \<Rightarrow> discovery_error + unit" where
  "file_announce endpoint = Inl (UnsupportedOperation ''file'' ''announcement'')"

definition next_poll_deadline :: "instant \<Rightarrow> instant \<Rightarrow> duration \<Rightarrow> discovery_error + instant" where
  "next_poll_deadline previous now period =
     res_bind (checked_deadline previous period ''file'' ''poll_interval'') (\<lambda>next.
       if next > now then Inr next else checked_deadline now period ''file'' ''poll_interval'')"

text \<open>One poll of \<open>run_file_watch\<close>: when the file was read, what it was, and when the next poll is set.\<close>

definition file_poll ::
    "file_watch_config \<Rightarrow> instant \<times> file_read \<times> instant \<Rightarrow> instant \<times> dynamic_state \<Rightarrow> discovery_error + instant \<times> dynamic_state" where
  "file_poll c poll run =
     (case poll of (observed, file, now) \<Rightarrow> case run of (next, s) \<Rightarrow>
        let s' = (case read_peer_file c file of Inr peers \<Rightarrow> dyn_observe observed peers s | Inl _ \<Rightarrow> s)
        in res_bind (next_poll_deadline next now (fw_poll_interval c)) (\<lambda>next'. Inr (next', s')))"

definition run_file_watch ::
    "file_watch_config \<Rightarrow> instant \<Rightarrow> (instant \<times> file_read \<times> instant) list \<Rightarrow> dynamic_state \<Rightarrow> discovery_error + instant \<times> dynamic_state" where
  "run_file_watch c start polls s =
     res_bind (checked_deadline start (fw_poll_interval c) ''file'' ''poll_interval'') (\<lambda>next.
       fold_res (file_poll c) polls (next, s))"

section \<open>DNS-SRV records\<close>

definition DEFAULT_RETRY_INTERVAL :: duration where "DEFAULT_RETRY_INTERVAL = secs 5"
definition DEFAULT_MAX_REFRESH_INTERVAL :: duration where "DEFAULT_MAX_REFRESH_INTERVAL = secs 300"

record dns_srv_config =
  ds_service_name :: string
  ds_cluster_id :: string
  ds_retry_interval :: duration
  ds_max_refresh_interval :: duration
  ds_max_candidates :: nat
  ds_event_capacity :: nat

definition dns_srv_config_new :: "string \<Rightarrow> dns_srv_config" where
  "dns_srv_config_new service =
     \<lparr>ds_service_name = service, ds_cluster_id = DEFAULT_DISCOVERY_CLUSTER, ds_retry_interval = DEFAULT_RETRY_INTERVAL,
      ds_max_refresh_interval = DEFAULT_MAX_REFRESH_INTERVAL, ds_max_candidates = DEFAULT_MAX_PEER_CANDIDATES,
      ds_event_capacity = DEFAULT_DISCOVERY_EVENT_CAPACITY\<rparr>"

text \<open>An SRV record with its target as \<open>to_utf8\<close> prints it, and what else an answer can hold.\<close>

record srv_record =
  srv_priority :: nat
  srv_weight :: nat
  srv_port :: nat
  srv_target :: string

datatype rdata = SrvData srv_record | OtherData

record srv_answer =
  srv_records :: "srv_record list"
  srv_valid_until :: instant

definition dns_invalid :: "string \<Rightarrow> discovery_error" where
  "dns_invalid message = InvalidConfiguration ''dns-srv'' message"

definition dns_error :: "string \<Rightarrow> bool \<Rightarrow> discovery_error" where
  "dns_error message retryable = ProviderError ''dns-srv'' message retryable"

definition trim_final_dots :: "string \<Rightarrow> string" where
  "trim_final_dots s = rev (dropWhile (\<lambda>c. c = CHR ''.'') (rev s))"

fun valid_service :: "string list \<Rightarrow> bool" where
  "valid_service (label # _) =
     (length label > 1 \<and> hd label = CHR ''_'' \<and> list_all (\<lambda>c. is_alphanumeric c \<or> c = CHR ''-'') (tl label))"
| "valid_service [] = False"

fun valid_protocol :: "string list \<Rightarrow> bool" where
  "valid_protocol (_ # label # _) = (to_ascii_lowercase label = ''_tcp'' \<or> to_ascii_lowercase label = ''_udp'')"
| "valid_protocol _ = False"

definition dns_validate_config :: "(string \<Rightarrow> bool) \<Rightarrow> instant \<Rightarrow> dns_srv_config \<Rightarrow> discovery_error + unit" where
  "dns_validate_config name_valid now c =
     res_bind (validate_event_capacity ''dns-srv'' (ds_event_capacity c)) (\<lambda>_.
     if ds_service_name c = [] \<or> last (ds_service_name c) \<noteq> CHR ''.''
     then Inl (dns_invalid (''service_name must be a fully-qualified name ending with '' @ [CHR 0x27] @ ''.'' @ [CHR 0x27]))
     else
       let labels = split_at CHR ''.'' (trim_final_dots (ds_service_name c))
       in if length labels < 3 \<or> \<not> valid_service labels \<or> \<not> valid_protocol labels
          then Inl (dns_invalid ''service_name must use the fully-qualified _service._tcp|_udp.domain. form'')
          else if \<not> name_valid (ds_service_name c) then Inl (dns_invalid ''service_name is not a valid DNS name'')
          else if trim (ds_cluster_id c) = [] then Inl (dns_invalid ''cluster_id must not be empty'')
          else if ds_retry_interval c = 0 \<or> ds_max_refresh_interval c = 0 \<or> ds_max_candidates c = 0
          then Inl (dns_invalid ''intervals and limits must be greater than zero'')
          else validate_durations now ''dns-srv''
            [(''retry_interval'', ds_retry_interval c), (''max_refresh_interval'', ds_max_refresh_interval c)])"

record dns_provider =
  dp_config :: dns_srv_config
  dp_state :: dynamic_state
  dp_lifecycle :: provider_lifecycle

definition dns_with_resolver :: "dns_srv_config \<Rightarrow> dns_provider" where
  "dns_with_resolver c = \<lparr>dp_config = c, dp_state = dynamic_new (ds_event_capacity c), dp_lifecycle = lifecycle_new\<rparr>"

text \<open>The system's resolver is there, or loading its configuration has failed.\<close>

definition dns_provider_new :: "(string \<Rightarrow> bool) \<Rightarrow> string + unit \<Rightarrow> instant \<Rightarrow> dns_srv_config \<Rightarrow> discovery_error + dns_provider" where
  "dns_provider_new name_valid resolver now c =
     res_bind (dns_validate_config name_valid now c) (\<lambda>_.
     res_bind (map_err (\<lambda>e. dns_error (''cannot load system DNS configuration: '' @ e) False) resolver) (\<lambda>_.
       Inr (dns_with_resolver c)))"

definition dns_ensure_started :: "dns_provider \<Rightarrow> discovery_error + dns_provider" where
  "dns_ensure_started p =
     res_bind (ensure_started ''dns-srv'' (dp_lifecycle p) (dp_state p)) (\<lambda>(lc, s). Inr (p\<lparr>dp_lifecycle := lc, dp_state := s\<rparr>))"

definition dns_discover :: "dns_provider \<Rightarrow> dns_provider \<times> (discovery_error + discovery_snapshot)" where
  "dns_discover p = (case dns_ensure_started p of Inl e \<Rightarrow> (p, Inl e) | Inr r \<Rightarrow> (r, Inr (dynamic_snapshot (dp_state r))))"

definition dns_watch :: "dns_provider \<Rightarrow> dns_provider \<times> (discovery_error + discovery_watch \<times> nat \<times> nat)" where
  "dns_watch p = (case dns_ensure_started p of Inl e \<Rightarrow> (p, Inl e) | Inr r \<Rightarrow> (r, live_watch (dp_state r)))"

definition dns_request_shutdown :: "dns_provider \<Rightarrow> dns_provider" where
  "dns_request_shutdown p = p\<lparr>dp_lifecycle := request_shutdown (dp_lifecycle p)\<rparr>"

definition dns_shutdown :: "task_completion option \<Rightarrow> dns_provider \<Rightarrow> dns_provider \<times> (discovery_error + unit)" where
  "dns_shutdown completion p =
     (let p' = dns_request_shutdown p in (p', join_generation ''dns-srv'' completion (dp_lifecycle p')))"

definition dns_announce :: "string \<Rightarrow> discovery_error + unit" where
  "dns_announce endpoint = Inl (UnsupportedOperation ''dns-srv'' ''announcement'')"

definition srv_key :: "srv_record \<Rightarrow> nat \<times> string \<times> nat \<times> nat" where
  "srv_key r = (srv_priority r, srv_target r, srv_port r, srv_weight r)"

definition srv_endpoint :: "srv_record \<Rightarrow> string option" where
  "srv_endpoint r =
     (case canonicalize_endpoint (trim_final_dots (srv_target r) @ '':'' @ show_nat (srv_port r)) of
        Inr e \<Rightarrow> Some e | Inl _ \<Rightarrow> None)"

definition records_to_peers :: "(string \<Rightarrow> bool) \<Rightarrow> srv_record list \<Rightarrow> nat \<Rightarrow> string list" where
  "records_to_peers is_root records limit =
     fold (\<lambda>endpoint peers. if length peers < limit \<and> endpoint \<notin> set peers then peers @ [endpoint] else peers)
       (List.map_filter srv_endpoint
         (filter (\<lambda>r. srv_port r \<noteq> 0 \<and> \<not> is_root (srv_target r)) (sort_key srv_key records))) []"

definition bounded_negative_ttl :: "nat option \<Rightarrow> duration \<Rightarrow> duration" where
  "bounded_negative_ttl negative_ttl max_refresh =
     min (case negative_ttl of Some seconds \<Rightarrow> secs seconds | None \<Rightarrow> max_refresh) max_refresh"

text \<open>What the resolver answers.\<close>

datatype dns_result = DnsRecords "rdata list" instant | NoRecordsFound "nat option" | DnsFailure string

definition srv_of :: "rdata \<Rightarrow> srv_record option" where
  "srv_of d = (case d of SrvData r \<Rightarrow> Some r | OtherData \<Rightarrow> None)"

definition lookup :: "instant \<Rightarrow> dns_srv_config \<Rightarrow> dns_result \<Rightarrow> discovery_error + srv_answer" where
  "lookup now c result =
     (case result of
        DnsRecords answers until \<Rightarrow> Inr \<lparr>srv_records = List.map_filter srv_of answers, srv_valid_until = until\<rparr>
      | NoRecordsFound negative_ttl \<Rightarrow>
          res_bind (checked_deadline now (bounded_negative_ttl negative_ttl (ds_max_refresh_interval c)) ''dns-srv'' ''negative_ttl'')
            (\<lambda>until. Inr \<lparr>srv_records = [], srv_valid_until = until\<rparr>)
      | DnsFailure e \<Rightarrow> Inl (dns_error (''lookup of '' @ ds_service_name c @ '' failed: '' @ e) True))"

definition retry_deadline :: "instant \<Rightarrow> duration \<Rightarrow> instant option \<Rightarrow> discovery_error + instant" where
  "retry_deadline now retry_interval valid_until =
     res_bind (checked_deadline now retry_interval ''dns-srv'' ''retry_interval'') (\<lambda>retry.
       Inr (case valid_until of Some deadline \<Rightarrow> if deadline > now then min deadline retry else retry | None \<Rightarrow> retry))"

text \<open>
  The answer is taken over at \<open>now\<close>; \<open>observed\<close> is the later time at which the view records new peers. The
  view changes even if a deadline is not representable.
\<close>

definition apply_dns_answer ::
    "(string \<Rightarrow> bool) \<Rightarrow> dns_srv_config \<Rightarrow> instant \<Rightarrow> instant \<Rightarrow> srv_answer \<Rightarrow> instant option \<Rightarrow> dynamic_state
     \<Rightarrow> dynamic_state \<times> (discovery_error + instant option \<times> instant)" where
  "apply_dns_answer is_root c now observed answer previous s =
     (if srv_valid_until answer \<le> now
      then (dyn_replace observed [] s,
        res_bind (checked_deadline now (ds_retry_interval c) ''dns-srv'' ''retry_interval'') (\<lambda>t. Inr (None, t)))
      else case checked_deadline now (ds_max_refresh_interval c) ''dns-srv'' ''max_refresh_interval'' of
        Inl e \<Rightarrow> (s, Inl e)
      | Inr refresh \<Rightarrow>
          let peers = records_to_peers is_root (srv_records answer) (ds_max_candidates c);
              renewed = (case previous of Some t \<Rightarrow> srv_valid_until answer > t | None \<Rightarrow> True)
          in (if renewed then dyn_observe observed peers s else dyn_replace observed peers s,
              Inr (Some (srv_valid_until answer), min (srv_valid_until answer) refresh)))"

text \<open>
  What can happen in \<open>run_dns_refresh\<close> once a query is out: the current answer expires, the query is answered,
  or it fails. A run that has ended keeps its view and the error.
\<close>

record dns_run =
  dr_valid_until :: "instant option"
  dr_next_refresh :: instant
  dr_view :: dynamic_state
  dr_result :: "discovery_error option"

datatype dns_input = AnswerExpires instant | QueryAnswered instant instant srv_answer | QueryFailed instant instant discovery_error

definition dns_run_start :: "instant \<Rightarrow> dynamic_state \<Rightarrow> dns_run" where
  "dns_run_start now s = \<lparr>dr_valid_until = None, dr_next_refresh = now, dr_view = s, dr_result = None\<rparr>"

definition dns_ended :: "dynamic_state \<Rightarrow> discovery_error \<Rightarrow> dns_run \<Rightarrow> dns_run" where
  "dns_ended s e run = run\<lparr>dr_view := s, dr_result := Some e\<rparr>"

definition query_failed :: "dns_srv_config \<Rightarrow> instant \<Rightarrow> instant \<Rightarrow> discovery_error \<Rightarrow> dns_run \<Rightarrow> dns_run" where
  "query_failed c now observed e run =
     (let s = (case dr_valid_until run of
            Some deadline \<Rightarrow> if now \<ge> deadline then dyn_replace observed [] (dr_view run) else dr_view run
          | None \<Rightarrow> dr_view run)
      in if (case e of ProviderError _ _ retryable \<Rightarrow> \<not> retryable | _ \<Rightarrow> False) then dns_ended s e run
         else case retry_deadline now (ds_retry_interval c) (dr_valid_until run) of
           Inl e' \<Rightarrow> dns_ended s e' run
         | Inr next \<Rightarrow> run\<lparr>dr_view := s, dr_next_refresh := next\<rparr>)"

definition dns_step :: "(string \<Rightarrow> bool) \<Rightarrow> dns_srv_config \<Rightarrow> dns_input \<Rightarrow> dns_run \<Rightarrow> dns_run" where
  "dns_step is_root c input run =
     (if dr_result run \<noteq> None then run
      else case input of
        AnswerExpires now \<Rightarrow>
          (case dr_valid_until run of
             Some deadline \<Rightarrow>
               if now \<ge> deadline then run\<lparr>dr_view := dyn_replace now [] (dr_view run), dr_valid_until := None\<rparr> else run
           | None \<Rightarrow> run)
      | QueryAnswered now observed answer \<Rightarrow>
          (case apply_dns_answer is_root c now observed answer (dr_valid_until run) (dr_view run) of
             (s, Inr (until, next)) \<Rightarrow> run\<lparr>dr_view := s, dr_valid_until := until, dr_next_refresh := next\<rparr>
           | (s, Inl e) \<Rightarrow> dns_ended s e run)
      | QueryFailed now observed e \<Rightarrow> query_failed c now observed e run)"

section \<open>What a peer file says\<close>

definition peer_lines :: "string \<Rightarrow> string list" where
  "peer_lines contents = filter (\<lambda>l. l \<noteq> [] \<and> hd l \<noteq> CHR ''#'') (map trim (str_lines contents))"

lemma parse_lines_iff:
  assumes "length acc \<le> limit"
  shows "fold_res (parse_peer_line limit) items acc = Inr peers \<longleftrightarrow>
    (let ls = filter (\<lambda>l. l \<noteq> [] \<and> hd l \<noteq> CHR ''#'') (map (trim \<circ> snd) items)
     in (\<forall>l \<in> set ls. is_ok (canonicalize_endpoint l)) \<and> peers = dedup_onto acc (map (projr \<circ> canonicalize_endpoint) ls)
        \<and> length peers \<le> limit)"
  using assms
proof (induction items arbitrary: acc)
  case Nil
  then show ?case by (auto simp: Let_def)
next
  case (Cons item items)
  obtain index line where item: "item = (index, line)" by fastforce
  consider "trim line = [] \<or> hd (trim line) = CHR ''#''"
    | e where "\<not> (trim line = [] \<or> hd (trim line) = CHR ''#'')" "canonicalize_endpoint (trim line) = Inl e"
    | e where "\<not> (trim line = [] \<or> hd (trim line) = CHR ''#'')" "canonicalize_endpoint (trim line) = Inr e"
    by (cases "canonicalize_endpoint (trim line)") auto
  then show ?case
  proof cases
    case 1
    with Cons show ?thesis by (auto simp: item parse_peer_line_def Let_def)
  next
    case 2
    then show ?thesis by (auto simp: item parse_peer_line_def Let_def is_ok_def)
  next
    case 3
    consider "e \<in> set acc" | "e \<notin> set acc" "length acc = limit" | "e \<notin> set acc" "length acc < limit"
      using Cons.prems by linarith
    then show ?thesis
    proof cases
      case 2
      have "Suc limit \<le> length (dedup_onto (acc @ [e]) xs)" for xs using dedup_onto_props(4) [of "acc @ [e]" xs] 2 by simp
      with 2 3 show ?thesis by (auto simp: item parse_peer_line_def Let_def dedup_step not_le Suc_le_eq)
    qed (use 3 Cons in \<open>simp_all add: item parse_peer_line_def Let_def dedup_step\<close>)
  qed
qed

lemma parse_peer_file_iff:
  "parse_peer_file contents limit = Inr peers \<longleftrightarrow>
     (\<forall>l \<in> set (peer_lines contents). is_ok (canonicalize_endpoint l))
     \<and> peers = dedup_onto [] (map (projr \<circ> canonicalize_endpoint) (peer_lines contents)) \<and> length peers \<le> limit"
proof -
  have lines: "map (trim \<circ> snd) (enumerate 0 (str_lines contents)) = map trim (str_lines contents)" by (simp flip: map_map)
  show ?thesis
    using parse_lines_iff [of "[]" limit "enumerate 0 (str_lines contents)" peers]
    unfolding parse_peer_file_def peer_lines_def lines Let_def by simp
qed

lemma observed_peers: "dyn_revision s < u64_max \<Longrightarrow> dyn_peers (dyn_observe now peers s) = peers"
  by (auto simp: dyn_observe_def dyn_observe_at_def dyn_publish_def u64_checked_succ_def Let_def comp_def)

lemma replaced_peers: "dyn_revision s < u64_max \<Longrightarrow> dyn_peers (dyn_replace now peers s) = peers"
  by (auto simp: dyn_replace_def dyn_publish_def u64_checked_succ_def Let_def)

lemma publish_revision: "dyn_revision (dyn_publish peers obs s) \<le> Suc (dyn_revision s)"
  by (simp add: dyn_publish_def u64_checked_succ_def Let_def)

lemma view_revisions:
  "dyn_revision (dyn_observe now peers s) \<le> Suc (dyn_revision s)" "dyn_revision (dyn_replace now peers s) \<le> Suc (dyn_revision s)"
  by (auto simp: dyn_observe_def dyn_observe_at_def dyn_replace_def publish_revision intro: le_SucI)

lemma fold_res_single: "fold_res f [x] s = f x s"
  by (simp split: sum.split)

definition last_valid :: "file_watch_config \<Rightarrow> file_read list \<Rightarrow> string list \<Rightarrow> string list" where
  "last_valid c files peers = fold (\<lambda>file peers. case read_peer_file c file of Inr ps \<Rightarrow> ps | Inl _ \<Rightarrow> peers) files peers"

lemma file_polls_view:
  assumes "fold_res (file_poll c) polls (next, s) = Inr (next', s')" "dyn_revision s + length polls \<le> u64_max"
  shows "dyn_peers s' = last_valid c (map (fst \<circ> snd) polls) (dyn_peers s)"
  using assms
proof (induction polls arbitrary: "next" s)
  case (Cons poll polls)
  obtain t f now where poll: "poll = (t, f, now)" by (metis prod_cases3)
  define s1 where "s1 = (case read_peer_file c f of Inr peers \<Rightarrow> dyn_observe t peers s | Inl _ \<Rightarrow> s)"
  have step: "file_poll c poll (next, s) = res_bind (next_poll_deadline next now (fw_poll_interval c)) (\<lambda>n. Inr (n, s1))"
    by (simp add: poll file_poll_def s1_def)
  obtain n1 where "fold_res (file_poll c) polls (n1, s1) = Inr (next', s')"
    using Cons.prems(1) by (cases "next_poll_deadline next now (fw_poll_interval c)") (simp_all add: step)
  moreover have "dyn_revision s1 + length polls \<le> u64_max"
    using Cons.prems(2) view_revisions(1) [of t _ s] by (auto simp: s1_def split: sum.splits intro: order_trans [rotated])
  moreover have "dyn_peers s1 = last_valid c [f] (dyn_peers s)"
    using observed_peers [of s t] Cons.prems(2) by (auto simp: s1_def last_valid_def split: sum.splits)
  ultimately show ?case using Cons.IH by (simp add: poll last_valid_def)
qed (simp add: last_valid_def)

text \<open>
  C33. The view of a file provider is what the last valid version of the file says: whatever is read at the polls,
  a missing file empties the view and an unreadable, oversized or invalid version leaves it as it was. A version is valid
  when it fits the limits, is UTF-8 and every line that is not blank or a comment is an endpoint; it
  names their canonical forms, each once and in order. The next poll is always ahead.
\<close>

theorem file_view_last_valid:
  assumes "run_file_watch c start polls s = Inr (next, s')" "dyn_revision s + length polls \<le> u64_max"
    and "0 < fw_poll_interval c" "fw_max_file_bytes c < u64_max"
  shows "dyn_peers s' = last_valid c (map (fst \<circ> snd) polls) (dyn_peers s)
    \<and> (\<forall>now. (polls = [] \<and> now = start) \<or> (polls \<noteq> [] \<and> now = snd (snd (last polls))) \<longrightarrow> now < next)
    \<and> (\<forall>bs peers. read_peer_file c (FileBytes bs) = Inr peers \<longleftrightarrow>
        length bs \<le> fw_max_file_bytes c \<and> utf8_valid bs
        \<and> (\<forall>l \<in> set (peer_lines (string_of_bytes bs)). is_ok (canonicalize_endpoint l))
        \<and> peers = dedup_onto [] (map (projr \<circ> canonicalize_endpoint) (peer_lines (string_of_bytes bs)))
        \<and> length peers \<le> fw_max_candidates c)"
proof -
  obtain n0 where n0: "checked_deadline start (fw_poll_interval c) ''file'' ''poll_interval'' = Inr n0"
    and run: "fold_res (file_poll c) polls (n0, s) = Inr (next, s')"
    using assms(1) by (auto simp: run_file_watch_def res_bind_Inr_iff)
  have ahead: "t < u" if "checked_deadline t (fw_poll_interval c) p f = Inr u" for t u p f
    using that assms(3) by (auto simp: checked_deadline_def instant_checked_add_def split: option.splits if_splits)
  have poll: "now < n'" if "file_poll c (t, f, now) q = Inr (n', s'')" for t f now q n' s''
    using that ahead by (auto simp: file_poll_def next_poll_deadline_def Let_def res_bind_Inr_iff split: prod.splits if_splits)
  have "snd (snd (last polls)) < next" if "polls \<noteq> []"
  proof -
    define ps p where "ps = butlast polls" "p = last polls"
    then have "polls = ps @ [p]" using that by simp
    then obtain q where "file_poll c p q = Inr (next, s')"
      using run by (auto simp: fold_res_append res_bind_Inr_iff fold_res_single simp del: fold_res.simps)
    with poll [of "fst p" "fst (snd p)" "snd (snd p)" q "next" s'] show ?thesis by (simp add: ps_p_def)
  qed
  moreover have "start < n0" using ahead n0 by blast
  moreover have "read_peer_file c (FileBytes bs) = Inr peers \<longleftrightarrow>
      length bs \<le> fw_max_file_bytes c \<and> utf8_valid bs \<and> parse_peer_file (string_of_bytes bs) (fw_max_candidates c) = Inr peers" for bs peers
    using assms(4) by (auto simp: read_peer_file_def Let_def min_def)
  ultimately show ?thesis
    using file_polls_view [OF run assms(2)] run by (auto simp: parse_peer_file_iff)
qed

section \<open>The view of a DNS-SRV provider\<close>

lemma bounded_dedup:
  "length acc \<le> n \<Longrightarrow> fold (\<lambda>e acc. if length acc < n \<and> e \<notin> set acc then acc @ [e] else acc) es acc = take n (dedup_onto acc es)"
proof (induction es arbitrary: acc)
  case (Cons e es)
  show ?case
  proof (cases "length acc < n")
    case True
    with Cons show ?thesis by (simp add: dedup_step)
  next
    case False
    have full: "fold (\<lambda>e acc. if length acc < n \<and> e \<notin> set acc then acc @ [e] else acc) xs acc = acc" for xs
      using False by (induction xs) auto
    have "take (length acc) (dedup_onto acc (e # es)) = acc" by (rule dedup_onto_props(3))
    with False Cons.prems full [of "e # es"] show ?thesis by (simp add: le_antisym)
  qed
qed simp

lemma records_to_peers_eq:
  "records_to_peers is_root records limit = take limit (dedup_onto [] (List.map_filter srv_endpoint
     (filter (\<lambda>r. srv_port r \<noteq> 0 \<and> \<not> is_root (srv_target r)) (sort_key srv_key records))))"
  unfolding records_to_peers_def by (rule bounded_dedup) simp

lemma srv_key_inj: "inj srv_key"
  by (rule injI) (simp add: srv_key_def srv_record.equality)

text \<open>
  The peers of an answer do not depend on the order of its records: they are the canonical endpoints of the
  records with a port and a target, by priority, target, port and weight, each once, up to the limit.
\<close>

theorem srv_order_irrelevant:
  assumes "mset records = mset records'"
  shows "records_to_peers is_root records limit = records_to_peers is_root records' limit
    \<and> distinct (records_to_peers is_root records limit) \<and> length (records_to_peers is_root records limit) \<le> limit"
proof -
  have "sort_key srv_key records = sort_key srv_key records'"
    by (rule sort_key_inj_key_eq) (use assms in \<open>auto intro: inj_on_subset [OF srv_key_inj]\<close>)
  then show ?thesis by (simp add: records_to_peers_eq dedup_onto_props(1) distinct_take)
qed

definition dns_inv :: "(string \<Rightarrow> bool) \<Rightarrow> dns_srv_config \<Rightarrow> srv_answer set \<Rightarrow> dns_run \<Rightarrow> bool" where
  "dns_inv is_root c answers run \<longleftrightarrow>
     (dyn_peers (dr_view run) \<noteq> [] \<longrightarrow>
       (\<exists>a \<in> answers. dr_valid_until run = Some (srv_valid_until a) \<and> dr_next_refresh run \<le> srv_valid_until a
         \<and> dyn_peers (dr_view run) = records_to_peers is_root (srv_records a) (ds_max_candidates c)))"

definition answers_of :: "dns_input list \<Rightarrow> srv_answer set" where
  "answers_of inputs = {a. \<exists>now observed. QueryAnswered now observed a \<in> set inputs}"

lemma apply_answer_cases:
  assumes "apply_dns_answer is_root c now observed a previous s = (s', q)" "dyn_revision s < u64_max"
  shows "dyn_revision s' \<le> Suc (dyn_revision s)"
    and "q = Inl e \<Longrightarrow> dyn_peers s' = [] \<or> s' = s"
    and "q = Inr (until, next) \<Longrightarrow> dyn_peers s' = [] \<or> dyn_peers s' = records_to_peers is_root (srv_records a) (ds_max_candidates c)
      \<and> until = Some (srv_valid_until a) \<and> next \<le> srv_valid_until a \<and> now < srv_valid_until a"
  using assms view_revisions [of observed _ s]
  by (auto simp: apply_dns_answer_def Let_def replaced_peers observed_peers res_bind_Inr_iff intro: le_SucI
      split: if_splits sum.splits option.splits)

lemma query_failed_inv:
  assumes "dns_inv is_root c A run" "dyn_revision (dr_view run) < u64_max"
  shows "dns_inv is_root c A (query_failed c now observed e run)
    \<and> dyn_revision (dr_view (query_failed c now observed e run)) \<le> Suc (dyn_revision (dr_view run))"
proof -
  define s where "s = (case dr_valid_until run of
      Some deadline \<Rightarrow> if now \<ge> deadline then dyn_replace observed [] (dr_view run) else dr_view run | None \<Rightarrow> dr_view run)"
  have view: "dyn_revision s \<le> Suc (dyn_revision (dr_view run))"
    "dyn_peers s = [] \<or> s = dr_view run \<and> (\<forall>t. dr_valid_until run = Some t \<longrightarrow> now < t)"
    using view_revisions(2) [of observed "[]" "dr_view run"] replaced_peers [OF assms(2)]
    by (auto simp: s_def intro: le_SucI split: option.splits)
  have retried: "next \<le> t" if "retry_deadline now (ds_retry_interval c) (Some t) = Inr next" "now < t" for "next" t
    using that by (auto simp: retry_deadline_def res_bind_Inr_iff)
  have "query_failed c now observed e run \<in> {dns_ended s e' run | e'. True} \<union>
      {run\<lparr>dr_view := s, dr_next_refresh := next\<rparr> | next. retry_deadline now (ds_retry_interval c) (dr_valid_until run) = Inr next}"
    by (auto simp: query_failed_def s_def [symmetric] Let_def split: sum.splits discovery_error.splits)
  then show ?thesis using assms(1) view retried by (auto simp: dns_inv_def dns_ended_def)
qed

lemma dns_step_inv:
  assumes "dns_inv is_root c A run" "dyn_revision (dr_view run) < u64_max"
  shows "dns_inv is_root c (A \<union> answers_of [input]) (dns_step is_root c input run)
    \<and> dyn_revision (dr_view (dns_step is_root c input run)) \<le> Suc (dyn_revision (dr_view run))"
proof -
  have mono: "dns_inv is_root c A r \<Longrightarrow> dns_inv is_root c (A \<union> B) r" for r B by (auto simp: dns_inv_def)
  show ?thesis
  proof (cases "dr_result run = None")
    case False
    then show ?thesis using mono assms(1) by (auto simp: dns_step_def intro: le_SucI)
  next
    case True
    show ?thesis
    proof (cases input)
      case (AnswerExpires now)
      have "dyn_peers (dyn_replace now [] (dr_view run)) = []" using replaced_peers [OF assms(2)] .
      then have "dns_inv is_root c B (run\<lparr>dr_view := dyn_replace now [] (dr_view run), dr_valid_until := None\<rparr>)" for B
        by (simp add: dns_inv_def)
      with AnswerExpires True mono assms(1) view_revisions(2) show ?thesis
        by (auto simp: dns_step_def intro: le_SucI split: option.splits)
    next
      case (QueryAnswered now observed a)
      obtain s q where out: "apply_dns_answer is_root c now observed a (dr_valid_until run) (dr_view run) = (s, q)" by fastforce
      note cs = apply_answer_cases [OF out assms(2)]
      show ?thesis
      proof (cases q)
        case (Inl e)
        with cs(1,2) out QueryAnswered True mono assms(1) show ?thesis
          by (auto simp: dns_step_def dns_ended_def dns_inv_def)
      next
        case (Inr r)
        obtain until n where r: "r = (until, n)" by fastforce
        with cs(1) cs(3) [of until n] out QueryAnswered True Inr show ?thesis
          by (auto simp: dns_step_def dns_inv_def answers_of_def)
      qed
    next
      case (QueryFailed now observed e)
      with True query_failed_inv [OF assms] mono show ?thesis by (auto simp: dns_step_def)
    qed
  qed
qed

lemma dns_run_inv:
  assumes "dns_inv is_root c A run" "dyn_revision (dr_view run) + length inputs \<le> u64_max"
  shows "dns_inv is_root c (A \<union> answers_of inputs) (fold (dns_step is_root c) inputs run)
    \<and> dyn_revision (dr_view (fold (dns_step is_root c) inputs run)) \<le> dyn_revision (dr_view run) + length inputs"
  using assms
proof (induction inputs arbitrary: A run)
  case Nil
  then show ?case by (simp add: answers_of_def)
next
  case (Cons input inputs)
  from Cons.prems dns_step_inv [of is_root c A run input]
  have step: "dns_inv is_root c (A \<union> answers_of [input]) (dns_step is_root c input run)"
    "dyn_revision (dr_view (dns_step is_root c input run)) \<le> Suc (dyn_revision (dr_view run))" by auto
  have answers: "A \<union> answers_of [input] \<union> answers_of inputs = A \<union> answers_of (input # inputs)" by (auto simp: answers_of_def)
  from Cons.IH [OF step(1)] step(2) Cons.prems(2) show ?case by (auto simp: answers)
qed


section \<open>A file and an answer with one peer\<close>

definition example_file :: bytes where
  "example_file = as_bytes (''Seed:1'' @ [newline])"

definition example_polls :: "(instant \<times> file_read \<times> instant) list" where
  "example_polls = [(7, FileBytes example_file, 8), (9, OpenFailed ''denied'', 10)]"

lemma example_lines: "peer_lines (''Seed:1'' @ [newline]) = [''Seed:1'']"
  by code_simp

lemma example_read: "read_peer_file (file_watch_config_new ''peers'') (FileBytes example_file) = Inr [''seed:1'']"
proof -
  have utf8: "utf8_valid example_file" "length example_file = 7" by (simp_all add: example_file_def newline_def as_bytes_def)
  have "string_of_bytes example_file = ''Seed:1'' @ [newline]" by (simp only: example_file_def string_of_as_bytes)
  then have "parse_peer_file (string_of_bytes example_file) DEFAULT_MAX_PEER_CANDIDATES = Inr [''seed:1'']"
    unfolding parse_peer_file_iff by (simp only: example_lines) (simp add: example_canonical dedup_onto_def DEFAULT_MAX_PEER_CANDIDATES_def)
  with utf8 show ?thesis
    by (simp add: read_peer_file_def file_watch_config_new_def DEFAULT_MAX_FILE_BYTES_def u64_max_def Let_def)
qed

theorem file_view_last_valid_witness:
  "\<exists>next s. run_file_watch (file_watch_config_new ''peers'') 5 example_polls (dynamic_new 4) = Inr (next, s)
     \<and> dyn_peers s = [''seed:1'']"
proof -
  let ?c = "file_watch_config_new ''peers''"
  have c: "0 < fw_poll_interval ?c" "fw_max_file_bytes ?c < u64_max" "fw_poll_interval ?c = 2000000000"
    by (simp_all add: file_watch_config_new_def DEFAULT_POLL_INTERVAL_def DEFAULT_MAX_FILE_BYTES_def secs_def u64_max_def)
  obtain n s where run: "run_file_watch ?c 5 example_polls (dynamic_new 4) = Inr (n, s)"
    by (simp add: run_file_watch_def example_polls_def file_poll_def next_poll_deadline_def checked_deadline_def
        instant_checked_add_def INSTANT_MAX_def c(3) Let_def)
  have "dyn_revision (dynamic_new 4) + length example_polls \<le> u64_max"
    by (simp add: dynamic_new_def example_polls_def u64_max_def)
  from file_view_last_valid [OF run this c(1,2)]
  have "dyn_peers s = last_valid ?c [FileBytes example_file, OpenFailed ''denied''] (dyn_peers (dynamic_new 4))"
    by (simp add: example_polls_def)
  with run show ?thesis by (simp add: last_valid_def example_read) (simp add: read_peer_file_def)
qed

definition example_record :: srv_record where
  "example_record = \<lparr>srv_priority = 0, srv_weight = 0, srv_port = 1, srv_target = ''Seed.''\<rparr>"

lemma example_peers: "records_to_peers (\<lambda>t. t = ''.'') [example_record] 8 = [''seed:1'']"
proof -
  have shown: "show_nat 1 = ''1''" unfolding show_nat_def by code_simp
  have "srv_endpoint example_record = Some ''seed:1''"
    using shown example_canonical by (simp add: srv_endpoint_def example_record_def trim_final_dots_def)
  then show ?thesis by (simp add: records_to_peers_eq map_filter_def dedup_onto_def) (simp add: example_record_def)
qed

theorem srv_order_irrelevant_witness:
  "records_to_peers (\<lambda>t. t = ''.'') [example_record, example_record\<lparr>srv_priority := 1\<rparr>] 8
   = records_to_peers (\<lambda>t. t = ''.'') [example_record\<lparr>srv_priority := 1\<rparr>, example_record] 8"
proof -
  have "mset [example_record, example_record\<lparr>srv_priority := 1\<rparr>] = mset [example_record\<lparr>srv_priority := 1\<rparr>, example_record]" by simp
  from srv_order_irrelevant [OF this] show ?thesis by blast
qed


end
