(* ===== verification/Gossip_Discovery.thy ===== *)
theory Gossip_Discovery
  imports Polled_Discovery Bootstrap
begin

text \<open>
  The discovery provider that asks bootstrap seeds (\<open>nx-core/src/discovery/bootstrap_gossip.rs\<close>): its
  settings, the schedule of every seed, the views their answers leave, the loop that asks them and
  publishes the views, and the withdrawal of the node's announcement at the end. What a query returns
  (\<open>BootstrapClient::query\<close> is modelled in \<open>Bootstrap\<close>) and every reading of the clock are inputs.
\<close>

section \<open>Settings\<close>

definition DEFAULT_REFRESH_INTERVAL :: duration where "DEFAULT_REFRESH_INTERVAL = secs 20"
definition DEFAULT_RETRY_INITIAL :: duration where "DEFAULT_RETRY_INITIAL = millis 500"
definition DEFAULT_RETRY_MAX :: duration where "DEFAULT_RETRY_MAX = secs 30"
definition DEFAULT_STALE_AFTER :: duration where "DEFAULT_STALE_AFTER = secs 120"
definition DEFAULT_MAX_SEEDS :: nat where "DEFAULT_MAX_SEEDS = 32"
definition SHUTDOWN_WITHDRAWAL_BUDGET :: duration where "SHUTDOWN_WITHDRAWAL_BUDGET = secs 4"

record gossip_config =
  gc_seeds :: "string list"
  gc_cluster_id :: string
  gc_refresh_interval :: duration
  gc_retry_initial :: duration
  gc_retry_max :: duration
  gc_stale_after :: duration
  gc_max_seeds :: nat
  gc_max_candidates :: nat
  gc_event_capacity :: nat

definition gossip_config_new :: "string list \<Rightarrow> gossip_config" where
  "gossip_config_new seeds =
     \<lparr>gc_seeds = seeds, gc_cluster_id = DEFAULT_DISCOVERY_CLUSTER, gc_refresh_interval = DEFAULT_REFRESH_INTERVAL,
      gc_retry_initial = DEFAULT_RETRY_INITIAL, gc_retry_max = DEFAULT_RETRY_MAX, gc_stale_after = DEFAULT_STALE_AFTER,
      gc_max_seeds = DEFAULT_MAX_SEEDS, gc_max_candidates = DEFAULT_MAX_PEER_CANDIDATES,
      gc_event_capacity = DEFAULT_DISCOVERY_EVENT_CAPACITY\<rparr>"

definition gossip_invalid :: "string \<Rightarrow> discovery_error" where
  "gossip_invalid message = InvalidConfiguration ''bootstrap'' message"

definition gossip_error :: "string \<Rightarrow> bool \<Rightarrow> discovery_error" where
  "gossip_error message retryable = ProviderError ''bootstrap'' message retryable"

definition gossip_validate_config :: "instant \<Rightarrow> gossip_config \<Rightarrow> discovery_error + unit" where
  "gossip_validate_config now c =
     res_bind (validate_event_capacity ''bootstrap'' (gc_event_capacity c)) (\<lambda>_.
     if gc_seeds c = [] then Inl (gossip_invalid ''at least one bootstrap seed is required'')
     else if length (gc_seeds c) > gc_max_seeds c
     then Inl (gossip_invalid (''bootstrap seed count exceeds the '' @ show_nat (gc_max_seeds c) @ '' seed limit''))
     else if gc_cluster_id c = [] \<or> length (gc_cluster_id c) > 128
     then Inl (gossip_invalid ''cluster_id length must be in 1..=128 bytes'')
     else if gc_refresh_interval c = 0 \<or> gc_retry_initial c = 0 \<or> gc_retry_max c < gc_retry_initial c
       \<or> gc_stale_after c = 0 \<or> gc_max_seeds c = 0 \<or> gc_max_candidates c = 0
       \<or> gc_max_candidates c > MAX_BOOTSTRAP_RESPONSE_CAPACITY
     then Inl (gossip_invalid ''intervals and limits are inconsistent'')
     else validate_durations now ''bootstrap''
       [(''refresh_interval'', gc_refresh_interval c), (''retry_initial'', gc_retry_initial c),
        (''retry_max'', gc_retry_max c), (''stale_after'', gc_stale_after c)])"

fun node_config_error_display :: "node_config_error \<Rightarrow> string" where
  "node_config_error_display (MaxPeersTooLarge limit) = ''max_peers must not exceed '' @ show_nat limit"
| "node_config_error_display (InvalidEventChannelCapacity limit) = ''event_channel_capacity must be in 1..='' @ show_nat limit"
| "node_config_error_display InvalidSocketTimeout = ''socket_timeout must be positive and form a representable deadline''"

fun bootstrap_error_display :: "bootstrap_error \<Rightarrow> string" where
  "bootstrap_error_display (InvalidConfig e) = ''invalid bootstrap configuration: '' @ e"
| "bootstrap_error_display (ConcurrencyLimitReached limit) = ''bootstrap query concurrency limit reached: '' @ show_nat limit"
| "bootstrap_error_display (Rejected reason) = ''bootstrap request rejected: '' @ reason"
| "bootstrap_error_display (InvalidResponse e) = ''invalid bootstrap response: '' @ e"
| "bootstrap_error_display (BootstrapTransport e) = ''bootstrap transport error: '' @ net_error_display e"
| "bootstrap_error_display (BootstrapNodeConfig e) = ''invalid node configuration: '' @ node_config_error_display e"

section \<open>The provider\<close>

record gossip_provider =
  gp_config :: gossip_config
  gp_client :: bootstrap_client
  gp_state :: dynamic_state
  gp_announcement :: "string option"
  gp_announced_seeds :: "string oset"
  gp_lifecycle :: provider_lifecycle

definition canonical_seed :: "string \<Rightarrow> string list \<Rightarrow> discovery_error + string list" where
  "canonical_seed seed seeds =
     res_bind (map_err (\<lambda>e. gossip_invalid (''invalid bootstrap seed: '' @ discovery_error_display e)) (canonicalize_endpoint seed))
       (\<lambda>seed. Inr (if seed \<in> set seeds then seeds else seeds @ [seed]))"

definition gossip_provider_new ::
    "nat \<Rightarrow> instant \<Rightarrow> gossip_config \<Rightarrow> bootstrap_client_config \<Rightarrow> discovery_error + gossip_provider" where
  "gossip_provider_new max_permits now c cc =
     res_bind (gossip_validate_config now c) (\<lambda>_.
     if gc_max_candidates c > bcc_max_response_candidates cc
     then Inl (gossip_invalid (''max_candidates exceeds the bootstrap client response limit of ''
       @ show_nat (bcc_max_response_candidates cc)))
     else
       res_bind (fold_res canonical_seed (gc_seeds c) []) (\<lambda>seeds.
       res_bind (map_err (\<lambda>e. gossip_invalid (''invalid bootstrap client: '' @ bootstrap_error_display e))
           (bootstrap_client_new max_permits now cc)) (\<lambda>client.
         Inr \<lparr>gp_config = c\<lparr>gc_seeds := seeds\<rparr>, gp_client = client, gp_state = dynamic_new (gc_event_capacity c),
           gp_announcement = None, gp_announced_seeds = om_empty, gp_lifecycle = lifecycle_new\<rparr>)))"

definition gossip_ensure_started :: "gossip_provider \<Rightarrow> discovery_error + gossip_provider" where
  "gossip_ensure_started p =
     res_bind (ensure_started ''bootstrap'' (gp_lifecycle p) (gp_state p)) (\<lambda>(lc, s). Inr (p\<lparr>gp_lifecycle := lc, gp_state := s\<rparr>))"

definition gossip_announce :: "string \<Rightarrow> gossip_provider \<Rightarrow> discovery_error + gossip_provider" where
  "gossip_announce endpoint p =
     (if lc_stopped (gp_lifecycle p) then Inl (gossip_error ''provider is shut down'' False)
      else case canonicalize_endpoint endpoint of
        Inl e \<Rightarrow> Inl (gossip_error (discovery_error_display e) False)
      | Inr endpoint \<Rightarrow> Inr (p\<lparr>gp_announcement := Some endpoint\<rparr>))"

definition gossip_discover :: "gossip_provider \<Rightarrow> gossip_provider \<times> (discovery_error + discovery_snapshot)" where
  "gossip_discover p = (case gossip_ensure_started p of Inl e \<Rightarrow> (p, Inl e) | Inr r \<Rightarrow> (r, Inr (dynamic_snapshot (gp_state r))))"

definition gossip_watch :: "gossip_provider \<Rightarrow> gossip_provider \<times> (discovery_error + discovery_watch \<times> nat \<times> nat)" where
  "gossip_watch p = (case gossip_ensure_started p of Inl e \<Rightarrow> (p, Inl e) | Inr r \<Rightarrow> (r, live_watch (gp_state r)))"

definition gossip_request_shutdown :: "gossip_provider \<Rightarrow> gossip_provider" where
  "gossip_request_shutdown p = p\<lparr>gp_lifecycle := request_shutdown (gp_lifecycle p)\<rparr>"

definition gossip_shutdown :: "task_completion option \<Rightarrow> gossip_provider \<Rightarrow> gossip_provider \<times> (discovery_error + unit)" where
  "gossip_shutdown completion p =
     (let p' = gossip_request_shutdown p
      in (p'\<lparr>gp_announcement := None\<rparr>, join_generation ''bootstrap'' completion (gp_lifecycle p')))"

section \<open>The end of a generation\<close>

text \<open>
  The withdrawal asks the seeds that know the announcement, in some order, without an endpoint, each within its
  share of the time that is left. The result is the queries with their deadlines; \<open>now\<close> is the time
  before each of them.
\<close>

fun withdraw_loop :: "string \<Rightarrow> instant \<Rightarrow> (string \<times> instant) list \<Rightarrow> discovery_error + (string \<times> bootstrap_request \<times> instant) list" where
  "withdraw_loop cluster deadline [] = Inr []"
| "withdraw_loop cluster deadline ((seed, now) # rest) =
     (let remaining = deadline - now
      in if remaining = 0 then Inr []
         else
           let remaining_seeds = max 1 (min (length rest + 1) (2 ^ 32 - 1))
           in res_bind (checked_deadline now (remaining div remaining_seeds) ''bootstrap'' ''withdrawal slot'') (\<lambda>slot.
              res_bind (withdraw_loop cluster deadline rest) (\<lambda>queries.
                Inr ((seed, bootstrap_request_new cluster 1, slot) # queries))))"

definition cleanup_withdraw ::
    "gossip_provider \<Rightarrow> instant \<Rightarrow> (string \<times> instant) list \<Rightarrow> discovery_error + (string \<times> bootstrap_request \<times> instant) list" where
  "cleanup_withdraw p now seeds =
     (if gp_announcement p = None then Inr []
      else
        res_bind (checked_deadline now SHUTDOWN_WITHDRAWAL_BUDGET ''bootstrap'' ''withdrawal'') (\<lambda>deadline.
          withdraw_loop (gc_cluster_id (gp_config p)) deadline seeds))"

definition cleanup_drop :: "instant \<Rightarrow> bool \<Rightarrow> gossip_provider \<Rightarrow> gossip_provider" where
  "cleanup_drop now preserve_announcement p =
     p\<lparr>gp_announced_seeds := om_empty, gp_announcement := (if preserve_announcement then gp_announcement p else None),
       gp_state := dyn_replace now [] (gp_state p)\<rparr>"

section \<open>Schedules and views of seeds\<close>

record seed_view =
  sv_endpoints :: "string list"
  sv_expires_at :: instant
  sv_observed_at :: instant

record seed_schedule =
  next_probe :: instant
  not_before :: instant
  retry_delay :: duration
  disabled :: bool

definition schedule_new :: "gossip_config \<Rightarrow> instant \<Rightarrow> seed_schedule" where
  "schedule_new c now = \<lparr>next_probe = now, not_before = now, retry_delay = gc_retry_initial c, disabled = False\<rparr>"

definition schedule_deadline :: "seed_schedule \<Rightarrow> instant option" where
  "schedule_deadline sch = (if disabled sch then None else Some (max (next_probe sch) (not_before sch)))"

definition schedule_announce :: "instant \<Rightarrow> seed_schedule \<Rightarrow> seed_schedule" where
  "schedule_announce now sch = sch\<lparr>next_probe := now\<rparr>"

definition bootstrap_error_is_fatal :: "bootstrap_error \<Rightarrow> bool" where
  "bootstrap_error_is_fatal error =
     (case error of
        InvalidConfig _ \<Rightarrow> True | Rejected _ \<Rightarrow> True | InvalidResponse _ \<Rightarrow> True | BootstrapNodeConfig _ \<Rightarrow> True
      | BootstrapTransport (Wire wire) \<Rightarrow> retry_policy wire = PolicyFatal \<or> retry_policy wire = PolicyRequestFatal
      | _ \<Rightarrow> False)"

definition bootstrap_retry_after :: "bootstrap_error \<Rightarrow> duration option" where
  "bootstrap_retry_after error =
     (case error of
        BootstrapTransport (Wire wire) \<Rightarrow> (case retry_policy wire of PolicyRetryAfter d \<Rightarrow> Some d | _ \<Rightarrow> None)
      | _ \<Rightarrow> None)"

text \<open>A failure; the schedule stays disabled when a deadline is not representable.\<close>

definition schedule_failed ::
    "gossip_config \<Rightarrow> bootstrap_error \<Rightarrow> instant \<Rightarrow> seed_schedule \<Rightarrow> seed_schedule \<times> (discovery_error + unit)" where
  "schedule_failed c error now sch =
     (let was_disabled = bootstrap_error_is_fatal error;
          sch1 = sch\<lparr>disabled := True\<rparr>;
          barrier = min (case bootstrap_retry_after error of Some d \<Rightarrow> d | None \<Rightarrow> 0) (gc_retry_max c)
      in case checked_deadline now barrier ''bootstrap'' ''retry_after'' of
           Inl e \<Rightarrow> (sch1, Inl e)
         | Inr t \<Rightarrow>
             let sch2 = sch1\<lparr>not_before := t\<rparr>
             in case checked_deadline now (retry_delay sch2) ''bootstrap'' ''retry_delay'' of
                  Inl e \<Rightarrow> (sch2, Inl e)
                | Inr u \<Rightarrow>
                    (sch2\<lparr>next_probe := u, retry_delay := min (duration_saturating_mul (retry_delay sch2) 2) (gc_retry_max c),
                       disabled := was_disabled\<rparr>, Inr ()))"

definition seed_deadlines :: "instant \<Rightarrow> gossip_config \<Rightarrow> duration \<Rightarrow> discovery_error + instant \<times> instant" where
  "seed_deadlines now c ttl =
     res_bind (checked_deadline now (gc_refresh_interval c) ''bootstrap'' ''refresh_interval'') (\<lambda>refresh.
     res_bind (checked_deadline now (min ttl (gc_stale_after c)) ''bootstrap'' ''candidate_ttl'') (\<lambda>expiry.
       Inr (refresh, expiry)))"

text \<open>The loops return as soon as there are \<open>limit\<close> endpoints.\<close>

definition flatten_views :: "string list \<Rightarrow> (string, seed_view) omap \<Rightarrow> nat \<Rightarrow> string list" where
  "flatten_views seeds views limit =
     fold (\<lambda>seed result.
       case om_get views seed of
         None \<Rightarrow> result
       | Some view \<Rightarrow>
           fold (\<lambda>endpoint result. if length result < limit \<and> endpoint \<notin> set result then result @ [endpoint] else result)
             (sv_endpoints view) result) seeds []"

definition latest_observation :: "(string, seed_view) omap \<Rightarrow> string \<Rightarrow> instant option" where
  "latest_observation views peer =
     (let ts = map sv_observed_at (filter (\<lambda>view. peer \<in> set (sv_endpoints view)) (om_values views))
      in if ts = [] then None else Some (Max (set ts)))"

record gossip_view =
  gv_views :: "(string, seed_view) omap"
  gv_state :: dynamic_state
  gv_announced :: "string oset"
  gv_sent :: "(string \<times> bootstrap_request \<times> instant) list"

definition unexpired_view :: "instant \<Rightarrow> (string, seed_view) omap \<Rightarrow> string \<Rightarrow> bool" where
  "unexpired_view now views seed = (case om_get views seed of Some view \<Rightarrow> sv_expires_at view > now | None \<Rightarrow> False)"

definition publish_views :: "gossip_config \<Rightarrow> instant \<Rightarrow> gossip_view \<Rightarrow> gossip_view" where
  "publish_views c now v =
     (let views = om_filter (unexpired_view now (gv_views v)) (gv_views v);
          peers = flatten_views (gc_seeds c) views (gc_max_candidates c)
      in v\<lparr>gv_views := views,
           gv_state := dyn_observe_at (List.map_filter (\<lambda>peer. map_option (Pair peer) (latest_observation views peer)) peers) (gv_state v)\<rparr>)"

section \<open>The loop\<close>

text \<open>
  What happens around the probe of a seed: when its deadline is looked at, when views expire while
  the query is out, the answer (\<open>None\<close> when the provider is shut down meanwhile), and the times read after it.
\<close>

record probe_input =
  pi_checked :: instant
  pi_waits :: "instant list"
  pi_answer :: "(bootstrap_error + bootstrap_response) option"
  pi_now :: instant
  pi_observed :: instant
  pi_published :: instant

definition probe_request :: "gossip_config \<Rightarrow> string option \<Rightarrow> bootstrap_request" where
  "probe_request c announcement =
     (let request = bootstrap_request_new (gc_cluster_id c) (gc_max_candidates c)
      in case announcement of Some endpoint \<Rightarrow> request_with_advertised_endpoint endpoint request | None \<Rightarrow> request)"

definition send_probe :: "gossip_config \<Rightarrow> string option \<Rightarrow> instant \<Rightarrow> string \<Rightarrow> gossip_view \<Rightarrow> gossip_view" where
  "send_probe c announcement now seed v =
     v\<lparr>gv_announced := (if announcement \<noteq> None then om_insert seed () (gv_announced v) else gv_announced v),
       gv_sent := gv_sent v @ [(seed, probe_request c announcement, now)]\<rparr>"

definition answered_endpoints :: "gossip_config \<Rightarrow> string \<Rightarrow> bootstrap_response \<Rightarrow> string list" where
  "answered_endpoints c seed response =
     take (gc_max_candidates c) (fold (\<lambda>e es. if e \<in> set es then es else es @ [e]) (endpoints response) [seed])"

definition take_answer ::
    "gossip_config \<Rightarrow> probe_input \<Rightarrow> string \<Rightarrow> bootstrap_error + bootstrap_response \<Rightarrow> seed_schedule \<Rightarrow> gossip_view \<Rightarrow> seed_schedule \<times> gossip_view" where
  "take_answer c i seed answer sch v =
     (case answer of
        Inr response \<Rightarrow>
          (let sch1 = sch\<lparr>retry_delay := gc_retry_initial c\<rparr>
           in case seed_deadlines (pi_now i) c (response_ttl response) of
                Inl _ \<Rightarrow> (sch1\<lparr>disabled := True\<rparr>, v\<lparr>gv_views := om_remove seed (gv_views v)\<rparr>)
              | Inr (refresh, expiry) \<Rightarrow>
                  (sch1\<lparr>next_probe := refresh\<rparr>,
                   v\<lparr>gv_views := om_insert seed \<lparr>sv_endpoints = answered_endpoints c seed response, sv_expires_at = expiry,
                     sv_observed_at = pi_observed i\<rparr> (gv_views v)\<rparr>))
      | Inl e \<Rightarrow> (fst (schedule_failed c e (pi_now i) sch), v))"

definition probe_seed ::
    "gossip_config \<Rightarrow> string option \<Rightarrow> probe_input \<Rightarrow> string \<Rightarrow> seed_schedule \<Rightarrow> gossip_view \<Rightarrow> seed_schedule \<times> gossip_view \<times> bool" where
  "probe_seed c announcement i seed sch v =
     (if (case schedule_deadline sch of None \<Rightarrow> True | Some deadline \<Rightarrow> deadline > pi_checked i) then (sch, v, False)
      else
        let v1 = fold (publish_views c) (pi_waits i) (send_probe c announcement (pi_checked i) seed v)
        in case pi_answer i of
             None \<Rightarrow> (sch, v1, True)
           | Some answer \<Rightarrow>
               (case take_answer c i seed answer sch v1 of (sch', v2) \<Rightarrow> (sch', publish_views c (pi_published i) v2, False)))"

fun gossip_pass ::
    "gossip_config \<Rightarrow> string option \<Rightarrow> (string \<Rightarrow> probe_input) \<Rightarrow> (string \<times> seed_schedule) list \<Rightarrow> gossip_view
     \<Rightarrow> (string \<times> seed_schedule) list \<times> gossip_view \<times> bool" where
  "gossip_pass c announcement i [] v = ([], v, False)"
| "gossip_pass c announcement i ((seed, sch) # rest) v =
     (case probe_seed c announcement (i seed) seed sch v of (sch', v1, gone) \<Rightarrow>
        if gone then ((seed, sch') # rest, v1, True)
        else case gossip_pass c announcement i rest v1 of (rest', v2, gone) \<Rightarrow> ((seed, sch') # rest', v2, gone))"

text \<open>
  One turn of \<open>run_bootstrap\<close>: the seeds in order, the views, and what ends the wait after them. The state
  holds whether the loop has returned.
\<close>

datatype gossip_wake = DeadlinePassed | NewAnnouncement instant | ShutdownSignal

record gossip_turn_input =
  ti_announcement :: "string option"
  ti_probes :: "string \<Rightarrow> probe_input"
  ti_published :: instant
  ti_wake :: gossip_wake

definition gossip_deadline :: "(string \<times> seed_schedule) list \<Rightarrow> gossip_view \<Rightarrow> instant option" where
  "gossip_deadline schedules v =
     (let ts = List.map_filter (schedule_deadline \<circ> snd) schedules @ map sv_expires_at (om_values (gv_views v))
      in if ts = [] then None else Some (Min (set ts)))"

definition gossip_turn ::
    "gossip_config \<Rightarrow> gossip_turn_input \<Rightarrow> (string \<times> seed_schedule) list \<times> gossip_view \<times> bool
     \<Rightarrow> (string \<times> seed_schedule) list \<times> gossip_view \<times> bool" where
  "gossip_turn c t run =
     (case run of (schedules, v, returned) \<Rightarrow>
        if returned then run
        else case gossip_pass c (ti_announcement t) (ti_probes t) schedules v of
          (schedules1, v1, True) \<Rightarrow> (schedules1, v1, True)
        | (schedules1, v1, False) \<Rightarrow>
            let v2 = publish_views c (ti_published t) v1
            in case ti_wake t of
                 DeadlinePassed \<Rightarrow> (schedules1, v2, False)
               | NewAnnouncement now \<Rightarrow> (map (apsnd (schedule_announce now)) schedules1, v2, False)
               | ShutdownSignal \<Rightarrow> (schedules1, v2, True))"

definition gossip_start :: "gossip_config \<Rightarrow> instant \<Rightarrow> dynamic_state \<Rightarrow> string oset \<Rightarrow> (string \<times> seed_schedule) list \<times> gossip_view \<times> bool" where
  "gossip_start c now s announced =
     (map (\<lambda>seed. (seed, schedule_new c now)) (gc_seeds c),
      \<lparr>gv_views = om_empty, gv_state = s, gv_announced = announced, gv_sent = []\<rparr>, False)"

section \<open>Withdrawal\<close>

text \<open>Every query has ended by its slot when the next one is about to start.\<close>

fun in_slots :: "instant \<Rightarrow> instant \<Rightarrow> (string \<times> instant) list \<Rightarrow> bool" where
  "in_slots deadline bound [] = True"
| "in_slots deadline bound ((seed, now) # rest) =
     (now \<le> bound \<and> in_slots deadline (now + (deadline - now) div (length rest + 1)) rest)"

lemma withdraw_loop_all:
  assumes "in_slots deadline bound seeds" "bound < deadline" "deadline \<le> INSTANT_MAX" "length seeds < 2 ^ 32"
  shows "\<exists>qs. withdraw_loop cluster deadline seeds = Inr qs \<and> map fst qs = map fst seeds
    \<and> (\<forall>(s, r, t) \<in> set qs. r = bootstrap_request_new cluster 1 \<and> t \<le> deadline)"
  using assms
proof (induction seeds arbitrary: bound)
  case (Cons x rest)
  obtain seed now where x: "x = (seed, now)" by fastforce
  define slot where "slot = now + (deadline - now) div (length rest + 1)"
  have now: "now < deadline" and rest: "in_slots deadline slot rest" using Cons.prems by (simp_all add: x slot_def)
  have le: "slot \<le> deadline"
    using now div_le_dividend [of "deadline - now" "length rest + 1"] unfolding slot_def by linarith
  have share: "max 1 (min (length rest + 1) (2 ^ 32 - 1)) = length rest + 1" using Cons.prems(4) by simp
  have slot: "checked_deadline now ((deadline - now) div (length rest + 1)) p f = Inr slot" for p f
    using le Cons.prems(3) by (simp add: checked_deadline_def instant_checked_add_def slot_def)
  have "slot < deadline" if "rest \<noteq> []"
  proof -
    have "(deadline - now) div (length rest + 1) < deadline - now"
      using that now by (intro div_less_dividend) (simp_all add: Suc_lessI)
    with now show ?thesis by (simp add: slot_def)
  qed
  then obtain qs where "withdraw_loop cluster deadline rest = Inr qs" "map fst qs = map fst rest"
    "\<forall>(s, r, t) \<in> set qs. r = bootstrap_request_new cluster 1 \<and> t \<le> deadline"
    using Cons.IH [OF rest] Cons.prems(3,4) by (cases "rest = []") auto
  with now le share slot show ?case by (simp add: x Let_def)
qed simp

section \<open>What is published\<close>

definition seen_endpoints :: "gossip_config \<Rightarrow> (string, seed_view) omap \<Rightarrow> string list" where
  "seen_endpoints c views =
     concat (map (\<lambda>seed. case om_get views seed of None \<Rightarrow> [] | Some view \<Rightarrow> sv_endpoints view) (gc_seeds c))"

lemma fold_over_views:
  "fold (\<lambda>k result. case get k of None \<Rightarrow> result | Some v \<Rightarrow> fold f (es v) result) ks acc
   = fold f (concat (map (\<lambda>k. case get k of None \<Rightarrow> [] | Some v \<Rightarrow> es v) ks)) acc"
  by (induction ks arbitrary: acc) (simp_all split: option.split)

lemma flatten_views_eq: "flatten_views (gc_seeds c) views limit = take limit (dedup_onto [] (seen_endpoints c views))"
  unfolding flatten_views_def seen_endpoints_def fold_over_views by (simp add: bounded_dedup)

lemma om_get_values: "om_get m k = Some v \<Longrightarrow> v \<in> set (om_values m)"
  by (force simp: om_values_def om_in_entries [symmetric])

lemma seen_endpointsE:
  assumes "e \<in> set (seen_endpoints c views)"
  obtains seed view where "seed \<in> set (gc_seeds c)" "om_get views seed = Some view" "e \<in> set (sv_endpoints view)"
proof -
  from assms obtain seed where "seed \<in> set (gc_seeds c)" "e \<in> set (case om_get views seed of None \<Rightarrow> [] | Some view \<Rightarrow> sv_endpoints view)"
    by (auto simp: seen_endpoints_def)
  then show thesis by (cases "om_get views seed") (auto intro: that)
qed

lemma observed_at_view:
  assumes "dyn_revision (dyn_observe_at ps s) < u64_max"
  shows "dyn_peers (dyn_observe_at ps s) = map fst ps" "dyn_observations (dyn_observe_at ps s) = map snd ps"
  using assms by (auto simp: dyn_observe_at_def dyn_publish_def u64_checked_succ_def Let_def split: if_splits)

lemma paired_peers:
  "(\<And>p. p \<in> set ps \<Longrightarrow> f p \<noteq> None) \<Longrightarrow> map fst (List.map_filter (\<lambda>p. map_option (Pair p) (f p)) ps) = ps"
  by (induction ps) (auto simp: List.map_filter_simps split: option.splits)

lemma publish_views_peers:
  assumes "dyn_revision (gv_state (publish_views c now v)) < u64_max"
  shows "dyn_peers (gv_state (publish_views c now v))
      = take (gc_max_candidates c) (dedup_onto [] (seen_endpoints c (gv_views (publish_views c now v))))"
    and "om_get (gv_views (publish_views c now v)) seed = Some view \<longleftrightarrow> om_get (gv_views v) seed = Some view \<and> now < sv_expires_at view"
proof -
  define views where "views = gv_views (publish_views c now v)"
  let ?peers = "take (gc_max_candidates c) (dedup_onto [] (seen_endpoints c views))"
  have "latest_observation views peer \<noteq> None" if "peer \<in> set ?peers" for peer
  proof -
    have "peer \<in> set (seen_endpoints c views)" using that set_take_subset dedup_onto_props(2) [of "[]" "seen_endpoints c views"] by fastforce
    then obtain seed view where "om_get views seed = Some view" "peer \<in> set (sv_endpoints view)" by (rule seen_endpointsE)
    then show ?thesis using om_get_values [of views seed view] by (auto simp: latest_observation_def Let_def filter_empty_conv)
  qed
  then have "map fst (List.map_filter (\<lambda>peer. map_option (Pair peer) (latest_observation views peer)) ?peers) = ?peers"
    by (rule paired_peers)
  with observed_at_view(1) assms show "dyn_peers (gv_state (publish_views c now v)) = take (gc_max_candidates c) (dedup_onto [] (seen_endpoints c (gv_views (publish_views c now v))))"
    unfolding views_def [symmetric] by (simp add: publish_views_def Let_def views_def flatten_views_eq)
  show "om_get (gv_views (publish_views c now v)) seed = Some view \<longleftrightarrow> om_get (gv_views v) seed = Some view \<and> now < sv_expires_at view"
    by (auto simp: publish_views_def Let_def om_get_filter unexpired_view_def)
qed

section \<open>Where a view comes from\<close>

text \<open>The answers of a turn: the seed, the response, and the times at which it was read and observed.\<close>

type_synonym seed_answer = "string \<times> bootstrap_response \<times> instant \<times> instant"

definition answers_in :: "gossip_turn_input \<Rightarrow> seed_answer set" where
  "answers_in t = {(seed, response, now, observed).
     pi_answer (ti_probes t seed) = Some (Inr response) \<and> now = pi_now (ti_probes t seed) \<and> observed = pi_observed (ti_probes t seed)}"

definition views_from :: "gossip_config \<Rightarrow> seed_answer set \<Rightarrow> gossip_view \<Rightarrow> bool" where
  "views_from c answers v \<longleftrightarrow>
     (\<forall>seed view. om_get (gv_views v) seed = Some view \<longrightarrow>
       (\<exists>response now. (seed, response, now, sv_observed_at view) \<in> answers \<and> sv_endpoints view = answered_endpoints c seed response
         \<and> sv_expires_at view = now + min (response_ttl response) (gc_stale_after c)))"

lemma views_from_mono: "views_from c A v \<Longrightarrow> A \<subseteq> B \<Longrightarrow> views_from c B v"
  by (fastforce simp: views_from_def)

lemma publish_views_from: "views_from c A v \<Longrightarrow> views_from c A (publish_views c now v)"
  by (auto simp: views_from_def publish_views_def Let_def om_get_filter split: if_splits)

lemma waits_from: "views_from c A v \<Longrightarrow> views_from c A (fold (publish_views c) ts v)"
  by (induction ts arbitrary: v) (simp_all add: publish_views_from)

lemma seed_deadlines_Inr:
  "seed_deadlines now c ttl = Inr (refresh, expiry) \<Longrightarrow> expiry = now + min ttl (gc_stale_after c)"
  by (auto simp: seed_deadlines_def checked_deadline_def instant_checked_add_def res_bind_Inr_iff split: option.splits if_splits)

lemma take_answer_from:
  assumes "views_from c A v" "take_answer c i seed answer sch v = (sch', v')"
    and "\<And>response. answer = Inr response \<Longrightarrow> (seed, response, pi_now i, pi_observed i) \<in> A"
  shows "views_from c A v'"
proof (cases answer)
  case (Inl e)
  with assms(1,2) show ?thesis by (simp add: take_answer_def)
next
  case (Inr response)
  show ?thesis
  proof (cases "seed_deadlines (pi_now i) c (response_ttl response)")
    case (Inl e)
    with Inr assms(1,2) show ?thesis by (auto simp: take_answer_def views_from_def split: if_splits)
  next
    case (Inr times)
    obtain refresh expiry where times: "times = (refresh, expiry)" by fastforce
    note expiry = seed_deadlines_Inr [OF Inr [unfolded times]]
    from assms(2) \<open>answer = Inr response\<close> Inr times
    have v': "v' = v\<lparr>gv_views := om_insert seed \<lparr>sv_endpoints = answered_endpoints c seed response, sv_expires_at = expiry,
        sv_observed_at = pi_observed i\<rparr> (gv_views v)\<rparr>"
      by (simp add: take_answer_def)
    have new: "(seed, response, pi_now i, pi_observed i) \<in> A" using assms(3) \<open>answer = Inr response\<close> by blast
    show ?thesis
      unfolding views_from_def
    proof (intro allI impI)
      fix s view
      assume get: "om_get (gv_views v') s = Some view"
      show "\<exists>response now. (s, response, now, sv_observed_at view) \<in> A \<and> sv_endpoints view = answered_endpoints c s response
          \<and> sv_expires_at view = now + min (response_ttl response) (gc_stale_after c)"
      proof (cases "s = seed")
        case True
        with get new expiry show ?thesis by (intro exI [of _ response] exI [of _ "pi_now i"]) (auto simp: v')
      next
        case False
        with get assms(1) show ?thesis by (auto simp: v' views_from_def)
      qed
    qed
  qed
qed

lemma probe_seed_from:
  assumes "views_from c A v" "probe_seed c announcement i seed sch v = (sch', v', gone)"
    and "\<And>response. pi_answer i = Some (Inr response) \<Longrightarrow> (seed, response, pi_now i, pi_observed i) \<in> A"
  shows "views_from c A v'"
proof -
  have "views_from c A (send_probe c announcement (pi_checked i) seed v)" using assms(1) by (simp add: views_from_def send_probe_def)
  note v1 = waits_from [OF this, of "pi_waits i"]
  show ?thesis
  proof (cases "pi_answer i")
    case None
    with assms(1,2) v1 show ?thesis by (auto simp: probe_seed_def Let_def split: if_splits)
  next
    case (Some answer)
    then have "views_from c A v2" if "take_answer c i seed answer sch (fold (publish_views c) (pi_waits i) (send_probe c announcement (pi_checked i) seed v)) = (sch2, v2)"
      for sch2 v2 using take_answer_from [OF v1 that] assms(3) by simp
    with Some assms(1,2) show ?thesis by (auto simp: probe_seed_def Let_def publish_views_from split: if_splits prod.splits)
  qed
qed

lemma gossip_pass_from:
  assumes "views_from c A v" "gossip_pass c announcement i schedules v = (schedules', v', gone)"
    and "\<And>seed response. pi_answer (i seed) = Some (Inr response) \<Longrightarrow> (seed, response, pi_now (i seed), pi_observed (i seed)) \<in> A"
  shows "views_from c A v'"
  using assms(1,2)
proof (induction schedules arbitrary: v schedules')
  case (Cons x rest)
  obtain seed sch where x: "x = (seed, sch)" by fastforce
  obtain sch1 v1 g where probe: "probe_seed c announcement (i seed) seed sch v = (sch1, v1, g)" by (metis prod_cases3)
  from probe_seed_from [OF Cons.prems(1) probe] assms(3) have v1: "views_from c A v1" by simp
  obtain rest2 v2 g2 where "gossip_pass c announcement i rest v1 = (rest2, v2, g2)" by (metis prod_cases3)
  with Cons.IH [OF v1] Cons.prems(2) v1 probe show ?case by (auto simp: x split: if_splits)
qed simp

lemma gossip_turn_from:
  assumes "views_from c A v" "gossip_turn c t (schedules, v, returned) = (schedules', v', returned')"
  shows "views_from c (A \<union> answers_in t) v'"
proof -
  have A: "views_from c (A \<union> answers_in t) v" using views_from_mono [OF assms(1)] by simp
  obtain s1 v1 g where pass: "gossip_pass c (ti_announcement t) (ti_probes t) schedules v = (s1, v1, g)" by (metis prod_cases3)
  have v1: "views_from c (A \<union> answers_in t) v1" by (rule gossip_pass_from [OF A pass]) (simp add: answers_in_def)
  with A pass assms(2) show ?thesis
    by (auto simp: gossip_turn_def Let_def publish_views_from split: if_splits bool.splits gossip_wake.splits)
qed

lemma gossip_run_from:
  assumes "views_from c A v" "fold (gossip_turn c) turns (schedules, v, returned) = (schedules', v', returned')"
  shows "views_from c (A \<union> (\<Union>t \<in> set turns. answers_in t)) v'"
  using assms
proof (induction turns arbitrary: A schedules v returned)
  case (Cons t turns)
  obtain s1 v1 r1 where turn: "gossip_turn c t (schedules, v, returned) = (s1, v1, r1)" by (metis prod_cases3)
  from Cons.IH [OF gossip_turn_from [OF Cons.prems(1) turn]] Cons.prems(2) turn show ?case by (simp add: Un_assoc)
qed simp

text \<open>
  C27. What a gossip provider shows is fresh and bounded: after every turn its peers are the endpoints of the
  views that have not expired, by seed and in the order of the answers, each once and up to the limit; and
  each of them is a seed that answered or an endpoint such a seed named, in an answer not older than
  its lifetime and the provider's own limit at the time of publication.
\<close>

theorem gossip_view_fresh:
  assumes "fold (gossip_turn c) turns (gossip_start c start s announced) = (schedules, v, False)"
    and "gossip_turn c t (schedules, v, False) = (schedules', v', False)" "dyn_revision (gv_state v') < u64_max"
  shows "dyn_peers (gv_state v') = take (gc_max_candidates c) (dedup_onto [] (seen_endpoints c (gv_views v')))
    \<and> distinct (dyn_peers (gv_state v')) \<and> length (dyn_peers (gv_state v')) \<le> gc_max_candidates c
    \<and> (\<forall>peer \<in> set (dyn_peers (gv_state v')). \<exists>seed \<in> set (gc_seeds c). \<exists>response now observed.
        (seed, response, now, observed) \<in> (\<Union>u \<in> set (turns @ [t]). answers_in u)
        \<and> (peer = seed \<or> peer \<in> set (endpoints response))
        \<and> ti_published t < now + min (response_ttl response) (gc_stale_after c))"
proof -
  define A where "A = (\<Union>u \<in> set (turns @ [t]). answers_in u)"
  have start: "views_from c {} (fst (snd (gossip_start c start s announced)))" by (simp add: gossip_start_def views_from_def)
  obtain q0 v0 r0 where start_eq: "gossip_start c start s announced = (q0, v0, r0)" by (metis prod_cases3)
  have "views_from c ({} \<union> (\<Union>u \<in> set turns. answers_in u)) v"
    using gossip_run_from [of c "{}" v0 turns q0 r0 schedules v False] start assms(1) start_eq by simp
  from gossip_turn_from [OF this assms(2)] have from_A: "views_from c A v'" by (simp add: A_def Un_commute)
  obtain w where v': "v' = publish_views c (ti_published t) w"
    using assms(2) by (auto simp: gossip_turn_def Let_def split: prod.splits bool.splits gossip_wake.splits)
  note P = publish_views_peers [OF assms(3) [unfolded v'], folded v']
  have "\<exists>seed \<in> set (gc_seeds c). \<exists>response now observed. (seed, response, now, observed) \<in> A
      \<and> (peer = seed \<or> peer \<in> set (endpoints response)) \<and> ti_published t < now + min (response_ttl response) (gc_stale_after c)"
    if "peer \<in> set (dyn_peers (gv_state v'))" for peer
  proof -
    have "peer \<in> set (seen_endpoints c (gv_views v'))"
      using that set_take_subset [of "gc_max_candidates c" "dedup_onto [] (seen_endpoints c (gv_views v'))"]
        dedup_onto_props(2) [of "[]" "seen_endpoints c (gv_views v')"] unfolding P(1) by auto
    then obtain seed view where seed: "seed \<in> set (gc_seeds c)" "om_get (gv_views v') seed = Some view" "peer \<in> set (sv_endpoints view)"
      by (rule seen_endpointsE)
    from from_A seed(2) obtain response now where r: "(seed, response, now, sv_observed_at view) \<in> A"
      "sv_endpoints view = answered_endpoints c seed response" "sv_expires_at view = now + min (response_ttl response) (gc_stale_after c)"
      unfolding views_from_def by blast
    have "peer \<in> set (dedup_onto [seed] (endpoints response))"
      using seed(3) r(2) set_take_subset by (fastforce simp: answered_endpoints_def dedup_onto_def)
    then have "peer = seed \<or> peer \<in> set (endpoints response)" by (simp add: dedup_onto_props(2))
    moreover have "ti_published t < sv_expires_at view" using P(2) seed(2) by simp
    ultimately show ?thesis using seed(1) r by auto
  qed
  then show ?thesis unfolding A_def [symmetric] by (auto simp: P(1) dedup_onto_props(1) distinct_take)
qed

section \<open>When a seed is asked\<close>

definition sent_to :: "string \<Rightarrow> gossip_view \<Rightarrow> (string \<times> bootstrap_request \<times> instant) list" where
  "sent_to seed v = filter (\<lambda>q. fst q = seed) (gv_sent v)"

lemma publish_sent [simp]: "gv_sent (publish_views c now v) = gv_sent v"
  by (simp add: publish_views_def Let_def)

lemma waits_sent [simp]: "gv_sent (fold (publish_views c) ts v) = gv_sent v"
  by (induction ts arbitrary: v) simp_all

lemma take_answer_sent: "take_answer c i seed answer sch v = (sch', v') \<Longrightarrow> gv_sent v' = gv_sent v"
  by (auto simp: take_answer_def Let_def split: sum.splits)

lemma probe_sent:
  assumes "probe_seed c announcement i seed sch v = (sch', v', gone)"
  shows "seed \<noteq> other \<Longrightarrow> sent_to other v' = sent_to other v"
    and "disabled sch \<or> pi_checked i < not_before sch \<Longrightarrow> sch' = sch \<and> v' = v \<and> \<not> gone"
proof -
  have "gv_sent (send_probe c announcement now seed v) = gv_sent v @ [(seed, probe_request c announcement, now)]" for now
    by (simp add: send_probe_def)
  then have "gv_sent v' \<in> {gv_sent v, gv_sent v @ [(seed, probe_request c announcement, pi_checked i)]}"
    using assms by (auto simp: probe_seed_def Let_def dest!: take_answer_sent split: if_splits option.splits prod.splits)
  then show "seed \<noteq> other \<Longrightarrow> sent_to other v' = sent_to other v" by (auto simp: sent_to_def)
  have "case schedule_deadline sch of None \<Rightarrow> True | Some deadline \<Rightarrow> deadline > pi_checked i"
    if "disabled sch \<or> pi_checked i < not_before sch" using that by (auto simp: schedule_deadline_def less_max_iff_disj)
  then show "disabled sch \<or> pi_checked i < not_before sch \<Longrightarrow> sch' = sch \<and> v' = v \<and> \<not> gone"
    using assms by (simp add: probe_seed_def)
qed

lemma pass_quiet:
  assumes "gossip_pass c announcement i schedules v = (schedules', v', gone)" "distinct (map fst schedules)"
    and "\<forall>sch. (seed, sch) \<in> set schedules \<longrightarrow> disabled sch \<or> pi_checked (i seed) < not_before sch"
  shows "sent_to seed v' = sent_to seed v \<and> map fst schedules' = map fst schedules
    \<and> (\<forall>sch. (seed, sch) \<in> set schedules' \<longleftrightarrow> (seed, sch) \<in> set schedules)"
  using assms
proof (induction schedules arbitrary: v schedules')
  case (Cons x rest)
  obtain s sch where x: "x = (s, sch)" by fastforce
  obtain sch1 v1 g where probe: "probe_seed c announcement (i s) s sch v = (sch1, v1, g)" by (metis prod_cases3)
  have one: "sent_to seed v1 = sent_to seed v" "s = seed \<Longrightarrow> sch1 = sch"
    using probe_sent [OF probe] Cons.prems(3) x by (cases "s = seed"; auto)+
  obtain rest2 v2 g2 where "gossip_pass c announcement i rest v1 = (rest2, v2, g2)" by (metis prod_cases3)
  with Cons.IH [of v1 rest2] Cons.prems probe one show ?case by (auto simp: x split: if_splits)
qed simp

text \<open>A seed that must not be asked: disabled, or looked at before its barrier.\<close>

definition held_back :: "string \<Rightarrow> seed_schedule \<Rightarrow> gossip_turn_input list \<Rightarrow> bool" where
  "held_back seed sch turns \<longleftrightarrow> disabled sch \<or> (\<forall>t \<in> set turns. pi_checked (ti_probes t seed) < not_before sch)"

lemma turn_quiet:
  assumes "gossip_turn c t (schedules, v, returned) = (schedules', v', returned')" "distinct (map fst schedules)"
    and "(seed, sch) \<in> set schedules" "held_back seed sch [t]"
  shows "sent_to seed v' = sent_to seed v \<and> distinct (map fst schedules')
    \<and> (\<exists>sch'. (seed, sch') \<in> set schedules' \<and> disabled sch' = disabled sch \<and> not_before sch' = not_before sch)"
proof -
  obtain s1 v1 g where pass: "gossip_pass c (ti_announcement t) (ti_probes t) schedules v = (s1, v1, g)" by (metis prod_cases3)
  have "sch2 = sch" if "(seed, sch2) \<in> set schedules" for sch2
    using eq_key_imp_eq_value [OF assms(2) that assms(3)] .
  then have "\<forall>sch2. (seed, sch2) \<in> set schedules \<longrightarrow> disabled sch2 \<or> pi_checked (ti_probes t seed) < not_before sch2"
    using assms(4) unfolding held_back_def by force
  from pass_quiet [OF pass assms(2) this] assms(3)
  have quiet: "sent_to seed v1 = sent_to seed v" "map fst s1 = map fst schedules" "(seed, sch) \<in> set s1" by blast+
  have published: "sent_to seed (publish_views c now w) = sent_to seed w" for now w by (simp add: sent_to_def)
  have announced: "\<exists>sch'. (seed, sch') \<in> set (map (apsnd (schedule_announce now)) s1) \<and> disabled sch' = disabled sch \<and> not_before sch' = not_before sch"
    for now using quiet(3) by (intro exI [of _ "schedule_announce now sch"]) (force simp: schedule_announce_def)
  have fst: "map fst (map (apsnd (schedule_announce now)) s1) = map fst s1" for now by simp
  consider "returned" "schedules' = schedules" "v' = v"
    | "schedules' = s1" "v' = v1 \<or> (\<exists>n. v' = publish_views c n v1)"
    | now n where "schedules' = map (apsnd (schedule_announce now)) s1" "v' = publish_views c n v1"
    using assms(1) pass by (cases returned; cases g; cases "ti_wake t") (auto simp: gossip_turn_def)
  then show ?thesis
  proof cases
    case 1
    with assms(2,3) show ?thesis by auto
  next
    case 2
    with assms(2) quiet published show ?thesis by auto
  next
    case 3
    with assms(2) quiet(1,2) published announced [of now] fst [of now] show ?thesis by simp
  qed
qed

lemma run_quiet:
  assumes "fold (gossip_turn c) turns (schedules, v, returned) = (schedules', v', returned')" "distinct (map fst schedules)"
    and "(seed, sch) \<in> set schedules" "held_back seed sch turns"
  shows "sent_to seed v' = sent_to seed v"
  using assms
proof (induction turns arbitrary: schedules v returned sch)
  case (Cons t turns)
  obtain s1 v1 r1 where turn: "gossip_turn c t (schedules, v, returned) = (s1, v1, r1)" by (metis prod_cases3)
  have "held_back seed sch [t]" using Cons.prems(4) by (auto simp: held_back_def)
  from turn_quiet [OF turn Cons.prems(2,3) this] obtain sch1 where
    one: "sent_to seed v1 = sent_to seed v" "distinct (map fst s1)" "(seed, sch1) \<in> set s1" "disabled sch1 = disabled sch" "not_before sch1 = not_before sch"
    by blast
  have "held_back seed sch1 turns" using Cons.prems(4) one by (auto simp: held_back_def)
  from Cons.IH [OF _ one(2,3) this] Cons.prems(1) turn one(1) show ?case by simp
qed simp


text \<open>
  The withdrawal reaches every seed that knows the announcement within its budget: when each query is
  ended by its slot, all of them are asked, without an endpoint, and every slot ends in time.
\<close>

theorem withdrawal_reaches_seeds:
  assumes "gp_announcement p \<noteq> None" "now + SHUTDOWN_WITHDRAWAL_BUDGET \<le> INSTANT_MAX" "length seeds < 2 ^ 32"
    and "in_slots (now + SHUTDOWN_WITHDRAWAL_BUDGET) bound seeds" "bound < now + SHUTDOWN_WITHDRAWAL_BUDGET"
  shows "\<exists>queries. cleanup_withdraw p now seeds = Inr queries \<and> map fst queries = map fst seeds
    \<and> (\<forall>(seed, request, slot) \<in> set queries. req_advertised_endpoint request = None
        \<and> req_cluster_id request = gc_cluster_id (gp_config p) \<and> slot \<le> now + SHUTDOWN_WITHDRAWAL_BUDGET)"
proof -
  have "checked_deadline now SHUTDOWN_WITHDRAWAL_BUDGET ''bootstrap'' ''withdrawal'' = Inr (now + SHUTDOWN_WITHDRAWAL_BUDGET)"
    using assms(2) by (simp add: checked_deadline_def instant_checked_add_def)
  with withdraw_loop_all [OF assms(4,5,2,3), of "gc_cluster_id (gp_config p)"] assms(1) show ?thesis
    by (fastforce simp: cleanup_withdraw_def bootstrap_request_new_def)
qed

section \<open>A provider with one seed\<close>

definition example_gossip :: gossip_config where
  "example_gossip = (gossip_config_new [''seed:1''])\<lparr>gc_max_candidates := 4\<rparr>"

definition example_probe :: "(bootstrap_error + bootstrap_response) option \<Rightarrow> instant \<Rightarrow> probe_input" where
  "example_probe answer now = \<lparr>pi_checked = now, pi_waits = [], pi_answer = answer, pi_now = now, pi_observed = now, pi_published = now\<rparr>"

definition example_turn :: "(bootstrap_error + bootstrap_response) option \<Rightarrow> instant \<Rightarrow> gossip_turn_input" where
  "example_turn answer now =
     \<lparr>ti_announcement = None, ti_probes = (\<lambda>_. example_probe answer now), ti_published = now, ti_wake = DeadlinePassed\<rparr>"

definition example_response :: bootstrap_response where
  "example_response = \<lparr>seed_node_id = NodeId ''n'', endpoints = [''peer:2''], response_ttl = 100\<rparr>"

lemma example_gossip_fields:
  "gc_seeds example_gossip = [''seed:1'']" "gc_max_candidates example_gossip = 4" "gc_stale_after example_gossip = 120000000000"
  "gc_refresh_interval example_gossip = 20000000000" "gc_retry_max example_gossip = 30000000000"
  "gc_retry_initial example_gossip = 500000000" "gc_cluster_id example_gossip = ''default''"
  by (simp_all add: example_gossip_def gossip_config_new_def DEFAULT_STALE_AFTER_def DEFAULT_REFRESH_INTERVAL_def DEFAULT_RETRY_MAX_def
      DEFAULT_RETRY_INITIAL_def DEFAULT_DISCOVERY_CLUSTER_def secs_def millis_def)

theorem gossip_view_fresh_witness:
  "\<exists>schedules v. gossip_turn example_gossip (example_turn (Some (Inr example_response)) 5) (gossip_start example_gossip 5 (dynamic_new 4) om_empty)
      = (schedules, v, False)
    \<and> dyn_peers (gv_state v) = [''seed:1'', ''peer:2'']"
proof -
  let ?t = "example_turn (Some (Inr example_response)) 5"
  obtain schedules0 v0 where start: "gossip_start example_gossip 5 (dynamic_new 4) om_empty = (schedules0, v0, False)"
    by (simp add: gossip_start_def)
  obtain schedules v where turn: "gossip_turn example_gossip ?t (schedules0, v0, False) = (schedules, v, False)"
    and get: "om_get (gv_views v) ''seed:1'' = Some \<lparr>sv_endpoints = [''seed:1'', ''peer:2''], sv_expires_at = 105, sv_observed_at = 5\<rparr>"
    and rev: "dyn_revision (gv_state v) < u64_max"
    using start
    by (auto simp: gossip_start_def gossip_turn_def example_turn_def example_probe_def probe_seed_def schedule_deadline_def schedule_new_def
        take_answer_def seed_deadlines_def checked_deadline_def instant_checked_add_def INSTANT_MAX_def example_response_def
        answered_endpoints_def publish_views_def unexpired_view_def om_get_filter send_probe_def dynamic_new_def dyn_observe_at_def
        dyn_publish_def u64_checked_succ_def u64_max_def example_gossip_fields Let_def)
  have run: "fold (gossip_turn example_gossip) [] (gossip_start example_gossip 5 (dynamic_new 4) om_empty) = (schedules0, v0, False)"
    using start by simp
  from gossip_view_fresh [OF run turn rev] have "dyn_peers (gv_state v) = [''seed:1'', ''peer:2'']"
    using get by (simp add: seen_endpoints_def example_gossip_fields dedup_onto_def)
  with start turn show ?thesis by simp
qed


theorem withdrawal_reaches_seeds_witness:
  "\<exists>p queries. gp_announcement p = Some ''me:1'' \<and> cleanup_withdraw p 5 [(''seed:1'', 5), (''peer:2'', 7)] = Inr queries
     \<and> map fst queries = [''seed:1'', ''peer:2'']"
proof -
  obtain p :: gossip_provider where p: "gp_announcement p = Some ''me:1''"
    by (metis gossip_provider.select_convs(4))
  have "5 + SHUTDOWN_WITHDRAWAL_BUDGET \<le> INSTANT_MAX" "length [(''seed:1'', 5::nat), (''peer:2'', 7)] < 2 ^ 32"
    "in_slots (5 + SHUTDOWN_WITHDRAWAL_BUDGET) 5 [(''seed:1'', 5), (''peer:2'', 7)]" "5 < 5 + SHUTDOWN_WITHDRAWAL_BUDGET"
    by (simp_all add: SHUTDOWN_WITHDRAWAL_BUDGET_def secs_def INSTANT_MAX_def numeral_2_eq_2 [symmetric])
  from withdrawal_reaches_seeds [OF _ this, of p] p show ?thesis by fastforce
qed

end
