(* ===== verification/Mdns_Discovery.thy ===== *)
theory Mdns_Discovery
  imports Gossip_Discovery
begin

text \<open>
  The discovery provider on the local network (\<open>nx-core/src/discovery/mdns.rs\<close>): its settings, the
  instances it has seen, the announcements it owns, the loop over the events of the mDNS daemon, and
  the bounded withdrawal at the end. The daemon (\<open>mdns_sd\<close>) is not modelled: what it reports and how its
  calls end are inputs, building a \<open>ServiceInfo\<close> and hashing (\<open>blake3\<close>) are parameters. So is Unicode lower
  case; nothing is assumed of them.
\<close>

section \<open>Settings and services\<close>

definition SERVICE_BASE :: string where "SERVICE_BASE = ''_numax._tcp.local.''"
definition DEFAULT_MAX_INSTANCES :: nat where "DEFAULT_MAX_INSTANCES = 1024"
definition SHUTDOWN_BUDGET :: duration where "SHUTDOWN_BUDGET = secs 4"
definition MAX_OWN_HISTORY :: nat where "MAX_OWN_HISTORY = 1024"

record mdns_config =
  mc_instance_name :: string
  mc_cluster_id :: string
  mc_max_instances :: nat
  mc_max_candidates :: nat
  mc_event_capacity :: nat

definition mdns_config_new :: "string \<Rightarrow> mdns_config" where
  "mdns_config_new name =
     \<lparr>mc_instance_name = name, mc_cluster_id = DEFAULT_DISCOVERY_CLUSTER, mc_max_instances = DEFAULT_MAX_INSTANCES,
      mc_max_candidates = DEFAULT_MAX_PEER_CANDIDATES, mc_event_capacity = DEFAULT_DISCOVERY_EVENT_CAPACITY\<rparr>"

definition mdns_invalid :: "string \<Rightarrow> discovery_error" where
  "mdns_invalid message = InvalidConfiguration ''mdns'' message"

definition mdns_error :: "string \<Rightarrow> bool \<Rightarrow> discovery_error" where
  "mdns_error message retryable = ProviderError ''mdns'' message retryable"

definition mdns_validate_config :: "mdns_config \<Rightarrow> discovery_error + unit" where
  "mdns_validate_config c =
     res_bind (validate_event_capacity ''mdns'' (mc_event_capacity c)) (\<lambda>_.
     if mc_instance_name c = [] \<or> length (mc_instance_name c) > 63
     then Inl (mdns_invalid ''instance_name length must be in 1..=63 bytes'')
     else if has_control (mc_instance_name c) then Inl (mdns_invalid ''instance_name must not contain control characters'')
     else if mc_cluster_id c = [] \<or> length (mc_cluster_id c) > 128
     then Inl (mdns_invalid ''cluster_id length must be in 1..=128 bytes'')
     else if mc_max_instances c = 0 \<or> mc_max_candidates c = 0 then Inl (mdns_invalid ''limits must be greater than zero'')
     else Inr ())"

text \<open>What the code uses of \<open>blake3\<close> (the first 16 hex digits), \<open>ServiceInfo::new\<close> and \<open>to_lowercase\<close>.\<close>

record service_info =
  si_type :: string
  si_instance :: string
  si_hostname :: string
  si_address :: "ip_addr option"
  si_port :: nat
  si_cluster :: string

record mdns_api =
  hash16 :: "string \<Rightarrow> string"
  service_fullname :: "service_info \<Rightarrow> string + string"
  to_lowercase :: "string \<Rightarrow> string"

definition cluster_service_type :: "mdns_api \<Rightarrow> string \<Rightarrow> string" where
  "cluster_service_type M cluster = ''_c'' @ hash16 M cluster @ ''._sub.'' @ SERVICE_BASE"

definition mdns_split_endpoint :: "string \<Rightarrow> discovery_error + string \<times> nat" where
  "mdns_split_endpoint endpoint =
     (case parse_socket_addr endpoint of
        Some (ip, port) \<Rightarrow> Inr (show_ip ip, port)
      | None \<Rightarrow>
          (case rsplit_once CHR '':'' endpoint of
             None \<Rightarrow> Inl (mdns_error ''advertised endpoint must include a port'' False)
           | Some (host, port) \<Rightarrow>
               (case parse_u16 port of
                  None \<Rightarrow> Inl (mdns_error ''advertised endpoint has an invalid port'' False)
                | Some p \<Rightarrow> Inr (host, p))))"

text \<open>A service without an address has its addresses filled in by the daemon.\<close>

definition build_service :: "mdns_api \<Rightarrow> mdns_config \<Rightarrow> string \<Rightarrow> string \<Rightarrow> discovery_error + service_info \<times> string" where
  "build_service M c service_type endpoint =
     res_bind (mdns_split_endpoint endpoint) (\<lambda>(host, port).
       let hostname = ''numax-'' @ hash16 M (mc_instance_name c) @ ''.local.'';
           service = \<lparr>si_type = service_type, si_instance = mc_instance_name c, si_hostname = hostname, si_address = None,
             si_port = port, si_cluster = mc_cluster_id c\<rparr>
       in res_bind (case parse_ip host of
              Some ip \<Rightarrow> Inr (service\<lparr>si_address := Some ip\<rparr>)
            | None \<Rightarrow>
                if suffix ''.local'' host then Inr (service\<lparr>si_hostname := host @ ''.''\<rparr>)
                else Inl (mdns_error ''mDNS announcements require an IP address or .local hostname'' False)) (\<lambda>service.
          res_bind (map_err (\<lambda>e. mdns_error (''invalid mDNS service: '' @ e) False) (service_fullname M service)) (\<lambda>fullname.
            Inr (service, fullname))))"

section \<open>Instances\<close>

record instance_view =
  iv_endpoints :: "string list"
  iv_observed_at :: instant

record mdns_instances =
  mi_views :: "(string, instance_view) omap"
  mi_order :: "string list"

definition remove_instance :: "string \<Rightarrow> mdns_instances \<Rightarrow> mdns_instances \<times> bool" where
  "remove_instance fullname i =
     (if om_contains_key (mi_views i) fullname
      then (i\<lparr>mi_views := om_remove fullname (mi_views i), mi_order := filter (\<lambda>known. known \<noteq> fullname) (mi_order i)\<rparr>, True)
      else (i, False))"

definition used_candidates :: "string \<Rightarrow> mdns_instances \<Rightarrow> nat" where
  "used_candidates fullname i =
     sum_list (map (\<lambda>(_, view). length (iv_endpoints view)) (filter (\<lambda>(name, _). name \<noteq> fullname) (om_entries (mi_views i))))"

definition store_instance :: "instant \<Rightarrow> mdns_config \<Rightarrow> string \<Rightarrow> string list \<Rightarrow> mdns_instances \<Rightarrow> mdns_instances" where
  "store_instance now c fullname es i =
     (let known = om_contains_key (mi_views i) fullname
      in if \<not> known \<and> om_len (mi_views i) \<ge> mc_max_instances c then i
         else
           let es = take (mc_max_candidates c - used_candidates fullname i) es
           in if es = [] then fst (remove_instance fullname i)
              else i\<lparr>mi_order := (if known then mi_order i else mi_order i @ [fullname]),
                     mi_views := om_insert fullname \<lparr>iv_endpoints = es, iv_observed_at = now\<rparr> (mi_views i)\<rparr>)"

definition flatten_instances :: "mdns_instances \<Rightarrow> nat \<Rightarrow> string list" where
  "flatten_instances i limit =
     fold (\<lambda>fullname peers.
       case om_get (mi_views i) fullname of
         None \<Rightarrow> peers
       | Some view \<Rightarrow>
           fold (\<lambda>endpoint peers. if length peers < limit \<and> endpoint \<notin> set peers then peers @ [endpoint] else peers)
             (iv_endpoints view) peers) (mi_order i) []"

definition instance_observation :: "mdns_instances \<Rightarrow> string \<Rightarrow> instant option" where
  "instance_observation i peer =
     (let ts = map iv_observed_at (filter (\<lambda>view. peer \<in> set (iv_endpoints view)) (om_values (mi_views i)))
      in if ts = [] then None else Some (Max (set ts)))"

definition publish_instances :: "mdns_config \<Rightarrow> mdns_instances \<Rightarrow> dynamic_state \<Rightarrow> dynamic_state" where
  "publish_instances c i =
     dyn_observe_at (List.map_filter (\<lambda>peer. map_option (Pair peer) (instance_observation i peer))
       (flatten_instances i (mc_max_candidates c)))"

definition dialable_mdns_address :: "ip_addr \<Rightarrow> nat \<Rightarrow> string option" where
  "dialable_mdns_address ip port =
     (if port = 0 \<or> is_unspecified ip \<or> is_multicast ip then None
      else if is_unicast_link_local ip then None
      else Some (show_socket_addr ip port))"

text \<open>A \<open>BTreeSet\<close> as its sorted list.\<close>

definition bounded_mdns_endpoints :: "ip_addr list \<Rightarrow> nat \<Rightarrow> nat \<Rightarrow> string list" where
  "bounded_mdns_endpoints addresses port limit =
     fold (\<lambda>ip es.
       case dialable_mdns_address ip port of
         None \<Rightarrow> es
       | Some e \<Rightarrow>
           let es = insort_insert e es
           in if length es > limit then butlast es else es) addresses []"

section \<open>Owned announcements\<close>

record owned_announcements =
  oa_current :: "(string \<times> string) option"
  oa_keys :: "string oset"
  oa_names :: "string oset"
  oa_endpoints :: "string oset"
  oa_generation :: nat

definition owned_default :: owned_announcements where
  "owned_default = \<lparr>oa_current = None, oa_keys = om_empty, oa_names = om_empty, oa_endpoints = om_empty, oa_generation = 0\<rparr>"

definition owned_accept :: "mdns_api \<Rightarrow> string \<Rightarrow> string \<Rightarrow> owned_announcements \<Rightarrow> owned_announcements" where
  "owned_accept M fullname endpoint own =
     (let key = to_lowercase M fullname
      in own\<lparr>oa_keys := om_insert key () (oa_keys own), oa_names := om_insert key () (oa_names own),
           oa_endpoints := om_insert endpoint () (oa_endpoints own), oa_current := Some (key, endpoint),
           oa_generation := oa_generation own + 1\<rparr>)"

definition owned_matches :: "mdns_api \<Rightarrow> owned_announcements \<Rightarrow> string \<Rightarrow> string list \<Rightarrow> bool" where
  "owned_matches M own fullname es =
     (os_member (oa_names own) (to_lowercase M fullname) \<or> list_ex (os_member (oa_endpoints own)) es)"

definition owned_name_change ::
    "mdns_api \<Rightarrow> bool \<Rightarrow> string \<Rightarrow> string \<Rightarrow> owned_announcements \<Rightarrow> discovery_error + owned_announcements \<times> bool" where
  "owned_name_change M is_srv original new_name own =
     (if \<not> is_srv \<or> \<not> os_member (oa_names own) (to_lowercase M original) then Inr (own, False)
      else
        let name = to_lowercase M new_name
        in if \<not> os_member (oa_names own) name \<and> om_len (oa_names own) \<ge> MAX_OWN_HISTORY
           then Inl (mdns_error ''mDNS own-name history limit reached'' True)
           else Inr (own\<lparr>oa_names := om_insert name () (oa_names own)\<rparr>, True))"

definition remove_owned_instances :: "mdns_api \<Rightarrow> owned_announcements \<Rightarrow> mdns_instances \<Rightarrow> mdns_instances" where
  "remove_owned_instances M own i =
     (let views = om_filter (\<lambda>name. case om_get (mi_views i) name of
            Some view \<Rightarrow> \<not> owned_matches M own name (iv_endpoints view) | None \<Rightarrow> False) (mi_views i)
      in i\<lparr>mi_views := views, mi_order := filter (om_contains_key views) (mi_order i)\<rparr>)"

text \<open>
  Replacing the announcement: the answer of the daemon to the registration, and how the wait for the
  withdrawal of the previous one ends.
\<close>

datatype withdrawal_outcome = WithdrawnAs "discovery_error + unit" | WithdrawalInterrupted bool | WithdrawalTimedOut

definition withdrawal_result :: "withdrawal_outcome \<Rightarrow> discovery_error + unit" where
  "withdrawal_result outcome =
     (case outcome of
        WithdrawnAs r \<Rightarrow> r
      | WithdrawalInterrupted True \<Rightarrow> Inl (mdns_error ''provider is shut down'' False)
      | WithdrawalInterrupted False \<Rightarrow> Inl (mdns_error ''mDNS announcement task stopped'' True)
      | WithdrawalTimedOut \<Rightarrow> Inl (mdns_error ''mDNS replacement withdrawal timed out'' True))"

definition replacement_config :: "mdns_api \<Rightarrow> mdns_config \<Rightarrow> owned_announcements \<Rightarrow> mdns_config" where
  "replacement_config M c own =
     (if oa_current own = None then c
      else c\<lparr>mc_instance_name := ''nx-'' @ hash16 M (mc_instance_name c) @ ''-'' @ show_nat (oa_generation own)\<rparr>)"

definition replace_announcement ::
    "mdns_api \<Rightarrow> mdns_config \<Rightarrow> string \<Rightarrow> discovery_error + unit \<Rightarrow> withdrawal_outcome \<Rightarrow> owned_announcements
     \<Rightarrow> owned_announcements \<times> (discovery_error + unit)" where
  "replace_announcement M c endpoint registered withdrawal own =
     (if om_len (oa_names own) \<ge> MAX_OWN_HISTORY \<or> om_len (oa_endpoints own) \<ge> MAX_OWN_HISTORY \<or> om_len (oa_keys own) > 1
      then (own, Inl (mdns_error ''mDNS announcement history limit reached'' True))
      else case build_service M (replacement_config M c own) (cluster_service_type M (mc_cluster_id c)) endpoint of
        Inl e \<Rightarrow> (own, Inl e)
      | Inr (service, fullname) \<Rightarrow>
          if os_member (oa_names own) (to_lowercase M fullname)
          then (own, Inl (mdns_error ''mDNS replacement key is already owned'' True))
          else case registered of
            Inl e \<Rightarrow> (own, Inl e)
          | Inr _ \<Rightarrow>
              let o1 = owned_accept M fullname endpoint own
              in case oa_current own of
                   None \<Rightarrow> (o1, Inr ())
                 | Some (previous, _) \<Rightarrow>
                     (case withdrawal_result withdrawal of
                        Inl e \<Rightarrow> (o1, Inl e)
                      | Inr _ \<Rightarrow> (o1\<lparr>oa_keys := om_remove previous (oa_keys o1)\<rparr>, Inr ())))"

section \<open>The loop over events\<close>

text \<open>
  What \<open>run_mdns_events\<close> can meet. \<open>StopSeen\<close> is the shutdown deadline becoming visible; an announcement comes with
  the daemon's answers and with whether the shutdown is visible before and after it.
\<close>

datatype service_event =
    ServiceResolved string "ip_addr list" nat "string option"
  | ServiceRemoved string
  | SearchStopped bool
  | EventStreamEnded
  | OtherServiceEvent

datatype daemon_event = NameChange bool string string | DaemonFailed | MonitorStreamEnded | OtherDaemonEvent

datatype mdns_input =
    StopSeen
  | AnnounceRequested string bool "discovery_error + unit" withdrawal_outcome bool
  | ServiceReported instant service_event
  | DaemonReported daemon_event

record mdns_run =
  mr_owned :: owned_announcements
  mr_instances :: mdns_instances
  mr_view :: dynamic_state
  mr_own_endpoint :: "string option"
  mr_replies :: "(discovery_error + unit) list"
  mr_ended :: "bool option"

definition publish_run :: "mdns_config \<Rightarrow> mdns_instances \<Rightarrow> mdns_run \<Rightarrow> mdns_run" where
  "publish_run c i run = run\<lparr>mr_instances := i, mr_view := publish_instances c i (mr_view run)\<rparr>"

definition forget_instance :: "mdns_config \<Rightarrow> string \<Rightarrow> mdns_run \<Rightarrow> mdns_run" where
  "forget_instance c fullname run =
     (case remove_instance fullname (mr_instances run) of (i, True) \<Rightarrow> publish_run c i run | (_, False) \<Rightarrow> run)"

definition take_announcement ::
    "mdns_api \<Rightarrow> mdns_config \<Rightarrow> string \<Rightarrow> bool \<Rightarrow> discovery_error + unit \<Rightarrow> withdrawal_outcome \<Rightarrow> bool \<Rightarrow> mdns_run \<Rightarrow> mdns_run" where
  "take_announcement M c endpoint stopping registered withdrawal stopping_after run =
     (if stopping
      then run\<lparr>mr_replies := mr_replies run @ [Inl (mdns_error ''provider is shut down'' False)], mr_ended := Some True\<rparr>
      else
        let (own, result) = replace_announcement M c endpoint registered withdrawal (mr_owned run);
            run1 = run\<lparr>mr_owned := own, mr_own_endpoint := (case oa_current own of Some (_, e) \<Rightarrow> Some e | None \<Rightarrow> mr_own_endpoint run)\<rparr>;
            run2 = publish_run c (remove_owned_instances M own (mr_instances run1)) run1
        in run2\<lparr>mr_replies := mr_replies run @ [result],
             mr_ended := (if stopping_after \<or> om_len (oa_keys own) > 1 then Some stopping_after else None)\<rparr>)"

definition take_service_event :: "mdns_api \<Rightarrow> mdns_config \<Rightarrow> instant \<Rightarrow> service_event \<Rightarrow> mdns_run \<Rightarrow> mdns_run" where
  "take_service_event M c now event run =
     (case event of
        ServiceResolved fullname addresses port cluster \<Rightarrow>
          let es = bounded_mdns_endpoints addresses port (mc_max_candidates c)
          in if owned_matches M (mr_owned run) fullname es \<or> cluster \<noteq> Some (mc_cluster_id c)
             then forget_instance c fullname run
             else publish_run c (store_instance now c fullname es (mr_instances run)) run
      | ServiceRemoved fullname \<Rightarrow> forget_instance c fullname run
      | SearchStopped stopping \<Rightarrow> run\<lparr>mr_ended := Some stopping\<rparr>
      | EventStreamEnded \<Rightarrow> run\<lparr>mr_ended := Some False\<rparr>
      | OtherServiceEvent \<Rightarrow> run)"

definition take_daemon_event :: "mdns_api \<Rightarrow> mdns_config \<Rightarrow> daemon_event \<Rightarrow> mdns_run \<Rightarrow> mdns_run" where
  "take_daemon_event M c event run =
     (case event of
        NameChange is_srv original new_name \<Rightarrow>
          (case owned_name_change M is_srv original new_name (mr_owned run) of
             Inl _ \<Rightarrow> run\<lparr>mr_ended := Some False\<rparr>
           | Inr (own, updated) \<Rightarrow>
               let run1 = run\<lparr>mr_owned := own\<rparr>
               in if updated then publish_run c (remove_owned_instances M own (mr_instances run1)) run1 else run1)
      | DaemonFailed \<Rightarrow> run\<lparr>mr_ended := Some False\<rparr>
      | MonitorStreamEnded \<Rightarrow> run\<lparr>mr_ended := Some False\<rparr>
      | OtherDaemonEvent \<Rightarrow> run)"

definition mdns_step :: "mdns_api \<Rightarrow> mdns_config \<Rightarrow> mdns_input \<Rightarrow> mdns_run \<Rightarrow> mdns_run" where
  "mdns_step M c input run =
     (if mr_ended run \<noteq> None then run
      else case input of
        StopSeen \<Rightarrow> run\<lparr>mr_ended := Some True\<rparr>
      | AnnounceRequested endpoint stopping registered withdrawal stopping_after \<Rightarrow>
          take_announcement M c endpoint stopping registered withdrawal stopping_after run
      | ServiceReported now event \<Rightarrow> take_service_event M c now event run
      | DaemonReported event \<Rightarrow> take_daemon_event M c event run)"

text \<open>After the loop the requests that are still queued are refused, and the result is known.\<close>

definition mdns_finish :: "nat \<Rightarrow> bool \<Rightarrow> bool \<Rightarrow> mdns_run \<Rightarrow> mdns_run \<times> (discovery_error + unit)" where
  "mdns_finish queued expected stopping run =
     (let error = (if expected \<or> stopping then mdns_error ''provider is shut down'' False
            else mdns_error ''mDNS announcement task stopped'' True)
      in (run\<lparr>mr_replies := mr_replies run @ replicate queued (Inl error)\<rparr>,
          if expected then Inr () else Inl (mdns_error ''mDNS browse ended unexpectedly'' True)))"

section \<open>The end of a generation\<close>

definition share_deadline :: "instant \<Rightarrow> instant \<Rightarrow> nat \<Rightarrow> instant" where
  "share_deadline now deadline shares =
     min (case instant_checked_add now ((deadline - now) div shares) of Some t \<Rightarrow> t | None \<Rightarrow> deadline) deadline"

text \<open>Withdrawing the keys in order: the time before each, and the daemon's answer (\<open>None\<close> is a timeout).\<close>

definition withdraw_key ::
    "string \<times> (discovery_error + unit) option \<Rightarrow> owned_announcements \<times> (discovery_error + unit) \<Rightarrow> owned_announcements \<times> (discovery_error + unit)" where
  "withdraw_key key_answer state =
     (case key_answer of (key, answer) \<Rightarrow> case state of (own, result) \<Rightarrow>
        case (case answer of Some r \<Rightarrow> r | None \<Rightarrow> Inl (mdns_error ''mDNS unregister acknowledgement timed out'' False)) of
          Inr _ \<Rightarrow> (own\<lparr>oa_keys := om_remove key (oa_keys own)\<rparr>, result)
        | Inl e \<Rightarrow> (own, res_and result (Inl e)))"

definition unregister ::
    "(string \<Rightarrow> (discovery_error + unit) option) \<Rightarrow> owned_announcements \<Rightarrow> owned_announcements \<times> (discovery_error + unit)" where
  "unregister answer own = fold withdraw_key (map (\<lambda>key. (key, answer key)) (om_keys (oa_keys own))) (own, Inr ())"

fun key_deadlines :: "instant \<Rightarrow> instant list \<Rightarrow> instant list" where
  "key_deadlines deadline [] = []"
| "key_deadlines deadline (now # rest) = share_deadline now deadline (length rest + 1) # key_deadlines deadline rest"

record daemon_cleanup =
  dc_owned :: owned_announcements
  dc_finished :: bool

text \<open>
  \<open>shutdown_daemon_until\<close>: the withdrawal may run until half of the time is used; when it is cut off, what has been
  withdrawn until then stays withdrawn (\<open>answer\<close> is \<open>None\<close> for the rest). The daemon is stopped in any case.
\<close>

definition shutdown_daemon_until ::
    "(string \<Rightarrow> (discovery_error + unit) option) \<Rightarrow> bool \<Rightarrow> (discovery_error + unit) option \<Rightarrow> daemon_cleanup
     \<Rightarrow> daemon_cleanup \<times> (discovery_error + unit)" where
  "shutdown_daemon_until answer cut_off terminated d =
     (let (own, unregistered) = unregister answer (dc_owned d);
          withdrawal = (if cut_off then Inl (mdns_error ''mDNS unregister acknowledgement timed out'' False) else unregistered);
          d1 = d\<lparr>dc_owned := own\<rparr>;
          (d2, ending) = (case terminated of
             Some (Inr _) \<Rightarrow> (d1\<lparr>dc_owned := owned_default, dc_finished := True\<rparr>, Inr ())
           | Some (Inl e) \<Rightarrow> (d1, Inl e)
           | None \<Rightarrow> (d1, Inl (mdns_error ''mDNS shutdown acknowledgement timed out'' False)))
      in (d2, res_and withdrawal ending))"

text \<open>What is left to the daemon when a generation is dropped without having finished.\<close>

definition cleanup_fallback :: "daemon_cleanup \<Rightarrow> string list" where
  "cleanup_fallback d = (if dc_finished d then [] else om_keys (oa_keys (dc_owned d)))"

datatype daemon_status = DaemonRunning | DaemonShutdown

definition terminate_result :: "string + daemon_status \<Rightarrow> discovery_error + unit" where
  "terminate_result ack =
     (case ack of
        Inl e \<Rightarrow> Inl (mdns_error (''mDNS shutdown acknowledgement failed: '' @ e) False)
      | Inr status \<Rightarrow>
          if status \<noteq> DaemonShutdown then Inl (mdns_error ''unexpected mDNS shutdown acknowledgement'' False) else Inr ())"

section \<open>The provider\<close>

record mdns_provider =
  mp_config :: mdns_config
  mp_service_type :: string
  mp_state :: dynamic_state
  mp_own_endpoint :: "string option"
  mp_lifecycle :: provider_lifecycle
  mp_announcements :: bool
  mp_deadline :: "instant option"

definition mdns_provider_new :: "mdns_api \<Rightarrow> mdns_config \<Rightarrow> discovery_error + mdns_provider" where
  "mdns_provider_new M c =
     res_bind (mdns_validate_config c) (\<lambda>_.
       Inr \<lparr>mp_config = c, mp_service_type = cluster_service_type M (mc_cluster_id c), mp_state = dynamic_new (mc_event_capacity c),
         mp_own_endpoint = None, mp_lifecycle = lifecycle_new, mp_announcements = False, mp_deadline = None\<rparr>)"

text \<open>The daemon's answers when a generation starts, and the calls that end it again on a failure.\<close>

record daemon_answers =
  da_created :: "string + unit"
  da_monitor :: "string + unit"
  da_browse :: "string + unit"
  da_register :: "string + unit"

datatype daemon_call = StopBrowse | ShutdownDaemonCall

definition start_generation :: "mdns_api \<Rightarrow> daemon_answers \<Rightarrow> mdns_provider \<Rightarrow> daemon_call list \<times> (discovery_error + owned_announcements)" where
  "start_generation M a p =
     (case da_created a of
        Inl e \<Rightarrow> ([], Inl (mdns_error (''cannot start mDNS daemon: '' @ e) False))
      | Inr _ \<Rightarrow>
          (case da_monitor a of
             Inl e \<Rightarrow> ([ShutdownDaemonCall], Inl (mdns_error (''cannot monitor mDNS daemon: '' @ e) True))
           | Inr _ \<Rightarrow>
               (case da_browse a of
                  Inl e \<Rightarrow> ([ShutdownDaemonCall], Inl (mdns_error (''cannot browse mDNS service: '' @ e) True))
                | Inr _ \<Rightarrow>
                    (case mp_own_endpoint p of
                       None \<Rightarrow> ([], Inr owned_default)
                     | Some endpoint \<Rightarrow>
                         (case build_service M (mp_config p) (mp_service_type p) endpoint of
                            Inl e \<Rightarrow> ([], Inl e)
                          | Inr (service, fullname) \<Rightarrow>
                              (case da_register a of
                                 Inl e \<Rightarrow> ([StopBrowse, ShutdownDaemonCall],
                                   Inl (mdns_error (''cannot restore mDNS announcement: '' @ e) True))
                               | Inr _ \<Rightarrow> ([], Inr (owned_accept M fullname endpoint owned_default))))))))"

definition mdns_ensure_started ::
    "mdns_api \<Rightarrow> daemon_answers \<Rightarrow> mdns_provider \<Rightarrow> mdns_provider \<times> (discovery_error + owned_announcements option)" where
  "mdns_ensure_started M a p =
     (case generation_live ''mdns'' (mp_lifecycle p) (mp_state p) of
        Inl e \<Rightarrow> (p, Inl e)
      | Inr True \<Rightarrow> (p, Inr None)
      | Inr False \<Rightarrow>
          (case snd (start_generation M a p) of
             Inl e \<Rightarrow> (p, Inl e)
           | Inr own \<Rightarrow>
               let (lc, s) = spawn_generation (mp_lifecycle p) (mp_state p)
               in (p\<lparr>mp_lifecycle := lc, mp_state := s, mp_announcements := True, mp_deadline := None\<rparr>, Inr (Some own))))"

definition mdns_discover :: "mdns_api \<Rightarrow> daemon_answers \<Rightarrow> mdns_provider \<Rightarrow> mdns_provider \<times> (discovery_error + discovery_snapshot)" where
  "mdns_discover M a p =
     (case mdns_ensure_started M a p of (p', r) \<Rightarrow> (p', res_bind r (\<lambda>_. Inr (dynamic_snapshot (mp_state p')))))"

definition mdns_watch ::
    "mdns_api \<Rightarrow> daemon_answers \<Rightarrow> mdns_provider \<Rightarrow> mdns_provider \<times> (discovery_error + discovery_watch \<times> nat \<times> nat)" where
  "mdns_watch M a p = (case mdns_ensure_started M a p of (p', r) \<Rightarrow> (p', res_bind r (\<lambda>_. live_watch (mp_state p'))))"

text \<open>
  An announcement is queued for the loop, which may refuse it, and its reply is awaited; \<open>q\<close> is the provider when it is
  queued, \<open>None\<close> is a loop that has ended without a reply.
\<close>

definition mdns_announce ::
    "discovery_error + owned_announcements option \<Rightarrow> string \<Rightarrow> string + unit \<Rightarrow> (discovery_error + unit) option \<Rightarrow> mdns_provider
     \<Rightarrow> discovery_error + unit" where
  "mdns_announce started endpoint sent reply q =
     res_bind started (\<lambda>_.
     res_bind (map_err (\<lambda>e. mdns_error (discovery_error_display e) False) (canonicalize_endpoint endpoint)) (\<lambda>_.
       if lc_stopped (mp_lifecycle q) then Inl (mdns_error ''provider is shut down'' False)
       else if \<not> mp_announcements q then Inl (mdns_error ''mDNS daemon is unavailable'' True)
       else
         res_bind (map_err (\<lambda>e. mdns_error (''cannot queue mDNS announcement: '' @ e) True) sent) (\<lambda>_.
           case reply of Some r \<Rightarrow> r | None \<Rightarrow> Inl (mdns_error ''mDNS announcement task stopped'' True))))"

definition deadline_after :: "instant \<Rightarrow> duration \<Rightarrow> instant" where
  "deadline_after now budget = (case instant_checked_add now budget of Some t \<Rightarrow> t | None \<Rightarrow> now)"

definition request_shutdown_with_budget :: "instant \<Rightarrow> duration \<Rightarrow> mdns_provider \<Rightarrow> mdns_provider" where
  "request_shutdown_with_budget now budget p =
     p\<lparr>mp_lifecycle := request_shutdown (mp_lifecycle p), mp_own_endpoint := None,
       mp_deadline := (if lc_task (mp_lifecycle p) \<noteq> None \<and> mp_deadline p = None then Some (deadline_after now budget) else mp_deadline p)\<rparr>"

definition mdns_shutdown :: "instant \<Rightarrow> task_completion option \<Rightarrow> mdns_provider \<Rightarrow> mdns_provider \<times> (discovery_error + unit)" where
  "mdns_shutdown now completion p =
     (let p' = request_shutdown_with_budget now SHUTDOWN_BUDGET p
      in (p', join_generation ''mdns'' completion (mp_lifecycle p')))"

section \<open>What is shown\<close>

definition shown_endpoints :: "mdns_instances \<Rightarrow> string list" where
  "shown_endpoints i = concat (map (\<lambda>name. case om_get (mi_views i) name of None \<Rightarrow> [] | Some view \<Rightarrow> iv_endpoints view) (mi_order i))"

definition held_endpoints :: "(string, instance_view) omap \<Rightarrow> nat" where
  "held_endpoints views = (\<Sum>k \<in> dom (om_get views). length (iv_endpoints (the (om_get views k))))"

text \<open>The order names every instance once, and the limits are kept.\<close>

definition instances_ok :: "mdns_config \<Rightarrow> mdns_instances \<Rightarrow> bool" where
  "instances_ok c i \<longleftrightarrow> distinct (mi_order i) \<and> set (mi_order i) = dom (om_get (mi_views i))
     \<and> om_len (mi_views i) \<le> mc_max_instances c \<and> held_endpoints (mi_views i) \<le> mc_max_candidates c"

lemma used_candidates_eq: "used_candidates name i = held_endpoints (om_remove name (mi_views i))"
proof -
  define rest where "rest = filter (\<lambda>(n, _). n \<noteq> name) (om_entries (mi_views i))"
  let ?get = "om_get (om_remove name (mi_views i))"
  have get: "(k, v) \<in> set rest \<longleftrightarrow> ?get k = Some v" for k v by (auto simp: rest_def om_in_entries)
  have inj: "distinct (map fst rest)" by (simp add: rest_def distinct_map_filter case_prod_unfold)
  then have "sum_list (map (\<lambda>(_, v). length (iv_endpoints v)) rest) = (\<Sum>(k, v) \<in> set rest. length (iv_endpoints v))"
    by (simp add: sum_list_distinct_conv_sum_set distinct_map)
  also have "\<dots> = (\<Sum>x \<in> set rest. length (iv_endpoints (the (?get (fst x)))))"
    by (rule sum.cong [OF refl]) (use get in \<open>auto simp del: om_get_remove\<close>)
  also have "\<dots> = (\<Sum>k \<in> fst ` set rest. length (iv_endpoints (the (?get k))))"
    using inj by (subst sum.reindex) (auto simp: distinct_map)
  also have "fst ` set rest = dom ?get"
  proof (rule set_eqI)
    fix k
    have "k \<in> fst ` set rest \<longleftrightarrow> (\<exists>v. (k, v) \<in> set rest)" by force
    then show "k \<in> fst ` set rest \<longleftrightarrow> k \<in> dom ?get" unfolding get by blast
  qed
  finally show ?thesis by (simp add: used_candidates_def held_endpoints_def rest_def)
qed

lemma held_insert: "held_endpoints (om_insert name view views) = held_endpoints (om_remove name views) + length (iv_endpoints view)"
proof -
  let ?D = "dom (om_get views) - {name}" and ?g = "\<lambda>k. length (iv_endpoints (the (om_get (om_insert name view views) k)))"
  have doms: "dom (om_get (om_insert name view views)) = insert name ?D" "dom (om_get (om_remove name views)) = ?D" by auto
  have "sum ?g (insert name ?D) = ?g name + sum ?g ?D" by (rule sum.insert) simp_all
  moreover have "sum ?g ?D = (\<Sum>k \<in> ?D. length (iv_endpoints (the (om_get (om_remove name views) k))))" by (rule sum.cong) auto
  ultimately show ?thesis unfolding held_endpoints_def doms by simp
qed

lemma held_mono:
  assumes "\<And>k v. om_get views' k = Some v \<Longrightarrow> om_get views k = Some v"
  shows "held_endpoints views' \<le> held_endpoints views"
proof -
  have dom: "dom (om_get views') \<subseteq> dom (om_get views)" using assms by auto
  have "held_endpoints views' = (\<Sum>k \<in> dom (om_get views'). length (iv_endpoints (the (om_get views k))))"
    unfolding held_endpoints_def using assms by (intro sum.cong) auto
  also have "\<dots> \<le> held_endpoints views" unfolding held_endpoints_def by (rule sum_mono2) (use dom in auto)
  finally show ?thesis .
qed

lemma held_remove: "held_endpoints (om_remove name views) \<le> held_endpoints views"
  by (rule held_mono) (auto split: if_splits)

lemma remove_instance_ok: "instances_ok c i \<Longrightarrow> instances_ok c (fst (remove_instance name i))"
proof -
  assume ok: "instances_ok c i"
  have "om_len (om_remove name (mi_views i)) \<le> om_len (mi_views i)" by (rule om_len_mono) auto
  moreover note held_remove [of name "mi_views i"]
  ultimately show ?thesis using ok by (auto simp: remove_instance_def instances_ok_def)
qed

lemma remove_owned_ok: "instances_ok c i \<Longrightarrow> instances_ok c (remove_owned_instances M own i)"
proof -
  assume ok: "instances_ok c i"
  define views where "views = mi_views (remove_owned_instances M own i)"
  have sub: "om_get views k = Some v \<Longrightarrow> om_get (mi_views i) k = Some v" for k v
    by (auto simp: views_def remove_owned_instances_def Let_def om_get_filter split: if_splits)
  then have "om_len views \<le> om_len (mi_views i)" "held_endpoints views \<le> held_endpoints (mi_views i)"
    "dom (om_get views) \<subseteq> dom (om_get (mi_views i))"
    by (auto intro!: om_len_mono held_mono)
  moreover have "mi_order (remove_owned_instances M own i) = filter (om_contains_key views) (mi_order i)"
    by (simp add: views_def remove_owned_instances_def Let_def)
  ultimately show ?thesis
    using ok unfolding instances_ok_def views_def [symmetric] by (auto simp: om_contains_key_iff)
qed

lemma store_instance_ok:
  assumes "instances_ok c i"
  shows "instances_ok c (store_instance now c name es i)"
proof -
  define fit where "fit = take (mc_max_candidates c - used_candidates name i) es"
  let ?v = "\<lparr>iv_endpoints = fit, iv_observed_at = now\<rparr>"
  consider "store_instance now c name es i = i" | "store_instance now c name es i = fst (remove_instance name i)"
    | "fit \<noteq> []" "om_contains_key (mi_views i) name \<or> om_len (mi_views i) < mc_max_instances c"
      "store_instance now c name es i = i\<lparr>mi_order := (if om_contains_key (mi_views i) name then mi_order i else mi_order i @ [name]),
         mi_views := om_insert name ?v (mi_views i)\<rparr>"
    unfolding store_instance_def Let_def fit_def [symmetric]
    by (cases "\<not> om_contains_key (mi_views i) name \<and> om_len (mi_views i) \<ge> mc_max_instances c"; cases "fit = []") (auto simp: not_le)
  then show ?thesis
  proof cases
    case 3
    have used: "held_endpoints (om_remove name (mi_views i)) \<le> mc_max_candidates c"
      using assms held_remove [of name "mi_views i"] by (simp add: instances_ok_def)
    have "held_endpoints (om_insert name ?v (mi_views i)) \<le> mc_max_candidates c"
      using used by (simp add: held_insert fit_def used_candidates_eq)
    with 3(2) assms show ?thesis
      unfolding 3(3) instances_ok_def by (auto simp: om_len_insert om_contains_key_iff)
  qed (use assms remove_instance_ok in auto)
qed

lemma shown_length: "instances_ok c i \<Longrightarrow> length (shown_endpoints i) \<le> mc_max_candidates c"
proof -
  assume ok: "instances_ok c i"
  have "length (shown_endpoints i) = sum_list (map (\<lambda>n. length (case om_get (mi_views i) n of None \<Rightarrow> [] | Some view \<Rightarrow> iv_endpoints view)) (mi_order i))"
    by (simp add: shown_endpoints_def length_concat comp_def)
  also have "\<dots> = (\<Sum>n \<in> set (mi_order i). length (case om_get (mi_views i) n of None \<Rightarrow> [] | Some view \<Rightarrow> iv_endpoints view))"
    using ok by (simp add: sum_list_distinct_conv_sum_set instances_ok_def)
  also have "\<dots> = held_endpoints (mi_views i)"
    unfolding held_endpoints_def using ok by (intro sum.cong) (auto simp: instances_ok_def)
  finally show ?thesis using ok by (simp add: instances_ok_def)
qed

lemma dedup_length: "length (dedup_onto acc xs) \<le> length acc + length xs"
proof (induction xs arbitrary: acc)
  case (Cons x xs)
  from Cons [of acc] Cons [of "acc @ [x]"] show ?case by (auto simp: dedup_step)
qed simp

lemma published_instances:
  assumes "instances_ok c i" "dyn_revision (publish_instances c i s) < u64_max"
  shows "dyn_peers (publish_instances c i s) = dedup_onto [] (shown_endpoints i)"
proof -
  let ?peers = "flatten_instances i (mc_max_candidates c)"
  have "length (dedup_onto [] (shown_endpoints i)) \<le> mc_max_candidates c"
    using dedup_length [of "[]" "shown_endpoints i"] shown_length [OF assms(1)] by simp
  then have flat: "?peers = dedup_onto [] (shown_endpoints i)"
    unfolding flatten_instances_def shown_endpoints_def fold_over_views by (simp add: bounded_dedup)
  have "instance_observation i p \<noteq> None" if "p \<in> set ?peers" for p
  proof -
    have "p \<in> set (shown_endpoints i)" using that by (simp add: flat dedup_onto_props(2))
    then obtain name where "p \<in> set (case om_get (mi_views i) name of None \<Rightarrow> [] | Some view \<Rightarrow> iv_endpoints view)"
      by (auto simp: shown_endpoints_def)
    then obtain view where "om_get (mi_views i) name = Some view" "p \<in> set (iv_endpoints view)" by (cases "om_get (mi_views i) name") auto
    then show ?thesis using om_get_values [of "mi_views i"] by (auto simp: instance_observation_def Let_def filter_empty_conv)
  qed
  then have "map fst (List.map_filter (\<lambda>p. map_option (Pair p) (instance_observation i p)) ?peers) = ?peers" by (rule paired_peers)
  with assms(2) flat show ?thesis unfolding publish_instances_def by (simp add: observed_at_view(1))
qed

section \<open>What a run keeps\<close>

text \<open>No instance is one of the provider's own announcements, and the view shows the instances.\<close>

definition foreign :: "mdns_api \<Rightarrow> owned_announcements \<Rightarrow> mdns_instances \<Rightarrow> bool" where
  "foreign M own i \<longleftrightarrow> (\<forall>name view. om_get (mi_views i) name = Some view \<longrightarrow> \<not> owned_matches M own name (iv_endpoints view))"

definition view_shows :: "mdns_instances \<Rightarrow> dynamic_state \<Rightarrow> bool" where
  "view_shows i s \<longleftrightarrow> (dyn_revision s < u64_max \<longrightarrow> dyn_peers s = dedup_onto [] (shown_endpoints i))"

definition view_ok :: "mdns_api \<Rightarrow> mdns_config \<Rightarrow> mdns_run \<Rightarrow> bool" where
  "view_ok M c run \<longleftrightarrow> instances_ok c (mr_instances run) \<and> foreign M (mr_owned run) (mr_instances run) \<and> view_shows (mr_instances run) (mr_view run)"

lemma publish_run_ok:
  "instances_ok c i \<Longrightarrow> foreign M (mr_owned run) i \<Longrightarrow> view_ok M c (publish_run c i run)"
  by (simp add: view_ok_def publish_run_def view_shows_def published_instances)

lemma foreign_sub: "foreign M own i \<Longrightarrow> (\<And>k v. om_get (mi_views j) k = Some v \<Longrightarrow> om_get (mi_views i) k = Some v) \<Longrightarrow> foreign M own j"
  unfolding foreign_def by blast

lemma foreign_removed: "foreign M own (remove_owned_instances M own i)"
  by (auto simp: foreign_def remove_owned_instances_def Let_def om_get_filter split: if_splits)

lemma foreign_stored:
  assumes "foreign M own i" "\<not> owned_matches M own name es"
  shows "foreign M own (store_instance now c name es i)"
proof -
  have "foreign M own (fst (remove_instance name i))"
    by (rule foreign_sub [OF assms(1)]) (auto simp: remove_instance_def split: if_splits)
  moreover have "\<not> owned_matches M own name (take n es)" for n
    using assms(2) by (auto simp: owned_matches_def list_ex_iff dest: in_set_takeD)
  ultimately show ?thesis
    using assms(1) unfolding store_instance_def Let_def by (auto simp: foreign_def)
qed

lemma forget_ok:
  assumes "view_ok M c run"
  shows "view_ok M c (forget_instance c name run)"
proof -
  obtain i b where rem: "remove_instance name (mr_instances run) = (i, b)" by fastforce
  have "instances_ok c i" using remove_instance_ok [of c "mr_instances run" name] assms rem by (simp add: view_ok_def)
  moreover have "foreign M (mr_owned run) i"
    by (rule foreign_sub [of M "mr_owned run" "mr_instances run"]) (use assms rem in \<open>auto simp: view_ok_def remove_instance_def split: if_splits\<close>)
  ultimately show ?thesis using assms rem by (cases b) (simp_all add: forget_instance_def publish_run_ok)
qed

lemma service_event_ok: "view_ok M c run \<Longrightarrow> view_ok M c (take_service_event M c now event run)"
proof (cases event)
  case (ServiceResolved name addresses port cluster)
  assume ok: "view_ok M c run"
  have "view_ok M c (publish_run c (store_instance now c name es (mr_instances run)) run)" if "\<not> owned_matches M (mr_owned run) name es" for es
    using ok that by (intro publish_run_ok store_instance_ok foreign_stored) (auto simp: view_ok_def)
  with ok ServiceResolved show ?thesis by (simp add: take_service_event_def Let_def forget_ok)
qed (simp_all add: take_service_event_def forget_ok, simp_all add: view_ok_def)

lemma daemon_event_ok: "view_ok M c run \<Longrightarrow> view_ok M c (take_daemon_event M c event run)"
proof (cases event)
  case (NameChange is_srv original new_name)
  assume ok: "view_ok M c run"
  show ?thesis
  proof (cases "owned_name_change M is_srv original new_name (mr_owned run)")
    case (Inl e)
    with ok NameChange show ?thesis by (simp add: take_daemon_event_def view_ok_def)
  next
    case (Inr r)
    obtain own updated where r: "r = (own, updated)" by fastforce
    have "own = mr_owned run" if "\<not> updated"
      using Inr r that by (auto simp: owned_name_change_def Let_def split: if_splits)
    moreover have "view_ok M c (publish_run c (remove_owned_instances M own (mr_instances run)) (run\<lparr>mr_owned := own\<rparr>))"
      using ok by (intro publish_run_ok remove_owned_ok) (auto simp: view_ok_def foreign_removed)
    ultimately show ?thesis using ok NameChange Inr r by (simp add: take_daemon_event_def Let_def view_ok_def)
  qed
qed (simp_all add: take_daemon_event_def view_ok_def)

lemma announcement_ok:
  assumes "view_ok M c run"
  shows "view_ok M c (take_announcement M c e stopping registered withdrawal ending run)"
proof -
  obtain own r where rep: "replace_announcement M c e registered withdrawal (mr_owned run) = (own, r)" by fastforce
  let ?run = "run\<lparr>mr_owned := own, mr_own_endpoint := (case oa_current own of Some (_, e) \<Rightarrow> Some e | None \<Rightarrow> mr_own_endpoint run)\<rparr>"
  have "view_ok M c (publish_run c (remove_owned_instances M own (mr_instances run)) ?run)"
    using assms by (intro publish_run_ok remove_owned_ok) (auto simp: view_ok_def foreign_removed)
  then show ?thesis using assms rep by (simp add: take_announcement_def Let_def view_ok_def)
qed

lemma mdns_step_ok: "view_ok M c run \<Longrightarrow> view_ok M c (mdns_step M c input run)"
  using announcement_ok service_event_ok daemon_event_ok
  by (cases input) (auto simp: mdns_step_def, simp add: view_ok_def)

lemma mdns_run_ok: "view_ok M c run \<Longrightarrow> view_ok M c (fold (mdns_step M c) inputs run)"
  by (induction inputs arbitrary: run) (simp_all add: mdns_step_ok)

definition mdns_run_start :: "owned_announcements \<Rightarrow> string option \<Rightarrow> dynamic_state \<Rightarrow> mdns_run" where
  "mdns_run_start own endpoint s =
     \<lparr>mr_owned = own, mr_instances = \<lparr>mi_views = om_empty, mi_order = []\<rparr>, mr_view = s, mr_own_endpoint = endpoint, mr_replies = [], mr_ended = None\<rparr>"


section \<open>Announcements that are owned\<close>

definition owned_ok :: "owned_announcements \<Rightarrow> bool" where
  "owned_ok own \<longleftrightarrow> os_set (oa_keys own) \<subseteq> os_set (oa_names own) \<and> card (os_set (oa_keys own)) \<le> 2
     \<and> (case oa_current own of None \<Rightarrow> os_set (oa_keys own) = {} | Some (key, endpoint) \<Rightarrow> key \<in> os_set (oa_keys own) \<and> endpoint \<in> os_set (oa_endpoints own))"

lemma owned_default_ok: "owned_ok owned_default"
  by (simp add: owned_ok_def owned_default_def)

lemma owned_accept_first: "owned_ok (owned_accept M fullname endpoint owned_default)"
  "os_set (oa_keys (owned_accept M fullname endpoint owned_default)) = {to_lowercase M fullname}"
  by (simp_all add: owned_ok_def owned_accept_def owned_default_def Let_def)

lemma replace_announcement_ok:
  assumes "owned_ok own" "card (os_set (oa_keys own)) \<le> 1" "replace_announcement M c endpoint registered withdrawal own = (own', r)"
  shows "owned_ok own' \<and> (r = Inr () \<longrightarrow> card (os_set (oa_keys own')) = 1 \<and> (\<exists>key. oa_current own' = Some (key, endpoint)))
    \<and> os_set (oa_keys own) - os_set (oa_keys own') \<subseteq> (if withdrawal_result withdrawal = Inr () then os_set (oa_keys own) else {})"
proof -
  consider (kept) "own' = own" "r \<noteq> Inr ()" | (fresh) fullname where "to_lowercase M fullname \<notin> os_set (oa_names own)"
      "oa_current own = None \<and> own' = owned_accept M fullname endpoint own \<and> r = Inr ()
      \<or> (\<exists>previous e. oa_current own = Some (previous, e) \<and>
          (withdrawal_result withdrawal \<noteq> Inr () \<and> own' = owned_accept M fullname endpoint own \<and> r \<noteq> Inr ()
           \<or> withdrawal_result withdrawal = Inr () \<and> r = Inr ()
             \<and> own' = (owned_accept M fullname endpoint own)\<lparr>oa_keys := om_remove previous (oa_keys (owned_accept M fullname endpoint own))\<rparr>))"
    using assms(3)
    by (cases "withdrawal_result withdrawal")
      (auto simp: replace_announcement_def Let_def split: if_splits sum.splits option.splits prod.splits
        dest!: sym [of "Inl _" "withdrawal_result withdrawal"])
  then show ?thesis
  proof cases
    case kept
    with assms(1) show ?thesis by simp
  next
    case fresh
    let ?key = "to_lowercase M fullname"
    have accepted: "os_set (oa_keys (owned_accept M fullname endpoint own)) = insert ?key (os_set (oa_keys own))"
      "os_set (oa_names (owned_accept M fullname endpoint own)) = insert ?key (os_set (oa_names own))"
      "endpoint \<in> os_set (oa_endpoints (owned_accept M fullname endpoint own))"
      "oa_current (owned_accept M fullname endpoint own) = Some (?key, endpoint)"
      by (simp_all add: owned_accept_def Let_def)
    have removed: "os_set (om_remove k ks) = os_set ks - {k}" for k :: string and ks by (simp flip: os_dom)
    from fresh(2) show ?thesis
    proof (elim disjE exE conjE)
      assume none: "oa_current own = None" "own' = owned_accept M fullname endpoint own" "r = Inr ()"
      then have "os_set (oa_keys own) = {}" using assms(1) by (simp add: owned_ok_def)
      with none accepted show ?thesis by (simp add: owned_ok_def)
    next
      fix previous e
      assume prev: "oa_current own = Some (previous, e)" "withdrawal_result withdrawal \<noteq> Inr ()" "own' = owned_accept M fullname endpoint own" "r \<noteq> Inr ()"
      have "card (insert ?key (os_set (oa_keys own))) \<le> 2" using assms(2) by (simp add: card_insert_if)
      with prev accepted assms(1) show ?thesis by (auto simp: owned_ok_def)
    next
      fix previous e
      assume prev: "oa_current own = Some (previous, e)" "withdrawal_result withdrawal = Inr ()" "r = Inr ()"
        "own' = (owned_accept M fullname endpoint own)\<lparr>oa_keys := om_remove previous (oa_keys (owned_accept M fullname endpoint own))\<rparr>"
      have "previous \<in> os_set (oa_keys own)" using prev(1) assms(1) by (simp add: owned_ok_def)
      then have "os_set (oa_keys own) = {previous}" using assms(2) by (auto simp: card_le_Suc0_iff_eq)
      moreover have "previous \<noteq> ?key" using fresh(1) \<open>previous \<in> _\<close> assms(1) by (auto simp: owned_ok_def)
      ultimately have "os_set (oa_keys own') = {?key}" using prev(4) accepted(1) by (auto simp: removed)
      with prev accepted assms(1) show ?thesis by (auto simp: owned_ok_def)
    qed
  qed
qed

definition run_owned_ok :: "mdns_run \<Rightarrow> bool" where
  "run_owned_ok run \<longleftrightarrow> owned_ok (mr_owned run) \<and> (mr_ended run = None \<longrightarrow> card (os_set (oa_keys (mr_owned run))) \<le> 1)"

lemma publish_run_owned [simp]: "mr_owned (publish_run c i run) = mr_owned run" "mr_ended (publish_run c i run) = mr_ended run"
  by (simp_all add: publish_run_def)

lemma forget_owned [simp]: "mr_owned (forget_instance c name run) = mr_owned run" "mr_ended (forget_instance c name run) = mr_ended run"
  by (auto simp: forget_instance_def split: prod.splits bool.splits)

lemma name_change_ok:
  "owned_name_change M b x y own = Inr (own', u) \<Longrightarrow> oa_keys own' = oa_keys own \<and> (owned_ok own \<longrightarrow> owned_ok own')"
  by (auto simp: owned_name_change_def owned_ok_def Let_def split: if_splits option.splits prod.splits)

lemma mdns_step_owned:
  assumes "run_owned_ok run"
  shows "run_owned_ok (mdns_step M c input run)"
proof (cases "mr_ended run = None")
  case True
  then have own: "owned_ok (mr_owned run)" "card (os_set (oa_keys (mr_owned run))) \<le> 1" using assms by (simp_all add: run_owned_ok_def)
  show ?thesis
  proof (cases input)
    case (AnnounceRequested e stopping registered withdrawal ending)
    obtain own' r where rep: "replace_announcement M c e registered withdrawal (mr_owned run) = (own', r)" by fastforce
    from replace_announcement_ok [OF own rep] own True rep AnnounceRequested show ?thesis
      by (simp add: mdns_step_def take_announcement_def run_owned_ok_def Let_def os_len_card)
  next
    case (ServiceReported now event)
    with own True show ?thesis by (cases event) (simp_all add: mdns_step_def take_service_event_def run_owned_ok_def Let_def)
  next
    case (DaemonReported event)
    with own True show ?thesis
      by (cases event) (auto simp: mdns_step_def take_daemon_event_def run_owned_ok_def Let_def dest!: name_change_ok split: sum.splits)
  qed (use own True in \<open>simp add: mdns_step_def run_owned_ok_def\<close>)
qed (use assms in \<open>simp add: mdns_step_def\<close>)

lemma withdraw_key_confirmed: "withdraw_key (k, Some (Inr ())) (own, r) = (own\<lparr>oa_keys := om_remove k (oa_keys own)\<rparr>, r)"
  by (simp add: withdraw_key_def)

lemma withdraw_key_refused: "answer \<noteq> Some (Inr ()) \<Longrightarrow> \<exists>e. withdraw_key (k, answer) (own, r) = (own, Inl e)"
  by (cases r) (auto simp: withdraw_key_def res_and_def split: option.splits sum.splits)


section \<open>The endpoints of an instance\<close>

lemma insort_end: "\<forall>y \<in> set ys. y < x \<Longrightarrow> insort x ys = ys @ [x]"
  by (induction ys) (auto simp: not_le [symmetric])

lemma take_insort: "take n (insort x (take n xs)) = take n (insort x xs)"
proof (induction xs arbitrary: n)
  case (Cons y ys)
  show ?case
  proof (cases n)
    case (Suc m)
    have "take m (y # take m ys) = take m (y # ys)" by (cases m) simp_all
    with Cons [of m] show ?thesis by (simp add: Suc)
  qed simp
qed simp

lemma take_insort_insert:
  assumes "sorted xs" "distinct xs"
  shows "take n (insort_insert x (take n xs)) = take n (insort_insert x xs)"
proof (cases "x \<in> set xs \<and> x \<notin> set (take n xs)")
  case True
  then have "x \<in> set (drop n xs)" by (metis Un_iff append_take_drop_id set_append)
  then have n: "n < length xs" using not_le_imp_less by fastforce
  have "\<forall>y \<in> set (take n xs). \<forall>z \<in> set (drop n xs). y \<le> z" using assms(1) by (metis append_take_drop_id sorted_append)
  then have "\<forall>y \<in> set (take n xs). y < x" using \<open>x \<in> set (drop n xs)\<close> True by (auto simp: order_le_less)
  with True n show ?thesis by (simp add: insort_insert_key_def insort_end)
next
  case False
  then show ?thesis by (auto simp: insort_insert_key_def take_insort dest: in_set_takeD)
qed

text \<open>
  The endpoints of an instance are the least of its dialable addresses: which of them are kept does not depend on the order in
  which the daemon lists them.
\<close>

theorem mdns_endpoints_least:
  "bounded_mdns_endpoints addresses port limit
   = take limit (sorted_list_of_set {e. \<exists>ip \<in> set addresses. dialable_mdns_address ip port = Some e})"
proof -
  let ?step = "\<lambda>ip es. case dialable_mdns_address ip port of None \<Rightarrow> es | Some e \<Rightarrow>
    let es = insort_insert e es in if length es > limit then butlast es else es"
  have step: "?step ip (take limit (sorted_list_of_set A)) = take limit (sorted_list_of_set (A \<union> set_option (dialable_mdns_address ip port)))"
    if "finite A" for ip A
  proof (cases "dialable_mdns_address ip port")
    case (Some e)
    let ?es = "insort_insert e (take limit (sorted_list_of_set A))"
    have len: "length ?es \<le> Suc limit" by (simp add: insort_insert_key_def min_le_iff_disj)
    have "(if length ?es > limit then butlast ?es else ?es) = take limit ?es"
      using len by (auto simp: butlast_conv_take le_Suc_eq)
    also have "\<dots> = take limit (insort_insert e (sorted_list_of_set A))" by (rule take_insort_insert) simp_all
    also have "insort_insert e (sorted_list_of_set A) = sorted_list_of_set (insert e A)"
      using that by (cases "e \<in> A") (simp_all add: insort_insert_key_def insert_absorb)
    finally show ?thesis by (simp add: Some Let_def)
  qed simp
  have "fold ?step as (take limit (sorted_list_of_set A))
      = take limit (sorted_list_of_set (A \<union> {e. \<exists>ip \<in> set as. dialable_mdns_address ip port = Some e}))" if "finite A" for as A
    using that
  proof (induction as arbitrary: A)
    case (Cons ip as)
    have "finite (A \<union> set_option (dialable_mdns_address ip port))" using Cons.prems by (cases "dialable_mdns_address ip port") auto
    moreover have "A \<union> set_option (dialable_mdns_address ip port) \<union> {e. \<exists>ip \<in> set as. dialable_mdns_address ip port = Some e}
        = A \<union> {e. \<exists>ip \<in> set (ip # as). dialable_mdns_address ip port = Some e}" by auto
    ultimately show ?case using Cons.IH step [OF Cons.prems, of ip] by simp
  qed simp
  from this [of "{}" addresses] show ?thesis by (simp add: bounded_mdns_endpoints_def)
qed

section \<open>A generation with one neighbour\<close>

definition example_mdns :: mdns_api where
  "example_mdns = \<lparr>hash16 = (\<lambda>_. ''0123456789abcdef''), service_fullname = (\<lambda>service. Inr (si_instance service @ ''.'' @ si_type service)),
     to_lowercase = to_ascii_lowercase\<rparr>"

definition example_neighbour :: mdns_input where
  "example_neighbour = ServiceReported 5 (ServiceResolved ''b'' [V4 [10, 0, 0, 2]] 80 (Some ''default''))"

lemma example_neighbour_endpoint: "bounded_mdns_endpoints [V4 [10, 0, 0, 2]] 80 n = take n [''10.0.0.2:80'']"
proof -
  have "show_nat 10 = ''10''" "show_nat 0 = ''0''" "show_nat 2 = ''2''" "show_nat 80 = ''80''"
    unfolding show_nat_def by code_simp+
  then have "dialable_mdns_address (V4 [10, 0, 0, 2]) 80 = Some ''10.0.0.2:80''"
    by (simp add: dialable_mdns_address_def is_unspecified_def is_multicast_def is_unicast_link_local_def show_socket_addr_def show_ip_def show_v4_def)
  then show ?thesis by (simp add: mdns_endpoints_least)
qed



end
