(* ===== verification/Runtime_Discovery.thy ===== *)
theory Runtime_Discovery
  imports Mdns_Discovery
begin

text \<open>
  The discovery settings of a runtime and the providers built from them (\<open>build_runtime_discovery\<close> of
  \<open>nx-core/src/discovery.rs\<close>), and what the candidate coordinator makes of these providers. The provider
  that is built is one of the models of the other theories; of the trait \<open>PeerDiscovery\<close> the coordinator
  asks for the cluster and the support of announcements at this point.
\<close>

section \<open>Settings\<close>

record bootstrap_settings =
  bs_seeds :: "string list"
  bs_refresh_interval :: duration
  bs_retry_initial :: duration
  bs_retry_max :: duration
  bs_stale_after :: duration
  bs_max_seeds :: nat

definition bootstrap_settings_new :: "string list \<Rightarrow> bootstrap_settings" where
  "bootstrap_settings_new seeds =
     (let defaults = gossip_config_new seeds
      in \<lparr>bs_seeds = seeds, bs_refresh_interval = gc_refresh_interval defaults, bs_retry_initial = gc_retry_initial defaults,
          bs_retry_max = gc_retry_max defaults, bs_stale_after = gc_stale_after defaults, bs_max_seeds = gc_max_seeds defaults\<rparr>)"

record mdns_settings =
  ms_instance_name :: string
  ms_max_instances :: nat

definition mdns_settings_new :: "string \<Rightarrow> mdns_settings" where
  "mdns_settings_new name = \<lparr>ms_instance_name = name, ms_max_instances = mc_max_instances (mdns_config_new name)\<rparr>"

record dns_settings =
  dss_service_name :: string
  dss_retry_interval :: duration
  dss_max_refresh_interval :: duration

definition dns_settings_new :: "string \<Rightarrow> dns_settings" where
  "dns_settings_new service =
     (let defaults = dns_srv_config_new service
      in \<lparr>dss_service_name = service, dss_retry_interval = ds_retry_interval defaults,
          dss_max_refresh_interval = ds_max_refresh_interval defaults\<rparr>)"

record file_settings =
  fs_path :: string
  fs_poll_interval :: duration
  fs_max_file_bytes :: nat

definition file_settings_new :: "string \<Rightarrow> file_settings" where
  "file_settings_new path =
     (let defaults = file_watch_config_new path
      in \<lparr>fs_path = path, fs_poll_interval = fw_poll_interval defaults, fs_max_file_bytes = fw_max_file_bytes defaults\<rparr>)"

datatype runtime_discovery_mode =
    StaticMode
  | BootstrapMode bootstrap_settings
  | MdnsMode mdns_settings
  | DnsSrvMode dns_settings
  | FileMode file_settings

record runtime_discovery =
  rd_cluster_id :: string
  rd_advertised_endpoint :: "string option"
  rd_max_candidates :: nat
  rd_mode :: runtime_discovery_mode

definition runtime_discovery_default :: runtime_discovery where
  "runtime_discovery_default =
     \<lparr>rd_cluster_id = DEFAULT_DISCOVERY_CLUSTER, rd_advertised_endpoint = None, rd_max_candidates = DEFAULT_MAX_PEER_CANDIDATES,
      rd_mode = StaticMode\<rparr>"

section \<open>Providers\<close>

datatype built_provider =
    StaticProvider static_discovery
  | GossipProvider gossip_provider
  | MdnsProvider mdns_provider
  | DnsProvider dns_provider
  | FileProvider file_provider

text \<open>The trait's default is the default cluster; the static provider does not override it.\<close>

fun provider_cluster_id :: "built_provider \<Rightarrow> string" where
  "provider_cluster_id (StaticProvider p) = DEFAULT_DISCOVERY_CLUSTER"
| "provider_cluster_id (GossipProvider p) = gc_cluster_id (gp_config p)"
| "provider_cluster_id (MdnsProvider p) = mc_cluster_id (mp_config p)"
| "provider_cluster_id (DnsProvider p) = ds_cluster_id (dp_config p)"
| "provider_cluster_id (FileProvider p) = fw_cluster_id (fp_config p)"

fun provider_support :: "built_provider \<Rightarrow> announcement_support" where
  "provider_support (GossipProvider p) = AnnouncementRequired"
| "provider_support (MdnsProvider p) = AnnouncementRequired"
| "provider_support _ = AnnouncementUnsupported"

definition discovery_provider_new :: "string \<times> built_provider \<Rightarrow> discovery_source" where
  "discovery_provider_new named =
     (case named of (source, p) \<Rightarrow>
        \<lparr>source_id = source, source_cluster = provider_cluster_id p, candidate_ttl = None, source_support = provider_support p\<rparr>)"

definition with_candidate_ttl :: "duration \<Rightarrow> discovery_source \<Rightarrow> discovery_source" where
  "with_candidate_ttl ttl s = s\<lparr>candidate_ttl := Some ttl\<rparr>"

definition gossip_config_for :: "runtime_discovery \<Rightarrow> bootstrap_settings \<Rightarrow> gossip_config" where
  "gossip_config_for config b =
     (gossip_config_new (bs_seeds b))\<lparr>gc_cluster_id := rd_cluster_id config, gc_refresh_interval := bs_refresh_interval b,
        gc_retry_initial := bs_retry_initial b, gc_retry_max := bs_retry_max b, gc_stale_after := bs_stale_after b,
        gc_max_seeds := bs_max_seeds b, gc_max_candidates := rd_max_candidates config\<rparr>"

definition client_config_for :: "node_id \<Rightarrow> sync_config \<Rightarrow> runtime_discovery \<Rightarrow> bootstrap_client_config" where
  "client_config_for node sync config =
     (client_config_new node)\<lparr>bcc_tls := cfg_tls sync, bcc_max_message_size := cfg_max_message_size sync,
        bcc_socket_timeout := cfg_socket_timeout sync, bcc_serialization_format := cfg_serialization_format sync,
        bcc_max_response_candidates := rd_max_candidates config\<rparr>"

text \<open>What the constructors read from their surroundings: the limit of semaphores, the clock, \<open>mdns_sd\<close> and the resolver.\<close>

record build_env =
  be_max_permits :: nat
  be_now :: instant
  be_mdns :: mdns_api
  be_name_valid :: "string \<Rightarrow> bool"
  be_resolver :: "string + unit"

definition built :: "string \<Rightarrow> ('p \<Rightarrow> built_provider) \<Rightarrow> discovery_error + 'p \<Rightarrow> discovery_error + (string \<times> built_provider) list" where
  "built name wrap r = res_bind r (\<lambda>p. Inr [(name, wrap p)])"

definition build_provider ::
    "build_env \<Rightarrow> node_id \<Rightarrow> sync_config \<Rightarrow> runtime_discovery \<Rightarrow> discovery_error + (string \<times> built_provider) list" where
  "build_provider E node sync config =
     (case rd_mode config of
        StaticMode \<Rightarrow> Inr []
      | BootstrapMode b \<Rightarrow>
          built ''bootstrap'' GossipProvider
            (gossip_provider_new (be_max_permits E) (be_now E) (gossip_config_for config b) (client_config_for node sync config))
      | MdnsMode m \<Rightarrow>
          built ''mdns'' MdnsProvider
            (mdns_provider_new (be_mdns E) ((mdns_config_new (ms_instance_name m))\<lparr>mc_cluster_id := rd_cluster_id config,
               mc_max_instances := ms_max_instances m, mc_max_candidates := rd_max_candidates config\<rparr>))
      | DnsSrvMode d \<Rightarrow>
          built ''dns-srv'' DnsProvider
            (dns_provider_new (be_name_valid E) (be_resolver E) (be_now E)
               ((dns_srv_config_new (dss_service_name d))\<lparr>ds_cluster_id := rd_cluster_id config,
                  ds_retry_interval := dss_retry_interval d, ds_max_refresh_interval := dss_max_refresh_interval d,
                  ds_max_candidates := rd_max_candidates config\<rparr>))
      | FileMode f \<Rightarrow>
          built ''file'' FileProvider
            (file_provider_new (be_now E) ((file_watch_config_new (fs_path f))\<lparr>fw_cluster_id := rd_cluster_id config,
               fw_poll_interval := fs_poll_interval f, fw_max_file_bytes := fs_max_file_bytes f,
               fw_max_candidates := rd_max_candidates config\<rparr>)))"

definition runtime_config_for :: "runtime_discovery \<Rightarrow> discovery_runtime_config" where
  "runtime_config_for config =
     (let runtime = drc_with_max_candidates (rd_max_candidates config)
            (drc_with_cluster_id (rd_cluster_id config) discovery_runtime_config_default)
      in case rd_advertised_endpoint config of Some e \<Rightarrow> drc_with_advertised_endpoint e runtime | None \<Rightarrow> runtime)"

definition build_runtime_discovery ::
    "build_env \<Rightarrow> node_id \<Rightarrow> sync_config \<Rightarrow> runtime_discovery
     \<Rightarrow> discovery_error + (string \<times> built_provider) list \<times> discovery_runtime_config" where
  "build_runtime_discovery E node sync config =
     (let static = (if rd_mode config = StaticMode \<or> cfg_peers sync \<noteq> []
            then [(''static'', StaticProvider (static_new (cfg_peers sync)))] else [])
      in res_bind (build_provider E node sync config) (\<lambda>dynamic. Inr (static @ dynamic, runtime_config_for config)))"

section \<open>What the coordinator makes of them\<close>

lemma built_provider:
  assumes "build_provider E node sync config = Inr ps"
  obtains "rd_mode config = StaticMode" "ps = []"
  | name p where "rd_mode config \<noteq> StaticMode" "ps = [(name, p)]" "name \<in> {''bootstrap'', ''mdns'', ''dns-srv'', ''file''}"
      "provider_cluster_id p = rd_cluster_id config"
  using assms
  by (cases "rd_mode config")
    (auto simp: build_provider_def built_def gossip_provider_new_def mdns_provider_new_def dns_provider_new_def dns_with_resolver_def
      file_provider_new_def gossip_config_for_def res_bind_Inr_iff split: if_splits)

lemma identifiers_valid:
  "validate_identifier ''source_id'' ''static'' = Inr ()" "validate_identifier ''source_id'' ''bootstrap'' = Inr ()"
  "validate_identifier ''source_id'' ''mdns'' = Inr ()" "validate_identifier ''source_id'' ''dns-srv'' = Inr ()"
  "validate_identifier ''source_id'' ''file'' = Inr ()"
  by code_simp+

definition endpoint_valid :: "runtime_discovery \<Rightarrow> bool" where
  "endpoint_valid config \<longleftrightarrow>
     (\<forall>endpoint. rd_advertised_endpoint config = Some endpoint \<longrightarrow>
       (\<exists>host port e. parse_host_port True endpoint = Inr (host, port) \<and> canonicalize_host_port host (max port 1) = Inr e))"

lemma runtime_config_fields:
  "drc_cluster_id (runtime_config_for config) = rd_cluster_id config" "drc_max_candidates (runtime_config_for config) = rd_max_candidates config"
  "drc_advertised_endpoint (runtime_config_for config) = rd_advertised_endpoint config"
  by (simp_all add: runtime_config_for_def Let_def drc_with_cluster_id_def drc_with_max_candidates_def drc_with_advertised_endpoint_def
      discovery_runtime_config_default_def split: option.splits)

lemma config_accepts:
  "validate_discovery_config sources (runtime_config_for config) = Inr () \<longleftrightarrow>
     validate_identifier ''cluster_id'' (rd_cluster_id config) = Inr () \<and> endpoint_valid config
     \<and> (\<exists>ids. fold_res (validate_source (runtime_config_for config)) sources [] = Inr ids)"
  by (auto simp: validate_discovery_config_def runtime_config_fields endpoint_valid_def res_bind_Inr_iff split: option.splits)

text \<open>
  C31. The coordinator accepts the providers a runtime builds, if the cluster and the advertised endpoint are valid, unless the
  cluster is not the default one and there is a static provider, which is there in static mode and whenever
  peers are configured: it always reports the default cluster, and the coordinator refuses to start.
\<close>

theorem runtime_discovery_accepted:
  assumes "build_runtime_discovery E node sync config = Inr (providers, runtime)"
  shows "validate_discovery_config (map discovery_provider_new providers) runtime = Inr () \<longleftrightarrow>
    validate_identifier ''cluster_id'' (rd_cluster_id config) = Inr () \<and> endpoint_valid config
    \<and> (rd_cluster_id config = DEFAULT_DISCOVERY_CLUSTER \<or> rd_mode config \<noteq> StaticMode \<and> cfg_peers sync = [])"
proof -
  define static where "static = (if rd_mode config = StaticMode \<or> cfg_peers sync \<noteq> []
    then [(''static'', StaticProvider (static_new (cfg_peers sync)))] else [])"
  obtain ps where ps: "build_provider E node sync config = Inr ps" "providers = static @ ps" "runtime = runtime_config_for config"
    using assms by (auto simp: build_runtime_discovery_def static_def Let_def res_bind_Inr_iff)
  have sources: "(\<exists>ids. fold_res (validate_source (runtime_config_for config)) (map discovery_provider_new (static @ ps)) [] = Inr ids) \<longleftrightarrow>
      rd_cluster_id config = DEFAULT_DISCOVERY_CLUSTER \<or> static = []"
    using ps(1)
  proof (rule built_provider)
    assume "rd_mode config = StaticMode" "ps = []"
    then show ?thesis by (auto simp: static_def validate_source_def discovery_provider_new_def identifiers_valid runtime_config_fields)
  next
    fix name p
    assume "rd_mode config \<noteq> StaticMode" and p: "ps = [(name, p)]" "name \<in> {''bootstrap'', ''mdns'', ''dns-srv'', ''file''}"
      "provider_cluster_id p = rd_cluster_id config"
    then have "validate_identifier ''source_id'' name = Inr ()" "name \<noteq> ''static''" using identifiers_valid by auto
    with p show ?thesis
      by (auto simp: static_def validate_source_def discovery_provider_new_def identifiers_valid runtime_config_fields)
  qed
  show ?thesis unfolding ps(2,3) config_accepts sources by (auto simp: static_def)
qed

theorem runtime_discovery_accepted_witness:
  "let config = runtime_discovery_default\<lparr>rd_cluster_id := ''production''\<rparr>; E = \<lparr>be_max_permits = 100000, be_now = 5, be_mdns = example_mdns,
         be_name_valid = (\<lambda>_. True), be_resolver = Inr ()\<rparr>
   in \<exists>providers runtime. build_runtime_discovery E (NodeId ''n'') sync_config_default config = Inr (providers, runtime)
        \<and> validate_discovery_config (map discovery_provider_new providers) runtime \<noteq> Inr ()"
proof -
  let ?config = "runtime_discovery_default\<lparr>rd_cluster_id := ''production''\<rparr>"
  let ?E = "\<lparr>be_max_permits = 100000, be_now = 5, be_mdns = example_mdns, be_name_valid = (\<lambda>_. True), be_resolver = Inr ()\<rparr>"
  have fields: "rd_mode ?config = StaticMode" "rd_cluster_id ?config \<noteq> DEFAULT_DISCOVERY_CLUSTER"
    by (simp_all add: runtime_discovery_default_def DEFAULT_DISCOVERY_CLUSTER_def)
  then obtain providers runtime where built: "build_runtime_discovery ?E (NodeId ''n'') sync_config_default ?config = Inr (providers, runtime)"
    by (simp add: build_runtime_discovery_def build_provider_def)
  from runtime_discovery_accepted [OF built] fields built show ?thesis by (simp add: Let_def)
qed

end
