(* ===== verification/Spec2Isabelle.thy ===== *)
theory Spec2Isabelle
  imports Replica_Runs Guest_Db Migration Node_Peers Runtime_Discovery
begin

text \<open>
  Verification of the replication core of numax, a runtime that executes WebAssembly modules
  whose state is a set of conflict-free replicated data types, kept in an embedded store and
  exchanged between nodes as operations.

  \<^bold>\<open>How the parts interact.\<close> A guest module calls the SDK (\<open>nx-sdk\<close>), which calls the host
  functions of \<open>nx-core/src/host_api/crdt.rs\<close>. A mutating host call applies an operation to the
  registries, persists the new state (\<open>sync_manager/storage.rs\<close> over \<open>nx-store\<close>) and queues the
  operation. The broadcast loop (\<open>replication.rs\<close>) remembers queued operations in the seen window
  and the operation log and sends them; the event loop hands batches of other nodes to
  \<open>apply.rs\<close>, which drops what the window has seen, persists the rest in one store batch and
  installs it. Pull requests are answered from the log. \<open>manager.rs\<close> builds all of this from a
  store and \<open>peer.rs\<close> decides when a lost peer is dialled again. Below it, a node (\<open>nx-net\<close>) dials and
  accepts connections, verifies who is at the other end, keeps the table of peers, and turns what
  it reads into the events of the event loop; a seed also answers bootstrap requests. Which peers are
  dialled is what discovery providers find: each publishes numbered snapshots to its watches, and the candidate
  coordinator (\<open>candidates.rs\<close>) merges them into the list the reconnect pass reads.

  \<^bold>\<open>Theories and sources.\<close>

  \<^item> \<open>Numax_Prelude\<close>, \<open>Ordered_Map\<close>: machine integers at their width, saturation, results with
    early return, byte strings and UTF-8, and \<open>BTreeMap\<close>/\<open>HashMap\<close> as strictly sorted association
    lists; locales \<open>pointwise_merge\<close> and \<open>semilattice_merge\<close> for maps merged key by key.
  \<^item> \<open>Crdt_Laws\<close>: locales \<open>state_crdt\<close> (merge) and \<open>op_crdt\<close> (operations that commute) with the
    convergence lemmas, interpreted on every data type.
  \<^item> \<open>Sync_Op\<close> (\<open>nx-sync/src/op.rs\<close>, \<open>node_id.rs\<close>), \<open>Counter_Crdt\<close>, \<open>Lww_Crdt\<close>, \<open>Orset_Crdt\<close>,
    \<open>Rga_Crdt\<close> (\<open>nx-sync/src/crdt\<close>): one record per struct and one definition per method; convergence,
    exact values, observed removal, the order of arrays.
  \<^item> \<open>Kv_Store\<close> (\<open>nx-store\<close>), \<open>Store_Keys\<close> (\<open>types.rs\<close>), \<open>Store_Schema\<close> (\<open>schema.rs\<close>): the store over
    \<open>sled\<close>, the key layout and the table headers; locale \<open>kv_contract\<close>, interpreted on the store:
    refinement of a map, atomic batches, exact paging, disjoint tables.
  \<^item> \<open>Op_Tracking\<close> (\<open>types.rs\<close>, \<open>replication.rs\<close>): the seen window, eviction plans and the log.
  \<^item> \<open>Sync_Storage\<close>, \<open>Storage_Recovery\<close>, \<open>Tracking_Recovery\<close> (\<open>storage.rs\<close>): persistence and
    hydration, what the contents of the store represent, and that hydration reads it back; locale
    \<open>crdt_table\<close>, interpreted on the six types.
  \<^item> \<open>Remote_Apply\<close> (\<open>apply.rs\<close>), \<open>Op_Delivery\<close>: application of batches, and the abstract \<open>deliver\<close>
    it refines; locale \<open>registry_ops\<close>, interpreted on the six types.
  \<^item> \<open>Runtime_Metrics\<close> (\<open>observability.rs\<close>), \<open>Peer_Health\<close> (\<open>peer.rs\<close>, loops of \<open>replication.rs\<close>),
    \<open>Sync_Config\<close> (\<open>sync_config.rs\<close>): counters and histogram, health state machine, backoff,
    reconnect pass, validation.
  \<^item> \<open>Replication\<close> (\<open>replication.rs\<close>), \<open>Durable_Replica\<close>, \<open>Replica_Runs\<close>: broadcast batches, node
    events, the invariant \<open>durable\<close> and its preservation, histories and \<open>reachable\<close> states.
  \<^item> \<open>Sync_Manager\<close> (\<open>manager.rs\<close>, \<open>NodeConfig\<close> of \<open>nx-net/src/node.rs\<close>): construction, start with
    its roll-backs, getters.
  \<^item> \<open>Host_Crdt\<close>, \<open>Host_Outcomes\<close> (\<open>host_api/crdt.rs\<close>), \<open>Guest_Sdk\<close>, \<open>Guest_Host\<close> (\<open>nx-sdk\<close>): the host
    functions and what they do, the SDK's decoders and retry loop, and both ends together.
  \<^item> \<open>Host_Db\<close> (\<open>host_api/db.rs\<close>), \<open>Guest_Db\<close> (\<open>nx-sdk/src/db.rs\<close>): the key/value host functions as
    operations on a sorted map that leave the reserved keys alone, and the guest's scans over pages.
  \<^item> \<open>Migration\<close> (\<open>migration.rs\<close>): checkpoints, migration steps and batches, and the driving loop; it
    returns, can be interrupted and taken up again, and touches only headers and checkpoints.
  \<^item> \<open>Wire_Message\<close> (\<open>nx-net/src/message.rs\<close>, framing of \<open>node.rs\<close>): messages, wire messages, frames
    and streams; conversations are read as they were sent, and reading is bounded.
  \<^item> \<open>Endpoint\<close>, \<open>Bootstrap\<close> (\<open>nx-net/src/bootstrap.rs\<close>): advertised endpoints and their canonical form;
    the cache of a seed, its answers, and a client that accepts only what it has checked.
  \<^item> \<open>Transport\<close> (\<open>nx-net/src/tls.rs\<close>, \<open>connect_transport\<close> and \<open>verify_peer_identity\<close> of \<open>node.rs\<close>): TLS
    settings, identities from certificates, formats and versions.
  \<^item> \<open>Node_Handshake\<close> (\<open>handle_incoming\<close>, \<open>connect_to_peer\<close>, \<open>read_messages\<close> of \<open>node.rs\<close>): both sides of a
    handshake come to the same agreement, and the read loop reports exactly what arrived.
  \<^item> \<open>Node_Peers\<close> (\<open>Node\<close> in \<open>node.rs\<close>, \<open>peer.rs\<close>): the table of peers as a step relation; the limit on
    peers, verified identities, exact broadcasts, final shutdown.
  \<^item> \<open>Discovery\<close> (\<open>nx-core/src/discovery.rs\<close>, \<open>discovery/dynamic.rs\<close>): snapshots, revisions and watches, the
    static provider, the state that dynamic providers share and their supervision; a watch shows its
    consumer only views the provider had, in order.
  \<^item> \<open>Candidates\<close> (\<open>sync_manager/candidates.rs\<close>): canonical endpoints, the registry of contributions with
    leases, the coordinator and the tasks that follow providers; what is published, when leases
    end, and that sources do not disturb each other.
  \<^item> \<open>Polled_Discovery\<close> (\<open>discovery/file_watch.rs\<close>, \<open>dns_srv.rs\<close>), \<open>Gossip_Discovery\<close> (\<open>bootstrap_gossip.rs\<close>): the
    providers over a file, DNS-SRV records and bootstrap seeds; what they show is the last valid file, an
    answer that has not expired, or fresh views of seeds, and failing seeds are left alone.
  \<^item> \<open>Mdns_Discovery\<close> (\<open>discovery/mdns.rs\<close>): the provider on the local network; its view stays within its limits
    and never shows itself, and it withdraws what it has registered.
  \<^item> \<open>Runtime_Discovery\<close> (\<open>build_runtime_discovery\<close> in \<open>discovery.rs\<close>): the providers a runtime builds from its
    settings, and which of them the coordinator accepts.
  \<^item> \<open>Sample_Replica\<close>: concrete instances of the parameters for the witnesses.

  This theory holds the properties that span components: batches refine delivery, replicas
  converge, reachable states are durable, a restart recovers the replica, a pull closes the gap,
  and host calls refine delivery.

  \<^bold>\<open>State and parameters.\<close> State is passed explicitly; a Rust \<open>Result\<close> is a sum with the error on
  the left. Locks held over a whole operation make it one step, so an interleaving is a sequence
  of steps. Code outside the repository is a parameter: \<open>sled\<close> (a database with an abstraction to a
  sorted map, every call of which may fail; \<open>sled_ok\<close>), \<open>serde_json\<close> and \<open>bincode\<close> (\<open>serde\<close>, with the
  round trip \<open>serde_ok\<close>), the network node (\<open>node_api\<close>), discovery (\<open>start_env\<close>), the linear memory
  of the engine (\<open>memory_api\<close>, with \<open>memory_ok\<close>), the encoders of messages (\<open>wire_codec\<close>, with
  \<open>wire_codec_ok\<close>), the decoders of stored values (\<open>materialized_decoders\<close>), files, sockets and
  \<open>rustls\<close> (\<open>net_os\<close>), X.509 and hashing (\<open>identity_api\<close>), the mDNS daemon (\<open>mdns_api\<close> and its answers),
  what providers read when they are built (\<open>build_env\<close>), the broadcast channel of events (what it delivers,
  \<open>broadcast_delivers\<close>: a sender's events in order, or a report that some were lost), UUIDs and the clock. \<open>Sample_Replica\<close>, \<open>Guest_Host\<close>,
  \<open>Bootstrap\<close> and \<open>Node_Handshake\<close> instantiate them. A step of a node that changes its table sends the
  event of the change, which the code sends right after it has released the lock.

  \<^bold>\<open>Bounds and fuel.\<close> The array traversal takes fuel, and \<open>rga_sequence_well_defined\<close> shows that one
  unit more than there are elements suffices. The retry loop of the SDK and the migration loop are partial functions into
  \<open>option\<close>; \<open>sdk_retry_terminates\<close> and \<open>migration_completes\<close> show that they return.
  \<open>read_messages\<close> terminates because every message uses up bytes of the stream. \<open>Instant\<close> and \<open>Duration\<close> are nanosecond counts with
  the representable range written out. Sequence numbers are \<open>u64\<close>; durability asks that they do
  not run out (\<open>batch_fits\<close>) and that a batch is not longer than the log limit.

  \<^bold>\<open>Not modelled.\<close> What sockets and TLS sessions do inside, generated certificates, the resolver
  and the mDNS daemon, task spawning and the times of joining and aborting
  tasks, the compilation and caching of modules (\<open>runtime.rs\<close>), the other host functions, the HTTP
  API and the command line: I/O around external libraries.
\<close>

section \<open>Batches of remote operations\<close>

lemma apply_remote_fails_view:
  assumes "sled_ok (store_sled (sync_store s)) \<alpha>" "apply_remote_ops J elapsed ops s = (s', Inl e)"
  shows "sync_view \<alpha> s' = sync_view \<alpha> s"
proof -
  let ?ys = "new_ops (window_ids s) ops" and ?U = "ops_updates (sync_registries s) (new_ops (window_ids s) ops) no_updates"
  have ops: "ops \<noteq> []" using assms(2) by (auto simp: apply_remote_ops_def)
  obtain st q where q: "persist_remote_ops_batch J (fst (batch_plans s ?ys)) ?U (sync_store s) = (st, q)" by fastforce
  then have fail: "q = Inl e" "s' = s\<lparr>sync_store := st, sync_metrics := record_remote_op_batch (length ops) 0
      (length ops - length ?ys) elapsed True (sync_metrics s)\<rparr>"
    using assms(2) unfolding apply_remote_ops_result [OF ops] by (auto split: sum.splits)
  have "fst (batch_plans s ?ys) \<noteq> []" using q fail(1) by (auto simp: persist_remote_ops_batch_def st_lift_def)
  from persist_remote_outcome(2) [OF assms(1) this q fail(1)] show ?thesis by (simp add: fail(2))
qed



section \<open>Replicas\<close>

text \<open>
  C2. Replicas converge: two replicas that start from the same registries and the same seen
  operations and accept the same new operations end with the same registries, whatever the
  batches, their order, the duplicates within and across them and the batches that failed and
  were retried, provided the seen windows have room for all of them, identifiers are unique,
  and timestamps and element identifiers are not reused with other contents.
\<close>

theorem replicas_converge:
  assumes "sync_wf s" "sync_wf t" "sync_registries s = sync_registries t" "window_ids s = window_ids t"
    and "registries_written_by V E (sync_registries s)"
    and "run_batches J batches s = (s', xs)" "run_batches J' batches' t = (t', ys)"
    and "op_key ` set xs - window_ids s = op_key ` set ys - window_ids s"
    and "\<forall>x \<in> set xs \<union> set ys. op_written_by V E x" "inj_on op_key (set xs \<union> set ys)"
    and "window_len s + card (op_key ` set xs - window_ids s) \<le> seen_limit (seen_ops_window s)"
    and "window_len t + card (op_key ` set ys - window_ids t) \<le> seen_limit (seen_ops_window t)"
  shows "sync_registries s' = sync_registries t'"
proof -
  from run_batches_deliver [OF assms(1,6,11)] obtain us where
    us: "sync_registries s' = fold deliver us (sync_registries s)" "distinct (map op_key us)"
      "op_key ` set us = op_key ` set xs - window_ids s" "set us \<subseteq> set xs" by blast
  from run_batches_deliver [OF assms(2,7,12)] obtain vs where
    vs: "sync_registries t' = fold deliver vs (sync_registries t)" "distinct (map op_key vs)"
      "op_key ` set vs = op_key ` set ys - window_ids t" "set vs \<subseteq> set ys" by blast
  have "fold deliver us (sync_registries s) = fold deliver vs (sync_registries s)"
  proof (rule deliver_same_ops [OF assms(5)])
    show "\<forall>x \<in> set us \<union> set vs. op_written_by V E x" using assms(9) us(4) vs(4) by blast
    show "inj_on op_key (set us \<union> set vs)" using assms(10) us(4) vs(4) by (blast intro: inj_on_subset)
    show "op_key ` set us = op_key ` set vs" using us(3) vs(3) assms(4,8) by simp
  qed (rule us vs)+
  then show ?thesis using us(1) vs(1) assms(3) by simp
qed

theorem replicas_converge_witness:
  "sync_registries (fst (run_batches sample_serde [([sample_op, other_op, sample_op], 5)] (empty_replica 4 8)))
   = sync_registries (fst (run_batches sample_serde [([other_op, sample_op], 5)] (empty_replica 4 8)))"
proof -
  let ?s = "empty_replica 4 8" and ?xs = "[sample_op, other_op, sample_op]" and ?ys = "[other_op, sample_op]"
  obtain s' t' where run: "apply_remote_ops sample_serde 5 ?xs ?s = (s', Inr ())" "apply_remote_ops sample_serde 5 ?ys ?s = (t', Inr ())"
    using sample_batch_accepted by metis
  then have runs: "run_batches sample_serde [(?xs, 5)] ?s = (s', ?xs)" "run_batches sample_serde [(?ys, 5)] ?s = (t', ?ys)" by simp_all
  have wf: "sync_wf ?s" using durable_empty [of sample_serde 4 8] by (simp add: durable_def)
  have ids: "op_key sample_op = ''u1''" "op_key other_op = ''u2''" "window_ids ?s = {}" "sync_registries ?s = no_updates"
    "window_len ?s = 0" "seen_limit (seen_ops_window ?s) = 8"
    by (simp_all add: sample_op_def other_op_def op_constructors op_id_generate_def empty_replica_def seen_ops_new_def
        normalize_seen_ops_limit_def)
  have written: "op_written_by V E sample_op" "op_written_by V E other_op" for V E
    by (simp_all add: op_written_by_def sample_op_def other_op_def op_constructors)
  have "sync_registries s' = sync_registries t'"
    by (rule replicas_converge [OF wf wf refl refl _ runs]) (auto simp: ids written inj_on_def card_insert_if)
  then show ?thesis by (simp only: runs fst_conv)
qed



text \<open>
  C4. A restart recovers the replica: constructing a manager on the store of a durable replica,
  with a log limit not above the window limit, gives back the same registries, the newest
  entries of the window and of the log that the new limits allow, and a durable replica.
\<close>

theorem restart_recovers_replica:
  assumes "durable J \<alpha> s" "serde_ok J"
    and "try_new_with_discovery J max_permits now node config metrics (sync_store s) = (st', Inr mgr)"
    and "normalize_op_log_limit (cfg_op_log_limit config) \<le> normalize_seen_ops_limit (cfg_seen_ops_limit config)"
  shows "sync_registries (manager_sync mgr) = sync_registries s
    \<and> seen_order (seen_ops_window (manager_sync mgr)) =
        last_n (normalize_seen_ops_limit (cfg_seen_ops_limit config)) (seen_order (seen_ops_window s))
    \<and> op_log (manager_sync mgr) = last_n (normalize_op_log_limit (cfg_op_log_limit config)) (op_log s)
    \<and> durable J \<alpha> (manager_sync mgr)"
  using restart_durable [OF assms] by blast

theorem restart_recovers_replica_witness:
  "\<exists>st mgr. try_new_with_discovery sample_serde 100000 7 (NodeId ''n1'') sync_config_default runtime_metrics_default
      (sync_store (empty_replica 4 8)) = (st, Inr mgr) \<and> durable sample_serde id (manager_sync mgr)"
proof -
  have valid: "sync_config_validate 100000 7 sync_config_default = Inr ()"
    unfolding sync_config_validate_Inr
    by (simp add: sync_config_default_def DEFAULT_QUEUED_OPS_LIMIT_def DEFAULT_MAX_PEERS_def DEFAULT_SOCKET_TIMEOUT_def
        DEFAULT_RECONNECT_INITIAL_DELAY_def DEFAULT_RECONNECT_MAX_DELAY_def DEFAULT_ANTI_ENTROPY_INTERVAL_def
        secs_def millis_def INSTANT_MAX_def)
  have store: "sync_store (empty_replica 4 8) = mem_store om_empty" by (simp add: empty_replica_def)
  obtain st mgr where run: "try_new_with_discovery sample_serde 100000 7 (NodeId ''n1'') sync_config_default runtime_metrics_default
      (sync_store (empty_replica 4 8)) = (st, Inr mgr)"
    unfolding store using try_new_fresh [OF valid] by metis
  have "serde_ok sample_serde" by (simp add: sample_serde_def Let_def serde_ok_table)
  from restart_recovers_replica [OF durable_empty this run] have "durable sample_serde id (manager_sync mgr)"
    by (simp add: sync_config_default_def DEFAULT_OP_LOG_LIMIT_def DEFAULT_SEEN_OPS_LIMIT_def normalize_op_log_limit_def
        normalize_seen_ops_limit_def)
  with run show ?thesis by blast
qed

section \<open>Anti-entropy\<close>

lemma op_log_since_subset: "set (op_log_since log since) \<subseteq> set log"
  by (auto simp: op_log_since_def split: option.splits dest: in_set_dropD)



section \<open>Calls of guest modules\<close>

text \<open>
  C5. A mutating host call refines delivery. On a durable replica every such call either delivers
  to the registries exactly the operation it queues, with the identifier drawn for it and the
  node as its origin, and returns a code that is not negative, or changes neither registries nor
  queue and returns a code that is not positive. In both cases the store holds the registries and
  the seen window and the log are left to the broadcast loop. An array insertion whose identifier
  cannot be written back is the one exception: delivered, not queued, and an internal error.
\<close>

theorem host_calls_refine_delivery:
  assumes "host_handle s = Some h" "durable J \<alpha> (handle_sync h)" "utf8_valid (as_bytes uuid)"
    and "host_dispatch M J uuid clock cmd s = (s', code)"
  shows "\<exists>h'. host_handle s' = Some h' \<and> durable J \<alpha> (handle_sync h')
    \<and> seen_ops_window (handle_sync h') = seen_ops_window (handle_sync h) \<and> op_log (handle_sync h') = op_log (handle_sync h)
    \<and> (op_queued uuid h h' \<and> 0 \<le> code \<or> nothing_done h h' \<and> code \<le> 0
       \<or> is_rga_insert cmd \<and> insert_unsent uuid h h' \<and> code = ERR_INTERNAL)"
  using command_outcome [OF assms] by (auto simp: local_outcome_def handle_kept_def)

theorem host_calls_refine_delivery_witness:
  "\<exists>h'. host_handle (fst (host_dispatch list_memory sample_serde ''u1'' 7 (CallGCounterInc 0 1 3) (sample_host no_updates key_memory)))
      = Some h' \<and> durable sample_serde id (handle_sync h')"
proof -
  let ?s = "sample_host no_updates key_memory"
  obtain h where h: "host_handle ?s = Some h" "handle_sync h = (empty_replica 4 8)\<lparr>sync_registries := no_updates\<rparr>"
    by (simp add: sample_host_def)
  have "handle_sync h = empty_replica 4 8" by (simp add: h(2) empty_replica_def)
  then have dur: "durable sample_serde id (handle_sync h)" by (simp add: durable_empty)
  have "utf8_valid (as_bytes ''u1'')" by (simp add: as_bytes_def)
  from host_calls_refine_delivery [OF h(1) dur this surjective_pairing] show ?thesis by blast
qed

end
